(* ===== verification/Prelude.thy ===== *)
theory Prelude
  imports
    Main
    "HOL-Library.Word"
    "HOL-Library.Char_ord"
    "HOL-Library.List_Lexorder"
    "HOL-Library.Product_Lexorder"
    "HOL-Library.Option_ord"
begin

text \<open>
  What every component shares: bytes and machine integers, results with an error
  branch, the slice, string and iterator operations of the Rust standard library that
  the sources call, UTF-8 validation and the lossy decoding, and little-endian encodings.
  A \<open>string\<close> (a list of 8-bit characters) is a Rust byte slice and also the UTF-8
  bytes of a Rust \<open>str\<close>.
\<close>

named_theorems result_simps \<open>how the result combinators meet Inl and Inr\<close>
named_theorems seg_simps \<open>facts on splitting and joining byte strings\<close>

type_synonym bytes = string
type_synonym u32 = "32 word"
type_synonym u64 = "64 word"
type_synonym u128 = "128 word"

section \<open>Results\<close>

type_synonym ('a, 'e) result = "'e + 'a"

fun result_bind :: "('e + 'a) \<Rightarrow> ('a \<Rightarrow> 'e + 'b) \<Rightarrow> 'e + 'b" where
  "result_bind (Inl e) f = Inl e"
| "result_bind (Inr x) f = f x"

fun ok_or :: "'e \<Rightarrow> 'a option \<Rightarrow> 'e + 'a" where
  "ok_or e None = Inl e"
| "ok_or e (Some x) = Inr x"

fun collect_results :: "('e + 'a) list \<Rightarrow> 'e + 'a list" where
  "collect_results [] = Inr []"
| "collect_results (r # rs) =
     result_bind r (\<lambda>x. result_bind (collect_results rs) (\<lambda>xs. Inr (x # xs)))"

lemma result_bind_Inr [result_simps]:
  "result_bind r f = Inr y \<longleftrightarrow> (\<exists>x. r = Inr x \<and> f x = Inr y)"
  by (cases r) auto

lemma result_bind_Inl [result_simps]:
  "result_bind r f = Inl e \<longleftrightarrow> r = Inl e \<or> (\<exists>x. r = Inr x \<and> f x = Inl e)"
  by (cases r) auto

lemma ok_or_Inr [result_simps]: "ok_or e m = Inr x \<longleftrightarrow> m = Some x"
  by (cases m) auto

lemma ok_or_Inl [result_simps]: "ok_or e m = Inl e' \<longleftrightarrow> m = None \<and> e' = e"
  by (cases m) auto

lemma collect_results_Inr:
  "collect_results rs = Inr xs \<longleftrightarrow> rs = map Inr xs"
  by (induction rs arbitrary: xs) (auto simp: result_simps Cons_eq_map_conv)

lemma collect_results_map:
  "collect_results (map f xs) = Inr ys \<Longrightarrow> length ys = length xs"
  by (drule collect_results_Inr [THEN iffD1]) (metis length_map)

section \<open>Slices and iterators\<close>

text \<open>\<open>slice::split\<close>: the segments between the elements that satisfy the predicate.\<close>

fun split_on :: "('a \<Rightarrow> bool) \<Rightarrow> 'a list \<Rightarrow> 'a list list" where
  "split_on p [] = [[]]"
| "split_on p (x # xs) =
     (if p x then [] # split_on p xs
      else (x # hd (split_on p xs)) # tl (split_on p xs))"

fun join_with :: "'a \<Rightarrow> 'a list list \<Rightarrow> 'a list" where
  "join_with s [] = []"
| "join_with s [x] = x"
| "join_with s (x # y # ys) = x @ s # join_with s (y # ys)"

lemma split_on_ne [simp]: "split_on p xs \<noteq> []"
  by (induction xs) auto

lemma split_on_segment: "seg \<in> set (split_on p xs) \<Longrightarrow> x \<in> set seg \<Longrightarrow> \<not> p x"
proof (induction xs arbitrary: seg)
  case Nil
  then show ?case by simp
next
  case (Cons y ys)
  obtain z zs where "split_on p ys = z # zs" by (cases "split_on p ys") auto
  with Cons show ?case by (force split: if_splits)
qed

lemma split_on_clean [seg_simps]: "\<forall>x \<in> set xs. \<not> p x \<Longrightarrow> split_on p xs = [xs]"
  by (induction xs) auto

lemma split_on_append [seg_simps]:
  "\<forall>x \<in> set xs. \<not> p x \<Longrightarrow> p s \<Longrightarrow> split_on p (xs @ s # ys) = xs # split_on p ys"
  by (induction xs) auto

lemma split_on_join:
  assumes "xss \<noteq> []" and "p s" and "\<forall>xs \<in> set xss. \<forall>x \<in> set xs. \<not> p x"
  shows "split_on p (join_with s xss) = xss"
  using assms
  by (induction s xss rule: join_with.induct) (simp_all add: seg_simps)

lemma join_with_Cons: "xs \<noteq> [] \<Longrightarrow> join_with s (x # xs) = x @ s # join_with s xs"
  by (cases xs) auto

lemma join_split: "join_with s (split_on (\<lambda>x. x = s) xs) = xs"
proof (induction xs)
  case (Cons x xs)
  show ?case
  proof (cases "x = s")
    case False
    obtain y ys where ys: "split_on (\<lambda>x. x = s) xs = y # ys"
      by (cases "split_on (\<lambda>x. x = s) xs") auto
    with Cons False show ?thesis by (cases ys) auto
  qed (simp add: Cons join_with_Cons)
qed simp

lemma split_on_iff:
  "split_on (\<lambda>x. x = s) xs = xss \<longleftrightarrow>
     xss \<noteq> [] \<and> xs = join_with s xss \<and> (\<forall>seg \<in> set xss. s \<notin> set seg)"
proof
  assume split: "split_on (\<lambda>x. x = s) xs = xss"
  show "xss \<noteq> [] \<and> xs = join_with s xss \<and> (\<forall>seg \<in> set xss. s \<notin> set seg)"
  proof (intro conjI ballI)
    show "xss \<noteq> []" using split by auto
    show "xs = join_with s xss" using join_split [of s xs] split by simp
    show "s \<notin> set seg" if "seg \<in> set xss" for seg
      using split_on_segment [of seg "\<lambda>x. x = s" xs s] split that by auto
  qed
next
  assume join: "xss \<noteq> [] \<and> xs = join_with s xss \<and> (\<forall>seg \<in> set xss. s \<notin> set seg)"
  then have "split_on (\<lambda>x. x = s) (join_with s xss) = xss"
    by (intro split_on_join) auto
  with join show "split_on (\<lambda>x. x = s) xs = xss" by simp
qed

lemma set_split_on: "(\<Union>seg \<in> set (split_on p xs). set seg) \<subseteq> set xs"
proof (induction xs)
  case (Cons y ys)
  obtain z zs where "split_on p ys = z # zs" by (cases "split_on p ys") auto
  with Cons show ?case by auto
qed simp

definition strip_prefix :: "'a list \<Rightarrow> 'a list \<Rightarrow> 'a list option" where
  "strip_prefix p xs = (if take (length p) xs = p then Some (drop (length p) xs) else None)"

definition strip_suffix :: "'a list \<Rightarrow> 'a list \<Rightarrow> 'a list option" where
  "strip_suffix p xs =
     (if length p \<le> length xs \<and> drop (length xs - length p) xs = p
      then Some (take (length xs - length p) xs) else None)"

definition starts_with :: "'a list \<Rightarrow> 'a list \<Rightarrow> bool" where
  "starts_with p xs \<longleftrightarrow> take (length p) xs = p"

definition split_once :: "'a \<Rightarrow> 'a list \<Rightarrow> ('a list \<times> 'a list) option" where
  "split_once c xs =
     (case dropWhile (\<lambda>x. x \<noteq> c) xs of
        [] \<Rightarrow> None | _ # rest \<Rightarrow> Some (takeWhile (\<lambda>x. x \<noteq> c) xs, rest))"

definition rsplit_once :: "'a \<Rightarrow> 'a list \<Rightarrow> ('a list \<times> 'a list) option" where
  "rsplit_once c xs = map_option (\<lambda>(a, b). (rev b, rev a)) (split_once c (rev xs))"

lemma strip_prefix_Some: "strip_prefix p xs = Some ys \<longleftrightarrow> xs = p @ ys"
  by (auto simp: strip_prefix_def) (metis append_take_drop_id)

lemma strip_prefix_None: "strip_prefix p xs = None \<longleftrightarrow> \<not> starts_with p xs"
  by (simp add: strip_prefix_def starts_with_def)

lemma starts_with_iff: "starts_with p xs \<longleftrightarrow> (\<exists>ys. xs = p @ ys)"
  by (auto simp: starts_with_def) (metis append_take_drop_id)

lemma strip_suffix_Some: "strip_suffix p xs = Some ys \<longleftrightarrow> xs = ys @ p"
  by (auto simp: strip_suffix_def) (metis append_take_drop_id)

lemma split_once_Some:
  "split_once c xs = Some (a, b) \<longleftrightarrow> xs = a @ c # b \<and> c \<notin> set a"
proof
  assume "split_once c xs = Some (a, b)"
  then obtain y where d: "dropWhile (\<lambda>x. x \<noteq> c) xs = y # b" and a: "a = takeWhile (\<lambda>x. x \<noteq> c) xs"
    by (auto simp: split_once_def split: list.splits)
  have "y = c" using hd_dropWhile [of "\<lambda>x. x \<noteq> c" xs] d by auto
  moreover have "xs = takeWhile (\<lambda>x. x \<noteq> c) xs @ dropWhile (\<lambda>x. x \<noteq> c) xs" by simp
  ultimately show "xs = a @ c # b \<and> c \<notin> set a"
    using d a by (metis (mono_tags) set_takeWhileD)
next
  assume asm: "xs = a @ c # b \<and> c \<notin> set a"
  then have "\<forall>x \<in> set a. x \<noteq> c" by auto
  with asm show "split_once c xs = Some (a, b)"
    by (simp add: split_once_def dropWhile_append2 takeWhile_append2)
qed

lemma split_once_None: "split_once c xs = None \<longleftrightarrow> c \<notin> set xs"
proof
  assume none: "split_once c xs = None"
  show "c \<notin> set xs"
  proof
    assume "c \<in> set xs"
    then obtain a b where "xs = a @ c # b \<and> c \<notin> set a" by (meson split_list_first)
    then have "split_once c xs = Some (a, b)" by (subst split_once_Some) simp
    with none show False by auto
  qed
next
  assume clean: "c \<notin> set xs"
  show "split_once c xs = None"
  proof (cases "split_once c xs")
    case (Some ab)
    then have "split_once c xs = Some (fst ab, snd ab)" by simp
    then have "xs = fst ab @ c # snd ab" by (simp only: split_once_Some)
    with clean show ?thesis by (metis in_set_conv_decomp)
  qed
qed

lemma rsplit_once_Some:
  "rsplit_once c xs = Some (a, b) \<longleftrightarrow> xs = a @ c # b \<and> c \<notin> set b"
proof -
  have "rsplit_once c xs = Some (a, b) \<longleftrightarrow> split_once c (rev xs) = Some (rev b, rev a)"
    by (auto simp: rsplit_once_def)
  also have "\<dots> \<longleftrightarrow> xs = a @ c # b \<and> c \<notin> set b"
    unfolding split_once_Some by (simp add: rev_swap)
  finally show ?thesis .
qed

lemma find_SomeD: "List.find p xs = Some x \<Longrightarrow> x \<in> set xs \<and> p x"
  by (induction xs) (auto split: if_splits)

lemma find_ball_None: "List.find p xs = None \<longleftrightarrow> (\<forall>x \<in> set xs. \<not> p x)"
  by (induction xs) auto

section \<open>Ordered checks\<close>

text \<open>
  Several components ask an ordered list of checks and stop at the first refusal. The
  interface is the order and what each check refuses; the law is that the order omits none.
\<close>

fun first_refusal :: "('g \<Rightarrow> 'r option) \<Rightarrow> 'g list \<Rightarrow> 'r option" where
  "first_refusal refuses [] = None"
| "first_refusal refuses (g # gs) =
     (case refuses g of Some r \<Rightarrow> Some r | None \<Rightarrow> first_refusal refuses gs)"

locale gate_order =
  fixes order :: "'g list" and refuses :: "'g \<Rightarrow> 'r option"
  assumes complete: "g \<in> set order"
begin

lemma first_refusal_None: "first_refusal refuses gs = None \<longleftrightarrow> (\<forall>g \<in> set gs. refuses g = None)"
  by (induction gs) (auto split: option.splits)

lemma admitted_iff: "first_refusal refuses order = None \<longleftrightarrow> (\<forall>g. refuses g = None)"
  using complete by (auto simp: first_refusal_None)

lemma refusal_is_first:
  "first_refusal refuses order = Some r \<Longrightarrow>
   \<exists>before g after. order = before @ g # after \<and> refuses g = Some r \<and>
     list_all (\<lambda>h. refuses h = None) before"
proof (induction order)
  case (Cons g gs)
  show ?case
  proof (cases "refuses g")
    case None
    with Cons obtain before h after where "gs = before @ h # after" "refuses h = Some r"
      "list_all (\<lambda>h. refuses h = None) before" by auto
    with None have "g # gs = (g # before) @ h # after \<and> refuses h = Some r \<and>
      list_all (\<lambda>h. refuses h = None) (g # before)" by simp
    then show ?thesis by blast
  next
    case (Some r')
    with Cons.prems have "g # gs = [] @ g # gs \<and> refuses g = Some r \<and>
      list_all (\<lambda>h. refuses h = None) []" by simp
    then show ?thesis by blast
  qed
qed simp

end

text \<open>\<open>Iterator::max_by_key\<close> returns the last of the maximal elements.\<close>

fun max_by_key :: "('a \<Rightarrow> 'k::linorder) \<Rightarrow> 'a list \<Rightarrow> 'a option" where
  "max_by_key k [] = None"
| "max_by_key k (x # xs) =
     (case max_by_key k xs of
        None \<Rightarrow> Some x
      | Some m \<Rightarrow> if k m < k x then Some x else Some m)"

lemma max_by_key_None [simp]: "max_by_key k xs = None \<longleftrightarrow> xs = []"
  by (cases xs) (auto split: option.splits)

lemma max_by_key_Some:
  "max_by_key k xs = Some m \<Longrightarrow> m \<in> set xs \<and> (\<forall>x \<in> set xs. k x \<le> k m)"
  by (induction xs arbitrary: m) (fastforce split: option.splits if_splits)+

lemma max_by_key_ex: "xs \<noteq> [] \<Longrightarrow> \<exists>m. max_by_key k xs = Some m"
  using max_by_key_None [of k xs] by (cases "max_by_key k xs") auto

end
