(* ===== verification/Text_Bytes.thy ===== *)
theory Text_Bytes
  imports Prelude
begin

text \<open>
  Characters and text: the ASCII predicates and case conversion of \<open>u8\<close>, UTF-8
  validation (\<open>core::str::from_utf8\<close>) and lossy decoding
  (\<open>String::from_utf8_lossy\<close>), Unicode white space on UTF-8 bytes, numbers printed in
  decimal and hexadecimal, and little-endian integer encodings. Unicode lower-casing of a
  text with a non-ASCII character is the parameter \<open>ul\<close> of every definition that uses it.
\<close>

section \<open>ASCII\<close>

abbreviation code :: "char \<Rightarrow> nat" where
  "code c \<equiv> of_char c"

definition is_ascii_digit :: "char \<Rightarrow> bool" where
  "is_ascii_digit c \<longleftrightarrow> 48 \<le> code c \<and> code c \<le> 57"

definition is_ascii_upper :: "char \<Rightarrow> bool" where
  "is_ascii_upper c \<longleftrightarrow> 65 \<le> code c \<and> code c \<le> 90"

definition is_ascii_lower :: "char \<Rightarrow> bool" where
  "is_ascii_lower c \<longleftrightarrow> 97 \<le> code c \<and> code c \<le> 122"

definition is_ascii_alphabetic :: "char \<Rightarrow> bool" where
  "is_ascii_alphabetic c \<longleftrightarrow> is_ascii_upper c \<or> is_ascii_lower c"

definition is_ascii_hexdigit :: "char \<Rightarrow> bool" where
  "is_ascii_hexdigit c \<longleftrightarrow>
     is_ascii_digit c \<or> (65 \<le> code c \<and> code c \<le> 70) \<or> (97 \<le> code c \<and> code c \<le> 102)"

definition to_ascii_lower :: "char \<Rightarrow> char" where
  "to_ascii_lower c = (if is_ascii_upper c then char_of (code c + 32) else c)"

definition to_ascii_upper :: "char \<Rightarrow> char" where
  "to_ascii_upper c = (if is_ascii_lower c then char_of (code c - 32) else c)"

abbreviation to_ascii_lowercase :: "bytes \<Rightarrow> bytes" where
  "to_ascii_lowercase \<equiv> map to_ascii_lower"

definition eq_ignore_ascii_case :: "bytes \<Rightarrow> bytes \<Rightarrow> bool" where
  "eq_ignore_ascii_case a b \<longleftrightarrow> to_ascii_lowercase a = to_ascii_lowercase b"

definition is_ascii :: "bytes \<Rightarrow> bool" where
  "is_ascii bs \<longleftrightarrow> list_all (\<lambda>c. code c < 128) bs"

lemma code_less [simp]: "code c < 256"
proof -
  have "code c mod 256 < 256" by (rule mod_less_divisor) simp
  then show ?thesis by (simp only: of_char_mod_256)
qed

lemma code_to_ascii_lower:
  "code (to_ascii_lower c) = (if is_ascii_upper c then code c + 32 else code c)"
  by (simp add: to_ascii_lower_def is_ascii_upper_def)

lemma code_to_ascii_upper:
  "code (to_ascii_upper c) = (if is_ascii_lower c then code c - 32 else code c)"
  by (auto simp: to_ascii_upper_def is_ascii_lower_def)

lemma code_inject: "code a = code b \<longleftrightarrow> a = b"
  by simp

lemma to_ascii_lower_idem [simp]: "to_ascii_lower (to_ascii_lower c) = to_ascii_lower c"
proof -
  have "code (to_ascii_lower (to_ascii_lower c)) = code (to_ascii_lower c)"
    by (simp add: code_to_ascii_lower is_ascii_upper_def)
  then show ?thesis by (simp only: code_inject)
qed

lemma to_ascii_lower_eq_zero:
  "code z = 0 \<Longrightarrow> to_ascii_lower c = z \<longleftrightarrow> c = z"
proof -
  assume z: "code z = 0"
  have "code (to_ascii_lower c) = code z \<longleftrightarrow> code c = code z"
    by (simp add: code_to_ascii_lower z is_ascii_upper_def)
  then show ?thesis by (simp only: code_inject)
qed

section \<open>UTF-8\<close>

text \<open>
  \<open>utf8_next b bs\<close> reads one unit at the head of \<open>b # bs\<close>: whether it is a well-formed
  scalar value, and its length; for an ill-formed one, the length of the longest prefix
  that some scalar value could have started with, which is what one replacement
  character stands for in the lossy decoding.
\<close>

definition cont :: "nat \<Rightarrow> bool" where
  "cont b \<longleftrightarrow> 128 \<le> b \<and> b \<le> 191"

definition utf8_width :: "nat \<Rightarrow> nat" where
  "utf8_width b =
     (if b < 128 then 1 else if 194 \<le> b \<and> b \<le> 223 then 2
      else if 224 \<le> b \<and> b \<le> 239 then 3 else if 240 \<le> b \<and> b \<le> 244 then 4 else 0)"

definition utf8_second :: "nat \<Rightarrow> nat \<Rightarrow> bool" where
  "utf8_second b c =
     (if b = 224 then 160 \<le> c \<and> c \<le> 191
      else if b = 237 then 128 \<le> c \<and> c \<le> 159
      else if b = 240 then 144 \<le> c \<and> c \<le> 191
      else if b = 244 then 128 \<le> c \<and> c \<le> 143
      else cont c)"

definition byte_at :: "bytes \<Rightarrow> nat \<Rightarrow> nat" where
  "byte_at bs i = (if i < length bs then code (bs ! i) else 0)"

definition utf8_next :: "char \<Rightarrow> bytes \<Rightarrow> bool \<times> nat" where
  "utf8_next b bs =
     (let w = utf8_width (code b) in
      if w = 1 then (True, 1)
      else if w = 0 \<or> \<not> utf8_second (code b) (byte_at bs 0) then (False, 1)
      else if w = 2 then (True, 2)
      else if \<not> cont (byte_at bs 1) then (False, 2)
      else if w = 3 then (True, 3)
      else if \<not> cont (byte_at bs 2) then (False, 3)
      else (True, 4))"

definition replacement :: bytes where
  "replacement = [char_of (239 :: nat), char_of (191 :: nat), char_of (189 :: nat)]"

fun from_utf8_lossy :: "bytes \<Rightarrow> bytes" where
  "from_utf8_lossy [] = []"
| "from_utf8_lossy (b # bs) =
     (let (ok, n) = utf8_next b bs in
      (if ok then b # take (n - 1) bs else replacement) @ from_utf8_lossy (drop (n - 1) bs))"

fun utf8_valid :: "bytes \<Rightarrow> bool" where
  "utf8_valid [] \<longleftrightarrow> True"
| "utf8_valid (b # bs) =
     (let (ok, n) = utf8_next b bs in ok \<and> utf8_valid (drop (n - 1) bs))"

text \<open>\<open>core::str::from_utf8\<close>; the error carries nothing the sources look at.\<close>

definition from_utf8 :: "bytes \<Rightarrow> bytes option" where
  "from_utf8 bs = (if utf8_valid bs then Some bs else None)"

lemma from_utf8_lossy_valid: "utf8_valid bs \<Longrightarrow> from_utf8_lossy bs = bs"
  by (induction bs rule: utf8_valid.induct) (auto split: prod.splits)

lemma utf8_next_ascii: "code b < 128 \<Longrightarrow> utf8_next b bs = (True, 1)"
  by (simp add: utf8_next_def utf8_width_def)

lemma utf8_valid_ascii: "is_ascii bs \<Longrightarrow> utf8_valid bs"
  by (induction bs rule: utf8_valid.induct) (auto simp: is_ascii_def utf8_next_ascii)

text \<open>
  \<open>str::to_lowercase\<close>: on a text of ASCII characters the ASCII conversion; on any other
  text the Unicode mapping, the parameter \<open>ul\<close>.
\<close>

definition to_lowercase :: "(bytes \<Rightarrow> bytes) \<Rightarrow> bytes \<Rightarrow> bytes" where
  "to_lowercase ul text = (if is_ascii text then to_ascii_lowercase text else ul text)"

section \<open>White space\<close>

text \<open>The UTF-8 encodings of the characters with the Unicode property \<open>White_Space\<close>.\<close>

definition whitespace :: "bytes list" where
  "whitespace =
     map (map char_of)
       ([[9], [10], [11], [12], [13], [32], [194, 133], [194, 160], [225, 154, 128]]
        @ map (\<lambda>i. [226, 128, i]) [128..<139]
        @ [[226, 128, 168], [226, 128, 169], [226, 128, 175], [226, 129, 159],
           [227, 128, 128 :: nat]])"

definition leading_space :: "bytes \<Rightarrow> nat" where
  "leading_space bs =
     (case List.find (\<lambda>w. starts_with w bs) whitespace of None \<Rightarrow> 0 | Some w \<Rightarrow> length w)"

fun trim_start :: "bytes \<Rightarrow> bytes" where
  "trim_start [] = []"
| "trim_start (b # bs) =
     (let n = leading_space (b # bs) in
      if n = 0 then b # bs else trim_start (drop (n - 1) bs))"

definition trailing_space :: "bytes \<Rightarrow> nat" where
  "trailing_space rs =
     (case List.find (\<lambda>w. starts_with (rev w) rs) whitespace of
        None \<Rightarrow> 0 | Some w \<Rightarrow> length w)"

text \<open>The trailing end is trimmed on the reversed text.\<close>

fun trim_reversed :: "bytes \<Rightarrow> bytes" where
  "trim_reversed [] = []"
| "trim_reversed (r # rs) =
     (let n = trailing_space (r # rs) in
      if n = 0 then r # rs else trim_reversed (drop (n - 1) rs))"

definition trim :: "bytes \<Rightarrow> bytes" where
  "trim bs = rev (trim_reversed (rev (trim_start bs)))"

text \<open>\<open>str::split_whitespace\<close>: the maximal pieces without white space. The accumulator
  holds the current piece reversed.\<close>

fun split_ws :: "bytes \<Rightarrow> bytes \<Rightarrow> bytes list" where
  "split_ws acc [] = (if acc = [] then [] else [rev acc])"
| "split_ws acc (b # bs) =
     (let n = leading_space (b # bs) in
      if n = 0 then split_ws (b # acc) bs
      else (if acc = [] then [] else [rev acc]) @ split_ws [] (drop (n - 1) bs))"

abbreviation split_whitespace :: "bytes \<Rightarrow> bytes list" where
  "split_whitespace \<equiv> split_ws []"

text \<open>\<open>str::lines\<close>: split at newlines, without a final empty line, a carriage return
  before the newline removed.\<close>

definition lines :: "bytes \<Rightarrow> bytes list" where
  "lines bs =
     (let parts = split_on (\<lambda>c. c = CHR 0x0A) bs;
          body = butlast parts; final = last parts in
      map (\<lambda>l. case strip_suffix [CHR 0x0D] l of None \<Rightarrow> l | Some l' \<Rightarrow> l') body
      @ (if final = [] then [] else [final]))"

lemma starts_with_CHR: "starts_with [c] (d # ds) \<longleftrightarrow> c = d"
  by (auto simp: starts_with_def)

section \<open>Printed numbers\<close>

fun decimal :: "nat \<Rightarrow> bytes" where
  "decimal n =
     (if n < 10 then [char_of (48 + n)] else decimal (n div 10) @ [char_of (48 + n mod 10)])"

definition hex_digit :: "nat \<Rightarrow> char" where
  "hex_digit d = (if d < 10 then char_of (48 + d) else char_of (87 + d))"

fun hexadecimal :: "nat \<Rightarrow> bytes" where
  "hexadecimal n =
     (if n < 16 then [hex_digit n] else hexadecimal (n div 16) @ [hex_digit (n mod 16)])"

declare decimal.simps [simp del] hexadecimal.simps [simp del]

text \<open>\<open>hex::encode\<close>: two lower-case digits for each byte.\<close>

definition hex_encode :: "bytes \<Rightarrow> bytes" where
  "hex_encode bs = concat (map (\<lambda>b. [hex_digit (code b div 16), hex_digit (code b mod 16)]) bs)"

lemma code_hex_digit: "d < 16 \<Longrightarrow> code (hex_digit d) = (if d < 10 then 48 + d else 87 + d)"
  by (simp add: hex_digit_def)

lemma hex_digit_inject: "d < 16 \<Longrightarrow> e < 16 \<Longrightarrow> hex_digit d = hex_digit e \<longleftrightarrow> d = e"
  by (auto simp: code_hex_digit dest!: arg_cong [where f = code] split: if_splits)

lemma hex_encode_inject: "hex_encode as = hex_encode bs \<longleftrightarrow> as = bs"
proof (induction as arbitrary: bs)
  case Nil
  show ?case by (cases bs) (simp_all add: hex_encode_def)
next
  case (Cons a as)
  show ?case
  proof (cases bs)
    case (Cons b bs')
    have "code a div 16 < 16" "code b div 16 < 16"
      using code_less [of a] code_less [of b] by linarith+
    moreover have "code a = code b" if "code a div 16 = code b div 16" "code a mod 16 = code b mod 16"
      using that by (metis div_mult_mod_eq)
    ultimately show ?thesis
      using Cons.IH [of bs'] Cons by (auto simp: hex_encode_def hex_digit_inject)
  qed (simp add: hex_encode_def)
qed

lemma length_hex_encode [simp]: "length (hex_encode bs) = 2 * length bs"
  by (induction bs) (simp_all add: hex_encode_def)

section \<open>Little-endian integers\<close>

fun le_bytes :: "nat \<Rightarrow> nat \<Rightarrow> bytes" where
  "le_bytes 0 n = []"
| "le_bytes (Suc k) n = char_of n # le_bytes k (n div 256)"

fun of_le_bytes :: "bytes \<Rightarrow> nat" where
  "of_le_bytes [] = 0"
| "of_le_bytes (b # bs) = code b + 256 * of_le_bytes bs"

lemma length_le_bytes [simp]: "length (le_bytes k n) = k"
  by (induction k arbitrary: n) auto

lemma of_le_bytes_le_bytes: "of_le_bytes (le_bytes k n) = n mod 256 ^ k"
proof (induction k arbitrary: n)
  case (Suc k)
  have "n mod (256 * 256 ^ k) = 256 * (n div 256 mod 256 ^ k) + n mod 256"
    by (rule mod_mult2_eq)
  with Suc show ?case by simp
qed simp

lemma le_bytes_of_le_bytes: "le_bytes (length bs) (of_le_bytes bs) = bs"
proof (induction bs)
  case (Cons b bs)
  have "char_of (code b + 256 * of_le_bytes bs) = b"
    by (rule of_char_eqI [where ?'a = nat]) simp
  moreover have "(code b + 256 * of_le_bytes bs) div 256 = of_le_bytes bs"
    using code_less [of b] by simp
  ultimately show ?case using Cons by simp
qed simp

lemma of_le_bytes_bound: "of_le_bytes bs < 256 ^ length bs"
proof (induction bs)
  case (Cons b bs)
  have "of_le_bytes bs + 1 \<le> 256 ^ length bs" using Cons by simp
  then have "256 * of_le_bytes bs + 256 \<le> 256 * 256 ^ length bs" by linarith
  moreover have "code b < 256" by simp
  ultimately have "code b + 256 * of_le_bytes bs < 256 * 256 ^ length bs" by linarith
  then show ?case by simp
qed simp

abbreviation le64 :: "u64 \<Rightarrow> bytes" where
  "le64 w \<equiv> le_bytes 8 (unat w)"

abbreviation le128 :: "u128 \<Rightarrow> bytes" where
  "le128 w \<equiv> le_bytes 16 (unat w)"

lemma of_le_bytes_le64 [simp]: "of_nat (of_le_bytes (le64 w)) = (w :: u64)"
proof -
  have "unat w < 256 ^ 8" using unsigned_less [of w] by simp
  then show ?thesis by (simp add: of_le_bytes_le_bytes del: le_bytes.simps)
qed

lemma of_le_bytes_le128 [simp]: "of_nat (of_le_bytes (le128 w)) = (w :: u128)"
proof -
  have "unat w < 256 ^ 16" using unsigned_less [of w] by simp
  then show ?thesis by (simp add: of_le_bytes_le_bytes del: le_bytes.simps)
qed

lemma le64_inject [simp]: "le64 v = le64 w \<longleftrightarrow> v = w"
  by (metis of_le_bytes_le64)

lemma le128_inject [simp]: "le128 v = le128 w \<longleftrightarrow> v = w"
  by (metis of_le_bytes_le128)

lemma le64_of_le_bytes: "length bs = 8 \<Longrightarrow> le64 (of_nat (of_le_bytes bs)) = bs"
  using of_le_bytes_bound [of bs] le_bytes_of_le_bytes [of bs]
  by (simp add: unat_of_nat take_bit_eq_mod)

lemma le128_of_le_bytes: "length bs = 16 \<Longrightarrow> le128 (of_nat (of_le_bytes bs)) = bs"
  using of_le_bytes_bound [of bs] le_bytes_of_le_bytes [of bs]
  by (simp add: unat_of_nat take_bit_eq_mod)

end
