(* ===== verification/Locations.thy ===== *)
theory Locations
  imports Text_Bytes
begin

text \<open>
  Paths (\<open>crates/core/src/location.rs\<close>, \<open>platform.rs\<close>): names, roots, locations,
  their parsing and printing, folding by case, and the containment relation that every
  protection rule and exclusion is decided by. \<open>ul\<close> is the Unicode lower-casing of a text
  that is not ASCII.
\<close>

section \<open>Syntax, case and platform\<close>

datatype path_syntax = Unix | Windows
datatype path_case = Sensitive | Insensitive
datatype platform = Windows | MacOs | Linux

abbreviation slash :: char where "slash \<equiv> CHR ''/''"
abbreviation backslash :: char where "backslash \<equiv> CHR 0x5C"

fun separator :: "path_syntax \<Rightarrow> char" where
  "separator path_syntax.Unix = slash"
| "separator path_syntax.Windows = backslash"

fun is_separator :: "path_syntax \<Rightarrow> char \<Rightarrow> bool" where
  "is_separator path_syntax.Unix b \<longleftrightarrow> b = slash"
| "is_separator path_syntax.Windows b \<longleftrightarrow> b = slash \<or> b = backslash"

fun platform_syntax :: "platform \<Rightarrow> path_syntax" where
  "platform_syntax platform.Windows = path_syntax.Windows"
| "platform_syntax MacOs = path_syntax.Unix"
| "platform_syntax Linux = path_syntax.Unix"

fun platform_case :: "platform \<Rightarrow> path_case" where
  "platform_case platform.Windows = Insensitive"
| "platform_case MacOs = Insensitive"
| "platform_case Linux = Sensitive"

fun platform_as_str :: "platform \<Rightarrow> bytes" where
  "platform_as_str platform.Windows = ''windows''"
| "platform_as_str MacOs = ''macos''"
| "platform_as_str Linux = ''linux''"

section \<open>Names\<close>

datatype location_error = Relative | Navigation | Empty | Separator | MissingShare

datatype name = Name (as_bytes: bytes)

definition name_new :: "bytes \<Rightarrow> path_syntax \<Rightarrow> location_error + name" where
  "name_new raw syn =
     (if raw = [] then Inl Empty
      else if raw = ''.'' \<or> raw = ''..'' then Inl Navigation
      else if list_ex (\<lambda>b. code b = 0 \<or> is_separator syn b) raw then Inl Separator
      else Inr (Name raw))"

definition fold_bytes :: "(bytes \<Rightarrow> bytes) \<Rightarrow> bytes \<Rightarrow> path_case \<Rightarrow> bytes" where
  "fold_bytes ul raw cs =
     (case cs of
        Sensitive \<Rightarrow> raw
      | Insensitive \<Rightarrow>
          (case from_utf8 raw of
             Some text \<Rightarrow> to_lowercase ul text
           | None \<Rightarrow> to_ascii_lowercase raw))"

definition folded :: "(bytes \<Rightarrow> bytes) \<Rightarrow> name \<Rightarrow> path_case \<Rightarrow> bytes" where
  "folded ul n cs = fold_bytes ul (as_bytes n) cs"

definition name_matches :: "(bytes \<Rightarrow> bytes) \<Rightarrow> name \<Rightarrow> bytes \<Rightarrow> path_case \<Rightarrow> bool" where
  "name_matches ul n literal cs \<longleftrightarrow> folded ul n cs = fold_bytes ul literal cs"

definition name_display :: "name \<Rightarrow> bytes" where
  "name_display n = from_utf8_lossy (as_bytes n)"

lemma folded_sensitive [simp]: "folded ul n Sensitive = as_bytes n"
  by (simp add: folded_def fold_bytes_def)

text \<open>A byte string that \<open>Name::new\<close> accepts.\<close>

definition name_ok :: "path_syntax \<Rightarrow> bytes \<Rightarrow> bool" where
  "name_ok syn raw \<longleftrightarrow>
     raw \<noteq> [] \<and> raw \<noteq> ''.'' \<and> raw \<noteq> ''..'' \<and>
     (\<forall>b \<in> set raw. code b \<noteq> 0 \<and> \<not> is_separator syn b)"

lemma name_new_Inr: "name_new raw syn = Inr n \<longleftrightarrow> name_ok syn raw \<and> n = Name raw"
  by (auto simp: name_new_def name_ok_def list_ex_iff)

section \<open>Roots and locations\<close>

datatype root = Unix | Drive char | Unc name name

fun root_same :: "(bytes \<Rightarrow> bytes) \<Rightarrow> root \<Rightarrow> root \<Rightarrow> path_case \<Rightarrow> bool" where
  "root_same ul root.Unix root.Unix cs \<longleftrightarrow> True"
| "root_same ul (Drive l) (Drive r) cs \<longleftrightarrow> l = r"
| "root_same ul (Unc server share) (Unc server' share') cs \<longleftrightarrow>
     folded ul server Insensitive = folded ul server' Insensitive \<and>
     folded ul share cs = folded ul share' cs"
| "root_same ul _ _ cs \<longleftrightarrow> False"

fun root_key :: "(bytes \<Rightarrow> bytes) \<Rightarrow> root \<Rightarrow> path_case \<Rightarrow> bytes" where
  "root_key ul root.Unix cs = [slash]"
| "root_key ul (Drive l) cs = [l, CHR '':'', backslash]"
| "root_key ul (Unc server share) cs =
     [backslash, backslash] @ folded ul server Insensitive @ [backslash] @ folded ul share cs"

datatype location =
  Location (loc_syntax: path_syntax) (loc_root: root) (loc_names: "name list")

definition file_name :: "location \<Rightarrow> name option" where
  "file_name l = (if loc_names l = [] then None else Some (last (loc_names l)))"

definition parent :: "location \<Rightarrow> location option" where
  "parent l =
     (if loc_names l = [] then None
      else Some (Location (loc_syntax l) (loc_root l) (butlast (loc_names l))))"

definition join :: "location \<Rightarrow> name \<Rightarrow> location" where
  "join l n = Location (loc_syntax l) (loc_root l) (loc_names l @ [n])"

definition child :: "location \<Rightarrow> bytes \<Rightarrow> location_error + location" where
  "child l raw = result_bind (name_new raw (loc_syntax l)) (\<lambda>n. Inr (join l n))"

definition relative ::
  "(bytes \<Rightarrow> bytes) \<Rightarrow> location \<Rightarrow> location \<Rightarrow> path_case \<Rightarrow> name list option" where
  "relative ul outer inner cs =
     (if loc_syntax outer \<noteq> loc_syntax inner \<or> \<not> root_same ul (loc_root outer) (loc_root inner) cs
      then None
      else
        let n = length (loc_names outer) in
        if length (loc_names inner) < n then None
        else if list_all (\<lambda>(left, right). folded ul left cs = folded ul right cs)
                  (zip (take n (loc_names inner)) (loc_names outer))
             then Some (drop n (loc_names inner)) else None)"

definition contains :: "(bytes \<Rightarrow> bytes) \<Rightarrow> location \<Rightarrow> location \<Rightarrow> path_case \<Rightarrow> bool" where
  "contains ul outer inner cs \<longleftrightarrow> relative ul outer inner cs \<noteq> None"

definition same :: "(bytes \<Rightarrow> bytes) \<Rightarrow> location \<Rightarrow> location \<Rightarrow> path_case \<Rightarrow> bool" where
  "same ul l m cs \<longleftrightarrow> (case relative ul l m cs of None \<Rightarrow> False | Some rest \<Rightarrow> rest = [])"

text \<open>The names of a key are separated by NUL, which no name holds.\<close>

definition loc_key :: "(bytes \<Rightarrow> bytes) \<Rightarrow> location \<Rightarrow> path_case \<Rightarrow> bytes" where
  "loc_key ul l cs =
     root_key ul (loc_root l) cs @
     join_with (CHR 0x00) (map (\<lambda>n. folded ul n cs) (loc_names l))"

definition root_display :: "location \<Rightarrow> bytes" where
  "root_display l =
     (case loc_root l of
        root.Unix \<Rightarrow> [slash]
      | Drive letter \<Rightarrow> [letter, CHR '':'', backslash]
      | Unc server share \<Rightarrow>
          [backslash, backslash] @ name_display server @ [backslash] @ name_display share
          @ (if loc_names l \<noteq> [] then [separator (loc_syntax l)] else []))"

definition loc_display :: "location \<Rightarrow> bytes" where
  "loc_display l =
     root_display l @ join_with (separator (loc_syntax l)) (map name_display (loc_names l))"

section \<open>Parsing\<close>

definition names_of :: "bytes \<Rightarrow> path_syntax \<Rightarrow> location_error + name list" where
  "names_of raw syn =
     collect_results (map (\<lambda>part. name_new part syn)
       (filter (\<lambda>part. part \<noteq> [] \<and> part \<noteq> ''.'') (split_on (is_separator syn) raw)))"

definition parse_unix :: "bytes \<Rightarrow> location_error + location" where
  "parse_unix raw =
     (case strip_prefix [slash] raw of
        None \<Rightarrow> Inl Relative
      | Some rest \<Rightarrow>
          result_bind (names_of rest path_syntax.Unix) (\<lambda>ns.
            Inr (Location path_syntax.Unix root.Unix ns)))"

definition unc :: "bytes \<Rightarrow> location_error + location" where
  "unc rest =
     result_bind (names_of rest path_syntax.Windows) (\<lambda>parts.
       case parts of
         server # share # ns \<Rightarrow> Inr (Location path_syntax.Windows (Unc server share) ns)
       | _ \<Rightarrow> Inl MissingShare)"

fun drive :: "bytes \<Rightarrow> location_error + location" where
  "drive (letter # colon # s # rest) =
     (if colon = CHR '':'' \<and> is_ascii_alphabetic letter \<and> is_separator path_syntax.Windows s
      then result_bind (names_of rest path_syntax.Windows) (\<lambda>ns.
             Inr (Location path_syntax.Windows (Drive (to_ascii_upper letter)) ns))
      else Inl Relative)"
| "drive [letter, colon] =
     (if colon = CHR '':'' \<and> is_ascii_alphabetic letter
      then Inr (Location path_syntax.Windows (Drive (to_ascii_upper letter)) [])
      else Inl Relative)"
| "drive _ = Inl Relative"

text \<open>The device prefixes, in the order they are tried.\<close>

definition unc_prefixes :: "bytes list" where
  "unc_prefixes =
     [[backslash, backslash, CHR ''?'', backslash] @ ''UNC'' @ [backslash],
      [backslash, backslash, CHR ''.'', backslash] @ ''UNC'' @ [backslash]]"

definition device_prefixes :: "bytes list" where
  "device_prefixes =
     [[backslash, backslash, CHR ''?'', backslash], [backslash, backslash, CHR ''.'', backslash]]"

fun first_stripped :: "bytes list \<Rightarrow> bytes \<Rightarrow> bytes option" where
  "first_stripped [] raw = None"
| "first_stripped (p # ps) raw =
     (case strip_prefix p raw of Some rest \<Rightarrow> Some rest | None \<Rightarrow> first_stripped ps raw)"

definition parse_windows :: "bytes \<Rightarrow> location_error + location" where
  "parse_windows raw =
     (case first_stripped unc_prefixes raw of
        Some rest \<Rightarrow> unc rest
      | None \<Rightarrow>
          (case first_stripped device_prefixes raw of
             Some rest \<Rightarrow> drive rest
           | None \<Rightarrow>
               (case raw of
                  a # b # rest \<Rightarrow>
                    if is_separator path_syntax.Windows a \<and> is_separator path_syntax.Windows b
                    then unc rest else drive raw
                | _ \<Rightarrow> drive raw)))"

fun parse :: "path_syntax \<Rightarrow> bytes \<Rightarrow> location_error + location" where
  "parse path_syntax.Unix raw = parse_unix raw"
| "parse path_syntax.Windows raw = parse_windows raw"

section \<open>The derived order\<close>

text \<open>
  \<open>#[derive(Ord)]\<close> compares variants in declaration order and fields from left to right;
  names compare as byte vectors.
\<close>

instantiation name :: linorder
begin

definition less_eq_name :: "name \<Rightarrow> name \<Rightarrow> bool" where
  "m \<le> n \<longleftrightarrow> as_bytes m \<le> as_bytes n"

definition less_name :: "name \<Rightarrow> name \<Rightarrow> bool" where
  "m < n \<longleftrightarrow> as_bytes m < as_bytes n"

instance
  by standard (auto simp: less_eq_name_def less_name_def name.expand)

end

fun root_rank :: "root \<Rightarrow> nat \<times> bytes list" where
  "root_rank root.Unix = (0, [])"
| "root_rank (Drive l) = (1, [[l]])"
| "root_rank (Unc server share) = (2, [as_bytes server, as_bytes share])"

definition loc_rank :: "location \<Rightarrow> nat \<times> (nat \<times> bytes list) \<times> bytes list" where
  "loc_rank l =
     (case loc_syntax l of path_syntax.Unix \<Rightarrow> 0 | path_syntax.Windows \<Rightarrow> 1,
      root_rank (loc_root l), map as_bytes (loc_names l))"

lemma root_rank_inject: "root_rank r = root_rank s \<longleftrightarrow> r = s"
  by (cases r; cases s) (auto simp: name.expand)

lemma loc_rank_inject: "loc_rank l = loc_rank m \<longleftrightarrow> l = m"
proof
  have inj: "inj as_bytes" by (auto intro: injI name.expand)
  assume "loc_rank l = loc_rank m"
  then show "l = m"
    by (intro location.expand)
      (auto simp: loc_rank_def root_rank_inject inj_map_eq_map [OF inj] split: path_syntax.splits)
qed simp

instantiation location :: linorder
begin

definition less_eq_location :: "location \<Rightarrow> location \<Rightarrow> bool" where
  "l \<le> m \<longleftrightarrow> loc_rank l \<le> loc_rank m"

definition less_location :: "location \<Rightarrow> location \<Rightarrow> bool" where
  "l < m \<longleftrightarrow> loc_rank l < loc_rank m"

instance
  by standard (auto simp: less_eq_location_def less_location_def loc_rank_inject [symmetric])

end

end
