(* ===== verification/Location_Facts.thy ===== *)
theory Location_Facts
  imports Locations "HOL-Library.Sublist"
begin

text \<open>
  What the other components rely on about locations: containment is a preorder whose
  ancestors of a point are linearly ordered (the locale \<open>containment\<close>, with its
  interpretation on \<open>contains\<close>), parsing yields well-formed locations, printing and
  parsing round-trip, and when two locations have the same key.
\<close>

section \<open>The interface: a forest of nested areas\<close>

locale containment =
  fixes inside :: "'l \<Rightarrow> 'l \<Rightarrow> bool"
  assumes inside_refl: "inside a a"
    and inside_trans: "inside a b \<Longrightarrow> inside b c \<Longrightarrow> inside a c"
    and ancestors_linear: "inside a c \<Longrightarrow> inside b c \<Longrightarrow> inside a b \<or> inside b a"
begin

lemma meets_above: "inside e y \<or> inside y e \<Longrightarrow> inside x y \<Longrightarrow> inside e x \<or> inside x e"
  using ancestors_linear inside_trans by blast

lemma meets_sym: "inside a b \<or> inside b a \<longleftrightarrow> inside b a \<or> inside a b"
  by blast

lemma apart_below: "\<not> (inside e x \<or> inside x e) \<Longrightarrow> inside x y \<Longrightarrow> \<not> (inside e y \<or> inside y e)"
  using meets_above by blast

lemma outside_below: "inside x y \<Longrightarrow> \<not> inside x z \<Longrightarrow> \<not> inside y z"
  using inside_trans by blast

lemma both_ways_sym: "inside a b \<and> inside b a \<Longrightarrow> inside b c \<and> inside c b \<Longrightarrow> inside a c \<and> inside c a"
  using inside_trans by blast

end

section \<open>Containment seen through the folded names\<close>

fun root_view :: "(bytes \<Rightarrow> bytes) \<Rightarrow> path_case \<Rightarrow> root \<Rightarrow> nat \<times> bytes list" where
  "root_view ul cs root.Unix = (0, [])"
| "root_view ul cs (Drive l) = (1, [[l]])"
| "root_view ul cs (Unc server share) = (2, [folded ul server Insensitive, folded ul share cs])"

definition names_view :: "(bytes \<Rightarrow> bytes) \<Rightarrow> path_case \<Rightarrow> location \<Rightarrow> bytes list" where
  "names_view ul cs l = map (\<lambda>n. folded ul n cs) (loc_names l)"

definition base_view ::
  "(bytes \<Rightarrow> bytes) \<Rightarrow> path_case \<Rightarrow> location \<Rightarrow> path_syntax \<times> nat \<times> bytes list" where
  "base_view ul cs l = (loc_syntax l, root_view ul cs (loc_root l))"

lemma root_same_view: "root_same ul r s cs \<longleftrightarrow> root_view ul cs r = root_view ul cs s"
  by (cases r; cases s) auto

lemma folded_zip:
  "length xs = length ys \<Longrightarrow>
   list_all (\<lambda>(left, right). f left = f right) (zip xs ys) \<longleftrightarrow> map f xs = map f ys"
  by (induction xs ys rule: list_induct2) auto

lemma relative_Some:
  "relative ul outer inner cs = Some rest \<longleftrightarrow>
     base_view ul cs outer = base_view ul cs inner \<and>
     (\<exists>pre. loc_names inner = pre @ rest \<and>
        map (\<lambda>n. folded ul n cs) pre = names_view ul cs outer)"
    (is "?L \<longleftrightarrow> ?B \<and> ?R")
proof
  let ?n = "length (loc_names outer)"
  assume L: ?L
  then have len: "\<not> length (loc_names inner) < ?n" and base: ?B
    and all: "list_all (\<lambda>(left, right). folded ul left cs = folded ul right cs)
       (zip (take ?n (loc_names inner)) (loc_names outer))"
    and rest: "rest = drop ?n (loc_names inner)"
    by (auto simp: relative_def Let_def base_view_def root_same_view split: if_splits)
  from len all have "map (\<lambda>n. folded ul n cs) (take ?n (loc_names inner)) = names_view ul cs outer"
    by (simp add: folded_zip names_view_def)
  then show "?B \<and> ?R" using base rest by (metis append_take_drop_id)
next
  assume R: "?B \<and> ?R"
  then obtain pre where pre: "loc_names inner = pre @ rest"
    "map (\<lambda>n. folded ul n cs) pre = names_view ul cs outer" by blast
  then have len: "length pre = length (loc_names outer)"
    unfolding names_view_def by (metis length_map)
  with R pre show ?L
    by (simp add: relative_def Let_def base_view_def root_same_view folded_zip names_view_def)
qed

lemma contains_view:
  "contains ul outer inner cs \<longleftrightarrow>
     base_view ul cs outer = base_view ul cs inner \<and>
     prefix (names_view ul cs outer) (names_view ul cs inner)"
    (is "?L \<longleftrightarrow> ?R")
proof
  assume ?L
  then obtain rest where "relative ul outer inner cs = Some rest" by (auto simp: contains_def)
  then show ?R by (auto simp: relative_Some names_view_def prefix_def)
next
  assume R: ?R
  then obtain zs where zs: "names_view ul cs inner = names_view ul cs outer @ zs"
    by (auto simp: prefix_def)
  let ?n = "length (loc_names outer)"
  have "map (\<lambda>n. folded ul n cs) (take ?n (loc_names inner)) = names_view ul cs outer"
    using zs by (simp add: names_view_def take_map [symmetric])
  then have "relative ul outer inner cs = Some (drop ?n (loc_names inner))"
    unfolding relative_Some using R by (metis append_take_drop_id)
  then show ?L by (simp add: contains_def)
qed

lemma same_view:
  "same ul l m cs \<longleftrightarrow>
     base_view ul cs l = base_view ul cs m \<and> names_view ul cs l = names_view ul cs m"
proof -
  have "same ul l m cs \<longleftrightarrow> relative ul l m cs = Some []"
    by (auto simp: same_def split: option.splits)
  then show ?thesis by (auto simp: relative_Some names_view_def)
qed

interpretation paths: containment "\<lambda>outer inner. contains ul outer inner cs" for ul cs
  by unfold_locales (auto simp: contains_view dest: prefix_same_cases prefix_order.trans)

lemma same_iff_contains:
  "same ul l m cs \<longleftrightarrow> contains ul l m cs \<and> contains ul m l cs"
  by (auto simp: same_view contains_view)

lemma same_refl [simp]: "same ul l l cs"
  by (simp add: same_view)

lemma same_sym: "same ul l m cs \<Longrightarrow> same ul m l cs"
  by (simp add: same_view)

lemma same_trans: "same ul l m cs \<Longrightarrow> same ul m n cs \<Longrightarrow> same ul l n cs"
  by (simp add: same_view)

lemma contains_same_left: "same ul l m cs \<Longrightarrow> contains ul l n cs \<longleftrightarrow> contains ul m n cs"
  by (simp add: same_view contains_view)

lemma contains_same_right: "same ul l m cs \<Longrightarrow> contains ul n l cs \<longleftrightarrow> contains ul n m cs"
  by (simp add: same_view contains_view)

lemma join_contained: "contains ul l (join l n) cs"
  by (simp add: contains_view base_view_def names_view_def join_def)

lemma join_escapes: "\<not> contains ul (join l n) l cs"
  by (auto simp: contains_view names_view_def join_def dest: prefix_length_le)

lemma parent_join: "parent l = Some p \<Longrightarrow> \<exists>n. l = join p n \<and> file_name l = Some n"
  by (cases l) (auto simp: parent_def join_def file_name_def split: if_splits)

lemma parent_of_join [simp]: "parent (join l n) = Some l"
  by (cases l) (simp add: parent_def join_def)

lemma same_key: "same ul l m cs \<Longrightarrow> loc_key ul l cs = loc_key ul m cs"
proof -
  assume "same ul l m cs"
  then have names: "names_view ul cs l = names_view ul cs m"
    and root: "root_view ul cs (loc_root l) = root_view ul cs (loc_root m)"
    by (simp_all add: same_view base_view_def)
  from root have "root_key ul (loc_root l) cs = root_key ul (loc_root m) cs"
    by (cases "loc_root l"; cases "loc_root m") simp_all
  with names show ?thesis by (simp add: loc_key_def names_view_def)
qed

section \<open>Well-formed locations\<close>

definition root_wf :: "path_syntax \<Rightarrow> root \<Rightarrow> bool" where
  "root_wf syn r =
     (case r of
        root.Unix \<Rightarrow> syn = path_syntax.Unix
      | Drive l \<Rightarrow> syn = path_syntax.Windows \<and> is_ascii_upper l
      | Unc server share \<Rightarrow>
          syn = path_syntax.Windows \<and> name_ok syn (as_bytes server) \<and> name_ok syn (as_bytes share))"

definition loc_wf :: "location \<Rightarrow> bool" where
  "loc_wf l \<longleftrightarrow>
     root_wf (loc_syntax l) (loc_root l) \<and>
     list_all (\<lambda>n. name_ok (loc_syntax l) (as_bytes n)) (loc_names l)"

lemma names_of_Inr:
  "names_of raw syn = Inr ns \<Longrightarrow> \<forall>n \<in> set ns. name_ok syn (as_bytes n)"
proof
  fix n assume "names_of raw syn = Inr ns" and n: "n \<in> set ns"
  then obtain parts where "map (\<lambda>part. name_new part syn) parts = map Inr ns"
    unfolding names_of_def collect_results_Inr by blast
  then have "Inr n \<in> set (map (\<lambda>part. name_new part syn) parts)" using n by simp
  then obtain part where "name_new part syn = Inr n" by auto
  then show "name_ok syn (as_bytes n)" by (auto simp: name_new_Inr)
qed

lemma names_of_join:
  assumes "\<forall>n \<in> set ns. name_ok syn (as_bytes n)" and "is_separator syn s"
  shows "names_of (join_with s (map as_bytes ns)) syn = Inr ns"
proof (cases "ns = []")
  case False
  have "split_on (is_separator syn) (join_with s (map as_bytes ns)) = map as_bytes ns"
    using assms False by (intro split_on_join) (auto simp: name_ok_def)
  moreover have "filter (\<lambda>part. part \<noteq> [] \<and> part \<noteq> ''.'') (map as_bytes ns) = map as_bytes ns"
    using assms(1) by (auto simp: filter_id_conv name_ok_def)
  moreover have "map (\<lambda>part. name_new part syn) (map as_bytes ns) = map Inr ns"
    using assms(1) by (auto simp: name_new_Inr)
  ultimately show ?thesis by (simp add: names_of_def collect_results_Inr del: map_map)
qed (simp add: names_of_def)

lemma alphabetic_upper: "is_ascii_alphabetic c \<Longrightarrow> is_ascii_upper (to_ascii_upper c)"
  by (auto simp: is_ascii_alphabetic_def is_ascii_upper_def code_to_ascii_upper is_ascii_lower_def)

lemma unc_Inr:
  "unc rest = Inr l \<longleftrightarrow>
     (\<exists>server share ns. names_of rest path_syntax.Windows = Inr (server # share # ns) \<and>
        l = Location path_syntax.Windows (Unc server share) ns)"
proof (cases "names_of rest path_syntax.Windows")
  case (Inr parts)
  then show ?thesis by (cases parts; cases "tl parts") (auto simp: unc_def)
qed (simp add: unc_def)

lemma unc_wf: "unc rest = Inr l \<Longrightarrow> loc_wf l \<and> loc_syntax l = path_syntax.Windows"
  by (auto simp: unc_Inr loc_wf_def root_wf_def list_all_iff dest!: names_of_Inr)

lemma drive_wf: "drive raw = Inr l \<Longrightarrow> loc_wf l \<and> loc_syntax l = path_syntax.Windows"
  by (induction raw rule: drive.induct)
    (auto simp: result_simps loc_wf_def root_wf_def list_all_iff alphabetic_upper
      dest!: names_of_Inr split: if_splits)

lemma parse_windows_cases:
  obtains rest where "parse_windows raw = unc rest" | rest where "parse_windows raw = drive rest"
proof -
  have "(\<exists>rest. parse_windows raw = unc rest) \<or> (\<exists>rest. parse_windows raw = drive rest)"
    unfolding parse_windows_def
    by (auto simp del: drive.simps is_separator.simps split: option.splits list.splits)
  then show thesis using that by blast
qed

lemma parse_unix_wf: "parse_unix raw = Inr l \<Longrightarrow> loc_wf l \<and> loc_syntax l = path_syntax.Unix"
  unfolding parse_unix_def
  by (auto simp: result_simps loc_wf_def root_wf_def list_all_iff dest!: names_of_Inr
      split: option.splits)

lemma parse_wf_lemma: "parse syn raw = Inr l \<Longrightarrow> loc_wf l \<and> loc_syntax l = syn"
proof (cases syn)
  case Windows
  assume "parse syn raw = Inr l"
  with Windows have "parse_windows raw = Inr l" by simp
  then show ?thesis
    using Windows parse_windows_cases [of raw] unc_wf drive_wf by metis
qed (simp add: parse_unix_wf)

lemma join_wf: "loc_wf l \<Longrightarrow> name_ok (loc_syntax l) (as_bytes n) \<Longrightarrow> loc_wf (join l n)"
  by (simp add: loc_wf_def join_def)

lemma child_wf: "loc_wf l \<Longrightarrow> child l raw = Inr m \<Longrightarrow> loc_wf m \<and> loc_syntax m = loc_syntax l"
  by (auto simp: child_def result_simps name_new_Inr join_wf) (simp add: join_def)

section \<open>Printing and parsing\<close>

definition loc_utf8 :: "location \<Rightarrow> bool" where
  "loc_utf8 l \<longleftrightarrow>
     (case loc_root l of
        Unc server share \<Rightarrow> utf8_valid (as_bytes server) \<and> utf8_valid (as_bytes share)
      | _ \<Rightarrow> True) \<and>
     list_all (\<lambda>n. utf8_valid (as_bytes n)) (loc_names l)"

text \<open>A UNC server named \<open>?\<close>: its printed form starts with the device prefix.\<close>

definition device_server :: "location \<Rightarrow> bool" where
  "device_server l =
     (case loc_root l of Unc server share \<Rightarrow> as_bytes server = ''?'' | _ \<Rightarrow> False)"

lemma name_display_utf8: "utf8_valid (as_bytes n) \<Longrightarrow> name_display n = as_bytes n"
  by (simp add: name_display_def from_utf8_lossy_valid)

lemma names_display_utf8:
  "list_all (\<lambda>n. utf8_valid (as_bytes n)) ns \<Longrightarrow> map name_display ns = map as_bytes ns"
  by (auto simp: list_all_iff name_display_utf8)

lemma upper_not_separator: "is_ascii_upper c \<Longrightarrow> c \<noteq> backslash \<and> c \<noteq> slash"
  by (auto simp: is_ascii_upper_def)

lemma upper_fixed: "is_ascii_upper c \<Longrightarrow> to_ascii_upper c = c \<and> is_ascii_alphabetic c"
  by (auto simp: is_ascii_upper_def to_ascii_upper_def is_ascii_lower_def is_ascii_alphabetic_def)

lemma first_stripped_None:
  "first_stripped ps raw = None \<longleftrightarrow> (\<forall>p \<in> set ps. \<not> starts_with p raw)"
  by (induction ps) (auto simp flip: strip_prefix_None split: option.splits)

lemma no_prefix_drive:
  "c \<noteq> backslash \<Longrightarrow>
   first_stripped unc_prefixes (c # raw) = None \<and> first_stripped device_prefixes (c # raw) = None"
  unfolding first_stripped_None
  by (simp add: unc_prefixes_def device_prefixes_def starts_with_iff)

lemma no_prefix_server:
  assumes "name_ok path_syntax.Windows srv" and "srv \<noteq> ''?''"
  shows "first_stripped unc_prefixes (backslash # backslash # srv @ backslash # raw) = None \<and>
         first_stripped device_prefixes (backslash # backslash # srv @ backslash # raw) = None"
proof -
  have "srv = [c]" if "srv @ backslash # raw = c # backslash # rest" for c rest
    using assms(1) that by (cases srv; cases "tl srv") (auto simp: name_ok_def)
  then have "\<not> (\<exists>rest. srv @ backslash # raw = CHR ''?'' # backslash # rest)"
    and "\<not> (\<exists>rest. srv @ backslash # raw = CHR ''.'' # backslash # rest)"
    using assms by (auto simp: name_ok_def)
  then show ?thesis
    unfolding first_stripped_None
    by (simp add: unc_prefixes_def device_prefixes_def starts_with_iff)
qed

lemma display_unc:
  "loc_root l = Unc server share \<Longrightarrow> loc_syntax l = path_syntax.Windows \<Longrightarrow> loc_utf8 l \<Longrightarrow>
   loc_display l = backslash # backslash # as_bytes server @ backslash #
     join_with backslash (map as_bytes (share # loc_names l))"
  by (auto simp: loc_display_def root_display_def loc_utf8_def name_display_utf8
      names_display_utf8 join_with_Cons)

lemma display_parse_unc:
  assumes "loc_root l = Unc server share" and wf: "loc_wf l" and utf8: "loc_utf8 l"
    and dev: "\<not> device_server l"
  shows "parse (loc_syntax l) (loc_display l) = Inr l"
proof -
  let ?ns = "server # share # loc_names l"
  from assms have win: "loc_syntax l = path_syntax.Windows"
    and srv: "name_ok path_syntax.Windows (as_bytes server)" "as_bytes server \<noteq> ''?''"
    and ok: "\<forall>n \<in> set ?ns. name_ok path_syntax.Windows (as_bytes n)"
    by (auto simp: loc_wf_def root_wf_def list_all_iff device_server_def)
  have disp: "loc_display l = backslash # backslash # as_bytes server @ backslash #
      join_with backslash (map as_bytes (share # loc_names l))"
    using assms(1) win utf8 by (rule display_unc)
  also have "\<dots> = backslash # backslash # join_with backslash (map as_bytes ?ns)" by simp
  finally have disp': "loc_display l = backslash # backslash # join_with backslash (map as_bytes ?ns)" .
  have "names_of (join_with backslash (map as_bytes ?ns)) path_syntax.Windows = Inr ?ns"
    using ok by (rule names_of_join) simp
  then have "unc (join_with backslash (map as_bytes ?ns)) = Inr l"
    using assms(1) win by (cases l) (simp only: unc_def result_bind.simps, simp)
  moreover have "parse_windows (loc_display l) = unc (join_with backslash (map as_bytes ?ns))"
    using no_prefix_server [OF srv] disp unfolding parse_windows_def disp' by simp
  ultimately show ?thesis by (simp add: win)
qed

lemma display_parse_drive:
  assumes root: "loc_root l = Drive c" and wf: "loc_wf l" and utf8: "loc_utf8 l"
  shows "parse (loc_syntax l) (loc_display l) = Inr l"
proof -
  from assms have win: "loc_syntax l = path_syntax.Windows" and up: "is_ascii_upper c"
    and ok: "\<forall>n \<in> set (loc_names l). name_ok path_syntax.Windows (as_bytes n)"
    by (auto simp: loc_wf_def root_wf_def list_all_iff)
  have disp: "loc_display l =
      c # CHR '':'' # backslash # join_with backslash (map as_bytes (loc_names l))"
    using root win utf8 by (simp add: loc_display_def root_display_def loc_utf8_def names_display_utf8)
  have "names_of (join_with backslash (map as_bytes (loc_names l))) path_syntax.Windows
      = Inr (loc_names l)"
    using ok by (rule names_of_join) simp
  moreover have "is_separator path_syntax.Windows c = False"
    using upper_not_separator [OF up] by simp
  ultimately have "parse_windows (loc_display l) = Inr (Location path_syntax.Windows (Drive c) (loc_names l))"
    using no_prefix_drive [of c] upper_not_separator [OF up] upper_fixed [OF up]
    unfolding disp parse_windows_def by simp
  then show ?thesis using root win by (cases l) simp
qed

lemma display_parse_unix:
  assumes root: "loc_root l = root.Unix" and wf: "loc_wf l" and utf8: "loc_utf8 l"
  shows "parse (loc_syntax l) (loc_display l) = Inr l"
proof -
  from assms have unix: "loc_syntax l = path_syntax.Unix"
    and ok: "\<forall>n \<in> set (loc_names l). name_ok path_syntax.Unix (as_bytes n)"
    by (auto simp: loc_wf_def root_wf_def list_all_iff)
  have disp: "loc_display l = [slash] @ join_with slash (map as_bytes (loc_names l))"
    using root unix utf8 by (simp add: loc_display_def root_display_def loc_utf8_def names_display_utf8)
  have "names_of (join_with slash (map as_bytes (loc_names l))) path_syntax.Unix = Inr (loc_names l)"
    using ok by (rule names_of_join) simp
  moreover have "strip_prefix [slash] (loc_display l) =
      Some (join_with slash (map as_bytes (loc_names l)))"
    unfolding strip_prefix_Some by (rule disp)
  ultimately show ?thesis
    using root unix by (cases l) (simp add: parse_unix_def)
qed

lemma display_parse_lemma:
  "loc_wf l \<Longrightarrow> loc_utf8 l \<Longrightarrow> \<not> device_server l \<Longrightarrow> parse (loc_syntax l) (loc_display l) = Inr l"
  by (cases "loc_root l") (auto intro: display_parse_unix display_parse_drive display_parse_unc)

end
