(* ===== verification/Areas.thy ===== *)
theory Areas
  imports Location_Facts
begin

text \<open>
  Protected areas (\<open>crates/core/src/area.rs\<close>) and the table of rules each platform starts
  from (\<open>crates/core/src/table.rs\<close>): which locations are the system's, which belong to an
  application and admit self-declared caches only, and which are open.
\<close>

section \<open>Areas and rules\<close>

datatype system_reason =
    FilesystemRoot | CurrentDirectory | RunningBinary | SystemArea bytes
  | ProfileRoot | UsersRoot | VolumeRoot

fun system_reason_display :: "system_reason \<Rightarrow> bytes" where
  "system_reason_display FilesystemRoot = ''drive/filesystem roots are protected''"
| "system_reason_display CurrentDirectory = ''it is the current directory or contains it''"
| "system_reason_display RunningBinary = ''it contains the running storage-scout binary''"
| "system_reason_display (SystemArea label) = ''the '' @ label @ '' system area is protected''"
| "system_reason_display ProfileRoot = ''a user-profile root is protected''"
| "system_reason_display UsersRoot = ''the user-profiles root is protected''"
| "system_reason_display VolumeRoot = ''a volume mount point is protected''"

record app_owned =
  app_label :: bytes

definition app_owned_display :: "app_owned \<Rightarrow> bytes" where
  "app_owned_display a = app_label a @ '' is application-owned''"

datatype area = System system_reason | AppOwned app_owned | Open
datatype area_class = System system_reason | AppOwned app_owned
datatype reach = Subtree | Exact | EachChild | EachChildSubtree bytes

record rule =
  rule_class :: area_class
  rule_anchor :: location
  rule_reach :: reach

definition rule_system :: "system_reason \<Rightarrow> location \<Rightarrow> reach \<Rightarrow> rule" where
  "rule_system reason anchor r =
     \<lparr>rule_class = area_class.System reason, rule_anchor = anchor, rule_reach = r\<rparr>"

definition rule_app_owned :: "bytes \<Rightarrow> location \<Rightarrow> reach \<Rightarrow> rule" where
  "rule_app_owned label anchor r =
     \<lparr>rule_class = area_class.AppOwned \<lparr>app_label = label\<rparr>, rule_anchor = anchor, rule_reach = r\<rparr>"

definition reaches :: "(bytes \<Rightarrow> bytes) \<Rightarrow> rule \<Rightarrow> location \<Rightarrow> path_case \<Rightarrow> bool" where
  "reaches ul r l cs =
     (case relative ul (rule_anchor r) l cs of
        None \<Rightarrow> False
      | Some rest \<Rightarrow>
          (case rule_reach r of
             Subtree \<Rightarrow> True
           | Exact \<Rightarrow> rest = []
           | EachChild \<Rightarrow> length rest = 1
           | EachChildSubtree n \<Rightarrow> length rest > 1 \<and> name_matches ul (rest ! 1) n cs))"

definition rule_area :: "rule \<Rightarrow> area" where
  "rule_area r =
     (case rule_class r of
        area_class.System reason \<Rightarrow> area.System reason
      | area_class.AppOwned a \<Rightarrow> area.AppOwned a)"

section \<open>Protection\<close>

record protection =
  prot_syntax :: path_syntax
  prot_case :: path_case
  prot_cwd :: location
  prot_exe :: location
  prot_rules :: "rule list"

datatype protection_error =
  CurrentDirectory path_syntax | Executable path_syntax | Rule path_syntax

definition protection_new ::
  "path_syntax \<Rightarrow> path_case \<Rightarrow> location \<Rightarrow> location \<Rightarrow> rule list \<Rightarrow> protection_error + protection" where
  "protection_new syn cs cwd exe rules =
     (if loc_syntax cwd \<noteq> syn then Inl (protection_error.CurrentDirectory syn)
      else if loc_syntax exe \<noteq> syn then Inl (Executable syn)
      else if list_ex (\<lambda>r. loc_syntax (rule_anchor r) \<noteq> syn) rules then Inl (Rule syn)
      else Inr \<lparr>prot_syntax = syn, prot_case = cs, prot_cwd = cwd, prot_exe = exe,
                prot_rules = rules\<rparr>)"

definition area_of :: "(bytes \<Rightarrow> bytes) \<Rightarrow> protection \<Rightarrow> location \<Rightarrow> area" where
  "area_of ul p l =
     (if loc_syntax l \<noteq> prot_syntax p \<or> loc_names l = [] then area.System FilesystemRoot
      else if contains ul l (prot_cwd p) (prot_case p) then area.System system_reason.CurrentDirectory
      else if contains ul l (prot_exe p) (prot_case p) then area.System RunningBinary
      else (case List.find (\<lambda>r. reaches ul r l (prot_case p)) (prot_rules p) of
              None \<Rightarrow> Open
            | Some r \<Rightarrow> rule_area r))"

definition prot_contains :: "(bytes \<Rightarrow> bytes) \<Rightarrow> protection \<Rightarrow> location \<Rightarrow> location \<Rightarrow> bool" where
  "prot_contains ul p outer inner = contains ul outer inner (prot_case p)"

definition intersects :: "(bytes \<Rightarrow> bytes) \<Rightarrow> protection \<Rightarrow> location \<Rightarrow> location \<Rightarrow> bool" where
  "intersects ul p left right \<longleftrightarrow> prot_contains ul p left right \<or> prot_contains ul p right left"

section \<open>The rule table\<close>

record host =
  host_home :: "location option"
  host_temp :: "location option"
  host_xdg_cache :: "location option"
  host_program_areas :: "(bytes \<times> location) list"

definition unix_path :: "bytes \<Rightarrow> location_error + location" where
  "unix_path path = parse path_syntax.Unix path"

definition app_at :: "bytes \<Rightarrow> (location_error + location) \<Rightarrow> reach \<Rightarrow> location_error + rule" where
  "app_at label at r = result_bind at (\<lambda>l. Inr (rule_app_owned label l r))"

definition system_at ::
  "system_reason \<Rightarrow> (location_error + location) \<Rightarrow> reach \<Rightarrow> location_error + rule" where
  "system_at reason at r = result_bind at (\<lambda>l. Inr (rule_system reason l r))"

definition for_some :: "'a option \<Rightarrow> ('a \<Rightarrow> 'b list) \<Rightarrow> 'b list" where
  "for_some m f = (case m of None \<Rightarrow> [] | Some x \<Rightarrow> f x)"

definition macos_system :: "bytes list" where
  "macos_system =
     [''/System'', ''/Library'', ''/Applications'', ''/usr'', ''/bin'', ''/sbin'', ''/opt'',
      ''/private'', ''/cores'', ''/Network'', ''/nix'']"

definition macos_app_rules :: "host \<Rightarrow> (location_error + rule) list" where
  "macos_app_rules h =
     for_some (host_temp h) (\<lambda>t. [app_at ''$TMPDIR'' (Inr t) Subtree]) @
     [app_at ''/var/folders'' (unix_path ''/private/var/folders'') Subtree,
      app_at ''/tmp'' (unix_path ''/private/tmp'') Subtree,
      app_at ''/var/tmp'' (unix_path ''/private/var/tmp'') Subtree] @
     for_some (host_home h) (\<lambda>home. [app_at ''~/Library'' (child home ''Library'') Subtree]) @
     [app_at ''~/Library'' (unix_path ''/Users'') (EachChildSubtree ''Library'')]"

definition macos_system_rules :: "host \<Rightarrow> (location_error + rule) list" where
  "macos_system_rules h =
     map (\<lambda>path. system_at (SystemArea path) (unix_path path) Subtree) macos_system @
     [system_at VolumeRoot (unix_path ''/Volumes'') Exact,
      system_at VolumeRoot (unix_path ''/Volumes'') EachChild,
      system_at UsersRoot (unix_path ''/Users'') Exact,
      system_at ProfileRoot (unix_path ''/Users'') EachChild] @
     for_some (host_home h) (\<lambda>home. [system_at ProfileRoot (Inr home) Exact])"

definition macos_rules :: "host \<Rightarrow> location_error + rule list" where
  "macos_rules h = collect_results (macos_app_rules h @ macos_system_rules h)"

definition linux_system :: "bytes list" where
  "linux_system =
     [''/proc'', ''/sys'', ''/dev'', ''/run'', ''/boot'', ''/etc'', ''/usr'', ''/bin'', ''/sbin'',
      ''/lib'', ''/lib64'', ''/opt'', ''/var'', ''/snap'', ''/srv'', ''/nix'']"

definition linux_cache :: "host \<Rightarrow> (location_error + location) option" where
  "linux_cache h =
     (case (host_xdg_cache h, host_home h) of
        (Some cache, _) \<Rightarrow> Some (Inr cache)
      | (None, Some home) \<Rightarrow> Some (child home ''.cache'')
      | (None, None) \<Rightarrow> None)"

definition linux_app_rules :: "host \<Rightarrow> (location_error + rule) list" where
  "linux_app_rules h =
     for_some (linux_cache h) (\<lambda>cache. [app_at ''~/.cache'' cache Subtree]) @
     for_some (host_home h) (\<lambda>home.
       [app_at ''~/.local/share'' (result_bind (child home ''.local'') (\<lambda>l. child l ''share'')) Subtree]) @
     [app_at ''~/.cache'' (unix_path ''/home'') (EachChildSubtree ''.cache''),
      app_at ''/var/tmp'' (unix_path ''/var/tmp'') Subtree,
      app_at ''$TMPDIR'' (case host_temp h of Some t \<Rightarrow> Inr t | None \<Rightarrow> unix_path ''/tmp'') Subtree]"

definition linux_system_rules :: "host \<Rightarrow> (location_error + rule) list" where
  "linux_system_rules h =
     map (\<lambda>path. system_at (SystemArea path) (unix_path path) Subtree) linux_system @
     [system_at UsersRoot (unix_path ''/home'') Exact,
      system_at ProfileRoot (unix_path ''/home'') EachChild,
      system_at ProfileRoot (unix_path ''/root'') Exact] @
     for_some (host_home h) (\<lambda>home. [system_at ProfileRoot (Inr home) Exact])"

definition linux_rules :: "host \<Rightarrow> location_error + rule list" where
  "linux_rules h = collect_results (linux_app_rules h @ linux_system_rules h)"

definition windows_rules :: "host \<Rightarrow> location_error + rule list" where
  "windows_rules h =
     (let users = Option.bind (host_home h) parent in
      collect_results
        (for_some (host_home h) (\<lambda>home. [app_at ''AppData'' (child home ''AppData'') Subtree]) @
         for_some users (\<lambda>u. [app_at ''AppData'' (Inr u) (EachChildSubtree ''AppData'')]) @
         map (\<lambda>(label, path). system_at (SystemArea label) (Inr path) Subtree) (host_program_areas h) @
         for_some (host_home h) (\<lambda>home. [system_at ProfileRoot (Inr home) Exact]) @
         for_some users (\<lambda>u. [system_at UsersRoot (Inr u) Exact,
                               system_at ProfileRoot (Inr u) EachChild])))"

fun table_rules :: "platform \<Rightarrow> host \<Rightarrow> location_error + rule list" where
  "table_rules MacOs h = macos_rules h"
| "table_rules Linux h = linux_rules h"
| "table_rules platform.Windows h = windows_rules h"

section \<open>What protection guarantees\<close>

lemma rule_area_not_open [simp]: "rule_area r \<noteq> Open"
  by (simp add: rule_area_def split: area_class.splits)

lemma rule_area_cases [simp]:
  "rule_area (rule_system reason l r) = area.System reason"
  "rule_area (rule_app_owned label l r) = area.AppOwned \<lparr>app_label = label\<rparr>"
  by (simp_all add: rule_area_def rule_system_def rule_app_owned_def)

lemma reaches_contains: "reaches ul r l cs \<Longrightarrow> contains ul (rule_anchor r) l cs"
  by (auto simp: reaches_def contains_def split: option.splits)

lemma reaches_subtree:
  "rule_reach r = Subtree \<Longrightarrow> reaches ul r l cs \<longleftrightarrow> contains ul (rule_anchor r) l cs"
  by (auto simp: reaches_def contains_def split: option.splits)

lemma reaches_exact: "rule_reach r = Exact \<Longrightarrow> reaches ul r l cs \<longleftrightarrow> same ul (rule_anchor r) l cs"
  by (auto simp: reaches_def same_def split: option.splits)

lemma area_of_open:
  "area_of ul p l = Open \<longleftrightarrow>
     loc_syntax l = prot_syntax p \<and> loc_names l \<noteq> [] \<and>
     \<not> contains ul l (prot_cwd p) (prot_case p) \<and> \<not> contains ul l (prot_exe p) (prot_case p) \<and>
     (\<forall>r \<in> set (prot_rules p). \<not> reaches ul r l (prot_case p))"
  unfolding area_of_def by (auto simp: find_ball_None dest: find_SomeD split: option.splits)

lemma area_of_unprotected:
  assumes "\<forall>reason. area_of ul p l \<noteq> area.System reason"
  shows "loc_syntax l = prot_syntax p" and "loc_names l \<noteq> []"
    and "\<not> contains ul l (prot_cwd p) (prot_case p)"
    and "\<not> contains ul l (prot_exe p) (prot_case p)"
  using assms by (auto simp: area_of_def split: if_splits)

lemma area_of_ruled:
  "r \<in> set (prot_rules p) \<Longrightarrow> reaches ul r l (prot_case p) \<Longrightarrow> area_of ul p l \<noteq> Open"
  by (auto simp: area_of_open)

lemma not_intersects_below:
  "\<not> intersects ul p e x \<Longrightarrow> contains ul x y (prot_case p) \<Longrightarrow> \<not> intersects ul p e y"
  unfolding intersects_def prot_contains_def by (rule paths.apart_below)

section \<open>The table is total and well-typed\<close>

lemma names_literal:
  "list_all (\<lambda>b. b \<noteq> slash \<and> code b \<noteq> 0) raw \<Longrightarrow> raw \<noteq> [] \<Longrightarrow> raw \<noteq> ''.'' \<Longrightarrow> raw \<noteq> ''..'' \<Longrightarrow>
   unix_path (slash # raw) = Inr (Location path_syntax.Unix root.Unix [Name raw])"
proof -
  assume raw: "list_all (\<lambda>b. b \<noteq> slash \<and> code b \<noteq> 0) raw" "raw \<noteq> []" "raw \<noteq> ''.''" "raw \<noteq> ''..''"
  then have "names_of (join_with slash (map as_bytes [Name raw])) path_syntax.Unix = Inr [Name raw]"
    by (intro names_of_join) (auto simp: name_ok_def list_all_iff)
  moreover have "strip_prefix [slash] (slash # raw) = Some raw"
    by (simp add: strip_prefix_Some)
  ultimately show ?thesis by (simp add: unix_path_def parse_unix_def)
qed

definition ok_rule :: "path_syntax \<Rightarrow> location_error + rule \<Rightarrow> bool" where
  "ok_rule syn res = (case res of Inl _ \<Rightarrow> False | Inr r \<Rightarrow> loc_syntax (rule_anchor r) = syn)"

lemma collect_ok_rules:
  "list_all (ok_rule syn) rs \<Longrightarrow>
   \<exists>rules. collect_results rs = Inr rules \<and> (\<forall>r \<in> set rules. loc_syntax (rule_anchor r) = syn)"
  by (induction rs) (auto simp: ok_rule_def split: sum.splits)

lemma ok_rule_at [simp]:
  "ok_rule syn (app_at label (Inr l) r) \<longleftrightarrow> loc_syntax l = syn"
  "ok_rule syn (system_at reason (Inr l) r) \<longleftrightarrow> loc_syntax l = syn"
  by (simp_all add: ok_rule_def app_at_def system_at_def rule_app_owned_def rule_system_def)

lemma child_literal:
  "name_ok (loc_syntax l) raw \<Longrightarrow> child l raw = Inr (join l (Name raw))"
  using name_new_Inr [of raw "loc_syntax l" "Name raw"] by (simp add: child_def)

lemma join_syntax [simp]: "loc_syntax (join l n) = loc_syntax l"
  by (simp add: join_def)

definition host_ok :: "path_syntax \<Rightarrow> host \<Rightarrow> bool" where
  "host_ok syn h \<longleftrightarrow>
     pred_option (\<lambda>l. loc_syntax l = syn) (host_home h) \<and>
     pred_option (\<lambda>l. loc_syntax l = syn) (host_temp h) \<and>
     pred_option (\<lambda>l. loc_syntax l = syn) (host_xdg_cache h) \<and>
     list_all (\<lambda>(_, l). loc_syntax l = syn) (host_program_areas h)"

lemma ok_rule_unix_literal:
  assumes "list_all (\<lambda>b. b \<noteq> slash \<and> code b \<noteq> 0) raw" "raw \<noteq> []" "raw \<noteq> ''.''" "raw \<noteq> ''..''"
  shows "ok_rule path_syntax.Unix (app_at label (unix_path (slash # raw)) r)"
    and "ok_rule path_syntax.Unix (system_at reason (unix_path (slash # raw)) r)"
  using names_literal [OF assms] by simp_all

lemma two_names_literal:
  assumes "name_ok path_syntax.Unix a" and "name_ok path_syntax.Unix b" and "c = slash"
  shows "unix_path (slash # a @ c # b) =
    Inr (Location path_syntax.Unix root.Unix [Name a, Name b])"
proof -
  have "names_of (join_with slash (map as_bytes [Name a, Name b])) path_syntax.Unix
      = Inr [Name a, Name b]"
    using assms by (intro names_of_join) auto
  moreover have "strip_prefix [slash] (slash # a @ slash # b) = Some (a @ slash # b)"
    by (simp add: strip_prefix_Some)
  ultimately show ?thesis using assms(3) by (simp add: unix_path_def parse_unix_def)
qed

lemma three_names_literal:
  assumes "name_ok path_syntax.Unix a" and "name_ok path_syntax.Unix b" and "name_ok path_syntax.Unix c"
  shows "unix_path (slash # a @ slash # b @ slash # c) =
    Inr (Location path_syntax.Unix root.Unix [Name a, Name b, Name c])"
proof -
  have "names_of (join_with slash (map as_bytes [Name a, Name b, Name c])) path_syntax.Unix
      = Inr [Name a, Name b, Name c]"
    using assms by (intro names_of_join) auto
  moreover have "strip_prefix [slash] (slash # a @ slash # b @ slash # c) = Some (a @ slash # b @ slash # c)"
    by (simp add: strip_prefix_Some)
  ultimately show ?thesis by (simp add: unix_path_def parse_unix_def)
qed

lemma multi_literals:
  "unix_path ''/private/var/folders'' =
     Inr (Location path_syntax.Unix root.Unix [Name ''private'', Name ''var'', Name ''folders''])"
  "unix_path ''/private/var/tmp'' =
     Inr (Location path_syntax.Unix root.Unix [Name ''private'', Name ''var'', Name ''tmp''])"
  "unix_path ''/private/tmp'' = Inr (Location path_syntax.Unix root.Unix [Name ''private'', Name ''tmp''])"
  "unix_path ''/var/tmp'' = Inr (Location path_syntax.Unix root.Unix [Name ''var'', Name ''tmp''])"
  using three_names_literal [of "''private''" "''var''" "''folders''"]
    three_names_literal [of "''private''" "''var''" "''tmp''"]
    two_names_literal [of "''private''" "''tmp''" slash] two_names_literal [of "''var''" "''tmp''" slash]
  by (simp_all add: name_ok_def)

lemma for_some_all: "list_all p (for_some m f) \<longleftrightarrow> pred_option (\<lambda>x. list_all p (f x)) m"
  by (cases m) (simp_all add: for_some_def)

lemma macos_ok: "host_ok path_syntax.Unix h \<Longrightarrow>
  list_all (ok_rule path_syntax.Unix) (macos_app_rules h @ macos_system_rules h)"
  unfolding host_ok_def macos_app_rules_def macos_system_rules_def macos_system_def
  by (auto simp: for_some_all multi_literals ok_rule_unix_literal child_literal name_ok_def
      option.pred_set)

lemma linux_ok: "host_ok path_syntax.Unix h \<Longrightarrow>
  list_all (ok_rule path_syntax.Unix) (linux_app_rules h @ linux_system_rules h)"
  unfolding host_ok_def linux_app_rules_def linux_system_rules_def linux_system_def linux_cache_def
  by (auto simp: for_some_all multi_literals ok_rule_unix_literal child_literal name_ok_def
      option.pred_set split: option.splits)

lemma parent_syntax: "parent l = Some p \<Longrightarrow> loc_syntax p = loc_syntax l"
  by (auto simp: parent_def split: if_splits)

lemma windows_ok:
  assumes "host_ok path_syntax.Windows h"
  shows "\<exists>rules. windows_rules h = Inr rules \<and>
    (\<forall>r \<in> set rules. loc_syntax (rule_anchor r) = path_syntax.Windows)"
  unfolding windows_rules_def Let_def
proof (rule collect_ok_rules)
  have users: "pred_option (\<lambda>l. loc_syntax l = path_syntax.Windows) (Option.bind (host_home h) parent)"
    using assms by (cases "host_home h") (auto simp: host_ok_def option.pred_set parent_syntax)
  have areas: "list_all (ok_rule path_syntax.Windows)
      (map (\<lambda>(label, path). system_at (SystemArea label) (Inr path) Subtree) (host_program_areas h))"
    using assms by (auto simp: host_ok_def list_all_iff)
  show "list_all (ok_rule path_syntax.Windows)
        (for_some (host_home h) (\<lambda>home. [app_at ''AppData'' (child home ''AppData'') Subtree]) @
         for_some (Option.bind (host_home h) parent)
           (\<lambda>u. [app_at ''AppData'' (Inr u) (EachChildSubtree ''AppData'')]) @
         map (\<lambda>(label, path). system_at (SystemArea label) (Inr path) Subtree) (host_program_areas h) @
         for_some (host_home h) (\<lambda>home. [system_at ProfileRoot (Inr home) Exact]) @
         for_some (Option.bind (host_home h) parent)
           (\<lambda>u. [system_at UsersRoot (Inr u) Exact, system_at ProfileRoot (Inr u) EachChild]))"
    using assms users areas
    by (auto simp: host_ok_def for_some_all child_literal name_ok_def option.pred_set)
qed

lemma table_total:
  assumes "host_ok (platform_syntax pl) h"
  shows "\<exists>rules. table_rules pl h = Inr rules \<and>
    (\<forall>r \<in> set rules. loc_syntax (rule_anchor r) = platform_syntax pl)"
  using assms windows_ok collect_ok_rules [OF macos_ok] collect_ok_rules [OF linux_ok]
  by (cases pl) (auto simp: macos_rules_def linux_rules_def)

lemma collect_results_mem: "collect_results rs = Inr xs \<Longrightarrow> Inr x \<in> set rs \<Longrightarrow> x \<in> set xs"
  by (auto simp: collect_results_Inr)

text \<open>The directories each platform names as the system's.\<close>

fun system_paths :: "platform \<Rightarrow> bytes list" where
  "system_paths MacOs = macos_system"
| "system_paths Linux = linux_system"
| "system_paths platform.Windows = []"

lemma system_rule_present:
  assumes "table_rules pl h = Inr rules" and "path \<in> set (system_paths pl)"
    and "unix_path path = Inr anchor"
  shows "rule_system (SystemArea path) anchor Subtree \<in> set rules"
proof -
  have rule: "system_at (SystemArea path) (unix_path path) Subtree =
      Inr (rule_system (SystemArea path) anchor Subtree)"
    using assms(3) by (simp add: system_at_def)
  have "Inr (rule_system (SystemArea path) anchor Subtree) \<in> set (macos_app_rules h @ macos_system_rules h)"
    if "pl = MacOs"
    using that assms(2) rule by (force simp: macos_system_rules_def)
  moreover have "Inr (rule_system (SystemArea path) anchor Subtree) \<in> set (linux_app_rules h @ linux_system_rules h)"
    if "pl = Linux"
    using that assms(2) rule by (force simp: linux_system_rules_def)
  ultimately show ?thesis
    using assms(1,2) collect_results_mem
    by (cases pl) (auto simp: macos_rules_def linux_rules_def simp del: set_append)
qed

end
