(* ===== verification/Artifacts.thy ===== *)
theory Artifacts
  imports Locations
begin

text \<open>
  Lock protocols (\<open>crates/core/src/lock.rs\<close>) and artifact families
  (\<open>crates/core/src/artifact.rs\<close>): the kinds, their tiers, contents and writer locks, and
  the identification of a directory from the listing of its parent and of itself.
\<close>

section \<open>Lock protocols\<close>

datatype protocol = Cargo | SwiftPackage | Gleam | TempOwner
datatype presence = Optional | Required

fun protocol_presence :: "protocol \<Rightarrow> presence" where
  "protocol_presence Cargo = Optional"
| "protocol_presence Gleam = Optional"
| "protocol_presence TempOwner = Required"
| "protocol_presence SwiftPackage = Required"

definition cargo_names :: "bytes list" where
  "cargo_names = [''.cargo-lock'', ''.cargo-build-lock'', ''.cargo-artifact-lock'']"

definition temp_owner_name :: bytes where
  "temp_owner_name = ''owner.lock''"

fun protocol_label :: "protocol \<Rightarrow> bytes" where
  "protocol_label Cargo = ''cargo''"
| "protocol_label SwiftPackage = ''swiftpm''"
| "protocol_label Gleam = ''gleam''"
| "protocol_label TempOwner = ''owner.lock''"

definition gleam_names :: "bytes list" where
  "gleam_names =
     [''gleam.lock'', ''gleam-dev-erlang.lock'', ''gleam-dev-javascript.lock'',
      ''gleam-prod-erlang.lock'', ''gleam-prod-javascript.lock'', ''gleam-lsp-erlang.lock'',
      ''gleam-lsp-javascript.lock'']"

definition protocol_of :: "bytes \<Rightarrow> protocol option" where
  "protocol_of n =
     (if list_ex (\<lambda>cargo. cargo = n) cargo_names then Some Cargo
      else if n = temp_owner_name then Some TempOwner
      else if n \<in> set gleam_names then Some Gleam
      else None)"

fun protocol_display :: "protocol \<Rightarrow> bytes" where
  "protocol_display Cargo = ''a running build''"
| "protocol_display SwiftPackage = ''a running build''"
| "protocol_display Gleam = ''a running build''"
| "protocol_display TempOwner = ''its owner''"

datatype liveness = Free | Held location protocol | Unknown location protocol

section \<open>Kinds\<close>

datatype kind =
    RustTarget | SwiftPackageBuild | GleamBuild | DotNetOutput | SolutionBuild
  | VisualStudioCache | GradleOutput | MavenTarget | JsOutput | PythonCache | CmakeOutput
  | NodeModules | PythonVenv | UnityOutput | TaggedCache | OwnedScratch | OwnedCache

definition all_kinds :: "kind list" where
  "all_kinds =
     [RustTarget, SwiftPackageBuild, GleamBuild, DotNetOutput, SolutionBuild, VisualStudioCache,
      GradleOutput, MavenTarget, JsOutput, PythonCache, CmakeOutput, NodeModules, PythonVenv,
      UnityOutput, TaggedCache, OwnedScratch, OwnedCache]"

datatype tree_contents = Artifacts | ProducerOwned | SwiftPackage | Gleam
datatype source_area = Checkouts | Repositories | Packages | Git | Other
datatype git_entry = RepositoryDirectory | LinkedCheckout
datatype source_disposition = Preserve | Disposable
datatype tier = Routine | Reinstallable | Expensive
datatype provenance = Declared | Inferred

definition source_area_of :: "bytes \<Rightarrow> source_area" where
  "source_area_of component =
     (if component = ''checkouts'' then Checkouts
      else if component = ''repositories'' then Repositories
      else if component = ''packages'' then Packages
      else if component = ''git'' then Git
      else source_area.Other)"

fun contents_git :: "tree_contents \<Rightarrow> source_area \<Rightarrow> git_entry \<Rightarrow> source_disposition" where
  "contents_git ProducerOwned a e = Disposable"
| "contents_git Artifacts a e = Preserve"
| "contents_git tree_contents.SwiftPackage a e =
     (case e of
        LinkedCheckout \<Rightarrow> Preserve
      | RepositoryDirectory \<Rightarrow>
          (case a of Checkouts \<Rightarrow> Disposable | Repositories \<Rightarrow> Disposable | _ \<Rightarrow> Preserve))"
| "contents_git tree_contents.Gleam a e =
     (case e of
        LinkedCheckout \<Rightarrow> Preserve
      | RepositoryDirectory \<Rightarrow>
          (case a of Packages \<Rightarrow> Disposable | Git \<Rightarrow> Disposable | _ \<Rightarrow> Preserve))"

definition kind_contents :: "kind \<Rightarrow> tree_contents" where
  "kind_contents k =
     (case k of
        OwnedScratch \<Rightarrow> ProducerOwned | OwnedCache \<Rightarrow> ProducerOwned
      | SwiftPackageBuild \<Rightarrow> tree_contents.SwiftPackage
      | GleamBuild \<Rightarrow> tree_contents.Gleam
      | _ \<Rightarrow> Artifacts)"

definition kind_protocol :: "kind \<Rightarrow> protocol option" where
  "kind_protocol k =
     (case k of
        RustTarget \<Rightarrow> Some Cargo
      | SwiftPackageBuild \<Rightarrow> Some protocol.SwiftPackage
      | GleamBuild \<Rightarrow> Some protocol.Gleam
      | OwnedScratch \<Rightarrow> Some TempOwner
      | OwnedCache \<Rightarrow> Some TempOwner
      | _ \<Rightarrow> None)"

definition kind_tier :: "kind \<Rightarrow> tier" where
  "kind_tier k =
     (case k of
        NodeModules \<Rightarrow> Reinstallable | PythonVenv \<Rightarrow> Reinstallable | TaggedCache \<Rightarrow> Reinstallable
      | UnityOutput \<Rightarrow> Expensive
      | _ \<Rightarrow> Routine)"

fun kind_label :: "kind \<Rightarrow> bytes" where
  "kind_label RustTarget = ''Rust target''"
| "kind_label SwiftPackageBuild = ''SwiftPM .build''"
| "kind_label GleamBuild = ''Gleam build''"
| "kind_label DotNetOutput = ''.NET bin/obj''"
| "kind_label SolutionBuild = ''solution build''"
| "kind_label VisualStudioCache = ''Visual Studio .vs''"
| "kind_label GradleOutput = ''Gradle output''"
| "kind_label MavenTarget = ''Maven target''"
| "kind_label JsOutput = ''JS build output''"
| "kind_label PythonCache = ''Python cache''"
| "kind_label CmakeOutput = ''CMake output''"
| "kind_label NodeModules = ''node_modules''"
| "kind_label PythonVenv = ''Python venv''"
| "kind_label UnityOutput = ''Unity output''"
| "kind_label TaggedCache = ''CACHEDIR.TAG cache''"
| "kind_label OwnedScratch = ''owned scratch''"
| "kind_label OwnedCache = ''owned cache''"

fun kind_as_str :: "kind \<Rightarrow> bytes" where
  "kind_as_str RustTarget = ''rust-target''"
| "kind_as_str SwiftPackageBuild = ''swift-package-build''"
| "kind_as_str GleamBuild = ''gleam-build''"
| "kind_as_str DotNetOutput = ''dotnet-output''"
| "kind_as_str SolutionBuild = ''solution-build''"
| "kind_as_str VisualStudioCache = ''visual-studio-cache''"
| "kind_as_str GradleOutput = ''gradle-output''"
| "kind_as_str MavenTarget = ''maven-target''"
| "kind_as_str JsOutput = ''js-output''"
| "kind_as_str PythonCache = ''python-cache''"
| "kind_as_str CmakeOutput = ''cmake-output''"
| "kind_as_str NodeModules = ''node-modules''"
| "kind_as_str PythonVenv = ''python-venv''"
| "kind_as_str UnityOutput = ''unity-output''"
| "kind_as_str TaggedCache = ''tagged-cache''"
| "kind_as_str OwnedScratch = ''owned-scratch''"
| "kind_as_str OwnedCache = ''owned-cache''"

definition kind_from_str :: "bytes \<Rightarrow> kind option" where
  "kind_from_str v = List.find (\<lambda>k. eq_ignore_ascii_case (kind_as_str k) v) all_kinds"

definition all_tiers :: "tier list" where
  "all_tiers = [Routine, Reinstallable, Expensive]"

fun tier_as_str :: "tier \<Rightarrow> bytes" where
  "tier_as_str Routine = ''routine''"
| "tier_as_str Reinstallable = ''reinstallable''"
| "tier_as_str Expensive = ''expensive''"

definition tier_from_str :: "bytes \<Rightarrow> tier option" where
  "tier_from_str v = List.find (\<lambda>t. eq_ignore_ascii_case (tier_as_str t) v) all_tiers"

fun provenance_as_str :: "provenance \<Rightarrow> bytes" where
  "provenance_as_str Declared = ''declared''"
| "provenance_as_str Inferred = ''inferred''"

section \<open>Listings\<close>

datatype cache_tag = Absent | Verified | Invalid
datatype owner_tag = Absent | Scratch | Cache | Foreign

record tags =
  tag_cache :: cache_tag
  tag_owner :: owner_tag

definition tags_cache :: "cache_tag \<Rightarrow> tags" where
  "tags_cache c = \<lparr>tag_cache = c, tag_owner = owner_tag.Absent\<rparr>"

text \<open>The \<open>BTreeSet\<close>s of lower-cased names are finite sets of byte strings, kept as lists;
  only membership is observed.\<close>

record entries =
  ent_files :: "bytes list"
  ent_dirs :: "bytes list"

definition lower :: "bytes \<Rightarrow> bytes" where
  "lower n = to_ascii_lowercase (from_utf8_lossy n)"

definition entries_file :: "entries \<Rightarrow> bytes \<Rightarrow> entries" where
  "entries_file e n = e\<lparr>ent_files := List.insert (lower n) (ent_files e)\<rparr>"

definition entries_dir :: "entries \<Rightarrow> bytes \<Rightarrow> entries" where
  "entries_dir e n = e\<lparr>ent_dirs := List.insert (lower n) (ent_dirs e)\<rparr>"

definition has_file :: "entries \<Rightarrow> bytes \<Rightarrow> bool" where
  "has_file e n \<longleftrightarrow> to_ascii_lowercase n \<in> set (ent_files e)"

record listing =
  parent_files :: "bytes list"
  parent_dirs :: "bytes list"
  child_files :: "bytes list"
  child_dirs :: "bytes list"
  list_tags :: tags

definition listing_new :: "entries \<Rightarrow> entries \<Rightarrow> tags \<Rightarrow> listing" where
  "listing_new p c t =
     \<lparr>parent_files = ent_files p, parent_dirs = ent_dirs p,
      child_files = ent_files c, child_dirs = ent_dirs c, list_tags = t\<rparr>"

record identification =
  id_kind :: kind
  id_provenance :: provenance

definition any_extension :: "bytes list \<Rightarrow> bytes list \<Rightarrow> bool" where
  "any_extension files extensions \<longleftrightarrow>
     list_ex (\<lambda>file. case rsplit_once (CHR ''.'') file of
        None \<Rightarrow> False
      | Some (stem, extension) \<Rightarrow> stem \<noteq> [] \<and> extension \<in> set extensions) files"

definition declares_rust_target :: "listing \<Rightarrow> bool" where
  "declares_rust_target l \<longleftrightarrow>
     ''.rustc_info.json'' \<in> set (child_files l) \<and>
     (''debug'' \<in> set (child_dirs l) \<or> ''release'' \<in> set (child_dirs l))"

text \<open>The project families, in the order the code tries them: the name of the directory and
  the files and directories beside it.\<close>

definition family_kind :: "listing \<Rightarrow> bytes \<Rightarrow> kind option" where
  "family_kind l n =
     (let files = parent_files l; dirs = parent_dirs l; inner = child_files l;
          python = any_extension files [''py''] \<or>
            list_ex (\<lambda>file. file \<in> set [''pyproject.toml'', ''requirements.txt'', ''setup.py'',
              ''setup.cfg'', ''pipfile'', ''poetry.lock'']) files in
      if ''assets'' \<in> set dirs \<and> ''projectsettings'' \<in> set dirs \<and>
         n \<in> set [''library'', ''temp'', ''obj''] then Some UnityOutput
      else if n = ''target'' \<and> ''cargo.toml'' \<in> set files then Some RustTarget
      else if n = ''.build'' \<and> ''package.swift'' \<in> set files then Some SwiftPackageBuild
      else if n = ''build'' \<and> ''gleam.toml'' \<in> set files then Some GleamBuild
      else if n = ''target'' \<and> ''pom.xml'' \<in> set files then Some MavenTarget
      else if n \<in> set [''bin'', ''obj''] \<and>
         any_extension files [''csproj'', ''fsproj'', ''vbproj'', ''vcxproj'', ''proj'']
         then Some DotNetOutput
      else if n = ''.vs'' \<and> any_extension files [''sln'', ''slnx''] then Some VisualStudioCache
      else if n \<in> set [''build'', ''.gradle''] \<and>
         list_ex (\<lambda>file. file \<in> set [''build.gradle'', ''build.gradle.kts'', ''settings.gradle'',
           ''settings.gradle.kts'', ''gradlew'', ''gradlew.bat'']) files then Some GradleOutput
      else if (n = ''build'' \<or> starts_with ''cmake-build-'' n \<or> n = ''out'') \<and>
         ''cmakecache.txt'' \<in> set inner then Some CmakeOutput
      else if n = ''build'' \<and> any_extension files [''sln'', ''slnx''] then Some SolutionBuild
      else if n \<in> set [''dist'', ''build'', ''out'', ''.next'', ''.nuxt'', ''.turbo'', ''coverage''] \<and>
         ''package.json'' \<in> set files then Some JsOutput
      else if n \<in> set [''__pycache__'', ''.mypy_cache'', ''.pytest_cache'', ''.ruff_cache'', ''.tox''] \<and>
         python then Some PythonCache
      else if n = ''node_modules'' \<and> ''package.json'' \<in> set files then Some NodeModules
      else if n \<in> set [''.venv'', ''venv''] \<and> python \<and> ''pyvenv.cfg'' \<in> set inner
         then Some PythonVenv
      else (case tag_cache (list_tags l) of
              Verified \<Rightarrow> Some TaggedCache
            | _ \<Rightarrow> None))"

definition listing_kind :: "listing \<Rightarrow> name \<Rightarrow> kind option" where
  "listing_kind l nm =
     (case tag_owner (list_tags l) of
        Scratch \<Rightarrow> Some OwnedScratch
      | Cache \<Rightarrow> Some OwnedCache
      | _ \<Rightarrow>
          if declares_rust_target l then Some RustTarget
          else family_kind l (to_ascii_lowercase (from_utf8_lossy (as_bytes nm))))"

definition identify :: "listing \<Rightarrow> name \<Rightarrow> identification option" where
  "identify l nm =
     (case listing_kind l nm of
        None \<Rightarrow> None
      | Some k \<Rightarrow>
          Some \<lparr>id_kind = k,
                id_provenance =
                  (if tag_cache (list_tags l) = Verified \<or>
                      tag_owner (list_tags l) = Scratch \<or> tag_owner (list_tags l) = Cache \<or>
                      declares_rust_target l
                   then Declared else Inferred)\<rparr>)"

section \<open>Facts\<close>

lemma all_kinds_complete: "k \<in> set all_kinds"
  by (cases k) (simp_all add: all_kinds_def)

lemma all_tiers_complete: "t \<in> set all_tiers"
  by (cases t) (simp_all add: all_tiers_def)

lemma to_ascii_lower_lower: "is_ascii_upper c = False \<Longrightarrow> to_ascii_lower c = c"
  by (simp add: to_ascii_lower_def)

lemma kind_as_str_lower: "to_ascii_lowercase (kind_as_str k) = kind_as_str k"
  by (cases k) (simp_all add: to_ascii_lower_def is_ascii_upper_def)

lemma tier_as_str_lower: "to_ascii_lowercase (tier_as_str t) = tier_as_str t"
  by (cases t) (simp_all add: to_ascii_lower_def is_ascii_upper_def)

lemma kind_as_str_inject: "kind_as_str k = kind_as_str k' \<longleftrightarrow> k = k'"
  by (cases k; cases k') simp_all

lemma tier_as_str_inject: "tier_as_str t = tier_as_str t' \<longleftrightarrow> t = t'"
  by (cases t; cases t') simp_all

lemma kind_matches: "eq_ignore_ascii_case (kind_as_str k) v \<longleftrightarrow> kind_as_str k = to_ascii_lowercase v"
  by (simp add: eq_ignore_ascii_case_def kind_as_str_lower)

lemma kind_from_str_Some:
  "kind_from_str v = Some k \<longleftrightarrow> kind_as_str k = to_ascii_lowercase v"
proof
  assume "kind_from_str v = Some k"
  then show "kind_as_str k = to_ascii_lowercase v"
    by (auto simp: kind_from_str_def kind_matches dest: find_SomeD)
next
  assume v: "kind_as_str k = to_ascii_lowercase v"
  then have "kind_from_str v \<noteq> None"
    using all_kinds_complete [of k] by (auto simp: kind_from_str_def kind_matches find_ball_None)
  then obtain k' where k': "kind_from_str v = Some k'" by auto
  then have "kind_as_str k' = to_ascii_lowercase v"
    by (auto simp: kind_from_str_def kind_matches dest: find_SomeD)
  with v have "k' = k" by (metis kind_as_str_inject)
  with k' show "kind_from_str v = Some k" by simp
qed

lemma tier_from_str_Some:
  "tier_from_str v = Some t \<longleftrightarrow> tier_as_str t = to_ascii_lowercase v"
proof
  assume "tier_from_str v = Some t"
  then show "tier_as_str t = to_ascii_lowercase v"
    by (auto simp: tier_from_str_def eq_ignore_ascii_case_def tier_as_str_lower dest: find_SomeD)
next
  assume v: "tier_as_str t = to_ascii_lowercase v"
  then have "tier_from_str v \<noteq> None"
    using all_tiers_complete [of t]
    by (auto simp: tier_from_str_def eq_ignore_ascii_case_def tier_as_str_lower find_ball_None)
  then obtain t' where t': "tier_from_str v = Some t'" by auto
  then have "tier_as_str t' = to_ascii_lowercase v"
    by (auto simp: tier_from_str_def eq_ignore_ascii_case_def tier_as_str_lower dest: find_SomeD)
  with v have "t' = t" by (metis tier_as_str_inject)
  with t' show "tier_from_str v = Some t" by simp
qed

text \<open>Without a listing of project files beside it no family is recognised from the name.\<close>

lemma family_kind_alone:
  assumes "parent_files l = []" and "\<not> (''assets'' \<in> set (parent_dirs l) \<and>
      ''projectsettings'' \<in> set (parent_dirs l))"
    and "''cmakecache.txt'' \<notin> set (child_files l)"
  shows "family_kind l n = (if tag_cache (list_tags l) = Verified then Some TaggedCache else None)"
proof -
  have "any_extension (parent_files l) exts = False" for exts
    using assms(1) by (simp add: any_extension_def)
  then show ?thesis
    using assms unfolding family_kind_def Let_def
    by (cases "tag_cache (list_tags l)") auto
qed

lemma identify_kind: "map_option id_kind (identify l nm) = listing_kind l nm"
  by (simp add: identify_def split: option.splits)

lemma if_neqI: "x \<noteq> z \<Longrightarrow> y \<noteq> z \<Longrightarrow> (if b then x else y) \<noteq> z"
  by simp

lemma family_kind_not_owned: "family_kind l n \<noteq> Some OwnedScratch \<and> family_kind l n \<noteq> Some OwnedCache"
  unfolding family_kind_def Let_def
  by (intro conjI if_neqI) (simp_all split: cache_tag.splits)

lemma listing_kind_owned:
  "listing_kind l nm = Some OwnedScratch \<longleftrightarrow> tag_owner (list_tags l) = Scratch"
  "listing_kind l nm = Some OwnedCache \<longleftrightarrow> tag_owner (list_tags l) = Cache"
  using family_kind_not_owned [of l] by (auto simp: listing_kind_def split: owner_tag.splits)

lemma identify_declared:
  "identify l nm = Some i \<Longrightarrow>
   id_provenance i = Declared \<longleftrightarrow>
     tag_cache (list_tags l) = Verified \<or> tag_owner (list_tags l) \<in> {Scratch, Cache} \<or>
     declares_rust_target l"
  by (auto simp: identify_def split: option.splits if_splits)

end
