(* ===== verification/Ownership.thy ===== *)
theory Ownership
  imports Locations
begin

text \<open>
  Ownership (\<open>crates/core/src/ownership.rs\<close>, with \<open>Identity\<close> of \<open>candidate.rs\<close> and the I/O
  failures of \<open>reject.rs\<close>): markers, git worktrees and release evidence, the settlement each
  of them gives, how they are combined, and which settlements a mandate admits.
\<close>

section \<open>Identities and I/O failures\<close>

record identity =
  volume :: u64
  file_id :: u128

datatype fs_op =
    Inspect | ReadDir | ReadEntry | FileType | Metadata | Canonicalize | AllocationInfo | FileId
  | FreeSpace | FilesystemType | Open | Lock | Remove

fun fs_op_as_str :: "fs_op \<Rightarrow> bytes" where
  "fs_op_as_str Inspect = ''inspect''"
| "fs_op_as_str ReadDir = ''read-dir''"
| "fs_op_as_str ReadEntry = ''read-entry''"
| "fs_op_as_str FileType = ''file-type''"
| "fs_op_as_str Metadata = ''metadata''"
| "fs_op_as_str Canonicalize = ''canonicalize''"
| "fs_op_as_str AllocationInfo = ''allocation-info''"
| "fs_op_as_str FileId = ''file-id''"
| "fs_op_as_str FreeSpace = ''free-space''"
| "fs_op_as_str FilesystemType = ''filesystem-type''"
| "fs_op_as_str Open = ''open''"
| "fs_op_as_str Lock = ''lock''"
| "fs_op_as_str Remove = ''remove''"

datatype io_kind =
    NotFound | PermissionDenied | AlreadyExists | WouldBlock | InvalidInput | DirectoryNotEmpty
  | ReadOnlyFilesystem | ResourceBusy | CrossesDevices | Interrupted | Unsupported
  | NotADirectory | IsADirectory | StorageFull | Other

fun io_kind_display :: "io_kind \<Rightarrow> bytes" where
  "io_kind_display NotFound = ''not found''"
| "io_kind_display PermissionDenied = ''permission denied''"
| "io_kind_display AlreadyExists = ''already exists''"
| "io_kind_display WouldBlock = ''would block''"
| "io_kind_display InvalidInput = ''invalid input''"
| "io_kind_display DirectoryNotEmpty = ''directory not empty''"
| "io_kind_display ReadOnlyFilesystem = ''read-only filesystem''"
| "io_kind_display ResourceBusy = ''resource busy''"
| "io_kind_display CrossesDevices = ''crosses devices''"
| "io_kind_display Interrupted = ''interrupted''"
| "io_kind_display Unsupported = ''unsupported''"
| "io_kind_display NotADirectory = ''not a directory''"
| "io_kind_display IsADirectory = ''is a directory''"
| "io_kind_display StorageFull = ''storage full''"
| "io_kind_display Other = ''other error''"

record io_failure =
  io_kind :: io_kind
  io_code :: "int option"

section \<open>Settlements, markers and worktrees\<close>

datatype settlement = Released | Landed | Active | Kept | Unclaimed

fun settlement_as_str :: "settlement \<Rightarrow> bytes" where
  "settlement_as_str settlement.Released = ''released''"
| "settlement_as_str settlement.Landed = ''landed''"
| "settlement_as_str settlement.Active = ''active''"
| "settlement_as_str settlement.Kept = ''kept''"
| "settlement_as_str settlement.Unclaimed = ''unclaimed''"

datatype role = Scratch | Cache
datatype keep = Kept | Released
datatype owner_lock = Held | Free | Missing | Unreadable
datatype owner_key = Unkeyed | Present | Gone | Unknown

record release_evidence =
  recorded_identity :: identity
  rel_identity :: identity
  recorded_digest :: bytes
  rel_digest :: bytes
  rel_monitor :: owner_lock
  rel_writers :: owner_lock

definition evidence_settlement :: "release_evidence \<Rightarrow> settlement" where
  "evidence_settlement e =
     (if recorded_identity e = rel_identity e \<and> recorded_digest e = rel_digest e \<and>
         rel_monitor e = Held \<and> rel_writers e = Free
      then settlement.Released else settlement.Active)"

record marker =
  mk_directory :: location
  mk_schema :: bytes
  mk_role :: role
  mk_keep :: keep
  mk_lock :: owner_lock
  mk_key :: owner_key

definition marker_settlement :: "marker \<Rightarrow> settlement" where
  "marker_settlement m =
     (case mk_keep m of
        keep.Kept \<Rightarrow> settlement.Kept
      | keep.Released \<Rightarrow>
          (case mk_lock m of
             Free \<Rightarrow>
               (case mk_role m of
                  Scratch \<Rightarrow> settlement.Released
                | Cache \<Rightarrow> (if mk_key m = Gone then settlement.Released else settlement.Active))
           | _ \<Rightarrow> settlement.Active))"

datatype changes = Clean | Dirty
datatype upstream = NoUpstream | Tracking bytes | Gone bytes
datatype head = Branch bytes upstream | Detached
datatype landing = NoDefaultBranch | NoOwnWork bytes | Contained bytes | NotContained

datatype git_failure =
  Unavailable io_failure | Refused bytes "int option" | Unparsable bytes

datatype worktree =
    Released location release_evidence
  | Primary location
  | Linked location changes head landing
  | Orphaned location
  | Unreadable location git_failure

fun linked_settlement :: "head \<Rightarrow> landing \<Rightarrow> settlement" where
  "linked_settlement (Branch n (upstream.Gone u)) l = settlement.Landed"
| "linked_settlement h (Contained into) = settlement.Landed"
| "linked_settlement Detached (NoOwnWork into) = settlement.Landed"
| "linked_settlement h l = settlement.Active"

fun worktree_settlement :: "worktree \<Rightarrow> settlement" where
  "worktree_settlement (worktree.Released r evidence) = evidence_settlement evidence"
| "worktree_settlement (Primary r) = settlement.Active"
| "worktree_settlement (worktree.Unreadable r f) = settlement.Active"
| "worktree_settlement (Linked r Dirty h l) = settlement.Active"
| "worktree_settlement (Orphaned r) = settlement.Released"
| "worktree_settlement (Linked r Clean h l) = linked_settlement h l"

section \<open>Combining what claims a directory\<close>

datatype ownership =
    Markers "marker list"
  | Worktree worktree
  | Holders "marker list" "worktree option"
  | Nothing

fun protects :: "settlement \<Rightarrow> bool" where
  "protects settlement.Active \<longleftrightarrow> True"
| "protects settlement.Kept \<longleftrightarrow> True"
| "protects settlement.Released \<longleftrightarrow> False"
| "protects settlement.Landed \<longleftrightarrow> False"
| "protects settlement.Unclaimed \<longleftrightarrow> False"

text \<open>The rank of the derived order on the private enum \<open>Protection\<close>.\<close>

fun protection_rank :: "settlement \<Rightarrow> nat" where
  "protection_rank settlement.Released = 0"
| "protection_rank settlement.Landed = 1"
| "protection_rank settlement.Unclaimed = 2"
| "protection_rank settlement.Active = 3"
| "protection_rank settlement.Kept = 4"

definition strongest :: "settlement list \<Rightarrow> settlement" where
  "strongest ss =
     (case max_by_key protection_rank ss of
        None \<Rightarrow> settlement.Unclaimed | Some s \<Rightarrow> s)"

definition resolve :: "marker list \<Rightarrow> marker list \<Rightarrow> worktree option \<Rightarrow> ownership" where
  "resolve own nested wt =
     (let holders = filter (\<lambda>m. protects (marker_settlement m)) nested in
      if own \<noteq> [] then Markers (own @ holders)
      else if holders \<noteq> [] then Holders holders wt
      else (case wt of Some w \<Rightarrow> Worktree w | None \<Rightarrow> Nothing))"

fun settlement_of :: "ownership \<Rightarrow> settlement" where
  "settlement_of (Markers ms) = strongest (map marker_settlement ms)"
| "settlement_of (Worktree w) = worktree_settlement w"
| "settlement_of (Holders hs w) =
     strongest (map marker_settlement hs @ map worktree_settlement (case w of None \<Rightarrow> [] | Some x \<Rightarrow> [x]))"
| "settlement_of Nothing = settlement.Unclaimed"

section \<open>What a caller admits\<close>

datatype admits = Anything | Settled | Unkept

fun admits_settlement :: "admits \<Rightarrow> settlement \<Rightarrow> bool" where
  "admits_settlement Anything s \<longleftrightarrow> True"
| "admits_settlement Settled settlement.Released \<longleftrightarrow> True"
| "admits_settlement Settled settlement.Landed \<longleftrightarrow> True"
| "admits_settlement Unkept settlement.Released \<longleftrightarrow> True"
| "admits_settlement Unkept settlement.Landed \<longleftrightarrow> True"
| "admits_settlement Unkept settlement.Active \<longleftrightarrow> True"
| "admits_settlement Unkept settlement.Unclaimed \<longleftrightarrow> True"
| "admits_settlement Settled settlement.Active \<longleftrightarrow> False"
| "admits_settlement Settled settlement.Unclaimed \<longleftrightarrow> False"
| "admits_settlement Settled settlement.Kept \<longleftrightarrow> False"
| "admits_settlement Unkept settlement.Kept \<longleftrightarrow> False"

definition admits_deletion :: "admits \<Rightarrow> settlement \<Rightarrow> bool" where
  "admits_deletion a s \<longleftrightarrow> admits_settlement Settled s \<and> admits_settlement a s"

text \<open>The private capability: it exists only for an admitted settlement.\<close>

definition deletion_grant :: "admits \<Rightarrow> settlement \<Rightarrow> unit option" where
  "deletion_grant a s = (if admits_deletion a s then Some () else None)"

section \<open>Release records\<close>

definition release_tag :: bytes where
  "release_tag = ''scout-release-v1''"

definition release_record_bytes :: nat where
  "release_record_bytes = 16 + 8 + 16 + 32"

record release_record =
  rr_identity :: identity
  rr_digest :: bytes

definition record_encode :: "release_record \<Rightarrow> bytes" where
  "record_encode r =
     release_tag @ le64 (volume (rr_identity r)) @ le128 (file_id (rr_identity r)) @ rr_digest r"

definition split_first_chunk :: "nat \<Rightarrow> bytes \<Rightarrow> (bytes \<times> bytes) option" where
  "split_first_chunk n bs =
     (if n \<le> length bs then Some (take n bs, drop n bs) else None)"

definition record_decode :: "bytes \<Rightarrow> release_record option" where
  "record_decode bs =
     (if length bs \<noteq> release_record_bytes then None
      else Option.bind (split_first_chunk 16 bs) (\<lambda>(tag, bs).
        if tag \<noteq> release_tag then None
        else Option.bind (split_first_chunk 8 bs) (\<lambda>(vol, bs).
             Option.bind (split_first_chunk 16 bs) (\<lambda>(file, bs).
             Option.bind (split_first_chunk 32 bs) (\<lambda>(digest, tail).
               if tail \<noteq> [] then None
               else Some \<lparr>rr_identity = \<lparr>volume = of_nat (of_le_bytes vol),
                                         file_id = of_nat (of_le_bytes file)\<rparr>,
                          rr_digest = digest\<rparr>)))))"

section \<open>Facts\<close>

lemma protection_rank_inject: "protection_rank s = protection_rank t \<longleftrightarrow> s = t"
  by (cases s; cases t) simp_all

lemma protects_rank: "protects s \<longleftrightarrow> 3 \<le> protection_rank s"
  by (cases s) simp_all

lemma admits_deletion_iff:
  "admits_deletion a s \<longleftrightarrow> s = settlement.Released \<or> s = settlement.Landed"
  by (cases a; cases s) (simp_all add: admits_deletion_def)

lemma admits_unkept [simp]: "admits_settlement Unkept s \<longleftrightarrow> s \<noteq> settlement.Kept"
  by (cases s) simp_all

lemma admits_settled: "admits_settlement Settled s \<longleftrightarrow> s = settlement.Released \<or> s = settlement.Landed"
  by (cases s) simp_all

lemma deletion_not_protected: "admits_deletion a s \<Longrightarrow> \<not> protects s"
  by (auto simp: admits_deletion_iff)

lemma strongest_mem: "ss \<noteq> [] \<Longrightarrow> strongest ss \<in> set ss"
  using max_by_key_ex [of ss protection_rank]
  by (auto simp: strongest_def dest: max_by_key_Some)

lemma strongest_ge: "s \<in> set ss \<Longrightarrow> protection_rank s \<le> protection_rank (strongest ss)"
proof -
  assume s: "s \<in> set ss"
  then obtain m where "max_by_key protection_rank ss = Some m"
    using max_by_key_ex [of ss protection_rank] by (cases ss) auto
  then show ?thesis using s max_by_key_Some [of protection_rank ss m] by (simp add: strongest_def)
qed

lemma strongest_protects: "s \<in> set ss \<Longrightarrow> protects s \<Longrightarrow> protects (strongest ss)"
  using strongest_ge [of s ss] by (simp add: protects_rank)

lemma strongest_kept: "settlement.Kept \<in> set ss \<Longrightarrow> strongest ss = settlement.Kept"
  using strongest_ge [of settlement.Kept ss] by (cases "strongest ss") auto

lemma resolve_protects_own:
  assumes m: "m \<in> set own" "protects (marker_settlement m)"
  shows "protects (settlement_of (resolve own nested wt))"
proof -
  have "own \<noteq> []" using m by auto
  then have "settlement_of (resolve own nested wt) = strongest (map marker_settlement
      (own @ filter (\<lambda>m. protects (marker_settlement m)) nested))"
    by (simp add: resolve_def Let_def)
  moreover have "marker_settlement m \<in> set (map marker_settlement
      (own @ filter (\<lambda>m. protects (marker_settlement m)) nested))"
    using m by simp
  ultimately show ?thesis using m(2) strongest_protects by metis
qed

lemma resolve_protects_nested:
  assumes m: "m \<in> set nested" "protects (marker_settlement m)"
  shows "protects (settlement_of (resolve own nested wt))"
proof -
  let ?hs = "filter (\<lambda>m. protects (marker_settlement m)) nested"
  have h: "m \<in> set ?hs" using m by simp
  show ?thesis
  proof (cases "own = []")
    case True
    then have "resolve own nested wt = Holders ?hs wt"
      using h by (auto simp: resolve_def Let_def filter_empty_conv)
    then show ?thesis using h m(2) by (auto intro!: strongest_protects)
  next
    case False
    then have "resolve own nested wt = Markers (own @ ?hs)" by (simp add: resolve_def Let_def)
    then show ?thesis using h m(2) by (auto intro!: strongest_protects)
  qed
qed

lemma resolve_protects_worktree:
  assumes "own = []" and "protects (worktree_settlement w)"
  shows "protects (settlement_of (resolve own nested (Some w)))"
  using assms by (auto simp: resolve_def Let_def intro!: strongest_protects)

lemma split_first_chunk_append:
  "length a = n \<Longrightarrow> split_first_chunk n (a @ b) = Some (a, b)"
  by (simp add: split_first_chunk_def)

lemma length_release_tag [simp]: "length release_tag = 16"
  by (simp add: release_tag_def)

lemma decode_encode_lemma:
  assumes "length (rr_digest r) = 32"
  shows "record_decode (record_encode r) = Some r"
proof -
  let ?v = "le64 (volume (rr_identity r))" and ?f = "le128 (file_id (rr_identity r))"
  have "length (record_encode r) = release_record_bytes"
    using assms by (simp add: record_encode_def release_record_bytes_def del: le_bytes.simps)
  moreover have "split_first_chunk 16 (record_encode r) = Some (release_tag, ?v @ ?f @ rr_digest r)"
    unfolding record_encode_def by (rule split_first_chunk_append) simp
  moreover have "split_first_chunk 8 (?v @ ?f @ rr_digest r) = Some (?v, ?f @ rr_digest r)"
    by (rule split_first_chunk_append) (rule length_le_bytes)
  moreover have "split_first_chunk 16 (?f @ rr_digest r) = Some (?f, rr_digest r)"
    by (rule split_first_chunk_append) (rule length_le_bytes)
  moreover have "split_first_chunk 32 (rr_digest r) = Some (rr_digest r, [])"
    using split_first_chunk_append [of "rr_digest r" 32 "[]"] assms by simp
  ultimately show ?thesis
    by (simp only: record_decode_def bind.bind_lunit prod.case if_False if_True simp_thms
        of_le_bytes_le64 of_le_bytes_le128) simp
qed

lemma encode_decode_lemma:
  assumes "record_decode bs = Some r"
  shows "record_encode r = bs"
proof -
  define b1 where "b1 = drop 16 bs"
  define b2 where "b2 = drop 8 b1"
  define b3 where "b3 = drop 16 b2"
  from assms have len: "length bs = 72" and tag: "take 16 bs = release_tag"
    and id: "rr_identity r = \<lparr>volume = of_nat (of_le_bytes (take 8 b1)),
               file_id = of_nat (of_le_bytes (take 16 b2))\<rparr>"
    and dig: "rr_digest r = take 32 b3" and tail: "drop 32 b3 = []"
    by (auto simp: record_decode_def split_first_chunk_def release_record_bytes_def
        b1_def b2_def b3_def split: if_splits)
  have vol: "le64 (volume (rr_identity r)) = take 8 b1"
    using len by (simp only: id identity.simps) (rule le64_of_le_bytes, simp add: b1_def)
  have fil: "le128 (file_id (rr_identity r)) = take 16 b2"
    using len by (simp only: id identity.simps) (rule le128_of_le_bytes, simp add: b2_def b1_def)
  have "record_encode r = take 16 bs @ take 8 b1 @ take 16 b2 @ take 32 b3"
    by (simp only: record_encode_def vol fil dig tag)
  also have "take 32 b3 = b3" using append_take_drop_id [of 32 b3] tail by simp
  also have "take 16 b2 @ b3 = b2" by (simp add: b3_def)
  also have "take 8 b1 @ b2 = b1" by (simp add: b2_def)
  also have "take 16 bs @ b1 = bs" by (simp add: b1_def)
  finally show ?thesis .
qed

end
