(* ===== verification/Rejections.thy ===== *)
theory Rejections
  imports Areas Artifacts Ownership
begin

text \<open>
  Why something is refused (\<open>crates/core/src/reject.rs\<close>), with the filesystem capabilities of
  \<open>share.rs\<close> that a refusal can name.
\<close>

section \<open>Filesystems that share blocks\<close>

datatype filesystem = Apfs | Btrfs | Xfs | Other

fun filesystem_display :: "filesystem \<Rightarrow> bytes" where
  "filesystem_display Apfs = ''APFS''"
| "filesystem_display Btrfs = ''btrfs''"
| "filesystem_display Xfs = ''XFS''"
| "filesystem_display filesystem.Other = ''this filesystem''"

datatype share_method = CloneAndSwap | DedupeRange

datatype capability = Shares filesystem share_method | Unsupported filesystem

fun capability_of :: "filesystem \<Rightarrow> capability" where
  "capability_of Apfs = Shares Apfs CloneAndSwap"
| "capability_of Btrfs = Shares Btrfs DedupeRange"
| "capability_of Xfs = Shares Xfs DedupeRange"
| "capability_of filesystem.Other = Unsupported filesystem.Other"

section \<open>Rejections\<close>

datatype stale_field = CanonicalPath | FileIdentity | Content

fun stale_field_display :: "stale_field \<Rightarrow> bytes" where
  "stale_field_display CanonicalPath = ''the canonical path''"
| "stale_field_display FileIdentity = ''the volume/file ID''"
| "stale_field_display Content = ''the files it holds or their sizes''"

datatype rejection =
    Protected location system_reason
  | ProvenanceTooWeak location app_owned provenance
  | Excluded location location
  | TierLocked location tier
  | NoRoots
  | NotADirectory location
  | Link location
  | SourceCheckout location
  | MountBoundary location u64 u64
  | Unnameable bytes
  | Stale location stale_field
  | EvidenceLost location
  | KindChanged location kind kind
  | ProvenanceChanged location provenance provenance
  | Owned location settlement
  | Busy location location protocol
  | LivenessUnknown location location protocol
  | NoLockProtocol location kind
  | CannotShare location filesystem
  | DuplicateCandidate bytes
  | UnknownCandidate bytes
  | Unmeasured bytes
  | Io location fs_op io_failure

fun rejection_reason :: "rejection \<Rightarrow> bytes" where
  "rejection_reason (Protected l a) = ''protected''"
| "rejection_reason (ProvenanceTooWeak l a f) = ''provenance-too-weak''"
| "rejection_reason (Excluded l e) = ''excluded''"
| "rejection_reason (TierLocked l t) = ''tier-locked''"
| "rejection_reason NoRoots = ''no-roots''"
| "rejection_reason (rejection.NotADirectory l) = ''not-a-directory''"
| "rejection_reason (Link l) = ''link''"
| "rejection_reason (SourceCheckout l) = ''source-checkout''"
| "rejection_reason (MountBoundary l f t) = ''mount-boundary''"
| "rejection_reason (Unnameable s) = ''unnameable''"
| "rejection_reason (Stale l f) = ''stale''"
| "rejection_reason (EvidenceLost l) = ''evidence-lost''"
| "rejection_reason (KindChanged l f t) = ''kind-changed''"
| "rejection_reason (ProvenanceChanged l f t) = ''provenance-changed''"
| "rejection_reason (Owned l s) = ''owned''"
| "rejection_reason (Busy l k p) = ''busy''"
| "rejection_reason (LivenessUnknown l k p) = ''liveness-unknown''"
| "rejection_reason (NoLockProtocol l k) = ''no-lock-protocol''"
| "rejection_reason (CannotShare l f) = ''cannot-share''"
| "rejection_reason (DuplicateCandidate i) = ''duplicate-candidate''"
| "rejection_reason (UnknownCandidate i) = ''unknown-candidate''"
| "rejection_reason (Unmeasured i) = ''unmeasured''"
| "rejection_reason (Io l ope f) = ''io''"

fun rejection_location :: "rejection \<Rightarrow> location option" where
  "rejection_location (Protected l a) = Some l"
| "rejection_location (ProvenanceTooWeak l a f) = Some l"
| "rejection_location (Excluded l e) = Some l"
| "rejection_location (TierLocked l t) = Some l"
| "rejection_location NoRoots = None"
| "rejection_location (rejection.NotADirectory l) = Some l"
| "rejection_location (Link l) = Some l"
| "rejection_location (SourceCheckout l) = Some l"
| "rejection_location (MountBoundary l f t) = Some l"
| "rejection_location (Unnameable s) = None"
| "rejection_location (Stale l f) = Some l"
| "rejection_location (EvidenceLost l) = Some l"
| "rejection_location (KindChanged l f t) = Some l"
| "rejection_location (ProvenanceChanged l f t) = Some l"
| "rejection_location (Owned l s) = Some l"
| "rejection_location (Busy l k p) = Some l"
| "rejection_location (LivenessUnknown l k p) = Some l"
| "rejection_location (NoLockProtocol l k) = Some l"
| "rejection_location (CannotShare l f) = Some l"
| "rejection_location (DuplicateCandidate i) = None"
| "rejection_location (UnknownCandidate i) = None"
| "rejection_location (Unmeasured i) = None"
| "rejection_location (Io l ope f) = Some l"

end
