(* ===== verification/Sizes.thy ===== *)
theory Sizes
  imports Text_Bytes
begin

text \<open>
  Byte counts (\<open>crates/core/src/size.rs\<close>): saturating arithmetic on \<open>u64\<close>, the
  reconciliation of a volume's measured and used bytes, and parsing and printing of sizes.
  Intermediate \<open>u128\<close> arithmetic is on \<open>nat\<close> with the overflow check written out.
\<close>

section \<open>Saturating byte counts\<close>

type_synonym byte_size = u64

definition saturating_add :: "byte_size \<Rightarrow> byte_size \<Rightarrow> byte_size" where
  "saturating_add a b = (if unat a + unat b < 2 ^ 64 then a + b else - 1)"

definition saturating_sub :: "byte_size \<Rightarrow> byte_size \<Rightarrow> byte_size" where
  "saturating_sub a b = (if b \<le> a then a - b else 0)"

definition total :: "byte_size list \<Rightarrow> byte_size" where
  "total values = foldl saturating_add 0 values"

record reconciliation =
  used :: byte_size
  measured_bytes :: byte_size
  attributed :: byte_size
  unattributed :: byte_size
  overcount :: byte_size

definition reconcile :: "byte_size \<Rightarrow> byte_size \<Rightarrow> reconciliation" where
  "reconcile u m =
     (let a = (if m < u then m else u) in
      \<lparr>used = u, measured_bytes = m, attributed = a,
       unattributed = saturating_sub u a, overcount = saturating_sub m a\<rparr>)"

datatype reclamation = Unchanged | Unattributable

fun observed :: "reclamation \<Rightarrow> byte_size option" where
  "observed Unchanged = Some 0"
| "observed Unattributable = None"

lemma unat_max_u64 [simp]: "unat (- 1 :: u64) = 2 ^ 64 - 1"
  by (simp add: unsigned_minus_1_eq_mask mask_eq_exp_minus_1)

lemma unat_u64_less: "unat (a :: u64) < 2 ^ 64"
  using unsigned_less [of a] by simp

lemma unat_saturating_add: "unat (saturating_add a b) = min (unat a + unat b) (2 ^ 64 - 1)"
  using unat_u64_less [of a] unat_u64_less [of b]
  by (simp add: saturating_add_def unat_word_ariths)

lemma unat_saturating_sub: "unat (saturating_sub a b) = unat a - unat b"
  by (simp add: saturating_sub_def unat_sub word_le_nat_alt)

lemma unat_foldl_saturating_add:
  "unat (foldl saturating_add a vs) = min (unat a + (\<Sum>v\<leftarrow>vs. unat v)) (2 ^ 64 - 1)"
proof (induction vs arbitrary: a)
  case Nil
  show ?case using unat_u64_less [of a] by simp
next
  case (Cons v vs)
  show ?case by (simp add: Cons unat_saturating_add min_def)
qed

lemma unat_total: "unat (total vs) = min (\<Sum>v\<leftarrow>vs. unat v) (2 ^ 64 - 1)"
  by (simp add: total_def unat_foldl_saturating_add)

section \<open>Parsing sizes\<close>

datatype size_error = NoNumber | Malformed | Suffix | Overflow

definition units :: "(bytes \<times> nat) list" where
  "units =
     [('''', 1), (''b'', 1), (''k'', 2 ^ 10), (''kib'', 2 ^ 10), (''kb'', 1000),
      (''m'', 2 ^ 20), (''mib'', 2 ^ 20), (''mb'', 1000000),
      (''g'', 2 ^ 30), (''gib'', 2 ^ 30), (''gb'', 1000000000),
      (''t'', 2 ^ 40), (''tib'', 2 ^ 40), (''tb'', 1000000000000),
      (''p'', 2 ^ 50), (''pib'', 2 ^ 50), (''pb'', 1000000000000000)]"

definition checked128 :: "nat \<Rightarrow> nat option" where
  "checked128 n = (if n < 2 ^ 128 then Some n else None)"

text \<open>\<open>digit.wrapping_sub(b'0')\<close> on \<open>u8\<close>.\<close>

definition digit_value :: "char \<Rightarrow> nat" where
  "digit_value c = (code c + 208) mod 256"

fun digits :: "nat \<Rightarrow> bytes \<Rightarrow> size_error + nat" where
  "digits acc [] = Inr acc"
| "digits acc (d # ds) =
     (case Option.bind (checked128 (acc * 10)) (\<lambda>t. checked128 (t + digit_value d)) of
        None \<Rightarrow> Inl Overflow
      | Some acc' \<Rightarrow> digits acc' ds)"

fun decimal_scale :: "nat \<Rightarrow> bytes \<Rightarrow> nat option" where
  "decimal_scale s [] = Some s"
| "decimal_scale s (d # ds) =
     (case checked128 (s * 10) of None \<Rightarrow> None | Some s' \<Rightarrow> decimal_scale s' ds)"

definition scaled_value :: "nat \<Rightarrow> bytes \<Rightarrow> bytes \<Rightarrow> size_error + byte_size" where
  "scaled_value multiplier whole fraction =
     (if whole = [] \<and> fraction = [] then Inl NoNumber
      else result_bind (digits 0 whole) (\<lambda>whole_value.
           result_bind (digits 0 fraction) (\<lambda>fraction_value.
           result_bind (ok_or Overflow (decimal_scale 1 fraction)) (\<lambda>scale.
           result_bind
             (ok_or Overflow
               (Option.bind (checked128 (whole_value * multiplier)) (\<lambda>scaled.
                Option.bind (checked128 (fraction_value * multiplier)) (\<lambda>f.
                checked128 (f div scale + scaled)))))
             (\<lambda>value. if value < 2 ^ 64 then Inr (of_nat value) else Inl Overflow)))))"

text \<open>\<open><Bytes as FromStr>::from_str\<close>. The index of \<open>split_at_checked\<close> is in range.\<close>

definition numeric :: "char \<Rightarrow> bool" where
  "numeric c \<longleftrightarrow> is_ascii_digit c \<or> c = CHR ''.''"

definition size_from_str :: "bytes \<Rightarrow> size_error + byte_size" where
  "size_from_str input =
     (let text = trim input;
          number = takeWhile numeric text;
          suffix = to_ascii_lowercase (trim (dropWhile numeric text)) in
      result_bind (ok_or Suffix (map_of units suffix)) (\<lambda>multiplier.
        case split_once (CHR ''.'') number of
          Some (whole, fraction) \<Rightarrow>
            if CHR ''.'' \<notin> set fraction then scaled_value multiplier whole fraction
            else Inl Malformed
        | None \<Rightarrow> scaled_value multiplier number []))"

section \<open>Printing sizes\<close>

definition unit_names :: "bytes list" where
  "unit_names = [''B'', ''KiB'', ''MiB'', ''GiB'', ''TiB'', ''PiB'']"

fun choose_unit :: "nat \<Rightarrow> nat \<Rightarrow> nat \<Rightarrow> nat \<Rightarrow> nat \<times> nat" where
  "choose_unit value left unit divisor =
     (case left of
        0 \<Rightarrow> (unit, divisor)
      | Suc l \<Rightarrow>
          if value \<ge> divisor * 1024 then choose_unit value l (unit + 1) (divisor * 1024)
          else (unit, divisor))"

definition size_display :: "byte_size \<Rightarrow> bytes" where
  "size_display b =
     (let value = unat b;
          (unit, divisor) = choose_unit value (length unit_names - 1) 0 1;
          name = unit_names ! unit in
      if unit = 0 then decimal value @ '' '' @ name
      else let tenths = (value * 10 + divisor div 2) div divisor in
           decimal (tenths div 10) @ ''.'' @ decimal (tenths mod 10) @ '' '' @ name)"

section \<open>What the parser computes\<close>

text \<open>The number a string of decimal digits denotes.\<close>

fun decimal_value :: "nat \<Rightarrow> bytes \<Rightarrow> nat" where
  "decimal_value acc [] = acc"
| "decimal_value acc (d # ds) = decimal_value (acc * 10 + digit_value d) ds"

lemma decimal_value_ge: "acc \<le> decimal_value acc ds"
proof (induction ds arbitrary: acc)
  case (Cons d ds)
  have "acc \<le> acc * 10 + digit_value d" by simp
  also have "\<dots> \<le> decimal_value (acc * 10 + digit_value d) ds" by (rule Cons)
  finally show ?case by simp
qed simp

lemma digits_Inr:
  "acc < 2 ^ 128 \<Longrightarrow> digits acc ds = Inr n \<longleftrightarrow> n = decimal_value acc ds \<and> n < 2 ^ 128"
proof (induction ds arbitrary: acc)
  case Nil
  then show ?case by auto
next
  case (Cons d ds)
  show ?case
  proof (cases "acc * 10 + digit_value d < 2 ^ 128")
    case True
    then show ?thesis using Cons.IH [OF True] by (simp add: checked128_def)
  next
    case False
    then have "\<not> decimal_value (acc * 10 + digit_value d) ds < 2 ^ 128"
      using decimal_value_ge [of "acc * 10 + digit_value d" ds] by linarith
    with False show ?thesis by (auto simp: checked128_def)
  qed
qed

lemma digits_error: "digits acc ds = Inl e \<Longrightarrow> e = Overflow"
  by (induction ds arbitrary: acc) (auto split: option.splits)

lemma decimal_scale_Some:
  "s < 2 ^ 128 \<Longrightarrow> 0 < s \<Longrightarrow>
   decimal_scale s ds = Some n \<longleftrightarrow> n = s * 10 ^ length ds \<and> n < 2 ^ 128"
proof (induction ds arbitrary: s)
  case Nil
  then show ?case by auto
next
  case (Cons d ds)
  show ?case
  proof (cases "s * 10 < 2 ^ 128")
    case True
    have "0 < s * 10" using Cons.prems by simp
    with True show ?thesis
      using Cons.IH [OF True] by (simp add: checked128_def mult.assoc)
  next
    case False
    have "s * 10 * 1 \<le> s * 10 * 10 ^ length ds" by (rule mult_le_mono2) simp
    with False have "\<not> s * 10 * 10 ^ length ds < 2 ^ 128" by linarith
    then have "\<not> s * 10 ^ length (d # ds) < 2 ^ 128" by (simp only: list.size power_Suc power_add
        add_0_right One_nat_def ac_simps) simp
    with False show ?thesis by (simp only: decimal_scale.simps checked128_def) auto
  qed
qed

definition size_value :: "nat \<Rightarrow> bytes \<Rightarrow> bytes \<Rightarrow> nat" where
  "size_value m w f =
     decimal_value 0 w * m + decimal_value 0 f * m div 10 ^ length f"

text \<open>The intermediate products stay in 128 bits whenever the parser returns a size.\<close>

lemma scaled_value_Inr:
  "scaled_value m w f = Inr b \<longleftrightarrow>
     (w \<noteq> [] \<or> f \<noteq> []) \<and>
     decimal_value 0 w < 2 ^ 128 \<and> decimal_value 0 f < 2 ^ 128 \<and> (10 :: nat) ^ length f < 2 ^ 128 \<and>
     decimal_value 0 w * m < 2 ^ 128 \<and> decimal_value 0 f * m < 2 ^ 128 \<and>
     size_value m w f < 2 ^ 64 \<and> b = of_nat (size_value m w f)"
proof -
  have "(2 :: nat) ^ 64 < 2 ^ 128" by simp
  then show ?thesis
    unfolding scaled_value_def size_value_def
    by (auto simp: result_simps digits_Inr decimal_scale_Some checked128_def add.commute
        bind_eq_Some_conv split: if_splits)
qed

lemma scaled_value_error:
  "scaled_value m w f = Inl e \<Longrightarrow> e = NoNumber \<or> e = Overflow"
  by (auto simp: scaled_value_def result_simps dest: digits_error split: if_splits)

end
