(* ===== verification/Candidates.thy ===== *)
theory Candidates
  imports Rejections Sizes
begin

text \<open>
  Candidates (\<open>crates/core/src/candidate.rs\<close>) and what reaping selects
  (\<open>crates/core/src/select.rs\<close>). SHA-256 belongs to a third-party crate and is the parameter
  \<open>sha\<close>; what is proved about identifiers exhibits a collision of \<open>sha\<close> where the converse
  fails, so it needs no hypothesis on \<open>sha\<close>.
\<close>

section \<open>Measurements\<close>

datatype allocation = Unmeasured | Measured byte_size byte_size

record usage =
  us_logical :: byte_size
  us_allocation :: allocation
  us_failures :: u64

definition usage_reclaimable :: "usage \<Rightarrow> byte_size option" where
  "usage_reclaimable u =
     (if 0 < us_failures u then None
      else (case us_allocation u of
              Measured allocated reclaimable \<Rightarrow> Some reclaimable
            | allocation.Unmeasured \<Rightarrow> None))"

type_synonym contents = u128

definition contents_digest :: "bytes \<Rightarrow> contents" where
  "contents_digest digest = of_nat (of_le_bytes (take 16 digest))"

definition contents_file ::
  "(bytes \<Rightarrow> bytes) \<Rightarrow> bytes \<Rightarrow> u64 \<Rightarrow> identity option \<Rightarrow> contents" where
  "contents_file sha path len ident =
     contents_digest (sha
       (path @ [CHR 0x00] @ le64 len @
        (case ident of
           Some i \<Rightarrow> [CHR 0x01] @ le64 (volume i) @ le128 (file_id i)
         | None \<Rightarrow> [CHR 0x00])))"

definition contents_link ::
  "(bytes \<Rightarrow> bytes) \<Rightarrow> bytes \<Rightarrow> bytes \<Rightarrow> identity \<Rightarrow> contents" where
  "contents_link sha path target i =
     contents_digest (sha
       (''symbolic-link'' @ [CHR 0x00] @ path @ [CHR 0x00] @ target @ [CHR 0x00] @
        le64 (volume i) @ le128 (file_id i)))"

text \<open>\<open>wrapping_add\<close> on \<open>u128\<close>.\<close>

definition contents_merge :: "contents \<Rightarrow> contents \<Rightarrow> contents" where
  "contents_merge a b = a + b"

record measurement =
  ms_usage :: usage
  ms_contents :: contents

definition unmeasured :: measurement where
  "unmeasured =
     \<lparr>ms_usage = \<lparr>us_logical = 0, us_allocation = allocation.Unmeasured, us_failures = 0\<rparr>,
      ms_contents = 0\<rparr>"

section \<open>Candidate identifiers\<close>

definition allocation_bytes :: "allocation \<Rightarrow> bytes" where
  "allocation_bytes a =
     (case a of
        Measured allocated reclaimable \<Rightarrow> [CHR 0x01] @ le64 allocated @ le64 reclaimable
      | allocation.Unmeasured \<Rightarrow> [CHR 0x00])"

definition measurement_bytes :: "measurement \<Rightarrow> bytes" where
  "measurement_bytes m =
     le64 (us_logical (ms_usage m)) @
     (if 0 < us_failures (ms_usage m)
      then ''incomplete'' @ [CHR 0x00] @ le64 (us_failures (ms_usage m)) else []) @
     allocation_bytes (us_allocation (ms_usage m)) @
     le128 (ms_contents m)"

definition id_preimage ::
  "(bytes \<Rightarrow> bytes) \<Rightarrow> identity \<Rightarrow> location \<Rightarrow> kind \<Rightarrow> measurement \<Rightarrow> path_case \<Rightarrow> bytes" where
  "id_preimage ul i l k m cs =
     le64 (volume i) @ le128 (file_id i) @ loc_key ul l cs @ [CHR 0x00] @
     kind_as_str k @ [CHR 0x00] @ measurement_bytes m"

type_synonym candidate_id = bytes

definition derive_id ::
  "(bytes \<Rightarrow> bytes) \<Rightarrow> (bytes \<Rightarrow> bytes) \<Rightarrow> identity \<Rightarrow> location \<Rightarrow> kind \<Rightarrow> measurement \<Rightarrow>
   path_case \<Rightarrow> candidate_id" where
  "derive_id sha ul i l k m cs = hex_encode (sha (id_preimage ul i l k m cs))"

datatype malformed_id = MalformedId

definition id_from_str :: "bytes \<Rightarrow> malformed_id + candidate_id" where
  "id_from_str v =
     (if length v = 64 \<and> list_all is_ascii_hexdigit v then Inr (to_ascii_lowercase v)
      else Inl MalformedId)"

section \<open>Candidates\<close>

record candidate =
  cd_id :: candidate_id
  cd_location :: location
  cd_kind :: kind
  cd_provenance :: provenance
  cd_tier :: tier
  cd_usage :: usage
  cd_settlement :: settlement
  cd_ownership :: ownership
  cd_identity :: identity

record observed =
  ob_identity :: identity
  ob_measurement :: measurement
  ob_ownership :: ownership

record admission =
  ad_location :: location
  ad_identification :: identification

definition candidate_new ::
  "(bytes \<Rightarrow> bytes) \<Rightarrow> (bytes \<Rightarrow> bytes) \<Rightarrow> admission \<Rightarrow> observed \<Rightarrow> path_case \<Rightarrow> candidate" where
  "candidate_new sha ul a found cs =
     (let k = id_kind (ad_identification a) in
      \<lparr>cd_id = derive_id sha ul (ob_identity found) (ad_location a) k (ob_measurement found) cs,
       cd_location = ad_location a,
       cd_kind = k,
       cd_provenance = id_provenance (ad_identification a),
       cd_tier = kind_tier k,
       cd_usage = ms_usage (ob_measurement found),
       cd_settlement = settlement_of (ob_ownership found),
       cd_ownership = ob_ownership found,
       cd_identity = ob_identity found\<rparr>)"

definition candidate_measured ::
  "(bytes \<Rightarrow> bytes) \<Rightarrow> (bytes \<Rightarrow> bytes) \<Rightarrow> candidate \<Rightarrow> measurement \<Rightarrow> path_case \<Rightarrow> candidate" where
  "candidate_measured sha ul c m cs =
     c\<lparr>cd_id := derive_id sha ul (cd_identity c) (cd_location c) (cd_kind c) m cs,
       cd_usage := ms_usage m\<rparr>"

text \<open>The only two constructors keep a candidate's fields consistent with one measurement.\<close>

definition records ::
  "(bytes \<Rightarrow> bytes) \<Rightarrow> (bytes \<Rightarrow> bytes) \<Rightarrow> path_case \<Rightarrow> measurement \<Rightarrow> candidate \<Rightarrow> bool" where
  "records sha ul cs m c \<longleftrightarrow>
     cd_id c = derive_id sha ul (cd_identity c) (cd_location c) (cd_kind c) m cs \<and>
     cd_usage c = ms_usage m \<and>
     cd_tier c = kind_tier (cd_kind c) \<and>
     cd_settlement c = settlement_of (cd_ownership c)"

section \<open>Reaping\<close>

definition eligible :: "settlement \<Rightarrow> 'a \<Rightarrow> 'a option" where
  "eligible s v = (if admits_settlement Settled s then Some v else None)"

definition reap :: "candidate list \<Rightarrow> candidate_id list" where
  "reap cs = List.map_filter (\<lambda>c. eligible (cd_settlement c) (cd_id c)) cs"

section \<open>Facts\<close>

lemma candidate_new_records:
  "records sha ul cs (ob_measurement found) (candidate_new sha ul a found cs)"
  by (simp add: records_def candidate_new_def Let_def)

lemma candidate_measured_records:
  "records sha ul cs m0 c \<Longrightarrow> records sha ul cs m (candidate_measured sha ul c m cs)"
  by (simp add: records_def candidate_measured_def)

definition collision :: "(bytes \<Rightarrow> bytes) \<Rightarrow> bool" where
  "collision sha \<longleftrightarrow> (\<exists>x y. x \<noteq> y \<and> sha x = sha y)"

lemma derive_id_eq:
  "derive_id sha ul i l k m cs = derive_id sha ul i' l' k' m' cs' \<Longrightarrow>
   id_preimage ul i l k m cs = id_preimage ul i' l' k' m' cs' \<or> collision sha"
  unfolding derive_id_def hex_encode_inject collision_def by blast

lemma append_eq_same_length:
  "length a = length c \<Longrightarrow> a @ b = c @ d \<longleftrightarrow> a = c \<and> b = d"
  by simp

lemma allocation_bytes_inject:
  "allocation_bytes a @ le128 x = allocation_bytes b @ le128 y \<longleftrightarrow> a = b \<and> x = y"
  by (cases a; cases b)
    (auto simp: allocation_bytes_def append_eq_same_length simp del: le_bytes.simps)

lemma allocation_bytes_start: "\<exists>c rest. allocation_bytes a = c # rest \<and> c \<noteq> CHR ''i''"
  by (cases a) (simp_all add: allocation_bytes_def del: le_bytes.simps)

lemma usage_eqI:
  "us_logical u = us_logical v \<Longrightarrow> us_allocation u = us_allocation v \<Longrightarrow>
   us_failures u = us_failures v \<Longrightarrow> u = (v :: usage)"
  by (cases u; cases v) simp

lemma measurement_bytes_inject: "measurement_bytes m = measurement_bytes n \<longleftrightarrow> m = n"
proof
  assume eq: "measurement_bytes m = measurement_bytes n"
  define tail where "tail = (\<lambda>m :: measurement.
     (if 0 < us_failures (ms_usage m)
      then ''incomplete'' @ [CHR 0x00] @ le64 (us_failures (ms_usage m)) else []) @
     allocation_bytes (us_allocation (ms_usage m)) @ le128 (ms_contents m))"
  have split: "measurement_bytes m = le64 (us_logical (ms_usage m)) @ tail m" for m
    by (simp add: measurement_bytes_def tail_def del: le_bytes.simps)
  from eq have log: "us_logical (ms_usage m) = us_logical (ms_usage n)" and tl: "tail m = tail n"
    by (simp_all add: split append_eq_same_length del: le_bytes.simps)
  obtain a as b bs where start: "allocation_bytes (us_allocation (ms_usage m)) = a # as"
    "a \<noteq> CHR ''i''" "allocation_bytes (us_allocation (ms_usage n)) = b # bs" "b \<noteq> CHR ''i''"
    using allocation_bytes_start by metis
  have pos: "0 < us_failures (ms_usage m) \<longleftrightarrow> 0 < us_failures (ms_usage n)"
    using tl start by (auto simp: tail_def simp del: le_bytes.simps split: if_splits)
  have rest: "us_failures (ms_usage m) = us_failures (ms_usage n) \<and>
      us_allocation (ms_usage m) = us_allocation (ms_usage n) \<and> ms_contents m = ms_contents n"
  proof (cases "0 < us_failures (ms_usage m)")
    case True
    with pos tl show ?thesis
      by (simp add: tail_def append_eq_same_length allocation_bytes_inject del: le_bytes.simps)
  next
    case False
    with pos have "us_failures (ms_usage m) = 0" "us_failures (ms_usage n) = 0"
      by (simp_all add: word_neq_0_conv [symmetric])
    with tl show ?thesis by (simp add: tail_def allocation_bytes_inject del: le_bytes.simps)
  qed
  have "ms_usage m = ms_usage n" using log rest by (intro usage_eqI) simp_all
  with rest show "m = n" by (cases m; cases n) simp
qed simp

lemma kind_as_str_no_nul: "CHR 0x00 \<notin> set (kind_as_str k)"
  by (cases k) simp_all

lemma nul_terminated:
  assumes "CHR 0x00 \<notin> set a" and "CHR 0x00 \<notin> set b" and "a @ CHR 0x00 # x = b @ CHR 0x00 # y"
  shows "a = b \<and> x = y"
proof -
  have "split_once (CHR 0x00) (a @ CHR 0x00 # x) = Some (a, x)"
    "split_once (CHR 0x00) (b @ CHR 0x00 # y) = Some (b, y)"
    using assms(1,2) by (auto simp: split_once_Some)
  with assms(3) show ?thesis by (metis option.inject prod.inject)
qed

text \<open>For one location key the preimage determines the rest.\<close>

lemma id_preimage_inject:
  assumes "loc_key ul l cs = loc_key ul l' cs"
    and "id_preimage ul i l k m cs = id_preimage ul i' l' k' m' cs"
  shows "i = i' \<and> k = k' \<and> m = m'"
proof -
  from assms have ids: "le64 (volume i) = le64 (volume i')" "le128 (file_id i) = le128 (file_id i')"
    and rest: "kind_as_str k @ CHR 0x00 # measurement_bytes m =
      kind_as_str k' @ CHR 0x00 # measurement_bytes m'"
    unfolding id_preimage_def by (simp_all add: append_eq_same_length del: le_bytes.simps)
  have "k = k' \<and> m = m'"
    using nul_terminated [OF kind_as_str_no_nul kind_as_str_no_nul rest]
    by (simp add: kind_as_str_inject measurement_bytes_inject)
  with ids show ?thesis by (cases i; cases i') simp
qed

lemma reap_mem: "i \<in> set (reap cs) \<longleftrightarrow>
  (\<exists>c \<in> set cs. cd_id c = i \<and> (cd_settlement c = settlement.Released \<or> cd_settlement c = settlement.Landed))"
  by (auto simp: reap_def map_filter_def eligible_def admits_settled)

end
