(* ===== verification/Gates.thy ===== *)
theory Gates
  imports Candidates
begin

text \<open>
  The admission gates (\<open>crates/core/src/gate.rs\<close>): what a directory must show before it is
  listed, rechecked, deleted, pruned or shared. One definition per gate, the pipeline that
  stops at the first refusal, the public entry points and the stage-by-stage explanation.
  \<open>sha\<close> and \<open>ul\<close> are the digest and the Unicode lower-casing.
\<close>

section \<open>Gates and what they look at\<close>

datatype gate =
    Shape | Mount | Area | Exclusion | Evidence | Tier | Ownership | Protocol | Capability
  | Busy | Identity | Freshness

definition all_gates :: "gate list" where
  "all_gates =
     [Shape, Mount, Area, Exclusion, Evidence, Tier, Ownership, Protocol, Capability, gate.Busy,
      Identity, Freshness]"

fun gate_name :: "gate \<Rightarrow> bytes" where
  "gate_name Shape = ''shape''"
| "gate_name Mount = ''mount''"
| "gate_name Area = ''area''"
| "gate_name Exclusion = ''exclusion''"
| "gate_name Evidence = ''evidence''"
| "gate_name Tier = ''tier''"
| "gate_name Ownership = ''ownership''"
| "gate_name Protocol = ''protocol''"
| "gate_name Capability = ''capability''"
| "gate_name gate.Busy = ''busy''"
| "gate_name Identity = ''identity''"
| "gate_name Freshness = ''freshness''"

fun gate_purpose :: "gate \<Rightarrow> bytes" where
  "gate_purpose Shape = ''the path is a real directory, not a link to one''"
| "gate_purpose Mount = ''the directory is on the same filesystem as its parent''"
| "gate_purpose Area = ''the location admits candidates of this provenance''"
| "gate_purpose Exclusion = ''no requested exclusion covers the path''"
| "gate_purpose Evidence = ''live evidence still names a known artifact family''"
| "gate_purpose Tier = ''the regeneration cost was accepted by the caller''"
| "gate_purpose Ownership = ''whoever owns it has let it go, as far as the caller requires''"
| "gate_purpose Protocol = ''the tool that writes it takes a lock storage-scout can hold''"
| "gate_purpose Capability = ''the filesystem can share blocks between identical files''"
| "gate_purpose gate.Busy = ''no running tool holds the directory''"
| "gate_purpose Identity = ''the path still names the same directory as at discovery''"
| "gate_purpose Freshness = ''nothing inside changed since it was measured''"

datatype shape = Directory | Link | File | Other
datatype boundary = NoParent | Same u64 | Crossed u64 u64 | Unreported

record site =
  st_location :: location
  st_shape :: shape
  st_boundary :: boundary
  st_listing :: listing
  st_protection :: protection
  st_excludes :: "location list"

definition site_identify :: "site \<Rightarrow> identification option" where
  "site_identify s = Option.bind (file_name (st_location s)) (identify (st_listing s))"

section \<open>Mandates and questions\<close>

record tier_grant =
  grant_reinstallable :: bool
  grant_expensive :: bool

definition grant_routine :: tier_grant where
  "grant_routine = \<lparr>grant_reinstallable = False, grant_expensive = False\<rparr>"

fun grant_with :: "tier_grant \<Rightarrow> tier \<Rightarrow> tier_grant" where
  "grant_with g Routine = g"
| "grant_with g Reinstallable = g\<lparr>grant_reinstallable := True\<rparr>"
| "grant_with g Expensive = g\<lparr>grant_expensive := True\<rparr>"

definition grant_of :: "tier list \<Rightarrow> tier_grant" where
  "grant_of tiers = foldl grant_with grant_routine tiers"

fun grant_admits :: "tier_grant \<Rightarrow> tier \<Rightarrow> bool" where
  "grant_admits g Routine \<longleftrightarrow> True"
| "grant_admits g Reinstallable \<longleftrightarrow> grant_reinstallable g"
| "grant_admits g Expensive \<longleftrightarrow> grant_expensive g"

record mandate =
  md_tiers :: tier_grant
  md_settlements :: admits

definition mandate_default :: mandate where
  "mandate_default = \<lparr>md_tiers = grant_routine, md_settlements = Settled\<rparr>"

record recheck =
  rc_mandate :: mandate
  rc_recorded :: candidate
  rc_identity :: identity
  rc_ownership :: ownership
  rc_liveness :: liveness

record inspection =
  in_tiers :: tier_grant
  in_settlements :: admits
  in_ownership :: "ownership option"
  in_liveness :: "liveness option"

record verify =
  vf_recheck :: recheck
  vf_measured :: measurement

record share_check =
  sc_recorded :: candidate
  sc_identity :: identity
  sc_liveness :: liveness
  sc_capability :: capability

record prune_check =
  pc_recorded :: candidate
  pc_identity :: identity
  pc_ownership :: ownership
  pc_liveness :: liveness

datatype ask =
  Discover | Inspect inspection | Recheck recheck | Verify verify | Share share_check
| Prune prune_check

fun ask_recorded :: "ask \<Rightarrow> (candidate \<times> identity) option" where
  "ask_recorded Discover = None"
| "ask_recorded (Inspect i) = None"
| "ask_recorded (Recheck r) = Some (rc_recorded r, rc_identity r)"
| "ask_recorded (Verify v) = Some (rc_recorded (vf_recheck v), rc_identity (vf_recheck v))"
| "ask_recorded (Share s) = Some (sc_recorded s, sc_identity s)"
| "ask_recorded (Prune p) = Some (pc_recorded p, pc_identity p)"

datatype gate_note =
    Directory | SameDevice u64 | DeviceUnreported | Open | DeclaredIn app_owned
  | OutsideExclusions | Identified identification | TierAccepted tier | Settled settlement
  | Locks protocol | Shares filesystem | Free | SameIdentity | SameContents

fun note_display :: "gate_note \<Rightarrow> bytes" where
  "note_display gate_note.Directory = ''directory, not a link''"
| "note_display (SameDevice d) = ''same device (0x'' @ hexadecimal (unat d) @ '')''"
| "note_display DeviceUnreported = ''mount points appear as reparse points here''"
| "note_display gate_note.Open = ''open project space''"
| "note_display (DeclaredIn a) = app_owned_display a @ '', and the cache declares itself''"
| "note_display OutsideExclusions = ''outside every exclusion''"
| "note_display (Identified i) =
     ''kind='' @ kind_as_str (id_kind i) @ '', provenance='' @ provenance_as_str (id_provenance i)"
| "note_display (TierAccepted t) = tier_as_str t @ '' (accepted)''"
| "note_display (gate_note.Settled s) = settlement_as_str s"
| "note_display (Locks p) = ''writers take '' @ protocol_label p @ '' locks''"
| "note_display (gate_note.Shares f) = filesystem_display f @ '' shares blocks''"
| "note_display gate_note.Free = ''no running tool holds it''"
| "note_display SameIdentity = ''same path and volume/file ID as at discovery''"
| "note_display SameContents = ''same files, sizes, and allocation''"

datatype verdict = Pass gate_note | Abstain | Reject rejection

section \<open>The twelve gates\<close>

definition gate_shape :: "site \<Rightarrow> verdict" where
  "gate_shape s =
     (case st_shape s of
        shape.Directory \<Rightarrow> Pass gate_note.Directory
      | shape.Link \<Rightarrow> Reject (rejection.Link (st_location s))
      | File \<Rightarrow> Reject (rejection.NotADirectory (st_location s))
      | shape.Other \<Rightarrow> Reject (rejection.NotADirectory (st_location s)))"

definition gate_mount :: "site \<Rightarrow> verdict" where
  "gate_mount s =
     (case st_boundary s of
        NoParent \<Rightarrow> Abstain
      | Same device \<Rightarrow> Pass (SameDevice device)
      | Unreported \<Rightarrow> Pass DeviceUnreported
      | Crossed from to \<Rightarrow> Reject (MountBoundary (st_location s) from to))"

definition gate_area :: "(bytes \<Rightarrow> bytes) \<Rightarrow> site \<Rightarrow> verdict" where
  "gate_area ul s =
     (case area_of ul (st_protection s) (st_location s) of
        area.System a \<Rightarrow> Reject (Protected (st_location s) a)
      | area.AppOwned a \<Rightarrow>
          (let found = (case site_identify s of None \<Rightarrow> Inferred | Some i \<Rightarrow> id_provenance i) in
           case found of
             Declared \<Rightarrow> Pass (DeclaredIn a)
           | Inferred \<Rightarrow> Reject (ProvenanceTooWeak (st_location s) a found))
      | area.Open \<Rightarrow> Pass gate_note.Open)"

definition gate_exclusion :: "(bytes \<Rightarrow> bytes) \<Rightarrow> site \<Rightarrow> verdict" where
  "gate_exclusion ul s =
     (case List.find (\<lambda>e. intersects ul (st_protection s) e (st_location s)) (st_excludes s) of
        None \<Rightarrow> Pass OutsideExclusions
      | Some e \<Rightarrow> Reject (Excluded (st_location s) e))"

definition gate_evidence :: "site \<Rightarrow> ask \<Rightarrow> verdict" where
  "gate_evidence s a =
     (case site_identify s of
        None \<Rightarrow> Reject (EvidenceLost (st_location s))
      | Some i \<Rightarrow>
          (case ask_recorded a of
             None \<Rightarrow> Pass (Identified i)
           | Some (recorded, _) \<Rightarrow>
               if id_kind i \<noteq> cd_kind recorded
               then Reject (KindChanged (st_location s) (cd_kind recorded) (id_kind i))
               else if id_provenance i \<noteq> cd_provenance recorded
               then Reject (ProvenanceChanged (st_location s) (cd_provenance recorded) (id_provenance i))
               else Pass (Identified i)))"

fun ask_tiers :: "ask \<Rightarrow> tier_grant option" where
  "ask_tiers Discover = None"
| "ask_tiers (Share s) = None"
| "ask_tiers (Prune p) = None"
| "ask_tiers (Inspect i) = Some (in_tiers i)"
| "ask_tiers (Recheck r) = Some (md_tiers (rc_mandate r))"
| "ask_tiers (Verify v) = Some (md_tiers (rc_mandate (vf_recheck v)))"

definition gate_tier :: "site \<Rightarrow> ask \<Rightarrow> verdict" where
  "gate_tier s a =
     (case ask_tiers a of
        None \<Rightarrow> Abstain
      | Some grant \<Rightarrow>
          (case site_identify s of
             None \<Rightarrow> Reject (EvidenceLost (st_location s))
           | Some i \<Rightarrow>
               let t = kind_tier (id_kind i) in
               if grant_admits grant t then Pass (TierAccepted t)
               else Reject (TierLocked (st_location s) t)))"

fun ask_ownership :: "ask \<Rightarrow> (ownership \<times> admits) option" where
  "ask_ownership Discover = None"
| "ask_ownership (Share s) = None"
| "ask_ownership (Inspect i) = map_option (\<lambda>w. (w, in_settlements i)) (in_ownership i)"
| "ask_ownership (Recheck r) = Some (rc_ownership r, md_settlements (rc_mandate r))"
| "ask_ownership (Verify v) =
     Some (rc_ownership (vf_recheck v), md_settlements (rc_mandate (vf_recheck v)))"
| "ask_ownership (Prune p) = Some (pc_ownership p, Unkept)"

fun ask_deletes :: "ask \<Rightarrow> bool" where
  "ask_deletes (Inspect i) \<longleftrightarrow> True"
| "ask_deletes (Recheck r) \<longleftrightarrow> True"
| "ask_deletes (Verify v) \<longleftrightarrow> True"
| "ask_deletes _ \<longleftrightarrow> False"

definition gate_ownership :: "site \<Rightarrow> ask \<Rightarrow> verdict" where
  "gate_ownership s a =
     (case ask_ownership a of
        None \<Rightarrow> Abstain
      | Some (own, adm) \<Rightarrow>
          let st = settlement_of own;
              admitted = (if ask_deletes a then admits_deletion adm st else admits_settlement adm st) in
          if admitted then Pass (gate_note.Settled st) else Reject (Owned (st_location s) st))"

fun ask_rewrites :: "ask \<Rightarrow> candidate option" where
  "ask_rewrites (Share s) = Some (sc_recorded s)"
| "ask_rewrites (Prune p) = Some (pc_recorded p)"
| "ask_rewrites _ = None"

definition gate_protocol :: "site \<Rightarrow> ask \<Rightarrow> verdict" where
  "gate_protocol s a =
     (case ask_rewrites a of
        None \<Rightarrow> Abstain
      | Some recorded \<Rightarrow>
          (case kind_protocol (cd_kind recorded) of
             Some p \<Rightarrow> Pass (Locks p)
           | None \<Rightarrow> Reject (NoLockProtocol (st_location s) (cd_kind recorded))))"

definition gate_capability :: "site \<Rightarrow> ask \<Rightarrow> verdict" where
  "gate_capability s a =
     (case a of
        Share sc \<Rightarrow>
          (case sc_capability sc of
             capability.Shares f m \<Rightarrow> Pass (gate_note.Shares f)
           | capability.Unsupported f \<Rightarrow> Reject (CannotShare (st_location s) f))
      | _ \<Rightarrow> Abstain)"

fun ask_liveness :: "ask \<Rightarrow> liveness option" where
  "ask_liveness Discover = None"
| "ask_liveness (Share s) = Some (sc_liveness s)"
| "ask_liveness (Prune p) = Some (pc_liveness p)"
| "ask_liveness (Inspect i) = in_liveness i"
| "ask_liveness (Recheck r) = Some (rc_liveness r)"
| "ask_liveness (Verify v) = Some (rc_liveness (vf_recheck v))"

definition gate_busy :: "site \<Rightarrow> ask \<Rightarrow> verdict" where
  "gate_busy s a =
     (case ask_liveness a of
        None \<Rightarrow> Abstain
      | Some liveness.Free \<Rightarrow> Pass gate_note.Free
      | Some (liveness.Held lock p) \<Rightarrow> Reject (rejection.Busy (st_location s) lock p)
      | Some (liveness.Unknown lock p) \<Rightarrow> Reject (LivenessUnknown (st_location s) lock p))"

definition gate_identity :: "(bytes \<Rightarrow> bytes) \<Rightarrow> site \<Rightarrow> ask \<Rightarrow> verdict" where
  "gate_identity ul s a =
     (case ask_recorded a of
        None \<Rightarrow> Abstain
      | Some (recorded, ident) \<Rightarrow>
          if \<not> same ul (st_location s) (cd_location recorded) (prot_case (st_protection s))
          then Reject (Stale (st_location s) CanonicalPath)
          else if ident \<noteq> cd_identity recorded then Reject (Stale (st_location s) FileIdentity)
          else Pass SameIdentity)"

definition gate_freshness :: "(bytes \<Rightarrow> bytes) \<Rightarrow> (bytes \<Rightarrow> bytes) \<Rightarrow> site \<Rightarrow> ask \<Rightarrow> verdict" where
  "gate_freshness sha ul s a =
     (case a of
        Verify v \<Rightarrow>
          let recorded = rc_recorded (vf_recheck v);
              recomputed = derive_id sha ul (rc_identity (vf_recheck v)) (st_location s)
                (cd_kind recorded) (vf_measured v) (prot_case (st_protection s)) in
          if recomputed = cd_id recorded then Pass SameContents
          else Reject (Stale (st_location s) Content)
      | _ \<Rightarrow> Abstain)"

fun gate_check ::
  "(bytes \<Rightarrow> bytes) \<Rightarrow> (bytes \<Rightarrow> bytes) \<Rightarrow> gate \<Rightarrow> site \<Rightarrow> ask \<Rightarrow> verdict" where
  "gate_check sha ul Shape s a = gate_shape s"
| "gate_check sha ul Mount s a = gate_mount s"
| "gate_check sha ul Area s a = gate_area ul s"
| "gate_check sha ul Exclusion s a = gate_exclusion ul s"
| "gate_check sha ul Evidence s a = gate_evidence s a"
| "gate_check sha ul Tier s a = gate_tier s a"
| "gate_check sha ul Ownership s a = gate_ownership s a"
| "gate_check sha ul Protocol s a = gate_protocol s a"
| "gate_check sha ul Capability s a = gate_capability s a"
| "gate_check sha ul gate.Busy s a = gate_busy s a"
| "gate_check sha ul Identity s a = gate_identity ul s a"
| "gate_check sha ul Freshness s a = gate_freshness sha ul s a"

section \<open>The pipeline\<close>

text \<open>The \<open>for\<close> loop over the gates; \<open>identified\<close> is its mutable variable.\<close>

fun pipeline_from ::
  "(gate \<Rightarrow> verdict) \<Rightarrow> identification option \<Rightarrow> gate list \<Rightarrow>
   rejection + identification option" where
  "pipeline_from evaluate identified [] = Inr identified"
| "pipeline_from evaluate identified (g # gs) =
     (case evaluate g of
        Pass (Identified i) \<Rightarrow> pipeline_from evaluate (Some i) gs
      | Pass _ \<Rightarrow> pipeline_from evaluate identified gs
      | Abstain \<Rightarrow> pipeline_from evaluate identified gs
      | Reject r \<Rightarrow> Inl r)"

definition pipeline :: "(gate \<Rightarrow> verdict) \<Rightarrow> rejection + identification option" where
  "pipeline evaluate = pipeline_from evaluate None all_gates"

definition gate_run ::
  "(bytes \<Rightarrow> bytes) \<Rightarrow> (bytes \<Rightarrow> bytes) \<Rightarrow> site \<Rightarrow> ask \<Rightarrow> rejection + identification" where
  "gate_run sha ul s a =
     result_bind (pipeline (\<lambda>g. gate_check sha ul g s a))
       (\<lambda>identified. ok_or (EvidenceLost (st_location s)) identified)"

section \<open>Entry points\<close>

definition admit ::
  "(bytes \<Rightarrow> bytes) \<Rightarrow> (bytes \<Rightarrow> bytes) \<Rightarrow> site \<Rightarrow> rejection + admission" where
  "admit sha ul s =
     result_bind (gate_run sha ul s Discover) (\<lambda>i.
       Inr \<lparr>ad_location = st_location s, ad_identification = i\<rparr>)"

definition gate_recheck ::
  "(bytes \<Rightarrow> bytes) \<Rightarrow> (bytes \<Rightarrow> bytes) \<Rightarrow> site \<Rightarrow> recheck \<Rightarrow> rejection + unit" where
  "gate_recheck sha ul s r = result_bind (gate_run sha ul s (Recheck r)) (\<lambda>_. Inr ())"

record clearance =
  cl_location :: location
  cl_identity :: identity
  cl_identification :: identification

definition clear ::
  "(bytes \<Rightarrow> bytes) \<Rightarrow> (bytes \<Rightarrow> bytes) \<Rightarrow> site \<Rightarrow> verify \<Rightarrow> rejection + clearance" where
  "clear sha ul s v =
     result_bind (gate_run sha ul s (Verify v)) (\<lambda>i.
       let st = settlement_of (rc_ownership (vf_recheck v)) in
       result_bind
         (ok_or (Owned (st_location s) st)
           (deletion_grant (md_settlements (rc_mandate (vf_recheck v))) st))
         (\<lambda>_. Inr \<lparr>cl_location = st_location s, cl_identity = rc_identity (vf_recheck v),
                   cl_identification = i\<rparr>))"

record share_clearance =
  sl_location :: location
  sl_identity :: identity
  sl_method :: share_method

definition clear_share ::
  "(bytes \<Rightarrow> bytes) \<Rightarrow> (bytes \<Rightarrow> bytes) \<Rightarrow> site \<Rightarrow> share_check \<Rightarrow> rejection + share_clearance" where
  "clear_share sha ul s sc =
     result_bind (gate_run sha ul s (Share sc)) (\<lambda>_.
       case sc_capability sc of
         capability.Shares f m \<Rightarrow>
           Inr \<lparr>sl_location = st_location s, sl_identity = sc_identity sc, sl_method = m\<rparr>
       | capability.Unsupported f \<Rightarrow> Inl (CannotShare (st_location s) f))"

record prune_clearance =
  pl_location :: location
  pl_identity :: identity

definition clear_prune ::
  "(bytes \<Rightarrow> bytes) \<Rightarrow> (bytes \<Rightarrow> bytes) \<Rightarrow> site \<Rightarrow> prune_check \<Rightarrow> rejection + prune_clearance" where
  "clear_prune sha ul s p =
     result_bind (gate_run sha ul s (Prune p)) (\<lambda>_.
       Inr \<lparr>pl_location = st_location s, pl_identity = pc_identity p\<rparr>)"

section \<open>Explanations\<close>

datatype outcome = Pass gate_note | Abstain | Reject rejection | NotReached

record stage =
  sg_gate :: gate
  sg_outcome :: outcome

text \<open>\<open>refused\<close> is the flag the closure of the iterator sets.\<close>

fun stages_from :: "(gate \<Rightarrow> verdict) \<Rightarrow> bool \<Rightarrow> gate list \<Rightarrow> stage list" where
  "stages_from evaluate refused [] = []"
| "stages_from evaluate refused (g # gs) =
     (if refused then \<lparr>sg_gate = g, sg_outcome = NotReached\<rparr> # stages_from evaluate True gs
      else (case evaluate g of
              verdict.Pass n \<Rightarrow>
                \<lparr>sg_gate = g, sg_outcome = outcome.Pass n\<rparr> # stages_from evaluate False gs
            | verdict.Abstain \<Rightarrow>
                \<lparr>sg_gate = g, sg_outcome = outcome.Abstain\<rparr> # stages_from evaluate False gs
            | verdict.Reject r \<Rightarrow>
                \<lparr>sg_gate = g, sg_outcome = outcome.Reject r\<rparr> # stages_from evaluate True gs))"

definition stages ::
  "(bytes \<Rightarrow> bytes) \<Rightarrow> (bytes \<Rightarrow> bytes) \<Rightarrow> site \<Rightarrow> ask \<Rightarrow> stage list" where
  "stages sha ul s a = stages_from (\<lambda>g. gate_check sha ul g s a) False all_gates"

definition inspect ::
  "(bytes \<Rightarrow> bytes) \<Rightarrow> (bytes \<Rightarrow> bytes) \<Rightarrow> site \<Rightarrow> inspection \<Rightarrow> stage list" where
  "inspect sha ul s i = stages sha ul s (Inspect i)"

definition inspect_verified ::
  "(bytes \<Rightarrow> bytes) \<Rightarrow> (bytes \<Rightarrow> bytes) \<Rightarrow> site \<Rightarrow> verify \<Rightarrow> stage list" where
  "inspect_verified sha ul s v = stages sha ul s (Verify v)"

end
