(* ===== verification/Gate_Facts.thy ===== *)
theory Gate_Facts
  imports Gates
begin

text \<open>
  The pipeline and its explanation give the same verdict: both are the first refusal in the
  order of the gates. Then each gate's verdict in terms of what was observed, and with it what
  every clearance means.
\<close>

section \<open>The pipeline is the first refusal\<close>

fun verdict_refusal :: "verdict \<Rightarrow> rejection option" where
  "verdict_refusal (verdict.Reject r) = Some r"
| "verdict_refusal _ = None"

lemma all_gates_complete: "g \<in> set all_gates"
  by (cases g) (simp_all add: all_gates_def)

interpretation gates: gate_order all_gates "\<lambda>g. verdict_refusal (gate_check sha ul g s a)"
  for sha ul s a
  by unfold_locales (rule all_gates_complete)

lemma verdict_refusal_None:
  "verdict_refusal v = None \<longleftrightarrow> (\<forall>r. v \<noteq> verdict.Reject r)"
  by (cases v) auto

lemma pipeline_from_Inl:
  "pipeline_from ev i gs = Inl r \<longleftrightarrow> first_refusal (\<lambda>g. verdict_refusal (ev g)) gs = Some r"
  by (induction gs arbitrary: i) (auto split: verdict.splits gate_note.splits)

lemma pipeline_from_Inr:
  "pipeline_from ev i gs = Inr j \<Longrightarrow> first_refusal (\<lambda>g. verdict_refusal (ev g)) gs = None"
  using pipeline_from_Inl [of ev i gs] by (cases "first_refusal (\<lambda>g. verdict_refusal (ev g)) gs") auto

lemma pipeline_from_identified:
  "pipeline_from ev i gs = Inr j \<Longrightarrow>
   (\<forall>g \<in> set gs. \<forall>k. ev g = verdict.Pass (Identified k) \<longrightarrow> g = Evidence) \<Longrightarrow>
   (\<forall>k. ev Evidence = verdict.Pass (Identified k) \<longrightarrow> k = e) \<Longrightarrow>
   j = (if \<exists>g \<in> set gs. \<exists>k. ev g = verdict.Pass (Identified k) then Some e else i)"
proof (induction gs arbitrary: i)
  case (Cons g gs)
  show ?case
  proof (cases "\<exists>k. ev g = verdict.Pass (Identified k)")
    case True
    then obtain k where k: "ev g = verdict.Pass (Identified k)" by blast
    with Cons.prems have "k = e" by auto
    with k Cons.prems(1) have "pipeline_from ev (Some e) gs = Inr j" by simp
    with Cons.IH [of "Some e"] Cons.prems(2,3) have "j = Some e" by (auto split: if_splits)
    with k show ?thesis by auto
  next
    case False
    with Cons.prems(1) have "pipeline_from ev i gs = Inr j"
      by (auto split: verdict.splits gate_note.splits)
    with Cons.IH [of i] Cons.prems(2,3) False show ?thesis by auto
  qed
qed simp

section \<open>What each gate asks\<close>

lemma shape_refusal:
  "verdict_refusal (gate_shape s) = None \<longleftrightarrow> st_shape s = shape.Directory"
  by (simp add: gate_shape_def split: shape.splits)

lemma mount_refusal:
  "verdict_refusal (gate_mount s) = None \<longleftrightarrow> (\<forall>from to. st_boundary s \<noteq> Crossed from to)"
  by (simp add: gate_mount_def split: boundary.splits)

definition site_declared :: "site \<Rightarrow> bool" where
  "site_declared s \<longleftrightarrow> (\<exists>i. site_identify s = Some i \<and> id_provenance i = Declared)"

lemma area_refusal:
  "verdict_refusal (gate_area ul s) = None \<longleftrightarrow>
     area_of ul (st_protection s) (st_location s) = area.Open \<or>
     (\<exists>a. area_of ul (st_protection s) (st_location s) = area.AppOwned a) \<and> site_declared s"
  by (auto simp: gate_area_def site_declared_def Let_def
      split: area.splits option.splits provenance.splits)

lemma exclusion_refusal:
  "verdict_refusal (gate_exclusion ul s) = None \<longleftrightarrow>
     list_all (\<lambda>e. \<not> intersects ul (st_protection s) e (st_location s)) (st_excludes s)"
  using find_ball_None [of "\<lambda>e. intersects ul (st_protection s) e (st_location s)" "st_excludes s"]
  by (auto simp: gate_exclusion_def list_all_iff split: option.splits)

definition evidence_matches :: "site \<Rightarrow> ask \<Rightarrow> bool" where
  "evidence_matches s a \<longleftrightarrow>
     (case site_identify s of
        None \<Rightarrow> False
      | Some i \<Rightarrow>
          (case ask_recorded a of
             None \<Rightarrow> True
           | Some (c, _) \<Rightarrow> id_kind i = cd_kind c \<and> id_provenance i = cd_provenance c))"

lemma evidence_refusal:
  "verdict_refusal (gate_evidence s a) = None \<longleftrightarrow> evidence_matches s a"
  by (auto simp: gate_evidence_def evidence_matches_def split: option.splits)

definition tier_admitted :: "site \<Rightarrow> ask \<Rightarrow> bool" where
  "tier_admitted s a \<longleftrightarrow>
     (case ask_tiers a of
        None \<Rightarrow> True
      | Some grant \<Rightarrow>
          (case site_identify s of
             None \<Rightarrow> False | Some i \<Rightarrow> grant_admits grant (kind_tier (id_kind i))))"

lemma tier_refusal: "verdict_refusal (gate_tier s a) = None \<longleftrightarrow> tier_admitted s a"
  by (auto simp: gate_tier_def tier_admitted_def Let_def split: option.splits)

definition ownership_admitted :: "ask \<Rightarrow> bool" where
  "ownership_admitted a \<longleftrightarrow>
     (case ask_ownership a of
        None \<Rightarrow> True
      | Some (own, adm) \<Rightarrow>
          if ask_deletes a then admits_deletion adm (settlement_of own)
          else admits_settlement adm (settlement_of own))"

lemma ownership_refusal:
  "verdict_refusal (gate_ownership s a) = None \<longleftrightarrow> ownership_admitted a"
  by (auto simp: gate_ownership_def ownership_admitted_def Let_def split: option.splits)

lemma protocol_refusal:
  "verdict_refusal (gate_protocol s a) = None \<longleftrightarrow>
     (case ask_rewrites a of None \<Rightarrow> True | Some c \<Rightarrow> kind_protocol (cd_kind c) \<noteq> None)"
  by (auto simp: gate_protocol_def split: option.splits)

lemma capability_refusal:
  "verdict_refusal (gate_capability s a) = None \<longleftrightarrow>
     (case a of Share sc \<Rightarrow> (\<exists>f m. sc_capability sc = capability.Shares f m) | _ \<Rightarrow> True)"
  by (auto simp: gate_capability_def split: ask.splits capability.splits)

lemma busy_refusal:
  "verdict_refusal (gate_busy s a) = None \<longleftrightarrow>
     (case ask_liveness a of None \<Rightarrow> True | Some l \<Rightarrow> l = liveness.Free)"
  by (auto simp: gate_busy_def split: option.splits liveness.splits)

lemma identity_refusal:
  "verdict_refusal (gate_identity ul s a) = None \<longleftrightarrow>
     (case ask_recorded a of
        None \<Rightarrow> True
      | Some (c, i) \<Rightarrow>
          same ul (st_location s) (cd_location c) (prot_case (st_protection s)) \<and> i = cd_identity c)"
  by (auto simp: gate_identity_def split: option.splits)

lemma freshness_refusal:
  "verdict_refusal (gate_freshness sha ul s a) = None \<longleftrightarrow>
     (case a of
        Verify v \<Rightarrow>
          derive_id sha ul (rc_identity (vf_recheck v)) (st_location s)
            (cd_kind (rc_recorded (vf_recheck v))) (vf_measured v) (prot_case (st_protection s))
          = cd_id (rc_recorded (vf_recheck v))
      | _ \<Rightarrow> True)"
  by (auto simp: gate_freshness_def Let_def split: ask.splits)

lemmas gate_refusals =
  shape_refusal mount_refusal area_refusal exclusion_refusal evidence_refusal tier_refusal
  ownership_refusal protocol_refusal capability_refusal busy_refusal identity_refusal
  freshness_refusal

section \<open>What the pipeline identifies\<close>

lemma identified_only_by_evidence:
  "gate_check sha ul g s a = verdict.Pass (Identified k) \<Longrightarrow> g = Evidence"
  by (cases g)
    (auto simp: gate_shape_def gate_mount_def gate_area_def gate_exclusion_def gate_tier_def
      gate_ownership_def gate_protocol_def gate_capability_def gate_busy_def gate_identity_def
      gate_freshness_def Let_def
      split: shape.splits boundary.splits area.splits provenance.splits option.splits if_splits
        ask.splits capability.splits liveness.splits)

lemma evidence_identifies:
  "gate_evidence s a = verdict.Pass (Identified k) \<Longrightarrow> site_identify s = Some k"
  by (auto simp: gate_evidence_def split: option.splits if_splits)

lemma evidence_passes:
  "verdict_refusal (gate_evidence s a) = None \<Longrightarrow>
   \<exists>k. gate_evidence s a = verdict.Pass (Identified k)"
  by (auto simp: gate_evidence_def split: option.splits if_splits)

lemma pipeline_identified_is:
  assumes j: "pipeline_from (\<lambda>g. gate_check sha ul g s a) None all_gates = Inr j"
    and k: "gate_check sha ul Evidence s a = verdict.Pass (Identified k)"
  shows "j = Some k"
proof -
  let ?id = "\<lambda>g k. gate_check sha ul g s a = verdict.Pass (Identified k)"
  have only: "\<forall>g \<in> set all_gates. \<forall>k. ?id g k \<longrightarrow> g = Evidence"
    by (blast intro: identified_only_by_evidence)
  have uniq: "\<forall>k'. ?id Evidence k' \<longrightarrow> k' = k" using k by simp
  have "\<exists>g \<in> set all_gates. \<exists>k. ?id g k" using k all_gates_complete by blast
  then show ?thesis using pipeline_from_identified [OF j only uniq] by simp
qed

lemma gate_run_Inl_first:
  "gate_run sha ul s a = Inl r \<longleftrightarrow>
     first_refusal (\<lambda>g. verdict_refusal (gate_check sha ul g s a)) all_gates = Some r"
proof (cases "first_refusal (\<lambda>g. verdict_refusal (gate_check sha ul g s a)) all_gates")
  case (Some r')
  then have "pipeline (\<lambda>g. gate_check sha ul g s a) = Inl r'"
    by (simp add: pipeline_def pipeline_from_Inl)
  with Some show ?thesis by (auto simp: gate_run_def)
next
  case None
  then obtain j where j: "pipeline_from (\<lambda>g. gate_check sha ul g s a) None all_gates = Inr j"
    using pipeline_from_Inl [of "\<lambda>g. gate_check sha ul g s a" None all_gates]
    by (cases "pipeline_from (\<lambda>g. gate_check sha ul g s a) None all_gates") auto
  from None have "verdict_refusal (gate_check sha ul Evidence s a) = None"
    using gates.admitted_iff by blast
  then obtain k where k: "gate_check sha ul Evidence s a = verdict.Pass (Identified k)"
    using evidence_passes by auto
  have "j = Some k" using j k by (rule pipeline_identified_is)
  with j None show ?thesis by (simp add: gate_run_def pipeline_def)
qed

lemma gate_run_Inr:
  "gate_run sha ul s a = Inr i \<longleftrightarrow>
     (\<forall>g. verdict_refusal (gate_check sha ul g s a) = None) \<and> site_identify s = Some i"
proof
  assume run: "gate_run sha ul s a = Inr i"
  then have none: "first_refusal (\<lambda>g. verdict_refusal (gate_check sha ul g s a)) all_gates = None"
    using gate_run_Inl_first [of sha ul s a]
    by (cases "first_refusal (\<lambda>g. verdict_refusal (gate_check sha ul g s a)) all_gates") auto
  then have all: "\<forall>g. verdict_refusal (gate_check sha ul g s a) = None"
    using gates.admitted_iff by blast
  from run have j: "pipeline_from (\<lambda>g. gate_check sha ul g s a) None all_gates = Inr (Some i)"
    by (auto simp: gate_run_def pipeline_def result_simps)
  obtain k where k: "gate_check sha ul Evidence s a = verdict.Pass (Identified k)"
    using all evidence_passes by (metis gate_check.simps(5))
  have "Some i = Some k" using j k by (rule pipeline_identified_is)
  with all k evidence_identifies show "(\<forall>g. verdict_refusal (gate_check sha ul g s a) = None) \<and>
      site_identify s = Some i" by auto
next
  assume asm: "(\<forall>g. verdict_refusal (gate_check sha ul g s a) = None) \<and> site_identify s = Some i"
  then have "first_refusal (\<lambda>g. verdict_refusal (gate_check sha ul g s a)) all_gates = None"
    using gates.admitted_iff by blast
  then obtain j where j: "gate_run sha ul s a = Inr j"
    using gate_run_Inl_first [of sha ul s a] by (cases "gate_run sha ul s a") auto
  then have "pipeline_from (\<lambda>g. gate_check sha ul g s a) None all_gates = Inr (Some j)"
    by (auto simp: gate_run_def pipeline_def result_simps)
  moreover obtain k where k: "gate_check sha ul Evidence s a = verdict.Pass (Identified k)"
    using asm evidence_passes by (metis gate_check.simps(5))
  ultimately have "Some j = Some k" by (rule pipeline_identified_is)
  moreover have "site_identify s = Some k" using k evidence_identifies by simp
  ultimately show "gate_run sha ul s a = Inr i" using asm j by simp
qed

lemma all_gates_split:
  "(\<forall>g. P g) \<longleftrightarrow> P Shape \<and> P Mount \<and> P Area \<and> P Exclusion \<and> P Evidence \<and> P Tier \<and>
     P Ownership \<and> P Protocol \<and> P Capability \<and> P gate.Busy \<and> P Identity \<and> P Freshness"
proof -
  have "(\<forall>g. P g) \<longleftrightarrow> (\<forall>g \<in> set all_gates. P g)" using all_gates_complete by blast
  then show ?thesis by (simp add: all_gates_def)
qed

section \<open>The explanation agrees with the verdict\<close>

lemma stages_gates: "map sg_gate (stages_from ev refused gs) = gs"
  by (induction gs arbitrary: refused) (auto split: verdict.splits)

lemma stages_refused:
  "sg \<in> set (stages_from ev True gs) \<Longrightarrow> sg_outcome sg = NotReached"
  by (induction gs) auto

lemma stages_reject:
  "(\<exists>sg \<in> set (stages_from ev False gs). sg_outcome sg = outcome.Reject r) \<longleftrightarrow>
   first_refusal (\<lambda>g. verdict_refusal (ev g)) gs = Some r"
proof (induction gs)
  case (Cons g gs)
  show ?case
  proof (cases "ev g")
    case (Reject q)
    have "\<not> (\<exists>sg \<in> set (stages_from ev True gs). sg_outcome sg = outcome.Reject r)"
      by (auto dest: stages_refused)
    with Reject show ?thesis by auto
  qed (use Cons in auto)
qed simp

section \<open>What a clearance means\<close>

definition area_admits :: "(bytes \<Rightarrow> bytes) \<Rightarrow> site \<Rightarrow> bool" where
  "area_admits ul s \<longleftrightarrow>
     area_of ul (st_protection s) (st_location s) = area.Open \<or>
     (\<exists>a. area_of ul (st_protection s) (st_location s) = area.AppOwned a) \<and> site_declared s"

text \<open>What every admitted directory shows, whatever is asked of it.\<close>

definition standing :: "(bytes \<Rightarrow> bytes) \<Rightarrow> site \<Rightarrow> bool" where
  "standing ul s \<longleftrightarrow>
     st_shape s = shape.Directory \<and>
     (\<forall>from to. st_boundary s \<noteq> Crossed from to) \<and>
     area_admits ul s \<and>
     list_all (\<lambda>e. \<not> intersects ul (st_protection s) e (st_location s)) (st_excludes s)"

text \<open>The candidate that was recorded is the one that is there now.\<close>

definition still_the_same :: "(bytes \<Rightarrow> bytes) \<Rightarrow> site \<Rightarrow> candidate \<Rightarrow> identity \<Rightarrow> bool" where
  "still_the_same ul s c i \<longleftrightarrow>
     (\<exists>j. site_identify s = Some j \<and> id_kind j = cd_kind c \<and> id_provenance j = cd_provenance c) \<and>
     same ul (st_location s) (cd_location c) (prot_case (st_protection s)) \<and>
     i = cd_identity c"

definition recheck_holds :: "(bytes \<Rightarrow> bytes) \<Rightarrow> site \<Rightarrow> recheck \<Rightarrow> bool" where
  "recheck_holds ul s r \<longleftrightarrow>
     standing ul s \<and> still_the_same ul s (rc_recorded r) (rc_identity r) \<and>
     grant_admits (md_tiers (rc_mandate r)) (kind_tier (cd_kind (rc_recorded r))) \<and>
     (settlement_of (rc_ownership r) = settlement.Released \<or>
      settlement_of (rc_ownership r) = settlement.Landed) \<and>
     rc_liveness r = liveness.Free"

definition deletable :: "(bytes \<Rightarrow> bytes) \<Rightarrow> (bytes \<Rightarrow> bytes) \<Rightarrow> site \<Rightarrow> verify \<Rightarrow> bool" where
  "deletable sha ul s v \<longleftrightarrow>
     recheck_holds ul s (vf_recheck v) \<and>
     derive_id sha ul (rc_identity (vf_recheck v)) (st_location s)
       (cd_kind (rc_recorded (vf_recheck v))) (vf_measured v) (prot_case (st_protection s))
     = cd_id (rc_recorded (vf_recheck v))"

definition prunable :: "(bytes \<Rightarrow> bytes) \<Rightarrow> site \<Rightarrow> prune_check \<Rightarrow> bool" where
  "prunable ul s p \<longleftrightarrow>
     standing ul s \<and> still_the_same ul s (pc_recorded p) (pc_identity p) \<and>
     settlement_of (pc_ownership p) \<noteq> settlement.Kept \<and>
     kind_protocol (cd_kind (pc_recorded p)) \<noteq> None \<and>
     pc_liveness p = liveness.Free"

definition sharable :: "(bytes \<Rightarrow> bytes) \<Rightarrow> site \<Rightarrow> share_check \<Rightarrow> bool" where
  "sharable ul s sc \<longleftrightarrow>
     standing ul s \<and> still_the_same ul s (sc_recorded sc) (sc_identity sc) \<and>
     kind_protocol (cd_kind (sc_recorded sc)) \<noteq> None \<and>
     (\<exists>f m. sc_capability sc = capability.Shares f m) \<and>
     sc_liveness sc = liveness.Free"

lemma run_discover:
  "gate_run sha ul s Discover = Inr i \<longleftrightarrow> standing ul s \<and> site_identify s = Some i"
  unfolding gate_run_Inr all_gates_split gate_check.simps gate_refusals
  by (auto simp: standing_def area_admits_def evidence_matches_def tier_admitted_def
      ownership_admitted_def)

lemma run_recheck:
  "gate_run sha ul s (Recheck r) = Inr i \<longleftrightarrow> recheck_holds ul s r \<and> site_identify s = Some i"
  unfolding gate_run_Inr all_gates_split gate_check.simps gate_refusals
  by (auto simp: recheck_holds_def standing_def still_the_same_def area_admits_def
      evidence_matches_def tier_admitted_def ownership_admitted_def admits_deletion_iff)

lemma run_verify:
  "gate_run sha ul s (Verify v) = Inr i \<longleftrightarrow> deletable sha ul s v \<and> site_identify s = Some i"
  unfolding gate_run_Inr all_gates_split gate_check.simps gate_refusals
  by (auto simp: deletable_def recheck_holds_def standing_def still_the_same_def area_admits_def
      evidence_matches_def tier_admitted_def ownership_admitted_def admits_deletion_iff)

lemma run_prune:
  "gate_run sha ul s (Prune p) = Inr i \<longleftrightarrow> prunable ul s p \<and> site_identify s = Some i"
  unfolding gate_run_Inr all_gates_split gate_check.simps gate_refusals
  by (auto simp: prunable_def standing_def still_the_same_def area_admits_def
      evidence_matches_def tier_admitted_def ownership_admitted_def)

lemma run_share:
  "gate_run sha ul s (Share sc) = Inr i \<longleftrightarrow> sharable ul s sc \<and> site_identify s = Some i"
  unfolding gate_run_Inr all_gates_split gate_check.simps gate_refusals
  by (auto simp: sharable_def standing_def still_the_same_def area_admits_def
      evidence_matches_def tier_admitted_def ownership_admitted_def)

lemma clear_Inr:
  "clear sha ul s v = Inr c \<longleftrightarrow>
     deletable sha ul s v \<and> cl_location c = st_location s \<and>
     cl_identity c = rc_identity (vf_recheck v) \<and> site_identify s = Some (cl_identification c)"
proof -
  have grant: "deletable sha ul s v \<Longrightarrow>
      deletion_grant (md_settlements (rc_mandate (vf_recheck v)))
        (settlement_of (rc_ownership (vf_recheck v))) = Some ()"
    by (simp add: deletable_def recheck_holds_def deletion_grant_def admits_deletion_iff)
  show ?thesis
    by (cases c) (auto simp: clear_def Let_def result_simps run_verify grant)
qed

lemma clear_deletable: "clear sha ul s v = Inr c \<Longrightarrow> deletable sha ul s v"
  by (simp add: clear_Inr)

lemma deletable_clear: "deletable sha ul s v \<Longrightarrow> \<exists>c. clear sha ul s v = Inr c"
proof -
  assume d: "deletable sha ul s v"
  then obtain i where "site_identify s = Some i"
    by (auto simp: deletable_def recheck_holds_def still_the_same_def)
  with d have "clear sha ul s v = Inr \<lparr>cl_location = st_location s,
      cl_identity = rc_identity (vf_recheck v), cl_identification = i\<rparr>"
    by (simp add: clear_Inr)
  then show ?thesis by blast
qed

lemma standing_area: "standing ul s \<Longrightarrow> \<forall>r. area_of ul (st_protection s) (st_location s) \<noteq> area.System r"
  by (auto simp: standing_def area_admits_def)

lemma deletable_standing: "deletable sha ul s v \<Longrightarrow> standing ul s"
  by (simp add: deletable_def recheck_holds_def)

section \<open>An example directory\<close>

text \<open>A Cargo target beside its manifest, used by the witnesses.\<close>

definition ex_names :: "bytes list \<Rightarrow> location" where
  "ex_names ns = Location path_syntax.Unix root.Unix (map Name ns)"

definition ex_protection :: protection where
  "ex_protection =
     \<lparr>prot_syntax = path_syntax.Unix, prot_case = Sensitive, prot_cwd = ex_names [''w''],
      prot_exe = ex_names [''x''], prot_rules = []\<rparr>"

definition ex_site :: site where
  "ex_site =
     \<lparr>st_location = ex_names [''p'', ''target''], st_shape = shape.Directory, st_boundary = NoParent,
      st_listing = \<lparr>parent_files = [''cargo.toml''], parent_dirs = [], child_files = [],
        child_dirs = [],
        list_tags = \<lparr>tag_cache = cache_tag.Absent, tag_owner = owner_tag.Absent\<rparr>\<rparr>,
      st_protection = ex_protection, st_excludes = [ex_names [''q'']]\<rparr>"

definition ex_identity :: identity where
  "ex_identity = \<lparr>volume = 1, file_id = 2\<rparr>"

definition ex_candidate :: "(bytes \<Rightarrow> bytes) \<Rightarrow> (bytes \<Rightarrow> bytes) \<Rightarrow> candidate" where
  "ex_candidate sha ul =
     candidate_new sha ul
       \<lparr>ad_location = st_location ex_site,
        ad_identification = \<lparr>id_kind = RustTarget, id_provenance = Inferred\<rparr>\<rparr>
       \<lparr>ob_identity = ex_identity, ob_measurement = unmeasured,
        ob_ownership = Worktree (Orphaned (ex_names [''p'']))\<rparr> Sensitive"

definition ex_verify :: "(bytes \<Rightarrow> bytes) \<Rightarrow> (bytes \<Rightarrow> bytes) \<Rightarrow> verify" where
  "ex_verify sha ul =
     \<lparr>vf_recheck = \<lparr>rc_mandate = mandate_default, rc_recorded = ex_candidate sha ul,
        rc_identity = ex_identity, rc_ownership = Worktree (Orphaned (ex_names [''p''])),
        rc_liveness = liveness.Free\<rparr>,
      vf_measured = unmeasured\<rparr>"

lemma ex_identify: "site_identify ex_site = Some \<lparr>id_kind = RustTarget, id_provenance = Inferred\<rparr>"
proof -
  have "from_utf8_lossy ''target'' = ''target''"
    by (intro from_utf8_lossy_valid utf8_valid_ascii) (simp add: is_ascii_def)
  then show ?thesis
    by (simp add: site_identify_def ex_site_def ex_names_def file_name_def identify_def
        listing_kind_def declares_rust_target_def family_kind_def to_ascii_lower_def is_ascii_upper_def)
qed

lemma ex_standing: "standing ul ex_site"
  by (simp add: standing_def area_admits_def area_of_def ex_site_def ex_protection_def ex_names_def
      contains_view base_view_def names_view_def intersects_def prot_contains_def)

lemma ex_deletable: "deletable sha ul ex_site (ex_verify sha ul)"
  using ex_standing ex_identify
  by (simp add: deletable_def recheck_holds_def still_the_same_def ex_verify_def ex_candidate_def
      candidate_new_def mandate_default_def kind_tier_def)
    (simp add: ex_site_def ex_protection_def)

definition ex_clearance :: clearance where
  "ex_clearance =
     \<lparr>cl_location = st_location ex_site, cl_identity = ex_identity,
      cl_identification = \<lparr>id_kind = RustTarget, id_provenance = Inferred\<rparr>\<rparr>"

lemma ex_clear: "clear sha ul ex_site (ex_verify sha ul) = Inr ex_clearance"
  using ex_deletable ex_identify by (simp add: clear_Inr ex_clearance_def ex_verify_def)

lemma ex_records: "records sha ul (prot_case (st_protection ex_site)) unmeasured
    (rc_recorded (vf_recheck (ex_verify sha ul)))"
  by (simp add: ex_site_def ex_protection_def ex_verify_def ex_candidate_def records_def
      candidate_new_def Let_def)

end
