(* ===== verification/Cleanup_Guarantees.thy ===== *)
theory Cleanup_Guarantees
  imports Gate_Facts
begin

text \<open>
  The properties of the gates: when a deletion, a pruning or a sharing is cleared, what a
  clearance guarantees about the tree below the directory, about its owners and about its
  contents, and that the printed explanation is the verdict.
\<close>

text \<open>Property C3. A deletion is cleared exactly when every gate's condition holds: a real
  directory on its parent's filesystem, in an area that admits it, outside every exclusion,
  identified as the recorded kind and provenance, of an accepted tier, released or landed by its
  owner, with free locks, at the recorded path and identity, and measuring to the recorded
  identifier; the clearance then names this directory.\<close>

theorem clear_exactly:
  "(\<exists>c. clear sha ul s v = Inr c) \<longleftrightarrow>
     st_shape s = shape.Directory \<and>
     (\<forall>from to. st_boundary s \<noteq> Crossed from to) \<and>
     area_admits ul s \<and>
     list_all (\<lambda>e. \<not> intersects ul (st_protection s) e (st_location s)) (st_excludes s) \<and>
     still_the_same ul s (rc_recorded (vf_recheck v)) (rc_identity (vf_recheck v)) \<and>
     grant_admits (md_tiers (rc_mandate (vf_recheck v)))
       (kind_tier (cd_kind (rc_recorded (vf_recheck v)))) \<and>
     settlement_of (rc_ownership (vf_recheck v)) \<in> {settlement.Released, settlement.Landed} \<and>
     rc_liveness (vf_recheck v) = liveness.Free \<and>
     derive_id sha ul (rc_identity (vf_recheck v)) (st_location s)
       (cd_kind (rc_recorded (vf_recheck v))) (vf_measured v) (prot_case (st_protection s))
     = cd_id (rc_recorded (vf_recheck v))"
  using clear_deletable [of sha ul s v] deletable_clear [of sha ul s v]
  by (auto simp: deletable_def recheck_holds_def standing_def)

theorem clear_exactly_witness: "\<exists>c. clear (\<lambda>x. x) (\<lambda>x. x) ex_site (ex_verify (\<lambda>x. x) (\<lambda>x. x)) = Inr c"
  unfolding clear_exactly
  using ex_deletable [of "\<lambda>x. x" "\<lambda>x. x"]
  by (auto simp: deletable_def recheck_holds_def standing_def)



text \<open>Property C5. Deleting a cleared directory touches nothing protected: it has a name (it is no
  filesystem root), it holds neither the working directory nor the running binary, and no location
  inside it meets a requested exclusion.\<close>

theorem clear_protects_below:
  assumes "clear sha ul s v = Inr c" and "contains ul (st_location s) x (prot_case (st_protection s))"
  shows "loc_names (st_location s) \<noteq> [] \<and>
    \<not> contains ul x (prot_cwd (st_protection s)) (prot_case (st_protection s)) \<and>
    \<not> contains ul x (prot_exe (st_protection s)) (prot_case (st_protection s)) \<and>
    list_all (\<lambda>e. \<not> intersects ul (st_protection s) e x) (st_excludes s)"
proof -
  have st: "standing ul s" using assms(1) by (blast dest: clear_deletable deletable_standing)
  note area = area_of_unprotected [OF standing_area [OF st]]
  have "list_all (\<lambda>e. \<not> intersects ul (st_protection s) e x) (st_excludes s)"
    using st not_intersects_below [OF _ assms(2)] by (auto simp: standing_def list_all_iff)
  then show ?thesis
    using area(2) paths.outside_below [OF assms(2) area(3)] paths.outside_below [OF assms(2) area(4)]
    by simp
qed

theorem clear_protects_below_witness:
  "\<not> contains (\<lambda>x. x) (ex_names [''p'', ''target'', ''debug'']) (ex_names [''w'']) Sensitive"
proof -
  have "contains (\<lambda>x. x) (st_location ex_site) (ex_names [''p'', ''target'', ''debug''])
      (prot_case (st_protection ex_site))"
    by (simp add: ex_site_def ex_protection_def ex_names_def contains_view base_view_def names_view_def)
  then have "\<not> contains (\<lambda>x. x) (ex_names [''p'', ''target'', ''debug''])
      (prot_cwd (st_protection ex_site)) (prot_case (st_protection ex_site))"
    using clear_protects_below [OF ex_clear] by blast
  then show ?thesis by (simp add: ex_site_def ex_protection_def)
qed

text \<open>Property C6. No owner is overruled: a directory whose ownership was resolved from its own
  markers, the markers nested in it and its worktree is cleared for deletion under no mandate while
  one of the markers is kept, has a lock that is not free, or is a cache whose key is not gone.\<close>

theorem clear_respects_markers:
  assumes "clear sha ul s v = Inr c"
    and "rc_ownership (vf_recheck v) = resolve own nested wt"
    and "m \<in> set own \<union> set nested"
  shows "mk_keep m = keep.Released \<and> mk_lock m = owner_lock.Free \<and>
    (mk_role m = role.Cache \<longrightarrow> mk_key m = owner_key.Gone)"
proof -
  from assms(1,2) have "\<not> protects (settlement_of (resolve own nested wt))"
    by (auto simp: deletable_def recheck_holds_def dest!: clear_deletable)
  then have "\<not> protects (marker_settlement m)"
    using assms(3) resolve_protects_own resolve_protects_nested by blast
  then show ?thesis
    by (auto simp: marker_settlement_def split: keep.splits owner_lock.splits role.splits if_splits)
qed

definition ex_marker :: marker where
  "ex_marker =
     \<lparr>mk_directory = ex_names [''p'', ''target''], mk_schema = ''s'', mk_role = role.Scratch,
      mk_keep = keep.Released, mk_lock = owner_lock.Free, mk_key = owner_key.Unkeyed\<rparr>"

definition ex_owned_verify :: verify where
  "ex_owned_verify =
     (let v = ex_verify (\<lambda>x. x) (\<lambda>x. x) in
      v\<lparr>vf_recheck := (vf_recheck v)\<lparr>rc_ownership := resolve [ex_marker] [] None\<rparr>\<rparr>)"

theorem clear_respects_markers_witness:
  "mk_keep ex_marker = keep.Released \<and> mk_lock ex_marker = owner_lock.Free"
proof -
  have "deletable (\<lambda>x. x) (\<lambda>x. x) ex_site ex_owned_verify"
    using ex_deletable [of "\<lambda>x. x" "\<lambda>x. x"]
    by (simp add: deletable_def recheck_holds_def ex_owned_verify_def Let_def resolve_def
        ex_marker_def marker_settlement_def strongest_def)
  then obtain c where "clear (\<lambda>x. x) (\<lambda>x. x) ex_site ex_owned_verify = Inr c"
    using deletable_clear by blast
  moreover have "rc_ownership (vf_recheck ex_owned_verify) = resolve [ex_marker] [] None"
    by (simp add: ex_owned_verify_def Let_def)
  ultimately have "mk_keep ex_marker = keep.Released \<and> mk_lock ex_marker = owner_lock.Free \<and>
      (mk_role ex_marker = role.Cache \<longrightarrow> mk_key ex_marker = owner_key.Gone)"
    by (rule clear_respects_markers) simp
  then show ?thesis by blast
qed

text \<open>Property C36. A refused deletion reports the first gate, in the declared order, that refuses,
  and every gate before it passed or abstained.\<close>

theorem refusal_is_first_gate:
  assumes "clear sha ul s v = Inl r"
  shows "\<exists>before g after. all_gates = before @ g # after \<and>
    gate_check sha ul g s (Verify v) = verdict.Reject r \<and>
    list_all (\<lambda>h. \<forall>q. gate_check sha ul h s (Verify v) \<noteq> verdict.Reject q) before"
proof -
  have "gate_run sha ul s (Verify v) = Inl r"
  proof (cases "gate_run sha ul s (Verify v)")
    case (Inr i)
    then have "deletable sha ul s v" by (simp add: run_verify)
    with assms show ?thesis using deletable_clear by fastforce
  qed (use assms in \<open>simp add: clear_def\<close>)
  then obtain before g after where "all_gates = before @ g # after"
    "verdict_refusal (gate_check sha ul g s (Verify v)) = Some r"
    "list_all (\<lambda>h. verdict_refusal (gate_check sha ul h s (Verify v)) = None) before"
    unfolding gate_run_Inl_first using gates.refusal_is_first by blast
  moreover from this(2) have "gate_check sha ul g s (Verify v) = verdict.Reject r"
    by (cases "gate_check sha ul g s (Verify v)") auto
  ultimately show ?thesis by (auto simp: verdict_refusal_None)
qed

theorem refusal_is_first_gate_witness:
  "\<exists>before g after. all_gates = before @ g # after \<and>
    gate_check (\<lambda>x. x) (\<lambda>x. x) g (ex_site\<lparr>st_shape := shape.Link\<rparr>) (Verify (ex_verify (\<lambda>x. x) (\<lambda>x. x))) =
      verdict.Reject (rejection.Link (st_location ex_site)) \<and>
    list_all (\<lambda>h. \<forall>q. gate_check (\<lambda>x. x) (\<lambda>x. x) h (ex_site\<lparr>st_shape := shape.Link\<rparr>)
      (Verify (ex_verify (\<lambda>x. x) (\<lambda>x. x))) \<noteq> verdict.Reject q) before"
  by (rule refusal_is_first_gate)
    (simp add: clear_def gate_run_def pipeline_def all_gates_def gate_shape_def)

text \<open>The explanation is the verdict: it lists every gate once, in order; it shows a
  refusal exactly when the run is refused, and then the same one; and a directory the pipeline
  admits shows none.\<close>

theorem explanation_agrees:
  "map sg_gate (inspect_verified sha ul s v) = all_gates \<and>
   ((\<exists>g. \<lparr>sg_gate = g, sg_outcome = outcome.Reject r\<rparr> \<in> set (inspect_verified sha ul s v)) \<longleftrightarrow>
    clear sha ul s v = Inl r)"
proof -
  have run: "gate_run sha ul s (Verify v) = Inl r \<longleftrightarrow> clear sha ul s v = Inl r"
  proof (cases "gate_run sha ul s (Verify v)")
    case (Inr i)
    then have "deletable sha ul s v" by (simp add: run_verify)
    with Inr show ?thesis using deletable_clear [of sha ul s v] by auto
  qed (simp add: clear_def)
  have "(\<exists>g. \<lparr>sg_gate = g, sg_outcome = outcome.Reject r\<rparr> \<in> set ss) \<longleftrightarrow>
      (\<exists>sg \<in> set ss. sg_outcome sg = outcome.Reject r)" for ss :: "stage list"
    by (metis stage.surjective old.unit.exhaust stage.select_convs(2))
  then show ?thesis
    unfolding inspect_verified_def stages_def
    by (simp add: stages_gates stages_reject run [symmetric] gate_run_Inl_first)
qed

text \<open>Deletion is the strongest question: what is cleared for deletion also passes the
  recheck with the same facts and is admitted at discovery with the recorded kind.\<close>

theorem clear_implies_recheck_and_admission:
  assumes "clear sha ul s v = Inr c"
  shows "gate_recheck sha ul s (vf_recheck v) = Inr () \<and>
    (\<exists>a. admit sha ul s = Inr a \<and> ad_location a = st_location s \<and>
      id_kind (ad_identification a) = cd_kind (rc_recorded (vf_recheck v)))"
proof -
  from assms have d: "recheck_holds ul s (vf_recheck v)" and i: "site_identify s = Some (cl_identification c)"
    by (auto simp: clear_Inr deletable_def)
  have "gate_recheck sha ul s (vf_recheck v) = Inr ()"
    using d i by (auto simp: gate_recheck_def result_simps run_recheck)
  moreover have "gate_run sha ul s Discover = Inr (cl_identification c)"
    using d i by (simp add: run_discover recheck_holds_def)
  ultimately show ?thesis
    using d i by (auto simp: admit_def recheck_holds_def still_the_same_def)
qed

theorem clear_implies_recheck_and_admission_witness:
  "gate_recheck (\<lambda>x. x) (\<lambda>x. x) ex_site (vf_recheck (ex_verify (\<lambda>x. x) (\<lambda>x. x))) = Inr ()"
  using clear_implies_recheck_and_admission [OF ex_clear] by blast

text \<open>Pruning is cleared exactly for a standing, unchanged directory that nobody kept,
  whose kind has a lock protocol and whose locks are free.\<close>

theorem clear_prune_exactly:
  "(\<exists>c. clear_prune sha ul s p = Inr c) \<longleftrightarrow>
     standing ul s \<and> still_the_same ul s (pc_recorded p) (pc_identity p) \<and>
     settlement_of (pc_ownership p) \<noteq> settlement.Kept \<and>
     kind_protocol (cd_kind (pc_recorded p)) \<noteq> None \<and>
     pc_liveness p = liveness.Free"
proof -
  have "(\<exists>c. clear_prune sha ul s p = Inr c) \<longleftrightarrow> (\<exists>i. gate_run sha ul s (Prune p) = Inr i)"
    by (auto simp: clear_prune_def result_simps)
  then show ?thesis by (auto simp: run_prune prunable_def still_the_same_def)
qed

text \<open>Sharing is cleared exactly for a standing, unchanged directory with a lock
  protocol and free locks on a filesystem that shares blocks, and the clearance carries that
  filesystem's method.\<close>

theorem clear_share_exactly:
  "(\<exists>c. clear_share sha ul s sc = Inr c \<and> sl_method c = m) \<longleftrightarrow>
     standing ul s \<and> still_the_same ul s (sc_recorded sc) (sc_identity sc) \<and>
     kind_protocol (cd_kind (sc_recorded sc)) \<noteq> None \<and>
     (\<exists>f. sc_capability sc = capability.Shares f m) \<and>
     sc_liveness sc = liveness.Free"
proof -
  have "(\<exists>c. clear_share sha ul s sc = Inr c \<and> sl_method c = m) \<longleftrightarrow>
      (\<exists>i f. gate_run sha ul s (Share sc) = Inr i \<and> sc_capability sc = capability.Shares f m)"
    by (cases "sc_capability sc") (auto simp: clear_share_def result_simps)
  then show ?thesis by (auto simp: run_share sharable_def still_the_same_def)
qed

end
