(* ===== verification/Cleanup_Protocol.thy ===== *)
theory Cleanup_Protocol
  imports Gate_Facts
begin

text \<open>
  The cleanup protocol (\<open>specs/cleanup.qnt\<close>) as a step relation: a plan records the identity and
  the contents of a directory, the world may change under it, and applying the plan deletes only
  what is still safe. The gate pipeline of the code decides \<open>apply\<close>: the last section maps a site
  and a verification to a state of the protocol.
\<close>

section \<open>The protocol\<close>

record protocol_state =
  ps_phase :: bytes
  ps_owner :: bytes
  ps_protected :: bool
  ps_identity :: int
  ps_contents :: int
  ps_planned_identity :: int
  ps_planned_contents :: int
  ps_operation :: bytes
  ps_allowed :: bool

definition protocol_init :: protocol_state where
  "protocol_init =
     \<lparr>ps_phase = ''empty'', ps_owner = ''released'', ps_protected = False, ps_identity = 0,
      ps_contents = 0, ps_planned_identity = 0, ps_planned_contents = 0, ps_operation = ''init'',
      ps_allowed = False\<rparr>"

definition protocol_safe :: "protocol_state \<Rightarrow> bool" where
  "protocol_safe s \<longleftrightarrow>
     ps_owner s = ''released'' \<and> \<not> ps_protected s \<and>
     ps_identity s = ps_planned_identity s \<and> ps_contents s = ps_planned_contents s"

definition protocol_apply :: "protocol_state \<Rightarrow> protocol_state" where
  "protocol_apply s =
     s\<lparr>ps_phase := (if protocol_safe s then ''deleted'' else ''planned''),
       ps_operation := ''apply'', ps_allowed := protocol_safe s\<rparr>"

inductive protocol_step :: "protocol_state \<Rightarrow> protocol_state \<Rightarrow> bool" where
  plan: "ps_phase s = ''empty'' \<Longrightarrow>
    protocol_step s (s\<lparr>ps_phase := ''planned'', ps_planned_identity := ps_identity s,
      ps_planned_contents := ps_contents s, ps_operation := ''plan'', ps_allowed := False\<rparr>)"
| change_owner: "owner \<in> {''released'', ''active'', ''kept'', ''unclaimed''} \<Longrightarrow>
    ps_phase s \<noteq> ''deleted'' \<Longrightarrow>
    protocol_step s (s\<lparr>ps_owner := owner, ps_operation := ''owner'', ps_allowed := False\<rparr>)"
| protect: "ps_phase s \<noteq> ''deleted'' \<Longrightarrow>
    protocol_step s (s\<lparr>ps_protected := \<not> ps_protected s, ps_operation := ''protect'',
      ps_allowed := False\<rparr>)"
| replace: "ps_phase s \<noteq> ''deleted'' \<Longrightarrow> ps_identity s = 0 \<Longrightarrow>
    protocol_step s (s\<lparr>ps_identity := 1, ps_operation := ''replace'', ps_allowed := False\<rparr>)"
| modify: "ps_phase s \<noteq> ''deleted'' \<Longrightarrow> ps_contents s = 0 \<Longrightarrow>
    protocol_step s (s\<lparr>ps_contents := 1, ps_operation := ''modify'', ps_allowed := False\<rparr>)"
| interrupt: "ps_phase s = ''planned'' \<Longrightarrow>
    protocol_step s (s\<lparr>ps_phase := ''empty'', ps_operation := ''interrupt'', ps_allowed := False\<rparr>)"
| apply_plan: "ps_phase s = ''planned'' \<Longrightarrow> protocol_step s (protocol_apply s)"
| idle: "protocol_step s (s\<lparr>ps_operation := ''idle'', ps_allowed := False\<rparr>)"

inductive_cases protocol_stepE: "protocol_step s t"

inductive protocol_reachable :: "protocol_state \<Rightarrow> bool" where
  start: "protocol_reachable protocol_init"
| next_step: "protocol_reachable s \<Longrightarrow> protocol_step s t \<Longrightarrow> protocol_reachable t"

definition deletion_safe :: "protocol_state \<Rightarrow> bool" where
  "deletion_safe s \<longleftrightarrow> ps_phase s \<noteq> ''deleted'' \<or> protocol_safe s"

definition no_capability_after_interruption :: "protocol_state \<Rightarrow> bool" where
  "no_capability_after_interruption s \<longleftrightarrow>
     ps_operation s \<noteq> ''interrupt'' \<or> ps_phase s = ''empty'' \<and> \<not> ps_allowed s"

definition valid_state :: "protocol_state \<Rightarrow> bool" where
  "valid_state s \<longleftrightarrow>
     ps_phase s \<in> {''empty'', ''planned'', ''deleted''} \<and>
     ps_owner s \<in> {''released'', ''active'', ''kept'', ''unclaimed''} \<and>
     ps_identity s \<in> {0, 1} \<and> ps_contents s \<in> {0, 1}"

definition protocol_safety :: "protocol_state \<Rightarrow> bool" where
  "protocol_safety s \<longleftrightarrow> deletion_safe s \<and> no_capability_after_interruption s \<and> valid_state s"

lemmas protocol_defs = protocol_safety_def deletion_safe_def no_capability_after_interruption_def
  valid_state_def protocol_safe_def protocol_apply_def

section \<open>Its safety\<close>

text \<open>A capability exists only in the step that deletes.\<close>

definition capability_deletes :: "protocol_state \<Rightarrow> bool" where
  "capability_deletes s \<longleftrightarrow>
     (ps_allowed s \<longrightarrow> ps_phase s = ''deleted'' \<and> ps_operation s = ''apply'')"

lemma protocol_step_safety:
  "protocol_step s t \<Longrightarrow> protocol_safety s \<and> capability_deletes s \<Longrightarrow>
   protocol_safety t \<and> capability_deletes t"
  by (erule protocol_stepE) (simp_all add: protocol_defs capability_deletes_def)

text \<open>Property C35. In every reachable state of the cleanup protocol, a deleted directory was
  released, unprotected, and the one planned with its planned contents; an interrupted run holds no
  capability; and a capability exists only in the step that deletes.\<close>

theorem protocol_safe_always:
  assumes "protocol_reachable s"
  shows "protocol_safety s \<and> capability_deletes s"
  using assms
proof induction
  case start
  show ?case by (simp add: protocol_defs capability_deletes_def protocol_init_def)
next
  case (next_step s t)
  then show ?case using protocol_step_safety by blast
qed

text \<open>The runs the specification expects: a plan that is applied at once deletes, a plan whose
  directory was replaced stays planned, an interrupted plan is forgotten.\<close>

definition planned_state :: protocol_state where
  "planned_state = protocol_init\<lparr>ps_phase := ''planned'', ps_operation := ''plan''\<rparr>"

lemma planned_reachable: "protocol_reachable planned_state"
proof -
  have "protocol_step protocol_init planned_state"
    using plan [of protocol_init] by (simp add: planned_state_def protocol_init_def)
  then show ?thesis by (rule next_step [OF start])
qed

lemma deleted_reachable: "protocol_reachable (protocol_apply planned_state)"
  by (rule next_step [OF planned_reachable apply_plan]) (simp add: planned_state_def)

theorem protocol_safe_always_witness:
  "ps_phase (protocol_apply planned_state) = ''deleted'' \<and>
   protocol_safety (protocol_apply planned_state)"
  using protocol_safe_always [OF deleted_reachable]
  by (simp add: protocol_apply_def planned_state_def protocol_init_def protocol_safe_def)

text \<open>Deletion is final and needs a plan: from a deleted state every step leaves the
  directory deleted with its identity, contents and owner, and the only step into the deleted phase
  is \<open>apply\<close> on a planned, safe state.\<close>

theorem deletion_final:
  assumes "protocol_step s t"
  shows "(ps_phase s = ''deleted'' \<longrightarrow>
      ps_phase t = ''deleted'' \<and> ps_identity t = ps_identity s \<and> ps_contents t = ps_contents s \<and>
      ps_owner t = ps_owner s \<and> ps_protected t = ps_protected s) \<and>
    (ps_phase s \<noteq> ''deleted'' \<and> ps_phase t = ''deleted'' \<longrightarrow>
      ps_phase s = ''planned'' \<and> protocol_safe s \<and> t = protocol_apply s)"
  using assms by (rule protocol_stepE) (simp_all add: protocol_apply_def)

theorem deletion_final_witness:
  "protocol_safe planned_state \<and> ps_phase planned_state = ''planned''"
proof -
  have "protocol_step planned_state (protocol_apply planned_state)"
    by (rule apply_plan) (simp add: planned_state_def)
  from deletion_final [OF this] show ?thesis
    by (simp add: protocol_apply_def planned_state_def protocol_init_def protocol_safe_def)
qed

section \<open>The gates implement it\<close>

fun owner_word :: "settlement \<Rightarrow> bytes" where
  "owner_word settlement.Released = ''released''"
| "owner_word settlement.Landed = ''released''"
| "owner_word settlement.Active = ''active''"
| "owner_word settlement.Kept = ''kept''"
| "owner_word settlement.Unclaimed = ''unclaimed''"

definition site_protected :: "(bytes \<Rightarrow> bytes) \<Rightarrow> site \<Rightarrow> verify \<Rightarrow> bool" where
  "site_protected ul s v \<longleftrightarrow>
     \<not> (standing ul s \<and>
        grant_admits (md_tiers (rc_mandate (vf_recheck v)))
          (kind_tier (cd_kind (rc_recorded (vf_recheck v)))) \<and>
        rc_liveness (vf_recheck v) = liveness.Free)"

text \<open>A plan exists, and identity and contents are 0 while they are the planned ones.\<close>

definition protocol_view ::
  "(bytes \<Rightarrow> bytes) \<Rightarrow> (bytes \<Rightarrow> bytes) \<Rightarrow> site \<Rightarrow> verify \<Rightarrow> protocol_state" where
  "protocol_view sha ul s v =
     \<lparr>ps_phase = ''planned'',
      ps_owner = owner_word (settlement_of (rc_ownership (vf_recheck v))),
      ps_protected = site_protected ul s v,
      ps_identity =
        (if still_the_same ul s (rc_recorded (vf_recheck v)) (rc_identity (vf_recheck v)) then 0 else 1),
      ps_contents =
        (if derive_id sha ul (rc_identity (vf_recheck v)) (st_location s)
              (cd_kind (rc_recorded (vf_recheck v))) (vf_measured v) (prot_case (st_protection s))
            = cd_id (rc_recorded (vf_recheck v)) then 0 else 1),
      ps_planned_identity = 0, ps_planned_contents = 0, ps_operation = ''plan'', ps_allowed = False\<rparr>"


end
