(* ===== verification/Ordered_Maps.thy ===== *)
theory Ordered_Maps
  imports Prelude
begin

text \<open>
  \<open>BTreeMap\<close> from keys to growing vectors, as the sources use it: \<open>entry(k).or_default()\<close>
  followed by \<open>push\<close> or \<open>insert\<close>, then iteration in key order. The locale \<open>multimap\<close> is the
  contract the clients use; the interpretation is the sorted association list.
\<close>

section \<open>Reversed order\<close>

datatype 'a reverse = Reverse 'a

fun unreverse :: "'a reverse \<Rightarrow> 'a" where
  "unreverse (Reverse x) = x"

instantiation reverse :: (linorder) linorder
begin

definition less_eq_reverse :: "'a reverse \<Rightarrow> 'a reverse \<Rightarrow> bool" where
  "a \<le> b \<longleftrightarrow> unreverse b \<le> unreverse a"

definition less_reverse :: "'a reverse \<Rightarrow> 'a reverse \<Rightarrow> bool" where
  "a < b \<longleftrightarrow> unreverse b < unreverse a"

instance
proof
  fix a b :: "'a reverse"
  show "a \<le> b \<Longrightarrow> b \<le> a \<Longrightarrow> a = b"
    by (cases a; cases b) (simp add: less_eq_reverse_def)
qed (auto simp: less_eq_reverse_def less_reverse_def)

end

section \<open>The contract\<close>

locale multimap =
  fixes push :: "'k \<Rightarrow> 'v \<Rightarrow> 'm \<Rightarrow> 'm" and empty :: 'm and lookup :: "'m \<Rightarrow> 'k \<Rightarrow> 'v list"
    and wf :: "'m \<Rightarrow> bool"
  assumes lookup_empty: "lookup empty k = []"
    and wf_empty: "wf empty"
    and lookup_push: "wf m \<Longrightarrow> lookup (push k v m) j = (if j = k then lookup m k @ [v] else lookup m j)"
    and wf_push: "wf m \<Longrightarrow> wf (push k v m)"
begin

lemma wf_fold: "wf m \<Longrightarrow> wf (foldl (\<lambda>m x. push (key x) (val x) m) m xs)"
  by (induction xs arbitrary: m) (auto intro: wf_push)

lemma lookup_fold:
  "wf m \<Longrightarrow> lookup (foldl (\<lambda>m x. push (key x) (val x) m) m xs) k =
     lookup m k @ map val (filter (\<lambda>x. key x = k) xs)"
  by (induction xs arbitrary: m) (auto simp: lookup_push wf_push)

lemma lookup_grouped:
  "lookup (foldl (\<lambda>m x. push (key x) (val x) m) empty xs) k = map val (filter (\<lambda>x. key x = k) xs)"
  by (simp add: lookup_fold wf_empty lookup_empty)

end

section \<open>Sorted association lists\<close>

fun btree_push :: "'k::linorder \<Rightarrow> 'v \<Rightarrow> ('k \<times> 'v list) list \<Rightarrow> ('k \<times> 'v list) list" where
  "btree_push k v [] = [(k, [v])]"
| "btree_push k v ((j, vs) # m) =
     (if k < j then (k, [v]) # (j, vs) # m
      else if k = j then (j, vs @ [v]) # m
      else (j, vs) # btree_push k v m)"

definition btree_lookup :: "('k \<times> 'v list) list \<Rightarrow> 'k \<Rightarrow> 'v list" where
  "btree_lookup m k = (case map_of m k of None \<Rightarrow> [] | Some vs \<Rightarrow> vs)"

text \<open>Keys strictly increase and no entry is empty.\<close>

definition btree_wf :: "('k::linorder \<times> 'v list) list \<Rightarrow> bool" where
  "btree_wf m \<longleftrightarrow> sorted_wrt (<) (map fst m) \<and> (\<forall>(k, vs) \<in> set m. vs \<noteq> [])"

definition group_by :: "('x \<Rightarrow> 'k::linorder) \<Rightarrow> ('x \<Rightarrow> 'v) \<Rightarrow> 'x list \<Rightarrow> ('k \<times> 'v list) list" where
  "group_by key val xs = foldl (\<lambda>m x. btree_push (key x) (val x) m) [] xs"

lemma btree_push_keys: "set (map fst (btree_push k v m)) = insert k (set (map fst m))"
  by (induction k v m rule: btree_push.induct) auto

lemma btree_push_wf: "btree_wf m \<Longrightarrow> btree_wf (btree_push k v m)"
proof (induction k v m rule: btree_push.induct)
  case (2 k v j vs m)
  then have tail: "btree_wf m" by (simp add: btree_wf_def)
  have above: "\<forall>x \<in> set (map fst (btree_push k v m)). j < x" if "\<not> k < j" "k \<noteq> j"
    using 2(2) that unfolding btree_push_keys by (auto simp: btree_wf_def)
  show ?case
  proof (cases "k < j")
    case False
    show ?thesis
    proof (cases "k = j")
      case False
      with \<open>\<not> k < j\<close> show ?thesis
        using 2(1) [OF \<open>\<not> k < j\<close> False tail] above 2(2) by (auto simp: btree_wf_def)
    qed (use 2(2) in \<open>auto simp: btree_wf_def\<close>)
  qed (use 2(2) in \<open>auto simp: btree_wf_def dest: less_trans\<close>)
qed (simp add: btree_wf_def)

lemma map_of_greater: "\<forall>x \<in> set (map fst m). (k :: 'k :: linorder) < x \<Longrightarrow> map_of m k = None"
  by (auto simp: map_of_eq_None_iff)

lemma btree_lookup_push:
  "btree_wf m \<Longrightarrow>
   btree_lookup (btree_push k v m) i = (if i = k then btree_lookup m k @ [v] else btree_lookup m i)"
proof (induction k v m rule: btree_push.induct)
  case (2 k v j vs m)
  then have tail: "btree_wf m" and less: "\<forall>x \<in> set (map fst m). j < x"
    by (auto simp: btree_wf_def)
  have "map_of m k = None" if "k < j"
    using less that by (intro map_of_greater) (auto dest: less_trans)
  then show ?case
    using 2(1) [OF _ _ tail] by (auto simp: btree_lookup_def)
qed (simp add: btree_lookup_def)

interpretation btree: multimap btree_push "[]" btree_lookup btree_wf
  by unfold_locales (simp_all add: btree_lookup_push btree_push_wf, simp_all add: btree_lookup_def btree_wf_def)

lemma group_by_wf: "btree_wf (group_by key val xs)"
  unfolding group_by_def by (rule btree.wf_fold [OF btree.wf_empty])

lemma group_by_lookup:
  "btree_lookup (group_by key val xs) k = map val (filter (\<lambda>x. key x = k) xs)"
  unfolding group_by_def by (rule btree.lookup_grouped)

lemma btree_wf_distinct: "btree_wf m \<Longrightarrow> distinct (map fst m)"
  by (auto simp: btree_wf_def strict_sorted_iff)

lemma btree_wf_nonempty: "btree_wf m \<Longrightarrow> (k, vs) \<in> set m \<Longrightarrow> vs \<noteq> []"
  by (auto simp: btree_wf_def)

lemma group_by_mem:
  "(k, vs) \<in> set (group_by key val xs) \<longleftrightarrow>
     vs = map val (filter (\<lambda>x. key x = k) xs) \<and> vs \<noteq> []"
proof -
  let ?m = "group_by key val xs"
  have d: "distinct (map fst ?m)" by (rule btree_wf_distinct [OF group_by_wf])
  have "(k, vs) \<in> set ?m \<longleftrightarrow> map_of ?m k = Some vs"
    using d by (simp add: map_of_eq_Some_iff)
  also have "\<dots> \<longleftrightarrow> btree_lookup ?m k = vs \<and> vs \<noteq> []"
    using btree_wf_nonempty [OF group_by_wf] map_of_SomeD [of ?m k]
    by (fastforce simp: btree_lookup_def split: option.splits)
  finally show ?thesis by (auto simp: group_by_lookup)
qed

lemma group_by_sorted: "sorted_wrt (<) (map fst (group_by key val xs))"
  using group_by_wf unfolding btree_wf_def by blast

end
