(* ===== verification/Sharing.thy ===== *)
theory Sharing
  imports Rejections Ordered_Maps
begin

text \<open>
  Sharing identical files (\<open>crates/core/src/share.rs\<close>): which pair of files may share blocks,
  how files are grouped by volume and size and then by fingerprint, which member of a group is
  kept, and the plan of pairs. A reference to a record of the inventory is its position in the
  inventory with the record, so \<open>ptr::eq\<close> compares positions.
\<close>

section \<open>Records\<close>

definition minimum :: u64 where
  "minimum = 64 * 1024"

definition temporary_suffix :: bytes where
  "temporary_suffix = ''.storage-scout-share''"

datatype file_owner = Caller | Other
datatype file_mode = Plain | Executable
datatype extras = Plain bytes | Special | Unobserved
datatype sharing = Unknown | Cluster u64

record file_record =
  fr_location :: location
  fr_len :: u64
  fr_identity :: identity
  fr_method :: share_method
  fr_links :: u64
  fr_owner :: file_owner
  fr_mode :: file_mode
  fr_extras :: extras
  fr_sharing :: sharing

datatype family = Cluster u64 | Alone u128

definition record_family :: "file_record \<Rightarrow> family" where
  "record_family r =
     (case fr_sharing r of
        sharing.Cluster c \<Rightarrow> family.Cluster c
      | sharing.Unknown \<Rightarrow> Alone (file_id (fr_identity r)))"

section \<open>Pairs\<close>

datatype pair_gate = Distinct | Volume | Size | Sharing | Owner | Links | Mode | Extras

definition all_pair_gates :: "pair_gate list" where
  "all_pair_gates = [Distinct, Volume, Size, Sharing, Owner, Links, Mode, Extras]"

datatype refusal =
    SameFile | OtherVolume | SizeDiffers | NotOwned | HardLinked u64 | Executable | Special
  | AttributesDiffer | Unobserved

fun refusal_summary :: "refusal \<Rightarrow> bytes" where
  "refusal_summary SameFile = ''both names are the same file''"
| "refusal_summary OtherVolume = ''the files are on different volumes''"
| "refusal_summary SizeDiffers = ''the files differ in size''"
| "refusal_summary NotOwned = ''the file belongs to another user''"
| "refusal_summary (HardLinked n) = ''the file has other names, and replacing one would split them''"
| "refusal_summary refusal.Executable =
     ''replacing an executable would make the system verify it again''"
| "refusal_summary refusal.Special = ''the file has flags or an ACL a replacement would drop''"
| "refusal_summary AttributesDiffer = ''the files differ in extended attributes''"
| "refusal_summary refusal.Unobserved =
     ''its flags, ACL, or extended attributes could not be read''"

fun refusal_display :: "refusal \<Rightarrow> bytes" where
  "refusal_display (HardLinked n) =
     ''the file has '' @ decimal (unat n) @ '' names and replacing one would split them''"
| "refusal_display r = refusal_summary r"

datatype pairing = Share | AlreadyShared | Refused refusal

datatype pair_verdict = Pass | Shared | Refuse refusal

fun replaces :: "share_method \<Rightarrow> bool" where
  "replaces CloneAndSwap \<longleftrightarrow> True"
| "replaces DedupeRange \<longleftrightarrow> False"

fun extras_check :: "extras \<Rightarrow> extras \<Rightarrow> pair_verdict" where
  "extras_check (extras.Plain l) (extras.Plain r) =
     (if l = r then Pass else Refuse AttributesDiffer)"
| "extras_check extras.Special _ = Refuse refusal.Special"
| "extras_check _ extras.Special = Refuse refusal.Special"
| "extras_check extras.Unobserved _ = Refuse refusal.Unobserved"
| "extras_check _ extras.Unobserved = Refuse refusal.Unobserved"

fun pair_check :: "pair_gate \<Rightarrow> file_record \<Rightarrow> file_record \<Rightarrow> pair_verdict" where
  "pair_check Distinct k d =
     (if fr_identity k = fr_identity d then Refuse SameFile else Pass)"
| "pair_check Volume k d =
     (if volume (fr_identity k) \<noteq> volume (fr_identity d) then Refuse OtherVolume else Pass)"
| "pair_check Size k d = (if fr_len k \<noteq> fr_len d then Refuse SizeDiffers else Pass)"
| "pair_check Sharing k d =
     (case (fr_sharing k, fr_sharing d) of
        (sharing.Cluster l, sharing.Cluster r) \<Rightarrow> if l = r then Shared else Pass
      | _ \<Rightarrow> Pass)"
| "pair_check Owner k d = (case fr_owner d of Caller \<Rightarrow> Pass | file_owner.Other \<Rightarrow> Refuse NotOwned)"
| "pair_check Links k d =
     (if replaces (fr_method d) \<and> 1 < fr_links d then Refuse (HardLinked (fr_links d)) else Pass)"
| "pair_check Mode k d =
     (if fr_mode d = file_mode.Executable \<and> replaces (fr_method d) then Refuse refusal.Executable
      else Pass)"
| "pair_check Extras k d =
     (if replaces (fr_method d) then extras_check (fr_extras k) (fr_extras d) else Pass)"

fun pair_from :: "pair_gate list \<Rightarrow> file_record \<Rightarrow> file_record \<Rightarrow> pairing" where
  "pair_from [] k d = Share"
| "pair_from (g # gs) k d =
     (case pair_check g k d of
        Pass \<Rightarrow> pair_from gs k d
      | Shared \<Rightarrow> AlreadyShared
      | Refuse r \<Rightarrow> Refused r)"

definition pair :: "file_record \<Rightarrow> file_record \<Rightarrow> pairing" where
  "pair k d = pair_from all_pair_gates k d"

section \<open>Groups\<close>

type_synonym member = "nat \<times> file_record"

record group =
  gr_len :: u64
  gr_members :: "member list"

definition families :: "member list \<Rightarrow> nat" where
  "families ms = length (remdups (map (record_family \<circ> snd) ms))"

definition size_key :: "member \<Rightarrow> u64 \<times> u64" where
  "size_key m = (volume (fr_identity (snd m)), fr_len (snd m))"

definition groups :: "file_record list \<Rightarrow> group list" where
  "groups items =
     (let by_size = group_by size_key id
            (filter (\<lambda>m. minimum \<le> fr_len (snd m)) (enumerate 0 items)) in
      map (\<lambda>((_, len), members). \<lparr>gr_len = len, gr_members = members\<rparr>)
        (filter (\<lambda>(_, members). 1 < families members) by_size))"

type_synonym fingerprint = bytes

definition split_group :: "group \<Rightarrow> fingerprint option list \<Rightarrow> group list" where
  "split_group g prints =
     (let by_print = group_by (\<lambda>(_, p). the p) fst
            (filter (\<lambda>(_, p). p \<noteq> None) (zip (gr_members g) prints)) in
      map (\<lambda>members. \<lparr>gr_len = gr_len g, gr_members = members\<rparr>)
        (filter (\<lambda>members. 1 < families members) (map snd by_print)))"

section \<open>The keeper and the plan\<close>

definition fixed :: "file_record \<Rightarrow> bool" where
  "fixed r \<longleftrightarrow>
     replaces (fr_method r) \<and>
     (1 < fr_links r \<or> fr_mode r = file_mode.Executable \<or>
      (case fr_extras r of extras.Plain _ \<Rightarrow> False | _ \<Rightarrow> True))"

text \<open>How many members share a member's family. The count saturates at \<open>usize\<close>, which no list
  in memory reaches.\<close>

definition family_size :: "member list \<Rightarrow> file_record \<Rightarrow> nat" where
  "family_size ms r = length (filter (\<lambda>m. record_family (snd m) = record_family r) ms)"

definition keeper_key ::
  "member list \<Rightarrow> member \<Rightarrow> nat option \<times> bool \<times> location reverse" where
  "keeper_key ms m =
     (Some (family_size ms (snd m)), fixed (snd m), Reverse (fr_location (snd m)))"

definition keeper :: "group \<Rightarrow> member option" where
  "keeper g = max_by_key (keeper_key (gr_members g)) (gr_members g)"

record pair_plan =
  pp_keeper :: member
  pp_duplicate :: member
  pp_len :: u64
  pp_pairing :: pairing

definition plan_group :: "group \<Rightarrow> pair_plan list" where
  "plan_group g =
     (case keeper g of
        None \<Rightarrow> []
      | Some kept \<Rightarrow>
          map (\<lambda>d. \<lparr>pp_keeper = kept, pp_duplicate = d, pp_len = gr_len g,
                    pp_pairing = pair (snd kept) (snd d)\<rparr>)
            (filter (\<lambda>m. fst m \<noteq> fst kept) (gr_members g)))"

definition plan :: "group list \<Rightarrow> pair_plan list" where
  "plan gs = concat (map plan_group gs)"

section \<open>Failures\<close>

datatype share_step = Open | Inspect | Read | Clone | Carry | Swap | Restore | Unlink | Dedupe

fun share_step_display :: "share_step \<Rightarrow> bytes" where
  "share_step_display share_step.Open = ''open''"
| "share_step_display share_step.Inspect = ''inspect''"
| "share_step_display Read = ''read''"
| "share_step_display Clone = ''clone''"
| "share_step_display Carry = ''carry metadata''"
| "share_step_display Swap = ''swap''"
| "share_step_display Restore = ''restore''"
| "share_step_display Unlink = ''unlink''"
| "share_step_display Dedupe = ''dedupe''"

datatype share_failure =
    KeeperChanged | DuplicateChanged | ContentDiffers | MetadataNotCarried | Leftover | Stranded
  | Io share_step io_failure

fun overtaken :: "share_failure \<Rightarrow> bool" where
  "overtaken KeeperChanged \<longleftrightarrow> True"
| "overtaken DuplicateChanged \<longleftrightarrow> True"
| "overtaken ContentDiffers \<longleftrightarrow> True"
| "overtaken MetadataNotCarried \<longleftrightarrow> False"
| "overtaken Leftover \<longleftrightarrow> False"
| "overtaken Stranded \<longleftrightarrow> False"
| "overtaken (Io s e) \<longleftrightarrow> False"

section \<open>Facts on pairs\<close>

text \<open>What stops a pair, as a pairing; \<open>AlreadyShared\<close> stops it too.\<close>

fun pair_stop :: "pair_verdict \<Rightarrow> pairing option" where
  "pair_stop Pass = None"
| "pair_stop Shared = Some AlreadyShared"
| "pair_stop (Refuse r) = Some (Refused r)"

lemma all_pair_gates_complete: "g \<in> set all_pair_gates"
  by (cases g) (simp_all add: all_pair_gates_def)

interpretation pair_gates: gate_order all_pair_gates "\<lambda>g. pair_stop (pair_check g k d)" for k d
  by unfold_locales (rule all_pair_gates_complete)

lemma pair_from_stop:
  "pair_from gs k d =
     (case first_refusal (\<lambda>g. pair_stop (pair_check g k d)) gs of None \<Rightarrow> Share | Some p \<Rightarrow> p)"
  by (induction gs) (auto split: pair_verdict.splits)

lemma pair_stop_not_share: "pair_stop v \<noteq> Some Share"
  by (cases v) auto

lemma pair_share_all: "pair k d = Share \<longleftrightarrow> (\<forall>g. pair_stop (pair_check g k d) = None)"
proof -
  have "pair k d = Share \<longleftrightarrow> first_refusal (\<lambda>g. pair_stop (pair_check g k d)) all_pair_gates = None"
    using pair_gates.refusal_is_first [of k d Share] pair_stop_not_share
    by (auto simp: pair_def pair_from_stop split: option.splits)
  then show ?thesis by (simp add: pair_gates.admitted_iff)
qed

lemma all_pair_gates_split:
  "(\<forall>g. P g) \<longleftrightarrow> P Distinct \<and> P Volume \<and> P Size \<and> P Sharing \<and> P Owner \<and> P Links \<and> P Mode \<and> P Extras"
proof -
  have "(\<forall>g. P g) \<longleftrightarrow> (\<forall>g \<in> set all_pair_gates. P g)" using pair_gates.complete by blast
  then show ?thesis by (simp add: all_pair_gates_def)
qed

lemma extras_check_pass:
  "pair_stop (extras_check k d) = None \<longleftrightarrow> (\<exists>a. k = extras.Plain a \<and> d = extras.Plain a)"
  by (cases k; cases d) auto

lemma pair_share_iff:
  "pair k d = Share \<longleftrightarrow>
     fr_identity k \<noteq> fr_identity d \<and> volume (fr_identity k) = volume (fr_identity d) \<and>
     fr_len k = fr_len d \<and>
     (\<forall>c. \<not> (fr_sharing k = sharing.Cluster c \<and> fr_sharing d = sharing.Cluster c)) \<and>
     fr_owner d = Caller \<and>
     (fr_method d = DedupeRange \<or>
      fr_links d \<le> 1 \<and> fr_mode d = file_mode.Plain \<and>
      (\<exists>a. fr_extras k = extras.Plain a \<and> fr_extras d = extras.Plain a))"
proof -
  have "pair_stop (pair_check Sharing k d) = None \<longleftrightarrow>
      (\<forall>c. \<not> (fr_sharing k = sharing.Cluster c \<and> fr_sharing d = sharing.Cluster c))"
    by (cases "fr_sharing k"; cases "fr_sharing d") auto
  moreover have "pair_stop (pair_check Owner k d) = None \<longleftrightarrow> fr_owner d = Caller"
    by (cases "fr_owner d") auto
  moreover have "pair_stop (pair_check Links k d) = None \<longleftrightarrow> \<not> replaces (fr_method d) \<or> fr_links d \<le> 1"
    by (auto simp: not_less)
  moreover have "pair_stop (pair_check Mode k d) = None \<longleftrightarrow>
      \<not> replaces (fr_method d) \<or> fr_mode d = file_mode.Plain"
    by (cases "fr_mode d") auto
  moreover have "pair_stop (pair_check Extras k d) = None \<longleftrightarrow> \<not> replaces (fr_method d) \<or>
      (\<exists>a. fr_extras k = extras.Plain a \<and> fr_extras d = extras.Plain a)"
    by (simp add: extras_check_pass)
  moreover have "replaces (fr_method d) \<longleftrightarrow> fr_method d \<noteq> DedupeRange"
    by (cases "fr_method d") auto
  ultimately show ?thesis
    unfolding pair_share_all all_pair_gates_split by auto
qed

section \<open>Facts on groups\<close>

lemma families_gt_one:
  "1 < families ms \<longleftrightarrow>
     (\<exists>m \<in> set ms. \<exists>n \<in> set ms. record_family (snd m) \<noteq> record_family (snd n))"
proof -
  let ?F = "set (map (record_family \<circ> snd) ms)"
  have "families ms = card ?F" by (simp only: families_def length_remdups_card_conv)
  moreover have "1 < card ?F \<longleftrightarrow> (\<exists>x \<in> ?F. \<exists>y \<in> ?F. x \<noteq> y)"
    by (metis List.finite_set One_nat_def card_le_Suc0_iff_eq not_less)
  ultimately show ?thesis by auto
qed

lemma groups_mem:
  "g \<in> set (groups items) \<longleftrightarrow>
     (\<exists>v. minimum \<le> gr_len g \<and>
        gr_members g = filter (\<lambda>m. size_key m = (v, gr_len g)) (enumerate 0 items) \<and>
        1 < families (gr_members g))"
    (is "?L \<longleftrightarrow> ?R")
proof -
  have nonempty: "1 < families ms \<Longrightarrow> ms \<noteq> []" for ms by (auto simp: families_def)
  have sizes: "filter (\<lambda>m. size_key m = (v, l)) (filter (\<lambda>m. minimum \<le> fr_len (snd m)) xs) =
      (if minimum \<le> l then filter (\<lambda>m. size_key m = (v, l)) xs else [])" for v l xs
    by (auto simp: size_key_def filter_empty_conv intro!: filter_cong)
  have "?L \<longleftrightarrow> (\<exists>v. ((v, gr_len g), gr_members g) \<in> set (group_by size_key id
      (filter (\<lambda>m. minimum \<le> fr_len (snd m)) (enumerate 0 items))) \<and> 1 < families (gr_members g))"
    by (cases g) (force simp: groups_def Let_def image_iff)
  also have "\<dots> \<longleftrightarrow> ?R"
    unfolding group_by_mem using nonempty by (auto simp: sizes simp del: filter_filter split: if_splits)
  finally show ?thesis .
qed

lemma split_group_mem:
  "h \<in> set (split_group g prints) \<Longrightarrow>
   gr_len h = gr_len g \<and> 1 < families (gr_members h) \<and>
   (\<exists>p. gr_members h = map fst (filter (\<lambda>(_, q). q = Some p) (zip (gr_members g) prints)))"
proof -
  assume "h \<in> set (split_group g prints)"
  then obtain k where k: "(k, gr_members h) \<in> set (group_by (\<lambda>(_, p). the p) fst
      (filter (\<lambda>(_, p). p \<noteq> None) (zip (gr_members g) prints)))"
    and rest: "gr_len h = gr_len g" "1 < families (gr_members h)"
    by (auto simp: split_group_def Let_def)
  have "filter (\<lambda>x. (case x of (_, p) \<Rightarrow> the p) = k)
      (filter (\<lambda>(_, p). p \<noteq> None) (zip (gr_members g) prints)) =
      filter (\<lambda>(_, q). q = Some k) (zip (gr_members g) prints)"
    by (auto intro!: filter_cong)
  with k rest show ?thesis unfolding group_by_mem by metis
qed

lemma keeper_mem: "keeper g = Some m \<Longrightarrow> m \<in> set (gr_members g)"
  by (auto simp: keeper_def dest: max_by_key_Some)

lemma keeper_best:
  "keeper g = Some m \<Longrightarrow> n \<in> set (gr_members g) \<Longrightarrow>
   keeper_key (gr_members g) n \<le> keeper_key (gr_members g) m"
  by (auto simp: keeper_def dest: max_by_key_Some)

lemma keeper_ex: "gr_members g \<noteq> [] \<Longrightarrow> \<exists>m. keeper g = Some m"
  unfolding keeper_def by (rule max_by_key_ex)

lemma enumerate_fst_inject:
  "m \<in> set (enumerate i xs) \<Longrightarrow> n \<in> set (enumerate i xs) \<Longrightarrow> fst m = fst n \<Longrightarrow> m = n"
  by (auto simp: in_set_enumerate_eq prod_eq_iff)

end
