(* ===== verification/Sharing_Guarantees.thy ===== *)
theory Sharing_Guarantees
  imports Sharing
begin

text \<open>
  What sharing promises: the plan replaces a file only with a file of the same volume and size,
  never one a replacement would change, and every file of a group but the kept one is planned
  exactly once.
\<close>

section \<open>Facts the guarantees share\<close>

lemma group_members_of:
  "g \<in> set (groups items) \<Longrightarrow> m \<in> set (gr_members g) \<Longrightarrow>
   fst m < length items \<and> items ! fst m = snd m \<and> fr_len (snd m) = gr_len g \<and>
   minimum \<le> gr_len g"
  by (cases m) (auto simp: groups_mem in_set_enumerate_eq size_key_def)

lemma group_members_volume:
  "g \<in> set (groups items) \<Longrightarrow> m \<in> set (gr_members g) \<Longrightarrow> n \<in> set (gr_members g) \<Longrightarrow>
   volume (fr_identity (snd m)) = volume (fr_identity (snd n))"
  by (auto simp: groups_mem size_key_def)

lemma group_members_distinct: "g \<in> set (groups items) \<Longrightarrow> distinct (map fst (gr_members g))"
  unfolding groups_mem by (auto intro!: distinct_map_filter)

lemma group_keeper: "g \<in> set (groups items) \<Longrightarrow> \<exists>m. keeper g = Some m"
  by (rule keeper_ex) (auto simp: groups_mem families_def)

lemma plan_mem:
  "p \<in> set (plan gs) \<longleftrightarrow>
     (\<exists>g \<in> set gs. keeper g = Some (pp_keeper p) \<and> pp_duplicate p \<in> set (gr_members g) \<and>
        fst (pp_duplicate p) \<noteq> fst (pp_keeper p) \<and> pp_len p = gr_len g \<and>
        pp_pairing p = pair (snd (pp_keeper p)) (snd (pp_duplicate p)))"
  by (cases p) (force simp: plan_def plan_group_def split: option.splits)

lemma mem_regroup:
  "h \<in> set (map (\<lambda>ms. \<lparr>gr_len = l, gr_members = ms\<rparr>) (filter P (map snd xs))) \<longleftrightarrow>
     gr_len h = l \<and> P (gr_members h) \<and> (\<exists>k. (k, gr_members h) \<in> set xs)"
proof (induction xs)
  case (Cons x xs)
  have "h = \<lparr>gr_len = l, gr_members = snd x\<rparr> \<longleftrightarrow> gr_len h = l \<and> gr_members h = snd x"
    by (cases h) auto
  moreover have "(k, gr_members h) = x \<longleftrightarrow> k = fst x \<and> gr_members h = snd x" for k
    by (cases x) auto
  ultimately show ?case using Cons.IH by auto
qed simp

section \<open>An inventory\<close>

text \<open>Three files of one volume: \<open>/a\<close> has another name, \<open>/b\<close> does not, \<open>/c\<close> is shorter.\<close>

definition ex_record :: "bytes \<Rightarrow> u64 \<Rightarrow> u128 \<Rightarrow> u64 \<Rightarrow> file_record" where
  "ex_record n len i links =
     \<lparr>fr_location = Location path_syntax.Unix root.Unix [Name n], fr_len = len,
      fr_identity = \<lparr>volume = 1, file_id = i\<rparr>, fr_method = CloneAndSwap, fr_links = links,
      fr_owner = Caller, fr_mode = file_mode.Plain, fr_extras = extras.Plain [],
      fr_sharing = sharing.Unknown\<rparr>"

definition ex_inventory :: "file_record list" where
  "ex_inventory = [ex_record ''b'' 65536 1 1, ex_record ''a'' 65536 2 2, ex_record ''c'' 100 3 1]"

definition ex_group :: group where
  "ex_group = \<lparr>gr_len = 65536,
     gr_members = [(0, ex_record ''b'' 65536 1 1), (1, ex_record ''a'' 65536 2 2)]\<rparr>"

definition ex_pair :: pair_plan where
  "ex_pair = \<lparr>pp_keeper = (1, ex_record ''a'' 65536 2 2),
     pp_duplicate = (0, ex_record ''b'' 65536 1 1), pp_len = 65536, pp_pairing = Share\<rparr>"

lemma ex_groups: "groups ex_inventory = [ex_group]"
  by (simp add: groups_def ex_inventory_def ex_group_def ex_record_def minimum_def group_by_def
      size_key_def families_def record_family_def)

lemma ex_keeper: "keeper ex_group = Some (1, ex_record ''a'' 65536 2 2)"
  by (simp add: keeper_def ex_group_def keeper_key_def family_size_def ex_record_def
      record_family_def fixed_def less_prod_def less_eq_prod_def)

lemma ex_plan: "plan (groups ex_inventory) = [ex_pair]"
  unfolding ex_groups
  by (simp add: plan_def plan_group_def ex_keeper)
    (simp add: ex_group_def ex_pair_def pair_share_iff ex_record_def)

section \<open>The guarantees\<close>

text \<open>A pair is shared exactly when the two names are different files of one volume
  and one length that do not already share their blocks, the duplicate belongs to the caller, and
  a replacement, when the volume shares by replacing, would lose nothing: no other name, no
  executable, no flags or ACL, equal and observed extended attributes.\<close>

theorem pair_shares_exactly:
  "pair k d = Share \<longleftrightarrow>
     fr_identity k \<noteq> fr_identity d \<and> volume (fr_identity k) = volume (fr_identity d) \<and>
     fr_len k = fr_len d \<and>
     \<not> (\<exists>c. fr_sharing k = sharing.Cluster c \<and> fr_sharing d = sharing.Cluster c) \<and>
     fr_owner d = Caller \<and>
     (fr_method d = DedupeRange \<or>
        \<not> fixed d \<and> (\<exists>a. fr_extras k = extras.Plain a \<and> fr_extras d = extras.Plain a))"
proof -
  have "replaces (fr_method d) \<longleftrightarrow> fr_method d \<noteq> DedupeRange" by (cases "fr_method d") auto
  moreover have "fr_mode d = file_mode.Plain \<longleftrightarrow> fr_mode d \<noteq> file_mode.Executable"
    by (cases "fr_mode d") auto
  ultimately show ?thesis unfolding pair_share_iff fixed_def by (auto simp: not_less)
qed

text \<open>Every pair the plan shares joins two records of the inventory at different
  positions, of different identity, on one volume, both of the planned length, which is at least
  the minimum; the duplicate belongs to the caller and nothing a replacement would drop is
  dropped.\<close>

theorem planned_share_is_safe:
  assumes "p \<in> set (plan (groups items))" and "pp_pairing p = Share"
  shows "fst (pp_keeper p) < length items \<and> items ! fst (pp_keeper p) = snd (pp_keeper p) \<and>
    fst (pp_duplicate p) < length items \<and> items ! fst (pp_duplicate p) = snd (pp_duplicate p) \<and>
    fr_identity (snd (pp_keeper p)) \<noteq> fr_identity (snd (pp_duplicate p)) \<and>
    volume (fr_identity (snd (pp_keeper p))) = volume (fr_identity (snd (pp_duplicate p))) \<and>
    fr_len (snd (pp_keeper p)) = pp_len p \<and> fr_len (snd (pp_duplicate p)) = pp_len p \<and>
    minimum \<le> pp_len p \<and> fr_owner (snd (pp_duplicate p)) = Caller \<and>
    \<not> fixed (snd (pp_duplicate p))"
proof -
  from assms(1) obtain g where g: "g \<in> set (groups items)"
    "keeper g = Some (pp_keeper p)" "pp_duplicate p \<in> set (gr_members g)" "pp_len p = gr_len g"
    "pp_pairing p = pair (snd (pp_keeper p)) (snd (pp_duplicate p))"
    unfolding plan_mem by blast
  from g(5) assms(2) have "pair (snd (pp_keeper p)) (snd (pp_duplicate p)) = Share" by simp
  note share = this [unfolded pair_share_iff]
  have "\<not> fixed (snd (pp_duplicate p))" using share by (auto simp: fixed_def)
  with share group_members_of [OF g(1) keeper_mem [OF g(2)]] group_members_of [OF g(1,3)] g(4)
  show ?thesis by simp
qed

theorem planned_share_is_safe_witness:
  "minimum \<le> pp_len ex_pair \<and> \<not> fixed (snd (pp_duplicate ex_pair))"
  using planned_share_is_safe [of ex_pair ex_inventory] by (simp add: ex_plan ex_pair_def)

text \<open>Of each group, exactly one member is kept; the plan pairs it with every other
  member, each once, in the group's order, and never with itself.\<close>

theorem plan_covers_group:
  assumes "g \<in> set (groups items)"
  shows "\<exists>before kept after. gr_members g = before @ kept # after \<and>
    map pp_duplicate (plan_group g) = before @ after \<and>
    (\<forall>p \<in> set (plan_group g). pp_keeper p = kept) \<and> kept \<notin> set (before @ after)"
proof -
  from group_keeper [OF assms] obtain kept where kept: "keeper g = Some kept" by blast
  from split_list [OF keeper_mem [OF kept]] obtain before after
    where split: "gr_members g = before @ kept # after" by blast
  have "distinct (map fst (before @ kept # after))"
    using group_members_distinct [OF assms] split by simp
  then have "fst kept \<notin> fst ` set (before @ after)" by auto
  then have clean: "\<forall>m \<in> set (before @ after). fst m \<noteq> fst kept" by (metis image_eqI)
  then have "filter (\<lambda>m. fst m \<noteq> fst kept) (gr_members g) = before @ after"
    by (simp add: split)
  then have "map pp_duplicate (plan_group g) = before @ after"
    by (simp add: plan_group_def kept comp_def)
  moreover have "\<forall>p \<in> set (plan_group g). pp_keeper p = kept"
    by (simp add: plan_group_def kept)
  ultimately show ?thesis using split clean by blast
qed

theorem plan_covers_group_witness:
  "\<exists>before kept after. gr_members ex_group = before @ kept # after \<and>
     map pp_duplicate (plan_group ex_group) = before @ after"
  using plan_covers_group [of ex_group ex_inventory] by (auto simp: ex_groups)

text \<open>Two records of the inventory stand in one group exactly when they have the same
  volume and the same length, the length is at least the minimum, and the records of that volume
  and length belong to more than one family of shared blocks; no record stands in two groups.\<close>

theorem grouped_together_exactly:
  assumes "i < length items" and "j < length items"
  shows "((\<exists>g \<in> set (groups items).
        (i, items ! i) \<in> set (gr_members g) \<and> (j, items ! j) \<in> set (gr_members g)) \<longleftrightarrow>
      size_key (i, items ! i) = size_key (j, items ! j) \<and> minimum \<le> fr_len (items ! i) \<and>
      (\<exists>a < length items. \<exists>b < length items.
         size_key (a, items ! a) = size_key (i, items ! i) \<and>
         size_key (b, items ! b) = size_key (i, items ! i) \<and>
         record_family (items ! a) \<noteq> record_family (items ! b))) \<and>
    (\<forall>g \<in> set (groups items). \<forall>h \<in> set (groups items).
       (i, items ! i) \<in> set (gr_members g) \<and> (i, items ! i) \<in> set (gr_members h) \<longrightarrow> g = h)"
    (is "(?L \<longleftrightarrow> ?R) \<and> ?U")
proof (intro conjI)
  have mem: "(n, r) \<in> set (enumerate 0 items) \<longleftrightarrow> n < length items \<and> items ! n = r" for n r
    by (simp add: in_set_enumerate_eq)
  let ?k = "size_key (i, items ! i)"
  let ?ms = "filter (\<lambda>m. size_key m = ?k) (enumerate 0 items)"
  have fam: "1 < families ?ms \<longleftrightarrow> (\<exists>a < length items. \<exists>b < length items.
      size_key (a, items ! a) = ?k \<and> size_key (b, items ! b) = ?k \<and>
      record_family (items ! a) \<noteq> record_family (items ! b))"
    unfolding families_gt_one by (auto simp: mem Bex_def)
  have k: "?k = (v, l) \<Longrightarrow> l = fr_len (items ! i)" for v l by (simp add: size_key_def)
  show "?L \<longleftrightarrow> ?R"
  proof
    assume ?L
    then obtain g where g: "g \<in> set (groups items)" "(i, items ! i) \<in> set (gr_members g)"
      "(j, items ! j) \<in> set (gr_members g)" by blast
    then obtain v where v: "minimum \<le> gr_len g" "1 < families (gr_members g)"
      "gr_members g = filter (\<lambda>m. size_key m = (v, gr_len g)) (enumerate 0 items)"
      unfolding groups_mem by blast
    with g have "?k = (v, gr_len g)" "size_key (j, items ! j) = (v, gr_len g)" by auto
    with v k [of v "gr_len g"] have "gr_members g = ?ms" "minimum \<le> fr_len (items ! i)" by simp_all
    with v(2) fam \<open>?k = _\<close> \<open>size_key (j, items ! j) = _\<close> show ?R by simp
  next
    assume r: ?R
    let ?g = "\<lparr>gr_len = fr_len (items ! i), gr_members = ?ms\<rparr>"
    have "?g \<in> set (groups items)"
    proof -
      have "1 < families ?ms" "minimum \<le> fr_len (items ! i)" using r fam by blast+
      moreover have "?k = (volume (fr_identity (items ! i)), fr_len (items ! i))"
        by (simp add: size_key_def)
      ultimately show ?thesis unfolding groups_mem by (simp del: One_nat_def) blast
    qed
    moreover have "(i, items ! i) \<in> set ?ms" "(j, items ! j) \<in> set ?ms"
      using assms r by (auto simp: mem)
    ultimately show ?L by (intro bexI [of _ ?g]) simp_all
  qed
  show ?U
  proof (intro ballI impI)
    fix g h assume "g \<in> set (groups items)" "h \<in> set (groups items)"
      "(i, items ! i) \<in> set (gr_members g) \<and> (i, items ! i) \<in> set (gr_members h)"
    then have "gr_members g = ?ms" "gr_members h = ?ms" "gr_len g = gr_len h"
      by (auto simp: groups_mem)
    then show "g = h" by simp
  qed
qed

theorem grouped_together_exactly_witness:
  "\<exists>a < length ex_inventory. \<exists>b < length ex_inventory.
     record_family (ex_inventory ! a) \<noteq> record_family (ex_inventory ! b)"
proof -
  have "0 < length ex_inventory" "1 < length ex_inventory" by (simp_all add: ex_inventory_def)
  note exactly = grouped_together_exactly [OF this]
  have "\<exists>g \<in> set (groups ex_inventory). (0, ex_inventory ! 0) \<in> set (gr_members g) \<and>
      (1, ex_inventory ! 1) \<in> set (gr_members g)"
    by (simp add: ex_groups) (simp add: ex_group_def ex_inventory_def)
  with exactly show ?thesis by blast
qed

text \<open>After reading, the groups a size group splits into hold exactly the members
  whose fingerprint was read, together with the members of the same fingerprint, whenever those
  belong to more than one family; a member whose content could not be read stands in none.\<close>

theorem split_exactly:
  "h \<in> set (split_group g prints) \<longleftrightarrow>
     gr_len h = gr_len g \<and> 1 < families (gr_members h) \<and>
     (\<exists>p. gr_members h = map fst (filter (\<lambda>(_, q). q = Some p) (zip (gr_members g) prints)))"
proof -
  let ?kept = "filter (\<lambda>(_, p). p \<noteq> None) (zip (gr_members g) prints)"
  have same: "filter (\<lambda>x. (case x of (_, p) \<Rightarrow> the p) = k) ?kept =
      filter (\<lambda>(_, q). q = Some k) (zip (gr_members g) prints)" for k
    by (auto intro!: filter_cong)
  have "h \<in> set (split_group g prints) \<longleftrightarrow> gr_len h = gr_len g \<and> 1 < families (gr_members h) \<and>
      (\<exists>k. (k, gr_members h) \<in> set (group_by (\<lambda>(_, p). the p) fst ?kept))"
    unfolding split_group_def Let_def by (rule mem_regroup)
  moreover have "1 < families ms \<Longrightarrow> ms \<noteq> []" for ms by (auto simp: families_def)
  ultimately show ?thesis unfolding group_by_mem same by blast
qed

text \<open>The kept member belongs to a largest family of its group, so the most blocks
  stay shared; among those, one that cannot be replaced is kept before one that can; and among
  those, the one whose location comes first.\<close>

theorem keeper_chosen:
  assumes "keeper g = Some k" and "m \<in> set (gr_members g)"
  shows "family_size (gr_members g) (snd m) \<le> family_size (gr_members g) (snd k) \<and>
    (family_size (gr_members g) (snd m) = family_size (gr_members g) (snd k) \<longrightarrow>
       (fixed (snd m) \<longrightarrow> fixed (snd k)) \<and>
       (fixed (snd m) = fixed (snd k) \<longrightarrow> fr_location (snd k) \<le> fr_location (snd m)))"
  using keeper_best [OF assms]
  by (auto simp: keeper_key_def less_eq_prod_def less_prod_def less_eq_reverse_def less_reverse_def)

theorem keeper_chosen_witness:
  "family_size (gr_members ex_group) (ex_record ''b'' 65536 1 1) \<le>
     family_size (gr_members ex_group) (ex_record ''a'' 65536 2 2)"
  using keeper_chosen [OF ex_keeper, of "(0, ex_record ''b'' 65536 1 1)"] by (simp add: ex_group_def)

end
