(* ===== verification/Pruning.thy ===== *)
theory Pruning
  imports Locations Checked_Words Ordered_Maps
begin

text \<open>
  What a prune of a Rust target directory can delete inside it
  (\<open>crates/core/src/prune.rs\<close>): debug objects of an earlier compiler run, and incremental
  sessions the compiler has superseded or abandoned.
\<close>

definition object_suffix :: bytes where
  "object_suffix = ''.rcgu.o''"

definition lock_suffix :: bytes where
  "lock_suffix = ''.lock''"

datatype prune_rule = StaleObject | SupersededSession | AbandonedSession

fun prune_rule_purpose :: "prune_rule \<Rightarrow> bytes" where
  "prune_rule_purpose StaleObject =
     ''debug object of an earlier rustc run that the unit's linked image no longer names''"
| "prune_rule_purpose SupersededSession =
     ''incremental session older than the one rustc loads next and deletes the rest''"
| "prune_rule_purpose AbandonedSession =
     ''incremental session whose rustc ended before finishing it''"

section \<open>Debug objects\<close>

record object =
  ob_name :: bytes
  ob_unit :: bytes
  ob_invocation :: bytes

definition object_parse :: "bytes \<Rightarrow> object option" where
  "object_parse name =
     (case strip_suffix object_suffix name of
        None \<Rightarrow> None
      | Some stem \<Rightarrow>
          (case split_on (\<lambda>b. b = CHR ''.'') stem of
             [unit, unit_part, invocation] \<Rightarrow>
               if unit = [] \<or> unit_part = [] \<or> invocation = [] then None
               else Some \<lparr>ob_name = name, ob_unit = unit, ob_invocation = invocation\<rparr>
           | _ \<Rightarrow> None))"

text \<open>The units, in ascending order, whose objects come from more than one invocation.\<close>

definition mixed :: "object list \<Rightarrow> bytes list" where
  "mixed objects =
     map fst (filter (\<lambda>(_, seen). 1 < length (remdups seen)) (group_by ob_unit ob_invocation objects))"

definition images :: "bytes \<Rightarrow> bytes list" where
  "images unit = [unit, ''lib'' @ unit @ ''.dylib'']"

definition stale :: "object \<Rightarrow> bytes \<Rightarrow> bytes set \<Rightarrow> bool" where
  "stale object unit referenced \<longleftrightarrow> ob_unit object = unit \<and> ob_name object \<notin> referenced"

section \<open>Incremental sessions\<close>

datatype stage = Finalized u128 | Working

record session =
  se_name :: bytes
  se_lock :: bytes
  se_stage :: stage

definition base36_digit :: "char \<Rightarrow> nat option" where
  "base36_digit c =
     (if CHR ''0'' \<le> c \<and> c \<le> CHR ''9'' then Some (code c - 48)
      else if CHR ''a'' \<le> c \<and> c \<le> CHR ''z'' then Some (code c - 97 + 10)
      else None)"

fun base36_from :: "u128 \<Rightarrow> bytes \<Rightarrow> u128 option" where
  "base36_from value [] = Some value"
| "base36_from value (digit # digits) =
     (case base36_digit digit of
        None \<Rightarrow> None
      | Some d \<Rightarrow>
          (case checked_mul value 36 of
             None \<Rightarrow> None
           | Some v \<Rightarrow>
               (case checked_add v (of_nat d) of
                  None \<Rightarrow> None
                | Some v \<Rightarrow> base36_from v digits)))"

definition base36 :: "bytes \<Rightarrow> u128 option" where
  "base36 digits = (if digits = [] then None else base36_from 0 digits)"

text \<open>The index of \<open>str::get\<close> in \<open>Session::parse\<close> lies before a hyphen, so it is a
  character boundary.\<close>

definition session_parse :: "bytes \<Rightarrow> session option" where
  "session_parse name =
     (case split_on (\<lambda>b. b = CHR ''-'') name of
        [s, stamp, random, final] \<Rightarrow>
          if s \<noteq> ''s'' then None
          else if base36 random = None then None
          else (case base36 stamp of
              None \<Rightarrow> None
            | Some st \<Rightarrow>
                (case (if final = ''working'' then Some Working
                       else map_option (\<lambda>_. Finalized st) (base36 final)) of
                   None \<Rightarrow> None
                 | Some stg \<Rightarrow>
                     if length name < length final + 1 then None
                     else Some \<lparr>se_name = name, se_lock = take (length name - length final - 1) name,
                                se_stage = stg\<rparr>))
      | _ \<Rightarrow> None)"

definition lock_name_bytes :: "bytes \<Rightarrow> location_error + name" where
  "lock_name_bytes lock = name_new (lock @ lock_suffix) path_syntax.Windows"

definition lock_name :: "session \<Rightarrow> location_error + name" where
  "lock_name s = lock_name_bytes (se_lock s)"

fun finalized_stamp :: "session \<Rightarrow> u128 option" where
  "finalized_stamp s = (case se_stage s of Finalized stamp \<Rightarrow> Some stamp | Working \<Rightarrow> None)"

definition newest_stamp :: "session list \<Rightarrow> u128 option" where
  "newest_stamp sessions = max_by_key id (List.map_filter finalized_stamp sessions)"

definition doom :: "u128 option \<Rightarrow> session \<Rightarrow> (session \<times> prune_rule) option" where
  "doom newest s =
     (case (se_stage s, newest) of
        (Working, _) \<Rightarrow> Some (s, AbandonedSession)
      | (Finalized stamp, Some n) \<Rightarrow> if stamp < n then Some (s, SupersededSession) else None
      | (Finalized _, None) \<Rightarrow> None)"

definition doomed :: "session list \<Rightarrow> (session \<times> prune_rule) list" where
  "doomed sessions = List.map_filter (doom (newest_stamp sessions)) sessions"

section \<open>Facts\<close>

lemma object_parse_Some:
  "object_parse name = Some ob \<longleftrightarrow>
     (\<exists>part. name = ob_unit ob @ ''.'' @ part @ ''.'' @ ob_invocation ob @ object_suffix \<and>
        ob_name ob = name \<and> ob_unit ob \<noteq> [] \<and> part \<noteq> [] \<and> ob_invocation ob \<noteq> [] \<and>
        CHR ''.'' \<notin> set (ob_unit ob) \<union> set part \<union> set (ob_invocation ob))"
    (is "?L \<longleftrightarrow> ?R")
proof
  assume ?L
  then obtain stem unit part inv where "strip_suffix object_suffix name = Some stem"
    "split_on (\<lambda>b. b = CHR ''.'') stem = [unit, part, inv]" "unit \<noteq> []" "part \<noteq> []" "inv \<noteq> []"
    "ob = \<lparr>ob_name = name, ob_unit = unit, ob_invocation = inv\<rparr>"
    by (auto simp: object_parse_def split: option.splits list.splits if_splits)
  then show ?R by (auto simp: strip_suffix_Some split_on_iff)
next
  assume ?R
  then obtain part where part: "name = ob_unit ob @ ''.'' @ part @ ''.'' @ ob_invocation ob @ object_suffix"
    "ob_name ob = name" "ob_unit ob \<noteq> []" "part \<noteq> []" "ob_invocation ob \<noteq> []"
    "CHR ''.'' \<notin> set (ob_unit ob) \<union> set part \<union> set (ob_invocation ob)" by blast
  then have "strip_suffix object_suffix name = Some (ob_unit ob @ ''.'' @ part @ ''.'' @ ob_invocation ob)"
    by (simp add: strip_suffix_Some)
  moreover have "split_on (\<lambda>b. b = CHR ''.'') (ob_unit ob @ ''.'' @ part @ ''.'' @ ob_invocation ob) =
      [ob_unit ob, part, ob_invocation ob]"
    unfolding split_on_iff using part(6) by auto
  ultimately show ?L using part by (simp add: object_parse_def)
qed

lemma mixed_mem:
  "u \<in> set (mixed objects) \<longleftrightarrow>
     (\<exists>a \<in> set objects. \<exists>b \<in> set objects.
        ob_unit a = u \<and> ob_unit b = u \<and> ob_invocation a \<noteq> ob_invocation b)"
proof -
  have many: "1 < length (remdups xs) \<longleftrightarrow> (\<exists>x \<in> set xs. \<exists>y \<in> set xs. x \<noteq> y)" for xs :: "bytes list"
    by (metis List.finite_set One_nat_def card_le_Suc0_iff_eq length_remdups_card_conv not_less)
  have "u \<in> set (mixed objects) \<longleftrightarrow>
      (\<exists>seen. (u, seen) \<in> set (group_by ob_unit ob_invocation objects) \<and> 1 < length (remdups seen))"
    by (force simp: mixed_def)
  then show ?thesis unfolding group_by_mem many by (auto simp: filter_empty_conv)
qed

lemma finalized_stamp_Some: "finalized_stamp s = Some n \<longleftrightarrow> se_stage s = Finalized n"
  by (simp split: stage.splits)

lemma newest_stamp_None: "newest_stamp ss = None \<longleftrightarrow> (\<forall>s \<in> set ss. finalized_stamp s = None)"
  by (auto simp: newest_stamp_def map_filter_def filter_empty_conv)

lemma newest_stamp_Some:
  "newest_stamp ss = Some n \<Longrightarrow>
     (\<exists>s \<in> set ss. finalized_stamp s = Some n) \<and>
     (\<forall>s \<in> set ss. \<forall>t. finalized_stamp s = Some t \<longrightarrow> t \<le> n)"
  by (force simp: newest_stamp_def map_filter_def dest!: max_by_key_Some)

text \<open>The exact value of base-36 digits.\<close>

definition base36_value :: "nat \<Rightarrow> bytes \<Rightarrow> nat" where
  "base36_value acc digits = foldl (\<lambda>v c. v * 36 + the (base36_digit c)) acc digits"

lemma base36_digit_bound: "base36_digit c = Some d \<Longrightarrow> d < 36"
  by (auto simp: base36_digit_def less_eq_char_def split: if_splits)

lemma base36_value_mono: "acc \<le> base36_value acc digits"
proof (induction digits arbitrary: acc)
  case (Cons c cs)
  have "acc \<le> acc * 36 + the (base36_digit c)" by simp
  also have "\<dots> \<le> base36_value (acc * 36 + the (base36_digit c)) cs" by (rule Cons.IH)
  finally show ?case by (simp add: base36_value_def)
qed (simp add: base36_value_def)

lemma base36_value_Cons:
  "base36_value acc (c # cs) = base36_value (acc * 36 + the (base36_digit c)) cs"
  by (simp add: base36_value_def)

lemma base36_from_Some:
  "base36_from acc digits = Some v \<longleftrightarrow>
     (\<forall>c \<in> set digits. base36_digit c \<noteq> None) \<and> unat v = base36_value (unat acc) digits"
proof (induction acc digits rule: base36_from.induct)
  case (1 acc)
  then show ?case by (auto simp: base36_value_def word_unat_eq_iff)
next
  case (2 acc digit digits)
  show ?case
  proof (cases "base36_digit digit")
    case (Some d)
    then have d: "unat (of_nat d :: u128) = d"
      using base36_digit_bound [of digit d] by (simp add: unat_of_nat)
    let ?n = "unat acc * 36 + d"
    show ?thesis
    proof (cases "?n < 2 ^ 128")
      case True
      then have "unat (of_nat ?n :: u128) = ?n" by (simp add: unat_of_nat del: of_nat_add of_nat_mult)
      moreover have "checked_mul acc 36 = Some (acc * 36)"
        using True by (simp add: checked_mul_def)
      moreover have "unat (acc * 36) = unat acc * 36"
        using True by (simp add: unat_word_ariths)
      then have "checked_add (acc * 36) (of_nat d) = Some (of_nat ?n)"
        unfolding checked_add_Some d using \<open>unat (of_nat ?n :: u128) = ?n\<close> by simp
      ultimately show ?thesis
        using 2 Some by (simp add: base36_value_Cons)
    next
      case False
      then have "\<not> base36_value (unat acc) (digit # digits) < 2 ^ 128"
        using base36_value_mono [of ?n digits] Some by (simp add: base36_value_Cons)
      moreover have "unat v < 2 ^ 128" using unsigned_less [of v] by simp
      moreover have "base36_from acc (digit # digits) = None"
      proof (cases "checked_mul acc 36")
        case (Some w)
        then have "unat w = unat acc * 36" by (simp add: checked_mul_Some)
        then have "2 ^ LENGTH(128) \<le> unat w + unat (of_nat d :: u128)" using False d by simp
        then have "checked_add w (of_nat d) = None" unfolding checked_add_None .
        then show ?thesis using Some \<open>base36_digit digit = Some d\<close> by simp
      qed (use Some in simp)
      ultimately show ?thesis by auto
    qed
  qed simp
qed

lemma base36_Some:
  "base36 digits = Some v \<longleftrightarrow>
     digits \<noteq> [] \<and> (\<forall>c \<in> set digits. base36_digit c \<noteq> None) \<and> unat v = base36_value 0 digits"
  by (simp add: base36_def base36_from_Some)

lemma base36_no_hyphen: "base36 digits = Some v \<Longrightarrow> CHR ''-'' \<notin> set digits"
proof
  assume "base36 digits = Some v" "CHR ''-'' \<in> set digits"
  then have "base36_digit CHR ''-'' \<noteq> None" unfolding base36_Some by blast
  then show False by (simp add: base36_digit_def)
qed

lemma take_before: "take (length (xs @ c # ys) - length ys - 1) (xs @ c # ys) = xs"
  by simp

lemma session_parse_Some:
  "session_parse name = Some s \<longleftrightarrow>
     (\<exists>stamp random final v. name = ''s-'' @ stamp @ ''-'' @ random @ ''-'' @ final \<and>
        base36 stamp = Some v \<and> base36 random \<noteq> None \<and>
        (final = ''working'' \<and> se_stage s = Working \<or>
         final \<noteq> ''working'' \<and> base36 final \<noteq> None \<and> se_stage s = Finalized v) \<and>
        se_name s = name \<and> se_lock s = ''s-'' @ stamp @ ''-'' @ random)"
    (is "?L \<longleftrightarrow> ?R")
proof
  assume ?L
  then obtain a stamp random final v where parts: "split_on (\<lambda>b. b = CHR ''-'') name = [a, stamp, random, final]"
    and rest: "a = ''s''" "base36 random \<noteq> None" "base36 stamp = Some v"
      "se_name s = name" "se_lock s = take (length name - length final - 1) name"
      "final = ''working'' \<and> se_stage s = Working \<or>
       final \<noteq> ''working'' \<and> base36 final \<noteq> None \<and> se_stage s = Finalized v"
    by (auto simp: session_parse_def split: option.splits list.splits if_splits)
  then have name: "name = ''s-'' @ stamp @ ''-'' @ random @ ''-'' @ final"
    by (auto simp: split_on_iff)
  then have "se_lock s = ''s-'' @ stamp @ ''-'' @ random"
    using rest(5) take_before [of "''s-'' @ stamp @ ''-'' @ random" "CHR ''-''" final] by simp
  with name rest show ?R by blast
next
  assume ?R
  then obtain stamp random final v where
    name: "name = ''s-'' @ stamp @ ''-'' @ random @ ''-'' @ final" and
    rest: "base36 stamp = Some v" "base36 random \<noteq> None" "se_name s = name"
      "se_lock s = ''s-'' @ stamp @ ''-'' @ random"
      "final = ''working'' \<and> se_stage s = Working \<or>
       final \<noteq> ''working'' \<and> base36 final \<noteq> None \<and> se_stage s = Finalized v" by blast
  have "CHR ''-'' \<notin> set stamp" "CHR ''-'' \<notin> set random" "CHR ''-'' \<notin> set final"
    using rest base36_no_hyphen by auto
  then have "split_on (\<lambda>b. b = CHR ''-'') name = [''s'', stamp, random, final]"
    unfolding split_on_iff by (simp add: name)
  moreover have "take (length name - length final - 1) name = se_lock s"
    using rest(4) take_before [of "''s-'' @ stamp @ ''-'' @ random" "CHR ''-''" final]
    by (simp add: name)
  moreover have "\<not> length name < length final + 1" by (simp add: name)
  moreover have "s = \<lparr>se_name = name, se_lock = se_lock s, se_stage = se_stage s\<rparr>"
    using rest(3) by simp
  ultimately show ?L using rest unfolding session_parse_def by auto
qed

end
