(* ===== verification/Pruning_Guarantees.thy ===== *)
theory Pruning_Guarantees
  imports Pruning
begin

text \<open>
  What a prune may take: sessions the compiler superseded or abandoned and no other, under the
  lock name the compiler uses; and debug objects attributed to a unit by their name.
\<close>

lemma base36_digits: "base36 digits = Some v \<Longrightarrow> \<forall>c \<in> set digits. is_ascii_digit c \<or> is_ascii_lower c"
  by (auto simp: base36_Some base36_digit_def is_ascii_digit_def is_ascii_lower_def
      less_eq_char_def split: if_splits)

lemma lock_clean:
  assumes "\<forall>c \<in> set a. is_ascii_digit c \<or> is_ascii_lower c"
  shows "\<not> list_ex (\<lambda>b. code b = 0 \<or> is_separator path_syntax.Windows b) a"
  using assms by (auto simp: list_ex_iff is_ascii_digit_def is_ascii_lower_def)

lemma doom_Some:
  "doom newest s = Some (t, r) \<longleftrightarrow> t = s \<and>
     (r = AbandonedSession \<and> se_stage s = Working \<or>
      r = SupersededSession \<and> (\<exists>stamp n. se_stage s = Finalized stamp \<and> newest = Some n \<and> stamp < n))"
  by (auto simp: doom_def split: stage.splits option.splits)

text \<open>The checked fold of \<open>base36\<close> yields exactly the value the digits denote, and
  refuses exactly the empty text, a byte outside \<open>0-9a-z\<close>, and a value of \<open>2^128\<close> or more.\<close>

theorem base36_exactly:
  "base36 digits =
     (if digits \<noteq> [] \<and> (\<forall>c \<in> set digits. is_ascii_digit c \<or> is_ascii_lower c) \<and>
         base36_value 0 digits < 2 ^ 128
      then Some (of_nat (base36_value 0 digits)) else None)"
proof -
  have digit: "base36_digit c \<noteq> None \<longleftrightarrow> is_ascii_digit c \<or> is_ascii_lower c" for c
    by (auto simp: base36_digit_def is_ascii_digit_def is_ascii_lower_def less_eq_char_def)
  show ?thesis
  proof (cases "base36 digits")
    case (Some v)
    then have "base36_value 0 digits = unat v" "digits \<noteq> []"
      "\<forall>c \<in> set digits. base36_digit c \<noteq> None" by (simp_all add: base36_Some)
    moreover have "unat v < 2 ^ 128" using unsigned_less [of v] by simp
    ultimately show ?thesis unfolding Some digit by simp
  next
    case None
    have "\<not> (digits \<noteq> [] \<and> (\<forall>c \<in> set digits. base36_digit c \<noteq> None) \<and>
        base36_value 0 digits < 2 ^ 128)"
    proof
      assume "digits \<noteq> [] \<and> (\<forall>c \<in> set digits. base36_digit c \<noteq> None) \<and>
        base36_value 0 digits < 2 ^ 128"
      then have "base36 digits = Some (of_nat (base36_value 0 digits))"
        unfolding base36_Some by (simp add: unat_of_nat)
      with None show False by simp
    qed
    with None show ?thesis unfolding digit by auto
  qed
qed

theorem base36_exactly_witness: "base36 ''z1'' = Some 1261 \<and> base36 ''Z'' = None"
  unfolding base36_exactly
  by (simp add: base36_value_def base36_digit_def less_eq_char_def is_ascii_digit_def is_ascii_lower_def)

text \<open>A directory name is a session exactly when it reads
  \<open>s-<stamp>-<random>-<hash or working>\<close> with base-36 parts, and then its lock is the name
  without the last part, and \<open><lock>.lock\<close> is a valid file name of the directory.\<close>

theorem session_lock_valid:
  assumes "session_parse name = Some s"
  shows "lock_name s = Inr (Name (se_lock s @ ''.lock'')) \<and>
    (\<exists>stamp random final. se_lock s = ''s-'' @ stamp @ ''-'' @ random \<and>
       name = se_lock s @ ''-'' @ final \<and> CHR ''-'' \<notin> set final \<and>
       base36 stamp \<noteq> None \<and> base36 random \<noteq> None \<and>
       (se_stage s = Working \<longleftrightarrow> final = ''working'') \<and>
       (\<forall>v. se_stage s = Finalized v \<longrightarrow> base36 stamp = Some v \<and> base36 final \<noteq> None))"
proof -
  from assms obtain stamp random final v where
    p: "name = ''s-'' @ stamp @ ''-'' @ random @ ''-'' @ final" "base36 stamp = Some v"
      "base36 random \<noteq> None" "se_lock s = ''s-'' @ stamp @ ''-'' @ random"
      "final = ''working'' \<and> se_stage s = Working \<or>
       final \<noteq> ''working'' \<and> base36 final \<noteq> None \<and> se_stage s = Finalized v"
    unfolding session_parse_Some by blast
  have clean: "\<not> list_ex (\<lambda>b. code b = 0 \<or> is_separator path_syntax.Windows b) stamp"
    "\<not> list_ex (\<lambda>b. code b = 0 \<or> is_separator path_syntax.Windows b) random"
    using p(2,3) base36_digits lock_clean by blast+
  have "lock_name s = Inr (Name (se_lock s @ ''.lock''))"
    unfolding lock_name_def lock_name_bytes_def name_new_def lock_suffix_def p(4)
    using clean by simp
  moreover have "CHR ''-'' \<notin> set final" using p(5) base36_no_hyphen by auto
  ultimately show ?thesis using p
    by (intro conjI exI [of _ stamp] exI [of _ random] exI [of _ final]) auto
qed

theorem session_lock_valid_witness:
  "\<exists>s. session_parse ''s-abc-12-working'' = Some s \<and> lock_name s = Inr (Name ''s-abc-12.lock'')"
proof -
  let ?s = "\<lparr>se_name = ''s-abc-12-working'', se_lock = ''s-abc-12'', se_stage = Working\<rparr>"
  have "session_parse ''s-abc-12-working'' = Some ?s"
    by (simp add: session_parse_def base36_def base36_digit_def checked_mul_def checked_add_def
        less_eq_char_def)
  with session_lock_valid [OF this] show ?thesis by auto
qed

text \<open>The sessions a prune dooms are exactly the working ones, as abandoned, and the
  finalized ones older than another finalized one, as superseded.\<close>

theorem doomed_exactly:
  "(s, r) \<in> set (doomed sessions) \<longleftrightarrow> s \<in> set sessions \<and>
     (r = AbandonedSession \<and> se_stage s = Working \<or>
      r = SupersededSession \<and>
        (\<exists>stamp. se_stage s = Finalized stamp \<and>
           (\<exists>t \<in> set sessions. \<exists>later. se_stage t = Finalized later \<and> stamp < later)))"
proof -
  note stamp = finalized_stamp_Some
  have newest: "(\<exists>n. newest_stamp sessions = Some n \<and> m < n) \<longleftrightarrow>
      (\<exists>t \<in> set sessions. \<exists>later. se_stage t = Finalized later \<and> m < later)" for m
  proof
    assume "\<exists>n. newest_stamp sessions = Some n \<and> m < n"
    then show "\<exists>t \<in> set sessions. \<exists>later. se_stage t = Finalized later \<and> m < later"
      using newest_stamp_Some stamp by metis
  next
    assume "\<exists>t \<in> set sessions. \<exists>later. se_stage t = Finalized later \<and> m < later"
    then obtain t later where t: "t \<in> set sessions" "finalized_stamp t = Some later" "m < later"
      using stamp by blast
    then have "newest_stamp sessions \<noteq> None" unfolding newest_stamp_None by auto
    then obtain n where n: "newest_stamp sessions = Some n" by blast
    with t newest_stamp_Some have "later \<le> n" by blast
    with n t(3) show "\<exists>n. newest_stamp sessions = Some n \<and> m < n" by auto
  qed
  have "(s, r) \<in> set (doomed sessions) \<longleftrightarrow>
      (\<exists>t \<in> set sessions. doom (newest_stamp sessions) t = Some (s, r))"
    by (force simp: doomed_def map_filter_def)
  also have "\<dots> \<longleftrightarrow> s \<in> set sessions \<and>
     (r = AbandonedSession \<and> se_stage s = Working \<or>
      r = SupersededSession \<and> (\<exists>stamp. se_stage s = Finalized stamp \<and>
        (\<exists>n. newest_stamp sessions = Some n \<and> stamp < n)))"
    unfolding doom_Some by blast
  finally show ?thesis unfolding newest .
qed

text \<open>A prune leaves the compiler a session to load: when a directory has a finalized
  session, one with the newest stamp survives.\<close>

theorem newest_session_survives:
  assumes "s \<in> set sessions" and "se_stage s = Finalized stamp"
  shows "\<exists>t \<in> set sessions. \<exists>newest. se_stage t = Finalized newest \<and> stamp \<le> newest \<and>
    t \<notin> fst ` set (doomed sessions)"
proof -
  have stamped: "finalized_stamp s = Some stamp" using assms(2) by simp
  then have "newest_stamp sessions \<noteq> None"
    unfolding newest_stamp_None using assms(1) by (metis option.distinct(1))
  then obtain n where n: "newest_stamp sessions = Some n" by blast
  from newest_stamp_Some [OF n] obtain t where t: "t \<in> set sessions" "se_stage t = Finalized n"
    unfolding finalized_stamp_Some by blast
  have "stamp \<le> n" using newest_stamp_Some [OF n] assms(1) stamped by blast
  moreover have "t \<notin> fst ` set (doomed sessions)"
  proof
    assume "t \<in> fst ` set (doomed sessions)"
    then obtain u r where "doom (Some n) u = Some (t, r)"
      by (auto simp: doomed_def map_filter_def n)
    then show False using t(2) unfolding doom_Some by auto
  qed
  ultimately show ?thesis using t by blast
qed

theorem newest_session_survives_witness:
  "\<exists>t. t \<notin> fst ` set (doomed [\<lparr>se_name = ''s-1-2-3'', se_lock = ''s-1-2'', se_stage = Finalized 1\<rparr>])"
  using newest_session_survives [of "\<lparr>se_name = ''s-1-2-3'', se_lock = ''s-1-2'',
    se_stage = Finalized 1\<rparr>" "[\<lparr>se_name = ''s-1-2-3'', se_lock = ''s-1-2'',
    se_stage = Finalized 1\<rparr>]" 1] by auto

text \<open>A file name is a debug object exactly when it reads
  \<open><unit>.<part>.<invocation>.rcgu.o\<close> with three nonempty parts free of dots, and the parse
  returns that unit and invocation; a unit is mixed exactly when two of its objects come from
  different invocations.\<close>

theorem objects_attributed:
  "(object_parse name =
      Some \<lparr>ob_name = name, ob_unit = unit, ob_invocation = invocation\<rparr> \<longleftrightarrow>
    (\<exists>part. name = unit @ ''.'' @ part @ ''.'' @ invocation @ ''.rcgu.o'' \<and>
       unit \<noteq> [] \<and> part \<noteq> [] \<and> invocation \<noteq> [] \<and>
       CHR ''.'' \<notin> set unit \<union> set part \<union> set invocation)) \<and>
   (unit \<in> set (mixed objects) \<longleftrightarrow>
     (\<exists>a \<in> set objects. \<exists>b \<in> set objects.
        ob_unit a = unit \<and> ob_unit b = unit \<and> ob_invocation a \<noteq> ob_invocation b))"
  unfolding object_parse_Some mixed_mem object_suffix_def by simp

end
