(* ===== verification/Core_Guarantees.thy ===== *)
theory Core_Guarantees
  imports Candidates Sizes
begin

text \<open>
  Guarantees of the leaves of the core: locations, protected areas, sizes, artifact kinds,
  ownership and release records, identifiers and reaping.
\<close>

section \<open>Locations\<close>

text \<open>Property C40. Parsing yields only well-formed locations of the requested syntax: the root
  belongs to the syntax, a drive letter is upper case, and every name is a valid single component.\<close>

theorem parse_well_formed:
  assumes "parse syn raw = Inr l"
  shows "loc_wf l \<and> loc_syntax l = syn"
  using assms by (rule parse_wf_lemma)

theorem parse_well_formed_witness:
  "loc_wf (Location path_syntax.Unix root.Unix [Name ''private'', Name ''tmp''])"
  using parse_well_formed [of path_syntax.Unix "''/private/tmp''"] multi_literals(3)
  by (simp add: unix_path_def)


definition ex_unc :: location where
  "ex_unc = Location path_syntax.Windows (Unc (Name ''srv'') (Name ''share'')) [Name ''a'']"


text \<open>The exception is reachable: \<open>//?/a\<close> parses to a UNC location whose printed form
  the parser refuses as relative.\<close>

theorem device_server_breaks_roundtrip:
  "\<exists>l. parse path_syntax.Windows ''//?/a'' = Inr l \<and> loc_wf l \<and> loc_utf8 l \<and>
     parse path_syntax.Windows (loc_display l) = Inl location_error.Relative"
proof -
  let ?l = "Location path_syntax.Windows (Unc (Name ''?'') (Name ''a'')) []"
  have "parse path_syntax.Windows ''//?/a'' = Inr ?l"
    by (simp add: parse_windows_def unc_def names_of_def name_new_def unc_prefixes_def
        device_prefixes_def strip_prefix_def)
  moreover have "loc_wf ?l" by (simp add: loc_wf_def root_wf_def name_ok_def)
  moreover have utf8: "utf8_valid ''?''" "utf8_valid ''a''"
    by (rule utf8_valid_ascii, simp add: is_ascii_def)+
  then have "loc_utf8 ?l" by (simp add: loc_utf8_def)
  moreover have "loc_display ?l = [backslash, backslash, CHR ''?'', backslash, CHR ''a'']"
    using utf8 by (simp add: loc_display_def root_display_def name_display_utf8)
  then have "parse path_syntax.Windows (loc_display ?l) = Inl location_error.Relative"
    by (simp add: parse_windows_def unc_prefixes_def device_prefixes_def strip_prefix_def)
  ultimately show ?thesis by blast
qed

text \<open>Containment is a partial order up to \<open>same\<close>, whose classes the folded names
  decide: it is reflexive, transitive and linear above a location; two locations that contain each
  other are the same; a child lies strictly inside its parent.\<close>

theorem containment_order:
  "contains ul l l cs \<and>
   (contains ul l m cs \<and> contains ul m n cs \<longrightarrow> contains ul l n cs) \<and>
   (contains ul l n cs \<and> contains ul m n cs \<longrightarrow> contains ul l m cs \<or> contains ul m l cs) \<and>
   (contains ul l m cs \<and> contains ul m l cs \<longleftrightarrow> same ul l m cs) \<and>
   contains ul l (join l nm) cs \<and> \<not> contains ul (join l nm) l cs"
proof -
  have "contains ul l l cs" by (simp add: contains_view)
  moreover have "contains ul l m cs \<and> contains ul m n cs \<longrightarrow> contains ul l n cs"
    by (auto simp: contains_view)
  moreover have "contains ul l n cs \<and> contains ul m n cs \<longrightarrow> contains ul l m cs \<or> contains ul m l cs"
    using prefix_same_cases by (fastforce simp: contains_view)
  ultimately show ?thesis
    using same_iff_contains [of ul l m cs] join_contained join_escapes by blast
qed

theorem containment_order_witness:
  "contains (\<lambda>x. x) ex_unc (join ex_unc (Name ''b'')) Sensitive"
  using containment_order [of "\<lambda>x. x" ex_unc Sensitive ex_unc ex_unc "Name ''b''"] by blast

section \<open>Keys\<close>

text \<open>Lowercasing keeps names nonempty and free of NUL bytes.\<close>

definition fold_ok :: "(bytes \<Rightarrow> bytes) \<Rightarrow> bool" where
  "fold_ok ul \<longleftrightarrow>
     (\<forall>x. x \<noteq> [] \<and> CHR 0x00 \<notin> set x \<longrightarrow> ul x \<noteq> [] \<and> CHR 0x00 \<notin> set (ul x))"

lemma lowercase_clean: "CHR 0x00 \<notin> set x \<Longrightarrow> CHR 0x00 \<notin> set (to_ascii_lowercase x)"
proof
  assume x: "CHR 0x00 \<notin> set x" and "CHR 0x00 \<in> set (to_ascii_lowercase x)"
  then obtain c where c: "c \<in> set x" "to_ascii_lower c = CHR 0x00" by auto
  have "code (to_ascii_lower c) = (if is_ascii_upper c then code c + 32 else code c)"
    by (auto simp: to_ascii_lower_def is_ascii_upper_def)
  then have "code c = 0" using c(2) by (auto split: if_splits)
  then have "code c = code (CHR 0x00)" by simp
  then have "c = CHR 0x00" by (simp only: of_char_eq_iff)
  then show False using c(1) x by simp
qed

lemma lowercase_nonempty: "x \<noteq> [] \<Longrightarrow> to_ascii_lowercase x \<noteq> []"
  by simp

lemma folded_clean:
  assumes "fold_ok ul" and "name_ok syn (as_bytes n)"
  shows "folded ul n cs \<noteq> [] \<and> CHR 0x00 \<notin> set (folded ul n cs)"
proof -
  have n: "as_bytes n \<noteq> []" "CHR 0x00 \<notin> set (as_bytes n)"
    using assms(2) by (auto simp: name_ok_def list_all_iff)
  have u: "ul (as_bytes n) \<noteq> [] \<and> CHR 0x00 \<notin> set (ul (as_bytes n))"
    using assms(1) n unfolding fold_ok_def by blast
  have low: "to_ascii_lowercase (as_bytes n) \<noteq> [] \<and> CHR 0x00 \<notin> set (to_ascii_lowercase (as_bytes n))"
    using n lowercase_clean lowercase_nonempty by blast
  show ?thesis
  proof (cases cs)
    case Sensitive
    then show ?thesis using n by (simp add: folded_def fold_bytes_def)
  next
    case Insensitive
    then show ?thesis using u low
      by (cases "from_utf8 (as_bytes n)")
        (simp_all add: folded_def fold_bytes_def to_lowercase_def from_utf8_def split: if_splits)
  qed
qed

lemma join_with_inject:
  assumes "\<forall>x \<in> set xs. x \<noteq> [] \<and> s \<notin> set x" and "\<forall>y \<in> set ys. y \<noteq> [] \<and> s \<notin> set y"
    and "join_with s xs = join_with s ys"
  shows "xs = ys"
proof -
  have empty: "join_with s zs = [] \<Longrightarrow> \<forall>z \<in> set zs. z \<noteq> [] \<Longrightarrow> zs = []" for zs :: "'a list list"
    by (cases zs rule: remdups_adj.cases) auto
  show ?thesis
  proof (cases "xs = [] \<or> ys = []")
    case True
    then show ?thesis using assms empty [of xs] empty [of ys] by fastforce
  next
    case False
    have "split_on (\<lambda>x. x = s) (join_with s xs) = xs"
      unfolding split_on_iff using False assms(1) by simp
    moreover have "split_on (\<lambda>x. x = s) (join_with s ys) = ys"
      unfolding split_on_iff using False assms(2) by simp
    ultimately show ?thesis using assms(3) by metis
  qed
qed

definition unc_root :: "location \<Rightarrow> bool" where
  "unc_root l = (case loc_root l of Unc server share \<Rightarrow> True | _ \<Rightarrow> False)"

text \<open>Outside UNC roots the key identifies the location: two well-formed locations of
  one syntax have equal keys exactly when they are the same location.\<close>

theorem key_identifies:
  assumes "fold_ok ul" and "loc_wf l" and "loc_wf m" and "loc_syntax l = loc_syntax m"
    and "\<not> unc_root l" and "\<not> unc_root m"
  shows "loc_key ul l cs = loc_key ul m cs \<longleftrightarrow> same ul l m cs"
proof
  assume key: "loc_key ul l cs = loc_key ul m cs"
  let ?names = "\<lambda>l. map (\<lambda>n. folded ul n cs) (loc_names l)"
  have "loc_root l = root.Unix \<and> loc_root m = root.Unix \<or>
      (\<exists>a b. loc_root l = Drive a \<and> loc_root m = Drive b)"
    using assms(2-6)
    by (cases "loc_root l"; cases "loc_root m"; simp add: loc_wf_def root_wf_def unc_root_def)
  then have roots: "loc_root l = loc_root m"
    and "join_with (CHR 0x00) (?names l) = join_with (CHR 0x00) (?names m)"
    using key [unfolded loc_key_def] by (elim disjE exE conjE; simp)+
  moreover have "\<forall>x \<in> set (?names k). x \<noteq> [] \<and> CHR 0x00 \<notin> set x" if "loc_wf k" for k
    using that folded_clean [OF assms(1)] by (auto simp: loc_wf_def list_all_iff)
  ultimately have "?names l = ?names m"
    using join_with_inject [of "?names l" "CHR 0x00" "?names m"] assms(2,3) by simp
  then show "same ul l m cs"
    using assms(4) roots by (simp add: same_view base_view_def names_view_def root_same_view)
qed (rule same_key)

theorem key_identifies_witness:
  "loc_key (\<lambda>x. x) (Location path_syntax.Unix root.Unix [Name ''a'', Name ''b'']) Sensitive \<noteq>
   loc_key (\<lambda>x. x) (Location path_syntax.Unix root.Unix [Name ''ab'']) Sensitive"
proof -
  let ?l = "Location path_syntax.Unix root.Unix [Name ''a'', Name ''b'']"
  let ?m = "Location path_syntax.Unix root.Unix [Name ''ab'']"
  have "fold_ok (\<lambda>x. x)" by (simp add: fold_ok_def)
  moreover have "loc_wf ?l" "loc_wf ?m" by (simp_all add: loc_wf_def root_wf_def name_ok_def)
  moreover have "\<not> same (\<lambda>x. x) ?l ?m Sensitive" by (simp add: same_view names_view_def)
  ultimately show ?thesis
    using key_identifies [of "\<lambda>x. x" ?l ?m Sensitive] by (simp add: unc_root_def)
qed

text \<open>On UNC roots it does not: nothing separates the share from the first name, so two
  different well-formed locations share a key.\<close>

theorem unc_keys_collide:
  "\<exists>l m. loc_wf l \<and> loc_wf m \<and> loc_syntax l = loc_syntax m \<and> \<not> same ul l m cs \<and>
     loc_key ul l cs = loc_key ul m cs"
proof -
  let ?l = "Location path_syntax.Windows (Unc (Name ''srv'') (Name ''share'')) [Name ''x'']"
  let ?m = "Location path_syntax.Windows (Unc (Name ''srv'') (Name ''sharex'')) []"
  have "folded ul (Name n) c = n" if "n \<in> {''srv'', ''share'', ''sharex'', ''x''}" for n c
  proof -
    have a: "is_ascii n" "to_ascii_lowercase n = n"
      using that by (auto simp: is_ascii_def to_ascii_lower_def is_ascii_upper_def)
    then show ?thesis
      by (cases c) (simp_all add: folded_def fold_bytes_def from_utf8_def utf8_valid_ascii to_lowercase_def)
  qed
  then have "loc_key ul ?l cs = loc_key ul ?m cs" by (simp add: loc_key_def)
  moreover have "loc_wf ?l" "loc_wf ?m" by (simp_all add: loc_wf_def root_wf_def name_ok_def)
  moreover have "\<not> same ul ?l ?m cs" by (simp add: same_view names_view_def)
  ultimately show ?thesis by (metis location.sel(1))
qed

section \<open>Protected areas\<close>



section \<open>Sizes\<close>

text \<open>Totals are exact sums capped at \<open>u64::MAX\<close>, and a reconciliation splits both
  sides exactly: attributed and unattributed make up the used bytes, attributed and overcounted
  the measured ones, and never are both remainders positive.\<close>

theorem sizes_reconciled:
  "unat (total vs) = min (\<Sum>v\<leftarrow>vs. unat v) (2 ^ 64 - 1) \<and>
   unat (attributed (reconcile u m)) + unat (unattributed (reconcile u m)) = unat u \<and>
   unat (attributed (reconcile u m)) + unat (overcount (reconcile u m)) = unat m \<and>
   (unattributed (reconcile u m) = 0 \<or> overcount (reconcile u m) = 0)"
proof -
  have "saturating_sub a a = 0" for a by (simp add: saturating_sub_def)
  then show ?thesis
    by (auto simp: unat_total reconcile_def Let_def unat_saturating_sub word_less_nat_alt)
qed

text \<open>A size text is accepted exactly when its suffix is a unit, its number has at most
  one point and at least one digit, and neither the number scaled by the unit nor an intermediate
  product overflows; the result is the scaled number rounded down.\<close>

theorem size_parsed_exactly:
  "size_from_str input = Inr b \<longleftrightarrow>
     (let number = takeWhile numeric (trim input);
          suffix = to_ascii_lowercase (trim (dropWhile numeric (trim input))) in
      \<exists>m w f. map_of units suffix = Some m \<and>
        (number = w @ ''.'' @ f \<and> CHR ''.'' \<notin> set w \<and> CHR ''.'' \<notin> set f \<or>
         number = w \<and> CHR ''.'' \<notin> set w \<and> f = []) \<and>
        (w \<noteq> [] \<or> f \<noteq> []) \<and>
        decimal_value 0 w * m < 2 ^ 128 \<and> decimal_value 0 w < 2 ^ 128 \<and>
        decimal_value 0 f * m < 2 ^ 128 \<and> decimal_value 0 f < 2 ^ 128 \<and>
        (10 :: nat) ^ length f < 2 ^ 128 \<and>
        size_value m w f < 2 ^ 64 \<and> b = of_nat (size_value m w f))"
proof -
  let ?number = "takeWhile numeric (trim input)"
  let ?suffix = "to_ascii_lowercase (trim (dropWhile numeric (trim input)))"
  have parts: "(case split_once (CHR ''.'') number of
          Some (whole, fraction) \<Rightarrow>
            if CHR ''.'' \<notin> set fraction then scaled_value m whole fraction else Inl size_error.Malformed
        | None \<Rightarrow> scaled_value m number []) = Inr b \<longleftrightarrow>
      (\<exists>w f. (number = w @ ''.'' @ f \<and> CHR ''.'' \<notin> set w \<and> CHR ''.'' \<notin> set f \<or>
         number = w \<and> CHR ''.'' \<notin> set w \<and> f = []) \<and> scaled_value m w f = Inr b)"
      (is "?left number m \<longleftrightarrow> ?right number m") for number m
  proof (cases "split_once (CHR ''.'') number")
    case None
    then have "CHR ''.'' \<notin> set number" by (rule split_once_None [THEN iffD1])
    with None show ?thesis by auto
  next
    case (Some wf)
    obtain w f where wf: "wf = (w, f)" by (cases wf)
    have eq: "number = w @ CHR ''.'' # f \<and> CHR ''.'' \<notin> set w"
      using Some unfolding wf by (rule split_once_Some [THEN iffD1])
    then have unique: "number = w' @ CHR ''.'' # f' \<and> CHR ''.'' \<notin> set w' \<Longrightarrow> w' = w \<and> f' = f" for w' f'
      using Some wf by (metis Pair_inject option.inject split_once_Some)
    have dotted: "CHR ''.'' \<in> set number" using eq by simp
    have "?left number m \<longleftrightarrow> CHR ''.'' \<notin> set f \<and> scaled_value m w f = Inr b"
      by (simp add: Some wf)
    also have "\<dots> \<longleftrightarrow> ?right number m"
      using eq unique dotted unfolding append.simps by blast
    finally show ?thesis .
  qed
  show ?thesis
    unfolding size_from_str_def Let_def result_bind_Inr ok_or_Inr parts scaled_value_Inr by blast
qed

theorem size_parsed_exactly_witness: "size_from_str ''1.5k'' = Inr 1536"
proof -
  have trimmed: "trim ''1.5k'' = ''1.5k''" "trim ''k'' = ''k''" by code_simp+
  have parts: "takeWhile numeric ''1.5k'' = ''1.5''" "dropWhile numeric ''1.5k'' = ''k''"
    by (simp_all add: numeric_def is_ascii_digit_def)
  have unit: "to_ascii_lowercase ''k'' = ''k''"
    by (simp add: to_ascii_lower_def is_ascii_upper_def)
  show ?thesis
    unfolding size_parsed_exactly Let_def trimmed parts unit
    by (rule exI [of _ "2 ^ 10"], rule exI [of _ "''1''"], rule exI [of _ "''5''"])
      (simp add: units_def size_value_def digit_value_def)
qed

section \<open>Kinds and their evidence\<close>

text \<open>Kinds and tiers parse back from what they print, in any case of letters, and
  nothing else parses to them.\<close>

theorem kinds_and_tiers_parse:
  "(kind_from_str text = Some k \<longleftrightarrow> to_ascii_lowercase text = kind_as_str k) \<and>
   (tier_from_str text = Some t \<longleftrightarrow> to_ascii_lowercase text = tier_as_str t) \<and>
   kind_from_str (kind_as_str k) = Some k \<and> tier_from_str (tier_as_str t) = Some t"
  unfolding kind_from_str_Some tier_from_str_Some kind_as_str_lower tier_as_str_lower by auto

text \<open>A name alone never identifies: without files beside the directory, without a
  Unity project, without CMake's cache inside, without tags and without rustc's own output, no
  kind is found. An owner tag decides the kind whatever the name and the neighbours say; and the
  provenance is declared exactly when a tag or rustc's own output is inside the directory.\<close>

theorem identification_needs_evidence:
  "(parent_files l = [] \<and>
      \<not> (''assets'' \<in> set (parent_dirs l) \<and> ''projectsettings'' \<in> set (parent_dirs l)) \<and>
      ''cmakecache.txt'' \<notin> set (child_files l) \<and> tag_cache (list_tags l) \<noteq> Verified \<and>
      tag_owner (list_tags l) \<noteq> owner_tag.Scratch \<and> tag_owner (list_tags l) \<noteq> owner_tag.Cache \<and> \<not> declares_rust_target l
      \<longrightarrow> identify l nm = None) \<and>
   (map_option id_kind (identify l nm) = Some OwnedScratch \<longleftrightarrow> tag_owner (list_tags l) = owner_tag.Scratch) \<and>
   (map_option id_kind (identify l nm) = Some OwnedCache \<longleftrightarrow> tag_owner (list_tags l) = owner_tag.Cache) \<and>
   (\<forall>i. identify l nm = Some i \<longrightarrow>
      (id_provenance i = Declared \<longleftrightarrow>
        tag_cache (list_tags l) = Verified \<or> tag_owner (list_tags l) \<in> {owner_tag.Scratch, owner_tag.Cache} \<or>
        declares_rust_target l))"
proof (intro conjI impI allI)
  assume none: "parent_files l = [] \<and>
      \<not> (''assets'' \<in> set (parent_dirs l) \<and> ''projectsettings'' \<in> set (parent_dirs l)) \<and>
      ''cmakecache.txt'' \<notin> set (child_files l) \<and> tag_cache (list_tags l) \<noteq> Verified \<and>
      tag_owner (list_tags l) \<noteq> owner_tag.Scratch \<and> tag_owner (list_tags l) \<noteq> owner_tag.Cache \<and> \<not> declares_rust_target l"
  then have "family_kind l n = None" for n using family_kind_alone [of l n] by simp
  with none have "listing_kind l nm = None"
    by (cases "tag_owner (list_tags l)") (simp_all add: listing_kind_def)
  then show "identify l nm = None" by (simp add: identify_def)
qed (simp_all only: identify_kind listing_kind_owned identify_declared)

theorem identification_needs_evidence_witness:
  "identify (listing_new \<lparr>ent_files = [], ent_dirs = []\<rparr> \<lparr>ent_files = [], ent_dirs = []\<rparr>
     \<lparr>tag_cache = cache_tag.Absent, tag_owner = owner_tag.Absent\<rparr>) (Name ''target'') = None"
  using identification_needs_evidence [of "listing_new \<lparr>ent_files = [], ent_dirs = []\<rparr> \<lparr>ent_files = [], ent_dirs = []\<rparr>
     \<lparr>tag_cache = cache_tag.Absent, tag_owner = owner_tag.Absent\<rparr>" "Name ''target''"]
  by (simp add: listing_new_def declares_rust_target_def)

section \<open>Ownership\<close>

lemma strongest_protects_iff: "protects (strongest ss) \<longleftrightarrow> (\<exists>s \<in> set ss. protects s)"
proof (cases "ss = []")
  case True
  then show ?thesis by (simp add: strongest_def)
next
  case False
  then show ?thesis using strongest_mem strongest_protects by blast
qed

lemma strongest_kept_iff: "strongest ss = settlement.Kept \<longleftrightarrow> settlement.Kept \<in> set ss"
proof (cases "ss = []")
  case True
  then show ?thesis by (simp add: strongest_def)
next
  case False
  then show ?thesis using strongest_mem strongest_kept by metis
qed

lemma resolve_has:
  assumes "\<And>ss. P (strongest ss) \<longleftrightarrow> (\<exists>s \<in> set ss. P s)" and "\<And>s. P s \<Longrightarrow> protects s"
  shows "P (settlement_of (resolve own nested wt)) \<longleftrightarrow>
     (\<exists>m \<in> set own \<union> set nested. P (marker_settlement m)) \<or>
     own = [] \<and> (\<exists>w. wt = Some w \<and> P (worktree_settlement w))"
proof -
  have unclaimed: "\<not> P settlement.Unclaimed" using assms(2) by force
  have nested: "(\<exists>m \<in> set (filter (\<lambda>m. protects (marker_settlement m)) nested). P (marker_settlement m)) \<longleftrightarrow>
      (\<exists>m \<in> set nested. P (marker_settlement m))" using assms(2) by auto
  show ?thesis
  proof (cases "own = []")
    case False
    then show ?thesis using nested by (auto simp: resolve_def Let_def assms(1))
  next
    case True
    show ?thesis
    proof (cases "filter (\<lambda>m. protects (marker_settlement m)) nested = []")
      case none: True
      then have "\<not> (\<exists>m \<in> set nested. P (marker_settlement m))" using nested by auto
      with True none show ?thesis using unclaimed by (cases wt) (simp_all add: resolve_def Let_def)
    next
      case False
      then show ?thesis using True nested
        by (cases wt) (auto simp add: resolve_def Let_def assms(1) bex_Un)
    qed
  qed
qed

text \<open>Ownership is the strongest claim: the settlement of a directory protects it
  exactly when a marker in it or nested below it does, or it has no marker of its own and its
  worktree does; and it is kept exactly when one of those is kept. No order of the markers and no
  released owner beside them weakens a claim.\<close>

theorem strongest_claim_wins:
  "(protects (settlement_of (resolve own nested wt)) \<longleftrightarrow>
      (\<exists>m \<in> set own \<union> set nested. protects (marker_settlement m)) \<or>
      own = [] \<and> (\<exists>w. wt = Some w \<and> protects (worktree_settlement w))) \<and>
   (settlement_of (resolve own nested wt) = settlement.Kept \<longleftrightarrow>
      (\<exists>m \<in> set own \<union> set nested. mk_keep m = keep.Kept) \<or>
      own = [] \<and> (\<exists>w. wt = Some w \<and> worktree_settlement w = settlement.Kept))"
proof -
  have kept: "marker_settlement m = settlement.Kept \<longleftrightarrow> mk_keep m = keep.Kept" for m
    by (auto simp: marker_settlement_def split: keep.splits owner_lock.splits role.splits)
  show ?thesis
    using resolve_has [of protects own nested wt]
      resolve_has [of "\<lambda>s. s = settlement.Kept" own nested wt]
    by (simp add: strongest_protects_iff strongest_kept_iff kept)
qed

text \<open>Property C38. A release record round-trips: for a 32-byte digest, a byte string decodes to the
  record exactly when it is its encoding, so no other bytes are accepted for it.\<close>

theorem release_record_roundtrip:
  assumes "length (rr_digest r) = 32"
  shows "record_decode bs = Some r \<longleftrightarrow> bs = record_encode r"
  using decode_encode_lemma [OF assms] encode_decode_lemma by blast

theorem release_record_roundtrip_witness:
  "record_decode (record_encode
     \<lparr>rr_identity = \<lparr>volume = 7, file_id = 9\<rparr>, rr_digest = replicate 32 (CHR ''d'')\<rparr>) =
   Some \<lparr>rr_identity = \<lparr>volume = 7, file_id = 9\<rparr>, rr_digest = replicate 32 (CHR ''d'')\<rparr>"
proof -
  let ?r = "\<lparr>rr_identity = \<lparr>volume = 7, file_id = 9\<rparr>, rr_digest = replicate 32 (CHR ''d'')\<rparr>"
  have "length (rr_digest ?r) = 32" by (simp only: release_record.select_convs length_replicate)
  from release_record_roundtrip [OF this] show ?thesis by blast
qed

section \<open>Identifiers and reaping\<close>

text \<open>The identifier of a candidate commits to everything it was derived from: two
  equal identifiers of locations with one key were derived from the same identity, the same kind
  and the same measurement, unless two different inputs collide under SHA-256.\<close>

theorem identifier_commits:
  assumes "derive_id sha ul i l k m cs = derive_id sha ul i' l' k' m' cs"
    and "loc_key ul l cs = loc_key ul l' cs"
  shows "i = i' \<and> k = k' \<and> m = m' \<or> (\<exists>x y. x \<noteq> y \<and> sha x = sha y)"
  using derive_id_eq [OF assms(1)] id_preimage_inject [OF assms(2)] unfolding collision_def by blast

theorem identifier_commits_witness:
  "\<exists>x y :: bytes. x \<noteq> y \<and> (\<lambda>_. [] :: bytes) x = (\<lambda>_. []) y"
proof -
  have "derive_id (\<lambda>_. []) (\<lambda>x. x) \<lparr>volume = 1, file_id = 2\<rparr> ex_unc RustTarget unmeasured Sensitive =
      derive_id (\<lambda>_. []) (\<lambda>x. x) \<lparr>volume = 1, file_id = 3\<rparr> ex_unc RustTarget unmeasured Sensitive"
    by (simp add: derive_id_def)
  from identifier_commits [OF this refl] show ?thesis by simp
qed

text \<open>Reaping selects, in order, exactly the identifiers of the candidates whose owner
  released or landed them; none that is active, kept or unclaimed.\<close>

theorem reap_exactly:
  "reap cs = map cd_id (filter (\<lambda>c. cd_settlement c \<in> {settlement.Released, settlement.Landed}) cs)"
  by (induction cs) (auto simp: reap_def eligible_def admits_settled)

end
