(* ===== verification/Managed.thy ===== *)
theory Managed
  imports Gates
begin

text \<open>
  Resources a manager owns (\<open>crates/core/src/managed.rs\<close>): whether a requested version refers
  to an installed one, and the clearance of a resource for removal.
\<close>

datatype resource = Toolchain | Image | BuildCache | Volume | Container
datatype references = Unused | Referenced | Unknown
datatype completeness = Complete | Incomplete

definition normalized_version :: "bytes \<Rightarrow> bytes" where
  "normalized_version version =
     (case version of
        [] \<Rightarrow> version
      | b # rest \<Rightarrow> if b = CHR ''v'' then rest else version)"

definition pinned_date :: "bytes \<Rightarrow> bool" where
  "pinned_date date \<longleftrightarrow>
     map length (split_on (\<lambda>b. b = CHR ''-'') date) = [4, 2, 2] \<and>
     list_all (\<lambda>b. is_ascii_digit b \<or> b = CHR ''-'') date"

definition numeric_version :: "bytes \<Rightarrow> bool" where
  "numeric_version request \<longleftrightarrow>
     list_all (\<lambda>part. part \<noteq> [] \<and> list_all is_ascii_digit part) (split_on (\<lambda>b. b = CHR ''.'') request)"

definition version_bytes :: "bytes \<Rightarrow> bytes \<Rightarrow> references" where
  "version_bytes request installed =
     (if request = installed then
        (if request = [] \<or> request = ''v'' then references.Unknown else Referenced)
      else
        (let request = normalized_version request; installed = normalized_version installed in
         if request = [] \<or> installed = [] then references.Unknown
         else if request = installed then Referenced
         else if numeric_version request then
           (case strip_prefix request installed of
              Some rest \<Rightarrow> if starts_with ''.'' rest then Referenced else Unused
            | None \<Rightarrow> Unused)
         else if request = ''stable'' \<or> request = ''beta'' \<or> request = ''nightly'' \<or>
             (case strip_prefix ''nightly-'' request of Some date \<Rightarrow> pinned_date date | None \<Rightarrow> False)
           then Unused
         else references.Unknown))"

definition version_reference :: "bytes \<Rightarrow> bytes \<Rightarrow> references" where
  "version_reference request installed = version_bytes request installed"

datatype managed_refusal =
  Preserved | Tier | Incomplete | Referenced | Unknown | Stale

fun managed_refusal_display :: "managed_refusal \<Rightarrow> bytes" where
  "managed_refusal_display Preserved = ''volumes and containers are preserved''"
| "managed_refusal_display Tier = ''the reinstallable tier was not granted''"
| "managed_refusal_display managed_refusal.Incomplete = ''the reference survey is incomplete''"
| "managed_refusal_display managed_refusal.Referenced =
     ''the manager still references this resource''"
| "managed_refusal_display managed_refusal.Unknown =
     ''the manager did not report the reference state''"
| "managed_refusal_display Stale = ''the reviewed resource changed''"

record managed_request =
  mr_resource :: resource
  mr_references :: references
  mr_completeness :: completeness
  mr_recorded :: candidate_id
  mr_current :: candidate_id
  mr_tiers :: tier_grant

record managed_clearance =
  mc_id :: candidate_id
  mc_resource :: resource

definition managed_clear :: "managed_request \<Rightarrow> managed_refusal + managed_clearance" where
  "managed_clear r =
     (if mr_resource r = Volume \<or> mr_resource r = Container then Inl Preserved
      else if \<not> grant_admits (mr_tiers r) Reinstallable then Inl Tier
      else if mr_completeness r = completeness.Incomplete then Inl managed_refusal.Incomplete
      else (case mr_references r of
          references.Referenced \<Rightarrow> Inl managed_refusal.Referenced
        | references.Unknown \<Rightarrow> Inl managed_refusal.Unknown
        | Unused \<Rightarrow>
            if mr_recorded r \<noteq> mr_current r then Inl Stale
            else Inr \<lparr>mc_id = mr_current r, mc_resource = mr_resource r\<rparr>))"

section \<open>Guarantees\<close>

text \<open>Requests a manager resolves to whichever version is current, so that no installed version
  is the requested one by its name alone.\<close>

definition channel :: "bytes \<Rightarrow> bool" where
  "channel request \<longleftrightarrow>
     request \<in> {''stable'', ''beta'', ''nightly''} \<or>
     (\<exists>date. request = ''nightly-'' @ date \<and> pinned_date date)"

lemma version_bytes_normalized:
  "version_bytes request installed =
     (let r = normalized_version request; i = normalized_version installed in
      if r = [] \<or> i = [] then references.Unknown
      else if r = i \<or> numeric_version r \<and> (\<exists>rest. i = r @ ''.'' @ rest) then references.Referenced
      else if numeric_version r \<or> channel r then Unused
      else references.Unknown)"
proof -
  have empty: "normalized_version v = [] \<longleftrightarrow> v = [] \<or> v = ''v''" for v
    by (auto simp: normalized_version_def split: list.splits)
  have below: "(case strip_prefix r i of Some rest \<Rightarrow> if starts_with ''.'' rest then references.Referenced else Unused
      | None \<Rightarrow> Unused) = (if \<exists>rest. i = r @ ''.'' @ rest then references.Referenced else Unused)" for r i
  proof (cases "strip_prefix r i")
    case None
    then have "\<not> starts_with r i" by (rule strip_prefix_None [THEN iffD1])
    with None show ?thesis by (auto simp: starts_with_iff)
  next
    case (Some a)
    then have "i = r @ a" by (simp only: strip_prefix_Some)
    with Some show ?thesis by (auto simp: starts_with_iff)
  qed
  have date: "(case strip_prefix ''nightly-'' r of Some date \<Rightarrow> pinned_date date | None \<Rightarrow> False) \<longleftrightarrow>
      (\<exists>date. r = ''nightly-'' @ date \<and> pinned_date date)" for r
  proof (cases "strip_prefix ''nightly-'' r")
    case None
    then have "\<not> starts_with ''nightly-'' r" by (rule strip_prefix_None [THEN iffD1])
    with None show ?thesis by (auto simp: starts_with_iff)
  next
    case (Some a)
    then have "r = ''nightly-'' @ a" by (simp only: strip_prefix_Some)
    with Some show ?thesis by auto
  qed
  have chan: "(r = ''stable'' \<or> r = ''beta'' \<or> r = ''nightly'' \<or>
      (case strip_prefix ''nightly-'' r of Some date \<Rightarrow> pinned_date date | None \<Rightarrow> False)) \<longleftrightarrow> channel r" for r
    unfolding date channel_def by simp
  show ?thesis
  proof (cases "request = installed")
    case True
    then show ?thesis by (simp add: version_bytes_def Let_def empty)
  next
    case False
    then show ?thesis
      unfolding version_bytes_def Let_def below chan by simp
  qed
qed

text \<open>A request refers to an installed version exactly when, a leading \<open>v\<close> of either
  aside, both are nonempty and equal, or the request is numeric and the installed version
  continues it after a dot; it is reported unused only when it is numeric without such a
  continuation, or a channel.\<close>

theorem version_reference_exactly:
  "(version_reference request installed = references.Referenced \<longleftrightarrow>
      normalized_version request \<noteq> [] \<and> normalized_version installed \<noteq> [] \<and>
      (normalized_version request = normalized_version installed \<or>
       numeric_version (normalized_version request) \<and>
       (\<exists>rest. normalized_version installed = normalized_version request @ ''.'' @ rest))) \<and>
   (version_reference request installed = Unused \<longleftrightarrow>
      normalized_version request \<noteq> [] \<and> normalized_version installed \<noteq> [] \<and>
      normalized_version request \<noteq> normalized_version installed \<and>
      (numeric_version (normalized_version request) \<and>
       (\<forall>rest. normalized_version installed \<noteq> normalized_version request @ ''.'' @ rest) \<or>
       \<not> numeric_version (normalized_version request) \<and> channel (normalized_version request)))"
  unfolding version_reference_def version_bytes_normalized Let_def by auto

text \<open>A managed resource is cleared exactly when it is neither a volume nor a
  container, the reinstallable tier was granted, the survey of references was complete, the
  resource is unused, and it is still the reviewed one; the clearance names it.\<close>

theorem managed_clear_exactly:
  "managed_clear r = Inr c \<longleftrightarrow>
     mr_resource r \<noteq> Volume \<and> mr_resource r \<noteq> Container \<and> grant_reinstallable (mr_tiers r) \<and>
     mr_completeness r = Complete \<and> mr_references r = Unused \<and> mr_recorded r = mr_current r \<and>
     mc_id c = mr_recorded r \<and> mc_resource c = mr_resource r"
proof -
  have "mr_completeness r = completeness.Incomplete \<longleftrightarrow> mr_completeness r \<noteq> Complete"
    by (cases "mr_completeness r") auto
  moreover have "c = \<lparr>mc_id = i, mc_resource = s\<rparr> \<longleftrightarrow> mc_id c = i \<and> mc_resource c = s" for i s
    by (cases c) auto
  ultimately show ?thesis
    by (cases "mr_references r") (auto simp: managed_clear_def)
qed

end
