(* ===== verification/Git_Output.thy ===== *)
theory Git_Output
  imports Ownership
begin

text \<open>Parsers of what git prints (\<open>crates/core/src/git.rs\<close>).\<close>

record status_report =
  gs_changes :: changes
  gs_head :: head
  gs_commit :: "bytes option"

datatype unparsable = Unparsable

definition git_text :: "bytes \<Rightarrow> unparsable + bytes" where
  "git_text bs = ok_or Unparsable (from_utf8 bs)"

text \<open>The variables of \<open>status\<close>'s loop.\<close>

record scan_state =
  ss_changes :: changes
  ss_name :: "bytes option"
  ss_upstream :: "bytes option"
  ss_tracked :: bool
  ss_commit :: "bytes option"

definition scan_start :: scan_state where
  "scan_start = \<lparr>ss_changes = Clean, ss_name = None, ss_upstream = None, ss_tracked = False,
     ss_commit = None\<rparr>"

definition scan_header :: "scan_state \<Rightarrow> bytes \<Rightarrow> bytes \<Rightarrow> scan_state" where
  "scan_header st key v =
     (if key = ''branch.oid'' \<and> v \<noteq> ''(initial)'' then st\<lparr>ss_commit := Some v\<rparr>
      else if key = ''branch.head'' then st\<lparr>ss_name := Some v\<rparr>
      else if key = ''branch.upstream'' then st\<lparr>ss_upstream := Some v\<rparr>
      else if key = ''branch.ab'' then st\<lparr>ss_tracked := True\<rparr>
      else st)"

fun scan_records :: "scan_state \<Rightarrow> bytes list \<Rightarrow> unparsable + scan_state" where
  "scan_records st [] = Inr st"
| "scan_records st (r # rs) =
     (case strip_prefix ''# '' r of
        None \<Rightarrow> scan_records (st\<lparr>ss_changes := Dirty\<rparr>) rs
      | Some header \<Rightarrow>
          result_bind (git_text header) (\<lambda>text.
          result_bind (ok_or Unparsable (split_once (CHR '' '') text)) (\<lambda>(key, v).
          scan_records (scan_header st key v) rs)))"

definition nul :: char where
  "nul = char_of (0 :: nat)"

definition newline :: char where
  "newline = char_of (10 :: nat)"

definition status :: "bytes \<Rightarrow> unparsable + status_report" where
  "status output =
     result_bind (scan_records scan_start (filter (\<lambda>r. r \<noteq> []) (split_on (\<lambda>b. b = nul) output)))
       (\<lambda>st. result_bind (ok_or Unparsable (ss_name st)) (\<lambda>name.
         Inr \<lparr>gs_changes = ss_changes st,
              gs_head =
                (if name = ''(detached)'' then Detached
                 else Branch name
                   (case (ss_upstream st, ss_tracked st) of
                      (None, _) \<Rightarrow> NoUpstream
                    | (Some tracked, True) \<Rightarrow> Tracking tracked
                    | (Some gone, False) \<Rightarrow> upstream.Gone gone)),
              gs_commit = ss_commit st\<rparr>))"

definition default_branches :: "bytes \<Rightarrow> unparsable + bytes list" where
  "default_branches output =
     collect_results (map git_text
       (List.map_filter
         (\<lambda>line. case split_on (\<lambda>b. b = nul) line of
            _ # target # _ \<Rightarrow> if target = [] then None else Some target
          | _ \<Rightarrow> None)
         (filter (\<lambda>line. line \<noteq> []) (split_on (\<lambda>b. b = newline) output))))"

definition names :: "bytes \<Rightarrow> bytes list" where
  "names output = filter (\<lambda>name. name \<noteq> []) (split_on (\<lambda>b. b = nul) output)"

definition commit_line :: "bytes \<Rightarrow> unparsable + bytes" where
  "commit_line line =
     result_bind (git_text line) (\<lambda>text.
       if 40 \<le> length text \<and> list_all is_ascii_hexdigit text then Inr text else Inl Unparsable)"

definition commits :: "bytes \<Rightarrow> unparsable + bytes list" where
  "commits output =
     collect_results (map commit_line
       (filter (\<lambda>line. line \<noteq> []) (split_on (\<lambda>b. b = newline) output)))"

section \<open>Facts\<close>

text \<open>The values of one header among the records, in order, and the last of them.\<close>

definition header_of :: "bytes \<Rightarrow> (bytes \<times> bytes) option" where
  "header_of r = Option.bind (strip_prefix ''# '' r) (split_once (CHR '' ''))"

definition header_values :: "bytes \<Rightarrow> bytes list \<Rightarrow> bytes list" where
  "header_values key rs =
     List.map_filter (\<lambda>r. case header_of r of Some (k, v) \<Rightarrow> if k = key then Some v else None | None \<Rightarrow> None) rs"

definition latest :: "bytes option \<Rightarrow> bytes list \<Rightarrow> bytes option" where
  "latest start vs = (if vs = [] then start else Some (last vs))"

lemma latest_Nil [simp]: "latest start [] = start"
  by (simp add: latest_def)

lemma latest_Cons [simp]: "latest start (v # vs) = latest (Some v) vs"
  by (simp add: latest_def)

lemma header_values_Nil [simp]: "header_values key [] = []"
  by (simp add: header_values_def)

lemma header_values_Cons:
  "header_values key (r # rs) =
     (case header_of r of Some (k, v) \<Rightarrow> if k = key then v # header_values key rs else header_values key rs
      | None \<Rightarrow> header_values key rs)"
  by (simp add: header_values_def split: option.splits)

text \<open>A record that is not a header, or a header with valid text and a separating space.\<close>

definition record_ok :: "bytes \<Rightarrow> bool" where
  "record_ok r \<longleftrightarrow> (starts_with ''# '' r \<longrightarrow> header_of r \<noteq> None \<and> utf8_valid (drop 2 r))"

lemma scan_records_Inr:
  "scan_records st rs = Inr st' \<longleftrightarrow>
     (\<forall>r \<in> set rs. record_ok r) \<and>
     ss_changes st' = (if \<forall>r \<in> set rs. starts_with ''# '' r then ss_changes st else Dirty) \<and>
     ss_name st' = latest (ss_name st) (header_values ''branch.head'' rs) \<and>
     ss_upstream st' = latest (ss_upstream st) (header_values ''branch.upstream'' rs) \<and>
     ss_tracked st' = (ss_tracked st \<or> header_values ''branch.ab'' rs \<noteq> []) \<and>
     ss_commit st' = latest (ss_commit st)
       (filter (\<lambda>v. v \<noteq> ''(initial)'') (header_values ''branch.oid'' rs))"
proof (induction st rs rule: scan_records.induct)
  case (1 st)
  show ?case by auto
next
  case (2 st r rs)
  show ?case
  proof (cases "strip_prefix ''# '' r")
    case None
    then have "\<not> starts_with ''# '' r" by (rule strip_prefix_None [THEN iffD1])
    moreover have "header_of r = None" by (simp add: header_of_def None)
    ultimately show ?thesis
      using 2(1) [OF None] None by (simp add: record_ok_def header_values_Cons)
  next
    case (Some h)
    then have r: "r = ''# '' @ h" by (simp only: strip_prefix_Some)
    then have s: "starts_with ''# '' r" "drop 2 r = h" by (auto simp: starts_with_iff)
    have header: "header_of r = split_once (CHR '' '') h" by (simp add: header_of_def Some)
    show ?thesis
    proof (cases "utf8_valid h \<and> split_once (CHR '' '') h \<noteq> None")
      case False
      then have "scan_records st (r # rs) \<noteq> Inr st'"
        using Some
        by (cases "split_once (CHR '' '') h") (auto simp: git_text_def from_utf8_def split: if_splits)
      moreover have "\<not> record_ok r" using False s header by (auto simp: record_ok_def)
      ultimately show ?thesis by simp
    next
      case True
      then obtain k v where kv: "split_once (CHR '' '') h = Some (k, v)" by auto
      have "git_text h = Inr h" using True by (simp add: git_text_def from_utf8_def)
      then have "scan_records st (r # rs) = scan_records (scan_header st k v) rs"
        using Some kv by simp
      moreover have "record_ok r" using True s header by (simp add: record_ok_def)
      ultimately show ?thesis
        using 2(2) [OF Some, of k v] s header kv
        by (simp add: header_values_Cons scan_header_def)
    qed
  qed
qed

lemma split_terminated:
  "\<forall>n \<in> set ns. s \<notin> set n \<Longrightarrow> split_on (\<lambda>b. b = s) (concat (map (\<lambda>n. n @ [s]) ns)) = ns @ [[]]"
proof (induction ns)
  case (Cons n ns)
  then have "split_on (\<lambda>b. b = s) (n @ s # concat (map (\<lambda>n. n @ [s]) ns)) =
      n # split_on (\<lambda>b. b = s) (concat (map (\<lambda>n. n @ [s]) ns))"
    by (intro split_on_append) auto
  with Cons show ?case by simp
qed simp

lemma commit_line_Inr:
  "commit_line l = Inr c \<longleftrightarrow> c = l \<and> 40 \<le> length l \<and> list_all is_ascii_hexdigit l"
proof -
  have "utf8_valid l" if "list_all is_ascii_hexdigit l"
  proof (rule utf8_valid_ascii)
    show "is_ascii l" unfolding is_ascii_def
      by (rule list.pred_mono_strong [OF that]) (auto simp: is_ascii_hexdigit_def is_ascii_digit_def)
  qed
  then show ?thesis
    by (auto simp: commit_line_def git_text_def from_utf8_def result_simps split: if_splits)
qed

section \<open>Guarantees\<close>

text \<open>The status parser accepts exactly the outputs whose headers are valid text with
  a separating space and that name a head. It then reports clean exactly when every record is a
  header; the head, its upstream and the commit are those of the last header of their kind; an
  upstream is tracked exactly when git also counted how far ahead and behind it is.\<close>

theorem status_exactly:
  "status output = Inr s \<longleftrightarrow>
     (let rs = names output; heads = header_values ''branch.head'' rs;
          ups = header_values ''branch.upstream'' rs in
      (\<forall>r \<in> set rs. record_ok r) \<and> heads \<noteq> [] \<and>
      (gs_changes s = Clean \<longleftrightarrow> (\<forall>r \<in> set rs. starts_with ''# '' r)) \<and>
      gs_head s =
        (if last heads = ''(detached)'' then Detached
         else Branch (last heads)
           (if ups = [] then NoUpstream
            else if header_values ''branch.ab'' rs \<noteq> [] then Tracking (last ups)
            else upstream.Gone (last ups))) \<and>
      gs_commit s = latest None (filter (\<lambda>v. v \<noteq> ''(initial)'') (header_values ''branch.oid'' rs)))"
proof -
  let ?rs = "names output"
  let ?st = "\<lparr>ss_changes = (if \<forall>r \<in> set ?rs. starts_with ''# '' r then Clean else Dirty),
      ss_name = latest None (header_values ''branch.head'' ?rs),
      ss_upstream = latest None (header_values ''branch.upstream'' ?rs),
      ss_tracked = (header_values ''branch.ab'' ?rs \<noteq> []),
      ss_commit = latest None (filter (\<lambda>v. v \<noteq> ''(initial)'') (header_values ''branch.oid'' ?rs))\<rparr>"
  have scan: "scan_records scan_start ?rs = Inr st \<longleftrightarrow> (\<forall>r \<in> set ?rs. record_ok r) \<and> st = ?st" for st
    unfolding scan_records_Inr by (cases st) (auto simp: scan_start_def)
  have clean: "gs_changes s = (if P then Clean else Dirty) \<longleftrightarrow> (gs_changes s = Clean \<longleftrightarrow> P)" for P
    by (cases "gs_changes s") auto
  have fields: "s = \<lparr>gs_changes = a, gs_head = b, gs_commit = c\<rparr> \<longleftrightarrow>
      gs_changes s = a \<and> gs_head s = b \<and> gs_commit s = c" for a b c
    by (cases s) auto
  show ?thesis
    unfolding status_def names_def [symmetric] result_bind_Inr scan Let_def clean [symmetric]
    by (cases "header_values ''branch.head'' ?rs = []";
        cases "header_values ''branch.upstream'' ?rs = []";
        cases "header_values ''branch.ab'' ?rs = []")
      (auto simp: latest_def fields ok_or_Inr)
qed

theorem status_exactly_witness:
  "status (''# branch.head main'' @ [nul] @ ''? x'' @ [nul]) =
     Inr \<lparr>gs_changes = Dirty, gs_head = Branch ''main'' NoUpstream, gs_commit = None\<rparr>"
proof -
  let ?rs = "[''# branch.head main'', ''? x'']"
  have "nul \<notin> set ''# branch.head main''" "nul \<notin> set ''? x''" by (simp_all add: nul_def char_of_def)
  then have names: "names (''# branch.head main'' @ [nul] @ ''? x'' @ [nul]) = ?rs"
    using split_terminated [of ?rs nul] by (simp add: names_def)
  have header: "header_of ''# branch.head main'' = Some (''branch.head'', ''main'')"
    "header_of ''? x'' = None"
    by (simp_all add: header_of_def strip_prefix_def split_once_def)
  have "utf8_valid ''branch.head main''" by (rule utf8_valid_ascii) (simp add: is_ascii_def)
  then have ok: "\<forall>r \<in> set ?rs. record_ok r"
    using header by (simp add: record_ok_def starts_with_def)
  show ?thesis
    unfolding status_exactly Let_def names
    using ok by (simp add: header_values_def header starts_with_def latest_def map_filter_simps)
qed

text \<open>Listing and parsing commits are exact: the names between NUL bytes come back as
  they were written, and every accepted commit line is at least forty hexadecimal digits.\<close>

theorem names_and_commits_exactly:
  "(list_all (\<lambda>n. n \<noteq> [] \<and> nul \<notin> set n) ns \<longrightarrow> names (concat (map (\<lambda>n. n @ [nul]) ns)) = ns) \<and>
   (list_all (\<lambda>c. 40 \<le> length c \<and> list_all is_ascii_hexdigit c) cs \<longleftrightarrow>
      commits (concat (map (\<lambda>c. c @ [newline]) cs)) = Inr cs)"
proof
  show "list_all (\<lambda>n. n \<noteq> [] \<and> nul \<notin> set n) ns \<longrightarrow> names (concat (map (\<lambda>n. n @ [nul]) ns)) = ns"
    by (auto simp: names_def split_terminated list_all_iff filter_id_conv)
  let ?out = "concat (map (\<lambda>c. c @ [newline]) cs)"
  show "list_all (\<lambda>c. 40 \<le> length c \<and> list_all is_ascii_hexdigit c) cs \<longleftrightarrow> commits ?out = Inr cs"
  proof
    assume hex: "list_all (\<lambda>c. 40 \<le> length c \<and> list_all is_ascii_hexdigit c) cs"
    have "\<not> is_ascii_hexdigit newline"
      by (simp add: newline_def is_ascii_hexdigit_def is_ascii_digit_def)
    with hex have "\<forall>c \<in> set cs. newline \<notin> set c" by (auto simp: list_all_iff)
    moreover have "filter (\<lambda>line. line \<noteq> []) cs = cs" using hex by (auto simp: list_all_iff filter_id_conv)
    moreover have "map commit_line cs = map Inr cs"
      using hex by (auto simp: list_all_iff commit_line_Inr)
    ultimately show "commits ?out = Inr cs"
      by (simp add: commits_def split_terminated collect_results_Inr)
  next
    assume "commits ?out = Inr cs"
    then obtain ls where "map commit_line ls = map Inr cs"
      unfolding commits_def collect_results_Inr by blast
    then have "Inr ` set cs = commit_line ` set ls" by (metis list.set_map)
    then have "\<forall>c \<in> set cs. \<exists>l. commit_line l = Inr c" by (metis imageI imageE)
    then show "list_all (\<lambda>c. 40 \<le> length c \<and> list_all is_ascii_hexdigit c) cs"
      by (auto simp: commit_line_Inr list_all_iff)
  qed
qed

end
