(* ===== verification/Events.thy ===== *)
theory Events
  imports Text_Bytes
begin

text \<open>
  Which git hooks lead to a cleanup (\<open>crates/core/src/event.rs\<close>): the updates a reference
  transaction lists on its input, and the relevance of an event.
\<close>

datatype event = PostMerge | PostCheckout | ReferenceTransaction

fun event_as_str :: "event \<Rightarrow> bytes" where
  "event_as_str PostMerge = ''post-merge''"
| "event_as_str PostCheckout = ''post-checkout''"
| "event_as_str ReferenceTransaction = ''reference-transaction''"

fun reads_updates :: "event \<Rightarrow> bool" where
  "reads_updates ReferenceTransaction \<longleftrightarrow> True"
| "reads_updates PostMerge \<longleftrightarrow> False"
| "reads_updates PostCheckout \<longleftrightarrow> False"

record update =
  up_new :: bytes
  up_reference :: bytes

definition update_deletes :: "update \<Rightarrow> bool" where
  "update_deletes u \<longleftrightarrow> up_new u \<noteq> [] \<and> list_all (\<lambda>b. b = CHR ''0'') (up_new u)"

definition updates :: "bytes \<Rightarrow> update list" where
  "updates input =
     List.map_filter
       (\<lambda>line. case split_whitespace line of
          _ # new # reference # _ \<Rightarrow> Some \<lparr>up_new = new, up_reference = reference\<rparr>
        | _ \<Rightarrow> None)
       (lines (from_utf8_lossy input))"

datatype relevance = Relevant | Irrelevant | NeedsDefaults

definition remote_updates :: "update list \<Rightarrow> update list" where
  "remote_updates us = filter (\<lambda>u. starts_with ''refs/remotes/'' (up_reference u)) us"

definition event_relevance ::
  "event \<Rightarrow> bytes list \<Rightarrow> update list \<Rightarrow> bytes list option \<Rightarrow> relevance" where
  "event_relevance ev arguments us defaults =
     (case ev of
        PostMerge \<Rightarrow> Relevant
      | PostCheckout \<Rightarrow>
          (if 2 < length arguments \<and> arguments ! 2 = ''1'' then Relevant else Irrelevant)
      | ReferenceTransaction \<Rightarrow>
          (if arguments = [] \<or> hd arguments \<noteq> ''committed'' then Irrelevant
           else
             (let remote = remote_updates us in
              if remote = [] then Irrelevant
              else if list_ex update_deletes remote then Relevant
              else (case defaults of
                  None \<Rightarrow> NeedsDefaults
                | Some ds \<Rightarrow>
                    if list_ex (\<lambda>u. up_reference u \<in> set ds) remote then Relevant
                    else Irrelevant))))"

section \<open>Guarantees\<close>

text \<open>Asking for relevance without the default branches is a sound first answer:
  whenever it is not the request for the defaults, it is the answer for every list of defaults;
  and it asks only for a committed transaction that moves a remote branch and deletes none. With
  the defaults, a reference transaction is relevant exactly when it is committed and deletes a
  remote branch or moves a default one.\<close>

theorem relevance_two_stages:
  "(event_relevance ev arguments us None \<noteq> NeedsDefaults \<longrightarrow>
      event_relevance ev arguments us (Some ds) = event_relevance ev arguments us None) \<and>
   (event_relevance ev arguments us None = NeedsDefaults \<longleftrightarrow>
      ev = ReferenceTransaction \<and> (\<exists>rest. arguments = ''committed'' # rest) \<and>
      remote_updates us \<noteq> [] \<and> (\<forall>u \<in> set (remote_updates us). \<not> update_deletes u)) \<and>
   event_relevance ev arguments us (Some ds) \<noteq> NeedsDefaults \<and>
   (event_relevance ReferenceTransaction arguments us (Some ds) = Relevant \<longleftrightarrow>
      (\<exists>rest. arguments = ''committed'' # rest) \<and>
      (\<exists>u \<in> set us. starts_with ''refs/remotes/'' (up_reference u) \<and>
         (update_deletes u \<or> up_reference u \<in> set ds)))"
proof -
  have committed: "arguments = [] \<or> hd arguments \<noteq> ''committed'' \<longleftrightarrow>
      \<not> (\<exists>rest. arguments = ''committed'' # rest)" by (cases arguments) auto
  show ?thesis
    unfolding event_relevance_def Let_def committed
    by (cases ev) (auto simp: list_ex_iff remote_updates_def filter_empty_conv)
qed

theorem relevance_two_stages_witness:
  "event_relevance ReferenceTransaction [''committed'']
     [\<lparr>up_new = ''0'', up_reference = ''refs/remotes/o/x''\<rparr>] (Some []) = Relevant"
  using relevance_two_stages [of ReferenceTransaction "[''committed'']"
    "[\<lparr>up_new = ''0'', up_reference = ''refs/remotes/o/x''\<rparr>]" "[]"]
  by (simp add: starts_with_def update_deletes_def)

end
