(* ===== verification/Macho.thy ===== *)
theory Macho
  imports Text_Bytes Checked_Words
begin

text \<open>
  The Mach-O reader (\<open>crates/core/src/macho.rs\<close>). A \<open>usize\<close> is 64 bits wide, so
  \<open>usize::try_from\<close> of a 32-bit word succeeds; additions of offsets are checked.
\<close>

datatype mach_error = NotAnImage | Truncated | Malformed

record commands =
  cm_count :: u32
  cm_len :: u32

record symtab_command =
  sy_symbols :: u64
  sy_count :: u64
  sy_strings :: u64
  sy_strings_len :: u64

text \<open>Four little-endian bytes at an offset, when the slice holds them.\<close>

definition mach_word :: "bytes \<Rightarrow> u64 \<Rightarrow> u32 option" where
  "mach_word bs at =
     (case checked_add at 4 of
        None \<Rightarrow> None
      | Some final \<Rightarrow>
          if unat final \<le> length bs then Some (of_nat (of_le_bytes (take 4 (drop (unat at) bs))))
          else None)"

definition mach_header :: "bytes \<Rightarrow> mach_error + commands" where
  "mach_header bs =
     result_bind (ok_or Truncated (mach_word bs 0)) (\<lambda>magic.
       if magic \<noteq> 0xfeedfacf then Inl NotAnImage
       else result_bind (ok_or Truncated (mach_word bs 12)) (\<lambda>filetype.
         if filetype \<noteq> 0x2 \<and> filetype \<noteq> 0x6 \<and> filetype \<noteq> 0x8 then Inl NotAnImage
         else result_bind (ok_or Truncated (mach_word bs 16)) (\<lambda>count.
           result_bind (ok_or Truncated (mach_word bs 20)) (\<lambda>len.
             Inr \<lparr>cm_count = count, cm_len = len\<rparr>))))"

definition symtab_field :: "bytes \<Rightarrow> u64 \<Rightarrow> u64 \<Rightarrow> mach_error + u64" where
  "symtab_field commands at index =
     ok_or Truncated
       (map_option ucast
         (Option.bind (checked_mul index 4) (\<lambda>offset.
          Option.bind (checked_add offset 8) (\<lambda>offset.
          Option.bind (checked_add at offset) (\<lambda>offset. mach_word commands offset)))))"

definition symtab_at :: "bytes \<Rightarrow> u64 \<Rightarrow> mach_error + symtab_command" where
  "symtab_at commands at =
     result_bind (symtab_field commands at 0) (\<lambda>symbols.
     result_bind (symtab_field commands at 1) (\<lambda>count.
     result_bind (symtab_field commands at 2) (\<lambda>strings.
     result_bind (symtab_field commands at 3) (\<lambda>strings_len.
       Inr \<lparr>sy_symbols = symbols, sy_count = count, sy_strings = strings,
            sy_strings_len = strings_len\<rparr>))))"

text \<open>The loop of \<open>symtab\<close> over the commands still to read.\<close>

fun symtab_from :: "bytes \<Rightarrow> nat \<Rightarrow> u64 \<Rightarrow> symtab_command option \<Rightarrow> mach_error + symtab_command option" where
  "symtab_from commands 0 at found = Inr found"
| "symtab_from commands (Suc n) at found =
     result_bind (ok_or Truncated (mach_word commands at)) (\<lambda>command.
     result_bind (ok_or Malformed (checked_add at 4)) (\<lambda>at_size.
     result_bind (ok_or Truncated (mach_word commands at_size)) (\<lambda>sz.
       if sz < 8 then Inl Malformed
       else result_bind
         (if command = 0x2 then
            (if found \<noteq> None then Inl Malformed
             else result_bind (symtab_at commands at) (\<lambda>s. Inr (Some s)))
          else Inr found)
         (\<lambda>found.
            result_bind (ok_or Malformed (checked_add at (ucast sz))) (\<lambda>after.
              symtab_from commands n after found)))))"

definition symtab :: "bytes \<Rightarrow> u32 \<Rightarrow> mach_error + symtab_command" where
  "symtab commands count =
     result_bind (symtab_from commands (unat count) 0 None) (ok_or Malformed)"

text \<open>The string offsets of the debug-object symbols; a last chunk shorter than a symbol is
  not read.\<close>

fun symbol_chunks :: "bytes \<Rightarrow> bytes list" where
  "symbol_chunks bs =
     (if length bs < 16 then [] else take 16 bs # symbol_chunks (drop 16 bs))"

declare symbol_chunks.simps [simp del]

definition debug_objects :: "bytes \<Rightarrow> u32 list" where
  "debug_objects symbols =
     map (\<lambda>s. of_nat (of_le_bytes (take 4 s)))
       (filter (\<lambda>s. s ! 4 = char_of (0x66 :: nat)) (symbol_chunks symbols))"

definition terminated :: "bytes \<Rightarrow> bytes option" where
  "terminated bs =
     (if list_ex (\<lambda>b. code b = 0) bs then Some (takeWhile (\<lambda>b. code b \<noteq> 0) bs) else None)"

definition base_name :: "bytes \<Rightarrow> bytes" where
  "base_name path = rev (takeWhile (\<lambda>b. b \<noteq> CHR ''/'') (rev path))"

section \<open>Facts\<close>

lemma mach_word_Some:
  "mach_word bs at = Some w \<longleftrightarrow>
     unat at + 4 \<le> length bs \<and> unat at + 4 < 2 ^ 64 \<and>
     w = of_nat (of_le_bytes (take 4 (drop (unat at) bs)))"
proof (cases "unat at + 4 < 2 ^ 64")
  case True
  then have "checked_add at 4 = Some (at + 4)" by (simp add: checked_add_def)
  moreover from this have "unat (at + 4) = unat at + 4" unfolding checked_add_Some by simp
  ultimately show ?thesis using True by (auto simp: mach_word_def)
next
  case False
  then show ?thesis by (auto simp: mach_word_def checked_add_def)
qed

lemma unat_wide: "unat (ucast (w :: u32) :: u64) = unat w"
proof -
  have "unat w < 2 ^ 32" using unsigned_less [of w] by simp
  then have "unat w < 2 ^ 64" by simp
  then show ?thesis by (simp add: unsigned_ucast_eq take_bit_nat_eq_self)
qed

lemma mach_word_next:
  "mach_word bs at = Some c \<Longrightarrow> checked_add at 4 = Some (at + 4) \<and> unat (at + 4) = unat at + 4"
proof -
  assume "mach_word bs at = Some c"
  then have "unat at + 4 < 2 ^ 64" by (simp add: mach_word_Some)
  then have "checked_add at 4 = Some (at + 4)" by (simp add: checked_add_def)
  then show ?thesis by (simp add: checked_add_Some)
qed

lemma symtab_from_Suc:
  "symtab_from commands (Suc n) at found = Inr found' \<longleftrightarrow>
     (\<exists>command sz mid after. mach_word commands at = Some command \<and>
        mach_word commands (at + 4) = Some sz \<and> unat at + 8 \<le> length commands \<and> 8 \<le> unat sz \<and>
        (if command = 2 then found = None \<and> (\<exists>s. symtab_at commands at = Inr s \<and> mid = Some s)
         else mid = found) \<and>
        unat after = unat at + unat sz \<and> symtab_from commands n after mid = Inr found')"
proof -
  note four = mach_word_next
  have room: "unat at + 8 \<le> length commands"
    if "mach_word commands at = Some c" "mach_word commands (at + 4) = Some d" for c d
    using four [OF that(1)] that(2) by (simp add: mach_word_Some)
  have after: "checked_add at (ucast sz) = Some a \<longleftrightarrow> unat a = unat at + unat sz" for sz :: u32 and a
    unfolding checked_add_Some by (simp add: unat_wide)
  have eight: "\<not> sz < 8 \<longleftrightarrow> 8 \<le> unat sz" for sz :: u32 by (simp add: word_less_nat_alt not_less)
  show ?thesis
  proof (cases "mach_word commands at")
    case (Some c)
    have "symtab_from commands (Suc n) at found = Inr found' \<longleftrightarrow>
      (\<exists>sz mid a. mach_word commands (at + 4) = Some sz \<and> \<not> sz < 8 \<and>
        (if c = 2 then found = None \<and> (\<exists>s. symtab_at commands at = Inr s \<and> mid = Some s)
         else mid = found) \<and>
        checked_add at (ucast sz) = Some a \<and> symtab_from commands n a mid = Inr found')"
      using four [OF Some] Some
      by (cases "c = 2"; cases found; simp add: result_simps split: if_splits; blast)
    then show ?thesis unfolding after eight using Some room [OF Some] by auto
  qed (simp add: result_simps)
qed

lemma symtab_from_bound:
  "symtab_from commands n at found = Inr found' \<Longrightarrow> n = 0 \<or> unat at + 8 * n \<le> length commands"
proof (induction n arbitrary: at found)
  case (Suc n)
  from Suc.prems obtain sz :: u32 and mid after where
    "unat at + 8 \<le> length commands" "8 \<le> unat sz" "unat after = unat at + unat sz"
    "symtab_from commands n after mid = Inr found'"
    unfolding symtab_from_Suc by blast
  with Suc.IH show ?case by fastforce
qed simp

text \<open>The little-endian word at an offset, and the offsets of the load commands: each starts where
  the size of the one before it says.\<close>

definition word_at :: "bytes \<Rightarrow> nat \<Rightarrow> nat" where
  "word_at bs at = of_le_bytes (take 4 (drop at bs))"

fun command_offsets :: "bytes \<Rightarrow> nat \<Rightarrow> nat \<Rightarrow> nat list" where
  "command_offsets commands 0 at = []"
| "command_offsets commands (Suc n) at =
     at # command_offsets commands n (at + word_at commands (at + 4))"

lemma word_at_bound: "word_at bs at < 2 ^ 32"
proof -
  have "word_at bs at < 256 ^ length (take 4 (drop at bs))"
    unfolding word_at_def by (rule of_le_bytes_bound)
  also have "\<dots> \<le> 256 ^ 4" by (rule power_increasing) simp_all
  finally show ?thesis by simp
qed

lemma mach_word_at: "mach_word bs at = Some w \<Longrightarrow> unat at + 4 \<le> length bs \<and> unat w = word_at bs (unat at)"
  using word_at_bound [of bs "unat at"]
  by (auto simp: mach_word_Some word_at_def unat_of_nat)

lemma symtab_field_Inr:
  "symtab_field commands at i = Inr v \<Longrightarrow> i < 4 \<Longrightarrow>
   unat at + 12 + 4 * unat i \<le> length commands \<and> unat v = word_at commands (unat at + 8 + 4 * unat i)"
proof -
  assume "symtab_field commands at i = Inr v" and i: "i < 4"
  then obtain a b c w where "checked_mul i 4 = Some a" "checked_add a 8 = Some b"
    "checked_add at b = Some c" "mach_word commands c = Some w" "v = ucast w"
    by (auto simp: symtab_field_def result_simps bind_eq_Some_conv)
  then show ?thesis
    by (auto simp: checked_mul_Some checked_add_Some unat_wide dest!: mach_word_at)
      (simp_all add: algebra_simps)
qed

definition symtab_of :: "bytes \<Rightarrow> nat \<Rightarrow> symtab_command \<Rightarrow> bool" where
  "symtab_of commands at s \<longleftrightarrow>
     at + 24 \<le> length commands \<and>
     unat (sy_symbols s) = word_at commands (at + 8) \<and>
     unat (sy_count s) = word_at commands (at + 12) \<and>
     unat (sy_strings s) = word_at commands (at + 16) \<and>
     unat (sy_strings_len s) = word_at commands (at + 20)"

lemma symtab_at_Inr: "symtab_at commands at = Inr s \<Longrightarrow> symtab_of commands (unat at) s"
proof -
  assume "symtab_at commands at = Inr s"
  then obtain a b c d where fields: "symtab_field commands at 0 = Inr a"
    "symtab_field commands at 1 = Inr b" "symtab_field commands at 2 = Inr c"
    "symtab_field commands at 3 = Inr d"
    "s = \<lparr>sy_symbols = a, sy_count = b, sy_strings = c, sy_strings_len = d\<rparr>"
    by (auto simp: symtab_at_def result_simps)
  show ?thesis
    using symtab_field_Inr [OF fields(1)] symtab_field_Inr [OF fields(2)]
      symtab_field_Inr [OF fields(3)] symtab_field_Inr [OF fields(4)]
    by (simp add: symtab_of_def fields(5) add.assoc)
qed

lemma symtab_from_unique:
  "symtab_from commands n at found = Inr found' \<Longrightarrow>
   (\<forall>p \<in> set (command_offsets commands n (unat at)). p + 8 \<le> length commands) \<and>
   (case filter (\<lambda>p. word_at commands p = 2) (command_offsets commands n (unat at)) of
      [] \<Rightarrow> found' = found
    | [p] \<Rightarrow> found = None \<and> (\<exists>s. found' = Some s \<and> symtab_of commands p s)
    | _ \<Rightarrow> False)"
proof (induction n arbitrary: at found)
  case (Suc n)
  from Suc.prems obtain command sz :: u32 and mid after where
    step: "mach_word commands at = Some command" "mach_word commands (at + 4) = Some sz"
    "unat at + 8 \<le> length commands"
    "if command = 2 then found = None \<and> (\<exists>s. symtab_at commands at = Inr s \<and> mid = Some s)
     else mid = found"
    "unat after = unat at + unat sz" "symtab_from commands n after mid = Inr found'"
    unfolding symtab_from_Suc by blast
  have "unat (at + 4) = unat at + 4"
    using mach_word_next [OF step(1)] by simp
  then have sz: "unat after = unat at + word_at commands (unat at + 4)"
    using mach_word_at [OF step(2)] step(5) by simp
  have "command = 2 \<longleftrightarrow> word_at commands (unat at) = 2"
    using mach_word_at [OF step(1)] by (auto simp: word_unat_eq_iff)
  with Suc.IH [OF step(6)] step(3,4) show ?case
    by (auto simp: sz dest!: symtab_at_Inr split: list.splits if_splits)
qed simp

section \<open>Guarantees\<close>

text \<open>A header is accepted exactly when its first 24 bytes are there, they begin with
  the 64-bit magic, and the file is an executable, a dynamic library or a bundle; then the count
  and the length of the load commands are the words the format puts there.\<close>

theorem mach_header_exactly:
  "mach_header bs = Inr c \<longleftrightarrow>
     24 \<le> length bs \<and> word_at bs 0 = 0xfeedfacf \<and> word_at bs 12 \<in> {2, 6, 8} \<and>
     unat (cm_count c) = word_at bs 16 \<and> unat (cm_len c) = word_at bs 20"
proof -
  have word: "mach_word bs (word_of_nat at) = Some w \<longleftrightarrow> at + 4 \<le> length bs \<and> unat w = word_at bs at"
    if "at + 4 < 2 ^ 64" for at w
  proof -
    have at: "unat (word_of_nat at :: u64) = at" using that by (simp add: unat_of_nat)
    have "w = of_nat (word_at bs at) \<longleftrightarrow> unat w = word_at bs at"
      using word_at_bound [of bs at] by (auto simp: word_unat_eq_iff unat_of_nat)
    then show ?thesis using that by (simp add: mach_word_Some at word_at_def)
  qed
  have words: "mach_word bs 0 = Some w \<longleftrightarrow> 4 \<le> length bs \<and> unat w = word_at bs 0"
    "mach_word bs 12 = Some w \<longleftrightarrow> 16 \<le> length bs \<and> unat w = word_at bs 12"
    "mach_word bs 16 = Some w \<longleftrightarrow> 20 \<le> length bs \<and> unat w = word_at bs 16"
    "mach_word bs 20 = Some w \<longleftrightarrow> 24 \<le> length bs \<and> unat w = word_at bs 20" for w
    using word [of 0 w] word [of 12 w] word [of 16 w] word [of 20 w] by simp_all
  have word_ex: "\<exists>w :: u32. unat w = word_at bs at" for at
    using word_at_bound [of bs at] by (intro exI [of _ "of_nat (word_at bs at)"]) (simp add: unat_of_nat)
  have magic: "m = 0xfeedfacf \<longleftrightarrow> unat m = 0xfeedfacf" for m :: u32
    by (simp add: word_unat_eq_iff)
  have filetype: "f = 2 \<or> f = 6 \<or> f = 8 \<longleftrightarrow> unat f \<in> {2, 6, 8}" for f :: u32
    by (simp add: word_unat_eq_iff)
  have split: "mach_header bs = Inr c \<longleftrightarrow>
      (\<exists>m f. mach_word bs 0 = Some m \<and> m = 0xfeedfacf \<and> mach_word bs 12 = Some f \<and>
         (f = 2 \<or> f = 6 \<or> f = 8) \<and> mach_word bs 16 = Some (cm_count c) \<and>
         mach_word bs 20 = Some (cm_len c))"
  proof -
    have guard: "(if b then Inl e else r) = Inr x \<longleftrightarrow> \<not> b \<and> r = Inr x"
      for b and e :: mach_error and r and x :: commands by simp
    have made: "(Inr \<lparr>cm_count = a, cm_len = b\<rparr> :: mach_error + commands) = Inr c \<longleftrightarrow>
        a = cm_count c \<and> b = cm_len c" for a b by (cases c) auto
    show ?thesis unfolding mach_header_def result_bind_Inr ok_or_Inr guard made by blast
  qed
  show ?thesis
  proof
    assume "mach_header bs = Inr c"
    then show "24 \<le> length bs \<and> word_at bs 0 = 0xfeedfacf \<and> word_at bs 12 \<in> {2, 6, 8} \<and>
        unat (cm_count c) = word_at bs 16 \<and> unat (cm_len c) = word_at bs 20"
      unfolding split words magic filetype by metis
  next
    assume right: "24 \<le> length bs \<and> word_at bs 0 = 0xfeedfacf \<and> word_at bs 12 \<in> {2, 6, 8} \<and>
        unat (cm_count c) = word_at bs 16 \<and> unat (cm_len c) = word_at bs 20"
    from word_ex obtain m f :: u32 where "unat m = word_at bs 0" "unat f = word_at bs 12" by metis
    with right show "mach_header bs = Inr c"
      unfolding split words magic filetype by (intro exI [of _ m] exI [of _ f]) simp
  qed
qed

text \<open>A symbol table is accepted only from a well-formed list of load commands: every
  command starts inside the bytes, so the number of iterations is bounded by the bytes read and
  not by the count the file claims; exactly one command is a symbol table, and the four offsets
  and lengths are its words, all inside the bytes.\<close>

theorem symtab_bounded_and_unique:
  assumes "symtab commands count = Inr s"
  shows "8 * unat count \<le> length commands \<and>
    (\<exists>at. filter (\<lambda>p. word_at commands p = 2) (command_offsets commands (unat count) 0) = [at] \<and>
       symtab_of commands at s) \<and>
    (\<forall>p \<in> set (command_offsets commands (unat count) 0). p + 8 \<le> length commands)"
proof -
  from assms have run: "symtab_from commands (unat count) 0 None = Inr (Some s)"
    by (auto simp: symtab_def result_simps)
  have "8 * unat count \<le> length commands" using symtab_from_bound [OF run] by auto
  then show ?thesis
    using symtab_from_unique [OF run] by (auto split: list.splits)
qed

text \<open>One symbol-table command: symbols at 32, one of them, strings at 48, 5 bytes long.\<close>

definition ex_commands :: bytes where
  "ex_commands = map char_of [2, 0, 0, 0, 24, 0, 0, 0, 32, 0, 0, 0, 1, 0, 0, 0, 48, 0, 0, 0, 5, 0, 0, 0 :: nat]"

theorem symtab_bounded_and_unique_witness:
  "8 * unat (1 :: u32) \<le> length ex_commands \<and>
    (\<exists>s. symtab ex_commands 1 = Inr s \<and> symtab_of ex_commands 0 s)"
proof -
  let ?s = "\<lparr>sy_symbols = 32, sy_count = 1, sy_strings = 48, sy_strings_len = 5\<rparr>"
  have "symtab ex_commands 1 = Inr ?s"
    by (simp add: symtab_def ex_commands_def mach_word_def checked_add_def checked_mul_def
        symtab_at_def symtab_field_def)
  with symtab_bounded_and_unique [OF this] show ?thesis by (auto split: if_splits)
qed

end
