(* ===== verification/Stations.thy ===== *)
theory Stations
  imports Text_Bytes
begin

text \<open>
  The run station of a policy (\<open>crates/cli/src/store.rs\<close>): the pending flag, a file that
  every request appends a line to, and the run lock. Every operation on the flag is one atomic
  step, because the code serialises them with the requests lock. The answers of the file system
  are the parameter \<open>station_os\<close>: the error, if any, of each call an operation makes.
\<close>

section \<open>The station and the file system under it\<close>

record station =
  st_flag :: "bytes option"
  st_locked :: bool

definition idle_station :: station where
  "idle_station = \<lparr>st_flag = None, st_locked = False\<rparr>"

record 'io station_os =
  os_requests_lock :: "'io option"
  os_create_signal :: "'io option"
  os_open_flag :: "'io option"
  os_write_flag :: "(nat \<times> 'io) option"
  os_wake :: "'io option"
  os_remove_flag :: "'io option"
  os_stat_flag :: "'io option"
  os_try_lock :: "'io option"
  os_rename_flag :: "'io option"
  os_read_taken :: "'io option"
  os_remove_taken :: "'io option"

definition sound_os :: "'io station_os" where
  "sound_os =
     \<lparr>os_requests_lock = None, os_create_signal = None, os_open_flag = None,
      os_write_flag = None, os_wake = None, os_remove_flag = None, os_stat_flag = None,
      os_try_lock = None, os_rename_flag = None, os_read_taken = None, os_remove_taken = None\<rparr>"

section \<open>Requests\<close>

definition global_request :: bytes where
  "global_request = [char_of (0 :: nat)]"

definition newline :: char where
  "newline = char_of (10 :: nat)"

definition request_line :: "bytes option \<Rightarrow> bytes" where
  "request_line repository =
     (case repository of Some r \<Rightarrow> r | None \<Rightarrow> global_request) @ [newline]"

text \<open>
  \<open>raise_from\<close>: opening the flag creates it, a failing write leaves the part it had written,
  and the waiting watcher is woken once the line is on disk.
\<close>

definition raise_for :: "'io station_os \<Rightarrow> bytes option \<Rightarrow> station \<Rightarrow> ('io + unit) \<times> station" where
  "raise_for os repository st =
     (case os_requests_lock os of Some e \<Rightarrow> (Inl e, st) | None \<Rightarrow>
      case os_create_signal os of Some e \<Rightarrow> (Inl e, st) | None \<Rightarrow>
      case os_open_flag os of Some e \<Rightarrow> (Inl e, st) | None \<Rightarrow>
        (let line = request_line repository;
             old = (case st_flag st of None \<Rightarrow> [] | Some bs \<Rightarrow> bs) in
         case os_write_flag os of
           Some (n, e) \<Rightarrow> (Inl e, st\<lparr>st_flag := Some (old @ take n line)\<rparr>)
         | None \<Rightarrow>
             (case os_wake os of Some e \<Rightarrow> Inl e | None \<Rightarrow> Inr (),
              st\<lparr>st_flag := Some (old @ line)\<rparr>)))"

text \<open>The two ways a line of the flag is read; a line that is no text asks for everything.\<close>

definition named_request :: "bytes \<Rightarrow> bytes option" where
  "named_request line = from_utf8 line"

fun collect_options :: "'a option list \<Rightarrow> 'a list option" where
  "collect_options [] = Some []"
| "collect_options (None # xs) = None"
| "collect_options (Some x # xs) = map_option (\<lambda>ys. x # ys) (collect_options xs)"

definition requested :: "bytes \<Rightarrow> bytes set" where
  "requested content =
     (let segments = split_on (\<lambda>b. b = newline) content in
      if list_ex (\<lambda>segment. segment = global_request) segments then {}
      else case collect_options (map named_request (filter (\<lambda>segment. segment \<noteq> []) segments)) of
        None \<Rightarrow> {} | Some names \<Rightarrow> set names)"

definition take_requests :: "'io station_os \<Rightarrow> station \<Rightarrow> ('io + bytes set option) \<times> station" where
  "take_requests os st =
     (case os_requests_lock os of Some e \<Rightarrow> (Inl e, st) | None \<Rightarrow>
      case st_flag st of None \<Rightarrow> (Inr None, st) | Some content \<Rightarrow>
      case os_rename_flag os of Some e \<Rightarrow> (Inl e, st) | None \<Rightarrow>
        (case os_read_taken os of Some e \<Rightarrow> Inl e | None \<Rightarrow>
         case os_remove_taken os of Some e \<Rightarrow> Inl e | None \<Rightarrow> Inr (Some (requested content)),
         st\<lparr>st_flag := None\<rparr>))"

section \<open>The flag and the run lock\<close>

definition station_lower :: "'io station_os \<Rightarrow> station \<Rightarrow> ('io + bool) \<times> station" where
  "station_lower os st =
     (case os_requests_lock os of Some e \<Rightarrow> (Inl e, st) | None \<Rightarrow>
      case st_flag st of None \<Rightarrow> (Inr False, st) | Some _ \<Rightarrow>
      case os_remove_flag os of Some e \<Rightarrow> (Inl e, st) | None \<Rightarrow>
        (Inr True, st\<lparr>st_flag := None\<rparr>))"

definition station_raised :: "'io station_os \<Rightarrow> station \<Rightarrow> ('io + bool) \<times> station" where
  "station_raised os st =
     (case os_requests_lock os of Some e \<Rightarrow> (Inl e, st) | None \<Rightarrow>
      case os_stat_flag os of Some e \<Rightarrow> (Inl e, st) | None \<Rightarrow>
        (Inr (st_flag st \<noteq> None), st))"

definition station_hold :: "'io station_os \<Rightarrow> station \<Rightarrow> ('io + bool) \<times> station" where
  "station_hold os st =
     (case os_try_lock os of Some e \<Rightarrow> (Inl e, st) | None \<Rightarrow>
        if st_locked st then (Inr False, st) else (Inr True, st\<lparr>st_locked := True\<rparr>))"

definition station_release :: "station \<Rightarrow> station" where
  "station_release st = st\<lparr>st_locked := False\<rparr>"

section \<open>What the operations do\<close>

lemma raise_for_sound [simp]:
  "raise_for sound_os r st =
     (Inr (), st\<lparr>st_flag := Some ((case st_flag st of None \<Rightarrow> [] | Some bs \<Rightarrow> bs) @ request_line r)\<rparr>)"
  by (simp add: raise_for_def sound_os_def Let_def)

lemma take_requests_sound [simp]:
  "take_requests sound_os st =
     (Inr (map_option requested (st_flag st)), st\<lparr>st_flag := None\<rparr>)"
  by (cases "st_flag st") (simp_all add: take_requests_def sound_os_def)

lemma raise_for_keeps_lock: "st_locked (snd (raise_for os r st)) = st_locked st"
  by (simp add: raise_for_def Let_def split: option.splits prod.splits)

text \<open>A raise that returned without an error left the flag up.\<close>

lemma raise_for_up: "fst (raise_for os r st) = Inr () \<Longrightarrow> st_flag (snd (raise_for os r st)) \<noteq> None"
  by (auto simp: raise_for_def Let_def split: option.splits prod.splits)

text \<open>No raise takes an earlier request off the flag, whatever fails.\<close>

lemma raise_for_extends:
  "st_flag st = Some bs \<Longrightarrow> \<exists>more. st_flag (snd (raise_for os r st)) = Some (bs @ more)"
  by (auto simp: raise_for_def Let_def split: option.splits prod.splits)

section \<open>Requests made are requests taken\<close>

definition raise_all :: "bytes option list \<Rightarrow> station \<Rightarrow> station" where
  "raise_all rs st = foldl (\<lambda>s r. snd (raise_for (sound_os :: unit station_os) r s)) st rs"

definition plain_name :: "bytes \<Rightarrow> bool" where
  "plain_name r \<longleftrightarrow> r \<noteq> [] \<and> newline \<notin> set r"

lemma raise_all_flag:
  "st_flag (raise_all rs st) =
     (if rs = [] then st_flag st
      else Some ((case st_flag st of None \<Rightarrow> [] | Some bs \<Rightarrow> bs) @ concat (map request_line rs)))"
proof (induction rs rule: rev_induct)
  case (snoc r rs)
  then show ?case by (simp add: raise_all_def)
qed (simp add: raise_all_def)

lemma global_request_clean: "newline \<notin> set global_request"
  by (simp add: newline_def global_request_def)

lemma split_request_lines:
  assumes "list_all (\<lambda>r. newline \<notin> set r) (map (case_option global_request id) rs)"
  shows "split_on (\<lambda>b. b = newline) (concat (map request_line rs)) =
     map (case_option global_request id) rs @ [[]]"
  using assms
proof (induction rs)
  case (Cons r rs)
  have line: "request_line r @ rest = (case_option global_request id r) @ newline # rest" for rest
    by (cases r) (simp_all add: request_line_def)
  from Cons.prems have "\<forall>x \<in> set (case_option global_request id r). x \<noteq> newline"
    by (cases r) auto
  then show ?case
    using Cons by (simp add: line split_on_append)
qed simp

lemma collect_options_map:
  "collect_options (map f xs) =
     (if list_all (\<lambda>x. f x \<noteq> None) xs then Some (map (\<lambda>x. the (f x)) xs) else None)"
proof (induction xs)
  case (Cons x xs)
  then show ?case by (cases "f x") auto
qed simp

lemma somes_the: "None \<notin> set rs \<Longrightarrow> {r. Some r \<in> set rs} = the ` set rs"
proof (induction rs)
  case (Cons r rs)
  then obtain x where "r = Some x" by (cases r) auto
  with Cons show ?case by auto
qed simp

lemma requested_lines:
  assumes "list_all (case_option True plain_name) rs"
  shows "requested (concat (map request_line rs)) =
     (if None \<in> set rs \<or> Some global_request \<in> set rs \<or>
         \<not> list_all (case_option True utf8_valid) rs then {}
      else {r. Some r \<in> set rs})"
proof -
  let ?name = "case_option global_request id"
  have clean: "list_all (\<lambda>r. newline \<notin> set r) (map ?name rs)"
    using assms global_request_clean
    by (auto simp: list_all_iff plain_name_def split: option.splits)
  have ex: "list_ex (\<lambda>s. s = global_request) (map ?name rs @ [[]]) \<longleftrightarrow>
      None \<in> set rs \<or> Some global_request \<in> set rs"
    by (force simp: list_ex_iff global_request_def split: option.splits)
  have nonempty: "filter (\<lambda>s. s \<noteq> []) (map ?name rs @ [[]]) = map ?name rs"
    using assms
    by (auto simp: list_all_iff plain_name_def global_request_def filter_id_conv split: option.splits)
  have requested: "requested (concat (map request_line rs)) =
      (if None \<in> set rs \<or> Some global_request \<in> set rs then {}
       else case collect_options (map named_request (map ?name rs)) of
         None \<Rightarrow> {} | Some names \<Rightarrow> set names)"
    unfolding requested_def Let_def split_request_lines [OF clean] ex nonempty ..
  show ?thesis
  proof (cases "None \<in> set rs \<or> Some global_request \<in> set rs")
    case True
    then show ?thesis unfolding requested by auto
  next
    case False
    then have some: "\<And>r. r \<in> set rs \<Longrightarrow> \<exists>n. r = Some n" by (metis not_None_eq)
    then have names: "map ?name rs = map the rs" by (auto dest!: some)
    have valid: "list_all (case_option True utf8_valid) rs = list_all (\<lambda>r. utf8_valid (the r)) rs"
      unfolding list_all_iff by (rule ball_cong [OF refl]) (auto dest!: some)
    have all: "{r. Some r \<in> set rs} = set (map the rs)"
      using False by (simp add: somes_the)
    have "collect_options (map named_request (map the rs)) =
        (if list_all (\<lambda>r. utf8_valid (the r)) rs then Some (map the rs) else None)"
      unfolding collect_options_map
      by (auto simp: named_request_def from_utf8_def list_all_iff o_def)
    with False show ?thesis unfolding requested names valid all by (simp split: if_splits)
  qed
qed


text \<open>What a take returns is what was asked since the last one: exactly the
  repositories that were named, or everything when a request was global or named no text. This
  holds for names that are not empty and hold no newline.\<close>

theorem requests_taken_exactly:
  assumes "list_all (case_option True plain_name) rs" and "rs \<noteq> []"
  shows "take_requests sound_os (raise_all rs idle_station) =
    (Inr (Some (if None \<in> set rs \<or> Some global_request \<in> set rs \<or>
       \<not> list_all (case_option True utf8_valid) rs then {} else {r. Some r \<in> set rs})),
     (raise_all rs idle_station)\<lparr>st_flag := None\<rparr>)"
  using assms requested_lines [OF assms(1)]
  by (simp add: raise_all_flag idle_station_def)

lemma two_plain_requests:
  "list_all (case_option True plain_name) [Some ''/a'', Some ''/b'', Some ''/a'']"
  "\<not> (None \<in> set [Some ''/a'', Some ''/b'', Some ''/a''] \<or>
     Some global_request \<in> set [Some ''/a'', Some ''/b'', Some ''/a''] \<or>
     \<not> list_all (case_option True utf8_valid) [Some ''/a'', Some ''/b'', Some ''/a''])"
  by code_simp+

theorem requests_taken_exactly_witness:
  "fst (take_requests (sound_os :: unit station_os)
       (raise_all [Some ''/a'', Some ''/b'', Some ''/a''] idle_station))
     = Inr (Some {r. Some r \<in> set [Some ''/a'', Some ''/b'', Some ''/a'']})"
  unfolding requests_taken_exactly [OF two_plain_requests(1) list.distinct(2)]
    if_not_P [OF two_plain_requests(2)] by (rule fst_conv)

text \<open>A repository whose path holds a newline is not asked for: the line splits and
  the take names its two parts.\<close>

theorem newline_splits_request:
  "fst (take_requests sound_os (raise_all [Some (''/a'' @ newline # ''b'')] idle_station)) =
     (Inr (Some {''/a'', ''b''}) :: unit + bytes set option)"
  by code_simp

end
