(* ===== verification/Coalescing.thy ===== *)
theory Coalescing
  imports Stations Sizes
begin

text \<open>
  Coalescing runs (\<open>crates/cli/src/coalesce.rs\<close> and the detached entry of \<open>hook.rs\<close>): an
  invocation raises the pending flag, tries to become the one holder of the run lock, serves
  the flag until it is down, and looks once more after it released the lock. \<open>drive\<close> is the
  code over any rendezvous; \<open>advance\<close> cuts it into one call per step, so that invocations of
  many processes interleave over one station.
\<close>

section \<open>The code\<close>

datatype coalescing = Ran u64 | Handed

datatype ('io, 'e) driven = Io 'io | Run 'e

record ('s, 'io) rendezvous =
  rv_raise :: "'s \<Rightarrow> ('io + unit) \<times> 's"
  rv_lower :: "'s \<Rightarrow> ('io + bool) \<times> 's"
  rv_raised :: "'s \<Rightarrow> ('io + bool) \<times> 's"
  rv_hold :: "'s \<Rightarrow> ('io + bool) \<times> 's"
  rv_release :: "'s \<Rightarrow> 's"

text \<open>The inner loop: a run for every flag that is found up.\<close>

partial_function (option) serve ::
  "('s, 'io) rendezvous \<Rightarrow> ('s \<Rightarrow> ('e + unit) \<times> 's) \<Rightarrow> u64 \<Rightarrow> 's
   \<Rightarrow> ((('io, 'e) driven + u64) \<times> 's) option" where
  "serve rv run runs s =
     (case rv_lower rv s of
        (Inl e, s1) \<Rightarrow> Some (Inl (Io e), s1)
      | (Inr up, s1) \<Rightarrow>
          if up then
            (case run s1 of
               (Inl e, s2) \<Rightarrow> Some (Inl (Run e), s2)
             | (Inr _, s2) \<Rightarrow> serve rv run (saturating_add runs 1) s2)
          else Some (Inr runs, s1))"

text \<open>The outer loop. The lock is dropped on every way out of the inner one.\<close>

partial_function (option) drive_loop ::
  "('s, 'io) rendezvous \<Rightarrow> ('s \<Rightarrow> ('e + unit) \<times> 's) \<Rightarrow> u64 \<Rightarrow> 's
   \<Rightarrow> ((('io, 'e) driven + coalescing) \<times> 's) option" where
  "drive_loop rv run runs s =
     (case rv_hold rv s of
        (Inl e, s1) \<Rightarrow> Some (Inl (Io e), s1)
      | (Inr held, s1) \<Rightarrow>
          if held then
            Option.bind (serve rv run runs s1) (\<lambda>(served, s2).
              (case served of
                 Inl e \<Rightarrow> Some (Inl e, rv_release rv s2)
               | Inr runs' \<Rightarrow>
                   (case rv_raised rv (rv_release rv s2) of
                      (Inl e, s3) \<Rightarrow> Some (Inl (Io e), s3)
                    | (Inr up, s3) \<Rightarrow>
                        if up then drive_loop rv run runs' s3 else Some (Inr (Ran runs'), s3))))
          else Some (Inr (if runs = 0 then Handed else Ran runs), s1))"

definition drive ::
  "('s, 'io) rendezvous \<Rightarrow> ('s \<Rightarrow> ('e + unit) \<times> 's) \<Rightarrow> 's
   \<Rightarrow> ((('io, 'e) driven + coalescing) \<times> 's) option" where
  "drive rv run s =
     (case rv_raise rv s of
        (Inl e, s1) \<Rightarrow> Some (Inl (Io e), s1)
      | (Inr _, s1) \<Rightarrow> drive_loop rv run 0 s1)"

text \<open>A probe for a running holder; a lock it obtained itself is dropped at once.\<close>

definition handed_off :: "('s, 'io) rendezvous \<Rightarrow> 's \<Rightarrow> ('io + bool) \<times> 's" where
  "handed_off rv s =
     (case rv_raise rv s of
        (Inl e, s1) \<Rightarrow> (Inl e, s1)
      | (Inr _, s1) \<Rightarrow>
          (case rv_hold rv s1 of
             (Inl e, s2) \<Rightarrow> (Inl e, s2)
           | (Inr held, s2) \<Rightarrow>
               if held then (Inr False, rv_release rv s2) else (Inr True, s2)))"

datatype 'p detached = HandedTo | Spawned 'p

text \<open>\<open>spawn\<close> starts the background process, which runs \<open>drive\<close> on its own.\<close>

definition detach ::
  "('s, 'io) rendezvous \<Rightarrow> ('s \<Rightarrow> ('io + 'p) \<times> 's) \<Rightarrow> 's \<Rightarrow> ('io + 'p detached) \<times> 's" where
  "detach rv spawn s =
     (case handed_off rv s of
        (Inl e, s1) \<Rightarrow> (Inl e, s1)
      | (Inr handed, s1) \<Rightarrow>
          if handed then (Inr HandedTo, s1)
          else (case spawn s1 of
                  (Inl e, s2) \<Rightarrow> (Inl e, s2)
                | (Inr p, s2) \<Rightarrow> (Inr (Spawned p), s2)))"

definition station_rendezvous :: "'io station_os \<Rightarrow> bytes option \<Rightarrow> (station, 'io) rendezvous" where
  "station_rendezvous os repository =
     \<lparr>rv_raise = raise_for os repository, rv_lower = station_lower os,
      rv_raised = station_raised os, rv_hold = station_hold os, rv_release = station_release\<rparr>"

section \<open>One call at a time\<close>

text \<open>Where an invocation stands: \<open>Offering\<close> to \<open>Spawning\<close> are the detached entry.\<close>

datatype ('io, 'e) pc =
    Offering | Probing | Dropping | Spawning
  | Raising | Holding u64 | Lowering u64 | Running u64
  | Releasing "('io, 'e) driven + u64" | Checking u64
  | Returned "('io, 'e) driven + coalescing"

fun advance ::
  "('s, 'io) rendezvous \<Rightarrow> ('s \<Rightarrow> ('e + unit) \<times> 's) \<Rightarrow> ('s \<Rightarrow> ('io + unit) \<times> 's)
   \<Rightarrow> ('io, 'e) pc \<times> 's \<Rightarrow> ('io, 'e) pc \<times> 's" where
  "advance rv run spawn (Offering, s) =
     (case rv_raise rv s of (Inl e, s1) \<Rightarrow> (Returned (Inl (Io e)), s1) | (Inr _, s1) \<Rightarrow> (Probing, s1))"
| "advance rv run spawn (Probing, s) =
     (case rv_hold rv s of (Inl e, s1) \<Rightarrow> (Returned (Inl (Io e)), s1)
      | (Inr held, s1) \<Rightarrow> (if held then Dropping else Returned (Inr Handed), s1))"
| "advance rv run spawn (Dropping, s) = (Spawning, rv_release rv s)"
| "advance rv run spawn (Spawning, s) =
     (case spawn s of (Inl e, s1) \<Rightarrow> (Returned (Inl (Io e)), s1) | (Inr _, s1) \<Rightarrow> (Raising, s1))"
| "advance rv run spawn (Raising, s) =
     (case rv_raise rv s of (Inl e, s1) \<Rightarrow> (Returned (Inl (Io e)), s1) | (Inr _, s1) \<Rightarrow> (Holding 0, s1))"
| "advance rv run spawn (Holding n, s) =
     (case rv_hold rv s of (Inl e, s1) \<Rightarrow> (Returned (Inl (Io e)), s1)
      | (Inr held, s1) \<Rightarrow>
          (if held then Lowering n else Returned (Inr (if n = 0 then Handed else Ran n)), s1))"
| "advance rv run spawn (Lowering n, s) =
     (case rv_lower rv s of (Inl e, s1) \<Rightarrow> (Releasing (Inl (Io e)), s1)
      | (Inr up, s1) \<Rightarrow> (if up then Running n else Releasing (Inr n), s1))"
| "advance rv run spawn (Running n, s) =
     (case run s of (Inl e, s1) \<Rightarrow> (Releasing (Inl (Run e)), s1)
      | (Inr _, s1) \<Rightarrow> (Lowering (saturating_add n 1), s1))"
| "advance rv run spawn (Releasing (Inl e), s) = (Returned (Inl e), rv_release rv s)"
| "advance rv run spawn (Releasing (Inr n), s) = (Checking n, rv_release rv s)"
| "advance rv run spawn (Checking n, s) =
     (case rv_raised rv s of (Inl e, s1) \<Rightarrow> (Returned (Inl (Io e)), s1)
      | (Inr up, s1) \<Rightarrow> (if up then Holding n else Returned (Inr (Ran n)), s1))"
| "advance rv run spawn (Returned r, s) = (Returned r, s)"

text \<open>What is left to do from each point, in terms of the code.\<close>

definition after_checking where
  "after_checking rv run n s =
     (case rv_raised rv s of
        (Inl e, s1) \<Rightarrow> Some (Inl (Io e), s1)
      | (Inr up, s1) \<Rightarrow> if up then drive_loop rv run n s1 else Some (Inr (Ran n), s1))"

definition after_releasing where
  "after_releasing rv run served s =
     (case served of
        Inl e \<Rightarrow> Some (Inl e, rv_release rv s)
      | Inr n \<Rightarrow> after_checking rv run n (rv_release rv s))"

definition after_lowering where
  "after_lowering rv run n s =
     Option.bind (serve rv run n s) (\<lambda>(served, s1). after_releasing rv run served s1)"

fun resume ::
  "('s, 'io) rendezvous \<Rightarrow> ('s \<Rightarrow> ('e + unit) \<times> 's) \<Rightarrow> ('io, 'e) pc \<Rightarrow> 's
   \<Rightarrow> ((('io, 'e) driven + coalescing) \<times> 's) option" where
  "resume rv run Raising s = drive rv run s"
| "resume rv run (Holding n) s = drive_loop rv run n s"
| "resume rv run (Lowering n) s = after_lowering rv run n s"
| "resume rv run (Running n) s =
     (case run s of
        (Inl e, s1) \<Rightarrow> after_releasing rv run (Inl (Run e)) s1
      | (Inr _, s1) \<Rightarrow> after_lowering rv run (saturating_add n 1) s1)"
| "resume rv run (Releasing served) s = after_releasing rv run served s"
| "resume rv run (Checking n) s = after_checking rv run n s"
| "resume rv run (Returned r) s = Some (r, s)"
| "resume rv run _ s = None"

fun on_lock_path :: "('io, 'e) pc \<Rightarrow> bool" where
  "on_lock_path Offering = False" | "on_lock_path Probing = False"
| "on_lock_path Dropping = False" | "on_lock_path Spawning = False"
| "on_lock_path _ = True"

lemma drive_loop_after_lowering:
  "drive_loop rv run runs s =
     (case rv_hold rv s of
        (Inl e, s1) \<Rightarrow> Some (Inl (Io e), s1)
      | (Inr held, s1) \<Rightarrow>
          if held then after_lowering rv run runs s1
          else Some (Inr (if runs = 0 then Handed else Ran runs), s1))"
  unfolding drive_loop.simps [of rv run runs s] after_lowering_def after_releasing_def
    after_checking_def ..

text \<open>A step of the machine does not change what is left to do.\<close>

lemma resume_advance:
  assumes "on_lock_path pc"
  shows "resume rv run pc s = (let (pc', s') = advance rv run spawn (pc, s) in resume rv run pc' s')"
proof (cases pc)
  case Raising
  then show ?thesis by (simp add: drive_def split: prod.split sum.split)
next
  case (Holding n)
  then show ?thesis by (simp add: drive_loop_after_lowering split: prod.split sum.split)
next
  case (Lowering n)
  then show ?thesis
    by (simp add: after_lowering_def serve.simps [of rv run n s] split: prod.split sum.split)
next
  case (Running n)
  then show ?thesis by (simp split: prod.split sum.split)
next
  case (Releasing r)
  then show ?thesis by (cases r) (simp_all add: after_releasing_def)
next
  case (Checking n)
  then show ?thesis by (simp add: after_checking_def split: prod.split sum.split)
qed (use assms in simp_all)

lemma on_lock_path_advance:
  "on_lock_path pc \<Longrightarrow> on_lock_path (fst (advance rv run spawn (pc, s)))"
proof (cases pc)
  case (Releasing r)
  then show ?thesis by (cases r) simp_all
qed (simp_all split: prod.split sum.split)

text \<open>The machine alone computes what the code computes.\<close>

lemma machine_returns:
  assumes "on_lock_path pc"
    and "(advance rv run spawn ^^ k) (pc, s) = (Returned r, s')"
  shows "resume rv run pc s = Some (r, s')"
  using assms
proof (induction k arbitrary: pc s)
  case (Suc k)
  obtain pc1 s1 where one: "advance rv run spawn (pc, s) = (pc1, s1)" by fastforce
  with Suc.prems have "(advance rv run spawn ^^ k) (pc1, s1) = (Returned r, s')"
    by (simp add: funpow_swap1)
  moreover have "on_lock_path pc1"
    using on_lock_path_advance [OF Suc.prems(1), of rv run spawn s] one by simp
  ultimately have "resume rv run pc1 s1 = Some (r, s')" by (rule Suc.IH [rotated])
  with resume_advance [OF Suc.prems(1), of rv run s spawn] one show ?case by simp
qed simp

definition reaches :: "(('p \<times> 's) \<Rightarrow> ('p \<times> 's)) \<Rightarrow> 'p \<times> 's \<Rightarrow> 'p \<times> 's \<Rightarrow> bool" where
  "reaches f a b \<longleftrightarrow> (\<exists>k. (f ^^ k) a = b)"

lemma reaches_refl: "reaches f a a"
  unfolding reaches_def by (rule exI [of _ 0]) simp

lemma reaches_step: "reaches f (f a) b \<Longrightarrow> reaches f a b"
  unfolding reaches_def by (metis funpow_Suc_right comp_apply)

lemma reaches_trans: "reaches f a b \<Longrightarrow> reaches f b c \<Longrightarrow> reaches f a c"
  unfolding reaches_def by (metis funpow_add comp_apply)

lemmas serve_induct = serve.raw_induct [rotated, consumes 1, case_names step]
lemmas drive_loop_induct = drive_loop.raw_induct [rotated, consumes 1, case_names step]

lemma serve_reaches:
  "serve rv run n s = Some res \<Longrightarrow>
   reaches (advance rv run spawn) (Lowering n, s) (Releasing (fst res), snd res)"
proof (induction rv run n s res rule: serve_induct)
  case (step serve rv run runs s res)
  from step(2) show ?case
    by (auto split: prod.splits sum.splits if_splits dest!: step(1))
      ((rule reaches_step, simp add: reaches_refl)+)
qed

lemma lowering_reaches:
  "serve rv run n s = Some (served, s1) \<Longrightarrow>
   reaches (advance rv run spawn) (Releasing served, s1) b \<Longrightarrow>
   reaches (advance rv run spawn) (Lowering n, s) b"
  using serve_reaches [of rv run n s "(served, s1)" spawn] by (auto intro: reaches_trans)

lemma drive_loop_reaches:
  "drive_loop rv run n s = Some res \<Longrightarrow>
   reaches (advance rv run spawn) (Holding n, s) (Returned (fst res), snd res)"
proof (induction rv run n s res rule: drive_loop_induct)
  case (step loop rv run runs s res)
  note hold = reaches_step [of "advance rv run spawn" "(Holding runs, s)"]
  show ?case
  proof (cases "rv_hold rv s")
    case (Pair held s1)
    show ?thesis
    proof (cases "held = Inr True")
      case True
      with Pair step(2) obtain served s2 where served: "serve rv run runs s1 = Some (served, s2)"
        by (auto split: if_splits Option.bind_splits)
      have "reaches (advance rv run spawn) (Releasing served, s2) (Returned (fst res), snd res)"
        using step(2) Pair True served
        by (auto split: prod.splits sum.splits if_splits dest!: step(1))
          ((rule reaches_step, simp add: reaches_refl)+)
      with served have "reaches (advance rv run spawn) (Lowering runs, s1) (Returned (fst res), snd res)"
        by (rule lowering_reaches)
      with Pair True show ?thesis by (intro hold) simp
    next
      case False
      with Pair step(2) show ?thesis
        by (intro hold) (auto split: sum.splits if_splits simp: reaches_refl)
    qed
  qed
qed

text \<open>The loop of \<open>drive\<close> is the step machine that the interleavings are made of:
  a run of the machine from the start ends in what the loop returns, with the same state.\<close>

theorem drive_machine:
  "drive rv run s = Some (r, s') \<longleftrightarrow>
   reaches (advance rv run spawn) (Raising, s) (Returned r, s')"
proof
  assume "drive rv run s = Some (r, s')"
  then show "reaches (advance rv run spawn) (Raising, s) (Returned r, s')"
    by (intro reaches_step [of _ "(Raising, s)"])
      (auto simp: drive_def reaches_refl split: prod.splits sum.splits dest: drive_loop_reaches)
next
  assume "reaches (advance rv run spawn) (Raising, s) (Returned r, s')"
  then obtain k where "(advance rv run spawn ^^ k) (Raising, s) = (Returned r, s')"
    unfolding reaches_def ..
  then have "resume rv run Raising s = Some (r, s')" by (rule machine_returns [rotated]) simp
  then show "drive rv run s = Some (r, s')" by simp
qed

end
