(* ===== verification/Coalescing_System.thy ===== *)
theory Coalescing_System
  imports Coalescing
begin

text \<open>
  Invocations \<open>0 .. n - 1\<close> over one station, each advancing one call at a time in any order and
  with any answers of the file system, the runs and the process launches. The sets record, for
  the statements, whose request is on the flag, whose is in the run under way, and whose was
  served by a run that began after it and succeeded.
\<close>

section \<open>The system\<close>

record ('io, 'e) coalesce_system =
  cs_station :: station
  cs_pcs :: "nat \<Rightarrow> ('io, 'e) pc"
  cs_waiting :: "nat set"
  cs_in_run :: "nat set"
  cs_served :: "nat set"

fun raises_next :: "('io, 'e) pc \<Rightarrow> bool" where
  "raises_next Offering = True" | "raises_next Raising = True" | "raises_next _ = False"

fun running :: "('io, 'e) pc \<Rightarrow> bool" where
  "running (Running n) = True" | "running _ = False"

fun holds_lock :: "('io, 'e) pc \<Rightarrow> bool" where
  "holds_lock Dropping = True" | "holds_lock (Lowering n) = True"
| "holds_lock (Running n) = True" | "holds_lock (Releasing r) = True" | "holds_lock _ = False"

fun failed :: "('io, 'e) pc \<Rightarrow> bool" where
  "failed (Releasing (Inl e)) = True" | "failed (Returned (Inl e)) = True" | "failed _ = False"

fun returned :: "('io, 'e) pc \<Rightarrow> bool" where
  "returned (Returned r) = True" | "returned _ = False"

definition run_outcome :: "'e option \<Rightarrow> station \<Rightarrow> ('e + unit) \<times> station" where
  "run_outcome answer st = ((case answer of None \<Rightarrow> Inr () | Some e \<Rightarrow> Inl e), st)"

definition record_step ::
  "nat \<Rightarrow> ('io, 'e) pc \<times> station \<Rightarrow> ('io, 'e) coalesce_system \<Rightarrow> ('io, 'e) coalesce_system" where
  "record_step i to s =
     (case to of (new, st) \<Rightarrow>
      \<lparr>cs_station = st,
       cs_pcs = (cs_pcs s)(i := new),
       cs_waiting =
         (if st_flag st = None then {}
          else if raises_next (cs_pcs s i) then insert i (cs_waiting s) else cs_waiting s),
       cs_in_run =
         (if running new then cs_waiting s else if running (cs_pcs s i) then {} else cs_in_run s),
       cs_served =
         (if running (cs_pcs s i) \<and> \<not> failed new then cs_served s \<union> cs_in_run s else cs_served s)\<rparr>)"

text \<open>One call of invocation \<open>i\<close>, which asks for the repository \<open>repositories i\<close>.\<close>

inductive coalesce_step ::
  "(nat \<Rightarrow> bytes option) \<Rightarrow> nat \<Rightarrow> ('io, 'e) coalesce_system \<Rightarrow> ('io, 'e) coalesce_system \<Rightarrow> bool"
  for repositories n where
  call: "\<lbrakk>i < n; \<not> returned (cs_pcs s i)\<rbrakk> \<Longrightarrow>
     coalesce_step repositories n s
       (record_step i
          (advance (station_rendezvous os (repositories i)) (run_outcome result)
             (run_outcome launch) (cs_pcs s i, cs_station s)) s)"

inductive_cases coalesce_stepE: "coalesce_step repositories n s t"

text \<open>Any station, locked by no one, and every invocation about to raise.\<close>

definition coalesce_init :: "station \<Rightarrow> (nat \<Rightarrow> bool) \<Rightarrow> ('io, 'e) coalesce_system" where
  "coalesce_init st detached =
     \<lparr>cs_station = st\<lparr>st_locked := False\<rparr>, cs_pcs = (\<lambda>i. if detached i then Offering else Raising),
      cs_waiting = {}, cs_in_run = {}, cs_served = {}\<rparr>"

inductive coalesce_path ::
  "(nat \<Rightarrow> bytes option) \<Rightarrow> nat \<Rightarrow> nat \<Rightarrow> ('io, 'e) coalesce_system \<Rightarrow> ('io, 'e) coalesce_system \<Rightarrow> bool"
  for repositories n where
  here: "coalesce_path repositories n 0 s s"
| more: "\<lbrakk>coalesce_path repositories n k s t; coalesce_step repositories n t u\<rbrakk> \<Longrightarrow>
     coalesce_path repositories n (Suc k) s u"

section \<open>Every schedule ends\<close>

text \<open>
  How often an invocation may still raise, and how far it is from its end while the flag keeps
  its state. A flag that goes up was paid for by a raise; going down pays for another round of
  every invocation.
\<close>

fun raises_left :: "('io, 'e) pc \<Rightarrow> nat" where
  "raises_left Offering = 2" | "raises_left Probing = 1" | "raises_left Dropping = 1"
| "raises_left Spawning = 1" | "raises_left Raising = 1" | "raises_left _ = 0"

fun distance :: "bool \<Rightarrow> ('io, 'e) pc \<Rightarrow> nat" where
  "distance up Offering = 10" | "distance up Probing = 9" | "distance up Dropping = 8"
| "distance up Spawning = 7" | "distance up Raising = 6"
| "distance up (Holding n) = (if up then 3 else 5)"
| "distance up (Lowering n) = (if up then 2 else 4)"
| "distance up (Running n) = (if up then 3 else 5)"
| "distance up (Releasing (Inl e)) = 1"
| "distance up (Releasing (Inr n)) = (if up then 5 else 3)"
| "distance up (Checking n) = (if up then 4 else 2)"
| "distance up (Returned r) = 0"

definition flag_up :: "('io, 'e) coalesce_system \<Rightarrow> bool" where
  "flag_up s \<longleftrightarrow> st_flag (cs_station s) \<noteq> None"

definition raise_budget :: "nat \<Rightarrow> ('io, 'e) coalesce_system \<Rightarrow> nat" where
  "raise_budget n s = (\<Sum>i<n. 2 * raises_left (cs_pcs s i)) + (if flag_up s then 1 else 0)"

definition total_distance :: "nat \<Rightarrow> ('io, 'e) coalesce_system \<Rightarrow> nat" where
  "total_distance n s = (\<Sum>i<n. distance (flag_up s) (cs_pcs s i))"

definition steps_left :: "nat \<Rightarrow> ('io, 'e) coalesce_system \<Rightarrow> nat" where
  "steps_left n s = raise_budget n s * (10 * n + 1) + total_distance n s"

lemma distance_le: "distance up p \<le> 10"
  by (cases "(up, p)" rule: distance.cases) auto

lemma total_distance_le: "total_distance n s \<le> 10 * n"
proof -
  have "total_distance n s \<le> (\<Sum>i<n. 10)"
    unfolding total_distance_def by (rule sum_mono) (rule distance_le)
  then show ?thesis by simp
qed

lemma sum_fun_upd:
  fixes g :: "'a \<Rightarrow> nat" and i n :: nat
  assumes "i < n"
  shows "(\<Sum>j<n. g ((f(i := x)) j)) + g (f i) = (\<Sum>j<n. g (f j)) + g x"
proof -
  have "(\<Sum>j<n. g ((f(i := x)) j)) = g x + (\<Sum>j\<in>{..<n} - {i}. g (f j))"
    using assms by (subst sum.remove [of "{..<n}" i]) auto
  moreover have "(\<Sum>j<n. g (f j)) = g (f i) + (\<Sum>j\<in>{..<n} - {i}. g (f j))"
    using assms by (subst sum.remove [of "{..<n}" i]) auto
  ultimately show ?thesis by simp
qed

lemmas station_calls =
  station_rendezvous_def run_outcome_def station_lower_def station_raised_def station_hold_def
  station_release_def

text \<open>Each call either spends budget, or leaves budget and flag and comes nearer to the end.\<close>

lemma advance_progress:
  assumes "advance (station_rendezvous os r) (run_outcome result) (run_outcome launch) (p, st) = (p', st')"
    and "\<not> returned p"
  shows "2 * raises_left p' + (if st_flag st' \<noteq> None then 1 else 0)
       < 2 * raises_left p + (if st_flag st \<noteq> None then 1 else 0) \<or>
     raises_left p' = raises_left p \<and> (st_flag st' \<noteq> None \<longleftrightarrow> st_flag st \<noteq> None) \<and>
     distance (st_flag st' \<noteq> None) p' < distance (st_flag st \<noteq> None) p"
  using assms
  by (cases "(True, p)" rule: distance.cases)
    (auto simp: station_calls split: prod.splits sum.splits option.splits if_splits)

lemma coalesce_step_decreases:
  "coalesce_step repositories n s t \<Longrightarrow> steps_left n t < steps_left n s"
proof (erule coalesce_stepE)
  fix i os result launch
  let ?to = "advance (station_rendezvous os (repositories i)) (run_outcome result)
    (run_outcome launch) (cs_pcs s i, cs_station s)"
  assume t: "t = record_step i ?to s" and i: "i < n" and run: "\<not> returned (cs_pcs s i)"
  obtain p st where to: "?to = (p, st)" by fastforce
  have pcs: "cs_pcs t = (cs_pcs s)(i := p)" and flag: "flag_up t \<longleftrightarrow> st_flag st \<noteq> None"
    by (simp_all add: t to record_step_def flag_up_def)
  have budget: "raise_budget n t + 2 * raises_left (cs_pcs s i) + (if flag_up s then 1 else 0) =
      raise_budget n s + 2 * raises_left p + (if flag_up t then 1 else 0)"
    using sum_fun_upd [OF i, of "\<lambda>q. 2 * raises_left q" "cs_pcs s" p]
    by (simp add: raise_budget_def pcs)
  have dist: "flag_up t = flag_up s \<Longrightarrow>
      total_distance n t + distance (flag_up s) (cs_pcs s i) = total_distance n s + distance (flag_up s) p"
    using sum_fun_upd [OF i, of "distance (flag_up s)" "cs_pcs s" p]
    by (simp add: total_distance_def pcs)
  have up: "flag_up s \<longleftrightarrow> st_flag (cs_station s) \<noteq> None" by (simp add: flag_up_def)
  consider (spent) "raise_budget n t < raise_budget n s"
    | (nearer) "raise_budget n t = raise_budget n s" "total_distance n t < total_distance n s"
    using advance_progress [OF to run, folded flag up]
  proof
    assume "2 * raises_left p + (if flag_up t then 1 else 0)
      < 2 * raises_left (cs_pcs s i) + (if flag_up s then 1 else 0)"
    with budget have "raise_budget n t < raise_budget n s" by linarith
    then show thesis by (rule spent)
  next
    assume "raises_left p = raises_left (cs_pcs s i) \<and> flag_up t = flag_up s \<and>
      distance (flag_up t) p < distance (flag_up s) (cs_pcs s i)"
    then have left: "raises_left p = raises_left (cs_pcs s i)" and same: "flag_up t = flag_up s"
      and near: "distance (flag_up t) p < distance (flag_up s) (cs_pcs s i)" by blast+
    from dist [OF same] near [unfolded same] have "total_distance n t < total_distance n s" by linarith
    moreover from budget left same have "raise_budget n t = raise_budget n s" by simp
    ultimately show thesis by (intro nearer)
  qed
  then show "steps_left n t < steps_left n s"
  proof cases
    case spent
    then have "raise_budget n t * (10 * n + 1) + (10 * n + 1) \<le> raise_budget n s * (10 * n + 1)"
      by (metis Suc_leI add.commute mult_Suc mult_le_mono1)
    then show ?thesis
      using total_distance_le [of n t] by (simp add: steps_left_def)
  qed (simp add: steps_left_def)
qed

lemma coalesce_path_decreases:
  "coalesce_path repositories n k s t \<Longrightarrow> k + steps_left n t \<le> steps_left n s"
  by (induction rule: coalesce_path.induct) (auto dest: coalesce_step_decreases)

lemma coalesce_init_budget: "steps_left n (coalesce_init st detached) \<le> (4 * n + 1) * (10 * n + 1) + 10 * n"
proof -
  have "(\<Sum>i<n. 2 * raises_left (cs_pcs (coalesce_init st detached) i)) \<le> (\<Sum>i<n. 4)"
    by (rule sum_mono) (simp add: coalesce_init_def)
  then have "raise_budget n (coalesce_init st detached) \<le> 4 * n + 1"
    unfolding raise_budget_def by (intro add_mono) (simp_all add: mult.commute)
  then show ?thesis
    unfolding steps_left_def using total_distance_le by (intro add_mono mult_le_mono1)
qed

text \<open>No invocation is ever stuck: only a returned one has no step.\<close>

lemma coalesce_step_exists:
  "i < n \<Longrightarrow> \<not> returned (cs_pcs s i) \<Longrightarrow> \<exists>t. coalesce_step repositories n s t"
  by (blast intro: coalesce_step.call)

section \<open>What holds along every schedule\<close>


definition some_failed :: "nat \<Rightarrow> ('io, 'e) coalesce_system \<Rightarrow> bool" where
  "some_failed n s \<longleftrightarrow> (\<exists>i<n. failed (cs_pcs s i))"

definition lock_invariant :: "nat \<Rightarrow> ('io, 'e) coalesce_system \<Rightarrow> bool" where
  "lock_invariant n s \<longleftrightarrow>
     (st_locked (cs_station s) \<longleftrightarrow> (\<exists>i<n. holds_lock (cs_pcs s i))) \<and>
     (\<forall>i<n. \<forall>j<n. holds_lock (cs_pcs s i) \<and> holds_lock (cs_pcs s j) \<longrightarrow> i = j)"

definition flag_invariant :: "nat \<Rightarrow> ('io, 'e) coalesce_system \<Rightarrow> bool" where
  "flag_invariant n s \<longleftrightarrow>
     (flag_up s \<and> 0 < n \<longrightarrow> some_failed n s \<or> (\<exists>i<n. \<not> returned (cs_pcs s i)))"

definition request_invariant :: "nat \<Rightarrow> ('io, 'e) coalesce_system \<Rightarrow> bool" where
  "request_invariant n s \<longleftrightarrow>
     (cs_waiting s \<noteq> {} \<longrightarrow> flag_up s) \<and>
     (cs_in_run s \<noteq> {} \<longrightarrow> (\<exists>i<n. running (cs_pcs s i))) \<and>
     (some_failed n s \<or>
      (\<forall>i<n. raises_next (cs_pcs s i) \<or> i \<in> cs_waiting s \<union> cs_in_run s \<union> cs_served s))"

definition coalesce_invariant :: "nat \<Rightarrow> ('io, 'e) coalesce_system \<Rightarrow> bool" where
  "coalesce_invariant n s \<longleftrightarrow> lock_invariant n s \<and> flag_invariant n s \<and> request_invariant n s"

lemma advance_lock:
  assumes "advance (station_rendezvous os r) (run_outcome result) (run_outcome launch) (p, st) = (p', st')"
  shows "st_locked st' = (if holds_lock p' = holds_lock p then st_locked st else holds_lock p')"
    and "\<not> holds_lock p \<Longrightarrow> holds_lock p' \<Longrightarrow> \<not> st_locked st"
  using assms raise_for_keeps_lock [of os r st]
  by (cases "(True, p)" rule: distance.cases;
      auto simp: station_calls split: prod.splits sum.splits option.splits if_splits)+

lemma advance_flag:
  assumes "advance (station_rendezvous os r) (run_outcome result) (run_outcome launch) (p, st) = (p', st')"
    and "\<not> returned p"
  shows "st_flag st \<noteq> None \<Longrightarrow> st_flag st' = None \<Longrightarrow> running p'"
    and "returned p' \<Longrightarrow> \<not> failed p' \<Longrightarrow> st_flag st' \<noteq> None \<Longrightarrow> \<not> holds_lock p \<and> st_locked st"
    and "raises_next p \<Longrightarrow> \<not> failed p' \<Longrightarrow> st_flag st' \<noteq> None"
    and "running p' \<Longrightarrow> holds_lock p \<and> \<not> running p \<and> \<not> raises_next p"
    and "failed p \<Longrightarrow> failed p'"
    and "raises_next p' \<Longrightarrow> p = Spawning"
  using assms raise_for_up [of os r st] raise_for_extends [of st _ os r]
  by (cases "(True, p)" rule: distance.cases;
      force simp: station_calls split: prod.splits sum.splits option.splits if_splits)+


lemma running_holds: "running p \<Longrightarrow> holds_lock p"
  by (cases p) simp_all

lemma recorded:
  "cs_station (record_step i (p, st) s) = st"
  "cs_pcs (record_step i (p, st) s) = (cs_pcs s)(i := p)"
  "flag_up (record_step i (p, st) s) \<longleftrightarrow> st_flag st \<noteq> None"
  "cs_waiting (record_step i (p, st) s) = (if st_flag st = None then {}
     else if raises_next (cs_pcs s i) then insert i (cs_waiting s) else cs_waiting s)"
  "cs_in_run (record_step i (p, st) s) = (if running p then cs_waiting s
     else if running (cs_pcs s i) then {} else cs_in_run s)"
  "cs_served (record_step i (p, st) s) = (if running (cs_pcs s i) \<and> \<not> failed p
     then cs_served s \<union> cs_in_run s else cs_served s)"
  by (simp_all add: record_step_def flag_up_def)

lemma lock_invariant_step:
  assumes inv: "lock_invariant n s" and i: "i < n"
    and to: "advance (station_rendezvous os r) (run_outcome result) (run_outcome launch)
      (cs_pcs s i, cs_station s) = (p, st)"
  shows "lock_invariant n (record_step i (p, st) s)"
proof -
  let ?t = "record_step i (p, st) s"
  note lock = advance_lock [OF to]
  have one: "holds_lock (cs_pcs s j) \<Longrightarrow> holds_lock (cs_pcs s k) \<Longrightarrow> j < n \<Longrightarrow> k < n \<Longrightarrow> j = k" for j k
    using inv by (simp add: lock_invariant_def)
  have locked: "st_locked (cs_station s) \<longleftrightarrow> (\<exists>j<n. holds_lock (cs_pcs s j))"
    using inv by (simp add: lock_invariant_def)
  show ?thesis
  proof (cases "holds_lock p = holds_lock (cs_pcs s i)")
    case True
    then have "holds_lock (cs_pcs ?t j) = holds_lock (cs_pcs s j)" for j by (simp add: recorded)
    then show ?thesis using True lock(1) inv by (simp add: lock_invariant_def recorded(1))
  next
    case False
    then have others: "j < n \<Longrightarrow> j \<noteq> i \<Longrightarrow> \<not> holds_lock (cs_pcs s j)" for j
      using lock(2) locked one i by blast
    then have "j < n \<Longrightarrow> holds_lock (cs_pcs ?t j) \<longleftrightarrow> j = i \<and> holds_lock p" for j
      by (simp add: recorded)
    then show ?thesis using False lock(1) i by (auto simp: lock_invariant_def recorded(1))
  qed
qed

lemma flag_invariant_step:
  assumes inv: "lock_invariant n s" and i: "i < n" and run: "\<not> returned (cs_pcs s i)"
    and to: "advance (station_rendezvous os r) (run_outcome result) (run_outcome launch)
      (cs_pcs s i, cs_station s) = (p, st)"
  shows "flag_invariant n (record_step i (p, st) s)"
proof (cases "returned p \<and> \<not> failed p \<and> st_flag st \<noteq> None")
  case True
  with advance_flag(2) [OF to run]
  have "\<not> holds_lock (cs_pcs s i)" "st_locked (cs_station s)" by simp_all
  with inv obtain j where "j < n" "holds_lock (cs_pcs s j)" "j \<noteq> i"
    by (auto simp: lock_invariant_def)
  moreover from this have "\<not> returned (cs_pcs s j)" by (cases "cs_pcs s j") simp_all
  ultimately have "j < n \<and> \<not> returned (cs_pcs (record_step i (p, st) s) j)" by (simp add: recorded)
  then show ?thesis unfolding flag_invariant_def by blast
next
  case False
  with i show ?thesis by (auto simp: flag_invariant_def some_failed_def recorded)
qed

text \<open>A call that does not fail loses no request: it waits, is in a run, or was served.\<close>

lemma request_kept:
  assumes inv: "lock_invariant n s" "request_invariant n s" and i: "i < n"
    and run: "\<not> returned (cs_pcs s i)"
    and to: "advance (station_rendezvous os r) (run_outcome result) (run_outcome launch)
      (cs_pcs s i, cs_station s) = (p, st)"
    and j: "j \<in> cs_waiting s \<union> cs_in_run s \<union> cs_served s" and ok: "\<not> failed p"
  shows "j \<in> cs_waiting (record_step i (p, st) s) \<union> cs_in_run (record_step i (p, st) s)
    \<union> cs_served (record_step i (p, st) s)"
proof -
  note flags = advance_flag [OF to run]
  have idle: "cs_in_run s = {}" if starts: "running p"
  proof (rule ccontr)
    assume "cs_in_run s \<noteq> {}"
    then obtain k where k: "k < n" "running (cs_pcs s k)"
      using inv(2) by (auto simp: request_invariant_def)
    then have "holds_lock (cs_pcs s k)" by (cases "cs_pcs s k") simp_all
    with flags(4) [OF starts] inv(1) i k have "k = i" by (auto simp: lock_invariant_def)
    with flags(4) [OF starts] k show False by simp
  qed
  show ?thesis
  proof (cases "j \<in> cs_waiting s")
    case True
    then have "st_flag (cs_station s) \<noteq> None"
      using inv(2) by (auto simp: request_invariant_def flag_up_def)
    then show ?thesis using True flags(1) by (auto simp: recorded)
  next
    case False
    with j idle ok show ?thesis by (auto simp: recorded split: if_splits)
  qed
qed

lemma request_invariant_step:
  assumes inv: "lock_invariant n s" "request_invariant n s" and i: "i < n"
    and run: "\<not> returned (cs_pcs s i)"
    and to: "advance (station_rendezvous os r) (run_outcome result) (run_outcome launch)
      (cs_pcs s i, cs_station s) = (p, st)"
  shows "request_invariant n (record_step i (p, st) s)"
proof -
  let ?t = "record_step i (p, st) s"
  note flags = advance_flag [OF to run]
  have first: "cs_waiting ?t \<noteq> {} \<longrightarrow> flag_up ?t" by (simp add: recorded)
  have second: "cs_in_run ?t \<noteq> {} \<longrightarrow> (\<exists>j<n. running (cs_pcs ?t j))"
    using inv(2) i by (auto simp: request_invariant_def recorded)
  have third: "some_failed n ?t \<or>
    (\<forall>j<n. raises_next (cs_pcs ?t j) \<or> j \<in> cs_waiting ?t \<union> cs_in_run ?t \<union> cs_served ?t)"
  proof (cases "some_failed n s \<or> failed p")
    case True
    then have "some_failed n ?t" using flags(5) i unfolding some_failed_def recorded
      by (metis fun_upd_apply)
    then show ?thesis ..
  next
    case False
    have "raises_next (cs_pcs ?t j) \<or> j \<in> cs_waiting ?t \<union> cs_in_run ?t \<union> cs_served ?t"
      if "j < n" for j
    proof (cases "j = i \<and> raises_next (cs_pcs s i)")
      case True
      with flags(3) False have "st_flag st \<noteq> None" by simp
      with True show ?thesis by (auto simp: recorded(4))
    next
      case other: False
      from False inv(2) that have "raises_next (cs_pcs s j) \<or>
          j \<in> cs_waiting s \<union> cs_in_run s \<union> cs_served s"
        by (auto simp: request_invariant_def)
      then show ?thesis
        using request_kept [OF inv i run to] other False by (auto simp: recorded(2))
    qed
    then show ?thesis by blast
  qed
  from first second third show ?thesis by (simp add: request_invariant_def)
qed

lemma coalesce_invariant_step:
  "coalesce_step repositories n s t \<Longrightarrow> coalesce_invariant n s \<Longrightarrow> coalesce_invariant n t"
  by (erule coalesce_stepE)
    (metis coalesce_invariant_def flag_invariant_step lock_invariant_step request_invariant_step surj_pair)

lemma coalesce_invariant_init: "coalesce_invariant n (coalesce_init st detached)"
  by (auto simp: coalesce_invariant_def lock_invariant_def flag_invariant_def
      request_invariant_def coalesce_init_def)

lemma coalesce_invariant_path:
  "coalesce_path repositories n k s t \<Longrightarrow> coalesce_invariant n s \<Longrightarrow> coalesce_invariant n t"
  by (induction rule: coalesce_path.induct) (auto intro: coalesce_invariant_step)

section \<open>Schedules that can be evaluated\<close>

type_synonym ('io, 'e) schedule = "(nat \<times> 'io station_os \<times> 'e option \<times> 'io option) list"

fun follow ::
  "(nat \<Rightarrow> bytes option) \<Rightarrow> nat \<Rightarrow> ('io, 'e) schedule \<Rightarrow> ('io, 'e) coalesce_system
   \<Rightarrow> ('io, 'e) coalesce_system option" where
  "follow repositories n [] s = Some s"
| "follow repositories n ((i, os, result, launch) # rest) s =
     (if i < n \<and> \<not> returned (cs_pcs s i) then
        follow repositories n rest
          (record_step i (advance (station_rendezvous os (repositories i)) (run_outcome result)
             (run_outcome launch) (cs_pcs s i, cs_station s)) s)
      else None)"

lemma coalesce_path_first:
  "coalesce_path repositories n k t u \<Longrightarrow> coalesce_step repositories n s t \<Longrightarrow>
   coalesce_path repositories n (Suc k) s u"
proof (induction rule: coalesce_path.induct)
  case (here t)
  then show ?case by (rule coalesce_path.more [OF coalesce_path.here])
qed (blast intro: coalesce_path.more)

lemma follow_path:
  "follow repositories n schedule s = Some t \<Longrightarrow>
   coalesce_path repositories n (length schedule) s t"
proof (induction repositories n schedule s rule: follow.induct)
  case (2 repositories n i os result launch rest s)
  then have "i < n" "\<not> returned (cs_pcs s i)" by (simp_all split: if_splits)
  then show ?case
    using 2 coalesce_step.call [of i n s repositories os result launch]
    by (simp add: coalesce_path_first)
qed (simp add: coalesce_path.here)

section \<open>Properties\<close>

text \<open>Property C31. However the calls of any number of invocations interleave and whatever
  fails, at most one of them is in its run, and then the run lock is held.\<close>

theorem runs_exclude_each_other:
  assumes "coalesce_path repositories n k (coalesce_init st detached) s"
    and "i < n" and "j < n" and "running (cs_pcs s i)" and "running (cs_pcs s j)"
  shows "i = j \<and> st_locked (cs_station s)"
proof -
  have "lock_invariant n s"
    using coalesce_invariant_path [OF assms(1) coalesce_invariant_init]
    by (simp add: coalesce_invariant_def)
  moreover have "holds_lock (cs_pcs s i)" "holds_lock (cs_pcs s j)"
    using assms(4,5) by (simp_all add: running_holds)
  ultimately show ?thesis using assms(2,3) by (auto simp: lock_invariant_def)
qed

text \<open>Property C30. Every schedule of \<open>n\<close> invocations ends, without any fairness and whatever
  fails: no schedule has more than quadratically many calls, and as long as an invocation has
  not returned some call is possible.\<close>

theorem every_schedule_ends:
  assumes "coalesce_path repositories n k (coalesce_init st detached) s"
  shows "k \<le> (4 * n + 1) * (10 * n + 1) + 10 * n \<and>
    ((\<exists>t. coalesce_step repositories n s t) \<longleftrightarrow> (\<exists>i<n. \<not> returned (cs_pcs s i)))"
proof
  show "k \<le> (4 * n + 1) * (10 * n + 1) + 10 * n"
    using coalesce_path_decreases [OF assms] coalesce_init_budget [of n st detached]
    by (metis add_leD1 order_trans)
  show "(\<exists>t. coalesce_step repositories n s t) \<longleftrightarrow> (\<exists>i<n. \<not> returned (cs_pcs s i))"
    by (blast intro: coalesce_step_exists elim: coalesce_stepE)
qed



text \<open>Two hooks, the second of which asks while the first is in its run.\<close>

definition two_hooks :: "(unit, unit) schedule" where
  "two_hooks = map (\<lambda>i. (i, sound_os, None, None)) [0, 0, 0, 1, 1, 0, 0, 0, 0, 0, 0]"

definition after_two_hooks :: "nat \<Rightarrow> (unit, unit) coalesce_system" where
  "after_two_hooks k =
     the (follow (\<lambda>i. Some [char_of (65 + i)]) 2 (take k two_hooks)
       (coalesce_init idle_station (\<lambda>i. False)))"

lemma follows: "follow r n schedule s \<noteq> None \<Longrightarrow>
  coalesce_path r n (length schedule) s (the (follow r n schedule s))"
  by (auto intro: follow_path)

lemma after_two_hooks_states:
  "cs_pcs (after_two_hooks 3) 0 = Running 0"
  "cs_pcs (after_two_hooks 11) 0 = Returned (Inr (Ran 2))"
  "cs_pcs (after_two_hooks 11) (Suc 0) = Returned (Inr Handed)"
  by (simp_all add: after_two_hooks_def two_hooks_def record_step_def coalesce_init_def
      idle_station_def station_calls sound_os_def raise_for_def saturating_add_def)

lemma two_hooks_follow:
  "follow (\<lambda>i. Some [char_of (65 + i)]) 2 (take 3 two_hooks) (coalesce_init idle_station (\<lambda>i. False)) \<noteq> None"
  "follow (\<lambda>i. Some [char_of (65 + i)]) 2 (take 11 two_hooks) (coalesce_init idle_station (\<lambda>i. False)) \<noteq> None"
  by (simp_all add: two_hooks_def record_step_def coalesce_init_def
      idle_station_def station_calls sound_os_def raise_for_def saturating_add_def)

lemmas two_hooks_path =
  two_hooks_follow [THEN follows, folded after_two_hooks_def]

theorem runs_exclude_each_other_witness:
  "running (cs_pcs (after_two_hooks 3) 0) \<and> st_locked (cs_station (after_two_hooks 3))"
  using runs_exclude_each_other [OF two_hooks_path(1), of 0 0] by (simp add: after_two_hooks_states)

theorem every_schedule_ends_witness:
  "length (take 11 two_hooks) \<le> 209 \<and>
   \<not> (\<exists>t. coalesce_step (\<lambda>i. Some [char_of (65 + i)]) 2 (after_two_hooks 11) t)"
  using every_schedule_ends [OF two_hooks_path(2)]
  by (auto simp: after_two_hooks_states less_2_cases_iff)


end
