(* ===== verification/File_Trees.thy ===== *)
theory File_Trees
  imports Gates
begin

text \<open>
  What the file system answers. A tree is a snapshot in which each node carries the answers of
  the calls the sources make on its path, errors included, so that a walk is a function of
  the tree. A path is the list of its components; how a path is spelled, and the syntax it is
  parsed in, belong to the host. \<open>crates/cli/src/failure.rs\<close> turns an error into a rejection and
  \<open>locate\<close> (\<open>host.rs\<close>) a path into a location.
\<close>

section \<open>Errors of the operating system\<close>

datatype error_kind =
    ENotFound | EPermissionDenied | EAlreadyExists | EWouldBlock | EInvalidInput
  | EDirectoryNotEmpty | EReadOnlyFilesystem | EResourceBusy | ECrossesDevices | EInterrupted
  | EUnsupported | ENotADirectory | EIsADirectory | EStorageFull | EQuotaExceeded
  | EConnectionRefused | EConnectionReset | EHostUnreachable | ENetworkUnreachable
  | EConnectionAborted | ENotConnected | EAddrInUse | EAddrNotAvailable | ENetworkDown
  | EBrokenPipe | EStaleNetworkFileHandle | EInvalidData | ETimedOut | EWriteZero | ENotSeekable
  | EFileTooLarge | EExecutableFileBusy | EDeadlock | ETooManyLinks | EInvalidFilename
  | EArgumentListTooLong | EUnexpectedEof | EOutOfMemory | EOther

record os_error =
  oe_kind :: error_kind
  oe_code :: "int option"

fun io_kind_of :: "error_kind \<Rightarrow> io_kind" where
  "io_kind_of ENotFound = NotFound"
| "io_kind_of EPermissionDenied = PermissionDenied"
| "io_kind_of EAlreadyExists = AlreadyExists"
| "io_kind_of EWouldBlock = WouldBlock"
| "io_kind_of EInvalidInput = InvalidInput"
| "io_kind_of EDirectoryNotEmpty = DirectoryNotEmpty"
| "io_kind_of EReadOnlyFilesystem = ReadOnlyFilesystem"
| "io_kind_of EResourceBusy = ResourceBusy"
| "io_kind_of ECrossesDevices = CrossesDevices"
| "io_kind_of EInterrupted = Interrupted"
| "io_kind_of EUnsupported = io_kind.Unsupported"
| "io_kind_of ENotADirectory = io_kind.NotADirectory"
| "io_kind_of EIsADirectory = IsADirectory"
| "io_kind_of EStorageFull = StorageFull"
| "io_kind_of EQuotaExceeded = StorageFull"
| "io_kind_of _ = io_kind.Other"

definition describe :: "os_error \<Rightarrow> io_failure" where
  "describe e = \<lparr>io_kind = io_kind_of (oe_kind e), io_code = oe_code e\<rparr>"

section \<open>Paths and locations\<close>

type_synonym os_path = "bytes list"

record os_host =
  oh_syntax :: path_syntax
  oh_spell :: "os_path \<Rightarrow> bytes"

definition locate :: "os_host \<Rightarrow> os_path \<Rightarrow> rejection + location" where
  "locate h path =
     (case parse (oh_syntax h) (oh_spell h path) of
        Inr location \<Rightarrow> Inr location
      | Inl _ \<Rightarrow> Inl (Unnameable (from_utf8_lossy (oh_spell h path))))"

text \<open>Every path here is absolute already, so \<open>std::path::absolute\<close> returns it unchanged.\<close>

definition io_rejection :: "os_host \<Rightarrow> os_path \<Rightarrow> fs_op \<Rightarrow> os_error \<Rightarrow> rejection" where
  "io_rejection h path ope e =
     (case locate h path of
        Inr location \<Rightarrow> Io location ope (describe e)
      | Inl unnameable \<Rightarrow> unnameable)"

definition os_result :: "os_host \<Rightarrow> os_path \<Rightarrow> fs_op \<Rightarrow> os_error + 'a \<Rightarrow> rejection + 'a" where
  "os_result h path ope answer =
     (case answer of Inl e \<Rightarrow> Inl (io_rejection h path ope e) | Inr x \<Rightarrow> Inr x)"

datatype walk_error =
    Moved os_path
  | Boundary os_path u64 u64
  | WalkIo os_path os_error

fun walk_rejection :: "os_host \<Rightarrow> walk_error \<Rightarrow> location \<Rightarrow> fs_op \<Rightarrow> rejection" where
  "walk_rejection h (Moved path) fallback ope =
     Stale (case locate h path of Inr location \<Rightarrow> location | Inl _ \<Rightarrow> fallback) FileIdentity"
| "walk_rejection h (Boundary path from_device to_device) fallback ope =
     (case locate h path of
        Inr location \<Rightarrow> MountBoundary location from_device to_device
      | Inl unnameable \<Rightarrow> unnameable)"
| "walk_rejection h (WalkIo path e) fallback ope = io_rejection h path ope e"

text \<open>Absolute paths of Unix, for examples.\<close>

definition unix_spell :: "os_path \<Rightarrow> bytes" where
  "unix_spell path = (if path = [] then ''/'' else concat (map (\<lambda>n. CHR ''/'' # n) path))"

definition unix_host :: os_host where
  "unix_host = \<lparr>oh_syntax = path_syntax.Unix, oh_spell = unix_spell\<rparr>"

section \<open>Trees of answers\<close>

record file_measure =
  fm_identity :: identity
  fm_allocation :: u64
  fm_links :: u32

record metadata =
  me_shape :: shape
  me_len :: u64
  me_device :: "u64 option"

record node_answers =
  na_inspect :: "os_error + metadata"
  na_read_dir :: "os_error option"
  na_read_link :: "os_error + bytes"
  na_measure :: "os_error + file_measure"

datatype os_tree = Node (node_answers: node_answers) (node_entries: "os_entry list")
  and os_entry = Unreadable os_error | Entry bytes os_tree

lemma os_result_Inr [result_simps]: "os_result h p ope a = Inr x \<longleftrightarrow> a = Inr x"
  by (cases a) (simp_all add: os_result_def)

end
