(* ===== verification/Busy.thy ===== *)
theory Busy
  imports File_Trees
begin

text \<open>
  Locks (\<open>crates/cli/src/busy.rs\<close>): trying one, probing or leasing a list of them, and the
  survey that collects the locks and owner markers of a directory. The operating system's lock
  table is the set of files that some open handle has locked.
\<close>

section \<open>Trying a lock\<close>

record lock =
  lk_path :: os_path
  lk_location :: location
  lk_protocol :: protocol

text \<open>What opening, locking and identifying the file of a path answers.\<close>

record lock_os =
  lo_open :: "os_path \<Rightarrow> os_error option"
  lo_file :: "os_path \<Rightarrow> identity"
  lo_try :: "os_path \<Rightarrow> os_error option"
  lo_identity :: "os_path \<Rightarrow> os_error + identity"

datatype attempt = Vanished | Taken identity | Held | Unknown

definition attempt_lock :: "lock_os \<Rightarrow> identity set \<Rightarrow> lock \<Rightarrow> attempt" where
  "attempt_lock os locked l =
     (case lo_open os (lk_path l) of
        Some e \<Rightarrow>
          if oe_kind e = ENotFound then
            (case protocol_presence (lk_protocol l) of Optional \<Rightarrow> Vanished | Required \<Rightarrow> attempt.Unknown)
          else attempt.Unknown
      | None \<Rightarrow>
          (case lo_try os (lk_path l) of
             Some e \<Rightarrow> attempt.Unknown
           | None \<Rightarrow>
               if lo_file os (lk_path l) \<in> locked then attempt.Held
               else Taken (lo_file os (lk_path l))))"

datatype lock_probe = Held | Free | Missing | Unreadable

definition owner_lock :: "os_host \<Rightarrow> lock_os \<Rightarrow> identity set \<Rightarrow> os_path \<Rightarrow> lock_probe" where
  "owner_lock h os locked path =
     (case locate h path of
        Inl _ \<Rightarrow> lock_probe.Unreadable
      | Inr location \<Rightarrow>
          (case attempt_lock os locked
              \<lparr>lk_path = path, lk_location = location, lk_protocol = TempOwner\<rparr> of
             Vanished \<Rightarrow> Missing
           | Taken _ \<Rightarrow> lock_probe.Free
           | attempt.Held \<Rightarrow> lock_probe.Held
           | attempt.Unknown \<Rightarrow> lock_probe.Unreadable))"

section \<open>Contention\<close>

datatype lock_state = Held | Unknown

record contention =
  ct_lock :: location
  ct_protocol :: protocol
  ct_state :: lock_state

definition contention_of :: "lock \<Rightarrow> lock_state \<Rightarrow> contention" where
  "contention_of l s = \<lparr>ct_lock = lk_location l, ct_protocol = lk_protocol l, ct_state = s\<rparr>"

definition contention_liveness :: "contention \<Rightarrow> liveness" where
  "contention_liveness c =
     (case ct_state c of
        lock_state.Held \<Rightarrow> liveness.Held (ct_lock c) (ct_protocol c)
      | lock_state.Unknown \<Rightarrow> liveness.Unknown (ct_lock c) (ct_protocol c))"

definition contention_rejection :: "contention \<Rightarrow> location \<Rightarrow> rejection" where
  "contention_rejection c location =
     (case ct_state c of
        lock_state.Held \<Rightarrow> rejection.Busy location (ct_lock c) (ct_protocol c)
      | lock_state.Unknown \<Rightarrow> LivenessUnknown location (ct_lock c) (ct_protocol c))"

section \<open>Probing and leasing\<close>

datatype holding = Free | Held os_path | Unknown

fun held :: "lock_os \<Rightarrow> identity set \<Rightarrow> lock list \<Rightarrow> holding" where
  "held os locked [] = holding.Free"
| "held os locked (l # ls) =
     (case attempt_lock os locked l of
        Vanished \<Rightarrow> held os locked ls
      | Taken _ \<Rightarrow> held os locked ls
      | attempt.Held \<Rightarrow> holding.Held (lk_path l)
      | attempt.Unknown \<Rightarrow> holding.Unknown)"

fun probe :: "lock_os \<Rightarrow> identity set \<Rightarrow> lock list \<Rightarrow> contention + unit" where
  "probe os locked [] = Inr ()"
| "probe os locked (l # ls) =
     (case attempt_lock os locked l of
        Vanished \<Rightarrow> probe os locked ls
      | Taken _ \<Rightarrow> probe os locked ls
      | attempt.Held \<Rightarrow> Inl (contention_of l lock_state.Held)
      | attempt.Unknown \<Rightarrow> Inl (contention_of l lock_state.Unknown))"

text \<open>
  A lease keeps the handles it took, each with the identity that was reported for it; the
  result has the lock table after the call, where a refused lease has let its handles go.
\<close>

type_synonym lease = "(identity \<times> identity) list"

definition lease_keys :: "lease \<Rightarrow> identity set" where
  "lease_keys taken = set (map snd taken)"

fun lease_from :: "lock_os \<Rightarrow> identity set \<Rightarrow> lease \<Rightarrow> lock list \<Rightarrow> contention + lease" where
  "lease_from os locked taken [] = Inr taken"
| "lease_from os locked taken (l # ls) =
     (case attempt_lock os (locked \<union> set (map fst taken)) l of
        Vanished \<Rightarrow> lease_from os locked taken ls
      | Taken f \<Rightarrow>
          (case lo_identity os (lk_path l) of
             Inr i \<Rightarrow> lease_from os locked (taken @ [(f, i)]) ls
           | Inl _ \<Rightarrow> Inl (contention_of l lock_state.Unknown))
      | attempt.Held \<Rightarrow> Inl (contention_of l lock_state.Held)
      | attempt.Unknown \<Rightarrow> Inl (contention_of l lock_state.Unknown))"

definition lease :: "lock_os \<Rightarrow> identity set \<Rightarrow> lock list \<Rightarrow> (contention + lease) \<times> identity set" where
  "lease os locked ls =
     (case lease_from os locked [] ls of
        Inl c \<Rightarrow> (Inl c, locked)
      | Inr taken \<Rightarrow> (Inr taken, locked \<union> set (map fst taken)))"

section \<open>The survey\<close>

definition marker_name :: bytes where
  "marker_name = ''owner.json''"

definition cargo_internals :: "bytes list" where
  "cargo_internals = [''deps'', ''incremental'', ''.fingerprint'', ''build'', ''examples'']"

definition project_files :: "bytes list" where
  "project_files = [''Cargo.toml'', ''Package.swift'', ''gleam.toml'', ''package.json'']"

datatype recognition = Artifacts | Owners

record survey =
  sv_locks :: "lock list"
  sv_markers :: "os_path list"

definition survey_empty :: survey where
  "survey_empty = \<lparr>sv_locks = [], sv_markers = []\<rparr>"

text \<open>
  What lies outside the surveyed tree: where SwiftPM keeps the lock of a workspace, and
  whether a path is a regular file.
\<close>

record survey_os =
  so_swift_lock :: "os_path \<Rightarrow> os_error + os_path"
  so_is_file :: "os_path \<Rightarrow> os_error + bool"

fun read_entries :: "os_entry list \<Rightarrow> os_error + (bytes \<times> os_tree) list" where
  "read_entries [] = Inr []"
| "read_entries (os_entry.Unreadable e # es) = Inl e"
| "read_entries (Entry n t # es) = result_bind (read_entries es) (\<lambda>rest. Inr ((n, t) # rest))"

definition swift_workspace ::
  "os_host \<Rightarrow> survey_os \<Rightarrow> os_path \<Rightarrow> bytes list \<Rightarrow> rejection + bool" where
  "swift_workspace h so directory names =
     (if directory = [] \<or> \<not> eq_ignore_ascii_case (List.last directory) ''.build'' then Inr False
      else if list_ex (\<lambda>n. n = ''workspace-state.json'' \<or> n = ''.lock'') names then Inr True
      else
        (let manifest = butlast directory @ [''Package.swift''] in
         case so_is_file so manifest of
           Inr b \<Rightarrow> Inr b
         | Inl e \<Rightarrow> if oe_kind e = ENotFound then Inr False
                     else Inl (io_rejection h manifest fs_op.Metadata e)))"

text \<open>\<open>dedup_by\<close> keeps the first of each run of equal keys.\<close>

fun remdups_adj_on :: "('a \<Rightarrow> 'k) \<Rightarrow> 'a list \<Rightarrow> 'a list" where
  "remdups_adj_on key [] = []"
| "remdups_adj_on key [x] = [x]"
| "remdups_adj_on key (x # y # xs) =
     (if key x = key y then remdups_adj_on key (x # xs) else x # remdups_adj_on key (y # xs))"

definition survey_push :: "lock \<Rightarrow> survey \<Rightarrow> survey" where
  "survey_push l s = s\<lparr>sv_locks := sv_locks s @ [l]\<rparr>"

type_synonym pending = "(os_path \<times> os_tree \<times> recognition) list"

definition next_recognition :: "bytes list \<Rightarrow> recognition \<Rightarrow> bytes \<Rightarrow> recognition" where
  "next_recognition names recognition n =
     (if list_ex (\<lambda>f. f \<in> set names) project_files then recognition.Artifacts
      else if ''.fingerprint'' \<in> set names \<and> n \<in> set cargo_internals then Owners
      else recognition)"

text \<open>One entry of a directory: pushed, taken as a marker or a lock, or passed over.\<close>

definition survey_entry ::
  "os_host \<Rightarrow> os_path \<Rightarrow> bytes list \<Rightarrow> recognition \<Rightarrow> bytes \<times> os_tree \<Rightarrow> pending \<times> survey
   \<Rightarrow> rejection + pending \<times> survey" where
  "survey_entry h directory names recognition entry state =
     (case (entry, state) of
        ((n, t), (pushed, s)) \<Rightarrow>
          (let path = directory @ [n] in
           result_bind (os_result h path fs_op.FileType (na_inspect (node_answers t))) (\<lambda>me.
             if me_shape me = shape.Directory then
               Inr (pushed @ [(path, t, next_recognition names recognition n)], s)
             else if me_shape me = shape.File then
               (if n = marker_name then Inr (pushed, s\<lparr>sv_markers := sv_markers s @ [directory]\<rparr>)
                else
                  (case protocol_of n of
                     Some p \<Rightarrow>
                       if recognition = recognition.Artifacts \<or> p = TempOwner then
                         result_bind (locate h path) (\<lambda>l.
                           Inr (pushed, survey_push \<lparr>lk_path = path, lk_location = l, lk_protocol = p\<rparr> s))
                       else Inr (pushed, s)
                   | None \<Rightarrow> Inr (pushed, s)))
             else Inr (pushed, s))))"

fun survey_entries ::
  "os_host \<Rightarrow> os_path \<Rightarrow> bytes list \<Rightarrow> recognition \<Rightarrow> (bytes \<times> os_tree) list \<Rightarrow> pending \<times> survey
   \<Rightarrow> rejection + pending \<times> survey" where
  "survey_entries h directory names recognition [] state = Inr state"
| "survey_entries h directory names recognition (e # es) state =
     result_bind (survey_entry h directory names recognition e state)
       (survey_entries h directory names recognition es)"

definition survey_workspace ::
  "os_host \<Rightarrow> survey_os \<Rightarrow> os_path \<Rightarrow> bool \<Rightarrow> survey \<Rightarrow> rejection + survey" where
  "survey_workspace h so directory workspace s =
     (if workspace then
        result_bind (os_result h directory fs_op.Lock (so_swift_lock so directory)) (\<lambda>path.
        result_bind (locate h path) (\<lambda>l.
          Inr (survey_push \<lparr>lk_path = path, lk_location = l, lk_protocol = protocol.SwiftPackage\<rparr> s)))
      else Inr s)"

definition survey_directory ::
  "os_host \<Rightarrow> survey_os \<Rightarrow> os_path \<Rightarrow> os_tree \<Rightarrow> recognition \<Rightarrow> survey
   \<Rightarrow> rejection + pending \<times> survey" where
  "survey_directory h so directory tree recognition s =
     (case na_read_dir (node_answers tree) of
        Some e \<Rightarrow> Inl (io_rejection h directory ReadDir e)
      | None \<Rightarrow>
          result_bind (os_result h directory ReadEntry (read_entries (node_entries tree))) (\<lambda>entries.
            (let names = map fst entries in
             result_bind (swift_workspace h so directory names) (\<lambda>workspace.
             result_bind (survey_workspace h so directory workspace s) (\<lambda>s.
               survey_entries h directory names recognition entries ([], s))))))"

text \<open>The work list is a stack whose top is the head here: what is pushed last comes first.\<close>

fun tree_nodes :: "os_tree \<Rightarrow> nat" and entry_nodes :: "os_entry \<Rightarrow> nat" where
  "tree_nodes (Node a entries) = Suc (\<Sum>e\<leftarrow>entries. entry_nodes e)"
| "entry_nodes (os_entry.Unreadable e) = 0"
| "entry_nodes (Entry n t) = tree_nodes t"

definition pending_nodes :: "pending \<Rightarrow> nat" where
  "pending_nodes stack = (\<Sum>(p, t, r)\<leftarrow>stack. tree_nodes t)"

lemma read_entries_nodes:
  "read_entries es = Inr xs \<Longrightarrow> (\<Sum>(n, t)\<leftarrow>xs. tree_nodes t) = (\<Sum>e\<leftarrow>es. entry_nodes e)"
  by (induction es arbitrary: xs rule: read_entries.induct) (auto simp: result_simps)

lemma survey_entry_nodes:
  "survey_entry h directory names r e (pushed, s) = Inr (pushed', s') \<Longrightarrow>
   pending_nodes pushed' \<le> pending_nodes pushed + tree_nodes (snd e)"
  by (cases e) (auto simp: survey_entry_def Let_def result_simps pending_nodes_def
      split: if_splits option.splits)

lemma survey_entries_nodes:
  "survey_entries h directory names r es (pushed, s) = Inr (pushed', s') \<Longrightarrow>
   pending_nodes pushed' \<le> pending_nodes pushed + (\<Sum>(n, t)\<leftarrow>es. tree_nodes t)"
proof (induction es arbitrary: pushed s)
  case (Cons e es)
  then obtain p1 s1 where "survey_entry h directory names r e (pushed, s) = Inr (p1, s1)"
    "survey_entries h directory names r es (p1, s1) = Inr (pushed', s')"
    by (auto simp: result_simps)
  with Cons.IH [of p1 s1] survey_entry_nodes show ?case by (cases e) fastforce
qed simp

lemma survey_directory_nodes:
  "survey_directory h so directory tree r s = Inr (pushed, s') \<Longrightarrow>
   pending_nodes pushed < tree_nodes tree"
proof -
  assume "survey_directory h so directory tree r s = Inr (pushed, s')"
  then obtain xs u where "read_entries (node_entries tree) = Inr xs"
    "survey_entries h directory (map fst xs) r xs ([], u) = Inr (pushed, s')"
    by (auto simp: survey_directory_def result_simps Let_def split: option.splits)
  with survey_entries_nodes [of h directory "map fst xs" r xs "[]" u pushed s']
    read_entries_nodes [of "node_entries tree" xs]
  show ?thesis by (cases tree) (simp add: pending_nodes_def)
qed

function survey_loop ::
  "os_host \<Rightarrow> survey_os \<Rightarrow> pending \<Rightarrow> survey \<Rightarrow> rejection + survey" where
  "survey_loop h so [] s = Inr s"
| "survey_loop h so ((directory, tree, recognition) # stack) s =
     (case survey_directory h so directory tree recognition s of
        Inl r \<Rightarrow> Inl r
      | Inr (pushed, s') \<Rightarrow> survey_loop h so (rev pushed @ stack) s')"
  by pat_completeness auto

termination
proof (relation "measure (\<lambda>(h, so, stack, s). pending_nodes stack)")
  fix h so directory tree recognition stack s and x :: "pending \<times> survey" and pushed s'
  assume "survey_directory h so directory tree recognition s = Inr x" "(pushed, s') = x"
  then have "pending_nodes pushed < tree_nodes tree" by (auto dest: survey_directory_nodes)
  then show "((h, so, rev pushed @ stack, s'), (h, so, (directory, tree, recognition) # stack, s))
      \<in> measure (\<lambda>(h, so, stack, s). pending_nodes stack)"
    by (simp add: pending_nodes_def rev_map [symmetric])
qed simp

definition survey_order :: "survey \<Rightarrow> survey" where
  "survey_order s = s\<lparr>sv_locks := remdups_adj_on lk_path (sort_key lk_path (sv_locks s))\<rparr>"

text \<open>\<open>survey\<close> itself: the loop from the root, then locks and markers sorted by path.\<close>

definition survey :: "os_host \<Rightarrow> survey_os \<Rightarrow> os_path \<Rightarrow> os_tree \<Rightarrow> rejection + survey" where
  "survey h so root tree =
     result_bind (survey_loop h so [(root, tree, recognition.Artifacts)] survey_empty) (\<lambda>s.
       Inr \<lparr>sv_locks = sort_key lk_path (sv_locks s), sv_markers = sort (sv_markers s)\<rparr>)"

end
