(* ===== verification/Owners.thy ===== *)
theory Owners
  imports Busy
begin

text \<open>
  Who owns a directory (\<open>crates/cli/src/owners.rs\<close>, and \<open>owner\<close> of \<open>ingress.rs\<close>): the markers
  on the way up to a ceiling, the worktree of the nearest \<open>.git\<close>, and the cache of worktrees
  that git was asked about. The JSON reader, git itself and the release evidence belong to
  third-party code, other processes and the disk; they are fields of \<open>owner_os\<close>.
\<close>

section \<open>Declarations\<close>

record owner_document =
  od_schema :: bytes
  od_kept :: bool
  od_role :: "role option"
  od_keyed_to :: "os_path option"

record owner_declaration =
  dc_schema :: bytes
  dc_role :: role
  dc_keep :: keep
  dc_keyed_to :: "os_path option"

definition owner_schema_suffix :: bytes where
  "owner_schema_suffix = ''-temp-owner-v1''"

definition owner_limit :: nat where
  "owner_limit = 64 * 1024"

definition gitdir_read_limit :: nat where
  "gitdir_read_limit = 4096"

datatype file_kind = Is_Dir | Is_File | Is_Other

text \<open>What the system answers to the owners: reads, metadata, resolution, git and release evidence.\<close>

record owner_os =
  ow_host :: os_host
  ow_locks :: lock_os
  ow_locked :: "identity set"
  ow_json :: "bytes \<Rightarrow> owner_document option"
  ow_read :: "os_path \<Rightarrow> os_error + bytes"
  ow_kind :: "os_path \<Rightarrow> os_error + file_kind"
  ow_canonical :: "os_path \<Rightarrow> os_error + os_path"
  ow_path :: "os_path \<Rightarrow> bytes \<Rightarrow> os_path"
  ow_release :: "os_path \<Rightarrow> os_path \<Rightarrow> release_evidence option"
  ow_linked :: "os_path \<Rightarrow> location \<Rightarrow> worktree"

definition owner_parse :: "owner_os \<Rightarrow> bytes \<Rightarrow> owner_declaration option" where
  "owner_parse os bytes =
     (case ow_json os bytes of
        None \<Rightarrow> None
      | Some d \<Rightarrow>
          if strip_suffix owner_schema_suffix (od_schema d) = None then None
          else Some \<lparr>dc_schema = od_schema d,
            dc_role = (case od_role d of None \<Rightarrow> Scratch | Some r \<Rightarrow> r),
            dc_keep = (if od_kept d then keep.Kept else keep.Released),
            dc_keyed_to = od_keyed_to d\<rparr>)"

definition declared :: "owner_os \<Rightarrow> os_path \<Rightarrow> owner_declaration option" where
  "declared os directory =
     (case ow_read os (directory @ [marker_name]) of
        Inl _ \<Rightarrow> None
      | Inr bytes \<Rightarrow> owner_parse os (take owner_limit bytes))"

definition key_of :: "owner_os \<Rightarrow> os_path option \<Rightarrow> owner_key" where
  "key_of os keyed_to =
     (case keyed_to of
        None \<Rightarrow> Unkeyed
      | Some path \<Rightarrow>
          (case ow_kind os path of
             Inr _ \<Rightarrow> Present
           | Inl e \<Rightarrow> if oe_kind e = ENotFound then owner_key.Gone else owner_key.Unknown))"

fun owner_lock_of :: "lock_probe \<Rightarrow> owner_lock" where
  "owner_lock_of lock_probe.Held = owner_lock.Held"
| "owner_lock_of lock_probe.Free = owner_lock.Free"
| "owner_lock_of lock_probe.Missing = owner_lock.Missing"
| "owner_lock_of lock_probe.Unreadable = owner_lock.Unreadable"

definition marker_at :: "owner_os \<Rightarrow> os_path \<Rightarrow> marker option" where
  "marker_at os directory =
     (case declared os directory of
        None \<Rightarrow> None
      | Some d \<Rightarrow>
          (case locate (ow_host os) directory of
             Inl _ \<Rightarrow> None
           | Inr location \<Rightarrow>
               Some \<lparr>mk_directory = location, mk_schema = dc_schema d, mk_role = dc_role d,
                 mk_keep = dc_keep d,
                 mk_lock = owner_lock_of (owner_lock (ow_host os) (ow_locks os) (ow_locked os)
                   (directory @ [temp_owner_name])),
                 mk_key = key_of os (dc_keyed_to d)\<rparr>))"

section \<open>The \<open>.git\<close> of a directory\<close>

datatype dot = Absent | Directory | File os_path | Unreadable

definition dot_failure :: "error_kind \<Rightarrow> dot" where
  "dot_failure k = (if k = ENotFound then dot.Absent else dot.Unreadable)"

definition dot_git :: "owner_os \<Rightarrow> os_path \<Rightarrow> dot" where
  "dot_git os directory =
     (let path = directory @ [''.git''] in
      case ow_kind os path of
        Inl e \<Rightarrow> dot_failure (oe_kind e)
      | Inr Is_Dir \<Rightarrow> dot.Directory
      | Inr Is_File \<Rightarrow> dot.File path
      | Inr Is_Other \<Rightarrow> dot.Unreadable)"

text \<open>The path a \<open>gitdir:\<close> line names; \<open>ow_path\<close> resolves it against the directory of the file.\<close>

definition gitdir :: "owner_os \<Rightarrow> os_path \<Rightarrow> os_path option" where
  "gitdir os file =
     (case ow_read os file of
        Inl _ \<Rightarrow> None
      | Inr bytes \<Rightarrow>
          (case from_utf8 (take gitdir_read_limit bytes) of
             None \<Rightarrow> None
           | Some text \<Rightarrow>
               (case strip_prefix ''gitdir:'' (trim text) of
                  None \<Rightarrow> None
                | Some target \<Rightarrow> Some (ow_path os (butlast file) (trim target)))))"

section \<open>Owners\<close>

record owners =
  ow_ceilings :: "os_path list"
  ow_worktrees :: "os_path \<Rightarrow> worktree option"
  ow_state :: "os_path option"

definition or_same :: "os_error + os_path \<Rightarrow> os_path \<Rightarrow> os_path" where
  "or_same answer path = (case answer of Inr canonical \<Rightarrow> canonical | Inl _ \<Rightarrow> path)"

definition owners_new :: "owner_os \<Rightarrow> os_path list \<Rightarrow> owners" where
  "owners_new os ceilings =
     \<lparr>ow_ceilings = map (\<lambda>p. or_same (ow_canonical os p) p) ceilings,
      ow_worktrees = (\<lambda>_. None), ow_state = None\<rparr>"

definition owners_clone :: "owners \<Rightarrow> owners" where
  "owners_clone own = own\<lparr>ow_worktrees := (\<lambda>_. None)\<rparr>"

definition ceiling :: "owners \<Rightarrow> os_path \<Rightarrow> bool" where
  "ceiling own directory \<longleftrightarrow> list_ex (\<lambda>c. c = directory) (ow_ceilings own)"

text \<open>A path and what it lies in, up to the root.\<close>

fun ancestors_rev :: "bytes list \<Rightarrow> os_path list" where
  "ancestors_rev [] = [[]]"
| "ancestors_rev (n # ns) = rev (n # ns) # ancestors_rev ns"

definition ancestors :: "os_path \<Rightarrow> os_path list" where
  "ancestors path = ancestors_rev (rev path)"

definition searched :: "owners \<Rightarrow> os_path \<Rightarrow> os_path list" where
  "searched own path = takeWhile (\<lambda>d. \<not> ceiling own d) (ancestors path)"

definition parent_of :: "os_path \<Rightarrow> os_path option" where
  "parent_of path = (if path = [] then None else Some (butlast path))"

definition repository_at :: "owner_os \<Rightarrow> os_path \<Rightarrow> os_path option" where
  "repository_at os directory =
     (case dot_git os directory of
        dot.Directory \<Rightarrow> Some (directory @ [''.git''])
      | dot.File f \<Rightarrow> Option.bind (Option.bind (gitdir os f) parent_of) parent_of
      | _ \<Rightarrow> None)"

fun find_map :: "('a \<Rightarrow> 'b option) \<Rightarrow> 'a list \<Rightarrow> 'b option" where
  "find_map f [] = None"
| "find_map f (x # xs) = (case f x of Some y \<Rightarrow> Some y | None \<Rightarrow> find_map f xs)"

definition repository :: "owner_os \<Rightarrow> owners \<Rightarrow> os_path \<Rightarrow> os_path option" where
  "repository os own path =
     map_option (\<lambda>r. or_same (ow_canonical os r) r)
       (find_map (repository_at os) (searched own (or_same (ow_canonical os path) path)))"

definition owners_forget :: "owner_os \<Rightarrow> os_path set option \<Rightarrow> owners \<Rightarrow> owners" where
  "owners_forget os repositories own =
     (case repositories of
        None \<Rightarrow> own\<lparr>ow_worktrees := (\<lambda>_. None)\<rparr>
      | Some rs \<Rightarrow>
          own\<lparr>ow_worktrees := (\<lambda>root.
            case repository os own root of
              Some found \<Rightarrow> if found \<in> rs then None else ow_worktrees own root
            | None \<Rightarrow> ow_worktrees own root)\<rparr>)"

text \<open>What git and the disk say of a worktree, without the cache.\<close>

definition worktree_fresh :: "owner_os \<Rightarrow> os_path \<Rightarrow> location \<Rightarrow> dot \<Rightarrow> worktree option" where
  "worktree_fresh os root location d =
     (case d of
        dot.Absent \<Rightarrow> None
      | dot.Directory \<Rightarrow> Some (Primary location)
      | dot.Unreadable \<Rightarrow> Some (worktree.Unreadable location (Unparsable ''.git''))
      | dot.File file \<Rightarrow>
          (case map_option (ow_kind os) (gitdir os file) of
             Some (Inr _) \<Rightarrow> Some (ow_linked os root location)
           | Some (Inl e) \<Rightarrow>
               if oe_kind e = ENotFound then Some (Orphaned location)
               else Some (worktree.Unreadable location (Unparsable ''.git''))
           | None \<Rightarrow> Some (worktree.Unreadable location (Unparsable ''.git''))))"

definition owners_worktree ::
  "owner_os \<Rightarrow> os_path \<Rightarrow> dot \<Rightarrow> owners \<Rightarrow> worktree option \<times> owners" where
  "owners_worktree os root d own =
     (case locate (ow_host os) root of
        Inl _ \<Rightarrow> (None, own)
      | Inr location \<Rightarrow>
          (case Option.bind (ow_state own) (ow_release os root) of
             Some evidence \<Rightarrow> (Some (worktree.Released location evidence), own)
           | None \<Rightarrow>
               (case ow_worktrees own root of
                  Some w \<Rightarrow> (Some w, own)
                | None \<Rightarrow>
                    (case worktree_fresh os root location d of
                       None \<Rightarrow> (None, own)
                     | Some w \<Rightarrow>
                         (Some w, own\<lparr>ow_worktrees := (ow_worktrees own)(root := Some w)\<rparr>)))))"

fun owners_walk ::
  "owner_os \<Rightarrow> os_path list \<Rightarrow> marker list \<times> worktree option \<times> owners
   \<Rightarrow> marker list \<times> worktree option \<times> owners" where
  "owners_walk os [] state = state"
| "owners_walk os (d # ds) (markers, w, own) =
     (let markers' = (case marker_at os d of Some m \<Rightarrow> markers @ [m] | None \<Rightarrow> markers);
          (w', own') =
            (case w of
               Some _ \<Rightarrow> (w, own)
             | None \<Rightarrow>
                 if dot_git os d = dot.Absent then (w, own)
                 else owners_worktree os d (dot_git os d) own) in
      owners_walk os ds (markers', w', own'))"

definition owners_of :: "owner_os \<Rightarrow> os_path \<Rightarrow> os_path list \<Rightarrow> owners \<Rightarrow> ownership \<times> owners" where
  "owners_of os path nested own =
     (let inside = List.map_filter (marker_at os) (filter (\<lambda>d. d \<noteq> path) nested);
          (markers, w, own') = owners_walk os (searched own path) ([], None, own) in
      (resolve markers inside w, own'))"

text \<open>A recheck asks everything again: it starts from an empty cache and keeps none.\<close>

definition owners_recheck :: "owner_os \<Rightarrow> os_path \<Rightarrow> os_path list \<Rightarrow> owners \<Rightarrow> ownership" where
  "owners_recheck os path nested own = fst (owners_of os path nested (owners_clone own))"

section \<open>Locks of the owners\<close>

definition survey_owner :: "os_host \<Rightarrow> os_path \<Rightarrow> survey \<Rightarrow> rejection + survey" where
  "survey_owner h path s =
     result_bind (locate h path) (\<lambda>l.
       Inr (survey_push \<lparr>lk_path = path, lk_location = l, lk_protocol = TempOwner\<rparr> s))"

fun owner_locks :: "owner_os \<Rightarrow> os_path list \<Rightarrow> survey \<Rightarrow> rejection + survey" where
  "owner_locks os [] s = Inr s"
| "owner_locks os (d # ds) s =
     result_bind
       (if declared os d \<noteq> None then survey_owner (ow_host os) (d @ [temp_owner_name]) s else Inr s)
       (owner_locks os ds)"

definition complete_survey :: "owner_os \<Rightarrow> owners \<Rightarrow> os_path \<Rightarrow> survey \<Rightarrow> rejection + survey" where
  "complete_survey os own path s =
     result_bind (owner_locks os (searched own path) s) (\<lambda>s'. Inr (survey_order s'))"

definition owners_survey ::
  "owner_os \<Rightarrow> survey_os \<Rightarrow> owners \<Rightarrow> os_path \<Rightarrow> os_tree \<Rightarrow> rejection + survey" where
  "owners_survey os so own path tree =
     result_bind (survey (ow_host os) so path tree) (complete_survey os own path)"

end
