(* ===== verification/Tree_Maps.thy ===== *)
theory Tree_Maps
  imports Prelude
begin

text \<open>
  \<open>BTreeMap\<close> as the command line uses it: lookup, \<open>entry().and_modify().or_insert()\<close>,
  insertion, removal and iteration in key order. The locale \<open>ordered_map\<close> is the contract;
  the interpretation is the strictly sorted association list, where two maps with the same
  lookups are equal.
\<close>

section \<open>The contract\<close>

locale ordered_map =
  fixes empty :: 'm and get :: "'m \<Rightarrow> 'k \<Rightarrow> 'v option"
    and alter :: "('v option \<Rightarrow> 'v option) \<Rightarrow> 'k \<Rightarrow> 'm \<Rightarrow> 'm" and wf :: "'m \<Rightarrow> bool"
  assumes get_empty: "get empty k = None"
    and wf_empty: "wf empty"
    and get_alter: "wf m \<Longrightarrow> get (alter f k m) j = (if j = k then f (get m k) else get m j)"
    and wf_alter: "wf m \<Longrightarrow> wf (alter f k m)"
    and extensional: "wf m \<Longrightarrow> wf n \<Longrightarrow> (\<And>k. get m k = get n k) \<Longrightarrow> m = n"
begin

lemma alter_commute:
  "wf m \<Longrightarrow> j \<noteq> k \<Longrightarrow> alter f j (alter g k m) = alter g k (alter f j m)"
  by (rule extensional) (auto simp: wf_alter get_alter)

lemma alter_twice: "wf m \<Longrightarrow> alter f k (alter g k m) = alter (f \<circ> g) k m"
  by (rule extensional) (auto simp: wf_alter get_alter)

lemma alter_same: "wf m \<Longrightarrow> f (get m k) = get m k \<Longrightarrow> alter f k m = m"
  by (rule extensional) (auto simp: wf_alter get_alter)

lemma alter_any_commute:
  "wf m \<Longrightarrow> (\<And>v. f (g v) = g (f v)) \<Longrightarrow> alter f j (alter g k m) = alter g k (alter f j m)"
  by (rule extensional) (auto simp: wf_alter get_alter)

lemma wf_fold: "wf m \<Longrightarrow> wf (foldl (\<lambda>m x. alter (f x) (key x) m) m xs)"
  by (induction xs arbitrary: m) (auto intro: wf_alter)

text \<open>What a key holds after a series of updates is decided by those of that key.\<close>

lemma get_fold:
  "wf m \<Longrightarrow> get (foldl (\<lambda>m x. alter (f x) (key x) m) m xs) k =
     foldl (\<lambda>v x. f x v) (get m k) (filter (\<lambda>x. key x = k) xs)"
  by (induction xs arbitrary: m) (auto simp: get_alter wf_alter)

end

section \<open>Sorted association lists\<close>

fun tm_alter :: "('v option \<Rightarrow> 'v option) \<Rightarrow> 'k::linorder \<Rightarrow> ('k \<times> 'v) list \<Rightarrow> ('k \<times> 'v) list" where
  "tm_alter f k [] = (case f None of None \<Rightarrow> [] | Some v \<Rightarrow> [(k, v)])"
| "tm_alter f k ((j, w) # m) =
     (if k < j then (case f None of None \<Rightarrow> (j, w) # m | Some v \<Rightarrow> (k, v) # (j, w) # m)
      else if k = j then (case f (Some w) of None \<Rightarrow> m | Some v \<Rightarrow> (j, v) # m)
      else (j, w) # tm_alter f k m)"

definition tm_insert :: "'k::linorder \<Rightarrow> 'v \<Rightarrow> ('k \<times> 'v) list \<Rightarrow> ('k \<times> 'v) list" where
  "tm_insert k v = tm_alter (\<lambda>_. Some v) k"

definition tm_remove :: "'k::linorder \<Rightarrow> ('k \<times> 'v) list \<Rightarrow> ('k \<times> 'v) list" where
  "tm_remove k = tm_alter (\<lambda>_. None) k"

definition tm_wf :: "('k::linorder \<times> 'v) list \<Rightarrow> bool" where
  "tm_wf m \<longleftrightarrow> sorted_wrt (<) (map fst m)"

lemma tm_alter_keys: "set (map fst (tm_alter f k m)) \<subseteq> insert k (set (map fst m))"
  by (induction f k m rule: tm_alter.induct) (auto split: option.splits)

lemma tm_alter_wf: "tm_wf m \<Longrightarrow> tm_wf (tm_alter f k m)"
proof (induction f k m rule: tm_alter.induct)
  case (2 f k j w m)
  have above: "\<forall>x \<in> set (map fst m). j < x" and tail: "tm_wf m"
    using 2(2) by (simp_all add: tm_wf_def)
  have altered: "\<forall>x \<in> set (map fst (tm_alter f k m)). j < x" if "j < k"
    using above that tm_alter_keys [of f k m] by blast
  consider "k < j" | "k = j" | "j < k" by fastforce
  then show ?case
  proof cases
    case 1
    with above tail have "\<forall>x \<in> set (map fst m). k < x" by (meson less_trans)
    with 1 above tail show ?thesis by (auto simp: tm_wf_def split: option.splits)
  next
    case 2
    with above tail show ?thesis by (auto simp: tm_wf_def split: option.splits)
  next
    case 3
    with altered 2(1) tail show ?thesis by (auto simp: tm_wf_def)
  qed
qed (auto simp: tm_wf_def split: option.splits)

lemma tm_get_above: "\<forall>x \<in> set (map fst m). (k :: 'k :: linorder) < x \<Longrightarrow> map_of m k = None"
  by (auto simp: map_of_eq_None_iff)

lemma tm_get_alter:
  "tm_wf m \<Longrightarrow> map_of (tm_alter f k m) i = (if i = k then f (map_of m k) else map_of m i)"
proof (induction f k m rule: tm_alter.induct)
  case (2 f k j w m)
  have above: "\<forall>x \<in> set (map fst m). j < x" using 2(2) by (simp add: tm_wf_def)
  have none: "map_of m k = None" if "k \<le> j"
    using above that by (intro tm_get_above) (auto dest: order.strict_trans1)
  have "tm_wf m" using 2(2) by (simp add: tm_wf_def)
  with 2(1) none show ?case by (auto split: option.splits)
qed (auto split: option.splits)

lemma tm_distinct: "tm_wf m \<Longrightarrow> distinct (map fst m)"
  by (simp add: tm_wf_def strict_sorted_iff)

lemma tm_extensional:
  assumes "tm_wf m" and "tm_wf n" and "\<And>k. map_of m k = map_of n k"
  shows "m = n"
proof -
  have "set m = set n"
    using assms tm_distinct [of m] tm_distinct [of n]
    by (metis map_of_eq_Some_iff pred_equals_eq2 subrelI subset_antisym)
  moreover have "sorted (map fst m)" "sorted (map fst n)"
    using assms by (simp_all add: tm_wf_def strict_sorted_iff)
  moreover have "inj_on fst (set m)" using tm_distinct [OF assms(1)] by (simp add: distinct_map)
  ultimately show ?thesis
    using tm_distinct [OF assms(1)] tm_distinct [OF assms(2)]
    by (intro map_sorted_distinct_set_unique [of fst]) simp_all
qed

lemma tm_filter_key:
  "tm_wf m \<Longrightarrow> filter (\<lambda>x. fst x = k) m = (case map_of m k of None \<Rightarrow> [] | Some v \<Rightarrow> [(k, v)])"
proof (induction m)
  case (Cons x m)
  then have tail: "tm_wf m" and above: "\<forall>y \<in> set (map fst m). fst x < y"
    by (simp_all add: tm_wf_def)
  show ?case
  proof (cases "fst x = k")
    case True
    then have "map_of m k = None" using above by (intro tm_get_above) simp
    with True Cons.IH [OF tail] show ?thesis by (cases x) simp
  qed (use Cons.IH [OF tail] in \<open>cases x; simp\<close>)
qed simp

interpretation tree_map: ordered_map "[]" map_of tm_alter tm_wf
proof
  show "map_of [] k = None" for k :: 'a by simp
  show "tm_wf []" by (simp add: tm_wf_def)
qed (fact tm_get_alter tm_alter_wf tm_extensional)+

end
