(* ===== verification/Measuring.thy ===== *)
theory Measuring
  imports File_Trees Tree_Maps Checked_Words
begin

text \<open>
  Measuring a directory (\<open>crates/cli/src/measure.rs\<close>): the tally of sizes, allocated blocks,
  hard links and contents, and the walk that fills it. The walk refuses a source checkout, a
  mount boundary and everything it cannot read, at any depth.
\<close>

section \<open>The tally\<close>

datatype allocation_state = Measured | Unmeasured

datatype measure = Logical | Allocated

record linked =
  li_allocation :: u64
  li_links :: u32
  li_seen :: u32

type_synonym link_key = "u64 \<times> u128"

definition link_key :: "identity \<Rightarrow> link_key" where
  "link_key i = (volume i, file_id i)"

record tally =
  ta_logical :: u64
  ta_unlinked :: u64
  ta_allocation :: allocation_state
  ta_linked :: "(link_key \<times> linked) list"
  ta_contents :: contents
  ta_markers :: "os_path list"
  ta_failures :: u64

definition tally_empty :: "measure \<Rightarrow> tally" where
  "tally_empty m =
     \<lparr>ta_logical = 0, ta_unlinked = 0,
      ta_allocation = (case m of Allocated \<Rightarrow> allocation_state.Measured
                               | Logical \<Rightarrow> allocation_state.Unmeasured),
      ta_linked = [], ta_contents = 0, ta_markers = [], ta_failures = 0\<rparr>"

definition merge_linked :: "linked \<Rightarrow> linked option \<Rightarrow> linked option" where
  "merge_linked link current =
     Some (case current of
       Some c \<Rightarrow>
         c\<lparr>li_seen := sat_add (li_seen c) (li_seen link),
           li_links := max (li_links c) (li_links link),
           li_allocation := max (li_allocation c) (li_allocation link)\<rparr>
     | None \<Rightarrow> link)"

fun merge_allocation :: "allocation_state \<Rightarrow> allocation_state \<Rightarrow> allocation_state" where
  "merge_allocation allocation_state.Measured allocation_state.Measured = allocation_state.Measured"
| "merge_allocation _ _ = allocation_state.Unmeasured"

definition tally_merge :: "tally \<Rightarrow> tally \<Rightarrow> tally" where
  "tally_merge t u =
     \<lparr>ta_logical = saturating_add (ta_logical t) (ta_logical u),
      ta_unlinked = saturating_add (ta_unlinked t) (ta_unlinked u),
      ta_allocation = merge_allocation (ta_allocation t) (ta_allocation u),
      ta_linked = foldl (\<lambda>m (i, link). tm_alter (merge_linked link) i m) (ta_linked t) (ta_linked u),
      ta_contents = contents_merge (ta_contents t) (ta_contents u),
      ta_markers = ta_markers t @ ta_markers u,
      ta_failures = saturating_add (ta_failures t) (ta_failures u)\<rparr>"

definition tally_allocated :: "file_measure \<Rightarrow> tally \<Rightarrow> tally" where
  "tally_allocated m t =
     (if fm_links m \<le> 1 then t\<lparr>ta_unlinked := saturating_add (ta_unlinked t) (fm_allocation m)\<rparr>
      else t\<lparr>ta_linked :=
        tm_alter (\<lambda>current. Some (case current of
            Some link \<Rightarrow> link\<lparr>li_seen := sat_add (li_seen link) 1\<rparr>
          | None \<Rightarrow> \<lparr>li_allocation = fm_allocation m, li_links = fm_links m, li_seen = 1\<rparr>))
          (link_key (fm_identity m)) (ta_linked t)\<rparr>)"

definition tally_file ::
  "(bytes \<Rightarrow> bytes) \<Rightarrow> bytes \<Rightarrow> u64 \<Rightarrow> identity option \<Rightarrow> tally \<Rightarrow> tally" where
  "tally_file sha path len ident t =
     t\<lparr>ta_logical := saturating_add (ta_logical t) len,
       ta_contents := contents_merge (ta_contents t) (contents_file sha path len ident)\<rparr>"

definition tally_marker :: "os_path \<Rightarrow> tally \<Rightarrow> tally" where
  "tally_marker directory t = t\<lparr>ta_markers := ta_markers t @ [directory]\<rparr>"

definition tally_missing :: "u64 \<Rightarrow> tally \<Rightarrow> tally" where
  "tally_missing n t = t\<lparr>ta_failures := saturating_add (ta_failures t) n\<rparr>"

definition tally_failed :: "measure \<Rightarrow> tally" where
  "tally_failed m = tally_missing 1 (tally_empty m)"

definition tally_link ::
  "os_host \<Rightarrow> (bytes \<Rightarrow> bytes) \<Rightarrow> os_path \<Rightarrow> metadata \<Rightarrow> node_answers \<Rightarrow> tally \<Rightarrow> rejection + tally" where
  "tally_link h sha path me a t =
     result_bind (os_result h path fs_op.Metadata (na_read_link a)) (\<lambda>target.
     result_bind (os_result h path AllocationInfo (na_measure a)) (\<lambda>measured.
       Inr (tally_allocated measured
         (t\<lparr>ta_logical := saturating_add (ta_logical t) (me_len me),
            ta_contents := contents_merge (ta_contents t)
              (contents_link sha (oh_spell h path) target (fm_identity measured))\<rparr>))))"

definition tally_usage :: "tally \<Rightarrow> usage" where
  "tally_usage t =
     \<lparr>us_logical = ta_logical t,
      us_allocation =
        (case ta_allocation t of
           allocation_state.Unmeasured \<Rightarrow> allocation.Unmeasured
         | allocation_state.Measured \<Rightarrow>
             (let (allocated, reclaimable) =
                foldl (\<lambda>(allocated, reclaimable) (_, link).
                    (saturating_add allocated (li_allocation link),
                     if li_links link \<le> li_seen link
                     then saturating_add reclaimable (li_allocation link) else reclaimable))
                  (ta_unlinked t, ta_unlinked t) (ta_linked t) in
              allocation.Measured allocated reclaimable)),
      us_failures = ta_failures t\<rparr>"

definition tally_measurement :: "tally \<Rightarrow> measurement" where
  "tally_measurement t = \<lparr>ms_usage = tally_usage t, ms_contents = ta_contents t\<rparr>"

section \<open>The walk\<close>

definition source_area :: "os_path \<Rightarrow> os_path \<Rightarrow> source_area" where
  "source_area directory root =
     (case strip_prefix root directory of
        Some (first # _) \<Rightarrow> source_area_of first
      | _ \<Rightarrow> source_area.Other)"

definition git_name :: "bytes \<Rightarrow> bool" where
  "git_name n \<longleftrightarrow> eq_ignore_ascii_case n ''.git''"

definition git_entry_of :: "metadata \<Rightarrow> git_entry" where
  "git_entry_of me =
     (if me_shape me = shape.Directory then RepositoryDirectory else LinkedCheckout)"

definition crossing :: "metadata \<Rightarrow> metadata \<Rightarrow> (u64 \<times> u64) option" where
  "crossing outer inner =
     (case (me_device outer, me_device inner) of
        (Some a, Some b) \<Rightarrow> if a \<noteq> b then Some (a, b) else None
      | _ \<Rightarrow> None)"

text \<open>
  \<open>walk\<close> is given the metadata its caller read; \<open>walk_entries\<close> is its loop over the entries,
  with the total so far, and \<open>walk_entry\<close> the body of the loop.
\<close>

fun walk :: "os_host \<Rightarrow> (bytes \<Rightarrow> bytes) \<Rightarrow> tree_contents \<Rightarrow> os_path \<Rightarrow> os_path \<Rightarrow> metadata \<Rightarrow> os_tree
    \<Rightarrow> rejection + tally"
  and walk_entries :: "os_host \<Rightarrow> (bytes \<Rightarrow> bytes) \<Rightarrow> tree_contents \<Rightarrow> os_path \<Rightarrow> os_path \<Rightarrow> metadata
    \<Rightarrow> tally \<Rightarrow> os_entry list \<Rightarrow> rejection + tally"
  and walk_entry :: "os_host \<Rightarrow> (bytes \<Rightarrow> bytes) \<Rightarrow> tree_contents \<Rightarrow> os_path \<Rightarrow> os_path \<Rightarrow> metadata
    \<Rightarrow> tally \<Rightarrow> os_entry \<Rightarrow> rejection + tally" where
  "walk h sha policy root directory me (Node a entries) =
     (case me_shape me of
        shape.Directory \<Rightarrow>
          (case na_read_dir a of
             Some e \<Rightarrow> Inl (io_rejection h directory ReadDir e)
           | None \<Rightarrow> walk_entries h sha policy root directory me (tally_empty Allocated) entries)
      | shape.Link \<Rightarrow> result_bind (locate h directory) (\<lambda>l. Inl (rejection.Link l))
      | _ \<Rightarrow> result_bind (locate h directory) (\<lambda>l. Inl (rejection.NotADirectory l)))"
| "walk_entries h sha policy root directory me acc [] = Inr acc"
| "walk_entries h sha policy root directory me acc (e # entries) =
     result_bind (walk_entry h sha policy root directory me acc e) (\<lambda>acc'.
       walk_entries h sha policy root directory me acc' entries)"
| "walk_entry h sha policy root directory me acc (Unreadable e) =
     Inl (io_rejection h directory ReadEntry e)"
| "walk_entry h sha policy root directory me acc (Entry n (Node a below)) =
     (let path = directory @ [n] in
      result_bind (os_result h path fs_op.Inspect (na_inspect a)) (\<lambda>cm.
        if git_name n \<and>
           contents_git policy (source_area directory root) (git_entry_of cm) = Preserve
        then result_bind (locate h directory) (\<lambda>l. Inl (SourceCheckout l))
        else
          (case me_shape cm of
             shape.Link \<Rightarrow> tally_link h sha path cm a acc
           | shape.Directory \<Rightarrow>
               (case crossing me cm of
                  Some (f, t) \<Rightarrow> result_bind (locate h path) (\<lambda>l. Inl (rejection.MountBoundary l f t))
                | None \<Rightarrow> result_bind (walk h sha policy root path cm (Node a below))
                    (\<lambda>t. Inr (tally_merge acc t)))
           | shape.File \<Rightarrow>
               result_bind (os_result h path AllocationInfo (na_measure a)) (\<lambda>measured.
                 Inr (tally_allocated measured
                   (tally_file sha (oh_spell h path) (me_len cm)
                     (Some (fm_identity measured)) acc)))
           | shape.Other \<Rightarrow> Inr acc)))"

definition walk_root ::
  "os_host \<Rightarrow> (bytes \<Rightarrow> bytes) \<Rightarrow> tree_contents \<Rightarrow> os_path \<Rightarrow> os_tree \<Rightarrow> rejection + tally" where
  "walk_root h sha policy root tree =
     result_bind (os_result h root fs_op.Inspect (na_inspect (node_answers tree))) (\<lambda>me.
       walk h sha policy root root me tree)"

definition strictly ::
  "os_host \<Rightarrow> (bytes \<Rightarrow> bytes) \<Rightarrow> os_path \<Rightarrow> os_tree \<Rightarrow> kind \<Rightarrow> rejection + measurement" where
  "strictly h sha directory tree k =
     result_bind (walk_root h sha (kind_contents k) directory tree) (\<lambda>t. Inr (tally_measurement t))"

fun selection_from ::
  "os_host \<Rightarrow> (bytes \<Rightarrow> bytes) \<Rightarrow> tally \<Rightarrow> (os_path \<times> os_tree \<times> kind) list \<Rightarrow> rejection + tally" where
  "selection_from h sha acc [] = Inr acc"
| "selection_from h sha acc ((path, tree, k) # rest) =
     result_bind (walk_root h sha (kind_contents k) path tree) (\<lambda>t.
       selection_from h sha (tally_merge acc t) rest)"

definition selection_usage ::
  "os_host \<Rightarrow> (bytes \<Rightarrow> bytes) \<Rightarrow> (os_path \<times> os_tree \<times> kind) list \<Rightarrow> rejection + usage" where
  "selection_usage h sha paths =
     result_bind (selection_from h sha (tally_empty Allocated) paths) (\<lambda>t. Inr (tally_usage t))"

end
