(* ===== verification/Measuring_Facts.thy ===== *)
theory Measuring_Facts
  imports Measuring "HOL-Library.Multiset"
begin

text \<open>
  What a walk measures: its tally accounts for the leaves of the tree, each hard-linked file
  once, whatever order the directories list their entries in; and a tree that was measured has
  no source checkout and no mount boundary in it.
\<close>

section \<open>The leaves of a tree\<close>

datatype leaf =
    File_Leaf os_path u64 file_measure
  | Link_Leaf os_path u64 bytes file_measure

fun leaf_len :: "leaf \<Rightarrow> u64" where
  "leaf_len (File_Leaf p len m) = len" | "leaf_len (Link_Leaf p len t m) = len"

fun leaf_measure :: "leaf \<Rightarrow> file_measure" where
  "leaf_measure (File_Leaf p len m) = m" | "leaf_measure (Link_Leaf p len t m) = m"

fun leaf_contents :: "os_host \<Rightarrow> (bytes \<Rightarrow> bytes) \<Rightarrow> leaf \<Rightarrow> contents" where
  "leaf_contents h sha (File_Leaf p len m) =
     contents_file sha (oh_spell h p) len (Some (fm_identity m))"
| "leaf_contents h sha (Link_Leaf p len t m) =
     contents_link sha (oh_spell h p) t (fm_identity m)"

definition leaf_of :: "os_path \<Rightarrow> metadata \<Rightarrow> node_answers \<Rightarrow> leaf list" where
  "leaf_of path me a =
     (case (me_shape me, na_measure a, na_read_link a) of
        (shape.File, Inr m, _) \<Rightarrow> [File_Leaf path (me_len me) m]
      | (shape.Link, Inr m, Inr t) \<Rightarrow> [Link_Leaf path (me_len me) t m]
      | _ \<Rightarrow> [])"

text \<open>The leaves, and every entry met with the directory it is in.\<close>

fun leaves :: "os_path \<Rightarrow> os_tree \<Rightarrow> leaf list" and entry_leaves :: "os_path \<Rightarrow> os_entry \<Rightarrow> leaf list"
  where
  "leaves directory (Node a entries) = concat (map (entry_leaves directory) entries)"
| "entry_leaves directory (Unreadable e) = []"
| "entry_leaves directory (Entry n (Node a below)) =
     (case na_inspect a of
        Inl e \<Rightarrow> []
      | Inr me \<Rightarrow>
          if me_shape me = shape.Directory then leaves (directory @ [n]) (Node a below)
          else leaf_of (directory @ [n]) me a)"

fun encounters :: "os_path \<Rightarrow> metadata \<Rightarrow> os_tree \<Rightarrow> (os_path \<times> metadata \<times> bytes \<times> metadata) list"
  and entry_encounters ::
    "os_path \<Rightarrow> metadata \<Rightarrow> os_entry \<Rightarrow> (os_path \<times> metadata \<times> bytes \<times> metadata) list" where
  "encounters directory me (Node a entries) = concat (map (entry_encounters directory me) entries)"
| "entry_encounters directory me (Unreadable e) = []"
| "entry_encounters directory me (Entry n (Node a below)) =
     (case na_inspect a of
        Inl e \<Rightarrow> []
      | Inr cm \<Rightarrow>
          (directory, me, n, cm) #
          (if me_shape cm = shape.Directory then encounters (directory @ [n]) cm (Node a below)
           else []))"

section \<open>No source checkout and no mount boundary\<close>

definition disposable_entry ::
  "tree_contents \<Rightarrow> os_path \<Rightarrow> os_path \<times> metadata \<times> bytes \<times> metadata \<Rightarrow> bool" where
  "disposable_entry policy root entry =
     (case entry of (d, dm, n, cm) \<Rightarrow>
        (git_name n \<longrightarrow> contents_git policy (source_area d root) (git_entry_of cm) = Disposable) \<and>
        (me_shape cm = shape.Directory \<longrightarrow> crossing dm cm = None))"

lemma disposition_cases: "d \<noteq> Preserve \<longleftrightarrow> d = Disposable"
  by (cases d) simp_all

lemma walk_encounters:
  "walk h sha policy root directory me tree = Inr t \<Longrightarrow>
     list_all (disposable_entry policy root) (encounters directory me tree)"
  "walk_entries h sha policy root directory me acc entries = Inr t \<Longrightarrow>
     list_all (disposable_entry policy root) (concat (map (entry_encounters directory me) entries))"
  "walk_entry h sha policy root directory me acc entry = Inr t \<Longrightarrow>
     list_all (disposable_entry policy root) (entry_encounters directory me entry)"
proof (induction h sha policy root directory me tree and h sha policy root directory me acc entries
    and h sha policy root directory me acc entry arbitrary: t and t and t
    rule: walk_walk_entries_walk_entry.induct)
  case (1 h sha policy root directory me a entries)
  then show ?case by (auto split: shape.splits option.splits simp: result_simps)
next
  case (5 h sha policy root directory me acc n a below)
  let ?path = "directory @ [n]"
  from 5(2) obtain cm where cm: "na_inspect a = Inr cm" by (auto simp: Let_def result_simps)
  with 5(2) have git: "git_name n \<longrightarrow>
      contents_git policy (source_area directory root) (git_entry_of cm) = Disposable"
    by (auto simp: Let_def result_simps disposition_cases split: if_splits)
  show ?case
  proof (cases "me_shape cm = shape.Directory")
    case True
    with 5(2) cm obtain u where none: "crossing me cm = None"
      and u: "walk h sha policy root ?path cm (Node a below) = Inr u"
      by (auto simp del: walk.simps simp: Let_def result_simps split: if_splits option.splits)
    have "list_all (disposable_entry policy root) (encounters ?path cm (Node a below))"
      using True none u git 5(1) [of ?path cm u] by (auto simp del: walk.simps encounters.simps)
    with True git none cm show ?thesis
      by (simp del: encounters.simps add: disposable_entry_def [of _ _ "(_, _, _, _)"])
  next
    case False
    with git cm show ?thesis by (simp add: disposable_entry_def)
  qed
qed (auto simp: result_simps)

section \<open>What a tally accounts for\<close>

definition linked_leaf :: "leaf \<Rightarrow> bool" where
  "linked_leaf l \<longleftrightarrow> 1 < fm_links (leaf_measure l)"

definition leaf_key :: "leaf \<Rightarrow> link_key" where
  "leaf_key l = link_key (fm_identity (leaf_measure l))"

definition leaf_blocks :: "leaf \<Rightarrow> nat" where
  "leaf_blocks l = unat (fm_allocation (leaf_measure l))"

definition names_seen :: "leaf list \<Rightarrow> link_key \<Rightarrow> nat" where
  "names_seen ls k = length (filter (\<lambda>l. linked_leaf l \<and> leaf_key l = k) ls)"

text \<open>Every name of a hard-linked file reports the same allocation and link count.\<close>

definition determined :: "(link_key \<Rightarrow> u64 \<times> u32) \<Rightarrow> leaf list \<Rightarrow> bool" where
  "determined M ls \<longleftrightarrow>
     list_all (\<lambda>l. \<not> linked_leaf l \<or>
       M (leaf_key l) = (fm_allocation (leaf_measure l), fm_links (leaf_measure l))) ls"

definition counted :: "u64 \<times> u32 \<Rightarrow> nat \<Rightarrow> linked option" where
  "counted m n =
     (if n = 0 then None
      else Some \<lparr>li_allocation = fst m, li_links = snd m, li_seen = of_nat (min n (2 ^ 32 - 1))\<rparr>)"

definition accounts ::
  "os_host \<Rightarrow> (bytes \<Rightarrow> bytes) \<Rightarrow> (link_key \<Rightarrow> u64 \<times> u32) \<Rightarrow> tally \<Rightarrow> leaf list \<Rightarrow> bool" where
  "accounts h sha M t ls \<longleftrightarrow>
     unat (ta_logical t) = min (\<Sum>l\<leftarrow>ls. unat (leaf_len l)) (2 ^ 64 - 1) \<and>
     unat (ta_unlinked t) =
       min (\<Sum>l\<leftarrow>filter (\<lambda>l. \<not> linked_leaf l) ls. leaf_blocks l) (2 ^ 64 - 1) \<and>
     ta_allocation t = allocation_state.Measured \<and>
     tm_wf (ta_linked t) \<and>
     map_of (ta_linked t) = (\<lambda>k. counted (M k) (names_seen ls k)) \<and>
     ta_contents t = (\<Sum>l\<leftarrow>ls. leaf_contents h sha l) \<and>
     ta_markers t = [] \<and> ta_failures t = 0"

lemma unat_of_nat_u32: "n < 2 ^ 32 \<Longrightarrow> unat (of_nat n :: u32) = n"
  by (simp add: unsigned_of_nat take_bit_nat_eq_self)

lemma seen_sat_add:
  "sat_add (of_nat (min n (2 ^ 32 - 1)) :: u32) (of_nat (min k (2 ^ 32 - 1))) =
     of_nat (min (n + k) (2 ^ 32 - 1))"
  by (rule word_unat_eq_iff [THEN iffD2]) (simp add: unat_sat_add unat_of_nat_u32 min_def)

lemma counted_bump:
  "Some (case counted m n of
       Some link \<Rightarrow> link\<lparr>li_seen := sat_add (li_seen link) 1\<rparr>
     | None \<Rightarrow> \<lparr>li_allocation = fst m, li_links = snd m, li_seen = 1\<rparr>) = counted m (Suc n)"
  using seen_sat_add [of n 1] by (simp add: counted_def)

lemma counted_merge:
  "counted m k = Some link \<Longrightarrow> merge_linked link (counted m n) = counted m (n + k)"
  using seen_sat_add [of n k] by (auto simp: counted_def merge_linked_def split: if_splits)

lemma accounts_empty: "accounts h sha M (tally_empty Allocated) []"
  by (simp add: accounts_def tally_empty_def tm_wf_def counted_def names_seen_def)

lemma sum_list_permuted:
  assumes "mset xs = mset ys"
  shows "(\<Sum>x\<leftarrow>xs. f x :: 'b :: comm_monoid_add) = (\<Sum>x\<leftarrow>ys. f x)"
proof -
  from assms have "mset (map f xs) = mset (map f ys)" by simp
  then have "sum_mset (mset (map f xs)) = sum_mset (mset (map f ys))" by (rule arg_cong)
  then show ?thesis by (simp only: sum_mset_sum_list)
qed

lemma names_seen_permuted:
  assumes "mset ls = mset ls'"
  shows "names_seen ls = names_seen ls'"
proof
  fix k
  have "mset (filter (\<lambda>l. linked_leaf l \<and> leaf_key l = k) ls) =
      mset (filter (\<lambda>l. linked_leaf l \<and> leaf_key l = k) ls')" using assms by simp
  then show "names_seen ls k = names_seen ls' k"
    unfolding names_seen_def by (rule mset_eq_length)
qed

lemma accounts_unique:
  assumes "accounts h sha M t ls" and "accounts h sha M u ls'" and "mset ls = mset ls'"
  shows "t = u"
proof -
  note t = assms(1) [unfolded accounts_def] and u = assms(2) [unfolded accounts_def]
  have linked: "ta_linked t = ta_linked u"
    using t u by (intro tm_extensional) (simp_all add: names_seen_permuted [OF assms(3)] del: split_paired_All)
  have "mset (filter (\<lambda>l. \<not> linked_leaf l) ls) = mset (filter (\<lambda>l. \<not> linked_leaf l) ls')"
    using assms(3) by simp
  then have unlinked: "ta_unlinked t = ta_unlinked u"
    unfolding word_unat_eq_iff using t u sum_list_permuted [of _ _ leaf_blocks] by metis
  have logical: "ta_logical t = ta_logical u"
    unfolding word_unat_eq_iff using t u sum_list_permuted [OF assms(3), of "\<lambda>l. unat (leaf_len l)"]
    by metis
  have "ta_contents t = ta_contents u"
    using t u sum_list_permuted [OF assms(3), of "leaf_contents h sha"] by metis
  with linked unlinked logical show ?thesis
    using t u by (intro tally.equality) simp_all
qed

text \<open>Adding a leaf, and adding what a walk below counted.\<close>

fun count_leaf :: "os_host \<Rightarrow> (bytes \<Rightarrow> bytes) \<Rightarrow> leaf \<Rightarrow> tally \<Rightarrow> tally" where
  "count_leaf h sha l t =
     tally_allocated (leaf_measure l)
       (t\<lparr>ta_logical := saturating_add (ta_logical t) (leaf_len l),
          ta_contents := contents_merge (ta_contents t) (leaf_contents h sha l)\<rparr>)"

lemma min_min_plus: "min (min a c + b) c = min (a + b) (c :: nat)"
  by (simp add: min_def)

lemma min_plus_min: "min (min a c + min b c) c = min (a + b) (c :: nat)"
  by (simp add: min_def)

lemma accounts_leaf:
  assumes acc: "accounts h sha M t ls" and det: "determined M (ls @ [l])"
  shows "accounts h sha M (count_leaf h sha l t) (ls @ [l])"
proof (cases "linked_leaf l")
  case False
  then have "fm_links (leaf_measure l) \<le> 1" by (simp add: linked_leaf_def not_less)
  with False acc show ?thesis
    by (simp add: accounts_def tally_allocated_def unat_saturating_add names_seen_def
        min_min_plus leaf_blocks_def contents_merge_def del: One_nat_def)
next
  case True
  then have links: "\<not> fm_links (leaf_measure l) \<le> 1" by (simp add: linked_leaf_def not_le)
  have m: "fm_allocation (leaf_measure l) = fst (M (leaf_key l))"
      "fm_links (leaf_measure l) = snd (M (leaf_key l))"
    using det True by (simp_all add: determined_def)
  let ?bump = "\<lambda>current. Some (case current of
      Some link \<Rightarrow> link\<lparr>li_seen := sat_add (li_seen link) 1\<rparr>
    | None \<Rightarrow> \<lparr>li_allocation = fm_allocation (leaf_measure l), li_links = fm_links (leaf_measure l),
        li_seen = 1\<rparr>)"
  have names: "names_seen (ls @ [l]) k =
      (if k = leaf_key l then Suc (names_seen ls k) else names_seen ls k)" for k
    using True by (simp add: names_seen_def)
  have wf: "tm_wf (ta_linked t)" using acc by (simp add: accounts_def)
  have "map_of (tm_alter ?bump (leaf_key l) (ta_linked t)) = (\<lambda>k. counted (M k) (names_seen (ls @ [l]) k))"
    using acc counted_bump [of "M (leaf_key l)" "names_seen ls (leaf_key l)"]
    by (intro ext) (simp add: tm_get_alter [OF wf] names m accounts_def cong: option.case_cong)
  then show ?thesis
    using acc True links tm_alter_wf [OF wf]
    by (simp add: accounts_def tally_allocated_def unat_saturating_add leaf_key_def [symmetric]
        min_min_plus contents_merge_def)
qed

lemma accounts_merge:
  assumes acc: "accounts h sha M t ls" "accounts h sha M u ls'"
  shows "accounts h sha M (tally_merge t u) (ls @ ls')"
proof -
  have names: "names_seen (ls @ ls') k = names_seen ls k + names_seen ls' k" for k
    by (simp add: names_seen_def)
  have wf: "tm_wf (ta_linked t)" "tm_wf (ta_linked u)" using acc by (simp_all add: accounts_def)
  let ?merge = "foldl (\<lambda>m (i, link). tm_alter (merge_linked link) i m) (ta_linked t) (ta_linked u)"
  have fold: "?merge = foldl (\<lambda>m x. tm_alter (merge_linked (snd x)) (fst x) m) (ta_linked t) (ta_linked u)"
    by (simp add: case_prod_unfold)
  have "tm_wf ?merge" unfolding fold by (rule tree_map.wf_fold [OF wf(1)])
  moreover have "map_of ?merge = (\<lambda>k. counted (M k) (names_seen (ls @ ls') k))"
  proof
    fix k
    have u: "map_of (ta_linked u) k = counted (M k) (names_seen ls' k)"
      and t: "map_of (ta_linked t) k = counted (M k) (names_seen ls k)"
      using acc by (simp_all add: accounts_def)
    have "map_of ?merge k = foldl (\<lambda>v x. merge_linked (snd x) v) (map_of (ta_linked t) k)
        (case map_of (ta_linked u) k of None \<Rightarrow> [] | Some v \<Rightarrow> [(k, v)])"
      unfolding fold tree_map.get_fold [OF wf(1)] tm_filter_key [OF wf(2)] ..
    then show "map_of ?merge k = counted (M k) (names_seen (ls @ ls') k)"
      using counted_merge [of "M k" "names_seen ls' k"]
      by (cases "counted (M k) (names_seen ls' k)") (simp_all add: t u names counted_def split: if_splits)
  qed
  ultimately show ?thesis
    using acc by (simp add: accounts_def tally_merge_def unat_saturating_add contents_merge_def
        min_plus_min saturating_add_def [of 0])
qed

section \<open>A walk accounts for its leaves\<close>

lemma determined_append: "determined M (ls @ ls') \<longleftrightarrow> determined M ls \<and> determined M ls'"
  by (simp add: determined_def)

lemma tally_link_count:
  "tally_link h sha path me a t = Inr t' \<Longrightarrow> me_shape me = shape.Link \<Longrightarrow>
   \<exists>l. leaf_of path me a = [l] \<and> t' = count_leaf h sha l t"
  by (auto simp: tally_link_def result_simps leaf_of_def)

lemma walk_entry_leaf:
  assumes "walk_entry h sha policy root directory me acc (Entry n (Node a below)) = Inr t"
    and "na_inspect a = Inr cm" and "me_shape cm \<noteq> shape.Directory"
  shows "t = foldl (\<lambda>t l. count_leaf h sha l t) acc (leaf_of (directory @ [n]) cm a) \<and>
    length (leaf_of (directory @ [n]) cm a) \<le> 1"
proof (cases "me_shape cm")
  case Link
  with assms have "tally_link h sha (directory @ [n]) cm a acc = Inr t"
    by (simp add: Let_def os_result_def split: if_splits)
      (metis (no_types, lifting) result_bind_Inr sum.distinct(1))
  from tally_link_count [OF this Link] show ?thesis by auto
qed (use assms in \<open>auto simp: Let_def os_result_def leaf_of_def tally_file_def result_simps
    split: if_splits sum.splits\<close>)

lemma walk_accounts:
  "walk h sha policy root directory me tree = Inr t \<Longrightarrow> determined M (leaves directory tree) \<Longrightarrow>
     accounts h sha M t (leaves directory tree)"
  "walk_entries h sha policy root directory me acc entries = Inr t \<Longrightarrow>
     accounts h sha M acc before \<Longrightarrow>
     determined M (before @ concat (map (entry_leaves directory) entries)) \<Longrightarrow>
     accounts h sha M t (before @ concat (map (entry_leaves directory) entries))"
  "walk_entry h sha policy root directory me acc entry = Inr t \<Longrightarrow>
     accounts h sha M acc before \<Longrightarrow> determined M (before @ entry_leaves directory entry) \<Longrightarrow>
     accounts h sha M t (before @ entry_leaves directory entry)"
proof (induction h sha policy root directory me tree and h sha policy root directory me acc entries
    and h sha policy root directory me acc entry arbitrary: t and t before and t before
    rule: walk_walk_entries_walk_entry.induct)
  case (1 h sha policy root directory me a entries)
  then show ?case
    using 1(1) [where before = "[]"]
    by (auto split: shape.splits option.splits simp: result_simps accounts_empty)
next
  case (3 h sha policy root directory me acc e entries)
  then obtain u where u: "walk_entry h sha policy root directory me acc e = Inr u"
    and rest: "walk_entries h sha policy root directory me u entries = Inr t"
    by (auto simp: result_simps)
  have "accounts h sha M u (before @ entry_leaves directory e)"
    using 3 u by (simp add: determined_append)
  from 3(2) [OF rest this] 3(5) show ?case by simp
next
  case (5 h sha policy root directory me acc n a below)
  from 5(2) obtain cm where cm: "na_inspect a = Inr cm" by (auto simp: Let_def result_simps)
  show ?case
  proof (cases "me_shape cm = shape.Directory")
    case False
    with walk_entry_leaf [OF 5(2) cm] 5(3,4) cm show ?thesis
      by (cases "leaf_of (directory @ [n]) cm a") (auto intro: accounts_leaf simp del: count_leaf.simps)
  next
    case True
    with 5(2) cm obtain u where u: "walk h sha policy root (directory @ [n]) cm (Node a below) = Inr u"
      and t: "t = tally_merge acc u"
      and ok: "\<not> (git_name n \<and> contents_git policy (source_area directory root) (git_entry_of cm) = Preserve)"
      and none: "crossing me cm = None"
      by (auto simp del: walk.simps simp: Let_def result_simps split: if_splits option.splits)
    have "accounts h sha M u (leaves (directory @ [n]) (Node a below))"
      using 5(1) [of "directory @ [n]" cm u] 5(4) True cm u ok none
      by (simp add: determined_append os_result_def del: walk.simps leaves.simps)
    with 5(3) True cm t show ?thesis by (simp add: accounts_merge del: leaves.simps)
  qed
qed auto

section \<open>Usage\<close>

lemma tm_sum:
  fixes f :: "'k::linorder \<Rightarrow> 'v \<Rightarrow> nat"
  assumes "tm_wf m"
  shows "(\<Sum>x\<leftarrow>m. f (fst x) (snd x)) = (\<Sum>k\<in>dom (map_of m). f k (the (map_of m k)))"
  using assms
proof (induction m)
  case (Cons x m)
  then have tail: "tm_wf m" and above: "\<forall>y \<in> set (map fst m). fst x < y"
    by (simp_all add: tm_wf_def)
  have fresh: "fst x \<notin> dom (map_of m)" using tm_get_above [OF above] by (simp add: domIff)
  have same: "(\<Sum>k\<in>dom (map_of m). f k (the (map_of (x # m) k))) =
      (\<Sum>k\<in>dom (map_of m). f k (the (map_of m k)))"
    using fresh by (intro sum.cong) auto
  have insert: "(\<Sum>k\<in>insert (fst x) (dom (map_of m)). f k (the (map_of (x # m) k))) =
      f (fst x) (the (map_of (x # m) (fst x))) + (\<Sum>k\<in>dom (map_of m). f k (the (map_of (x # m) k)))"
    by (rule sum.insert [OF finite_dom_map_of fresh])
  have dom: "dom (map_of (x # m)) = insert (fst x) (dom (map_of m))" by auto
  show ?case unfolding dom insert same using Cons.IH [OF tail] by simp
qed simp

definition usage_step :: "u64 \<times> u64 \<Rightarrow> link_key \<times> linked \<Rightarrow> u64 \<times> u64" where
  "usage_step = (\<lambda>(allocated, reclaimable) (_, link).
     (saturating_add allocated (li_allocation link),
      if li_links link \<le> li_seen link
      then saturating_add reclaimable (li_allocation link) else reclaimable))"

lemma usage_fold:
  "unat (fst (foldl usage_step (a, r) m)) =
     min (unat a + (\<Sum>x\<leftarrow>m. unat (li_allocation (snd x)))) (2 ^ 64 - 1) \<and>
   unat (snd (foldl usage_step (a, r) m)) =
     min (unat r + (\<Sum>x\<leftarrow>m. if li_links (snd x) \<le> li_seen (snd x)
       then unat (li_allocation (snd x)) else 0)) (2 ^ 64 - 1)"
proof (induction m arbitrary: a r)
  case Nil
  show ?case using unat_u64_less [of a] unat_u64_less [of r] by simp
next
  case (Cons x m)
  obtain a' r' where step: "usage_step (a, r) x = (a', r')" by fastforce
  then have a': "unat a' = min (unat a + unat (li_allocation (snd x))) (2 ^ 64 - 1)"
    and r': "unat r' = min (unat r + (if li_links (snd x) \<le> li_seen (snd x)
        then unat (li_allocation (snd x)) else 0)) (2 ^ 64 - 1)"
    using unat_u64_less [of r]
    by (auto simp: usage_step_def case_prod_unfold unat_saturating_add)
  show ?case
    unfolding foldl_Cons step using Cons.IH [of a' r'] unfolding a' r'
    by (simp only: min_min_plus list.map sum_list.Cons add.assoc)
qed

definition linked_keys :: "leaf list \<Rightarrow> link_key set" where
  "linked_keys ls = leaf_key ` {l \<in> set ls. linked_leaf l}"

lemma linked_keys_filter: "linked_keys ls = leaf_key ` set (filter linked_leaf ls)"
  by (simp add: linked_keys_def)

definition unlinked_blocks :: "leaf list \<Rightarrow> nat" where
  "unlinked_blocks ls = (\<Sum>l\<leftarrow>filter (\<lambda>l. \<not> linked_leaf l) ls. leaf_blocks l)"

lemma linked_keys_names: "k \<in> linked_keys ls \<longleftrightarrow> names_seen ls k \<noteq> 0"
  by (auto simp: linked_keys_def names_seen_def filter_empty_conv)

lemma links_le_seen:
  "(l :: u32) \<le> of_nat (min n (2 ^ 32 - 1)) \<longleftrightarrow> unat l \<le> n"
proof -
  have "unat l < 2 ^ 32" using unsigned_less [of l] by simp
  then show ?thesis by (simp add: word_le_nat_alt unat_of_nat_u32)
qed

lemma accounts_usage:
  assumes acc: "accounts h sha M t ls"
  shows "\<exists>allocated reclaimable. us_allocation (tally_usage t) = allocation.Measured allocated reclaimable \<and>
    unat allocated = min (unlinked_blocks ls + (\<Sum>k\<in>linked_keys ls. unat (fst (M k)))) (2 ^ 64 - 1) \<and>
    unat reclaimable = min (unlinked_blocks ls +
      (\<Sum>k\<in>linked_keys ls. if unat (snd (M k)) \<le> names_seen ls k then unat (fst (M k)) else 0)) (2 ^ 64 - 1)"
proof -
  let ?m = "ta_linked t"
  have wf: "tm_wf ?m" and m: "map_of ?m = (\<lambda>k. counted (M k) (names_seen ls k))"
    and u: "unat (ta_unlinked t) = min (unlinked_blocks ls) (2 ^ 64 - 1)"
    using acc by (simp_all add: accounts_def unlinked_blocks_def)
  have dom: "dom (map_of ?m) = linked_keys ls"
    unfolding m by (auto simp: linked_keys_names counted_def split: if_splits)
  have counted: "the (map_of ?m k) = \<lparr>li_allocation = fst (M k), li_links = snd (M k),
      li_seen = of_nat (min (names_seen ls k) (2 ^ 32 - 1))\<rparr>" if "k \<in> linked_keys ls" for k
    using that by (simp add: m counted_def linked_keys_names)
  have a: "(\<Sum>x\<leftarrow>?m. unat (li_allocation (snd x))) = (\<Sum>k\<in>linked_keys ls. unat (fst (M k)))"
    unfolding tm_sum [OF wf, of "\<lambda>k v. unat (li_allocation v)"] dom
    by (rule sum.cong) (simp_all add: counted del: split_paired_All)
  have r: "(\<Sum>x\<leftarrow>?m. if li_links (snd x) \<le> li_seen (snd x) then unat (li_allocation (snd x)) else 0) =
      (\<Sum>k\<in>linked_keys ls. if unat (snd (M k)) \<le> names_seen ls k then unat (fst (M k)) else 0)"
    unfolding tm_sum [OF wf, of "\<lambda>k v. if li_links v \<le> li_seen v then unat (li_allocation v) else 0"] dom
    by (rule sum.cong) (simp_all add: counted links_le_seen [simplified] del: split_paired_All)
  obtain allocated reclaimable where
    f: "foldl usage_step (ta_unlinked t, ta_unlinked t) ?m = (allocated, reclaimable)" by fastforce
  then have "us_allocation (tally_usage t) = allocation.Measured allocated reclaimable"
    using acc by (simp add: tally_usage_def accounts_def usage_step_def [symmetric])
  with usage_fold [of "ta_unlinked t" "ta_unlinked t" ?m] a r u f show ?thesis
    by (simp add: min_min_plus)
qed

section \<open>Properties\<close>

text \<open>A directory that was measured, and so every directory that is deleted, has at
  no depth a \<open>.git\<close> entry that its kind does not dispose of, nor a directory on another device
  than the one it is in.\<close>

theorem measured_has_no_sources:
  assumes "strictly h sha root tree k = Inr m" and "na_inspect (node_answers tree) = Inr me"
    and "(d, dm, n, cm) \<in> set (encounters root me tree)"
  shows "(git_name n \<longrightarrow>
      contents_git (kind_contents k) (source_area d root) (git_entry_of cm) = Disposable) \<and>
    (me_shape cm = shape.Directory \<longrightarrow> crossing dm cm = None)"
proof -
  from assms(1,2) obtain t where "walk h sha (kind_contents k) root root me tree = Inr t"
    by (auto simp: strictly_def walk_root_def result_simps)
  from walk_encounters(1) [OF this] assms(3) show ?thesis
    by (auto simp: list_all_iff disposable_entry_def)
qed

lemma strictly_accounts:
  assumes "strictly h sha root tree k = Inr m" and "determined M (leaves root tree)"
  shows "\<exists>t. m = tally_measurement t \<and> accounts h sha M t (leaves root tree)"
  using assms by (auto simp: strictly_def walk_root_def result_simps intro: walk_accounts(1))


text \<open>The order in which directories list their entries does not change a
  measurement, nor the identifier derived from it: two trees with the same leaves measure the
  same.\<close>

theorem listing_order_irrelevant:
  assumes "strictly h sha root tree k = Inr m" and "strictly h sha root tree' k' = Inr m'"
    and "mset (leaves root tree) = mset (leaves root tree')"
    and "determined M (leaves root tree)"
  shows "m = m'"
proof -
  have "determined M (leaves root tree')"
    using assms(3,4) unfolding determined_def list_all_iff by (metis set_mset_mset)
  with strictly_accounts [OF assms(1,4)] strictly_accounts [OF assms(2)] show ?thesis
    using accounts_unique [OF _ _ assms(3)] by blast
qed

section \<open>An example\<close>

definition sample_file :: "u64 \<Rightarrow> u128 \<Rightarrow> u32 \<Rightarrow> os_tree" where
  "sample_file len i links =
     Node \<lparr>na_inspect = Inr \<lparr>me_shape = shape.File, me_len = len, me_device = Some 1\<rparr>,
       na_read_dir = Some \<lparr>oe_kind = ENotADirectory, oe_code = None\<rparr>,
       na_read_link = Inl \<lparr>oe_kind = EInvalidInput, oe_code = None\<rparr>,
       na_measure = Inr \<lparr>fm_identity = \<lparr>volume = 1, file_id = i\<rparr>, fm_allocation = 8, fm_links = links\<rparr>\<rparr> []"

definition sample_directory :: "os_entry list \<Rightarrow> os_tree" where
  "sample_directory entries =
     Node \<lparr>na_inspect = Inr \<lparr>me_shape = shape.Directory, me_len = 0, me_device = Some 1\<rparr>,
       na_read_dir = None,
       na_read_link = Inl \<lparr>oe_kind = EInvalidInput, oe_code = None\<rparr>,
       na_measure = Inl \<lparr>oe_kind = EOther, oe_code = None\<rparr>\<rparr> entries"

definition sample_tree :: os_tree where
  "sample_tree = sample_directory
     [Entry ''a'' (sample_file 5 10 2),
      Entry ''d'' (sample_directory [Entry ''c'' (sample_file 7 11 2), Entry ''b'' (sample_file 5 10 2)])]"

definition sample_shuffled :: os_tree where
  "sample_shuffled = sample_directory
     [Entry ''d'' (sample_directory [Entry ''b'' (sample_file 5 10 2), Entry ''c'' (sample_file 7 11 2)]),
      Entry ''a'' (sample_file 5 10 2)]"

definition sample_measure :: "os_tree \<Rightarrow> rejection + measurement" where
  "sample_measure tree = strictly unix_host (\<lambda>_. []) [''t''] tree RustTarget"

lemma sample_measured:
  "strictly unix_host (\<lambda>_. []) [''t''] sample_tree RustTarget = Inr (projr (sample_measure sample_tree))"
  "strictly unix_host (\<lambda>_. []) [''t''] sample_shuffled RustTarget = Inr (projr (sample_measure sample_shuffled))"
  by (simp_all add: sample_measure_def strictly_def walk_root_def sample_tree_def sample_shuffled_def
      sample_directory_def sample_file_def os_result_def Let_def git_name_def
      eq_ignore_ascii_case_def to_ascii_lower_def is_ascii_upper_def crossing_def)

lemma sample_leaves:
  "leaves [''t''] sample_tree =
     [File_Leaf [''t'', ''a''] 5 \<lparr>fm_identity = \<lparr>volume = 1, file_id = 10\<rparr>, fm_allocation = 8, fm_links = 2\<rparr>,
      File_Leaf [''t'', ''d'', ''c''] 7 \<lparr>fm_identity = \<lparr>volume = 1, file_id = 11\<rparr>, fm_allocation = 8, fm_links = 2\<rparr>,
      File_Leaf [''t'', ''d'', ''b''] 5 \<lparr>fm_identity = \<lparr>volume = 1, file_id = 10\<rparr>, fm_allocation = 8, fm_links = 2\<rparr>]"
  by (simp add: sample_tree_def sample_directory_def sample_file_def leaf_of_def)

lemma sample_links:
  "determined (\<lambda>_. (8, 2)) (leaves [''t''] sample_tree)"
  "linked_keys (leaves [''t''] sample_tree) = {(1, 10), (1, 11)}"
  "names_seen (leaves [''t''] sample_tree) (1, 10) = 2"
  "names_seen (leaves [''t''] sample_tree) (1, 11) = 1"
  "unlinked_blocks (leaves [''t''] sample_tree) = 0"
  "(\<Sum>l\<leftarrow>leaves [''t''] sample_tree. unat (leaf_len l)) = 17"
  by (auto simp: sample_leaves determined_def linked_keys_filter linked_leaf_def leaf_key_def
      link_key_def names_seen_def unlinked_blocks_def)

theorem measured_has_no_sources_witness:
  "crossing \<lparr>me_shape = shape.Directory, me_len = 0, me_device = Some 1\<rparr>
     \<lparr>me_shape = shape.Directory, me_len = 0, me_device = Some 1\<rparr> = None"
  using measured_has_no_sources [OF sample_measured(1), of _ "[''t'']" _ "''d''"]
  by (simp add: sample_tree_def sample_directory_def)


lemma sample_same_leaves:
  "mset (leaves [''t''] sample_tree) = mset (leaves [''t''] sample_shuffled)"
  by (simp add: sample_tree_def sample_shuffled_def sample_directory_def sample_file_def leaf_of_def)

theorem listing_order_irrelevant_witness:
  "projr (sample_measure sample_tree) = projr (sample_measure sample_shuffled)"
  by (rule listing_order_irrelevant [OF sample_measured(1,2) sample_same_leaves sample_links(1)])

end
