(* ===== verification/Busy_Facts.thy ===== *)
theory Busy_Facts
  imports Busy Measuring_Facts Gate_Facts
begin

text \<open>
  What probing, leasing and surveying guarantee: a lease that was granted holds every lock that
  could be taken, a refused one holds none; a contention refuses exactly as the busy gate does;
  and no owner marker and no owner lock of a surveyed directory is overlooked, at any depth.
\<close>

section \<open>Probes and leases\<close>

definition available :: "lock_os \<Rightarrow> identity set \<Rightarrow> lock \<Rightarrow> bool" where
  "available os locked l \<longleftrightarrow>
     (case attempt_lock os locked l of Vanished \<Rightarrow> True | Taken f \<Rightarrow> True | _ \<Rightarrow> False)"

definition takes :: "lock_os \<Rightarrow> lock \<Rightarrow> bool" where
  "takes os l \<longleftrightarrow> lo_open os (lk_path l) = None"

definition lock_file :: "lock_os \<Rightarrow> lock \<Rightarrow> identity" where
  "lock_file os l = lo_file os (lk_path l)"

lemma probe_iff: "probe os locked ls = Inr () \<longleftrightarrow> list_all (available os locked) ls"
  by (induction ls) (auto simp: available_def split: attempt.splits)

lemma held_free_iff: "held os locked ls = holding.Free \<longleftrightarrow> list_all (available os locked) ls"
  by (induction ls) (auto simp: available_def split: attempt.splits)

lemma attempt_Taken:
  "attempt_lock os locked l = Taken f \<longleftrightarrow>
     takes os l \<and> lo_try os (lk_path l) = None \<and> f = lock_file os l \<and> f \<notin> locked"
  by (auto simp: attempt_lock_def takes_def lock_file_def split: option.splits if_splits presence.splits)

lemma attempt_Vanished:
  "attempt_lock os locked l = Vanished \<longleftrightarrow>
     (\<exists>e. lo_open os (lk_path l) = Some e \<and> oe_kind e = ENotFound) \<and>
     protocol_presence (lk_protocol l) = Optional"
  by (auto simp: attempt_lock_def split: option.splits if_splits presence.splits)

text \<open>What a granted lease holds, and that the files it holds were free and are all different.\<close>

lemma available_iff:
  "available os locked l \<longleftrightarrow>
     attempt_lock os locked l = Vanished \<or> (\<exists>f. attempt_lock os locked l = Taken f)"
  by (simp add: available_def split: attempt.splits)

lemma attempt_available: "attempt_lock os (locked \<union> taken) l = Taken f \<Longrightarrow> available os locked l"
  unfolding available_iff attempt_Taken by blast

lemma vanished_available:
  "attempt_lock os (locked \<union> taken) l = Vanished \<Longrightarrow> available os locked l \<and> \<not> takes os l"
  unfolding available_iff attempt_Vanished by (auto simp: takes_def)

lemma lease_from_granted:
  "lease_from os locked taken ls = Inr result \<Longrightarrow>
   map fst result = map fst taken @ map (lock_file os) (filter (takes os) ls) \<and>
   map snd result = map snd taken @
     map (\<lambda>l. projr (lo_identity os (lk_path l))) (filter (takes os) ls) \<and>
   list_all (available os locked) ls"
proof (induction ls arbitrary: taken)
  case (Cons l ls)
  show ?case
  proof (cases "attempt_lock os (locked \<union> set (map fst taken)) l")
    case Vanished
    with Cons vanished_available [OF Vanished] show ?thesis by simp
  next
    case (Taken f)
    with Cons.prems obtain i where "lo_identity os (lk_path l) = Inr i"
      "lease_from os locked (taken @ [(f, i)]) ls = Inr result" by (auto split: sum.splits)
    with Cons.IH attempt_available [OF Taken] Taken show ?thesis
      by (fastforce simp: attempt_Taken)
  qed (use Cons.prems in simp_all)
qed simp

lemma lease_from_distinct:
  "lease_from os locked taken ls = Inr result \<Longrightarrow> distinct (map fst taken) \<Longrightarrow>
   set (map fst taken) \<inter> locked = {} \<Longrightarrow>
   distinct (map fst result) \<and> set (map fst result) \<inter> locked = {}"
proof (induction ls arbitrary: taken)
  case (Cons l ls)
  show ?case
  proof (cases "attempt_lock os (locked \<union> set (map fst taken)) l")
    case (Taken f)
    with Cons.prems(1) obtain i where "lease_from os locked (taken @ [(f, i)]) ls = Inr result"
      by (auto split: sum.splits)
    with Cons.IH Cons.prems Taken show ?thesis by (fastforce simp: attempt_Taken)
  qed (use Cons in simp_all)
qed simp

lemma lease_granted:
  assumes "lease os locked ls = (Inr taken, after)"
  shows "map fst taken = map (lock_file os) (filter (takes os) ls)" and "distinct (map fst taken)"
    and "set (map fst taken) \<inter> locked = {}" and "list_all (available os locked) ls"
    and "after = locked \<union> set (map fst taken)"
    and "lease_keys taken = (\<lambda>l. projr (lo_identity os (lk_path l))) ` {l \<in> set ls. takes os l}"
proof -
  from assms have l: "lease_from os locked [] ls = Inr taken" and a: "after = locked \<union> set (map fst taken)"
    by (auto simp: lease_def split: sum.splits)
  have "map fst taken = map (lock_file os) (filter (takes os) ls) \<and> list_all (available os locked) ls"
    using lease_from_granted [OF l] by simp
  moreover have "distinct (map fst taken) \<and> set (map fst taken) \<inter> locked = {}"
    using lease_from_distinct [OF l] by simp
  ultimately show "map fst taken = map (lock_file os) (filter (takes os) ls)" "distinct (map fst taken)"
    "set (map fst taken) \<inter> locked = {}" "list_all (available os locked) ls" by blast+
  from lease_from_granted [OF l] have "map snd taken =
      map (\<lambda>l. projr (lo_identity os (lk_path l))) (filter (takes os) ls)" by simp
  then show "lease_keys taken = (\<lambda>l. projr (lo_identity os (lk_path l))) ` {l \<in> set ls. takes os l}"
    by (simp add: lease_keys_def)
  from a show "after = locked \<union> set (map fst taken)" .
qed

lemma lease_refused: "lease os locked ls = (Inl c, after) \<Longrightarrow> after = locked"
  by (auto simp: lease_def split: sum.splits)

section \<open>Contention and the busy gate\<close>

lemma busy_gate_contention:
  assumes "ask_liveness ask = Some (contention_liveness c)"
  shows "gate_busy site ask = verdict.Reject (contention_rejection c (st_location site))"
  using assms by (simp add: gate_busy_def contention_liveness_def contention_rejection_def
      split: lock_state.splits)

section \<open>The survey overlooks no owner\<close>

definition keeps :: "survey \<Rightarrow> survey \<Rightarrow> bool" where
  "keeps s s' \<longleftrightarrow> set (sv_locks s) \<subseteq> set (sv_locks s') \<and> set (sv_markers s) \<subseteq> set (sv_markers s')"

lemma keeps_refl: "keeps s s" and keeps_trans: "keeps s t \<Longrightarrow> keeps t u \<Longrightarrow> keeps s u"
  by (auto simp: keeps_def)

definition found :: "survey \<Rightarrow> os_path \<Rightarrow> bytes \<Rightarrow> bool" where
  "found s d n \<longleftrightarrow>
     (n = marker_name \<longrightarrow> d \<in> set (sv_markers s)) \<and>
     (protocol_of n = Some TempOwner \<longrightarrow>
        (d @ [n], TempOwner) \<in> set (map (\<lambda>l. (lk_path l, lk_protocol l)) (sv_locks s)))"

lemma keeps_found: "keeps s s' \<Longrightarrow> found s d n \<Longrightarrow> found s' d n"
  by (auto simp: keeps_def found_def)

lemma marker_is_no_lock: "protocol_of marker_name = None"
  by code_simp

lemma survey_entry_found:
  "survey_entry h d names r (n, t) (pushed, s) = Inr (pushed', s') \<Longrightarrow>
   keeps s s' \<and> set pushed \<subseteq> set pushed' \<and>
   (\<exists>cm. na_inspect (node_answers t) = Inr cm \<and>
     (me_shape cm = shape.Directory \<longrightarrow> (\<exists>r'. (d @ [n], t, r') \<in> set pushed')) \<and>
     (me_shape cm = shape.File \<longrightarrow> found s' d n))"
  by (auto simp: survey_entry_def Let_def result_simps keeps_def found_def survey_push_def
      marker_is_no_lock split: if_splits option.splits)

lemma survey_entries_found:
  "survey_entries h d names r es (pushed, s) = Inr (pushed', s') \<Longrightarrow>
   keeps s s' \<and> set pushed \<subseteq> set pushed' \<and>
   (\<forall>(n, t) \<in> set es. \<exists>cm. na_inspect (node_answers t) = Inr cm \<and>
     (me_shape cm = shape.Directory \<longrightarrow> (\<exists>r'. (d @ [n], t, r') \<in> set pushed')) \<and>
     (me_shape cm = shape.File \<longrightarrow> found s' d n))"
proof (induction es arbitrary: pushed s)
  case (Cons e es)
  obtain n t where e: "e = (n, t)" by fastforce
  from Cons.prems obtain p1 s1 where one: "survey_entry h d names r (n, t) (pushed, s) = Inr (p1, s1)"
    and rest: "survey_entries h d names r es (p1, s1) = Inr (pushed', s')"
    by (auto simp: result_simps e)
  note first = survey_entry_found [OF one] and more = Cons.IH [OF rest]
  then have "keeps s s'" "set pushed \<subseteq> set pushed'" by (auto intro: keeps_trans)
  moreover obtain cm where "na_inspect (node_answers t) = Inr cm"
    "me_shape cm = shape.Directory \<longrightarrow> (\<exists>r'. (d @ [n], t, r') \<in> set p1)"
    "me_shape cm = shape.File \<longrightarrow> found s1 d n" using first by blast
  moreover from more have "set p1 \<subseteq> set pushed'" "keeps s1 s'" by simp_all
  ultimately show ?case using more by (auto simp: e intro: keeps_found)
qed (simp add: keeps_refl)

lemma read_entries_Inr: "read_entries es = Inr xs \<Longrightarrow> es = map (\<lambda>(n, t). Entry n t) xs"
  by (induction es arbitrary: xs rule: read_entries.induct) (auto simp: result_simps)

lemma survey_directory_found:
  assumes "survey_directory h so d tree r s = Inr (pushed, s')" and "Entry n t \<in> set (node_entries tree)"
  shows "keeps s s' \<and> (\<exists>cm. na_inspect (node_answers t) = Inr cm \<and>
     (me_shape cm = shape.Directory \<longrightarrow> (\<exists>r'. (d @ [n], t, r') \<in> set pushed)) \<and>
     (me_shape cm = shape.File \<longrightarrow> found s' d n))"
proof -
  from assms(1) obtain xs w u where xs: "read_entries (node_entries tree) = Inr xs"
    and u: "survey_workspace h so d w s = Inr u"
    and entries: "survey_entries h d (map fst xs) r xs ([], u) = Inr (pushed, s')"
    by (auto simp: survey_directory_def result_simps Let_def split: option.splits)
  from u have "keeps s u"
    by (auto simp: survey_workspace_def result_simps survey_push_def keeps_def split: if_splits)
  from assms(2) have "(n, t) \<in> set xs" by (auto simp: read_entries_Inr [OF xs])
  with survey_entries_found [OF entries] \<open>keeps s u\<close> show ?thesis by (auto intro: keeps_trans)
qed

lemma survey_directory_keeps:
  "survey_directory h so d tree r s = Inr (pushed, s') \<Longrightarrow> keeps s s'"
  by (auto simp: survey_directory_def result_simps Let_def survey_workspace_def survey_push_def
      split: option.splits if_splits dest!: survey_entries_found) (auto simp: keeps_def)

lemma entry_encountersE:
  assumes "x \<in> set (entry_encounters directory me e)"
  obtains n t cm where "e = Entry n t" and "na_inspect (node_answers t) = Inr cm"
    and "x = (directory, me, n, cm) \<or>
      me_shape cm = shape.Directory \<and> x \<in> set (encounters (directory @ [n]) cm t)"
proof (cases e)
  case (Entry n t)
  obtain a entries where "t = Node a entries" by (cases t)
  with Entry assms that show ?thesis
    by (cases "na_inspect a") (auto simp del: encounters.simps split: if_splits)
qed (use assms in simp)

text \<open>Every regular file met below what is still pending is looked at.\<close>

lemma survey_loop_found:
  "survey_loop h so stack s = Inr s' \<Longrightarrow>
   keeps s s' \<and>
   (\<forall>(p, t, r) \<in> set stack. \<forall>me. \<forall>(d, dm, n, cm) \<in> set (encounters p me t).
      me_shape cm = shape.File \<longrightarrow> found s' d n)"
proof (induction h so stack s rule: survey_loop.induct)
  case (2 h so directory tree r stack s)
  then obtain pushed s1 where one: "survey_directory h so directory tree r s = Inr (pushed, s1)"
    and rest: "survey_loop h so (rev pushed @ stack) s1 = Inr s'"
    by (auto split: sum.splits prod.splits)
  note more = 2(1) [OF one refl rest]
  have kept: "keeps s s'"
    using survey_directory_keeps [OF one] more by (blast intro: keeps_trans)
  have here: "found s' d n"
    if enc: "(d, dm, n, cm) \<in> set (encounters directory me tree)" and "me_shape cm = shape.File"
    for d dm n cm me
  proof -
    obtain a entries where tree: "tree = Node a entries" by (cases tree)
    with enc obtain e where e: "e \<in> set entries" and "(d, dm, n, cm) \<in> set (entry_encounters directory me e)"
      by auto
    then obtain n' t cm' where entry: "e = Entry n' t" "na_inspect (node_answers t) = Inr cm'"
      and cases: "(d, dm, n, cm) = (directory, me, n', cm') \<or>
        me_shape cm' = shape.Directory \<and> (d, dm, n, cm) \<in> set (encounters (directory @ [n']) cm' t)"
      by (auto elim!: entry_encountersE)
    from survey_directory_found [OF one, of n' t] e entry(1) tree have
      "me_shape cm' = shape.Directory \<longrightarrow> (\<exists>r'. (directory @ [n'], t, r') \<in> set pushed)"
      "me_shape cm' = shape.File \<longrightarrow> found s1 directory n'"
      using entry(2) by auto
    from cases show ?thesis
    proof
      assume "(d, dm, n, cm) = (directory, me, n', cm')"
      with \<open>me_shape cm' = shape.File \<longrightarrow> found s1 directory n'\<close> that(2) more show ?thesis
        by (auto intro: keeps_found)
    next
      assume below: "me_shape cm' = shape.Directory \<and>
        (d, dm, n, cm) \<in> set (encounters (directory @ [n']) cm' t)"
      then obtain r' where "(directory @ [n'], t, r') \<in> set (rev pushed @ stack)"
        using \<open>me_shape cm' = shape.Directory \<longrightarrow> (\<exists>r'. (directory @ [n'], t, r') \<in> set pushed)\<close>
        by auto
      with more below that(2) show ?thesis by blast
    qed
  qed
  with kept more show ?case by auto
qed (simp add: keeps_refl)

section \<open>Properties\<close>

text \<open>Property C33. A survey overlooks no owner: every owner marker and every owner lock of the
  surveyed directory is in its result, at any depth.\<close>

theorem survey_overlooks_no_owner:
  assumes "survey h so root tree = Inr s" and "(d, dm, n, cm) \<in> set (encounters root me tree)"
    and "me_shape cm = shape.File"
  shows "(n = marker_name \<longrightarrow> d \<in> set (sv_markers s)) \<and>
    (protocol_of n = Some TempOwner \<longrightarrow>
       (d @ [n], TempOwner) \<in> set (map (\<lambda>l. (lk_path l, lk_protocol l)) (sv_locks s)))"
proof -
  from assms(1) obtain u where
    u: "survey_loop h so [(root, tree, recognition.Artifacts)] survey_empty = Inr u"
    and s: "set (sv_locks s) = set (sv_locks u)" "set (sv_markers s) = set (sv_markers u)"
    by (auto simp: survey_def result_simps)
  from survey_loop_found [OF u] assms(2,3) have "found u d n" by fastforce
  with s show ?thesis by (simp add: found_def)
qed

text \<open>A lease is exclusive: the files it locked were locked by nobody, no two of them
  are the same, and every lock that it did not take is one whose file is gone and may be; a
  refused lease leaves the lock table as it was.\<close>

theorem lease_exclusive:
  "case lease os locked ls of
      (Inl c, after) \<Rightarrow> after = locked
    | (Inr taken, after) \<Rightarrow>
        after = locked \<union> set (map (lock_file os) (filter (takes os) ls)) \<and>
        distinct (map (lock_file os) (filter (takes os) ls)) \<and>
        set (map (lock_file os) (filter (takes os) ls)) \<inter> locked = {} \<and>
        list_all (\<lambda>l. attempt_lock os locked l = Vanished) (filter (\<lambda>l. \<not> takes os l) ls)"
proof (cases "lease os locked ls")
  case (Pair result after)
  show ?thesis
  proof (cases result)
    case (Inl c)
    with Pair show ?thesis by (simp add: lease_refused)
  next
    case (Inr taken)
    with Pair have granted: "lease os locked ls = (Inr taken, after)" by simp
    have "list_all (\<lambda>l. attempt_lock os locked l = Vanished) (filter (\<lambda>l. \<not> takes os l) ls)"
      using lease_granted(4) [OF granted]
      by (auto simp: list_all_iff available_iff attempt_Taken)
    then show ?thesis
      using lease_granted(1,2,3,5) [OF granted] Inr Pair by (simp del: set_map)
  qed
qed

definition owned_tree :: os_tree where
  "owned_tree = sample_directory
     [Entry ''owner.json'' (sample_file 5 10 1),
      Entry ''d'' (sample_directory [Entry ''owner.lock'' (sample_file 0 11 1)])]"

definition quiet_survey_os :: survey_os where
  "quiet_survey_os =
     \<lparr>so_swift_lock = (\<lambda>_. Inl \<lparr>oe_kind = ENotFound, oe_code = None\<rparr>), so_is_file = (\<lambda>_. Inr False)\<rparr>"

lemma owned_tree_surveyed:
  "survey unix_host quiet_survey_os [''t''] owned_tree =
     Inr \<lparr>sv_locks = [\<lparr>lk_path = [''t'', ''d'', ''owner.lock''],
         lk_location = projr (locate unix_host [''t'', ''d'', ''owner.lock'']), lk_protocol = TempOwner\<rparr>],
       sv_markers = [[''t'']]\<rparr>"
  by code_simp

theorem survey_overlooks_no_owner_witness:
  "([''t'', ''d'', ''owner.lock''], TempOwner) \<in> set (map (\<lambda>l. (lk_path l, lk_protocol l))
     (sv_locks (projr (survey unix_host quiet_survey_os [''t''] owned_tree))))"
proof -
  have entry: "([''t'', ''d''], \<lparr>me_shape = shape.Directory, me_len = 0, me_device = Some 1\<rparr>, ''owner.lock'',
      \<lparr>me_shape = shape.File, me_len = 0, me_device = Some 1\<rparr>) \<in>
      set (encounters [''t''] \<lparr>me_shape = shape.Directory, me_len = 0, me_device = Some 1\<rparr> owned_tree)"
    by (simp add: owned_tree_def sample_directory_def sample_file_def)
  have lock: "protocol_of ''owner.lock'' = Some TempOwner" by code_simp
  have "([''t'', ''d''] @ [''owner.lock''], TempOwner) \<in> set (map (\<lambda>l. (lk_path l, lk_protocol l))
      (sv_locks (projr (survey unix_host quiet_survey_os [''t''] owned_tree))))"
    unfolding owned_tree_surveyed sum.sel
    by (rule survey_overlooks_no_owner [OF owned_tree_surveyed entry, THEN conjunct2, THEN mp, OF _ lock])
      simp
  then show ?thesis by simp
qed

end
