(* ===== verification/Owners_Facts.thy ===== *)
theory Owners_Facts
  imports Owners Busy_Facts
begin

text \<open>
  The cache of worktrees never shows: whatever was asked before, an answer is the one a recheck
  gives, and after a change of the disk it is enough to forget the repositories that changed. A
  completed survey holds the lock of every declared owner on the way up.
\<close>

section \<open>The answer without a cache\<close>

definition fresh_worktree :: "owner_os \<Rightarrow> os_path option \<Rightarrow> os_path \<Rightarrow> worktree option" where
  "fresh_worktree os state root =
     (case locate (ow_host os) root of
        Inl _ \<Rightarrow> None
      | Inr location \<Rightarrow>
          (case Option.bind state (ow_release os root) of
             Some evidence \<Rightarrow> Some (worktree.Released location evidence)
           | None \<Rightarrow> worktree_fresh os root location (dot_git os root)))"

text \<open>The nearest directory with a \<open>.git\<close> that names a worktree.\<close>

definition nearest_worktree :: "owner_os \<Rightarrow> os_path option \<Rightarrow> os_path list \<Rightarrow> worktree option" where
  "nearest_worktree os state ds =
     find_map (\<lambda>d. if dot_git os d = dot.Absent then None else fresh_worktree os state d) ds"

definition coherent :: "owner_os \<Rightarrow> owners \<Rightarrow> bool" where
  "coherent os own \<longleftrightarrow>
     (\<forall>root w. ow_worktrees own root = Some w \<longrightarrow> fresh_worktree os None root = Some w)"

lemma coherentD:
  "coherent os own \<Longrightarrow> ow_worktrees own root = Some w \<Longrightarrow> locate (ow_host os) root = Inr l \<Longrightarrow>
   worktree_fresh os root l (dot_git os root) = Some w"
  by (fastforce simp: coherent_def fresh_worktree_def)

lemma coherent_new: "coherent os (owners_new os' ceilings)"
  by (simp add: coherent_def owners_new_def)

lemma coherent_clone: "coherent os (owners_clone own)"
  by (simp add: coherent_def owners_clone_def)

definition alike :: "owners \<Rightarrow> owners \<Rightarrow> bool" where
  "alike own own' \<longleftrightarrow> ow_ceilings own' = ow_ceilings own \<and> ow_state own' = ow_state own"

lemma alike_searched: "alike own own' \<Longrightarrow> searched own' path = searched own path"
  by (simp add: alike_def searched_def ceiling_def)

lemma coherent_insert:
  assumes "coherent os own" and "locate (ow_host os) root = Inr l"
    and "worktree_fresh os root l (dot_git os root) = Some w"
  shows "coherent os (own\<lparr>ow_worktrees := (ow_worktrees own)(root := Some w)\<rparr>)"
  using assms by (auto simp: coherent_def fresh_worktree_def)

lemma worktree_cached:
  assumes "coherent os own" and "owners_worktree os root (dot_git os root) own = (w, own')"
  shows "w = fresh_worktree os (ow_state own) root \<and> coherent os own' \<and> alike own own'"
proof (cases "locate (ow_host os) root")
  case (Inl e)
  with assms show ?thesis by (simp add: owners_worktree_def fresh_worktree_def alike_def)
next
  case (Inr l)
  show ?thesis
  proof (cases "ow_worktrees own root")
    case None
    with assms Inr show ?thesis
      by (auto simp: owners_worktree_def fresh_worktree_def alike_def split: option.splits
          intro: coherent_insert)
  next
    case (Some v)
    with coherentD [OF assms(1) Some Inr] assms Inr show ?thesis
      by (auto simp: owners_worktree_def fresh_worktree_def alike_def split: option.splits)
  qed
qed

lemma walk_cached:
  "coherent os own \<Longrightarrow> owners_walk os ds (ms, w, own) = (ms', w', own') \<Longrightarrow>
   ms' = ms @ List.map_filter (marker_at os) ds \<and>
   w' = (case w of Some v \<Rightarrow> Some v | None \<Rightarrow> nearest_worktree os (ow_state own) ds) \<and>
   coherent os own' \<and> alike own own'"
proof (induction ds arbitrary: ms w own)
  case Nil
  then show ?case by (simp add: map_filter_simps nearest_worktree_def alike_def split: option.splits)
next
  case (Cons d ds)
  define ms1 where "ms1 = (case marker_at os d of Some m \<Rightarrow> ms @ [m] | None \<Rightarrow> ms)"
  define step where "step = (case w of Some _ \<Rightarrow> (w, own) | None \<Rightarrow>
    if dot_git os d = dot.Absent then (w, own) else owners_worktree os d (dot_git os d) own)"
  obtain w1 own1 where one: "step = (w1, own1)" by fastforce
  have first: "w1 = (case w of Some v \<Rightarrow> Some v | None \<Rightarrow>
      if dot_git os d = dot.Absent then None else fresh_worktree os (ow_state own) d)"
    "coherent os own1" "alike own own1"
    using one worktree_cached [OF Cons.prems(1), of d] Cons.prems(1)
    by (auto simp: step_def alike_def split: option.splits if_splits)
  have "owners_walk os ds (ms1, w1, own1) = (ms', w', own')"
    using Cons.prems(2) one by (simp add: ms1_def step_def Let_def)
  from Cons.IH [OF first(2) this] first show ?case
    by (auto simp: ms1_def map_filter_simps nearest_worktree_def alike_def split: option.splits)
qed

definition plain_ownership :: "owner_os \<Rightarrow> owners \<Rightarrow> os_path \<Rightarrow> os_path list \<Rightarrow> ownership" where
  "plain_ownership os own path nested =
     resolve (List.map_filter (marker_at os) (searched own path))
       (List.map_filter (marker_at os) (filter (\<lambda>d. d \<noteq> path) nested))
       (nearest_worktree os (ow_state own) (searched own path))"

lemma owners_of_cached:
  assumes "coherent os own" and "owners_of os path nested own = (answer, own')"
  shows "answer = plain_ownership os own path nested \<and> coherent os own' \<and> alike own own'"
proof -
  obtain ms w own1 where walk: "owners_walk os (searched own path) ([], None, own) = (ms, w, own1)"
    by (metis prod_cases3)
  from walk_cached [OF assms(1) walk] assms(2) walk show ?thesis
    by (simp add: owners_of_def plain_ownership_def)
qed

lemma plain_alike: "alike own own' \<Longrightarrow> plain_ownership os own' path nested = plain_ownership os own path nested"
  by (simp add: plain_ownership_def alike_searched) (simp add: alike_def)

lemma alike_clone: "alike own (owners_clone own)"
  by (simp add: alike_def owners_clone_def)

lemma recheck_plain: "owners_recheck os path nested own = plain_ownership os own path nested"
proof -
  obtain answer own' where "owners_of os path nested (owners_clone own) = (answer, own')" by fastforce
  with owners_of_cached [OF coherent_clone this] show ?thesis
    by (simp add: owners_recheck_def plain_alike [OF alike_clone])
qed

lemma forget_coherent: "coherent os own \<Longrightarrow> coherent os (owners_forget os' rs own)"
  by (auto simp: coherent_def owners_forget_def split: option.splits if_splits)

lemma forget_alike: "alike own (owners_forget os rs own)"
  by (simp add: alike_def owners_forget_def split: option.splits)

section \<open>Requests to the owners\<close>

datatype owner_request = Ask os_path "os_path list" | Forget "os_path set option"

fun owner_answers :: "owner_os \<Rightarrow> owners \<Rightarrow> owner_request list \<Rightarrow> ownership list" where
  "owner_answers os own [] = []"
| "owner_answers os own (Ask path nested # rs) =
     (case owners_of os path nested own of (answer, own') \<Rightarrow> answer # owner_answers os own' rs)"
| "owner_answers os own (Forget repositories # rs) =
     owner_answers os (owners_forget os repositories own) rs"

fun recheck_answers :: "owner_os \<Rightarrow> owners \<Rightarrow> owner_request list \<Rightarrow> ownership list" where
  "recheck_answers os own [] = []"
| "recheck_answers os own (Ask path nested # rs) =
     owners_recheck os path nested own # recheck_answers os own rs"
| "recheck_answers os own (Forget repositories # rs) = recheck_answers os own rs"

lemma recheck_answers_alike: "alike own own' \<Longrightarrow> recheck_answers os own' rs = recheck_answers os own rs"
  by (induction os own rs rule: recheck_answers.induct) (simp_all add: recheck_plain plain_alike)

lemma answers_coherent: "coherent os own \<Longrightarrow> owner_answers os own rs = recheck_answers os own rs"
proof (induction os own rs rule: owner_answers.induct)
  case (2 os own path nested rs)
  obtain answer own' where one: "owners_of os path nested own = (answer, own')" by fastforce
  from owners_of_cached [OF 2(2) one] 2(1) one show ?case
    by (simp add: recheck_plain recheck_answers_alike)
qed (simp_all add: forget_coherent recheck_answers_alike [OF forget_alike])

fun owners_after :: "owner_os \<Rightarrow> owners \<Rightarrow> owner_request list \<Rightarrow> owners" where
  "owners_after os own [] = own"
| "owners_after os own (Ask path nested # rs) =
     owners_after os (snd (owners_of os path nested own)) rs"
| "owners_after os own (Forget repositories # rs) =
     owners_after os (owners_forget os repositories own) rs"

lemma alike_trans: "alike own own' \<Longrightarrow> alike own' own'' \<Longrightarrow> alike own own''"
  by (simp add: alike_def)

lemma after_coherent: "coherent os own \<Longrightarrow> coherent os (owners_after os own rs) \<and> alike own (owners_after os own rs)"
proof (induction os own rs rule: owners_after.induct)
  case (2 os own path nested rs)
  from owners_of_cached [OF 2(2) prod.collapse [symmetric], of path nested] 2(1) show ?case
    by (auto intro: alike_trans)
next
  case (3 os own repositories rs)
  then show ?case by (auto intro: forget_coherent alike_trans [OF forget_alike])
qed (simp add: alike_def)

lemma repository_alike: "alike own own' \<Longrightarrow> repository os own' root = repository os own root"
  by (simp add: repository_def alike_searched)

text \<open>What a change of the disk must not do behind the cache's back.\<close>

lemma forget_changed_coherent:
  assumes "coherent os own"
    and "\<And>root. ow_worktrees own root \<noteq> None \<Longrightarrow>
      fresh_worktree os' None root \<noteq> fresh_worktree os None root \<Longrightarrow>
      \<exists>r \<in> changed. repository os' own root = Some r"
  shows "coherent os' (owners_forget os' (Some changed) own)"
  unfolding coherent_def
proof (intro allI impI)
  fix root w
  assume "ow_worktrees (owners_forget os' (Some changed) own) root = Some w"
  then have cached: "ow_worktrees own root = Some w" and stays: "repository os' own root \<notin> Some ` changed"
    by (auto simp: owners_forget_def split: option.splits if_splits)
  with assms(2) [of root] have "fresh_worktree os' None root = fresh_worktree os None root" by blast
  with assms(1) cached show "fresh_worktree os' None root = Some w" by (simp add: coherent_def)
qed

section \<open>Locks on the way up\<close>

lemma set_remdups_adj_on_keys: "set (map key (remdups_adj_on key xs)) = set (map key xs)"
  by (induction key xs rule: remdups_adj_on.induct) auto

lemma remdups_adj_on_subset: "set (remdups_adj_on key xs) \<subseteq> set xs"
  by (induction key xs rule: remdups_adj_on.induct) auto

lemma remdups_adj_on_strict:
  "sorted (map key xs) \<Longrightarrow> sorted_wrt (<) (map key (remdups_adj_on key xs))"
proof (induction key xs rule: remdups_adj_on.induct)
  case (3 key x y xs)
  show ?case
  proof (cases "key x = key y")
    case True
    with 3 show ?thesis by simp
  next
    case False
    have "key x < k" if "k \<in> set (map key (remdups_adj_on key (y # xs)))" for k
    proof -
      from that have "k \<in> set (map key (y # xs))" by (simp only: set_remdups_adj_on_keys)
      with 3(3) False show ?thesis by (auto simp: order_less_le dest: order_trans)
    qed
    with 3 False show ?thesis by simp
  qed
qed simp_all

lemma owner_locks_found:
  "owner_locks os ds s = Inr s' \<Longrightarrow>
   sv_markers s' = sv_markers s \<and> set (sv_locks s) \<subseteq> set (sv_locks s') \<and>
   (\<forall>d \<in> set ds. declared os d \<noteq> None \<longrightarrow>
      d @ [temp_owner_name] \<in> set (map lk_path (sv_locks s')))"
proof (induction ds arbitrary: s)
  case (Cons d ds)
  then obtain s1 where one: "(if declared os d \<noteq> None
      then survey_owner (ow_host os) (d @ [temp_owner_name]) s else Inr s) = Inr s1"
    and rest: "owner_locks os ds s1 = Inr s'" by (auto simp: result_simps)
  from one have first: "sv_markers s1 = sv_markers s" "set (sv_locks s) \<subseteq> set (sv_locks s1)"
    "declared os d \<noteq> None \<Longrightarrow> d @ [temp_owner_name] \<in> set (map lk_path (sv_locks s1))"
    by (auto simp: survey_owner_def survey_push_def result_simps split: if_splits)
  then have "set (map lk_path (sv_locks s1)) \<subseteq> set (map lk_path (sv_locks s'))"
    using Cons.IH [OF rest] by auto
  with first Cons.IH [OF rest] show ?case by (auto simp del: set_map)
qed simp

lemma complete_survey_found:
  assumes "complete_survey os own path s = Inr s'"
  shows "sv_markers s' = sv_markers s" and "sorted_wrt (<) (map lk_path (sv_locks s'))"
    and "set (map lk_path (sv_locks s)) \<subseteq> set (map lk_path (sv_locks s'))"
    and "d \<in> set (searched own path) \<Longrightarrow> declared os d \<noteq> None \<Longrightarrow>
      d @ [temp_owner_name] \<in> set (map lk_path (sv_locks s'))"
proof -
  from assms obtain u where u: "owner_locks os (searched own path) s = Inr u"
    and s': "s' = survey_order u" by (auto simp: complete_survey_def result_simps)
  have paths: "set (map lk_path (sv_locks s')) = set (map lk_path (sv_locks u))"
    by (simp add: s' survey_order_def set_remdups_adj_on_keys del: set_map) simp
  show "sorted_wrt (<) (map lk_path (sv_locks s'))"
    by (simp add: s' survey_order_def remdups_adj_on_strict)
  note found = owner_locks_found [OF u]
  show "sv_markers s' = sv_markers s" using found by (simp add: s' survey_order_def)
  show "set (map lk_path (sv_locks s)) \<subseteq> set (map lk_path (sv_locks s'))"
    unfolding paths using found by auto
  show "d \<in> set (searched own path) \<Longrightarrow> declared os d \<noteq> None \<Longrightarrow>
      d @ [temp_owner_name] \<in> set (map lk_path (sv_locks s'))"
    unfolding paths using found by blast
qed

section \<open>Properties\<close>


text \<open>Forgetting the repositories that changed is enough: when the disk changes and
  every cached worktree that changed belongs to one of them, every later answer is the one a
  recheck of the changed disk gives.\<close>

theorem forgetting_suffices:
  assumes "\<And>root. ow_worktrees (owners_after os (owners_clone own) before) root \<noteq> None \<Longrightarrow>
      fresh_worktree os' None root \<noteq> fresh_worktree os None root \<Longrightarrow>
      \<exists>r \<in> changed. repository os' own root = Some r"
  shows "owner_answers os'
      (owners_forget os' (Some changed) (owners_after os (owners_clone own) before)) later =
    recheck_answers os' own later"
proof -
  let ?own = "owners_after os (owners_clone own) before"
  have own: "coherent os ?own" and alike: "alike own ?own"
    using after_coherent [OF coherent_clone] alike_trans [OF alike_clone] by blast+
  have "coherent os' (owners_forget os' (Some changed) ?own)"
    by (rule forget_changed_coherent [OF own]) (simp add: assms repository_alike [OF alike])
  with recheck_answers_alike [OF alike_trans [OF alike forget_alike]] show ?thesis
    by (simp add: answers_coherent)
qed

text \<open>A deletion under the lease of a completed survey holds the lock of every declared
  owner on the way up to the ceiling, not only of those inside the directory.\<close>

theorem ancestor_locks_leased:
  assumes "owners_survey os so own path tree = Inr s"
    and "lease (ow_locks os) locked (sv_locks s) = (Inr taken, after)"
    and "d \<in> set (searched own path)" and "declared os d \<noteq> None"
    and "lo_open (ow_locks os) (d @ [temp_owner_name]) = None"
  shows "lo_file (ow_locks os) (d @ [temp_owner_name]) \<in> after - locked"
proof -
  from assms(1) obtain u where "complete_survey os own path u = Inr s"
    by (auto simp: owners_survey_def result_simps)
  from complete_survey_found(4) [OF this assms(3,4)] obtain l where l: "l \<in> set (sv_locks s)"
    "lk_path l = d @ [temp_owner_name]" by auto
  with assms(5) have "takes (ow_locks os) l" "lock_file (ow_locks os) l = lo_file (ow_locks os) (d @ [temp_owner_name])"
    by (simp_all add: takes_def lock_file_def)
  then have "lo_file (ow_locks os) (d @ [temp_owner_name]) \<in> set (map fst taken)"
    unfolding lease_granted(1) [OF assms(2)] using l(1) by force
  with lease_granted(3,5) [OF assms(2)] show ?thesis by auto
qed

text \<open>A linked worktree whose branch lands between two questions.\<close>

definition worktree_os :: "(os_path \<Rightarrow> location \<Rightarrow> worktree) \<Rightarrow> owner_os" where
  "worktree_os linked =
     \<lparr>ow_host = unix_host,
      ow_locks = \<lparr>lo_open = (\<lambda>_. None),
        lo_file = (\<lambda>p. \<lparr>volume = 1, file_id = of_nat (length p)\<rparr>), lo_try = (\<lambda>_. None),
        lo_identity = (\<lambda>p. Inr \<lparr>volume = 1, file_id = of_nat (length p)\<rparr>)\<rparr>,
      ow_locked = {},
      ow_json = (\<lambda>_. Some \<lparr>od_schema = ''x-temp-owner-v1'', od_kept = False, od_role = None,
        od_keyed_to = None\<rparr>),
      ow_read = (\<lambda>p. if p = [''w'', ''.git''] then Inr ''gitdir: /r/.git/worktrees/w''
        else if p = [''owner.json''] then Inr ''{}'' else Inl \<lparr>oe_kind = ENotFound, oe_code = None\<rparr>),
      ow_kind = (\<lambda>p. if p = [''w'', ''.git''] then Inr Is_File
        else if p = [''r'', ''.git'', ''worktrees'', ''w''] then Inr Is_Dir
        else Inl \<lparr>oe_kind = ENotFound, oe_code = None\<rparr>),
      ow_canonical = Inr,
      ow_path = (\<lambda>_ _. [''r'', ''.git'', ''worktrees'', ''w'']),
      ow_release = (\<lambda>_ _. None), ow_linked = linked\<rparr>"

definition before_landing :: owner_os where
  "before_landing = worktree_os (\<lambda>_ l. Orphaned l)"

definition after_landing :: owner_os where
  "after_landing = worktree_os (\<lambda>root l. if root = [''w''] then Primary l else Orphaned l)"

definition sample_owners :: owners where
  "sample_owners = owners_new before_landing []"

lemma sample_link_text:
  "take gitdir_read_limit ''gitdir: /r/.git/worktrees/w'' = ''gitdir: /r/.git/worktrees/w''"
  "from_utf8 ''gitdir: /r/.git/worktrees/w'' = Some ''gitdir: /r/.git/worktrees/w''"
  "strip_prefix ''gitdir:'' (trim ''gitdir: /r/.git/worktrees/w'') = Some '' /r/.git/worktrees/w''"
  subgoal by (simp add: gitdir_read_limit_def)
  subgoal by code_simp
  subgoal by code_simp
  done

lemma sample_selectors:
  "ow_host (worktree_os linked) = unix_host" "ow_canonical (worktree_os linked) = Inr"
  "ow_linked (worktree_os linked) = linked" "lo_open (ow_locks (worktree_os linked)) p = None"
  "lo_try (ow_locks (worktree_os linked)) p = None"
  "lo_file (ow_locks (worktree_os linked)) p = \<lparr>volume = 1, file_id = of_nat (length p)\<rparr>"
  "lo_identity (ow_locks (worktree_os linked)) p = Inr \<lparr>volume = 1, file_id = of_nat (length p)\<rparr>"
  "ow_read (worktree_os linked) [''w'', ''.git''] = Inr ''gitdir: /r/.git/worktrees/w''"
  "ow_read (worktree_os linked) [''owner.json''] = Inr ''{}''"
  "d \<noteq> [] \<Longrightarrow> ow_read (worktree_os linked) (d @ [''owner.json'']) = Inl \<lparr>oe_kind = ENotFound, oe_code = None\<rparr>"
  "ow_kind (worktree_os linked) [''w'', ''.git''] = Inr Is_File"
  "d \<noteq> [''w''] \<Longrightarrow> ow_kind (worktree_os linked) (d @ [''.git'']) = Inl \<lparr>oe_kind = ENotFound, oe_code = None\<rparr>"
  "ow_path (worktree_os linked) p t = [''r'', ''.git'', ''worktrees'', ''w'']"
  "ow_json (worktree_os linked) bs = Some \<lparr>od_schema = ''x-temp-owner-v1'', od_kept = False,
     od_role = None, od_keyed_to = None\<rparr>"
  by (simp_all add: worktree_os_def)

lemma sample_worktree:
  "gitdir (worktree_os linked) [''w'', ''.git''] = Some [''r'', ''.git'', ''worktrees'', ''w'']"
  "dot_git (worktree_os linked) [''w''] = dot.File [''w'', ''.git'']"
  "root \<noteq> [''w''] \<Longrightarrow> dot_git (worktree_os linked) root = dot.Absent"
  by (simp_all add: gitdir_def sample_link_text sample_selectors dot_git_def dot_failure_def)

lemma sample_searched: "searched sample_owners [''w''] = [[''w''], []]"
  by (simp add: searched_def ancestors_def ceiling_def sample_owners_def owners_new_def)

lemma landing_repository: "repository after_landing sample_owners [''w''] = Some [''r'', ''.git'']"
  unfolding after_landing_def
  by (simp add: repository_def or_same_def sample_selectors sample_searched repository_at_def
      sample_worktree parent_of_def)

lemma sample_declared: "declared before_landing d \<noteq> None \<longleftrightarrow> d = []"
proof -
  have suffix: "strip_suffix owner_schema_suffix ''x-temp-owner-v1'' \<noteq> None"
    by code_simp
  show ?thesis
    by (cases "d = []") (simp_all add: declared_def owner_parse_def before_landing_def marker_name_def
        sample_selectors suffix)
qed

lemma forgetting_suffices_witness:
  "owner_answers after_landing
     (owners_forget after_landing (Some {[''r'', ''.git'']})
       (owners_after before_landing (owners_clone sample_owners) [Ask [''w'', ''target''] []]))
     [Ask [''w'', ''target''] []] =
   recheck_answers after_landing sample_owners [Ask [''w'', ''target''] []]"
proof (rule forgetting_suffices)
  fix root
  assume "fresh_worktree after_landing None root \<noteq> fresh_worktree before_landing None root"
  then have "root = [''w'']"
    by (rule contrapos_np)
      (simp add: fresh_worktree_def worktree_fresh_def after_landing_def before_landing_def
        sample_worktree sample_selectors split: sum.splits)
  with landing_repository
  show "\<exists>r \<in> {[''r'', ''.git'']}. repository after_landing sample_owners root = Some r" by simp
qed

definition quiet_tree :: os_tree where
  "quiet_tree = sample_directory []"

lemma sample_owned_survey:
  "\<exists>l. owners_survey before_landing quiet_survey_os sample_owners [''w''] quiet_tree =
     Inr \<lparr>sv_locks = [\<lparr>lk_path = [''owner.lock''], lk_location = l, lk_protocol = TempOwner\<rparr>],
       sv_markers = []\<rparr>"
proof -
  have surveyed: "survey unix_host quiet_survey_os [''w''] quiet_tree = Inr survey_empty"
    by code_simp
  have "isl (locate unix_host [''owner.lock'']) = False"
    by code_simp
  then obtain l where "locate unix_host [''owner.lock''] = Inr l"
    by (cases "locate unix_host [''owner.lock'']") simp_all
  then have "survey_owner unix_host ([] @ [temp_owner_name]) survey_empty = Inr
      \<lparr>sv_locks = [\<lparr>lk_path = [''owner.lock''], lk_location = l, lk_protocol = TempOwner\<rparr>],
       sv_markers = []\<rparr>"
    by (simp add: survey_owner_def temp_owner_name_def result_simps survey_push_def survey_empty_def)
  moreover have "ow_host before_landing = unix_host"
    by (simp add: before_landing_def worktree_os_def)
  ultimately show ?thesis
    by (simp add: owners_survey_def complete_survey_def surveyed result_simps sample_searched
        sample_declared survey_order_def del: not_None_eq)
qed

lemma ancestor_locks_leased_witness:
  "\<lparr>volume = 1, file_id = 1\<rparr> \<in>
     snd (lease (ow_locks before_landing) {}
       (sv_locks (projr (owners_survey before_landing quiet_survey_os sample_owners [''w''] quiet_tree))))"
proof -
  obtain s l where surveyed: "owners_survey before_landing quiet_survey_os sample_owners [''w''] quiet_tree = Inr s"
    and s: "sv_locks s = [\<lparr>lk_path = [''owner.lock''], lk_location = l, lk_protocol = TempOwner\<rparr>]"
    using sample_owned_survey by fastforce
  obtain taken after where leased: "lease (ow_locks before_landing) {} (sv_locks s) = (Inr taken, after)"
    by (simp add: s lease_def attempt_lock_def before_landing_def sample_selectors)
  have "lo_file (ow_locks before_landing) ([] @ [temp_owner_name]) \<in> after - {}"
    by (rule ancestor_locks_leased [OF surveyed leased])
      (simp_all only: sample_searched sample_declared, simp_all add: before_landing_def sample_selectors)
  then show ?thesis by (simp add: surveyed leased) (simp add: before_landing_def sample_selectors)
qed

end
