(* ===== verification/Observing.thy ===== *)
theory Observing
  imports Owners_Facts
begin

text \<open>
  Observing a path just before it is judged (\<open>crates/cli/src/observe.rs\<close>, with \<open>shape\<close> and
  \<open>boundary\<close> of \<open>platform.rs\<close>): its shape, the device it lies on and the one of its parent,
  what the two directories list, their tags, and its identity.
\<close>

section \<open>Shapes and boundaries\<close>

record file_type =
  ft_symlink :: bool
  ft_dir :: bool
  ft_file :: bool

record node_metadata =
  nm_type :: file_type
  nm_reparse :: bool
  nm_device :: "u64 option"

definition platform_shape :: "node_metadata \<Rightarrow> shape" where
  "platform_shape m =
     (if ft_symlink (nm_type m) \<or> nm_reparse m then shape.Link
      else if ft_dir (nm_type m) then shape.Directory
      else if ft_file (nm_type m) then shape.File
      else shape.Other)"

definition platform_boundary :: "node_metadata \<Rightarrow> node_metadata \<Rightarrow> boundary" where
  "platform_boundary outer m =
     (case (nm_device outer, nm_device m) of
        (Some a, Some b) \<Rightarrow> if a = b then Same b else Crossed a b
      | _ \<Rightarrow> Unreported)"

section \<open>What the system answers\<close>

record observe_os =
  ob_owner :: owner_os
  ob_metadata :: "os_path \<Rightarrow> os_error + node_metadata"
  ob_canonical :: "os_path \<Rightarrow> os_error + os_path"
  ob_absolute :: "os_path \<Rightarrow> os_error + os_path"
  ob_read_dir :: "os_path \<Rightarrow> os_error + (os_error + bytes) list"
  ob_file_type :: "os_path \<Rightarrow> os_error + file_type"
  ob_identity :: "os_path \<Rightarrow> os_error + identity"

definition ob_host :: "observe_os \<Rightarrow> os_host" where
  "ob_host os = ow_host (ob_owner os)"

section \<open>Listings and tags\<close>

definition entries_empty :: entries where
  "entries_empty = \<lparr>ent_files = [], ent_dirs = []\<rparr>"

fun entries_from :: "observe_os \<Rightarrow> os_path \<Rightarrow> (os_error + bytes) list \<Rightarrow> entries \<Rightarrow> rejection + entries" where
  "entries_from os directory [] es = Inr es"
| "entries_from os directory (Inl e # rest) es = Inl (io_rejection (ob_host os) directory ReadEntry e)"
| "entries_from os directory (Inr n # rest) es =
     (case ob_file_type os (directory @ [n]) of
        Inl e \<Rightarrow> Inl (io_rejection (ob_host os) (directory @ [n]) FileType e)
      | Inr t \<Rightarrow>
          entries_from os directory rest
            (if ft_dir t then entries_dir es n else if ft_file t then entries_file es n else es))"

definition entries_of :: "observe_os \<Rightarrow> os_path \<Rightarrow> rejection + entries" where
  "entries_of os directory =
     (case ob_read_dir os directory of
        Inl e \<Rightarrow> Inl (io_rejection (ob_host os) directory ReadDir e)
      | Inr names \<Rightarrow> entries_from os directory names entries_empty)"

definition cache_tag_name :: bytes where
  "cache_tag_name = ''CACHEDIR.TAG''"

definition cache_tag_signature :: bytes where
  "cache_tag_signature = ''Signature: 8a477f597d28d172789f06886806bc55''"

text \<open>\<open>read_exact\<close> fails on a file that is shorter than the signature.\<close>

definition cache_tag_of :: "observe_os \<Rightarrow> os_path \<Rightarrow> entries \<Rightarrow> cache_tag" where
  "cache_tag_of os directory es =
     (if \<not> has_file es cache_tag_name then cache_tag.Absent
      else (case ow_read (ob_owner os) (directory @ [cache_tag_name]) of
              Inl _ \<Rightarrow> cache_tag.Invalid
            | Inr bytes \<Rightarrow>
                if length bytes < length cache_tag_signature then cache_tag.Invalid
                else if take (length cache_tag_signature) bytes = cache_tag_signature
                then cache_tag.Verified else cache_tag.Invalid))"

definition owner_tag_of :: "observe_os \<Rightarrow> os_path \<Rightarrow> entries \<Rightarrow> owner_tag" where
  "owner_tag_of os directory es =
     (if \<not> has_file es marker_name then owner_tag.Absent
      else (case declared (ob_owner os) directory of
              None \<Rightarrow> owner_tag.Foreign
            | Some d \<Rightarrow> (case dc_role d of role.Scratch \<Rightarrow> owner_tag.Scratch | role.Cache \<Rightarrow> owner_tag.Cache)))"

definition tags_of :: "observe_os \<Rightarrow> os_path \<Rightarrow> entries \<Rightarrow> tags" where
  "tags_of os directory es =
     \<lparr>tag_cache = cache_tag_of os directory es, tag_owner = owner_tag_of os directory es\<rparr>"

section \<open>Observations\<close>

record observation =
  ob_path :: os_path
  ob_location :: location
  ob_shape :: shape
  ob_boundary :: boundary
  ob_listing :: listing
  ob_found_identity :: identity

definition observation_site :: "observation \<Rightarrow> protection \<Rightarrow> location list \<Rightarrow> site" where
  "observation_site ob protection excludes =
     \<lparr>st_location = ob_location ob, st_shape = ob_shape ob, st_boundary = ob_boundary ob,
      st_listing = ob_listing ob, st_protection = protection, st_excludes = excludes\<rparr>"

definition resolved_path :: "observe_os \<Rightarrow> os_path \<Rightarrow> shape \<Rightarrow> rejection + os_path" where
  "resolved_path os path s =
     os_result (ob_host os) path Canonicalize
       (if s = shape.Directory then ob_canonical os path else ob_absolute os path)"

definition parent_boundary :: "observe_os \<Rightarrow> os_path \<Rightarrow> node_metadata \<Rightarrow> rejection + boundary" where
  "parent_boundary os resolved m =
     (case parent_of resolved of
        None \<Rightarrow> Inr NoParent
      | Some outer \<Rightarrow>
          result_bind (os_result (ob_host os) outer fs_op.Inspect (ob_metadata os outer)) (\<lambda>am.
            Inr (platform_boundary am m)))"

definition parent_entries :: "observe_os \<Rightarrow> os_path \<Rightarrow> rejection + entries" where
  "parent_entries os resolved =
     (case parent_of resolved of None \<Rightarrow> Inr entries_empty | Some outer \<Rightarrow> entries_of os outer)"

definition own_entries :: "observe_os \<Rightarrow> os_path \<Rightarrow> shape \<Rightarrow> rejection + entries \<times> tags" where
  "own_entries os resolved s =
     (if s = shape.Directory then
        result_bind (entries_of os resolved) (\<lambda>es. Inr (es, tags_of os resolved es))
      else Inr (entries_empty, tags_cache cache_tag.Absent))"

definition observe :: "observe_os \<Rightarrow> os_path \<Rightarrow> rejection + observation" where
  "observe os path =
     result_bind (os_result (ob_host os) path fs_op.Inspect (ob_metadata os path)) (\<lambda>m.
     result_bind (resolved_path os path (platform_shape m)) (\<lambda>resolved.
     result_bind (locate (ob_host os) resolved) (\<lambda>location.
     result_bind (parent_boundary os resolved m) (\<lambda>boundary.
     result_bind (parent_entries os resolved) (\<lambda>outside.
     result_bind (own_entries os resolved (platform_shape m)) (\<lambda>(es, ts).
     result_bind (os_result (ob_host os) resolved FileId (ob_identity os resolved)) (\<lambda>identity.
       Inr \<lparr>ob_path = resolved, ob_location = location, ob_shape = platform_shape m,
         ob_boundary = boundary, ob_listing = listing_new outside es ts,
         ob_found_identity = identity\<rparr>)))))))"

section \<open>What an observation says\<close>

lemma observe_located: "observe os path = Inr ob \<Longrightarrow> locate (ob_host os) (ob_path ob) = Inr (ob_location ob)"
  by (auto simp: observe_def result_simps)

lemma observe_identity: "observe os path = Inr ob \<Longrightarrow> ob_identity os (ob_path ob) = Inr (ob_found_identity ob)"
  by (auto simp: observe_def result_simps)

lemma observe_shape:
  "observe os path = Inr ob \<Longrightarrow> \<exists>m. ob_metadata os path = Inr m \<and> ob_shape ob = platform_shape m"
  by (auto simp: observe_def result_simps)

lemma observe_directory:
  "observe os path = Inr ob \<Longrightarrow> ob_shape ob = shape.Directory \<Longrightarrow> ob_canonical os path = Inr (ob_path ob)"
  by (auto simp: observe_def result_simps resolved_path_def)

lemma entries_from_Inr:
  "entries_from os directory names es = Inr es' \<Longrightarrow>
   set (ent_files es') = set (ent_files es) \<union>
     {lower n | n t. Inr n \<in> set names \<and> ob_file_type os (directory @ [n]) = Inr t \<and> \<not> ft_dir t \<and> ft_file t} \<and>
   set (ent_dirs es') = set (ent_dirs es) \<union>
     {lower n | n t. Inr n \<in> set names \<and> ob_file_type os (directory @ [n]) = Inr t \<and> ft_dir t}"
proof (induction os directory names es rule: entries_from.induct)
  case (3 os directory n rest es)
  then obtain t where t: "ob_file_type os (directory @ [n]) = Inr t" by (auto split: sum.splits)
  from 3(1) [OF t] 3(2) t show ?case
    by (auto simp: entries_dir_def entries_file_def split: if_splits)
qed simp_all

end
