(* ===== verification/Removal.thy ===== *)
theory Removal
  imports File_Trees
begin

text \<open>
  Removing a directory tree (\<open>remove_tree\<close> and what it calls, \<open>crates/cli/src/platform/unix.rs\<close>):
  the root is opened by its parent and must be the expected directory; a first pass removes
  everything but the files of the lease, a second pass the rest, and then the emptied root goes.
  The state is the listing of the parent directory with all that is below it, as POSIX gives
  \<open>unlinkat\<close> its meaning; any call may fail, as \<open>rm_os\<close> says.
\<close>

section \<open>What is on the disk\<close>

datatype fs_tree = Folder identity "(bytes \<times> fs_tree) list" | Leaf identity

type_synonym folder = "(bytes \<times> fs_tree) list"

fun tree_identity :: "fs_tree \<Rightarrow> identity" where
  "tree_identity (Folder i es) = i" | "tree_identity (Leaf i) = i"

fun is_folder :: "fs_tree \<Rightarrow> bool" where
  "is_folder (Folder i es) = True" | "is_folder (Leaf i) = False"

datatype rm_call =
    Open_Parent | Stat_Parent | Open_Root | Stat_Own | Make_Writable | Names | Stat_Child | Open_Child
  | Restat_Child | Unlink_Child | Restat_Root | Unlink_Root

text \<open>
  Which call fails, and which directories another process has swapped between the two looks at
  them: the directory opened is then not the one that was listed.
\<close>

record rm_os =
  ro_fails :: "rm_call \<Rightarrow> os_path \<Rightarrow> os_error option"
  ro_swapped :: "os_path \<Rightarrow> bool"

definition attempt_call ::
  "rm_os \<Rightarrow> rm_call \<Rightarrow> os_path \<Rightarrow> 's \<Rightarrow> (walk_error + 'a) \<times> 's \<Rightarrow> (walk_error + 'a) \<times> 's" where
  "attempt_call os call path s continue =
     (case ro_fails os call path of
        Some e \<Rightarrow> (Inl (WalkIo path e), s)
      | None \<Rightarrow> continue)"

section \<open>Clearing a directory\<close>

text \<open>
  \<open>clear_folder\<close> is \<open>Walk::clear\<close>: it returns whether the directory is now empty, with what is
  left of its entries. \<open>clear_entries\<close> is the loop over the names that were listed.
\<close>

fun clear_folder :: "rm_os \<Rightarrow> u64 \<Rightarrow> identity set \<Rightarrow> os_path \<Rightarrow> folder \<Rightarrow> (walk_error + bool) \<times> folder"
  and clear_entries :: "rm_os \<Rightarrow> u64 \<Rightarrow> identity set \<Rightarrow> os_path \<Rightarrow> bool \<Rightarrow> folder \<Rightarrow> (walk_error + bool) \<times> folder"
  and clear_child :: "rm_os \<Rightarrow> u64 \<Rightarrow> identity set \<Rightarrow> os_path \<Rightarrow> fs_tree \<Rightarrow> (walk_error + bool) \<times> fs_tree"
  where
  "clear_folder os device keep path es =
     attempt_call os Stat_Own path es
       (attempt_call os Make_Writable path es
         (attempt_call os Names path es
           (clear_entries os device keep path True es)))"
| "clear_entries os device keep path emptied [] = (Inr emptied, [])"
| "clear_entries os device keep path emptied ((n, t) # es) =
     (case clear_child os device keep (path @ [n]) t of
        (Inl e, t') \<Rightarrow> (Inl e, (n, t') # es)
      | (Inr gone, t') \<Rightarrow>
          if gone then
            (case ro_fails os Unlink_Child (path @ [n]) of
               Some e \<Rightarrow> (Inl (WalkIo (path @ [n]) e), (n, t') # es)
             | None \<Rightarrow> clear_entries os device keep path emptied es)
          else
            (case clear_entries os device keep path False es of
               (r, es') \<Rightarrow> (r, (n, t') # es')))"
| "clear_child os device keep below (Folder i sub) =
     attempt_call os Stat_Child below (Folder i sub)
       (if volume i \<noteq> device then (Inl (Boundary below device (volume i)), Folder i sub)
        else attempt_call os Open_Child below (Folder i sub)
          (attempt_call os Restat_Child below (Folder i sub)
            (if ro_swapped os below then (Inl (Moved below), Folder i sub)
             else (case clear_folder os device keep below sub of
                     (r, sub') \<Rightarrow> (r, Folder i sub')))))"
| "clear_child os device keep below (Leaf i) =
     attempt_call os Stat_Child below (Leaf i)
       (if i \<in> keep then (Inr False, Leaf i) else (Inr True, Leaf i))"

section \<open>Opening and removing the root\<close>

text \<open>The entries of the parent directory, whose own identity is \<open>outer\<close>.\<close>

definition open_root ::
  "rm_os \<Rightarrow> identity \<Rightarrow> os_path \<Rightarrow> identity \<Rightarrow> folder \<Rightarrow> walk_error + bytes \<times> identity \<times> folder" where
  "open_root os outer root expected es =
     (if root = [] then Inl (Moved root)
      else case ro_fails os Open_Parent root of Some e \<Rightarrow> Inl (WalkIo root e) | None \<Rightarrow>
      (case map_of es (List.last root) of
         None \<Rightarrow> Inl (WalkIo root \<lparr>oe_kind = ENotFound, oe_code = None\<rparr>)
       | Some (Leaf i) \<Rightarrow> Inl (WalkIo root \<lparr>oe_kind = ENotADirectory, oe_code = None\<rparr>)
       | Some (Folder i sub) \<Rightarrow>
           (case ro_fails os Open_Root root of Some e \<Rightarrow> Inl (WalkIo root e) | None \<Rightarrow>
            case ro_fails os Stat_Own root of Some e \<Rightarrow> Inl (WalkIo root e) | None \<Rightarrow>
            if i \<noteq> expected then Inl (Moved root)
            else case ro_fails os Stat_Parent root of Some e \<Rightarrow> Inl (WalkIo root e) | None \<Rightarrow>
              if volume outer \<noteq> volume i then Inl (Boundary root (volume outer) (volume i))
              else Inr (List.last root, i, sub))))"

definition set_entry :: "bytes \<Rightarrow> fs_tree \<Rightarrow> folder \<Rightarrow> folder" where
  "set_entry n t es = map (\<lambda>(m, u). if m = n then (m, t) else (m, u)) es"

definition drop_entry :: "bytes \<Rightarrow> folder \<Rightarrow> folder" where
  "drop_entry n es = filter (\<lambda>(m, u). m \<noteq> n) es"

definition remove_emptied ::
  "rm_os \<Rightarrow> os_path \<Rightarrow> bytes \<Rightarrow> identity \<Rightarrow> folder \<Rightarrow> folder \<Rightarrow> (walk_error + unit) \<times> folder" where
  "remove_emptied os root n i sub es =
     attempt_call os Restat_Root root (set_entry n (Folder i sub) es)
       (if ro_swapped os root then (Inl (Moved root), set_entry n (Folder i sub) es)
        else attempt_call os Unlink_Root root (set_entry n (Folder i sub) es)
          (if sub = [] then (Inr (), drop_entry n es)
           else (Inl (WalkIo root \<lparr>oe_kind = EDirectoryNotEmpty, oe_code = None\<rparr>),
                 set_entry n (Folder i sub) es)))"

text \<open>The lease is released, by \<open>release\<close>, only after the root is gone.\<close>

definition remove_tree ::
  "rm_os \<Rightarrow> identity \<Rightarrow> os_path \<Rightarrow> identity \<Rightarrow> identity set \<Rightarrow> folder \<Rightarrow> (walk_error + unit) \<times> folder" where
  "remove_tree os outer root expected keep es =
     (case open_root os outer root expected es of
        Inl e \<Rightarrow> (Inl e, es)
      | Inr (n, i, sub) \<Rightarrow>
          (case clear_folder os (volume i) keep root sub of
             (Inl e, sub1) \<Rightarrow> (Inl e, set_entry n (Folder i sub1) es)
           | (Inr _, sub1) \<Rightarrow>
               (case clear_folder os (volume i) {} root sub1 of
                  (Inl e, sub2) \<Rightarrow> (Inl e, set_entry n (Folder i sub2) es)
                | (Inr _, sub2) \<Rightarrow> remove_emptied os root n i sub2 es)))"

section \<open>What is left\<close>

text \<open>
  \<open>remains t' t\<close>: everything in \<open>t'\<close> is in \<open>t\<close>, at the same place and with the same identity.
\<close>

fun everything :: "os_path \<Rightarrow> fs_tree \<Rightarrow> (os_path \<times> identity) set"
  and all_entries :: "os_path \<Rightarrow> folder \<Rightarrow> (os_path \<times> identity) set" where
  "everything p (Folder i es) = insert (p, i) (all_entries p es)"
| "everything p (Leaf i) = {(p, i)}"
| "all_entries p [] = {}"
| "all_entries p ((n, t) # es) = everything (p @ [n]) t \<union> all_entries p es"

text \<open>The files of a directory, with whether they are in \<open>keep\<close>.\<close>

fun tree_leaves :: "os_path \<Rightarrow> fs_tree \<Rightarrow> (os_path \<times> identity) set"
  and folder_leaves :: "os_path \<Rightarrow> folder \<Rightarrow> (os_path \<times> identity) set" where
  "tree_leaves p (Folder i es) = folder_leaves p es"
| "tree_leaves p (Leaf i) = {(p, i)}"
| "folder_leaves p [] = {}"
| "folder_leaves p ((n, t) # es) = tree_leaves (p @ [n]) t \<union> folder_leaves p es"

text \<open>What lies on other devices: each such directory with everything in it.\<close>

fun foreign :: "u64 \<Rightarrow> os_path \<Rightarrow> fs_tree \<Rightarrow> (os_path \<times> identity) set"
  and foreign_entries :: "u64 \<Rightarrow> os_path \<Rightarrow> folder \<Rightarrow> (os_path \<times> identity) set" where
  "foreign d p (Folder i es) =
     (if volume i \<noteq> d then everything p (Folder i es) else foreign_entries d p es)"
| "foreign d p (Leaf i) = {}"
| "foreign_entries d p [] = {}"
| "foreign_entries d p ((n, t) # es) = foreign d (p @ [n]) t \<union> foreign_entries d p es"

lemma attempt_call_cases:
  "attempt_call os call path s (r, t) = (r', t') \<Longrightarrow>
   (r', t') = (r, t) \<or> t' = s \<and> (\<exists>e. r' = Inl (WalkIo path e))"
  by (auto simp: attempt_call_def split: option.splits)

lemma clear_only_removes:
  "clear_folder os device keep path es = (r, es') \<Longrightarrow> all_entries path es' \<subseteq> all_entries path es"
  "clear_entries os device keep path emptied es = (r, es') \<Longrightarrow> all_entries path es' \<subseteq> all_entries path es"
  "clear_child os device keep below t = (r, t') \<Longrightarrow> everything below t' \<subseteq> everything below t"
proof (induction os device keep path es and os device keep path emptied es and os device keep below t
    arbitrary: r es' and r es' and r t' rule: clear_folder_clear_entries_clear_child.induct)
  case (1 os device keep path es)
  then show ?case by (auto simp: attempt_call_def split: option.splits)
next
  case (3 os device keep path emptied n t es)
  then show ?case
    by (fastforce split: prod.splits sum.splits if_splits option.splits)
next
  case (4 os device keep below i sub)
  then show ?case
    by (auto simp: attempt_call_def simp del: clear_folder.simps split: prod.splits option.splits if_splits)
qed (auto simp: attempt_call_def split: option.splits if_splits)

lemma clear_child_Folder:
  "clear_child os device keep below (Folder i sub) = (r, t') \<Longrightarrow>
   t' = Folder i sub \<and> (\<exists>e. r = Inl e) \<or>
   volume i = device \<and> \<not> ro_swapped os below \<and>
     (\<exists>sub'. clear_folder os device keep below sub = (r, sub') \<and> t' = Folder i sub')"
  by (auto simp: attempt_call_def simp del: clear_folder.simps
      split: prod.splits option.splits if_splits)

lemma clear_emptied:
  "clear_folder os device keep path es = (Inr b, es') \<Longrightarrow> b \<longleftrightarrow> es' = []"
  "clear_entries os device keep path emptied es = (Inr b, es') \<Longrightarrow> b \<longleftrightarrow> emptied \<and> es' = []"
  "clear_child os device keep below t = (Inr b, t') \<Longrightarrow>
     b \<longleftrightarrow> (case t' of Folder i sub \<Rightarrow> sub = [] | Leaf i \<Rightarrow> i \<notin> keep)"
proof (induction os device keep path es and os device keep path emptied es and os device keep below t
    arbitrary: b es' and b es' and b t' rule: clear_folder_clear_entries_clear_child.induct)
  case (1 os device keep path es)
  then show ?case by (auto simp: attempt_call_def split: option.splits)
next
  case (3 os device keep path emptied n t es)
  then show ?case
    by (fastforce split: prod.splits sum.splits if_splits option.splits)
next
  case (4 os device keep below i sub)
  from clear_child_Folder [OF 4(2)] 4(1) show ?case by (auto simp del: clear_folder.simps)
qed (auto simp: attempt_call_def split: option.splits if_splits)

lemma everything_foreign: "foreign d p t \<subseteq> everything p t" "foreign_entries d p es \<subseteq> all_entries p es"
  by (induction p t and p es rule: everything_all_entries.induct) auto

text \<open>Nothing on another device is touched.\<close>

lemma clear_keeps_foreign:
  "clear_folder os device keep path es = (r, es') \<Longrightarrow> foreign_entries device path es \<subseteq> foreign_entries device path es'"
  "clear_entries os device keep path emptied es = (r, es') \<Longrightarrow>
     foreign_entries device path es \<subseteq> foreign_entries device path es'"
  "clear_child os device keep below t = (r, t') \<Longrightarrow>
     foreign device below t \<subseteq> foreign device below t' \<and> (r = Inr True \<longrightarrow> foreign device below t = {})"
proof (induction os device keep path es and os device keep path emptied es and os device keep below t
    arbitrary: r es' and r es' and r t' rule: clear_folder_clear_entries_clear_child.induct)
  case (1 os device keep path es)
  then show ?case
    using everything_foreign(2) [of device path es] by (auto simp: attempt_call_def split: option.splits)
next
  case (3 os device keep path emptied n t es)
  then show ?case
    using everything_foreign(2) [of device path es]
    by (fastforce split: prod.splits sum.splits if_splits option.splits)
next
  case (4 os device keep below i sub)
  from clear_child_Folder [OF 4(2)] show ?case
  proof
    assume "t' = Folder i sub \<and> (\<exists>e. r = Inl e)"
    then show ?thesis using everything_foreign(2) [of device below sub] by auto
  next
    assume "volume i = device \<and> \<not> ro_swapped os below \<and>
      (\<exists>sub'. clear_folder os device keep below sub = (r, sub') \<and> t' = Folder i sub')"
    then obtain sub' where same: "volume i = device" "\<not> ro_swapped os below" "t' = Folder i sub'"
      and cleared: "clear_folder os device keep below sub = (r, sub')" by blast
    have "foreign_entries device below sub \<subseteq> foreign_entries device below sub'"
      by (rule 4(1)) (use same cleared in simp_all)
    moreover have "sub' = []" if "r = Inr True" using clear_emptied(1) cleared that by blast
    ultimately show ?thesis using same by auto
  qed
qed (auto simp: attempt_call_def split: option.splits if_splits)

lemma clear_only_removes_leaves:
  "clear_folder os device keep path es = (r, es') \<Longrightarrow> folder_leaves path es' \<subseteq> folder_leaves path es"
  "clear_entries os device keep path emptied es = (r, es') \<Longrightarrow> folder_leaves path es' \<subseteq> folder_leaves path es"
  "clear_child os device keep below t = (r, t') \<Longrightarrow> tree_leaves below t' \<subseteq> tree_leaves below t"
proof (induction os device keep path es and os device keep path emptied es and os device keep below t
    arbitrary: r es' and r es' and r t' rule: clear_folder_clear_entries_clear_child.induct)
  case (1 os device keep path es)
  then show ?case by (auto simp: attempt_call_def split: option.splits)
next
  case (3 os device keep path emptied n t es)
  then show ?case
    by (fastforce split: prod.splits sum.splits if_splits option.splits)
next
  case (4 os device keep below i sub)
  then show ?case
    by (auto simp: attempt_call_def simp del: clear_folder.simps split: prod.splits option.splits if_splits)
qed (auto simp: attempt_call_def split: option.splits if_splits)

text \<open>A pass removes no file of the lease, and one that ends leaves no other file.\<close>

definition kept_leaves :: "identity set \<Rightarrow> (os_path \<times> identity) set \<Rightarrow> (os_path \<times> identity) set" where
  "kept_leaves keep ls = {x \<in> ls. snd x \<in> keep}"

lemma kept_leaves_Un [simp]: "kept_leaves keep (a \<union> b) = kept_leaves keep a \<union> kept_leaves keep b"
  by (auto simp: kept_leaves_def)

lemma clear_keeps_leases:
  "clear_folder os device keep path es = (r, es') \<Longrightarrow>
     kept_leaves keep (folder_leaves path es) \<subseteq> folder_leaves path es'"
  "clear_entries os device keep path emptied es = (r, es') \<Longrightarrow>
     kept_leaves keep (folder_leaves path es) \<subseteq> folder_leaves path es'"
  "clear_child os device keep below t = (r, t') \<Longrightarrow>
     kept_leaves keep (tree_leaves below t) \<subseteq> tree_leaves below t' \<and>
     (r = Inr True \<longrightarrow> kept_leaves keep (tree_leaves below t) = {})"
proof (induction os device keep path es and os device keep path emptied es and os device keep below t
    arbitrary: r es' and r es' and r t' rule: clear_folder_clear_entries_clear_child.induct)
  case (1 os device keep path es)
  then show ?case by (auto simp: attempt_call_def kept_leaves_def split: option.splits)
next
  case (3 os device keep path emptied n t es)
  have all: "kept_leaves keep (folder_leaves path es) \<subseteq> folder_leaves path es"
    by (auto simp: kept_leaves_def)
  with 3 show ?case
    by (fastforce split: prod.splits sum.splits if_splits option.splits)
next
  case (4 os device keep below i sub)
  from clear_child_Folder [OF 4(2)] show ?case
  proof
    assume "volume i = device \<and> \<not> ro_swapped os below \<and>
      (\<exists>sub'. clear_folder os device keep below sub = (r, sub') \<and> t' = Folder i sub')"
    then obtain sub' where same: "volume i = device" "\<not> ro_swapped os below" "t' = Folder i sub'"
      and cleared: "clear_folder os device keep below sub = (r, sub')" by blast
    have "kept_leaves keep (folder_leaves below sub) \<subseteq> folder_leaves below sub'"
      by (rule 4(1)) (use same cleared in simp_all)
    moreover have "sub' = []" if "r = Inr True" using clear_emptied(1) cleared that by blast
    ultimately show ?thesis using same by auto
  qed (auto simp: kept_leaves_def)
qed (auto simp: attempt_call_def kept_leaves_def split: option.splits if_splits)

lemma clear_removes_rest:
  "clear_folder os device keep path es = (Inr b, es') \<Longrightarrow>
     folder_leaves path es' \<subseteq> kept_leaves keep (folder_leaves path es)"
  "clear_entries os device keep path emptied es = (Inr b, es') \<Longrightarrow>
     folder_leaves path es' \<subseteq> kept_leaves keep (folder_leaves path es)"
  "clear_child os device keep below t = (Inr b, t') \<Longrightarrow> b \<or>
     tree_leaves below t' \<subseteq> kept_leaves keep (tree_leaves below t)"
proof (induction os device keep path es and os device keep path emptied es and os device keep below t
    arbitrary: b es' and b es' and b t' rule: clear_folder_clear_entries_clear_child.induct)
  case (1 os device keep path es)
  then show ?case by (auto simp: attempt_call_def split: option.splits)
next
  case (3 os device keep path emptied n t es)
  then show ?case
    by (fastforce split: prod.splits sum.splits if_splits option.splits)
next
  case (4 os device keep below i sub)
  from clear_child_Folder [OF 4(2)] obtain sub' where same: "volume i = device"
      "\<not> ro_swapped os below" "t' = Folder i sub'"
    and cleared: "clear_folder os device keep below sub = (Inr b, sub')" by blast
  have "folder_leaves below sub' \<subseteq> kept_leaves keep (folder_leaves below sub)"
    by (rule 4(1)) (use same cleared in simp_all)
  with same show ?case by simp
qed (auto simp: attempt_call_def kept_leaves_def split: option.splits if_splits)

lemma clear_foreign_shrinks:
  "clear_folder os device keep path es = (r, es') \<Longrightarrow> foreign_entries d path es' \<subseteq> foreign_entries d path es"
  "clear_entries os device keep path emptied es = (r, es') \<Longrightarrow>
     foreign_entries d path es' \<subseteq> foreign_entries d path es"
  "clear_child os device keep below t = (r, t') \<Longrightarrow> foreign d below t' \<subseteq> foreign d below t"
proof (induction os device keep path es and os device keep path emptied es and os device keep below t
    arbitrary: r es' and r es' and r t' rule: clear_folder_clear_entries_clear_child.induct)
  case (1 os device keep path es)
  then show ?case by (auto simp: attempt_call_def split: option.splits)
next
  case (3 os device keep path emptied n t es)
  then show ?case
    by (fastforce split: prod.splits sum.splits if_splits option.splits)
next
  case (4 os device keep below i sub)
  from clear_child_Folder [OF 4(2)] show ?case
  proof (elim disjE conjE exE)
    fix sub' assume same: "volume i = device" "\<not> ro_swapped os below" "t' = Folder i sub'"
      and cleared: "clear_folder os device keep below sub = (r, sub')"
    have "foreign_entries d below sub' \<subseteq> foreign_entries d below sub"
      by (rule 4(1)) (use same cleared in simp_all)
    moreover have "all_entries below sub' \<subseteq> all_entries below sub"
      by (rule clear_only_removes(1) [OF cleared])
    ultimately show ?thesis using same by auto
  qed simp
qed (auto simp: attempt_call_def split: option.splits if_splits)

text \<open>A pass that keeps nothing and succeeds leaves nothing.\<close>

lemma clear_everything:
  "keep = {} \<Longrightarrow> clear_folder os device keep path es = (Inr b, es') \<Longrightarrow> es' = []"
  "keep = {} \<Longrightarrow> clear_entries os device keep path emptied es = (Inr b, es') \<Longrightarrow> es' = []"
  "keep = {} \<Longrightarrow> clear_child os device keep below t = (Inr b, t') \<Longrightarrow> b"
proof (induction os device keep path es and os device keep path emptied es and os device keep below t
    arbitrary: b es' and b es' and b t' rule: clear_folder_clear_entries_clear_child.induct)
  case (1 os device keep path es)
  then show ?case by (auto simp: attempt_call_def split: option.splits)
next
  case (3 os device keep path emptied n t es)
  then show ?case
    by (fastforce split: prod.splits sum.splits if_splits option.splits)
next
  case (4 os device keep below i sub)
  from clear_child_Folder [OF 4(3)] obtain sub' where same: "volume i = device"
      "\<not> ro_swapped os below" "t' = Folder i sub'"
    and cleared: "clear_folder os device keep below sub = (Inr b, sub')" by blast
  have "sub' = []" by (rule 4(1)) (use 4(2) same cleared in simp_all)
  with clear_emptied(1) [OF cleared] show ?case by simp
qed (auto simp: attempt_call_def split: option.splits if_splits)

section \<open>Removing the root\<close>

lemma open_root_Inr:
  "open_root os outer root expected es = Inr (n, i, sub) \<Longrightarrow>
   root \<noteq> [] \<and> n = List.last root \<and> i = expected \<and> volume outer = volume i \<and>
   map_of es n = Some (Folder i sub)"
  by (auto simp: open_root_def split: option.splits fs_tree.splits if_splits)

definition others :: "bytes \<Rightarrow> folder \<Rightarrow> folder" where
  "others n es = filter (\<lambda>(m, u). m \<noteq> n) es"

lemma others_set_entry: "others n (set_entry n t es) = others n es"
  by (induction es) (auto simp: others_def set_entry_def)

lemma others_drop_entry: "others n (drop_entry n es) = others n es"
  by (induction es) (auto simp: others_def drop_entry_def)

lemma set_entry_absent: "n \<notin> fst ` set es \<Longrightarrow> set_entry n t es = es"
  by (induction es) (auto simp: set_entry_def)

lemma set_entry_everything:
  assumes "distinct (map fst es)" and "map_of es n = Some t"
  shows "all_entries p (set_entry n u es) = everything (p @ [n]) u \<union> all_entries p (others n es)"
  using assms
proof (induction es)
  case (Cons x es)
  obtain m v where x: "x = (m, v)" by fastforce
  show ?case
  proof (cases "m = n")
    case True
    then have absent: "n \<notin> fst ` set es" using Cons.prems x by auto
    then have "others n es = es" unfolding others_def by (force intro!: filter_True)
    moreover have "set_entry n u es = es" using absent by (rule set_entry_absent)
    ultimately have "others n es = es" "set_entry n u es = es" by simp_all
    with True x show ?thesis by (simp add: set_entry_def others_def)
  next
    case False
    with Cons x show ?thesis by (auto simp: set_entry_def others_def)
  qed
qed simp

lemma map_of_set_entry:
  "map_of (set_entry n t es) m =
     (if m = n then map_option (\<lambda>_. t) (map_of es n) else map_of es m)"
  by (induction es) (auto simp: set_entry_def)

lemma map_of_drop_entry: "map_of (drop_entry n es) n = None"
  by (auto simp: drop_entry_def map_of_eq_None_iff)

text \<open>What a removal leaves at the root: nothing, or the root with part of what it held.\<close>

lemma remove_tree_cases:
  assumes "remove_tree os outer root expected keep es = (r, es')"
  shows "(\<exists>e. open_root os outer root expected es = Inl e \<and> r = Inl e \<and> es' = es) \<or>
    (\<exists>n sub sub'. open_root os outer root expected es = Inr (n, expected, sub) \<and>
      all_entries root sub' \<subseteq> all_entries root sub \<and>
      foreign_entries (volume expected) root sub \<subseteq> foreign_entries (volume expected) root sub' \<and>
      (kept_leaves keep (folder_leaves root sub) \<subseteq> folder_leaves root sub' \<or>
       folder_leaves root sub' \<subseteq> kept_leaves keep (folder_leaves root sub)) \<and>
      (if r = Inr () then sub' = [] \<and> es' = drop_entry n es
       else es' = set_entry n (Folder expected sub') es))"
proof (cases "open_root os outer root expected es")
  case (Inl e)
  with assms show ?thesis by (simp add: remove_tree_def)
next
  case (Inr found)
  obtain n i sub where found: "found = (n, i, sub)" by (cases found)
  have i: "i = expected" using open_root_Inr Inr found by blast
  obtain r1 sub1 where one: "clear_folder os (volume expected) keep root sub = (r1, sub1)" by fastforce
  note first = clear_only_removes(1) [OF one] clear_keeps_foreign(1) [OF one] clear_keeps_leases(1) [OF one]
  show ?thesis
  proof (cases r1)
    case (Inl e)
    with assms \<open>open_root os outer root expected es = Inr found\<close> found i one
    have "r = Inl e" "es' = set_entry n (Folder expected sub1) es"
      by (simp_all add: remove_tree_def del: clear_folder.simps)
    with Inr found i first show ?thesis by auto
  next
    case (Inr b1)
    obtain r2 sub2 where two: "clear_folder os (volume expected) {} root sub1 = (r2, sub2)" by fastforce
    note second = clear_only_removes(1) [OF two] clear_keeps_foreign(1) [OF two]
    have rest: "folder_leaves root sub1 \<subseteq> kept_leaves keep (folder_leaves root sub)"
      using clear_removes_rest(1) one Inr by blast
    have all: "all_entries root sub2 \<subseteq> all_entries root sub"
      "foreign_entries (volume expected) root sub \<subseteq> foreign_entries (volume expected) root sub2"
      "folder_leaves root sub2 \<subseteq> kept_leaves keep (folder_leaves root sub)"
      using first second rest clear_only_removes_leaves(1) [OF two] by blast+
    have leaves: "(if r = Inr () then sub2 = [] \<and> es' = drop_entry n es
        else es' = set_entry n (Folder expected sub2) es)"
      using assms \<open>open_root os outer root expected es = Inr found\<close> found i one two Inr
      by (auto simp: remove_tree_def remove_emptied_def attempt_call_def simp del: clear_folder.simps
          split: sum.splits option.splits if_splits)
    show ?thesis
      using \<open>open_root os outer root expected es = Inr found\<close> found i all leaves
      by (intro disjI2 exI [of _ n] exI [of _ sub] exI [of _ sub2]) auto
  qed
qed

lemma remove_tree_E:
  assumes "remove_tree os outer root expected keep es = (r, es')"
  obtains (refused) e where "r = Inl e" "es' = es"
    | (opened) n sub sub' where "open_root os outer root expected es = Inr (n, expected, sub)"
      "all_entries root sub' \<subseteq> all_entries root sub"
      "foreign_entries (volume expected) root sub \<subseteq> foreign_entries (volume expected) root sub'"
      "if r = Inr () then sub' = [] \<and> es' = drop_entry n es
       else es' = set_entry n (Folder expected sub') es"
      "kept_leaves keep (folder_leaves root sub) \<subseteq> folder_leaves root sub' \<or>
       folder_leaves root sub' \<subseteq> kept_leaves keep (folder_leaves root sub)"
  using remove_tree_cases [OF assms] by blast

lemma all_entries_mono: "set es \<subseteq> set es' \<Longrightarrow> all_entries p es \<subseteq> all_entries p es'"
proof -
  have "all_entries p es = (\<Union>(n, t) \<in> set es. everything (p @ [n]) t)" for es
    by (induction es) auto
  then show "set es \<subseteq> set es' \<Longrightarrow> all_entries p es \<subseteq> all_entries p es'" by auto
qed

lemma others_subset: "all_entries p (others n es) \<subseteq> all_entries p es"
  by (rule all_entries_mono) (auto simp: others_def)

lemma entry_everything: "map_of es n = Some t \<Longrightarrow> everything (p @ [n]) t \<subseteq> all_entries p es"
  by (induction es) (auto split: if_splits)

lemma removed_root:
  assumes "distinct (map fst es)" and open_root: "open_root os outer root expected es = Inr (n, expected, sub)"
    and sub': "all_entries root sub' \<subseteq> all_entries root sub"
    and foreign: "foreign_entries (volume expected) root sub \<subseteq> foreign_entries (volume expected) root sub'"
    and outcome: "if r = Inr () then sub' = [] \<and> es' = drop_entry n es
      else es' = set_entry n (Folder expected sub') es"
  shows "others (List.last root) es' = others (List.last root) es \<and>
    all_entries (butlast root) es' \<subseteq> all_entries (butlast root) es \<and>
    (r = Inr () \<longrightarrow> List.last root \<notin> fst ` set es') \<and>
    (\<exists>sub. map_of es (List.last root) = Some (Folder expected sub) \<and>
      foreign_entries (volume expected) root sub \<subseteq> all_entries (butlast root) es')"
proof -
  note opened = open_root_Inr [OF open_root]
  have n: "n = List.last root" using opened by blast
  have whole: "root = butlast root @ [n]" using opened by (metis append_butlast_last_id)
  have entry: "map_of es n = Some (Folder expected sub)" using opened by blast
  have "everything root (Folder expected sub) \<subseteq> all_entries (butlast root) es"
    using entry_everything [OF entry, of "butlast root"] whole by metis
  then have inside: "everything root (Folder expected sub') \<subseteq> all_entries (butlast root) es"
    using sub' by auto
  show ?thesis
  proof (cases "r = Inr ()")
    case True
    with outcome have es': "es' = drop_entry n es" and "sub' = []" by simp_all
    with foreign have none: "foreign_entries (volume expected) root sub = {}" by auto
    have "all_entries (butlast root) es' \<subseteq> all_entries (butlast root) es"
      unfolding es' by (rule all_entries_mono) (auto simp: drop_entry_def)
    moreover have "n \<notin> fst ` set es'" unfolding es' by (auto simp: drop_entry_def)
    moreover have "others n es' = others n es" unfolding es' by (rule others_drop_entry)
    ultimately show ?thesis using none entry unfolding n by blast
  next
    case False
    then have es': "es' = set_entry n (Folder expected sub') es" using outcome by simp
    have "all_entries (butlast root) es' =
        everything root (Folder expected sub') \<union> all_entries (butlast root) (others n es)"
      using set_entry_everything [OF assms(1) entry, of "butlast root" "Folder expected sub'"] whole es'
      by metis
    moreover have "foreign_entries (volume expected) root sub \<subseteq> everything root (Folder expected sub')"
      using foreign everything_foreign(2) [of "volume expected" root sub'] by auto
    ultimately show ?thesis
      using False es' n entry inside others_subset [of "butlast root" n es] others_set_entry by auto
  qed
qed

section \<open>Calls that do not fail\<close>

definition undisturbed :: rm_os where
  "undisturbed = \<lparr>ro_fails = (\<lambda>_ _. None), ro_swapped = (\<lambda>_. False)\<rparr>"

lemma undisturbed_call [simp]: "attempt_call undisturbed call path s c = c"
  by (simp add: attempt_call_def undisturbed_def)

lemma clear_undisturbed:
  "os = undisturbed \<Longrightarrow> foreign_entries device path es = {} \<Longrightarrow>
     \<exists>b. fst (clear_folder os device keep path es) = Inr b"
  "os = undisturbed \<Longrightarrow> foreign_entries device path es = {} \<Longrightarrow>
     \<exists>b. fst (clear_entries os device keep path emptied es) = Inr b"
  "os = undisturbed \<Longrightarrow> foreign device below t = {} \<Longrightarrow>
     \<exists>b. fst (clear_child os device keep below t) = Inr b"
proof (induction os device keep path es and os device keep path emptied es and os device keep below t
    rule: clear_folder_clear_entries_clear_child.induct)
  case (3 os device keep path emptied n t es)
  then obtain b t' where one: "clear_child os device keep (path @ [n]) t = (Inr b, t')"
    by (metis foreign_entries.simps(2) prod.collapse Un_empty)
  then show ?case
    using 3 by (auto simp: undisturbed_def split: prod.splits)
next
  case (4 os device keep below i sub)
  from 4(3) have same: "volume i = device" "foreign_entries device below sub = {}"
    by (auto split: if_splits)
  then have "\<exists>b. fst (clear_folder os device keep below sub) = Inr b"
    using 4(1) 4(2) by (simp add: undisturbed_def del: clear_folder.simps)
  then show ?case using same(1) 4(2)
    by (auto simp: undisturbed_def attempt_call_def simp del: clear_folder.simps split: prod.splits)
qed (auto simp: attempt_call_def undisturbed_def)

section \<open>A target directory with a lock in it\<close>

definition on_disk :: "nat \<Rightarrow> identity" where
  "on_disk n = \<lparr>volume = 1, file_id = word_of_nat n\<rparr>"

definition sample_home :: folder where
  "sample_home =
     [(''notes'', Leaf (on_disk 10)),
      (''target'', Folder (on_disk 2) [(''object'', Leaf (on_disk 5)), (''lock'', Leaf (on_disk 3)), (''stuck'', Leaf (on_disk 4))])]"

definition sample_left :: folder where
  "sample_left =
     [(''notes'', Leaf (on_disk 10)),
      (''target'', Folder (on_disk 2) [(''lock'', Leaf (on_disk 3)), (''stuck'', Leaf (on_disk 4))])]"

text \<open>The file that is not the lock of the target directory cannot be removed.\<close>

definition stubborn :: rm_os where
  "stubborn = undisturbed\<lparr>ro_fails := (\<lambda>call path.
     if call = Unlink_Child \<and> path = [''work'', ''target'', ''stuck''] then Some \<lparr>oe_kind = EPermissionDenied, oe_code = None\<rparr>
     else None)\<rparr>"

lemmas sample_removal = sample_home_def sample_left_def stubborn_def undisturbed_def on_disk_def remove_tree_def
  open_root_def remove_emptied_def attempt_call_def set_entry_def drop_entry_def

lemma sample_stuck:
  "remove_tree stubborn (on_disk 1) [''work'', ''target''] (on_disk 2) {on_disk 3} sample_home =
     (Inl (WalkIo [''work'', ''target'', ''stuck''] \<lparr>oe_kind = EPermissionDenied, oe_code = None\<rparr>), sample_left)"
  by (simp add: sample_removal)

section \<open>Properties\<close>

text \<open>Property C11. A removal is confined to its root, whatever fails: every other entry of the
  parent is as it was, nothing is new or has changed identity, what lies on another device
  stays, and if anything is gone then the root was the expected directory. A removal that
  succeeds leaves no root.\<close>

theorem removal_confined:
  assumes "distinct (map fst es)" and "remove_tree os outer root expected keep es = (r, es')"
  shows "others (List.last root) es' = others (List.last root) es \<and>
    all_entries (butlast root) es' \<subseteq> all_entries (butlast root) es \<and>
    (r = Inr () \<longrightarrow> List.last root \<notin> fst ` set es') \<and>
    (es' \<noteq> es \<longrightarrow> (\<exists>sub. map_of es (List.last root) = Some (Folder expected sub) \<and>
      foreign_entries (volume expected) root sub \<subseteq> all_entries (butlast root) es'))"
  using assms(2)
proof (cases rule: remove_tree_E)
  case (opened n sub sub')
  then show ?thesis using removed_root [OF assms(1) opened(1-4)] by blast
qed simp

lemma removal_confined_witness:
  "others ''target'' sample_left = others ''target'' sample_home \<and> sample_left \<noteq> sample_home \<and>
   (\<exists>sub. map_of sample_home ''target'' = Some (Folder (on_disk 2) sub) \<and>
      foreign_entries 1 [''work'', ''target''] sub \<subseteq> all_entries [''work''] sample_left)"
proof -
  have "distinct (map fst sample_home)" and changed: "sample_left \<noteq> sample_home"
    by (simp_all add: sample_removal)
  from removal_confined [OF this(1) sample_stuck] changed show ?thesis
    by (simp add: on_disk_def)
qed

text \<open>Property C28. The locks of the lease go last: as long as any other file of the root is left,
  however the removal ended, every locked file is left.\<close>

theorem locks_go_last:
  assumes "remove_tree os outer root expected keep es = (r, es')"
    and "map_of es (List.last root) = Some (Folder i sub)"
    and "map_of es' (List.last root) = Some (Folder j sub')"
    and "(p, k) \<in> folder_leaves root sub'" and "k \<notin> keep"
  shows "kept_leaves keep (folder_leaves root sub) \<subseteq> folder_leaves root sub'"
  using assms(1)
proof (cases rule: remove_tree_E)
  case refused
  with assms(2,3) show ?thesis by (auto simp: kept_leaves_def)
next
  case (opened n s s')
  have n: "n = List.last root" and entry: "map_of es n = Some (Folder expected s)"
    using open_root_Inr [OF opened(1)] by blast+
  have "map_of (drop_entry n es) (List.last root) = None" unfolding n by (rule map_of_drop_entry)
  then have "r \<noteq> Inr ()" using opened(4) assms(3) by auto
  with opened(4) n entry assms(2,3) have "s = sub" "s' = sub'" by (auto simp: map_of_set_entry)
  with opened(5) assms(4,5) show ?thesis by (auto simp: kept_leaves_def)
qed

lemma locks_go_last_witness:
  "kept_leaves {on_disk 3} (folder_leaves [''work'', ''target'']
      [(''object'', Leaf (on_disk 5)), (''lock'', Leaf (on_disk 3)), (''stuck'', Leaf (on_disk 4))]) \<subseteq>
   folder_leaves [''work'', ''target''] [(''lock'', Leaf (on_disk 3)), (''stuck'', Leaf (on_disk 4))]"
  by (rule locks_go_last [OF sample_stuck, where i = "on_disk 2" and j = "on_disk 2"
        and p = "[''work'', ''target'', ''stuck'']" and k = "on_disk 4"]) (simp_all add: sample_removal)

text \<open>A removal with no failing call, of the expected directory with everything on
  one device, always succeeds and takes exactly the root.\<close>

theorem removal_succeeds:
  assumes "root \<noteq> []" and "map_of es (List.last root) = Some (Folder expected sub)"
    and "volume outer = volume expected" and "foreign_entries (volume expected) root sub = {}"
  shows "remove_tree undisturbed outer root expected keep es = (Inr (), drop_entry (List.last root) es)"
proof -
  have open_root: "open_root undisturbed outer root expected es = Inr (List.last root, expected, sub)"
    using assms(1-3) by (simp add: open_root_def undisturbed_def)
  obtain b1 sub1 where one: "clear_folder undisturbed (volume expected) keep root sub = (Inr b1, sub1)"
    using clear_undisturbed(1) [OF refl assms(4)] by (metis prod.collapse)
  have "foreign_entries (volume expected) root sub1 = {}"
    using clear_foreign_shrinks(1) [OF one] assms(4) by blast
  then obtain b2 sub2 where two: "clear_folder undisturbed (volume expected) {} root sub1 = (Inr b2, sub2)"
    using clear_undisturbed(1) [OF refl] by (metis prod.collapse)
  have "sub2 = []" by (rule clear_everything(1) [OF refl two])
  then show ?thesis using open_root one two
    by (simp add: remove_tree_def remove_emptied_def del: clear_folder.simps) (simp add: undisturbed_def)
qed

lemma removal_succeeds_witness:
  "remove_tree undisturbed (on_disk 1) [''work'', ''target''] (on_disk 2) {on_disk 3} sample_home =
     (Inr (), [(''notes'', Leaf (on_disk 10))])"
proof -
  have "remove_tree undisturbed (on_disk 1) [''work'', ''target''] (on_disk 2) {on_disk 3} sample_home =
     (Inr (), drop_entry (List.last [''work'', ''target'']) sample_home)"
    by (rule removal_succeeds [where sub = "[(''object'', Leaf (on_disk 5)), (''lock'', Leaf (on_disk 3)),
        (''stuck'', Leaf (on_disk 4))]"]) (simp_all add: sample_removal)
  then show ?thesis by (simp add: sample_removal)
qed

end
