(* ===== verification/Applying.thy ===== *)
theory Applying
  imports Observing Removal
begin

text \<open>
  Applying a plan (\<open>crates/cli/src/apply.rs\<close> and \<open>apply/capability.rs\<close>): the candidates are
  chosen and sized, and each is observed again, surveyed, leased, judged, measured and judged
  once more before its tree goes. The disk is a type of its own and other processes may change it,
  and the locks they hold, between any two steps; what the system answers is read off the disk.
\<close>

section \<open>The world the steps run in\<close>

record 'd world =
  wd_others :: "identity set"
  wd_own :: "identity set"
  wd_disk :: 'd

record 'd machine =
  mc_host :: os_host
  mc_meanwhile :: "'d world \<Rightarrow> identity set \<times> 'd"
  mc_observing :: "'d \<Rightarrow> observe_os"
  mc_surveying :: "'d \<Rightarrow> survey_os"
  mc_tree :: "'d \<Rightarrow> os_path \<Rightarrow> os_tree"
  mc_removing :: "'d \<Rightarrow> rm_os"
  mc_outer :: "'d \<Rightarrow> os_path \<Rightarrow> identity \<times> folder"
  mc_emptied :: "os_path \<Rightarrow> folder \<Rightarrow> 'd \<Rightarrow> 'd"
  mc_sha :: "bytes \<Rightarrow> bytes"
  mc_fold :: "bytes \<Rightarrow> bytes"

definition locked_files :: "'d world \<Rightarrow> identity set" where
  "locked_files w = wd_others w \<union> wd_own w"

text \<open>Other processes change the disk and their own locks, never the locks held here.\<close>

definition meanwhile :: "'d machine \<Rightarrow> 'd world \<Rightarrow> 'd world" where
  "meanwhile mc w =
     (case mc_meanwhile mc w of (theirs, d) \<Rightarrow> w\<lparr>wd_others := theirs, wd_disk := d\<rparr>)"

definition owning :: "'d machine \<Rightarrow> 'd world \<Rightarrow> owner_os" where
  "owning mc w = (ob_owner (mc_observing mc (wd_disk w)))\<lparr>ow_host := mc_host mc, ow_locked := locked_files w\<rparr>"

definition observing :: "'d machine \<Rightarrow> 'd world \<Rightarrow> observe_os" where
  "observing mc w = (mc_observing mc (wd_disk w))\<lparr>ob_owner := owning mc w\<rparr>"

definition tree_at :: "'d machine \<Rightarrow> 'd world \<Rightarrow> os_path \<Rightarrow> os_tree" where
  "tree_at mc w path = mc_tree mc (wd_disk w) path"

section \<open>Plans\<close>

record found =
  fd_path :: os_path
  fd_candidate :: candidate

record plan =
  pn_mandate :: mandate
  pn_candidates :: "found list"
  pn_excludes :: "location list"
  pn_usage :: "usage option"

definition excluded_location :: "observe_os \<Rightarrow> os_path \<Rightarrow> location option" where
  "excluded_location os path =
     (case (case ob_canonical os path of
              Inr canonical \<Rightarrow> Some canonical
            | Inl _ \<Rightarrow> (case ob_absolute os path of Inr absolute \<Rightarrow> Some absolute | Inl _ \<Rightarrow> None)) of
        None \<Rightarrow> None
      | Some absolute \<Rightarrow>
          (case locate (ob_host os) absolute of Inr location \<Rightarrow> Some location | Inl _ \<Rightarrow> None))"

definition excludes_of :: "observe_os \<Rightarrow> os_path list \<Rightarrow> location list" where
  "excludes_of os paths = List.map_filter (excluded_location os) paths"

fun select_from ::
  "found list \<Rightarrow> candidate_id set \<Rightarrow> found list \<Rightarrow> candidate_id list \<Rightarrow> rejection + found list" where
  "select_from sighted seen selected [] = Inr selected"
| "select_from sighted seen selected (i # ids) =
     (if i \<in> seen then Inl (DuplicateCandidate i)
      else (case List.find (\<lambda>f. cd_id (fd_candidate f) = i) sighted of
              None \<Rightarrow> Inl (UnknownCandidate i)
            | Some chosen \<Rightarrow>
                if usage_reclaimable (cd_usage (fd_candidate chosen)) = None then Inl (rejection.Unmeasured i)
                else select_from sighted (insert i seen) (selected @ [chosen]) ids))"

definition plan_for ::
  "'d machine \<Rightarrow> 'd world \<Rightarrow> found list \<Rightarrow> candidate_id list \<Rightarrow> mandate \<Rightarrow> os_path list
   \<Rightarrow> rejection + plan" where
  "plan_for mc w sighted ids mandate excludes =
     result_bind (select_from sighted {} [] ids) (\<lambda>selected.
       let paths = map (\<lambda>f. (fd_path f, tree_at mc w (fd_path f), cd_kind (fd_candidate f))) selected in
       Inr \<lparr>pn_mandate = mandate, pn_candidates = selected,
         pn_excludes = excludes_of (observing mc w) excludes,
         pn_usage = (case selection_usage (mc_host mc) (mc_sha mc) paths of
           Inr usage \<Rightarrow> Some usage | Inl _ \<Rightarrow> None)\<rparr>)"

section \<open>Authorizations\<close>

datatype mode = DryRun | Execute

record authorized =
  az_clearance :: clearance
  az_lease :: lease
  az_path :: os_path

definition authorized_new :: "os_host \<Rightarrow> clearance \<Rightarrow> lease \<Rightarrow> os_path \<Rightarrow> rejection + authorized" where
  "authorized_new h c l path =
     result_bind (locate h path) (\<lambda>location.
       if location = cl_location c then Inr \<lparr>az_clearance = c, az_lease = l, az_path = path\<rparr>
       else Inl (Stale (cl_location c) CanonicalPath))"

definition release_lease :: "lease \<Rightarrow> 'd world \<Rightarrow> 'd world" where
  "release_lease l w = w\<lparr>wd_own := wd_own w - set (map fst l)\<rparr>"

text \<open>The lease is dropped when the tree is gone, and also when its removal fails.\<close>

definition authorized_remove ::
  "'d machine \<Rightarrow> authorized \<Rightarrow> 'd world \<Rightarrow> (rejection + unit) \<times> 'd world" where
  "authorized_remove mc a w =
     (case mc_outer mc (wd_disk w) (az_path a) of
        (outer, es) \<Rightarrow>
          (case remove_tree (mc_removing mc (wd_disk w)) outer (az_path a)
              (cl_identity (az_clearance a)) (lease_keys (az_lease a)) es of
             (r, es') \<Rightarrow>
               (let w' = release_lease (az_lease a)
                    (w\<lparr>wd_disk := mc_emptied mc (az_path a) es' (wd_disk w)\<rparr>) in
                (case r of
                   Inr u \<Rightarrow> (Inr (), w')
                 | Inl e \<Rightarrow> (Inl (walk_rejection (mc_host mc) e (cl_location (az_clearance a)) fs_op.Remove), w')))))"

section \<open>Checking a candidate\<close>

record terms =
  tm_mandate :: mandate
  tm_excludes :: "location list"
  tm_protection :: protection
  tm_owners :: owners

datatype hold = Probed | Leased lease
datatype checked = Cleared usage | Authorized usage authorized

fun drop_hold :: "hold \<Rightarrow> 'd world \<Rightarrow> 'd world" where
  "drop_hold Probed w = w"
| "drop_hold (Leased l) w = release_lease l w"

definition take_hold :: "'d machine \<Rightarrow> mode \<Rightarrow> lock list \<Rightarrow> 'd world \<Rightarrow> (contention + hold) \<times> 'd world" where
  "take_hold mc m locks w =
     (case m of
        DryRun \<Rightarrow>
          (case probe (ow_locks (owning mc w)) (locked_files w) locks of
             Inr u \<Rightarrow> (Inr Probed, w)
           | Inl c \<Rightarrow> (Inl c, w))
      | Execute \<Rightarrow>
          (case lease (ow_locks (owning mc w)) (locked_files w) locks of
             (Inr l, locked) \<Rightarrow> (Inr (Leased l), w\<lparr>wd_own := wd_own w \<union> set (map fst l)\<rparr>)
           | (Inl c, locked) \<Rightarrow> (Inl c, w)))"

definition hold_liveness :: "contention + hold \<Rightarrow> liveness" where
  "hold_liveness hold = (case hold of Inr h \<Rightarrow> liveness.Free | Inl c \<Rightarrow> contention_liveness c)"

text \<open>From the moment the locks are taken: measure, judge again and authorize.\<close>

definition check_held ::
  "'d machine \<Rightarrow> found \<Rightarrow> observation \<Rightarrow> site \<Rightarrow> recheck \<Rightarrow> hold \<Rightarrow> 'd world
   \<Rightarrow> (rejection + checked) \<times> 'd world" where
  "check_held mc f ob site rc h w =
     (case result_bind (strictly (mc_host mc) (mc_sha mc) (ob_path ob) (tree_at mc w (ob_path ob))
          (cd_kind (fd_candidate f))) (\<lambda>measured.
        result_bind (clear (mc_sha mc) (mc_fold mc) site \<lparr>vf_recheck = rc, vf_measured = measured\<rparr>)
          (\<lambda>clearance.
            case h of
              Probed \<Rightarrow> Inr (Cleared (ms_usage measured))
            | Leased l \<Rightarrow>
                result_bind (authorized_new (mc_host mc) clearance l (ob_path ob)) (\<lambda>a.
                  Inr (Authorized (ms_usage measured) a)))) of
        Inl e \<Rightarrow> (Inl e, drop_hold h w)
      | Inr c \<Rightarrow> (Inr c, w))"

definition check_surveyed ::
  "'d machine \<Rightarrow> terms \<Rightarrow> mode \<Rightarrow> found \<Rightarrow> observation \<Rightarrow> survey \<Rightarrow> 'd world
   \<Rightarrow> (rejection + checked) \<times> 'd world" where
  "check_surveyed mc t m f ob sv w =
     (let site = observation_site ob (tm_protection t) (tm_excludes t);
          ownership = owners_recheck (owning mc w) (ob_path ob) (sv_markers sv) (tm_owners t) in
      (case take_hold mc m (sv_locks sv) (meanwhile mc w) of
         (hold, w') \<Rightarrow>
           (let rc = \<lparr>rc_mandate = tm_mandate t, rc_recorded = fd_candidate f,
                 rc_identity = ob_found_identity ob, rc_ownership = ownership,
                 rc_liveness = hold_liveness hold\<rparr> in
            (case gate_recheck (mc_sha mc) (mc_fold mc) site rc of
               Inl e \<Rightarrow> (Inl e, (case hold of Inr h \<Rightarrow> drop_hold h w' | Inl c \<Rightarrow> w'))
             | Inr u \<Rightarrow>
                 (case hold of
                    Inl c \<Rightarrow> (Inl (contention_rejection c (ob_location ob)), w')
                  | Inr h \<Rightarrow> check_held mc f ob site rc h (meanwhile mc w'))))))"

definition check ::
  "'d machine \<Rightarrow> terms \<Rightarrow> mode \<Rightarrow> found \<Rightarrow> 'd world \<Rightarrow> (rejection + checked) \<times> 'd world" where
  "check mc t m f w =
     (case observe (observing mc w) (fd_path f) of
        Inl e \<Rightarrow> (Inl e, w)
      | Inr ob \<Rightarrow>
          (let w1 = meanwhile mc w in
           (case owners_survey (owning mc w1) (mc_surveying mc (wd_disk w1)) (tm_owners t) (ob_path ob)
                (tree_at mc w1 (ob_path ob)) of
              Inl e \<Rightarrow> (Inl e, w1)
            | Inr sv \<Rightarrow> check_surveyed mc t m f ob sv (meanwhile mc w1))))"

section \<open>Outcomes\<close>

datatype status = WouldDelete | Deleted | Rejected rejection | Failed rejection

record apply_outcome =
  oc_id :: candidate_id
  oc_location :: location
  oc_usage :: "usage option"
  oc_status :: status

record summary =
  sm_mode :: mode
  sm_predicted_freed :: "byte_size option"
  sm_observed_freed :: "byte_size option"
  sm_outcomes :: "apply_outcome list"

fun status_failed_to_delete :: "status \<Rightarrow> bool" where
  "status_failed_to_delete (Failed r) = True"
| "status_failed_to_delete _ = False"

fun status_failed :: "status \<Rightarrow> bool" where
  "status_failed WouldDelete = False"
| "status_failed Deleted = False"
| "status_failed (Rejected r) = True"
| "status_failed (Failed r) = True"

definition failed_to_delete :: "summary \<Rightarrow> bool" where
  "failed_to_delete s = list_ex (\<lambda>o'. status_failed_to_delete (oc_status o')) (sm_outcomes s)"

definition summary_failed :: "summary \<Rightarrow> bool" where
  "summary_failed s = list_ex (\<lambda>o'. status_failed (oc_status o')) (sm_outcomes s)"

definition settle_status ::
  "'d machine \<Rightarrow> terms \<Rightarrow> mode \<Rightarrow> found \<Rightarrow> 'd world \<Rightarrow> (usage option \<times> status) \<times> 'd world" where
  "settle_status mc t m f w =
     (case check mc t m f w of
        (Inl rejection, w') \<Rightarrow> ((None, Rejected rejection), w')
      | (Inr (Cleared usage), w') \<Rightarrow> ((Some usage, WouldDelete), w')
      | (Inr (Authorized usage a), w') \<Rightarrow>
          (case authorized_remove mc a (meanwhile mc w') of
             (Inr u, w'') \<Rightarrow> ((Some usage, Deleted), w'')
           | (Inl rejection, w'') \<Rightarrow> ((Some usage, Failed rejection), w'')))"

definition settle :: "'d machine \<Rightarrow> terms \<Rightarrow> mode \<Rightarrow> found \<Rightarrow> 'd world \<Rightarrow> apply_outcome \<times> 'd world" where
  "settle mc t m f w =
     (case settle_status mc t m f w of
        ((usage, status), w') \<Rightarrow>
          (\<lparr>oc_id = cd_id (fd_candidate f), oc_location = cd_location (fd_candidate f),
            oc_usage = usage, oc_status = status\<rparr>, w'))"

fun settle_all ::
  "'d machine \<Rightarrow> terms \<Rightarrow> mode \<Rightarrow> found list \<Rightarrow> 'd world \<Rightarrow> apply_outcome list \<times> 'd world" where
  "settle_all mc t m [] w = ([], w)"
| "settle_all mc t m (f # fs) w =
     (case settle mc t m f w of
        (first, w1) \<Rightarrow>
          (case settle_all mc t m fs (meanwhile mc w1) of (rest, w2) \<Rightarrow> (first # rest, w2)))"

fun touches :: "status \<Rightarrow> bool" where
  "touches Deleted = True"
| "touches (Failed r) = True"
| "touches _ = False"

definition observed_freed :: "mode \<Rightarrow> apply_outcome list \<Rightarrow> byte_size option" where
  "observed_freed m outcomes =
     (case m of
        DryRun \<Rightarrow> None
      | Execute \<Rightarrow> observed (if list_ex (\<lambda>o'. touches (oc_status o')) outcomes
                             then Unattributable else Unchanged))"

definition apply_plan ::
  "'d machine \<Rightarrow> plan \<Rightarrow> mode \<Rightarrow> protection \<Rightarrow> owners \<Rightarrow> 'd world \<Rightarrow> summary \<times> 'd world" where
  "apply_plan mc p m protection own w =
     (case settle_all mc \<lparr>tm_mandate = pn_mandate p, tm_excludes = pn_excludes p,
          tm_protection = protection, tm_owners = own\<rparr> m (pn_candidates p) w of
        (outcomes, w') \<Rightarrow>
          (\<lparr>sm_mode = m, sm_predicted_freed = Option.bind (pn_usage p) usage_reclaimable,
            sm_observed_freed = observed_freed m outcomes, sm_outcomes = outcomes\<rparr>, w'))"

end
