(* ===== verification/Scanning.thy ===== *)
theory Scanning
  imports Applying
begin

text \<open>
  Scanning (\<open>crates/cli/src/scan.rs\<close>): the walk from the roots that measures, or only sights, what
  lies under them, and the report made of it. The worker threads of the walk only write to the
  collector, so each step of a walk is given as the events it sends there; \<open>absorb\<close> is what the
  collector makes of one, and a run is a sequence of events in some order.
\<close>

section \<open>Options\<close>

record scan_options =
  op_roots :: "os_path list"
  op_top :: u64
  op_min_size :: byte_size
  op_max_depth :: "u64 option"
  op_excludes :: "os_path list"
  op_threads :: "u64 option"
  op_measure :: measure

definition default_top :: u64 where
  "default_top = 20"

definition default_min_size :: byte_size where
  "default_min_size = 10 * 1024 * 1024"

definition max_issues :: nat where
  "max_issues = 50"

definition options_sighting :: "os_path list \<Rightarrow> os_path list \<Rightarrow> scan_options" where
  "options_sighting roots excludes =
     \<lparr>op_roots = roots, op_top = 0, op_min_size = 0, op_max_depth = Some 0,
      op_excludes = excludes, op_threads = None, op_measure = Logical\<rparr>"

definition options_new :: "os_path list \<Rightarrow> scan_options" where
  "options_new roots =
     \<lparr>op_roots = roots, op_top = default_top, op_min_size = default_min_size,
      op_max_depth = Some 1, op_excludes = [], op_threads = None, op_measure = Logical\<rparr>"

datatype sight_reach = Everything | Children
datatype descent = Measure | Sight sight_reach

section \<open>Reports\<close>

record directory_usage =
  du_location :: location
  du_depth :: u64
  du_usage :: usage

record cache_usage =
  cu_tool :: bytes
  cu_location :: location
  cu_usage :: usage

record volume_space =
  vs_total :: u64
  vs_free :: u64
  vs_available :: u64

record volume_usage =
  vu_volume :: u64
  vu_location :: location
  vu_capacity :: byte_size
  vu_available :: byte_size
  vu_reconciliation :: reconciliation
  vu_failures :: u64

record scan_stats =
  ss_directories :: u64
  ss_files :: u64
  ss_links_skipped :: u64
  ss_mount_boundaries_skipped :: u64
  ss_errors :: u64

record scan_report =
  sr_roots :: "location list"
  sr_listing_limit :: u64
  sr_usage :: usage
  sr_volumes :: "volume_usage list"
  sr_tool_caches :: "cache_usage list"
  sr_stats :: scan_stats
  sr_largest_directories :: "directory_usage list"
  sr_candidates :: "found list"
  sr_issues :: "rejection list"

section \<open>The system and the fixed part of the collector\<close>

record scan_os =
  sn_observing :: observe_os
  sn_metadata_identity :: "os_path \<Rightarrow> identity option"
  sn_volume_space :: "os_path \<Rightarrow> os_error + volume_space"
  sn_tree :: "os_path \<Rightarrow> os_tree"

record scan_setup =
  su_options :: scan_options
  su_descent :: descent
  su_only :: "bytes option"
  su_protection :: protection
  su_excludes :: "location list"
  su_caches :: "os_path \<Rightarrow> bytes option"
  su_sha :: "bytes \<Rightarrow> bytes"
  su_fold :: "bytes \<Rightarrow> bytes"

definition sn_host :: "scan_os \<Rightarrow> os_host" where
  "sn_host os = ob_host (sn_observing os)"

definition su_measure :: "scan_setup \<Rightarrow> measure" where
  "su_measure su = op_measure (su_options su)"

definition excluded :: "scan_setup \<Rightarrow> location \<Rightarrow> bool" where
  "excluded su location \<longleftrightarrow>
     list_ex (\<lambda>e. prot_contains (su_fold su) (su_protection su) e location) (su_excludes su)"

section \<open>The collector\<close>

datatype scan_event =
    Issue rejection
  | Directory_Counted
  | Files_Counted u64
  | Link_Skipped
  | Mount_Skipped
  | Walked os_path
  | Seen os_path admission identity measurement "os_path list"
  | Cache_Used cache_usage
  | Directory_Used directory_usage

record collector =
  co_walked :: "os_path list"
  co_directories :: "directory_usage list"
  co_candidates :: "found list"
  co_issues :: "rejection list"
  co_directory_count :: u64
  co_files :: u64
  co_links_skipped :: u64
  co_mounts_skipped :: u64
  co_errors :: u64
  co_caches :: "cache_usage list"
  co_owners :: owners

definition collector_new :: "owners \<Rightarrow> collector" where
  "collector_new own =
     \<lparr>co_walked = [], co_directories = [], co_candidates = [], co_issues = [],
      co_directory_count = 0, co_files = 0, co_links_skipped = 0, co_mounts_skipped = 0,
      co_errors = 0, co_caches = [], co_owners = own\<rparr>"

definition collector_issue :: "rejection \<Rightarrow> collector \<Rightarrow> collector" where
  "collector_issue r c =
     c\<lparr>co_errors := co_errors c + 1,
       co_issues := (if length (co_issues c) < max_issues then co_issues c @ [r] else co_issues c)\<rparr>"

text \<open>The owners are asked when the candidate is made, with the cache as it is then.\<close>

definition collector_found ::
  "scan_os \<Rightarrow> scan_setup \<Rightarrow> os_path \<Rightarrow> admission \<Rightarrow> identity \<Rightarrow> measurement \<Rightarrow> os_path list
   \<Rightarrow> collector \<Rightarrow> collector" where
  "collector_found os su directory admission ident m markers c =
     (case owners_of (ob_owner (sn_observing os)) directory markers (co_owners c) of
        (ownership, own') \<Rightarrow>
          c\<lparr>co_owners := own',
            co_candidates := co_candidates c @
              [\<lparr>fd_path = directory,
                fd_candidate = candidate_new (su_sha su) (su_fold su) admission
                  \<lparr>observed.ob_identity = ident, ob_measurement = m, ob_ownership = ownership\<rparr>
                  (prot_case (su_protection su))\<rparr>]\<rparr>)"

fun absorb :: "scan_os \<Rightarrow> scan_setup \<Rightarrow> collector \<Rightarrow> scan_event \<Rightarrow> collector" where
  "absorb os su c (Issue r) = collector_issue r c"
| "absorb os su c Directory_Counted = c\<lparr>co_directory_count := co_directory_count c + 1\<rparr>"
| "absorb os su c (Files_Counted n) = c\<lparr>co_files := co_files c + n\<rparr>"
| "absorb os su c Link_Skipped = c\<lparr>co_links_skipped := co_links_skipped c + 1\<rparr>"
| "absorb os su c Mount_Skipped = c\<lparr>co_mounts_skipped := co_mounts_skipped c + 1\<rparr>"
| "absorb os su c (Walked directory) = c\<lparr>co_walked := co_walked c @ [directory]\<rparr>"
| "absorb os su c (Seen directory admission ident m markers) =
     collector_found os su directory admission ident m markers c"
| "absorb os su c (Cache_Used u) = c\<lparr>co_caches := co_caches c @ [u]\<rparr>"
| "absorb os su c (Directory_Used u) = c\<lparr>co_directories := co_directories c @ [u]\<rparr>"

definition absorb_all :: "scan_os \<Rightarrow> scan_setup \<Rightarrow> scan_event list \<Rightarrow> collector \<Rightarrow> collector" where
  "absorb_all os su es c = foldl (absorb os su) c es"

section \<open>Reading a directory\<close>

record dir_contents =
  cn_files :: "(os_path \<times> metadata \<times> node_answers) list"
  cn_links :: "(os_path \<times> metadata \<times> node_answers) list"
  cn_directories :: "(os_path \<times> metadata \<times> os_tree) list"
  cn_names :: entries
  cn_failures :: u64

definition contents_empty :: dir_contents where
  "contents_empty =
     \<lparr>cn_files = [], cn_links = [], cn_directories = [], cn_names = entries_empty, cn_failures = 0\<rparr>"

definition plain_file :: "scan_os \<Rightarrow> os_path \<Rightarrow> bool" where
  "plain_file os path =
     (case ob_file_type (sn_observing os) path of Inr t \<Rightarrow> ft_file t | Inl _ \<Rightarrow> False)"

definition admit_inspected ::
  "os_path \<Rightarrow> metadata \<Rightarrow> bytes \<Rightarrow> metadata \<Rightarrow> os_tree \<Rightarrow> dir_contents \<Rightarrow> dir_contents \<times> scan_event list" where
  "admit_inspected path me n cm tree c =
     (case me_shape cm of
        shape.Link \<Rightarrow> (c\<lparr>cn_links := cn_links c @ [(path, cm, node_answers tree)]\<rparr>, [Link_Skipped])
      | shape.Directory \<Rightarrow>
          (if crossing me cm \<noteq> None then (c, [Mount_Skipped])
           else (c\<lparr>cn_names := entries_dir (cn_names c) n,
                   cn_directories := cn_directories c @ [(path, cm, tree)]\<rparr>, []))
      | shape.File \<Rightarrow>
          (c\<lparr>cn_names := entries_file (cn_names c) n,
             cn_files := cn_files c @ [(path, cm, node_answers tree)]\<rparr>, [])
      | shape.Other \<Rightarrow> (c, []))"

definition admit_entry ::
  "scan_os \<Rightarrow> scan_setup \<Rightarrow> os_path \<Rightarrow> metadata \<Rightarrow> bytes \<Rightarrow> os_tree \<Rightarrow> dir_contents
   \<Rightarrow> dir_contents \<times> scan_event list" where
  "admit_entry os su directory me n tree c =
     (let path = directory @ [n] in
      if su_descent su \<noteq> Measure \<and> plain_file os path
      then (c\<lparr>cn_names := entries_file (cn_names c) n\<rparr>, [])
      else (case na_inspect (node_answers tree) of
              Inl e \<Rightarrow>
                (c\<lparr>cn_failures := saturating_add (cn_failures c) 1\<rparr>,
                 [Issue (io_rejection (sn_host os) path fs_op.Metadata e)])
            | Inr cm \<Rightarrow> admit_inspected path me n cm tree c))"

fun read_entries_into ::
  "scan_os \<Rightarrow> scan_setup \<Rightarrow> os_path \<Rightarrow> metadata \<Rightarrow> os_entry list \<Rightarrow> dir_contents
   \<Rightarrow> dir_contents \<times> scan_event list" where
  "read_entries_into os su directory me [] c = (c, [])"
| "read_entries_into os su directory me (os_entry.Unreadable e # entries) c =
     (case read_entries_into os su directory me entries
         (c\<lparr>cn_failures := saturating_add (cn_failures c) 1\<rparr>) of
        (c', es) \<Rightarrow> (c', Issue (io_rejection (sn_host os) directory ReadEntry e) # es))"
| "read_entries_into os su directory me (Entry n tree # entries) c =
     (case admit_entry os su directory me n tree c of
        (c1, es1) \<Rightarrow>
          (case read_entries_into os su directory me entries c1 of (c2, es2) \<Rightarrow> (c2, es1 @ es2)))"

definition read_directory ::
  "scan_os \<Rightarrow> scan_setup \<Rightarrow> os_path \<Rightarrow> metadata \<Rightarrow> os_tree \<Rightarrow> dir_contents option \<times> scan_event list" where
  "read_directory os su directory me tree =
     (case na_read_dir (node_answers tree) of
        Some e \<Rightarrow> (None, [Issue (io_rejection (sn_host os) directory ReadDir e)])
      | None \<Rightarrow>
          (case read_entries_into os su directory me (node_entries tree) contents_empty of
             (c, es) \<Rightarrow> (Some c, es)))"

section \<open>Tallies of a directory's own files and links\<close>

definition tally_unmeasurable :: "tally \<Rightarrow> tally" where
  "tally_unmeasurable t = tally_missing 1 t"

definition scan_file ::
  "scan_os \<Rightarrow> scan_setup \<Rightarrow> os_path \<times> metadata \<times> node_answers \<Rightarrow> tally \<Rightarrow> tally \<times> scan_event list" where
  "scan_file os su entry t =
     (case entry of (path, me, a) \<Rightarrow>
        (let counted = (\<lambda>ident. tally_file (su_sha su) (oh_spell (sn_host os) path) (me_len me) ident) in
         case su_measure su of
           Logical \<Rightarrow> (counted (sn_metadata_identity os path) t, [])
         | Allocated \<Rightarrow>
             (case na_measure a of
                Inr m \<Rightarrow> (counted (Some (fm_identity m)) (tally_allocated m t), [])
              | Inl e \<Rightarrow>
                  (counted (sn_metadata_identity os path) (tally_unmeasurable t),
                   [Issue (io_rejection (sn_host os) path AllocationInfo e)]))))"

definition scan_link ::
  "scan_os \<Rightarrow> scan_setup \<Rightarrow> os_path \<times> metadata \<times> node_answers \<Rightarrow> tally \<Rightarrow> tally \<times> scan_event list" where
  "scan_link os su entry t =
     (case entry of (path, me, a) \<Rightarrow>
        (case tally_link (sn_host os) (su_sha su) path me a t of
           Inr t' \<Rightarrow> (t', [])
         | Inl r \<Rightarrow> (tally_unmeasurable t, [Issue r])))"

fun tally_each :: "('a \<Rightarrow> tally \<Rightarrow> tally \<times> scan_event list) \<Rightarrow> 'a list \<Rightarrow> tally \<Rightarrow> tally \<times> scan_event list"
  where
  "tally_each f [] t = (t, [])"
| "tally_each f (x # xs) t =
     (case f x t of (t1, es1) \<Rightarrow> (case tally_each f xs t1 of (t2, es2) \<Rightarrow> (t2, es1 @ es2)))"

definition scan_files ::
  "scan_os \<Rightarrow> scan_setup \<Rightarrow> (os_path \<times> metadata \<times> node_answers) list \<Rightarrow> tally \<times> scan_event list" where
  "scan_files os su files =
     (case tally_each (scan_file os su) files (tally_empty (su_measure su)) of
        (t, es) \<Rightarrow> (t, Files_Counted (of_nat (min (length files) (2 ^ 64 - 1))) # es))"

definition scan_links ::
  "scan_os \<Rightarrow> scan_setup \<Rightarrow> (os_path \<times> metadata \<times> node_answers) list \<Rightarrow> tally \<times> scan_event list" where
  "scan_links os su links = tally_each (scan_link os su) links (tally_empty (su_measure su))"

definition own_tally ::
  "scan_os \<Rightarrow> scan_setup \<Rightarrow> os_path \<Rightarrow> dir_contents \<Rightarrow> tally \<times> scan_event list" where
  "own_tally os su directory c =
     (case su_descent su of
        Measure \<Rightarrow>
          (case (scan_files os su (cn_files c), scan_links os su (cn_links c)) of
             ((ft, fes), (lt, les)) \<Rightarrow>
               (let t = tally_missing (cn_failures c) (tally_merge ft lt) in
                (if has_file (cn_names c) marker_name then tally_marker directory t else t, fes @ les)))
      | Sight _ \<Rightarrow> (tally_empty (su_measure su), []))"

section \<open>Candidates\<close>

datatype region = Root | Open entries | Artifact

definition scan_admission ::
  "scan_os \<Rightarrow> scan_setup \<Rightarrow> os_path \<Rightarrow> metadata \<Rightarrow> location \<Rightarrow> region \<Rightarrow> dir_contents \<Rightarrow> admission option" where
  "scan_admission os su directory me location region c =
     (case region of
        region.Open outside \<Rightarrow>
          (case admit (su_sha su) (su_fold su)
              \<lparr>st_location = location, st_shape = shape.Directory,
               st_boundary = (case me_device me of Some d \<Rightarrow> Same d | None \<Rightarrow> Unreported),
               st_listing = listing_new outside (cn_names c)
                 (tags_of (sn_observing os) directory (cn_names c)),
               st_protection = su_protection su, st_excludes = su_excludes su\<rparr> of
             Inr a \<Rightarrow> Some a
           | Inl _ \<Rightarrow> None)
      | _ \<Rightarrow> None)"

definition seen ::
  "scan_os \<Rightarrow> os_path \<Rightarrow> admission \<Rightarrow> measurement \<Rightarrow> os_path list \<Rightarrow> scan_event list" where
  "seen os directory admission m markers =
     (case ob_identity (sn_observing os) directory of
        Inl e \<Rightarrow> [Issue (io_rejection (sn_host os) directory FileId e)]
      | Inr ident \<Rightarrow> [Seen directory admission ident m markers])"

definition sighted :: "scan_os \<Rightarrow> os_path \<Rightarrow> admission \<Rightarrow> scan_event list" where
  "sighted os directory admission = seen os directory admission unmeasured []"

definition scan_record ::
  "scan_os \<Rightarrow> scan_setup \<Rightarrow> os_path \<Rightarrow> admission \<Rightarrow> tally \<Rightarrow> scan_event list" where
  "scan_record os su directory admission t =
     (if ta_logical t < op_min_size (su_options su) then []
      else seen os directory admission (tally_measurement t) (ta_markers t))"

definition cache_events :: "scan_setup \<Rightarrow> os_path \<Rightarrow> location \<Rightarrow> tally \<Rightarrow> scan_event list" where
  "cache_events su directory location t =
     (case su_descent su of
        Measure \<Rightarrow>
          (case su_caches su directory of
             Some tool \<Rightarrow> [Cache_Used \<lparr>cu_tool = tool, cu_location = location, cu_usage = tally_usage t\<rparr>]
           | None \<Rightarrow> [])
      | Sight _ \<Rightarrow> [])"

section \<open>The walk\<close>

record opened =
  on_location :: location
  on_admission :: "admission option"
  on_contents :: dir_contents
  on_inside :: bool

text \<open>What is done at a directory before its children: \<open>Inl\<close> where the walk stops there.\<close>

definition git_directory :: "scan_setup \<Rightarrow> os_path \<Rightarrow> bool" where
  "git_directory su directory \<longleftrightarrow>
     su_descent su \<noteq> Measure \<and> directory \<noteq> [] \<and> List.last directory = ''.git''"

definition scan_opened ::
  "scan_os \<Rightarrow> scan_setup \<Rightarrow> os_path \<Rightarrow> metadata \<Rightarrow> u64 \<Rightarrow> region \<Rightarrow> location \<Rightarrow> dir_contents
   \<Rightarrow> (tally + opened) \<times> scan_event list" where
  "scan_opened os su directory me depth region location c =
     (let admission = scan_admission os su directory me location region c;
          opened = (\<lambda>a. \<lparr>on_location = location, on_admission = a, on_contents = c,
            on_inside = (region = Artifact \<or> a \<noteq> None)\<rparr>) in
      case (su_descent su, admission) of
        (Sight reach, Some a) \<Rightarrow> (Inl (tally_empty (su_measure su)), sighted os directory a)
      | (Sight reach, None) \<Rightarrow>
          (if reach = Children \<and> (if su_only su \<noteq> None then 1 else 0) < depth
           then Inl (tally_empty (su_measure su)) else Inr (opened None), [Walked directory])
      | (Measure, a) \<Rightarrow> (Inr (opened a), []))"

definition scan_enter ::
  "scan_os \<Rightarrow> scan_setup \<Rightarrow> os_path \<Rightarrow> metadata \<Rightarrow> u64 \<Rightarrow> region \<Rightarrow> os_tree
   \<Rightarrow> (tally + opened) \<times> scan_event list" where
  "scan_enter os su directory me depth region tree =
     (case locate (sn_host os) directory of
        Inl r \<Rightarrow> (Inl (tally_failed (su_measure su)), [Issue r])
      | Inr location \<Rightarrow>
          if excluded su location \<or> git_directory su directory
          then (Inl (tally_empty (su_measure su)), [])
          else
            (case read_directory os su directory me tree of
               (None, es) \<Rightarrow> (Inl (tally_failed (su_measure su)), es)
             | (Some c, es) \<Rightarrow>
                 (case scan_opened os su directory me depth region location c of
                    (r, later) \<Rightarrow> (r, es @ Directory_Counted # later))))"

definition walked_child :: "scan_setup \<Rightarrow> u64 \<Rightarrow> os_path \<times> metadata \<times> os_tree \<Rightarrow> bool" where
  "walked_child su depth entry \<longleftrightarrow>
     0 < depth \<or> (case su_only su of None \<Rightarrow> True | Some name \<Rightarrow> List.last (fst entry) = name)"

definition child_region :: "opened \<Rightarrow> region" where
  "child_region here = (if on_inside here then Artifact else region.Open (cn_names (on_contents here)))"

definition children_of :: "scan_setup \<Rightarrow> u64 \<Rightarrow> opened \<Rightarrow> (os_path \<times> metadata \<times> os_tree) list" where
  "children_of su depth here = filter (walked_child su depth) (cn_directories (on_contents here))"

definition scan_leave ::
  "scan_os \<Rightarrow> scan_setup \<Rightarrow> os_path \<Rightarrow> u64 \<Rightarrow> opened \<Rightarrow> tally \<Rightarrow> scan_event list" where
  "scan_leave os su directory depth here t =
     cache_events su directory (on_location here) t @
     (case on_admission here of
        Some admission \<Rightarrow> scan_record os su directory admission t
      | None \<Rightarrow>
          if \<not> on_inside here \<and> su_descent su = Measure \<and>
             (case op_max_depth (su_options su) of None \<Rightarrow> True | Some deepest \<Rightarrow> depth \<le> deepest) \<and>
             op_min_size (su_options su) \<le> ta_logical t
          then [Directory_Used \<lparr>du_location = on_location here, du_depth = depth, du_usage = tally_usage t\<rparr>]
          else [])"

text \<open>The children are walked in any order; their tallies are merged in the order listed.\<close>

definition scan_merged ::
  "scan_os \<Rightarrow> scan_setup \<Rightarrow> os_path \<Rightarrow> u64 \<Rightarrow> opened \<Rightarrow> (tally \<times> scan_event list) list
   \<Rightarrow> tally \<times> scan_event list" where
  "scan_merged os su directory depth here results =
     (case own_tally os su directory (on_contents here) of
        (own, es) \<Rightarrow>
          (let t = tally_merge own (foldl tally_merge (tally_empty (su_measure su)) (map fst results)) in
           (t, es @ concat (map snd results) @ scan_leave os su directory depth here t)))"

lemma admit_entry_directories:
  "admit_entry os su directory me n tree c = (c', es) \<Longrightarrow>
   cn_directories c' = cn_directories c \<or>
   (\<exists>cm. cn_directories c' = cn_directories c @ [(directory @ [n], cm, tree)])"
  by (auto simp: admit_entry_def admit_inspected_def Let_def split: if_splits sum.splits shape.splits)

lemma read_entries_directories:
  "read_entries_into os su directory me entries c = (c', es) \<Longrightarrow> (p, cm, t) \<in> set (cn_directories c') \<Longrightarrow>
   (p, cm, t) \<in> set (cn_directories c) \<or> (\<exists>n. p = directory @ [n] \<and> Entry n t \<in> set entries)"
proof (induction os su directory me entries c arbitrary: es rule: read_entries_into.induct)
  case (3 os su directory me n tree entries c)
  obtain c1 es1 where one: "admit_entry os su directory me n tree c = (c1, es1)" by fastforce
  moreover obtain es2 where "read_entries_into os su directory me entries c1 = (c', es2)"
    using 3(2) one by (auto split: prod.splits)
  ultimately show ?case using 3(1) [OF one [symmetric], of es2] 3(3) admit_entry_directories [OF one] by auto
qed (fastforce split: prod.splits)+

lemma entry_nodes_less: "Entry n t \<in> set entries \<Longrightarrow> tree_nodes t < tree_nodes (Node a entries)"
  by (induction entries) (fastforce simp: less_Suc_eq_le)+

lemma scan_enter_nodes:
  assumes "scan_enter os su directory me depth region tree = (Inr here, es)"
    and "(path, cm, t) \<in> set (children_of su depth here)"
  shows "tree_nodes t < tree_nodes tree"
proof -
  obtain c es' where read: "read_directory os su directory me tree = (Some c, es')"
    and c: "on_contents here = c"
    using assms(1) by (auto simp: scan_enter_def scan_opened_def Let_def
        split: sum.splits if_splits prod.splits option.splits descent.splits)
  then have "read_entries_into os su directory me (node_entries tree) contents_empty = (c, es')"
    by (auto simp: read_directory_def split: option.splits prod.splits)
  from read_entries_directories [OF this, of path cm t] assms(2) c
  have "\<exists>n. Entry n t \<in> set (node_entries tree)"
    by (auto simp: children_of_def contents_empty_def)
  then show ?thesis by (cases tree) (auto dest: entry_nodes_less)
qed

function scan_walk ::
  "scan_os \<Rightarrow> scan_setup \<Rightarrow> os_path \<Rightarrow> metadata \<Rightarrow> u64 \<Rightarrow> region \<Rightarrow> os_tree \<Rightarrow> tally \<times> scan_event list" where
  "scan_walk os su directory me depth region tree =
     (case scan_enter os su directory me depth region tree of
        (Inl t, es) \<Rightarrow> (t, es)
      | (Inr here, es) \<Rightarrow>
          (case scan_merged os su directory depth here
              (map (\<lambda>(path, cm, below).
                  scan_walk os su path cm (sat_add depth 1) (child_region here) below)
                (children_of su depth here)) of
             (t, later) \<Rightarrow> (t, es @ later)))"
  by pat_completeness auto

termination
  by (relation "measure (\<lambda>(os, su, directory, me, depth, region, tree). tree_nodes tree)")
    (auto dest: scan_enter_nodes [OF sym])

declare scan_walk.simps [simp del]

section \<open>Roots\<close>

definition accepted :: "scan_os \<Rightarrow> os_path \<Rightarrow> rejection + os_path \<times> location" where
  "accepted os root =
     result_bind (observe (sn_observing os) root) (\<lambda>ob.
       case ob_shape ob of
         shape.Directory \<Rightarrow> Inr (ob_path ob, ob_location ob)
       | shape.Link \<Rightarrow> Inl (rejection.Link (ob_location ob))
       | _ \<Rightarrow> Inl (rejection.NotADirectory (ob_location ob)))"

definition admit_root ::
  "scan_setup \<Rightarrow> os_path \<times> location \<Rightarrow> (os_path \<times> location) list \<Rightarrow> (os_path \<times> location) list" where
  "admit_root su root roots =
     (let within = prot_contains (su_fold su) (su_protection su) in
      if excluded su (snd root) \<or> list_ex (\<lambda>existing. within (snd existing) (snd root)) roots then roots
      else filter (\<lambda>existing. \<not> within (snd root) (snd existing)) roots @ [root])"

fun roots_from ::
  "scan_os \<Rightarrow> scan_setup \<Rightarrow> os_path list \<Rightarrow> (os_path \<times> location) list
   \<Rightarrow> (os_path \<times> location) list \<times> scan_event list" where
  "roots_from os su [] roots = (roots, [])"
| "roots_from os su (root # rest) roots =
     (case accepted os root of
        Inl r \<Rightarrow> (case roots_from os su rest roots of (roots', es) \<Rightarrow> (roots', Issue r # es))
      | Inr dir \<Rightarrow> roots_from os su rest (admit_root su dir roots))"

definition scan_roots :: "scan_os \<Rightarrow> scan_setup \<Rightarrow> (os_path \<times> location) list \<times> scan_event list" where
  "scan_roots os su = roots_from os su (op_roots (su_options su)) []"

definition validate_root ::
  "(bytes \<Rightarrow> bytes) \<Rightarrow> scan_os \<Rightarrow> protection \<Rightarrow> os_path \<Rightarrow> rejection + os_path" where
  "validate_root ul os protection path =
     result_bind (observe (sn_observing os) path) (\<lambda>ob.
       case ob_shape ob of
         shape.Directory \<Rightarrow>
           (case area_of ul protection (ob_location ob) of
              area.System reason \<Rightarrow>
                if reason = system_reason.CurrentDirectory \<or> reason = RunningBinary then Inr (ob_path ob)
                else Inl (rejection.Protected (ob_location ob) reason)
            | _ \<Rightarrow> Inr (ob_path ob))
       | shape.Link \<Rightarrow> Inl (rejection.Link (ob_location ob))
       | _ \<Rightarrow> Inl (rejection.NotADirectory (ob_location ob)))"

definition scan_root :: "scan_os \<Rightarrow> scan_setup \<Rightarrow> os_path \<Rightarrow> tally \<times> scan_event list" where
  "scan_root os su root =
     (case na_inspect (node_answers (sn_tree os root)) of
        Inr me \<Rightarrow> scan_walk os su root me 0 Root (sn_tree os root)
      | Inl e \<Rightarrow>
          (tally_failed (su_measure su), [Issue (io_rejection (sn_host os) root fs_op.Inspect e)]))"

section \<open>Volumes\<close>

type_synonym volumes = "(u64 \<times> location \<times> volume_space \<times> tally) list"

definition volume_sample :: "scan_os \<Rightarrow> os_path \<Rightarrow> os_error + u64 \<times> volume_space" where
  "volume_sample os path =
     result_bind (ob_identity (sn_observing os) path) (\<lambda>ident.
     result_bind (sn_volume_space os path) (\<lambda>space. Inr (volume ident, space)))"

definition volume_add ::
  "measure \<Rightarrow> location \<Rightarrow> volume_space \<Rightarrow> tally \<Rightarrow> (location \<times> volume_space \<times> tally) option
   \<Rightarrow> (location \<times> volume_space \<times> tally) option" where
  "volume_add m location space t current =
     (case current of
        Some (l, s, u) \<Rightarrow> Some (l, s, tally_merge u t)
      | None \<Rightarrow> Some (location, space, tally_merge (tally_empty m) t))"

fun volumes_from ::
  "scan_os \<Rightarrow> measure \<Rightarrow> (os_path \<times> location \<times> tally) list \<Rightarrow> tally \<times> volumes
   \<Rightarrow> (tally \<times> volumes) \<times> scan_event list" where
  "volumes_from os m [] state = (state, [])"
| "volumes_from os m ((path, location, t) # rest) (acc, vs) =
     (case volume_sample os path of
        Inr (v, space) \<Rightarrow>
          volumes_from os m rest (tally_merge acc t, tm_alter (volume_add m location space t) v vs)
      | Inl e \<Rightarrow>
          (case volumes_from os m rest (tally_merge acc t, vs) of
             (state, es) \<Rightarrow> (state, Issue (io_rejection (sn_host os) path AllocationInfo e) # es)))"

definition volume_report :: "u64 \<times> location \<times> volume_space \<times> tally \<Rightarrow> volume_usage" where
  "volume_report entry =
     (case entry of (v, location, space, t) \<Rightarrow>
        (let usage = tally_usage t;
             allocated = (case us_allocation usage of
               allocation.Measured a _ \<Rightarrow> a | allocation.Unmeasured \<Rightarrow> 0) in
         \<lparr>vu_volume = v, vu_location = location, vu_capacity = vs_total space,
          vu_available = vs_available space,
          vu_reconciliation = reconcile (saturating_sub (vs_total space) (vs_free space)) allocated,
          vu_failures = us_failures usage\<rparr>))"

section \<open>The report\<close>

fun retain_first :: "('a \<Rightarrow> 'k) \<Rightarrow> 'k set \<Rightarrow> 'a list \<Rightarrow> 'a list" where
  "retain_first key taken [] = []"
| "retain_first key taken (x # xs) =
     (if key x \<in> taken then retain_first key taken xs
      else x # retain_first key (insert (key x) taken) xs)"

definition by_size :: "(byte_size \<times> location) \<Rightarrow> int \<times> location" where
  "by_size entry = (- int (unat (fst entry)), snd entry)"

definition candidate_rank :: "found \<Rightarrow> int \<times> location" where
  "candidate_rank f = by_size (us_logical (cd_usage (fd_candidate f)), cd_location (fd_candidate f))"

definition directory_rank :: "directory_usage \<Rightarrow> int \<times> location" where
  "directory_rank d = by_size (us_logical (du_usage d), du_location d)"

definition listed_directories :: "scan_options \<Rightarrow> directory_usage list \<Rightarrow> directory_usage list" where
  "listed_directories op ds = take (unat (op_top op)) (sort_key directory_rank ds)"

definition listed_candidates :: "scan_setup \<Rightarrow> found list \<Rightarrow> found list" where
  "listed_candidates su fs =
     retain_first (\<lambda>f. loc_key (su_fold su) (cd_location (fd_candidate f)) (prot_case (su_protection su))) {}
       (sort_key candidate_rank fs)"

definition scan_stats_of :: "collector \<Rightarrow> scan_stats" where
  "scan_stats_of c =
     \<lparr>ss_directories = co_directory_count c, ss_files = co_files c,
      ss_links_skipped = co_links_skipped c, ss_mount_boundaries_skipped = co_mounts_skipped c,
      ss_errors = co_errors c\<rparr>"

definition scan_report_of ::
  "scan_setup \<Rightarrow> location list \<Rightarrow> tally \<Rightarrow> volumes \<Rightarrow> collector \<Rightarrow> scan_report" where
  "scan_report_of su roots acc vs c =
     (let usage = tally_usage acc in
      \<lparr>sr_roots = roots, sr_listing_limit = op_top (su_options su),
       sr_usage = usage\<lparr>us_failures := max (us_failures usage) (co_errors c)\<rparr>,
       sr_volumes = map volume_report vs,
       sr_tool_caches = sort_key cu_location (co_caches c),
       sr_stats = scan_stats_of c,
       sr_largest_directories = listed_directories (su_options su) (co_directories c),
       sr_candidates = listed_candidates su (co_candidates c),
       sr_issues = co_issues c\<rparr>)"

text \<open>The events of a run, in the order of one thread: the roots, the walks, the volumes.\<close>

definition scan_events :: "scan_os \<Rightarrow> scan_setup \<Rightarrow> scan_event list" where
  "scan_events os su =
     (case scan_roots os su of
        (roots, es) \<Rightarrow>
          (let walks = map (\<lambda>(path, location). (path, location, scan_root os su path)) roots in
           case volumes_from os (su_measure su) (map (\<lambda>(p, l, t, _). (p, l, t)) walks)
               (tally_empty (su_measure su), []) of
             (_, ves) \<Rightarrow> es @ concat (map (\<lambda>(p, l, t, wes). wes) walks) @ ves))"

definition scan_totals :: "scan_os \<Rightarrow> scan_setup \<Rightarrow> tally \<times> volumes" where
  "scan_totals os su =
     fst (volumes_from os (su_measure su)
       (map (\<lambda>(path, location). (path, location, fst (scan_root os su path))) (fst (scan_roots os su)))
       (tally_empty (su_measure su), []))"

definition scan_setup_of ::
  "scan_os \<Rightarrow> (os_path \<Rightarrow> bytes option) \<Rightarrow> (bytes \<Rightarrow> bytes) \<Rightarrow> (bytes \<Rightarrow> bytes) \<Rightarrow> protection
   \<Rightarrow> scan_options \<Rightarrow> descent \<Rightarrow> bytes option \<Rightarrow> scan_setup" where
  "scan_setup_of os caches sha ul protection op d only =
     \<lparr>su_options = op, su_descent = d, su_only = only, su_protection = protection,
      su_excludes = excludes_of (sn_observing os) (op_excludes op), su_caches = caches,
      su_sha = sha, su_fold = ul\<rparr>"

definition scan_collected :: "scan_os \<Rightarrow> scan_setup \<Rightarrow> owners \<Rightarrow> scan_event list \<Rightarrow> scan_report \<times> collector" where
  "scan_collected os su own es =
     (let c = absorb_all os su es (collector_new own) in
      case scan_totals os su of
        (acc, vs) \<Rightarrow> (scan_report_of su (map snd (fst (scan_roots os su))) acc vs c, c))"

definition scan_collect :: "scan_os \<Rightarrow> scan_setup \<Rightarrow> owners \<Rightarrow> scan_report \<times> collector" where
  "scan_collect os su own = scan_collected os su own (scan_events os su)"

record sighting =
  sg_report :: scan_report
  sg_walked :: "os_path list"

definition sighting_of ::
  "scan_os \<Rightarrow> (os_path \<Rightarrow> bytes option) \<Rightarrow> (bytes \<Rightarrow> bytes) \<Rightarrow> (bytes \<Rightarrow> bytes) \<Rightarrow> protection
   \<Rightarrow> scan_options \<Rightarrow> sight_reach \<Rightarrow> bytes option \<Rightarrow> owners \<Rightarrow> sighting \<times> owners" where
  "sighting_of os caches sha ul protection op reach only own =
     (case scan_collect os (scan_setup_of os caches sha ul protection (op\<lparr>op_measure := Logical\<rparr>)
         (Sight reach) only) own of
        (report, c) \<Rightarrow> (\<lparr>sg_report = report, sg_walked = sort (co_walked c)\<rparr>, co_owners c))"

definition scan_report_for ::
  "scan_os \<Rightarrow> (os_path \<Rightarrow> bytes option) \<Rightarrow> (bytes \<Rightarrow> bytes) \<Rightarrow> (bytes \<Rightarrow> bytes) \<Rightarrow> protection
   \<Rightarrow> scan_options \<Rightarrow> owners \<Rightarrow> scan_report \<times> owners" where
  "scan_report_for os caches sha ul protection op own =
     (case scan_collect os (scan_setup_of os caches sha ul protection op Measure None) own of
        (report, c) \<Rightarrow> (report, co_owners c))"

end
