(* ===== verification/Scanning_Facts.thy ===== *)
theory Scanning_Facts
  imports Scanning Measuring_Facts "HOL-Library.Sublist"
begin

text \<open>
  What a scan reports: the collector is decided by the events of the walk whatever their order;
  the roots are apart and cover what was asked for; a sighting stops at every candidate; and
  what a scan measures of an artifact is what a strict measurement of it would say.
\<close>

section \<open>The collector in any order\<close>

fun issue_of :: "scan_event \<Rightarrow> rejection option" where
  "issue_of (Issue r) = Some r" | "issue_of _ = None"

fun walked_of :: "scan_event \<Rightarrow> os_path option" where
  "walked_of (Walked d) = Some d" | "walked_of _ = None"

fun cache_of :: "scan_event \<Rightarrow> cache_usage option" where
  "cache_of (Cache_Used u) = Some u" | "cache_of _ = None"

fun directory_of :: "scan_event \<Rightarrow> directory_usage option" where
  "directory_of (Directory_Used u) = Some u" | "directory_of _ = None"

fun files_of :: "scan_event \<Rightarrow> u64" where
  "files_of (Files_Counted n) = n" | "files_of _ = 0"

text \<open>The candidate of an event, with the ownership a fresh look would give.\<close>

fun found_of :: "scan_os \<Rightarrow> scan_setup \<Rightarrow> owners \<Rightarrow> scan_event \<Rightarrow> found option" where
  "found_of os su own (Seen directory admission ident m markers) =
     Some \<lparr>fd_path = directory,
       fd_candidate = candidate_new (su_sha su) (su_fold su) admission
         \<lparr>observed.ob_identity = ident, ob_measurement = m,
          ob_ownership = owners_recheck (ob_owner (sn_observing os)) directory markers own\<rparr>
         (prot_case (su_protection su))\<rparr>"
| "found_of os su own _ = None"

definition event_count :: "(scan_event \<Rightarrow> bool) \<Rightarrow> scan_event list \<Rightarrow> u64" where
  "event_count p es = of_nat (length (filter p es))"

text \<open>What the collector holds after \<open>es\<close>, said without going through them one by one.\<close>

definition summarizes :: "scan_os \<Rightarrow> scan_setup \<Rightarrow> owners \<Rightarrow> scan_event list \<Rightarrow> collector \<Rightarrow> bool" where
  "summarizes os su own es c \<longleftrightarrow>
     co_walked c = List.map_filter walked_of es \<and>
     co_directories c = List.map_filter directory_of es \<and>
     co_candidates c = List.map_filter (found_of os su own) es \<and>
     co_issues c = take max_issues (List.map_filter issue_of es) \<and>
     co_caches c = List.map_filter cache_of es \<and>
     co_directory_count c = event_count (\<lambda>e. e = Directory_Counted) es \<and>
     co_files c = (\<Sum>e\<leftarrow>es. files_of e) \<and>
     co_links_skipped c = event_count (\<lambda>e. e = Link_Skipped) es \<and>
     co_mounts_skipped c = event_count (\<lambda>e. e = Mount_Skipped) es \<and>
     co_errors c = event_count (\<lambda>e. issue_of e \<noteq> None) es \<and>
     coherent (ob_owner (sn_observing os)) (co_owners c) \<and> alike own (co_owners c)"

lemma map_filter_snoc: "List.map_filter f (xs @ [x]) = List.map_filter f xs @ (case f x of None \<Rightarrow> [] | Some y \<Rightarrow> [y])"
  by (induction xs) (auto simp: map_filter_simps split: option.splits)

lemma recheck_answer:
  assumes "coherent os own'" and "alike own own'" and "owners_of os path nested own' = (answer, own'')"
  shows "answer = owners_recheck os path nested own \<and> coherent os own'' \<and> alike own own''"
  using owners_of_cached [OF assms(1,3)] assms(2) by (auto simp: recheck_plain plain_alike intro: alike_trans)

lemma summarizes_step:
  assumes "summarizes os su own es c"
  shows "summarizes os su own (es @ [e]) (absorb os su c e)"
proof (cases e)
  case (Seen d a i m mk)
  obtain answer own' where one: "owners_of (ob_owner (sn_observing os)) d mk (co_owners c) = (answer, own')"
    by fastforce
  with recheck_answer [OF _ _ one, of own] assms show ?thesis
    by (simp add: Seen summarizes_def map_filter_snoc event_count_def collector_found_def)
next
  case (Issue r)
  with assms show ?thesis
    by (simp add: summarizes_def map_filter_snoc event_count_def collector_issue_def)
qed (use assms in \<open>simp_all add: summarizes_def map_filter_snoc event_count_def\<close>)

lemma absorb_all_summarizes:
  assumes "coherent (ob_owner (sn_observing os)) own"
  shows "summarizes os su own es (absorb_all os su es (collector_new own))"
proof (induction es rule: rev_induct)
  case Nil
  from assms show ?case
    by (simp add: summarizes_def absorb_all_def collector_new_def event_count_def map_filter_simps alike_def)
next
  case (snoc e es)
  from summarizes_step [OF this] show ?case by (simp add: absorb_all_def)
qed

section \<open>Schedules\<close>

lemma sort_key_permuted:
  assumes "mset xs = mset ys" and "inj_on f (set xs)"
  shows "sort_key f xs = sort_key f ys"
  using assms by (intro sort_key_inj_key_eq) simp_all

lemma sort_permuted: "mset xs = mset ys \<Longrightarrow> sort xs = sort ys"
  by (rule sort_key_permuted) simp_all

lemma map_filter_permuted: "mset xs = mset ys \<Longrightarrow> mset (List.map_filter f xs) = mset (List.map_filter f ys)"
  by (simp add: List.map_filter_def)

lemma event_count_permuted: "mset xs = mset ys \<Longrightarrow> event_count p xs = event_count p ys"
  unfolding event_count_def by (metis mset_filter size_mset)

lemma distinct_inj_on: "distinct (map g xs) \<Longrightarrow> (\<And>x y. f x = f y \<Longrightarrow> g x = g y) \<Longrightarrow> inj_on f (set xs)"
  unfolding distinct_map inj_on_def by blast

text \<open>No location is entered twice.\<close>

definition entered_once :: "scan_os \<Rightarrow> scan_setup \<Rightarrow> owners \<Rightarrow> scan_event list \<Rightarrow> bool" where
  "entered_once os su own es \<longleftrightarrow>
     distinct (map (\<lambda>f. cd_location (fd_candidate f)) (List.map_filter (found_of os su own) es)) \<and>
     distinct (map du_location (List.map_filter directory_of es)) \<and>
     distinct (map cu_location (List.map_filter cache_of es))"

lemma rank_location: "candidate_rank f = candidate_rank g \<Longrightarrow> cd_location (fd_candidate f) = cd_location (fd_candidate g)"
  "directory_rank d = directory_rank e \<Longrightarrow> du_location d = du_location e"
  by (simp_all add: candidate_rank_def directory_rank_def by_size_def)

definition same_report :: "scan_report \<Rightarrow> scan_report \<Rightarrow> bool" where
  "same_report r r' \<longleftrightarrow>
     r\<lparr>sr_issues := []\<rparr> = r'\<lparr>sr_issues := []\<rparr> \<and> length (sr_issues r) = length (sr_issues r')"


section \<open>Roots\<close>

definition root_within :: "scan_setup \<Rightarrow> location \<Rightarrow> location \<Rightarrow> bool" where
  "root_within su outer inner \<longleftrightarrow> prot_contains (su_fold su) (su_protection su) outer inner"

lemma root_within_trans: "root_within su a b \<Longrightarrow> root_within su b c \<Longrightarrow> root_within su a c"
  unfolding root_within_def prot_contains_def by (rule paths.inside_trans)

lemma root_within_refl: "root_within su a a"
  by (simp add: root_within_def prot_contains_def paths.inside_refl)

text \<open>The roots kept so far are apart, none excluded, and every root met is covered by one.\<close>

definition roots_cover ::
  "scan_setup \<Rightarrow> location set \<Rightarrow> (os_path \<times> location) list \<Rightarrow> bool" where
  "roots_cover su met roots \<longleftrightarrow>
     sorted_wrt (\<lambda>a b. \<not> root_within su a b \<and> \<not> root_within su b a) (map snd roots) \<and>
     set (map snd roots) \<subseteq> met \<and>
     (\<forall>l \<in> set (map snd roots). \<not> excluded su l) \<and>
     (\<forall>l \<in> met. excluded su l \<or> (\<exists>r \<in> set (map snd roots). root_within su r l))"

lemma admit_root_cover:
  assumes "roots_cover su met roots"
  shows "roots_cover su (insert (snd root) met) (admit_root su root roots)"
proof (cases "excluded su (snd root) \<or> list_ex (\<lambda>e. root_within su (snd e) (snd root)) roots")
  case True
  with assms show ?thesis
    by (auto simp: roots_cover_def admit_root_def root_within_def [symmetric] list_ex_iff Let_def)
next
  case False
  let ?kept = "filter (\<lambda>e. \<not> root_within su (snd root) (snd e)) roots"
  have now: "admit_root su root roots = ?kept @ [root]"
    using False by (simp add: admit_root_def root_within_def [symmetric] Let_def)
  have kept: "map snd ?kept = filter (\<lambda>l. \<not> root_within su (snd root) l) (map snd roots)"
    by (simp add: filter_map o_def)
  have apart: "sorted_wrt (\<lambda>a b. \<not> root_within su a b \<and> \<not> root_within su b a) (map snd (?kept @ [root]))"
    using assms False unfolding map_append kept
    by (auto simp: roots_cover_def sorted_wrt_append sorted_wrt_filter list_ex_iff)
  have covered: "\<exists>r \<in> set (map snd (?kept @ [root])). root_within su r l"
    if "l \<in> insert (snd root) met" "\<not> excluded su l" for l
  proof (cases "l = snd root")
    case True
    then show ?thesis by (simp add: root_within_refl)
  next
    case False
    with that assms obtain r where r: "r \<in> set (map snd roots)" "root_within su r l"
      unfolding roots_cover_def by blast
    show ?thesis
      using r root_within_trans [of su "snd root" r l] by (cases "root_within su (snd root) r") (auto simp: kept)
  qed
  from apart covered assms False show ?thesis
    unfolding now by (auto simp: roots_cover_def)
qed

lemma roots_from_cover:
  "roots_cover su met roots \<Longrightarrow> roots_from os su paths roots = (roots', es) \<Longrightarrow>
   roots_cover su (met \<union> {l. \<exists>path \<in> set paths. \<exists>p. accepted os path = Inr (p, l)}) roots'"
proof (induction os su paths roots arbitrary: met es rule: roots_from.induct)
  case (2 os su path rest roots)
  show ?case
  proof (cases "accepted os path")
    case (Inl r)
    with 2(4) obtain es' where "roots_from os su rest roots = (roots', es')" by (auto split: prod.splits)
    from 2(1) [OF Inl 2(3) this] Inl show ?thesis by simp
  next
    case (Inr a)
    with 2(4) have "roots_from os su rest (admit_root su a roots) = (roots', es)" by simp
    from 2(2) [OF Inr admit_root_cover [OF 2(3)] this]
    have "roots_cover su (insert (snd a) met \<union>
        {l. \<exists>path \<in> set rest. \<exists>p. accepted os path = Inr (p, l)}) roots'" .
    moreover have "{l. \<exists>q \<in> set (path # rest). \<exists>p. accepted os q = Inr (p, l)} =
        insert (snd a) {l. \<exists>q \<in> set rest. \<exists>p. accepted os q = Inr (p, l)}"
      using Inr by (cases a) auto
    ultimately show ?thesis by (simp add: Un_commute insert_commute)
  qed
qed simp

text \<open>Property C15. The roots a scan walks are pairwise apart, so that nothing is walked twice; none
  is excluded; each is a directory that was asked for; and every directory that was asked for and is
  not excluded lies in one of them.\<close>

theorem roots_apart_and_covering:
  shows "roots_cover su {l. \<exists>path \<in> set (op_roots (su_options su)). \<exists>p. accepted os path = Inr (p, l)}
    (fst (scan_roots os su))"
proof -
  obtain roots es where roots: "roots_from os su (op_roots (su_options su)) [] = (roots, es)" by fastforce
  from roots_from_cover [OF _ this, of "{}"] roots show ?thesis
    by (simp add: scan_roots_def roots_cover_def [of _ "{}"])
qed

section \<open>A sighting stops at every candidate\<close>

fun event_path :: "scan_event \<Rightarrow> os_path option" where
  "event_path (Walked d) = Some d"
| "event_path (Seen d admission ident m markers) = Some d"
| "event_path _ = None"

fun seen_path :: "scan_event \<Rightarrow> os_path option" where
  "seen_path (Seen d admission ident m markers) = Some d"
| "seen_path _ = None"

definition paths_of :: "scan_event list \<Rightarrow> os_path list" where
  "paths_of es = List.map_filter event_path es"

definition seen_paths :: "scan_event list \<Rightarrow> os_path list" where
  "seen_paths es = List.map_filter seen_path es"

fun entry_name :: "os_entry \<Rightarrow> bytes option" where
  "entry_name (os_entry.Unreadable e) = None"
| "entry_name (Entry n t) = Some n"

text \<open>No directory lists a name twice.\<close>

fun distinct_names :: "os_tree \<Rightarrow> bool" and distinct_below :: "os_entry \<Rightarrow> bool" where
  "distinct_names (Node a entries) \<longleftrightarrow>
     distinct (List.map_filter entry_name entries) \<and> list_all distinct_below entries"
| "distinct_below (os_entry.Unreadable e) \<longleftrightarrow> True"
| "distinct_below (Entry n t) \<longleftrightarrow> distinct_names t"

lemma paths_of_simps [simp]:
  "paths_of [] = []" "paths_of (es @ es') = paths_of es @ paths_of es'"
  "seen_paths [] = []" "seen_paths (es @ es') = seen_paths es @ seen_paths es'"
  by (simp_all add: paths_of_def seen_paths_def List.map_filter_def)

lemma paths_of_Cons [simp]:
  "paths_of (e # es) = (case event_path e of Some p \<Rightarrow> p # paths_of es | None \<Rightarrow> paths_of es)"
  "seen_paths (e # es) = (case seen_path e of Some p \<Rightarrow> p # seen_paths es | None \<Rightarrow> seen_paths es)"
  by (simp_all add: paths_of_def seen_paths_def List.map_filter_def split: option.splits)

lemma paths_of_concat: "paths_of (concat ess) = concat (map paths_of ess)"
  "seen_paths (concat ess) = concat (map seen_paths ess)"
  by (induction ess) simp_all

lemma seen_among_paths: "set (seen_paths es) \<subseteq> set (paths_of es)"
proof (induction es)
  case (Cons e es)
  then show ?case by (cases e) auto
qed simp

definition silent :: "scan_event list \<Rightarrow> bool" where
  "silent es \<longleftrightarrow> paths_of es = []"

lemma silent_seen: "silent es \<Longrightarrow> seen_paths es = []"
  using seen_among_paths [of es] by (simp add: silent_def)

lemma admit_entry_silent: "silent (snd (admit_entry os su directory me n tree c))"
  by (auto simp: silent_def admit_entry_def admit_inspected_def Let_def split: sum.splits shape.splits)

lemma read_entries_silent: "silent (snd (read_entries_into os su directory me entries c))"
proof (induction os su directory me entries c rule: read_entries_into.induct)
  case (3 os su directory me n tree entries c)
  obtain c1 es1 where one: "admit_entry os su directory me n tree c = (c1, es1)" by fastforce
  with 3 [OF one [symmetric]] admit_entry_silent [of os su directory me n tree c] show ?case
    by (simp add: silent_def case_prod_unfold)
qed (simp_all add: silent_def case_prod_unfold)

lemma read_directory_silent: "read_directory os su directory me tree = (c, es) \<Longrightarrow> silent es"
  using read_entries_silent [of os su directory me "node_entries tree" contents_empty]
  by (auto simp: read_directory_def silent_def split: option.splits prod.splits)

lemma tally_each_silent:
  "(\<And>x t. silent (snd (f x t))) \<Longrightarrow> silent (snd (tally_each f xs t))"
proof (induction f xs t rule: tally_each.induct)
  case (2 f x xs t)
  obtain t1 es1 where one: "f x t = (t1, es1)" by fastforce
  with 2(1) [OF one [symmetric]] 2(2) [of x t] 2(2) show ?case by (simp add: silent_def case_prod_unfold)
qed (simp add: silent_def)

lemma own_tally_silent: "silent (snd (own_tally os su directory c))"
proof -
  have "silent (snd (scan_file os su x t))" for x t
    by (auto simp: silent_def scan_file_def Let_def split: prod.splits measure.splits sum.splits)
  moreover have "silent (snd (scan_link os su x t))" for x t
    by (auto simp: silent_def scan_link_def split: prod.splits sum.splits)
  ultimately show ?thesis
    using tally_each_silent [of "scan_file os su"] tally_each_silent [of "scan_link os su"]
    by (auto simp: own_tally_def scan_files_def scan_links_def Let_def silent_def
        split: descent.splits prod.splits) (metis snd_conv)+
qed

lemma seen_silent: "set (paths_of (seen os directory admission m markers)) \<subseteq> {directory}"
  "length (paths_of (seen os directory admission m markers)) \<le> 1"
  by (auto simp: seen_def split: sum.splits)

lemma sight_leave_silent: "su_descent su = Sight r \<Longrightarrow> on_admission here = None \<Longrightarrow>
   silent (scan_leave os su directory depth here t)"
  by (simp add: scan_leave_def silent_def cache_events_def)

lemma read_entries_names:
  assumes "read_entries_into os su directory me entries c = (c', es)"
  shows "\<exists>ns. map fst (cn_directories c') = map fst (cn_directories c) @ map (\<lambda>n. directory @ [n]) ns \<and>
    set ns \<subseteq> set (List.map_filter entry_name entries) \<and>
    (distinct (List.map_filter entry_name entries) \<longrightarrow> distinct ns)"
  using assms
proof (induction os su directory me entries c arbitrary: es rule: read_entries_into.induct)
  case (2 os su directory me e entries c)
  then show ?case by (fastforce simp: map_filter_simps split: prod.splits)
next
  case (3 os su directory me n tree entries c)
  obtain c1 es1 where one: "admit_entry os su directory me n tree c = (c1, es1)" by fastforce
  obtain es2 where "read_entries_into os su directory me entries c1 = (c', es2)"
    using 3(2) one by (auto split: prod.splits)
  from 3(1) [OF one [symmetric] this] obtain ns where ns:
    "map fst (cn_directories c') = map fst (cn_directories c1) @ map (\<lambda>n. directory @ [n]) ns"
    "set ns \<subseteq> set (List.map_filter entry_name entries)"
    "distinct (List.map_filter entry_name entries) \<longrightarrow> distinct ns" by blast
  from admit_entry_directories [OF one] show ?case
  proof
    assume "cn_directories c1 = cn_directories c"
    with ns show ?thesis by (intro exI [of _ ns]) (auto simp: map_filter_simps)
  next
    assume "\<exists>cm. cn_directories c1 = cn_directories c @ [(directory @ [n], cm, tree)]"
    with ns show ?thesis by (intro exI [of _ "n # ns"]) (auto simp: map_filter_simps)
  qed
qed (auto simp: map_filter_simps)

text \<open>What entering a directory gives, in a sighting.\<close>

lemma enter_contents:
  assumes "scan_enter os su directory me depth region tree = (Inr here, es)"
  shows "\<exists>es'. read_entries_into os su directory me (node_entries tree) contents_empty = (on_contents here, es')"
proof -
  from assms obtain c es' where read: "read_directory os su directory me tree = (Some c, es')"
    and c: "on_contents here = c"
    by (auto simp: scan_enter_def scan_opened_def Let_def
        split: sum.splits if_splits prod.splits option.splits descent.splits)
  then show ?thesis by (auto simp: read_directory_def split: option.splits prod.splits)
qed

lemma enter_children:
  assumes "scan_enter os su directory me depth region tree = (Inr here, es)" and "distinct_names tree"
  shows "distinct (map fst (children_of su depth here))"
    and "(path, cm, t) \<in> set (children_of su depth here) \<Longrightarrow>
      \<exists>n. path = directory @ [n] \<and> Entry n t \<in> set (node_entries tree) \<and> distinct_names t"
proof -
  obtain a entries where tree: "tree = Node a entries" by (cases tree)
  obtain es' where read: "read_entries_into os su directory me entries contents_empty = (on_contents here, es')"
    using enter_contents [OF assms(1)] tree by auto
  from read_entries_names [OF this] obtain ns where
    "map fst (cn_directories (on_contents here)) = map (\<lambda>n. directory @ [n]) ns" "distinct ns"
    using assms(2) tree by (auto simp: contents_empty_def)
  then show "distinct (map fst (children_of su depth here))"
    unfolding children_of_def by (intro distinct_map_filter) (simp add: distinct_map inj_on_def)
  assume "(path, cm, t) \<in> set (children_of su depth here)"
  then have "(path, cm, t) \<in> set (cn_directories (on_contents here))" by (simp add: children_of_def)
  from read_entries_directories [OF read this] obtain n where "path = directory @ [n]" "Entry n t \<in> set entries"
    by (auto simp: contents_empty_def)
  with assms(2) tree show "\<exists>n. path = directory @ [n] \<and> Entry n t \<in> set (node_entries tree) \<and> distinct_names t"
    by (fastforce simp: list_all_iff)
qed

definition lone :: "'a \<Rightarrow> 'a list \<Rightarrow> bool" where
  "lone d xs \<longleftrightarrow> xs = [] \<or> xs = [d]"

lemma lone_simps: "lone d []" "lone d [d]"
  by (simp_all add: lone_def)

lemma enter_paths:
  assumes "scan_enter os su directory me depth region tree = (r, es)" and "su_descent su = Sight reach"
  shows "(\<exists>t. r = Inl t \<and> lone directory (paths_of es)) \<or>
    (\<exists>here. r = Inr here \<and> on_admission here = None \<and> paths_of es = [directory] \<and> seen_paths es = [])"
proof -
  have silent: "paths_of es' = []" "seen_paths es' = []"
    if "read_directory os su directory me tree = (c, es')" for c es'
    using read_directory_silent [OF that] silent_seen [OF read_directory_silent [OF that]]
    by (simp_all add: silent_def)
  have sighted: "lone directory (paths_of (sighted os directory a))" for a
    by (auto simp: sighted_def seen_def lone_def split: sum.splits)
  from assms sighted show ?thesis
    by (auto simp: scan_enter_def scan_opened_def Let_def silent lone_simps
        split: sum.splits if_splits prod.splits option.splits)
qed

section \<open>Branches of a walk\<close>

lemma prefix_same_length: "prefix a x \<Longrightarrow> prefix b x \<Longrightarrow> length a = length b \<Longrightarrow> a = b"
  by (auto simp: prefix_def append_eq_append_conv)

lemma branches_apart:
  assumes "distinct (map fst bs)" and "\<forall>(k, xs) \<in> set bs. length k = n \<and> distinct xs \<and> (\<forall>x \<in> set xs. prefix k x)"
  shows "distinct (concat (map snd bs))"
  using assms
proof (induction bs)
  case (Cons b bs)
  obtain k xs where b: "b = (k, xs)" by fastforce
  have "x \<notin> set ys" if x: "x \<in> set xs" and ys: "(j, ys) \<in> set bs" for x j ys
  proof
    assume "x \<in> set ys"
    with Cons.prems(2) ys have "prefix j x" "length j = n" by auto
    moreover have "prefix k x" "length k = n" using Cons.prems(2) x b by auto
    ultimately have "j = k" by (metis prefix_same_length)
    with Cons.prems(1) ys b show False by force
  qed
  with Cons b show ?case by fastforce
qed simp

definition sight_apart :: "os_path \<Rightarrow> scan_event list \<Rightarrow> bool" where
  "sight_apart directory es \<longleftrightarrow>
     (\<forall>p \<in> set (paths_of es). prefix directory p) \<and> distinct (paths_of es) \<and>
     (\<forall>d \<in> set (seen_paths es). \<forall>p \<in> set (paths_of es). \<not> strict_prefix d p)"

lemma lone_apart: "lone directory (paths_of es) \<Longrightarrow> sight_apart directory es"
  using seen_among_paths [of es] by (auto simp: lone_def sight_apart_def)

lemma branches_sight:
  assumes keys: "distinct (map fst bs)" and each: "\<forall>(k, es) \<in> set bs. length k = n \<and> sight_apart k es"
  shows "distinct (concat (map (paths_of \<circ> snd) bs))"
    and "(k, es) \<in> set bs \<Longrightarrow> d \<in> set (seen_paths es) \<Longrightarrow> (j, es') \<in> set bs \<Longrightarrow> p \<in> set (paths_of es') \<Longrightarrow>
      \<not> strict_prefix d p"
proof -
  have "distinct (concat (map snd (map (\<lambda>(k, es). (k, paths_of es)) bs)))"
    using assms by (intro branches_apart [of _ n]) (auto simp: sight_apart_def comp_def case_prod_unfold)
  then show "distinct (concat (map (paths_of \<circ> snd) bs))" by (simp add: comp_def case_prod_unfold)
next
  assume d: "(k, es) \<in> set bs" "d \<in> set (seen_paths es)" and p: "(j, es') \<in> set bs" "p \<in> set (paths_of es')"
  show "\<not> strict_prefix d p"
  proof
    assume below: "strict_prefix d p"
    have apart: "sight_apart k es" "sight_apart j es'" and len: "length k = length j"
      using bspec [OF each d(1)] bspec [OF each p(1)] by simp_all
    have "d \<in> set (paths_of es)" using seen_among_paths d(2) by blast
    with apart p(2) have "prefix k d" "prefix j p" unfolding sight_apart_def by blast+
    note this len
    with below have "k = j" by (metis prefix_order.less_imp_le prefix_order.trans prefix_same_length)
    with keys d(1) p(1) have "es = es'" by (metis eq_key_imp_eq_value)
    with apart d(2) p(2) below show False unfolding sight_apart_def by blast
  qed
qed

lemma walk_sight_apart:
  assumes "su_descent su = Sight reach" and "distinct_names tree"
  shows "sight_apart directory (snd (scan_walk os su directory me depth region tree))"
  using assms
proof (induction os su directory me depth region tree rule: scan_walk.induct)
  case (1 os su directory me depth region tree)
  obtain r es where enter: "scan_enter os su directory me depth region tree = (r, es)" by fastforce
  from enter_paths [OF enter 1(2)] show ?case
  proof (elim disjE exE conjE)
    fix t assume "r = Inl t" "lone directory (paths_of es)"
    with enter show ?thesis by (simp add: scan_walk.simps [of os su directory] lone_apart)
  next
    fix here assume r: "r = Inr here" and none: "on_admission here = None"
      and own: "paths_of es = [directory]" "seen_paths es = []"
    let ?walk = "\<lambda>(path, cm, below). scan_walk os su path cm (sat_add depth 1) (child_region here) below"
    define bs where "bs = map (\<lambda>c. (fst c, snd (?walk c))) (children_of su depth here)"
    note kids = enter_children [OF enter [unfolded r] 1(3)]
    have keys: "distinct (map fst bs)" using kids(1) by (simp add: bs_def comp_def)
    have each: "\<forall>(k, xs) \<in> set bs. length k = Suc (length directory) \<and> sight_apart k xs"
      using kids(2) 1(1) [OF enter [symmetric] r] 1(2) by (fastforce simp: bs_def)
    have below: "\<forall>(k, xs) \<in> set bs. strict_prefix directory k"
      using kids(2) by (fastforce simp: bs_def strict_prefix_def)
    have leave: "silent (scan_leave os su directory depth here t)" for t
      by (rule sight_leave_silent [OF 1(2) none])
    obtain t later where rest: "scan_merged os su directory depth here (map ?walk (children_of su depth here)) = (t, later)"
      by fastforce
    have later: "paths_of later = concat (map (paths_of \<circ> snd) bs)"
      "seen_paths later = concat (map (seen_paths \<circ> snd) bs)"
      using rest leave own_tally_silent [of os su directory "on_contents here"]
      by (auto simp: scan_merged_def Let_def paths_of_concat bs_def comp_def silent_def silent_seen
          split: prod.splits)
    have walk: "snd (scan_walk os su directory me depth region tree) = es @ later"
      using enter r rest by (simp add: scan_walk.simps [of os su directory])
    have deep: "strict_prefix directory p" if "p \<in> set (paths_of later)" for p
    proof -
      from that obtain k xs where k: "(k, xs) \<in> set bs" "p \<in> set (paths_of xs)" by (auto simp: later)
      with each have "prefix k p" by (auto simp: sight_apart_def)
      moreover have "strict_prefix directory k" using below k(1) by blast
      ultimately show ?thesis by (rule prefix_order.less_le_trans [rotated])
    qed
    have "distinct (paths_of later)" unfolding later by (rule branches_sight(1) [OF keys each])
    moreover have "\<not> strict_prefix d p" if "d \<in> set (seen_paths later)" "p \<in> set (directory # paths_of later)" for d p
    proof (cases "p = directory")
      case True
      have "d \<in> set (paths_of later)" using that(1) seen_among_paths by blast
      from deep [OF this] True show ?thesis by (auto dest: prefix_order.less_asym)
    next
      case False
      with that obtain k xs j ys where "(k, xs) \<in> set bs" "d \<in> set (seen_paths xs)"
        "(j, ys) \<in> set bs" "p \<in> set (paths_of ys)" by (auto simp: later)
      then show ?thesis by (rule branches_sight(2) [OF keys each])
    qed
    ultimately show ?thesis
      using deep own unfolding walk sight_apart_def by (auto simp: strict_prefix_def)
  qed
qed

text \<open>A sighting stops at every candidate: no directory it walks and no other candidate
  lies below one, and no directory is visited twice.\<close>

theorem sighting_stops_at_candidates:
  assumes "su_descent su = Sight reach" and "distinct_names tree"
    and "snd (scan_walk os su root me depth region tree) = es"
  shows "distinct (paths_of es) \<and> (\<forall>d \<in> set (seen_paths es). \<forall>p \<in> set (paths_of es). \<not> strict_prefix d p)"
  using walk_sight_apart [OF assms(1,2), of root os me depth region] assms(3)
  by (auto simp: sight_apart_def)

section \<open>Candidates were admitted\<close>

text \<open>What an event says was looked at: a directory that is not excluded, and that the gate admitted.\<close>

definition admitted_at :: "scan_os \<Rightarrow> scan_setup \<Rightarrow> os_path \<Rightarrow> admission \<Rightarrow> bool" where
  "admitted_at os su directory admission \<longleftrightarrow>
     (\<exists>site. locate (sn_host os) directory = Inr (st_location site) \<and>
        st_shape site = shape.Directory \<and> st_protection site = su_protection su \<and>
        st_excludes site = su_excludes su \<and>
        list_tags (st_listing site) = tags_of (sn_observing os) directory
          \<lparr>ent_files = child_files (st_listing site), ent_dirs = child_dirs (st_listing site)\<rparr> \<and>
        admit (su_sha su) (su_fold su) site = Inr admission)"

fun event_admitted :: "scan_os \<Rightarrow> scan_setup \<Rightarrow> scan_event \<Rightarrow> bool" where
  "event_admitted os su (Seen d admission ident m markers) \<longleftrightarrow>
     admitted_at os su d admission \<and> ob_identity (sn_observing os) d = Inr ident"
| "event_admitted os su _ \<longleftrightarrow> True"

lemma silent_admitted: "silent es \<Longrightarrow> list_all (event_admitted os su) es"
proof (induction es)
  case (Cons e es)
  then show ?case by (cases e) (auto simp: silent_def)
qed simp

lemma admission_admitted:
  assumes "scan_admission os su directory me location region c = Some a" and "locate (sn_host os) directory = Inr location"
  shows "admitted_at os su directory a"
proof -
  obtain outside where region: "region = region.Open outside"
    using assms(1) by (auto simp: scan_admission_def split: region.splits)
  have names: "\<lparr>ent_files = ent_files (cn_names c), ent_dirs = ent_dirs (cn_names c)\<rparr> = cn_names c"
    by (cases "cn_names c") simp
  show ?thesis
    using assms region
    by (auto simp: scan_admission_def admitted_at_def listing_new_def names split: sum.splits
        intro!: exI [of _ "\<lparr>st_location = location, st_shape = shape.Directory,
          st_boundary = (case me_device me of Some d \<Rightarrow> Same d | None \<Rightarrow> Unreported),
          st_listing = listing_new outside (cn_names c) (tags_of (sn_observing os) directory (cn_names c)),
          st_protection = su_protection su, st_excludes = su_excludes su\<rparr>"])
qed

lemma seen_admitted:
  "admitted_at os su d a \<Longrightarrow> list_all (event_admitted os su) (seen os d a m markers)"
  by (auto simp: seen_def split: sum.splits)

lemma enter_admitted:
  assumes "scan_enter os su directory me depth region tree = (r, es)"
  shows "list_all (event_admitted os su) es \<and>
    (\<forall>here a. r = Inr here \<longrightarrow> on_admission here = Some a \<longrightarrow> admitted_at os su directory a)"
  using assms silent_admitted [OF read_directory_silent]
  by (auto simp: scan_enter_def scan_opened_def Let_def sighted_def
      split: sum.splits if_splits prod.splits option.splits descent.splits
      intro!: seen_admitted dest!: admission_admitted)

lemma leave_admitted:
  assumes "\<forall>a. on_admission here = Some a \<longrightarrow> admitted_at os su directory a"
  shows "list_all (event_admitted os su) (scan_leave os su directory depth here t)"
  using assms
  by (auto simp: scan_leave_def cache_events_def scan_record_def split: option.splits descent.splits
      intro: seen_admitted)

lemma walk_admitted: "list_all (event_admitted os su) (snd (scan_walk os su directory me depth region tree))"
proof (induction os su directory me depth region tree rule: scan_walk.induct)
  case (1 os su directory me depth region tree)
  obtain r es where enter: "scan_enter os su directory me depth region tree = (r, es)" by fastforce
  show ?case
  proof (cases r)
    case (Inl t)
    with enter enter_admitted [OF enter] show ?thesis by (simp add: scan_walk.simps [of os su directory])
  next
    case (Inr here)
    have each: "list_all (event_admitted os su) (snd (scan_walk os su path cm (sat_add depth 1) (child_region here) below))"
      if "(path, cm, below) \<in> set (children_of su depth here)" for path cm below
      using 1 [OF enter [symmetric] Inr that refl refl] .
    have own: "list_all (event_admitted os su) (snd (own_tally os su directory (on_contents here)))"
      by (rule silent_admitted [OF own_tally_silent])
    have leave: "list_all (event_admitted os su) (scan_leave os su directory depth here t)" for t
      using enter_admitted [OF enter] Inr by (intro leave_admitted) simp
    from enter enter_admitted [OF enter] Inr each own leave show ?thesis
      by (auto simp: scan_walk.simps [of os su directory] scan_merged_def Let_def list_all_iff split: prod.splits)
  qed
qed

lemma roots_events_admitted:
  "roots_from os su paths roots = (roots', es) \<Longrightarrow> list_all (event_admitted os su) es"
proof (induction os su paths roots arbitrary: es rule: roots_from.induct)
  case (2 os su root rest roots)
  then show ?case by (cases "accepted os root") (auto split: prod.splits)
qed simp

lemma volumes_events_admitted:
  "volumes_from os m entries state = (state', es) \<Longrightarrow> list_all (event_admitted os su) es"
proof (induction os m entries state arbitrary: es rule: volumes_from.induct)
  case (2 os m path location t rest acc vs)
  then show ?case by (cases "volume_sample os path") (auto split: prod.splits)
qed simp

lemma root_events_admitted: "list_all (event_admitted os su) (snd (scan_root os su path))"
  using walk_admitted by (auto simp: scan_root_def split: sum.splits)

lemma scan_events_admitted: "list_all (event_admitted os su) (scan_events os su)"
proof -
  obtain roots es where roots: "scan_roots os su = (roots, es)" by fastforce
  let ?walks = "map (\<lambda>(path, location). (path, location, scan_root os su path)) roots"
  obtain state ves where volumes: "volumes_from os (su_measure su) (map (\<lambda>(p, l, t, _). (p, l, t)) ?walks)
      (tally_empty (su_measure su), []) = (state, ves)" by fastforce
  have "list_all (event_admitted os su) (concat (map (\<lambda>(p, l, t, wes). wes) ?walks))"
    using root_events_admitted [of os su] by (induction roots) (auto simp: case_prod_unfold)
  moreover have "scan_events os su = es @ concat (map (\<lambda>(p, l, t, wes). wes) ?walks) @ ves"
    using roots volumes by (simp add: scan_events_def Let_def)
  ultimately show ?thesis
    using roots_events_admitted [OF roots [unfolded scan_roots_def]] volumes_events_admitted [OF volumes]
    by simp
qed

lemma retain_first_set: "set (retain_first key taken xs) \<subseteq> set xs"
  by (induction xs arbitrary: taken) auto

lemma retain_first_keys:
  "distinct (map key (retain_first key taken xs)) \<and> key ` set (retain_first key taken xs) \<inter> taken = {}"
  by (induction xs arbitrary: taken) auto

lemma retain_first_covers: "x \<in> set xs \<Longrightarrow> key x \<in> taken \<or> key x \<in> key ` set (retain_first key taken xs)"
  by (induction xs arbitrary: taken) auto

lemma retain_first_sorted: "sorted (map f xs) \<Longrightarrow> sorted (map f (retain_first key taken xs))"
  by (induction xs arbitrary: taken) (auto dest: subsetD [OF retain_first_set])

definition found_key :: "scan_setup \<Rightarrow> found \<Rightarrow> bytes" where
  "found_key su f = loc_key (su_fold su) (cd_location (fd_candidate f)) (prot_case (su_protection su))"

lemma listed_candidates_facts:
  "set (listed_candidates su fs) \<subseteq> set fs"
  "distinct (map (found_key su) (listed_candidates su fs))"
  "sorted (map candidate_rank (listed_candidates su fs))"
  "found_key su ` set (listed_candidates su fs) = found_key su ` set fs"
proof -
  have eq: "listed_candidates su fs = retain_first (found_key su) {} (sort_key candidate_rank fs)"
    by (simp add: listed_candidates_def found_key_def [abs_def])
  show sub: "set (listed_candidates su fs) \<subseteq> set fs"
    using retain_first_set [of "found_key su" "{}" "sort_key candidate_rank fs"] by (simp add: eq)
  show "distinct (map (found_key su) (listed_candidates su fs))"
    using retain_first_keys [of "found_key su" "{}" "sort_key candidate_rank fs"] by (simp add: eq)
  show "sorted (map candidate_rank (listed_candidates su fs))"
    unfolding eq by (rule retain_first_sorted) simp
  show "found_key su ` set (listed_candidates su fs) = found_key su ` set fs"
    using sub retain_first_covers [of _ "sort_key candidate_rank fs" "found_key su" "{}"]
    by (auto simp: eq)
qed

text \<open>A report lists no more directories than asked for; its candidates come by size, no
  key twice, and every key that was found is listed; and it never reports fewer failures than errors.\<close>

theorem report_bounded_and_ordered:
  "case scan_collect os su own of (report, c) \<Rightarrow>
     length (sr_largest_directories report) \<le> unat (op_top (su_options su)) \<and>
     sorted (map candidate_rank (sr_candidates report)) \<and>
     distinct (map (found_key su) (sr_candidates report)) \<and>
     found_key su ` set (sr_candidates report) = found_key su ` set (co_candidates c) \<and>
     co_errors c \<le> us_failures (sr_usage report)"
  using listed_candidates_facts
  by (auto simp: scan_collect_def scan_collected_def scan_report_of_def listed_directories_def Let_def
      split: prod.splits)


section \<open>A scan measures what a deletion will measure\<close>

fun tree_directories :: "os_path \<Rightarrow> os_tree \<Rightarrow> os_path list"
  and entry_directories :: "os_path \<Rightarrow> os_entry \<Rightarrow> os_path list" where
  "tree_directories directory (Node a entries) =
     directory # concat (map (entry_directories directory) entries)"
| "entry_directories directory (os_entry.Unreadable e) = []"
| "entry_directories directory (Entry n (Node a below)) =
     (case na_inspect a of
        Inl e \<Rightarrow> []
      | Inr me \<Rightarrow>
          if me_shape me = shape.Directory then tree_directories (directory @ [n]) (Node a below) else [])"

definition open_location :: "scan_os \<Rightarrow> scan_setup \<Rightarrow> os_path \<Rightarrow> bool" where
  "open_location os su directory \<longleftrightarrow>
     (case locate (sn_host os) directory of Inr l \<Rightarrow> \<not> excluded su l | Inl _ \<Rightarrow> False)"

definition counts :: "scan_os \<Rightarrow> scan_setup \<Rightarrow> (link_key \<Rightarrow> u64 \<times> u32) \<Rightarrow> tally \<Rightarrow> leaf list \<Rightarrow> bool" where
  "counts os su M t ls \<longleftrightarrow> accounts (sn_host os) (su_sha su) M (t\<lparr>ta_markers := []\<rparr>) ls"

lemma accounts_counts: "accounts (sn_host os) (su_sha su) M t ls \<Longrightarrow> counts os su M t ls"
  by (cases t) (simp add: accounts_def counts_def)

lemma tally_missing_zero: "tally_missing 0 t = t"
  using unat_u64_less [of "ta_failures t"] by (cases t) (simp add: tally_missing_def saturating_add_def)

lemma unmarked_usage: "tally_usage (t\<lparr>ta_markers := ms\<rparr>) = tally_usage t"
proof -
  have "ta_logical (t\<lparr>ta_markers := ms\<rparr>) = ta_logical t" "ta_unlinked (t\<lparr>ta_markers := ms\<rparr>) = ta_unlinked t"
    "ta_allocation (t\<lparr>ta_markers := ms\<rparr>) = ta_allocation t" "ta_linked (t\<lparr>ta_markers := ms\<rparr>) = ta_linked t"
    "ta_failures (t\<lparr>ta_markers := ms\<rparr>) = ta_failures t" by simp_all
  note same = this
  show ?thesis unfolding tally_usage_def same by (rule refl)
qed

lemma counts_measurement:
  assumes "counts os su M t ls" and "accounts (sn_host os) (su_sha su) M u ls'" and "mset ls = mset ls'"
  shows "tally_measurement t = tally_measurement u"
  using accounts_unique [OF assms(1) [unfolded counts_def] assms(2,3)] unmarked_usage
  by (auto simp: tally_measurement_def)

lemma counts_empty: "su_measure su = Allocated \<Longrightarrow> counts os su M (tally_empty (su_measure su)) []"
  using accounts_empty [of "sn_host os" "su_sha su" M] by (simp add: counts_def tally_empty_def)

lemma merge_unmarked:
  "(tally_merge t u)\<lparr>ta_markers := []\<rparr> = tally_merge (t\<lparr>ta_markers := []\<rparr>) (u\<lparr>ta_markers := []\<rparr>)"
  by (simp add: tally_merge_def)

lemma counts_merge:
  "counts os su M t ls \<Longrightarrow> counts os su M u ls' \<Longrightarrow> counts os su M (tally_merge t u) (ls @ ls')"
  unfolding counts_def merge_unmarked by (rule accounts_merge)

lemma counts_merge_all:
  assumes "counts os su M t ls" and "list_all2 (counts os su M) ts lss"
  shows "counts os su M (foldl tally_merge t ts) (ls @ concat lss)"
  using assms(2,1)
proof (induction ts lss arbitrary: t ls rule: list_all2_induct)
  case (Cons u ts ls' lss)
  then show ?case using Cons.IH [of "tally_merge t u" "ls @ ls'"] by (simp add: counts_merge)
qed simp

lemma accounts_leaves:
  assumes "accounts h sha M t ls" and "determined M (ls @ ls')"
  shows "accounts h sha M (foldl (\<lambda>t l. count_leaf h sha l t) t ls') (ls @ ls')"
  using assms
proof (induction ls' arbitrary: t ls)
  case (Cons l ls')
  have "accounts h sha M (count_leaf h sha l t) (ls @ [l])"
    using Cons.prems determined_append [of M "ls @ [l]" ls'] by (intro accounts_leaf) simp_all
  with Cons.IH [OF this] Cons.prems(2) show ?case by (simp del: count_leaf.simps)
qed simp

section \<open>Entries a strict walk gets past\<close>

definition passable :: "scan_os \<Rightarrow> scan_setup \<Rightarrow> tree_contents \<Rightarrow> os_path \<Rightarrow> os_path \<Rightarrow> metadata \<Rightarrow> os_entry \<Rightarrow> bool" where
  "passable os su policy root directory me e \<longleftrightarrow>
     (\<exists>acc t. walk_entry (sn_host os) (su_sha su) policy root directory me acc e = Inr t)"

lemma walk_entries_passable:
  "walk_entries (sn_host os) (su_sha su) policy root directory me acc entries = Inr t \<Longrightarrow>
   list_all (passable os su policy root directory me) entries"
  by (induction entries arbitrary: acc) (auto simp: result_simps passable_def)

fun of_shape :: "shape \<Rightarrow> os_path \<Rightarrow> os_entry \<Rightarrow> (os_path \<times> metadata \<times> os_tree) list" where
  "of_shape s directory (os_entry.Unreadable e) = []"
| "of_shape s directory (Entry n tree) =
     (case na_inspect (node_answers tree) of
        Inl e \<Rightarrow> []
      | Inr cm \<Rightarrow> if me_shape cm = s then [(directory @ [n], cm, tree)] else [])"

definition shaped :: "shape \<Rightarrow> os_path \<Rightarrow> os_entry list \<Rightarrow> (os_path \<times> metadata \<times> os_tree) list" where
  "shaped s directory entries = concat (map (of_shape s directory) entries)"

definition answered :: "os_path \<times> metadata \<times> os_tree \<Rightarrow> os_path \<times> metadata \<times> node_answers" where
  "answered entry = (case entry of (path, cm, tree) \<Rightarrow> (path, cm, node_answers tree))"

lemma passable_cases:
  assumes "passable os su policy root directory me e"
  obtains n tree cm where "e = Entry n tree" "na_inspect (node_answers tree) = Inr cm"
    "me_shape cm = shape.Directory \<longrightarrow> crossing me cm = None \<and>
      (\<exists>u. walk (sn_host os) (su_sha su) policy root (directory @ [n]) cm tree = Inr u)"
    "me_shape cm = shape.File \<longrightarrow> (\<exists>m. na_measure (node_answers tree) = Inr m)"
    "me_shape cm = shape.Link \<longrightarrow> (\<exists>m x. na_measure (node_answers tree) = Inr m \<and> na_read_link (node_answers tree) = Inr x)"
proof -
  obtain acc t where walked: "walk_entry (sn_host os) (su_sha su) policy root directory me acc e = Inr t"
    using assms by (auto simp: passable_def)
  then obtain n a below where e: "e = Entry n (Node a below)"
    by (cases e) (auto, metis os_tree.exhaust)
  from walked e obtain cm where cm: "na_inspect a = Inr cm" by (auto simp: Let_def result_simps)
  have "me_shape cm = shape.Directory \<longrightarrow> crossing me cm = None \<and>
      (\<exists>u. walk (sn_host os) (su_sha su) policy root (directory @ [n]) cm (Node a below) = Inr u)"
    using walked e cm
    by (auto simp del: walk.simps simp: Let_def result_simps split: if_splits option.splits)
  moreover have "me_shape cm = shape.File \<longrightarrow> (\<exists>m. na_measure a = Inr m)"
    using walked e cm by (auto simp del: walk.simps simp: Let_def result_simps split: if_splits)
  moreover have "me_shape cm = shape.Link \<longrightarrow> (\<exists>m x. na_measure a = Inr m \<and> na_read_link a = Inr x)"
    using walked e cm by (auto simp del: walk.simps simp: Let_def tally_link_def result_simps split: if_splits)
  ultimately show thesis using that e cm by simp
qed

lemma read_passable:
  assumes "su_descent su = Measure" and "list_all (passable os su policy root directory me) entries"
    and "read_entries_into os su directory me entries c = (c', es)"
  shows "cn_files c' = cn_files c @ map answered (shaped shape.File directory entries)"
    and "cn_links c' = cn_links c @ map answered (shaped shape.Link directory entries)"
    and "cn_directories c' = cn_directories c @ shaped shape.Directory directory entries"
    and "cn_failures c' = cn_failures c"
proof -
  have "cn_files c' = cn_files c @ map answered (shaped shape.File directory entries) \<and>
    cn_links c' = cn_links c @ map answered (shaped shape.Link directory entries) \<and>
    cn_directories c' = cn_directories c @ shaped shape.Directory directory entries \<and>
    cn_failures c' = cn_failures c"
    using assms
  proof (induction entries arbitrary: c es)
    case Nil
    then show ?case by (simp add: shaped_def)
  next
    case (Cons e entries)
    from Cons.prems(2) have "passable os su policy root directory me e" by simp
    then obtain n tree cm where e: "e = Entry n tree" "na_inspect (node_answers tree) = Inr cm"
      "me_shape cm = shape.Directory \<longrightarrow> crossing me cm = None" by (elim passable_cases) blast
    obtain c1 es1 where one: "admit_entry os su directory me n tree c = (c1, es1)" by fastforce
    obtain es2 where two: "read_entries_into os su directory me entries c1 = (c', es2)"
      using Cons.prems(3) e one by (auto split: prod.splits)
    have "cn_files c1 = cn_files c @ map answered (of_shape shape.File directory e) \<and>
      cn_links c1 = cn_links c @ map answered (of_shape shape.Link directory e) \<and>
      cn_directories c1 = cn_directories c @ of_shape shape.Directory directory e \<and>
      cn_failures c1 = cn_failures c"
      using one e Cons.prems(1)
      by (auto simp: admit_entry_def admit_inspected_def answered_def Let_def split: shape.splits)
    with Cons.IH [OF Cons.prems(1) _ two] Cons.prems(2) show ?case by (simp add: shaped_def)
  qed
  then show "cn_files c' = cn_files c @ map answered (shaped shape.File directory entries)"
    "cn_links c' = cn_links c @ map answered (shaped shape.Link directory entries)"
    "cn_directories c' = cn_directories c @ shaped shape.Directory directory entries"
    "cn_failures c' = cn_failures c" by blast+
qed

definition own_leaves :: "(os_path \<times> metadata \<times> os_tree) list \<Rightarrow> leaf list" where
  "own_leaves xs = concat (map (\<lambda>(path, cm, tree). leaf_of path cm (node_answers tree)) xs)"

definition below_leaves :: "(os_path \<times> metadata \<times> os_tree) list \<Rightarrow> leaf list" where
  "below_leaves xs = concat (map (\<lambda>(path, cm, tree). leaves path tree) xs)"

lemma leaves_shaped:
  "mset (concat (map (entry_leaves directory) entries)) =
     mset (own_leaves (shaped shape.File directory entries)) + mset (own_leaves (shaped shape.Link directory entries)) +
     mset (below_leaves (shaped shape.Directory directory entries))"
proof (induction entries)
  case Nil
  show ?case by (simp add: shaped_def own_leaves_def below_leaves_def)
next
  case (Cons e entries)
  have "mset (entry_leaves directory e) = mset (own_leaves (of_shape shape.File directory e)) +
      mset (own_leaves (of_shape shape.Link directory e)) + mset (below_leaves (of_shape shape.Directory directory e))"
  proof (cases e)
    case (Entry n tree)
    obtain a below where "tree = Node a below" by (cases tree)
    with Entry show ?thesis
      by (cases "na_inspect a")
        (auto simp: own_leaves_def below_leaves_def leaf_of_def simp del: leaves.simps
          split: shape.splits sum.splits)
  qed (simp add: own_leaves_def below_leaves_def)
  with Cons show ?case by (simp add: shaped_def own_leaves_def below_leaves_def)
qed

lemma tally_each_counts:
  assumes "\<forall>x \<in> set xs. \<forall>t. f x t = (foldl (\<lambda>t l. count_leaf h sha l t) t (g x), [])"
  shows "tally_each f xs t = (foldl (\<lambda>t l. count_leaf h sha l t) t (concat (map g xs)), [])"
  using assms by (induction xs arbitrary: t) auto

lemma tally_each_map: "tally_each f (map g xs) t = tally_each (\<lambda>x. f (g x)) xs t"
  by (induction xs arbitrary: t) (simp_all add: case_prod_unfold)

lemma shaped_member:
  "(path, cm, tree) \<in> set (shaped s directory entries) \<longleftrightarrow>
   me_shape cm = s \<and> na_inspect (node_answers tree) = Inr cm \<and>
   (\<exists>n. path = directory @ [n] \<and> Entry n tree \<in> set entries)"
proof (induction entries)
  case (Cons e entries)
  have "(path, cm, tree) \<in> set (of_shape s directory e) \<longleftrightarrow>
    me_shape cm = s \<and> na_inspect (node_answers tree) = Inr cm \<and> (\<exists>n. path = directory @ [n] \<and> e = Entry n tree)"
    by (cases e) (auto split: sum.splits)
  with Cons show ?case by (auto simp: shaped_def)
qed (simp add: shaped_def)

lemma shaped_passable:
  assumes "list_all (passable os su policy root directory me) entries"
    and "(path, cm, tree) \<in> set (shaped s directory entries)"
  shows "s = shape.File \<Longrightarrow> \<exists>m. na_measure (node_answers tree) = Inr m"
    and "s = shape.Link \<Longrightarrow> \<exists>m x. na_measure (node_answers tree) = Inr m \<and> na_read_link (node_answers tree) = Inr x"
    and "s = shape.Directory \<Longrightarrow> \<exists>u. walk (sn_host os) (su_sha su) policy root path cm tree = Inr u"
proof -
  from assms(2) obtain n where e: "path = directory @ [n]" "Entry n tree \<in> set entries" "me_shape cm = s"
    "na_inspect (node_answers tree) = Inr cm" by (auto simp: shaped_member)
  with assms(1) have "passable os su policy root directory me (Entry n tree)" by (simp add: list_all_iff)
  then have "(s = shape.File \<longrightarrow> (\<exists>m. na_measure (node_answers tree) = Inr m)) \<and>
    (s = shape.Link \<longrightarrow> (\<exists>m x. na_measure (node_answers tree) = Inr m \<and> na_read_link (node_answers tree) = Inr x)) \<and>
    (s = shape.Directory \<longrightarrow> (\<exists>u. walk (sn_host os) (su_sha su) policy root path cm tree = Inr u))"
    by (rule passable_cases) (use e in \<open>auto simp del: walk.simps\<close>)
  then show "s = shape.File \<Longrightarrow> \<exists>m. na_measure (node_answers tree) = Inr m"
    "s = shape.Link \<Longrightarrow> \<exists>m x. na_measure (node_answers tree) = Inr m \<and> na_read_link (node_answers tree) = Inr x"
    "s = shape.Directory \<Longrightarrow> \<exists>u. walk (sn_host os) (su_sha su) policy root path cm tree = Inr u"
    by blast+
qed

lemma allocated_file:
  "tally_file sha path len ident (tally_allocated m t) = tally_allocated m (tally_file sha path len ident t)"
  by (cases t) (simp add: tally_file_def tally_allocated_def)

lemma scan_file_count:
  assumes "su_measure su = Allocated" and "me_shape cm = shape.File" and "na_measure a = Inr m"
  shows "scan_file os su (path, cm, a) t =
    (foldl (\<lambda>t l. count_leaf (sn_host os) (su_sha su) l t) t (leaf_of path cm a), [])"
proof -
  have "scan_file os su (path, cm, a) t =
      (tally_allocated m (tally_file (su_sha su) (oh_spell (sn_host os) path) (me_len cm) (Some (fm_identity m)) t), [])"
    using assms by (simp add: scan_file_def allocated_file)
  with assms show ?thesis by (simp add: leaf_of_def tally_file_def)
qed

lemma scan_link_count:
  assumes "me_shape cm = shape.Link" and "na_measure a = Inr m" and "na_read_link a = Inr x"
  shows "scan_link os su (path, cm, a) t =
    (foldl (\<lambda>t l. count_leaf (sn_host os) (su_sha su) l t) t (leaf_of path cm a), [])"
  using assms by (simp add: scan_link_def tally_link_def os_result_def leaf_of_def)

lemma scan_files_counts:
  assumes "su_measure su = Allocated" and "list_all (passable os su policy root directory me) entries"
    and "determined M (own_leaves (shaped shape.File directory entries))"
  shows "counts os su M (fst (scan_files os su (map answered (shaped shape.File directory entries))))
    (own_leaves (shaped shape.File directory entries))"
proof -
  let ?files = "shaped shape.File directory entries"
  have "tally_each (scan_file os su) (map answered ?files) t =
      (foldl (\<lambda>t l. count_leaf (sn_host os) (su_sha su) l t) t (own_leaves ?files), [])" for t
  proof -
    have "scan_file os su (answered x) t = (foldl (\<lambda>t l. count_leaf (sn_host os) (su_sha su) l t) t
        ((\<lambda>(path, cm, tree). leaf_of path cm (node_answers tree)) x), [])" if "x \<in> set ?files" for x t
    proof -
      obtain path cm tree where x: "x = (path, cm, tree)" by (cases x)
      from that shaped_passable(1) [OF assms(2) that [unfolded x]] obtain m
        where "me_shape cm = shape.File" "na_measure (node_answers tree) = Inr m"
        unfolding x by (auto simp: shaped_member)
      from scan_file_count [OF assms(1) this] x show ?thesis by (simp add: answered_def)
    qed
    then show ?thesis
      unfolding tally_each_map own_leaves_def by (intro tally_each_counts) blast
  qed
  then show ?thesis
    using accounts_leaves [OF accounts_empty, of M "own_leaves ?files"] assms(1,3)
    by (simp add: scan_files_def accounts_counts del: count_leaf.simps)
qed

lemma scan_links_counts:
  assumes "su_measure su = Allocated" and "list_all (passable os su policy root directory me) entries"
    and "determined M (own_leaves (shaped shape.Link directory entries))"
  shows "counts os su M (fst (scan_links os su (map answered (shaped shape.Link directory entries))))
    (own_leaves (shaped shape.Link directory entries))"
proof -
  let ?links = "shaped shape.Link directory entries"
  have "tally_each (scan_link os su) (map answered ?links) t =
      (foldl (\<lambda>t l. count_leaf (sn_host os) (su_sha su) l t) t (own_leaves ?links), [])" for t
  proof -
    have "scan_link os su (answered x) t = (foldl (\<lambda>t l. count_leaf (sn_host os) (su_sha su) l t) t
        ((\<lambda>(path, cm, tree). leaf_of path cm (node_answers tree)) x), [])" if "x \<in> set ?links" for x t
    proof -
      obtain path cm tree where x: "x = (path, cm, tree)" by (cases x)
      from that shaped_passable(2) [OF assms(2) that [unfolded x]] obtain m target
        where "me_shape cm = shape.Link" "na_measure (node_answers tree) = Inr m"
          "na_read_link (node_answers tree) = Inr target"
        unfolding x by (auto simp: shaped_member)
      from scan_link_count [OF this] x show ?thesis by (simp add: answered_def)
    qed
    then show ?thesis
      unfolding tally_each_map own_leaves_def by (intro tally_each_counts) blast
  qed
  then show ?thesis
    using accounts_leaves [OF accounts_empty, of M "own_leaves ?links"] assms(1,3)
    by (simp add: scan_links_def accounts_counts del: count_leaf.simps)
qed

lemma own_tally_counts:
  assumes "su_descent su = Measure" and "su_measure su = Allocated"
    and "counts os su M (fst (scan_files os su (cn_files c))) ls"
    and "counts os su M (fst (scan_links os su (cn_links c))) ls'" and "cn_failures c = 0"
  shows "counts os su M (fst (own_tally os su directory c)) (ls @ ls')"
proof -
  have "counts os su M (tally_missing 0 (tally_merge (fst (scan_files os su (cn_files c)))
      (fst (scan_links os su (cn_links c))))) (ls @ ls')"
    using counts_merge [OF assms(3,4)] by (simp add: tally_missing_zero)
  with assms(1,5) show ?thesis
    by (auto simp: own_tally_def counts_def tally_marker_def Let_def split: prod.splits)
qed

lemma enter_measure:
  assumes "su_descent su = Measure" and "open_location os su directory"
    and "na_read_dir (node_answers tree) = None"
    and "list_all (passable os su policy root directory me) (node_entries tree)"
  obtains here es where "scan_enter os su directory me depth region tree = (Inr here, es)"
    "cn_files (on_contents here) = map answered (shaped shape.File directory (node_entries tree))"
    "cn_links (on_contents here) = map answered (shaped shape.Link directory (node_entries tree))"
    "cn_directories (on_contents here) = shaped shape.Directory directory (node_entries tree)"
    "cn_failures (on_contents here) = 0"
proof -
  obtain c es where read: "read_entries_into os su directory me (node_entries tree) contents_empty = (c, es)"
    by fastforce
  note c = read_passable [OF assms(1,4) read]
  obtain l where "locate (sn_host os) directory = Inr l" "\<not> excluded su l"
    using assms(2) by (auto simp: open_location_def split: sum.splits)
  with assms(1,3) read show thesis
    by (intro that) (auto simp: c contents_empty_def scan_enter_def git_directory_def read_directory_def
        scan_opened_def Let_def)
qed

lemma children_measure: "su_only su = None \<Longrightarrow> children_of su depth here = cn_directories (on_contents here)"
  by (simp add: children_of_def walked_child_def)

lemma shaped_directories:
  "set (concat (map (entry_directories directory) entries)) =
     (\<Union>(path, cm, tree) \<in> set (shaped shape.Directory directory entries). set (tree_directories path tree))"
proof (induction entries)
  case (Cons e entries)
  have "set (entry_directories directory e) =
      (\<Union>(path, cm, tree) \<in> set (of_shape shape.Directory directory e). set (tree_directories path tree))"
  proof (cases e)
    case (Entry n tree)
    obtain a below where "tree = Node a below" by (cases tree)
    with Entry show ?thesis by (cases "na_inspect a") (auto simp del: tree_directories.simps)
  qed simp
  with Cons show ?case by (simp add: shaped_def)
qed (simp add: shaped_def)

lemma walk_counts:
  assumes "su_descent su = Measure" and "su_measure su = Allocated" and "su_only su = None"
    and "walk (sn_host os) (su_sha su) policy root directory me tree = Inr t"
    and "list_all (open_location os su) (tree_directories directory tree)"
    and "determined M (leaves directory tree)"
  shows "\<exists>ls. counts os su M (fst (scan_walk os su directory me depth region tree)) ls \<and>
    mset ls = mset (leaves directory tree)"
  using assms
proof (induction os su directory me depth region tree arbitrary: t rule: scan_walk.induct)
  case (1 os su directory me depth region tree)
  obtain a entries where tree: "tree = Node a entries" by (cases tree)
  let ?files = "shaped shape.File directory entries" and ?links = "shaped shape.Link directory entries"
    and ?dirs = "shaped shape.Directory directory entries"
  have readable: "na_read_dir a = None"
    and passable: "list_all (passable os su policy root directory me) entries"
    using 1(5) tree by (auto simp: result_simps split: shape.splits option.splits
        intro: walk_entries_passable)
  have here_open: "open_location os su directory" using 1(6) tree by simp
  obtain here es where enter: "scan_enter os su directory me depth region tree = (Inr here, es)"
    and c: "cn_files (on_contents here) = map answered ?files" "cn_links (on_contents here) = map answered ?links"
      "cn_directories (on_contents here) = ?dirs" "cn_failures (on_contents here) = 0"
    using enter_measure [OF 1(2) here_open, of tree policy root me depth region] readable passable tree by auto
  note kids = children_measure [OF 1(4), of depth here, unfolded c]
  have split: "mset (leaves directory tree) =
      mset (own_leaves ?files) + mset (own_leaves ?links) + mset (below_leaves ?dirs)"
    using leaves_shaped [of directory entries] tree by simp
  have leaf_sets: "set (own_leaves ?files) \<union> set (own_leaves ?links) \<union> set (below_leaves ?dirs) =
      set (leaves directory tree)"
    unfolding set_mset_mset [symmetric] split by simp
  have det: "determined M (own_leaves ?files)" "determined M (own_leaves ?links)" "determined M (below_leaves ?dirs)"
    using 1(7) leaf_sets by (auto simp: determined_def list_all_iff)
  let ?walk = "\<lambda>(path, cm, below). scan_walk os su path cm (sat_add depth 1) (child_region here) below"
  have "\<exists>ls. counts os su M (fst (?walk x)) ls \<and> mset ls = mset ((\<lambda>(path, cm, tree). leaves path tree) x)"
    if x: "x \<in> set ?dirs" for x
  proof -
    obtain path cm below where xs: "x = (path, cm, below)" by (cases x)
    obtain u where u: "walk (sn_host os) (su_sha su) policy root path cm below = Inr u"
      using shaped_passable(3) [OF passable x [unfolded xs] refl] by blast
    have opens: "list_all (open_location os su) (tree_directories path below)"
      using 1(6) shaped_directories [of directory entries] x xs tree by (fastforce simp: list_all_iff)
    have "determined M (leaves path below)"
      using det(3) x xs by (fastforce simp: determined_def list_all_iff below_leaves_def)
    from 1(1) [OF enter [symmetric] refl x [folded kids, unfolded xs] refl refl 1(2,3,4) u opens this]
    show ?thesis by (simp add: xs)
  qed
  then obtain g where g: "\<forall>x \<in> set ?dirs. counts os su M (fst (?walk x)) (g x) \<and>
      mset (g x) = mset ((\<lambda>(path, cm, tree). leaves path tree) x)" by metis
  have below: "list_all2 (counts os su M) (map fst (map ?walk ?dirs)) (map g ?dirs)"
    using g by (simp add: list_all2_map1 list_all2_map2 list_all2_same)
  have below_set: "mset (concat (map g ?dirs)) = mset (below_leaves ?dirs)"
    using g unfolding below_leaves_def mset_concat map_map by (simp cong: map_cong)
  obtain own es' where own: "own_tally os su directory (on_contents here) = (own, es')" by fastforce
  have "counts os su M own (own_leaves ?files @ own_leaves ?links)"
    using own_tally_counts [OF 1(2,3), of os M "on_contents here"] scan_files_counts [OF 1(3) passable det(1)]
      scan_links_counts [OF 1(3) passable det(2)] own c by (metis fst_conv)
  from counts_merge [OF this counts_merge_all [OF counts_empty [OF 1(3)] below]]
  have "counts os su M (fst (scan_walk os su directory me depth region tree))
      ((own_leaves ?files @ own_leaves ?links) @ concat (map g ?dirs))"
    using enter kids own by (simp add: scan_walk.simps [of os su directory] scan_merged_def Let_def)
  moreover have "mset ((own_leaves ?files @ own_leaves ?links) @ concat (map g ?dirs)) = mset (leaves directory tree)"
    unfolding split mset_append below_set ..
  ultimately show ?case by blast
qed

text \<open>Property C12. What a scan that measures blocks says of a directory, its bytes and its contents, is
  exactly what the strict measurement before a deletion says of it: whenever that one succeeds, and
  nothing in the directory is excluded, the candidate's identifier is the one the deletion checks.\<close>

theorem scan_measures_what_is_removed:
  assumes "strictly (sn_host os) (su_sha su) root tree k = Inr m"
    and "na_inspect (node_answers tree) = Inr me" and "determined M (leaves root tree)"
    and "su_descent su = Measure" and "su_measure su = Allocated" and "su_only su = None"
    and "list_all (open_location os su) (tree_directories root tree)"
  shows "tally_measurement (fst (scan_walk os su root me depth region tree)) = m"
proof -
  from assms(1,2) obtain t where
    t: "walk (sn_host os) (su_sha su) (kind_contents k) root root me tree = Inr t" and m: "m = tally_measurement t"
    by (auto simp: strictly_def walk_root_def result_simps)
  from walk_counts [OF assms(4,5,6) t assms(7,3), of depth region] obtain ls where
    "counts os su M (fst (scan_walk os su root me depth region tree)) ls" "mset ls = mset (leaves root tree)"
    by blast
  with counts_measurement [OF this(1) walk_accounts(1) [OF t assms(3)]] m show ?thesis by simp
qed

end
