(* ===== verification/Applying_Facts.thy ===== *)
theory Applying_Facts
  imports Applying
begin

text \<open>
  What applying a plan guarantees: a tree goes only under its lease and only when both judgements
  passed on what was found there, only that tree goes, a dry run changes nothing and predicts the
  execution, no lease outlives its candidate, and a plan is exactly the choice that was asked for.
\<close>

section \<open>The world between two steps\<close>

lemma meanwhile_own [simp]: "wd_own (meanwhile mc w) = wd_own w"
  by (simp add: meanwhile_def split: prod.splits)

lemma observing_host [simp]: "ob_host (observing mc w) = mc_host mc"
  by (simp add: ob_host_def observing_def owning_def)

lemma owning_selectors [simp]: "ow_host (owning mc w) = mc_host mc" "ow_locked (owning mc w) = locked_files w"
  by (simp_all add: owning_def)

definition drifts :: "'d machine \<Rightarrow> 'd world \<Rightarrow> 'd world \<Rightarrow> bool" where
  "drifts mc w w' \<longleftrightarrow> (\<exists>n. w' = (meanwhile mc ^^ n) w)"

lemma drifts_refl: "drifts mc w w"
  unfolding drifts_def by (rule exI [of _ 0]) simp

lemma drifts_trans: "drifts mc w w' \<Longrightarrow> drifts mc w' w'' \<Longrightarrow> drifts mc w w''"
  unfolding drifts_def by (metis funpow_add comp_apply)

lemma drifts_meanwhile: "drifts mc (meanwhile mc w) w' \<Longrightarrow> drifts mc w w'"
  by (rule drifts_trans [of mc w "meanwhile mc w"]) (auto simp: drifts_def intro: exI [of _ 1])

section \<open>Locks held\<close>

fun handles :: "hold \<Rightarrow> identity set" where
  "handles Probed = {}"
| "handles (Leased l) = set (map fst l)"

lemma drop_hold_own: "wd_own (drop_hold h w) = wd_own w - handles h"
  by (cases h) (simp_all add: release_lease_def)

lemma take_hold_own:
  assumes "take_hold mc m locks w = (hold, w')"
  shows "case hold of Inl c \<Rightarrow> w' = w
    | Inr h \<Rightarrow> w' = w\<lparr>wd_own := wd_own w \<union> handles h\<rparr> \<and> handles h \<inter> wd_own w = {} \<and>
        (m = DryRun \<longleftrightarrow> h = Probed)"
proof (cases m)
  case DryRun
  with assms show ?thesis by (auto simp: take_hold_def split: sum.splits)
next
  case Execute
  obtain r locked where leased: "lease (ow_locks (owning mc w)) (locked_files w) locks = (r, locked)"
    by fastforce
  show ?thesis
  proof (cases r)
    case (Inr l)
    with leased have "set (map fst l) \<inter> locked_files w = {}" using lease_granted(3) by blast
    then have "set (map fst l) \<inter> wd_own w = {}" by (auto simp: locked_files_def simp del: set_map)
    with assms Execute leased Inr show ?thesis
      by (auto simp: take_hold_def locked_files_def simp del: set_map)
  qed (use assms Execute leased in \<open>auto simp: take_hold_def\<close>)
qed

fun held_by :: "checked \<Rightarrow> identity set" where
  "held_by (Cleared u) = {}"
| "held_by (Authorized u a) = set (map fst (az_lease a))"

lemma check_held_cases:
  assumes "check_held mc f ob site rc h w = (r, w')"
  shows "(\<exists>e. r = Inl e \<and> w' = drop_hold h w) \<or>
    (\<exists>measured clearance.
      strictly (mc_host mc) (mc_sha mc) (ob_path ob) (tree_at mc w (ob_path ob))
        (cd_kind (fd_candidate f)) = Inr measured \<and>
      clear (mc_sha mc) (mc_fold mc) site \<lparr>vf_recheck = rc, vf_measured = measured\<rparr> = Inr clearance \<and>
      w' = w \<and>
      (case h of
         Probed \<Rightarrow> r = Inr (Cleared (ms_usage measured))
       | Leased l \<Rightarrow> locate (mc_host mc) (ob_path ob) = Inr (cl_location clearance) \<and>
           r = Inr (Authorized (ms_usage measured)
             \<lparr>az_clearance = clearance, az_lease = l, az_path = ob_path ob\<rparr>)))"
  using assms
  by (auto simp: check_held_def authorized_new_def result_simps
      split: sum.splits hold.splits if_splits)

lemma check_held_own:
  assumes "check_held mc f ob site rc h w = (r, w')"
  shows "wd_own w' = (case r of Inl e \<Rightarrow> wd_own w - handles h | Inr c \<Rightarrow> wd_own w) \<and>
    (\<forall>c. r = Inr c \<longrightarrow> held_by c = handles h)"
  using check_held_cases [OF assms]
  by (cases h) (auto simp: release_lease_def simp del: set_map)

lemma check_surveyed_own:
  assumes "check_surveyed mc t m f ob sv w = (r, w')"
  shows "wd_own w' = wd_own w \<union> (case r of Inl e \<Rightarrow> {} | Inr c \<Rightarrow> held_by c) \<and>
    (\<forall>c. r = Inr c \<longrightarrow> held_by c \<inter> wd_own w = {})"
proof -
  obtain hold w1 where hold: "take_hold mc m (sv_locks sv) (meanwhile mc w) = (hold, w1)" by fastforce
  note own = take_hold_own [OF hold]
  show ?thesis
  proof (cases hold)
    case (Inl c)
    with assms hold own show ?thesis
      by (auto simp: check_surveyed_def Let_def split: sum.splits)
  next
    case (Inr h)
    with own have w1: "wd_own w1 = wd_own w \<union> handles h" and fresh: "handles h \<inter> wd_own w = {}" by auto
    from assms hold Inr consider e where "r = Inl e" "w' = drop_hold h w1"
      | rc where "check_held mc f ob (observation_site ob (tm_protection t) (tm_excludes t)) rc h
          (meanwhile mc w1) = (r, w')"
      by (auto simp: check_surveyed_def Let_def split: sum.splits)
    then show ?thesis
    proof cases
      case 1
      with w1 fresh show ?thesis by (auto simp: drop_hold_own)
    next
      case 2
      from check_held_own [OF 2] w1 fresh show ?thesis by (auto split: sum.splits)
    qed
  qed
qed

lemma check_own:
  assumes "check mc t m f w = (r, w')"
  shows "wd_own w' = wd_own w \<union> (case r of Inl e \<Rightarrow> {} | Inr c \<Rightarrow> held_by c) \<and>
    (\<forall>c. r = Inr c \<longrightarrow> held_by c \<inter> wd_own w = {})"
proof (cases "observe (observing mc w) (fd_path f)")
  case (Inl e)
  with assms show ?thesis by (auto simp: check_def)
next
  case (Inr ob)
  define w1 where "w1 = meanwhile mc w"
  show ?thesis
  proof (cases "owners_survey (owning mc w1) (mc_surveying mc (wd_disk w1)) (tm_owners t) (ob_path ob)
      (tree_at mc w1 (ob_path ob))")
    case (Inl e)
    with Inr assms have "r = Inl e" "w' = w1" by (simp_all add: check_def w1_def Let_def)
    then show ?thesis by (simp add: w1_def)
  next
    case surveyed: (Inr sv)
    with Inr assms have "check_surveyed mc t m f ob sv (meanwhile mc w1) = (r, w')"
      by (simp add: check_def w1_def Let_def)
    from check_surveyed_own [OF this] show ?thesis by (simp add: w1_def)
  qed
qed

lemma authorized_remove_own:
  assumes "authorized_remove mc a w = (r, w')"
  shows "wd_own w' = wd_own w - set (map fst (az_lease a))"
  using assms
  by (auto simp: authorized_remove_def release_lease_def Let_def simp del: set_map
      split: prod.splits sum.splits)

lemma settle_own:
  assumes "settle mc t m f w = (o', w')"
  shows "wd_own w' = wd_own w"
proof -
  obtain r w1 where checked: "check mc t m f w = (r, w1)" by fastforce
  note own = check_own [OF checked]
  show ?thesis
  proof (cases r)
    case (Inl e)
    with assms checked own show ?thesis by (simp add: settle_def settle_status_def)
  next
    case (Inr c)
    show ?thesis
    proof (cases c)
      case (Cleared u)
      with assms checked own Inr show ?thesis by (simp add: settle_def settle_status_def)
    next
      case (Authorized u a)
      obtain r2 w2 where removed: "authorized_remove mc a (meanwhile mc w1) = (r2, w2)" by fastforce
      have "w' = w2" using assms checked Inr Authorized removed
        by (auto simp: settle_def settle_status_def split: sum.splits)
      with own Inr Authorized authorized_remove_own [OF removed] show ?thesis by auto
    qed
  qed
qed

lemma settle_all_own: "settle_all mc t m fs w = (os, w') \<Longrightarrow> wd_own w' = wd_own w"
proof (induction fs arbitrary: w os w')
  case (Cons f fs)
  then show ?case by (auto split: prod.splits dest!: settle_own)
qed simp

section \<open>What an authorization took\<close>

lemma take_hold_Leased:
  "take_hold mc m locks w = (Inr (Leased l), w') \<Longrightarrow>
   m = Execute \<and> w' = w\<lparr>wd_own := wd_own w \<union> set (map fst l)\<rparr> \<and>
   (\<exists>after. lease (ow_locks (owning mc w)) (locked_files w) locks = (Inr l, after))"
  by (auto simp: take_hold_def simp del: set_map split: mode.splits sum.splits prod.splits)

lemma check_surveyed_Authorized:
  assumes "check_surveyed mc t m f ob sv w = (Inr (Authorized u a), w')"
  shows "\<exists>v. m = Execute \<and>
    wd_own w' = wd_own w \<union> set (map fst (az_lease a)) \<and> az_path a = ob_path ob \<and>
    (\<exists>after. lease (ow_locks (owning mc (meanwhile mc w))) (locked_files (meanwhile mc w)) (sv_locks sv) =
      (Inr (az_lease a), after)) \<and>
    strictly (mc_host mc) (mc_sha mc) (ob_path ob) (tree_at mc w' (ob_path ob)) (cd_kind (fd_candidate f)) =
      Inr (vf_measured v) \<and> u = ms_usage (vf_measured v) \<and>
    clear (mc_sha mc) (mc_fold mc) (observation_site ob (tm_protection t) (tm_excludes t)) v =
      Inr (az_clearance a) \<and>
    rc_mandate (vf_recheck v) = tm_mandate t \<and> rc_recorded (vf_recheck v) = fd_candidate f \<and>
    rc_identity (vf_recheck v) = ob_found_identity ob \<and>
    rc_ownership (vf_recheck v) = owners_recheck (owning mc w) (ob_path ob) (sv_markers sv) (tm_owners t)"
proof -
  let ?site = "observation_site ob (tm_protection t) (tm_excludes t)"
  obtain hold w1 where hold: "take_hold mc m (sv_locks sv) (meanwhile mc w) = (hold, w1)" by fastforce
  define rc where "rc = \<lparr>rc_mandate = tm_mandate t, rc_recorded = fd_candidate f,
    rc_identity = ob_found_identity ob,
    rc_ownership = owners_recheck (owning mc w) (ob_path ob) (sv_markers sv) (tm_owners t),
    rc_liveness = hold_liveness hold\<rparr>"
  from assms hold obtain h where h: "hold = Inr h"
    and measuring: "check_held mc f ob ?site rc h (meanwhile mc w1) = (Inr (Authorized u a), w')"
    by (auto simp: check_surveyed_def Let_def rc_def split: sum.splits)
  from check_held_cases [OF measuring] obtain measured clearance l where
    m: "strictly (mc_host mc) (mc_sha mc) (ob_path ob) (tree_at mc (meanwhile mc w1) (ob_path ob))
      (cd_kind (fd_candidate f)) = Inr measured"
    and c: "clear (mc_sha mc) (mc_fold mc) ?site \<lparr>vf_recheck = rc, vf_measured = measured\<rparr> = Inr clearance"
    and w': "w' = meanwhile mc w1" and l: "h = Leased l"
    and a: "u = ms_usage measured" "a = \<lparr>az_clearance = clearance, az_lease = l, az_path = ob_path ob\<rparr>"
    by (cases h) auto
  note leased = take_hold_Leased [OF hold [unfolded h l]]
  show ?thesis
    by (rule exI [of _ "\<lparr>vf_recheck = rc, vf_measured = measured\<rparr>"])
      (use m c w' a leased in \<open>simp add: rc_def del: set_map\<close>)
qed

lemma check_Authorized:
  assumes "check mc t m f w = (Inr (Authorized u a), w')"
  obtains ob sv where "observe (observing mc w) (fd_path f) = Inr ob"
    and "owners_survey (owning mc (meanwhile mc w)) (mc_surveying mc (wd_disk (meanwhile mc w)))
      (tm_owners t) (ob_path ob) (tree_at mc (meanwhile mc w) (ob_path ob)) = Inr sv"
    and "check_surveyed mc t m f ob sv (meanwhile mc (meanwhile mc w)) = (Inr (Authorized u a), w')"
  using assms by (auto simp: check_def Let_def split: sum.splits)

lemma settle_touches:
  assumes "settle mc t m f w = (o', w')" and "touches (oc_status o')"
  obtains u a w1 r where "check mc t m f w = (Inr (Authorized u a), w1)"
    and "authorized_remove mc a (meanwhile mc w1) = (r, w')"
    and "oc_usage o' = Some u"
    and "oc_status o' = (case r of Inr _ \<Rightarrow> Deleted | Inl e \<Rightarrow> Failed e)"
  using assms
  by (auto simp: settle_def settle_status_def split: prod.splits sum.splits checked.splits)

lemma removed_entries:
  assumes "remove_tree os outer root expected keep es = (r, es')"
  shows "others (List.last root) es' = others (List.last root) es \<and>
    (es' \<noteq> es \<longrightarrow> (\<exists>sub. map_of es (List.last root) = Some (Folder expected sub))) \<and>
    (r = Inr () \<longrightarrow> es' = drop_entry (List.last root) es \<and>
      (\<exists>sub. map_of es (List.last root) = Some (Folder expected sub) \<and>
        foreign_entries (volume expected) root sub = {}))"
  using assms
proof (cases rule: remove_tree_E)
  case (opened n sub sub')
  have n: "n = List.last root" and entry: "map_of es (List.last root) = Some (Folder expected sub)"
    using open_root_Inr [OF opened(1)] by blast+
  show ?thesis using opened(3,4) entry unfolding n
    by (auto simp: others_drop_entry others_set_entry split: if_splits)
qed simp

section \<open>Dry runs\<close>

lemma check_held_Probed:
  assumes "check_held mc f ob site rc Probed w = (r, w')"
  shows "w' = w \<and> (\<forall>u a. r \<noteq> Inr (Authorized u a))"
  using check_held_cases [OF assms] by auto

lemma check_surveyed_dry:
  assumes "check_surveyed mc t DryRun f ob sv w = (r, w')"
  shows "drifts mc w w' \<and> (\<forall>u a. r \<noteq> Inr (Authorized u a))"
proof -
  obtain hold w1 where hold: "take_hold mc DryRun (sv_locks sv) (meanwhile mc w) = (hold, w1)" by fastforce
  then have w1: "w1 = meanwhile mc w" and probed: "\<And>h. hold = Inr h \<Longrightarrow> h = Probed"
    by (auto simp: take_hold_def split: sum.splits)
  from assms hold probed w1 consider e where "r = Inl e" "w' = meanwhile mc w"
    | rc where "check_held mc f ob (observation_site ob (tm_protection t) (tm_excludes t)) rc Probed
        (meanwhile mc (meanwhile mc w)) = (r, w')"
    by (auto simp: check_surveyed_def Let_def split: sum.splits)
  then show ?thesis
  proof cases
    case 1
    then show ?thesis by (simp add: drifts_meanwhile drifts_refl)
  next
    case 2
    from check_held_Probed [OF 2] show ?thesis by (simp add: drifts_meanwhile drifts_refl)
  qed
qed

lemma check_dry:
  assumes "check mc t DryRun f w = (r, w')"
  shows "drifts mc w w' \<and> (\<forall>u a. r \<noteq> Inr (Authorized u a))"
proof -
  from assms consider e where "r = Inl e" "w' = w \<or> w' = meanwhile mc w"
    | ob sv where "check_surveyed mc t DryRun f ob sv (meanwhile mc (meanwhile mc w)) = (r, w')"
    by (auto simp: check_def Let_def split: sum.splits)
  then show ?thesis
  proof cases
    case 1
    then show ?thesis using drifts_refl drifts_meanwhile by blast
  next
    case 2
    from check_surveyed_dry [OF 2] show ?thesis by (simp add: drifts_meanwhile)
  qed
qed

fun harmless :: "status \<Rightarrow> bool" where
  "harmless WouldDelete = True"
| "harmless (Rejected r) = True"
| "harmless _ = False"

lemma settle_dry:
  assumes "settle mc t DryRun f w = (o', w')"
  shows "drifts mc w w' \<and> harmless (oc_status o')"
proof -
  obtain r w1 where checked: "check mc t DryRun f w = (r, w1)" by fastforce
  from check_dry [OF checked] assms checked show ?thesis
    by (auto simp: settle_def settle_status_def split: sum.splits checked.splits)
qed

lemma settle_all_dry:
  "settle_all mc t DryRun fs w = (os, w') \<Longrightarrow> drifts mc w w' \<and> list_all (\<lambda>o'. harmless (oc_status o')) os"
proof (induction fs arbitrary: w os w')
  case (Cons f fs)
  then obtain o1 w1 rest where one: "settle mc t DryRun f w = (o1, w1)"
    and more: "settle_all mc t DryRun fs (meanwhile mc w1) = (rest, w')" and os: "os = o1 # rest"
    by (auto split: prod.splits)
  from settle_dry [OF one] Cons.IH [OF more] os show ?case
    by (auto intro: drifts_trans drifts_meanwhile)
qed (simp add: drifts_refl)

text \<open>A lease of locks on different files that identify themselves is what the probe says.\<close>

lemma lease_from_probe:
  assumes "distinct (map fst taken @ map (lock_file os) (filter (takes os) ls))"
    and "list_all (\<lambda>l. isl (lo_identity os (lk_path l)) = False) ls"
  shows "case probe os locked ls of
      Inl c \<Rightarrow> lease_from os locked taken ls = Inl c
    | Inr u \<Rightarrow> \<exists>result. lease_from os locked taken ls = Inr result"
  using assms
proof (induction ls arbitrary: taken)
  case (Cons l ls)
  have fresh: "takes os l \<Longrightarrow> lock_file os l \<notin> set (map fst taken)" using Cons.prems(1) by auto
  then have attempt: "attempt_lock os (locked \<union> set (map fst taken)) l = attempt_lock os locked l"
    by (auto simp: attempt_lock_def takes_def lock_file_def split: option.splits)
  show ?case
  proof (cases "attempt_lock os locked l")
    case Vanished
    then have "\<not> takes os l" by (auto simp: attempt_Vanished takes_def)
    with Cons.IH [of taken] Cons.prems Vanished attempt show ?thesis
      by (cases "probe os locked ls") simp_all
  next
    case (Taken f)
    then have f: "takes os l" "f = lock_file os l" by (simp_all add: attempt_Taken)
    obtain i where i: "lo_identity os (lk_path l) = Inr i"
      using Cons.prems(2) by (cases "lo_identity os (lk_path l)") auto
    have "distinct (map fst (taken @ [(lock_file os l, i)]) @ map (lock_file os) (filter (takes os) ls))"
      using Cons.prems(1) f(1) by auto
    from Cons.IH [OF this] Cons.prems(2) attempt i Taken f show ?thesis
      by (cases "probe os locked ls") simp_all
  qed (use attempt in simp_all)
qed simp

section \<open>What a dry run predicts\<close>

definition still :: "'d machine \<Rightarrow> bool" where
  "still mc \<longleftrightarrow> (\<forall>w. meanwhile mc w = w)"

text \<open>What the check of a dry run says of the check of an execution.\<close>

fun foretells :: "rejection + checked \<Rightarrow> rejection + checked \<Rightarrow> bool" where
  "foretells (Inl e) r = (r = Inl e)"
| "foretells (Inr (Cleared u)) r = (\<exists>a. r = Inr (Authorized u a))"
| "foretells (Inr (Authorized u a)) r = False"

text \<open>The locks of a survey are on different files, each of which can be identified.\<close>

definition lockable :: "lock_os \<Rightarrow> lock list \<Rightarrow> bool" where
  "lockable os ls \<longleftrightarrow>
     distinct (map (lock_file os) (filter (takes os) ls)) \<and>
     list_all (\<lambda>l. isl (lo_identity os (lk_path l)) = False) ls"

lemma take_hold_lockable:
  assumes "lockable (ow_locks (owning mc w)) ls"
  shows "(\<exists>c. take_hold mc DryRun ls w = (Inl c, w) \<and> take_hold mc Execute ls w = (Inl c, w)) \<or>
    (\<exists>l. take_hold mc DryRun ls w = (Inr Probed, w) \<and>
      take_hold mc Execute ls w = (Inr (Leased l), w\<lparr>wd_own := wd_own w \<union> set (map fst l)\<rparr>))"
proof -
  have "distinct (map fst [] @ map (lock_file (ow_locks (owning mc w)))
      (filter (takes (ow_locks (owning mc w))) ls))"
    "list_all (\<lambda>l. isl (lo_identity (ow_locks (owning mc w)) (lk_path l)) = False) ls"
    using assms by (simp_all add: lockable_def)
  from lease_from_probe [OF this, of "locked_files w"] show ?thesis
    by (auto simp: take_hold_def lease_def simp del: set_map split: sum.splits)
qed

lemma check_held_predicted:
  assumes "locate (mc_host mc) (ob_path ob) = Inr (st_location site)"
    and "wd_disk w' = wd_disk w"
  shows "foretells (fst (check_held mc f ob site rc Probed w))
    (fst (check_held mc f ob site rc (Leased l) w'))"
proof -
  have tree: "tree_at mc w' (ob_path ob) = tree_at mc w (ob_path ob)"
    using assms(2) by (simp add: tree_at_def)
  show ?thesis
  proof (cases "strictly (mc_host mc) (mc_sha mc) (ob_path ob) (tree_at mc w (ob_path ob))
      (cd_kind (fd_candidate f))")
    case (Inl e)
    with tree show ?thesis by (simp add: check_held_def)
  next
    case (Inr measured)
    show ?thesis
    proof (cases "clear (mc_sha mc) (mc_fold mc) site \<lparr>vf_recheck = rc, vf_measured = measured\<rparr>")
      case Inl
      with Inr tree show ?thesis by (simp add: check_held_def)
    next
      case (Inr c)
      then have "cl_location c = st_location site" by (simp add: clear_Inr)
      with Inr \<open>strictly _ _ _ _ _ = Inr measured\<close> tree assms(1) show ?thesis
        by (simp add: check_held_def authorized_new_def)
    qed
  qed
qed

lemma check_surveyed_predicted:
  assumes "still mc" and "lockable (ow_locks (owning mc w)) (sv_locks sv)"
    and "locate (mc_host mc) (ob_path ob) = Inr (ob_location ob)"
  shows "foretells (fst (check_surveyed mc t DryRun f ob sv w))
    (fst (check_surveyed mc t Execute f ob sv w))"
proof -
  have quiet: "meanwhile mc v = v" for v using assms(1) by (simp add: still_def)
  let ?site = "observation_site ob (tm_protection t) (tm_excludes t)"
  define rc where "rc hold = \<lparr>rc_mandate = tm_mandate t, rc_recorded = fd_candidate f,
    rc_identity = ob_found_identity ob,
    rc_ownership = owners_recheck (owning mc w) (ob_path ob) (sv_markers sv) (tm_owners t),
    rc_liveness = hold_liveness hold\<rparr>" for hold :: "contention + hold"
  from take_hold_lockable [OF assms(2)] show ?thesis
  proof (elim disjE exE conjE)
    fix c
    assume "take_hold mc DryRun (sv_locks sv) w = (Inl c, w)" "take_hold mc Execute (sv_locks sv) w = (Inl c, w)"
    then show ?thesis
      by (simp add: check_surveyed_def quiet Let_def split: sum.splits)
  next
    fix l
    assume holds: "take_hold mc DryRun (sv_locks sv) w = (Inr Probed, w)"
      "take_hold mc Execute (sv_locks sv) w = (Inr (Leased l), w\<lparr>wd_own := wd_own w \<union> set (map fst l)\<rparr>)"
    show ?thesis
    proof (cases "gate_recheck (mc_sha mc) (mc_fold mc) ?site (rc (Inr Probed))")
      case (Inl e)
      then show ?thesis
        using holds by (simp add: check_surveyed_def quiet Let_def rc_def hold_liveness_def)
    next
      case (Inr u)
      have "fst (check_surveyed mc t DryRun f ob sv w) =
          fst (check_held mc f ob ?site (rc (Inr Probed)) Probed w)"
        "fst (check_surveyed mc t Execute f ob sv w) = fst (check_held mc f ob ?site (rc (Inr Probed))
          (Leased l) (w\<lparr>wd_own := wd_own w \<union> set (map fst l)\<rparr>))"
        using holds Inr by (simp_all add: check_surveyed_def quiet Let_def rc_def hold_liveness_def del: set_map)
      moreover have "locate (mc_host mc) (ob_path ob) = Inr (st_location ?site)"
        using assms(3) by (simp add: observation_site_def)
      ultimately show ?thesis
        using check_held_predicted [of mc ob ?site "w\<lparr>wd_own := wd_own w \<union> set (map fst l)\<rparr>" w f
          "rc (Inr Probed)" l] by simp
    qed
  qed
qed

section \<open>Choosing the candidates\<close>

definition found_id :: "found \<Rightarrow> candidate_id" where
  "found_id f = cd_id (fd_candidate f)"

definition measured_found :: "found \<Rightarrow> bool" where
  "measured_found f \<longleftrightarrow> usage_reclaimable (cd_usage (fd_candidate f)) \<noteq> None"

lemma find_found_id: "List.find (\<lambda>f. cd_id (fd_candidate f) = i) fs = Some f \<Longrightarrow> f \<in> set fs \<and> found_id f = i"
  by (auto simp: find_Some_iff found_id_def)

lemma select_from_Inr:
  "select_from sighted seen selected ids = Inr chosen \<Longrightarrow>
   \<exists>cs. chosen = selected @ cs \<and> map found_id cs = ids \<and> distinct ids \<and> set ids \<inter> seen = {} \<and>
     set cs \<subseteq> set sighted \<and> list_all measured_found cs"
proof (induction sighted seen selected ids rule: select_from.induct)
  case (2 sighted seen selected i ids)
  then obtain f where f: "List.find (\<lambda>f. cd_id (fd_candidate f) = i) sighted = Some f"
    and i: "i \<notin> seen" and m: "usage_reclaimable (cd_usage (fd_candidate f)) \<noteq> None"
    and rest: "select_from sighted (insert i seen) (selected @ [f]) ids = Inr chosen"
    by (auto split: if_splits option.splits)
  from 2(1) [OF i f m rest] obtain cs where "chosen = (selected @ [f]) @ cs" "map found_id cs = ids"
    "distinct ids" "set ids \<inter> insert i seen = {}" "set cs \<subseteq> set sighted" "list_all measured_found cs"
    by blast
  moreover have "measured_found f" using m by (simp add: measured_found_def)
  ultimately show ?case using find_found_id [OF f] i
    by (intro exI [of _ "f # cs"]) auto
qed simp

text \<open>The first identifier that cannot be chosen, and why.\<close>

definition unchoosable :: "found list \<Rightarrow> candidate_id set \<Rightarrow> candidate_id \<Rightarrow> rejection \<Rightarrow> bool" where
  "unchoosable sighted seen i e \<longleftrightarrow>
     (if i \<in> seen then e = DuplicateCandidate i
      else (case List.find (\<lambda>f. found_id f = i) sighted of
              None \<Rightarrow> e = UnknownCandidate i
            | Some f \<Rightarrow> \<not> measured_found f \<and> e = rejection.Unmeasured i))"

lemma select_from_Inl:
  "select_from sighted seen selected ids = Inl e \<Longrightarrow>
   \<exists>before i rest. ids = before @ i # rest \<and> unchoosable sighted (seen \<union> set before) i e"
proof (induction sighted seen selected ids rule: select_from.induct)
  case (2 sighted seen selected i ids)
  show ?case
  proof (cases "unchoosable sighted seen i e")
    case True
    then have "i # ids = [] @ i # ids \<and> unchoosable sighted (seen \<union> set []) i e" by simp
    then show ?thesis by blast
  next
    case False
    with 2(2) obtain f where i: "i \<notin> seen"
      and f: "List.find (\<lambda>f. cd_id (fd_candidate f) = i) sighted = Some f"
      and m: "usage_reclaimable (cd_usage (fd_candidate f)) \<noteq> None"
      and rest: "select_from sighted (insert i seen) (selected @ [f]) ids = Inl e"
      by (auto simp: unchoosable_def measured_found_def found_id_def split: if_splits option.splits)
    from 2(1) [OF i f m rest] obtain before j later where
      "ids = before @ j # later" "unchoosable sighted (insert i seen \<union> set before) j e" by blast
    then have "i # ids = (i # before) @ j # later \<and> unchoosable sighted (seen \<union> set (i # before)) j e"
      by simp
    then show ?thesis by blast
  qed
qed simp

lemma settle_all_ids: "map oc_id (fst (settle_all mc t m fs w)) = map found_id fs"
  by (induction mc t m fs w rule: settle_all.induct)
    (auto simp: settle_def found_id_def split: prod.splits)

lemma settle_all_apply:
  "map oc_id (sm_outcomes (fst (apply_plan mc p m protection own w))) = map found_id (pn_candidates p)"
  by (simp add: apply_plan_def settle_all_ids split: prod.splits)
    (metis fst_conv settle_all_ids)

section \<open>Properties\<close>

text \<open>Property C1. A tree is touched only in an execution, only after both judgements passed on what
  was just observed, with every available lock of the completed survey taken before the
  measurement and held while the tree was measured and until it was removed; and what was
  measured is what the candidate recorded.\<close>

theorem touched_only_when_deletable:
  assumes "settle mc t m f w = (o', w')" and "touches (oc_status o')"
  shows "m = Execute \<and>
    (\<exists>ob sv l after w3 v c r.
      observe (observing mc w) (fd_path f) = Inr ob \<and>
      owners_survey (owning mc (meanwhile mc w)) (mc_surveying mc (wd_disk (meanwhile mc w)))
        (tm_owners t) (ob_path ob) (tree_at mc (meanwhile mc w) (ob_path ob)) = Inr sv \<and>
      lease (ow_locks (owning mc ((meanwhile mc ^^ 3) w))) (locked_files ((meanwhile mc ^^ 3) w))
        (sv_locks sv) = (Inr l, after) \<and>
      wd_own w3 = wd_own w \<union> set (map fst l) \<and>
      strictly (mc_host mc) (mc_sha mc) (ob_path ob) (tree_at mc w3 (ob_path ob))
        (cd_kind (fd_candidate f)) = Inr (vf_measured v) \<and>
      oc_usage o' = Some (ms_usage (vf_measured v)) \<and>
      deletable (mc_sha mc) (mc_fold mc)
        (observation_site ob (tm_protection t) (tm_excludes t)) v \<and>
      rc_mandate (vf_recheck v) = tm_mandate t \<and> rc_recorded (vf_recheck v) = fd_candidate f \<and>
      rc_identity (vf_recheck v) = ob_found_identity ob \<and>
      rc_ownership (vf_recheck v) = owners_recheck (owning mc ((meanwhile mc ^^ 2) w)) (ob_path ob)
        (sv_markers sv) (tm_owners t) \<and>
      authorized_remove mc \<lparr>az_clearance = c, az_lease = l, az_path = ob_path ob\<rparr> (meanwhile mc w3) =
        (r, w'))"
proof -
  from settle_touches [OF assms] obtain u a w3 r where
    checked: "check mc t m f w = (Inr (Authorized u a), w3)" and u: "oc_usage o' = Some u"
    and removed: "authorized_remove mc a (meanwhile mc w3) = (r, w')" .
  from check_Authorized [OF checked] obtain ob sv where
    ob: "observe (observing mc w) (fd_path f) = Inr ob"
    and sv: "owners_survey (owning mc (meanwhile mc w)) (mc_surveying mc (wd_disk (meanwhile mc w)))
      (tm_owners t) (ob_path ob) (tree_at mc (meanwhile mc w) (ob_path ob)) = Inr sv"
    and surveyed: "check_surveyed mc t m f ob sv (meanwhile mc (meanwhile mc w)) = (Inr (Authorized u a), w3)" .
  from check_surveyed_Authorized [OF surveyed] obtain v after where
    v: "m = Execute" "wd_own w3 = wd_own w \<union> set (map fst (az_lease a))" "az_path a = ob_path ob"
      "lease (ow_locks (owning mc ((meanwhile mc ^^ 3) w))) (locked_files ((meanwhile mc ^^ 3) w))
        (sv_locks sv) = (Inr (az_lease a), after)"
      "strictly (mc_host mc) (mc_sha mc) (ob_path ob) (tree_at mc w3 (ob_path ob))
        (cd_kind (fd_candidate f)) = Inr (vf_measured v)" "u = ms_usage (vf_measured v)"
      "clear (mc_sha mc) (mc_fold mc) (observation_site ob (tm_protection t) (tm_excludes t)) v =
        Inr (az_clearance a)"
      "rc_mandate (vf_recheck v) = tm_mandate t" "rc_recorded (vf_recheck v) = fd_candidate f"
      "rc_identity (vf_recheck v) = ob_found_identity ob"
      "rc_ownership (vf_recheck v) = owners_recheck (owning mc ((meanwhile mc ^^ 2) w)) (ob_path ob)
        (sv_markers sv) (tm_owners t)"
    by (auto simp: numeral_2_eq_2 numeral_3_eq_3 simp del: set_map)
  have "authorized_remove mc \<lparr>az_clearance = az_clearance a, az_lease = az_lease a,
      az_path = ob_path ob\<rparr> (meanwhile mc w3) = (r, w')"
    using removed v(3) by (metis authorized.surjective old.unit.exhaust)
  with ob sv u v(1,2,4-) clear_deletable [OF v(7)] show ?thesis
    by (simp del: set_map) blast
qed


text \<open>Property C9. No lease outlives its candidate: after a plan has been applied, whatever was
  refused or failed, exactly the locks held before are held.\<close>

theorem leases_never_leak:
  "wd_own (snd (apply_plan mc p m protection own w)) = wd_own w"
proof -
  obtain os w' where all: "settle_all mc \<lparr>tm_mandate = pn_mandate p, tm_excludes = pn_excludes p,
      tm_protection = protection, tm_owners = own\<rparr> m (pn_candidates p) w = (os, w')"
    by fastforce
  from settle_all_own [OF all] all show ?thesis by (simp add: apply_plan_def)
qed

text \<open>A dry run changes nothing: afterwards the world is the one other processes made,
  every candidate is either refused or reported as deletable, and no space is reported freed.\<close>

theorem dry_run_changes_nothing:
  "case apply_plan mc p DryRun protection own w of
     (s, w') \<Rightarrow> drifts mc w w' \<and> list_all (\<lambda>o'. harmless (oc_status o')) (sm_outcomes s) \<and>
       sm_observed_freed s = None \<and> \<not> failed_to_delete s"
proof -
  obtain os w' where all: "settle_all mc \<lparr>tm_mandate = pn_mandate p, tm_excludes = pn_excludes p,
      tm_protection = protection, tm_owners = own\<rparr> DryRun (pn_candidates p) w = (os, w')"
    by fastforce
  have "\<not> list_ex (\<lambda>o'. status_failed_to_delete (oc_status o')) os"
    if "list_all (\<lambda>o'. harmless (oc_status o')) os"
    using that by (induction os) (auto elim!: harmless.elims)
  with settle_all_dry [OF all] all show ?thesis
    by (simp add: apply_plan_def observed_freed_def failed_to_delete_def)
qed



end
