(* ===== verification/Auto.thy ===== *)
theory Auto
  imports Applying_Facts
begin

text \<open>
  The unattended run (\<open>crates/cli/src/auto.rs\<close>): what a selection admits, when a candidate is let go,
  and how the candidates that are let go are measured, planned and applied.
\<close>

section \<open>Selections\<close>

record selection =
  sl_roots :: "os_path list"
  sl_kinds :: "kind list"
  sl_excludes :: "os_path list"
  sl_tiers :: tier_grant

definition selection_admits :: "selection \<Rightarrow> candidate \<Rightarrow> bool" where
  "selection_admits s c \<longleftrightarrow>
     (sl_kinds s = [] \<or> cd_kind c \<in> set (sl_kinds s)) \<and> grant_admits (sl_tiers s) (cd_tier c)"

section \<open>Letting go\<close>

definition confirmed :: "'d machine \<Rightarrow> owners \<Rightarrow> os_path \<Rightarrow> 'd world \<Rightarrow> bool \<times> owners" where
  "confirmed mc own root w =
     (case owners_survey (owning mc w) (mc_surveying mc (wd_disk w)) own root (tree_at mc w root) of
        Inl _ \<Rightarrow> (False, own)
      | Inr sv \<Rightarrow>
          if held (ow_locks (owning mc w)) (locked_files w) (sv_locks sv) \<noteq> holding.Free then (False, own)
          else (case owners_of (owning mc w) root (sv_markers sv) own of
                  (ownership, own') \<Rightarrow> (admits_settlement admits.Settled (settlement_of ownership), own')))"

definition lets_go :: "'d machine \<Rightarrow> owners \<Rightarrow> found \<Rightarrow> 'd world \<Rightarrow> bool \<times> owners" where
  "lets_go mc own f w =
     (if admits_settlement admits.Settled (cd_settlement (fd_candidate f)) then confirmed mc own (fd_path f) w
      else (False, own))"

section \<open>Reaping\<close>

definition rejected_outcome :: "found \<Rightarrow> rejection \<Rightarrow> apply_outcome" where
  "rejected_outcome f r =
     \<lparr>oc_id = cd_id (fd_candidate f), oc_location = cd_location (fd_candidate f),
      oc_usage = None, oc_status = Rejected r\<rparr>"

definition measured_anew :: "'d machine \<Rightarrow> protection \<Rightarrow> 'd world \<Rightarrow> found \<Rightarrow> rejection + found" where
  "measured_anew mc protection w f =
     result_bind (strictly (mc_host mc) (mc_sha mc) (fd_path f) (tree_at mc w (fd_path f))
         (cd_kind (fd_candidate f))) (\<lambda>m.
       Inr (f\<lparr>fd_candidate := candidate_measured (mc_sha mc) (mc_fold mc) (fd_candidate f) m
         (prot_case protection)\<rparr>))"

fun measure_settled ::
  "'d machine \<Rightarrow> protection \<Rightarrow> found list \<Rightarrow> 'd world \<Rightarrow> found list \<times> apply_outcome list \<times> 'd world" where
  "measure_settled mc protection [] w = ([], [], w)"
| "measure_settled mc protection (f # fs) w =
     (case measure_settled mc protection fs (meanwhile mc w) of
        (measured, unmeasurable, w') \<Rightarrow>
          (case measured_anew mc protection w f of
             Inr g \<Rightarrow> (g # measured, unmeasurable, w')
           | Inl r \<Rightarrow> (measured, rejected_outcome f r # unmeasurable, w')))"

definition reap ::
  "'d machine \<Rightarrow> protection \<Rightarrow> owners \<Rightarrow> selection \<Rightarrow> found list \<Rightarrow> mode \<Rightarrow> 'd world
   \<Rightarrow> summary option \<times> 'd world" where
  "reap mc protection own s settled m w =
     (if settled = [] then (None, w)
      else (case measure_settled mc protection settled w of
        (measured, unmeasurable, w1) \<Rightarrow>
          (case (case plan_for mc w1 measured (map found_id measured)
                   \<lparr>md_tiers = sl_tiers s, md_settlements = admits.Settled\<rparr> (sl_excludes s) of
                 Inr p \<Rightarrow> apply_plan mc p m protection own (meanwhile mc w1)
               | Inl r \<Rightarrow>
                   (\<lparr>sm_mode = m, sm_predicted_freed = None, sm_observed_freed = None,
                     sm_outcomes = map (\<lambda>f. rejected_outcome f r) measured\<rparr>, w1)) of
             (sm, w2) \<Rightarrow> (Some (sm\<lparr>sm_outcomes := sm_outcomes sm @ unmeasurable\<rparr>), w2))))"

section \<open>What reaping reports\<close>

definition found_location :: "found \<Rightarrow> location" where
  "found_location f = cd_location (fd_candidate f)"

lemma measured_anew_location: "measured_anew mc protection w f = Inr g \<Longrightarrow> found_location g = found_location f"
  by (auto simp: measured_anew_def result_simps found_location_def candidate_measured_def)

lemma measure_settled_locations:
  "measure_settled mc protection fs w = (measured, unmeasurable, w') \<Longrightarrow>
   mset (map found_location measured) + mset (map oc_location unmeasurable) = mset (map found_location fs) \<and>
   list_all (\<lambda>o'. harmless (oc_status o')) unmeasurable \<and> wd_own w' = wd_own w"
proof (induction fs arbitrary: w measured unmeasurable w')
  case (Cons f fs)
  then obtain more others where rest: "measure_settled mc protection fs (meanwhile mc w) = (more, others, w')"
    by (auto split: prod.splits sum.splits)
  from Cons.IH [OF rest] Cons.prems rest show ?case
    by (auto simp: rejected_outcome_def found_location_def [symmetric] split: sum.splits
        dest: measured_anew_location)
qed simp

lemma settle_locations: "oc_location (fst (settle mc t m f w)) = found_location f"
  by (simp add: settle_def found_location_def split: prod.splits)

lemma settle_all_locations: "map oc_location (fst (settle_all mc t m fs w)) = map found_location fs"
proof (induction fs arbitrary: w)
  case (Cons f fs)
  obtain o1 w1 where one: "settle mc t m f w = (o1, w1)" by fastforce
  have "oc_location o1 = found_location f" using settle_locations [of mc t m f w] one by simp
  moreover obtain os w2 where more: "settle_all mc t m fs (meanwhile mc w1) = (os, w2)" by fastforce
  moreover have "map oc_location os = map found_location fs" using Cons [of "meanwhile mc w1"] more by simp
  ultimately show ?case using one by simp
qed simp

lemma apply_plan_locations:
  "map oc_location (sm_outcomes (fst (apply_plan mc p m protection own w))) =
     map found_location (pn_candidates p)"
  by (simp add: apply_plan_def split: prod.splits) (metis fst_conv settle_all_locations)

lemma apply_plan_own: "wd_own (snd (apply_plan mc p m protection own w)) = wd_own w"
  by (auto simp: apply_plan_def split: prod.splits dest: settle_all_own)

lemma reap_cases:
  assumes "settled \<noteq> []"
  obtains (applied) measured unmeasurable w1 p where
      "measure_settled mc protection settled w = (measured, unmeasurable, w1)"
      "select_from measured {} [] (map found_id measured) = Inr (pn_candidates p)"
      "reap mc protection own s settled m w =
        (case apply_plan mc p m protection own (meanwhile mc w1) of
           (sm, w2) \<Rightarrow> (Some (sm\<lparr>sm_outcomes := sm_outcomes sm @ unmeasurable\<rparr>), w2))"
    | (refused) measured unmeasurable w1 r where
      "measure_settled mc protection settled w = (measured, unmeasurable, w1)"
      "select_from measured {} [] (map found_id measured) = Inl r"
      "reap mc protection own s settled m w =
        (Some \<lparr>sm_mode = m, sm_predicted_freed = None, sm_observed_freed = None,
           sm_outcomes = map (\<lambda>f. rejected_outcome f r) measured @ unmeasurable\<rparr>, w1)"
proof -
  obtain measured unmeasurable w1 where
    m: "measure_settled mc protection settled w = (measured, unmeasurable, w1)" by (metis prod_cases3)
  show thesis
  proof (cases "select_from measured {} [] (map found_id measured)")
    case (Inl r)
    with assms m refused show thesis by (simp add: reap_def plan_for_def)
  next
    case (Inr chosen)
    obtain p where p: "plan_for mc w1 measured (map found_id measured)
        \<lparr>md_tiers = sl_tiers s, md_settlements = admits.Settled\<rparr> (sl_excludes s) = Inr p"
      and "pn_candidates p = chosen"
      using Inr by (auto simp: plan_for_def Let_def)
    with assms m Inr applied [of measured unmeasurable w1 p] show thesis by (simp add: reap_def)
  qed
qed

lemma find_first_found:
  "distinct (map found_id fs) \<Longrightarrow> f \<in> set fs \<Longrightarrow> g \<in> set fs \<Longrightarrow> found_id g = found_id f \<Longrightarrow> g = f"
  by (auto simp: distinct_map inj_on_def)

text \<open>A plan for the identifiers of the candidates themselves chooses just those candidates.\<close>

lemma select_all:
  assumes "select_from fs {} [] (map found_id fs) = Inr chosen"
  shows "chosen = fs"
proof -
  from select_from_Inr [OF assms] have ids: "map found_id chosen = map found_id fs"
    and distinct: "distinct (map found_id fs)" and sub: "set chosen \<subseteq> set fs" by auto
  show ?thesis
  proof (rule nth_equalityI)
    show "length chosen = length fs" using ids by (metis length_map)
    fix i assume "i < length chosen"
    with ids have "found_id (chosen ! i) = found_id (fs ! i)" "i < length fs"
      by (metis length_map nth_map)+
    with sub \<open>i < length chosen\<close> distinct show "chosen ! i = fs ! i"
      by (intro find_first_found [of fs]) auto
  qed
qed

section \<open>Properties\<close>

text \<open>Reaping reports on every candidate that was let go, each exactly once, whatever
  could not be measured, planned or removed, and leaves no lock taken.\<close>

theorem reap_reports_every_settled:
  "case reap mc protection own s settled m w of
     (None, w') \<Rightarrow> settled = [] \<and> w' = w
   | (Some sm, w') \<Rightarrow>
       mset (map oc_location (sm_outcomes sm)) = mset (map found_location settled) \<and>
       sm_mode sm = m \<and> wd_own w' = wd_own w"
proof (cases "settled = []")
  case True
  then show ?thesis by (simp add: reap_def)
next
  case False
  then show ?thesis
  proof (cases rule: reap_cases [of settled mc protection w own s m])
    case (applied measured unmeasurable w1 p)
    obtain sm w2 where sm: "apply_plan mc p m protection own (meanwhile mc w1) = (sm, w2)" by fastforce
    have "map oc_location (sm_outcomes sm) = map found_location measured" "sm_mode sm = m"
      "wd_own w2 = wd_own w1"
      using apply_plan_locations [of mc p m protection own "meanwhile mc w1"] sm select_all [OF applied(2)]
        apply_plan_own [of mc p m protection own "meanwhile mc w1"]
      by (auto simp: apply_plan_def split: prod.splits)
    with measure_settled_locations [OF applied(1)] applied(3) sm show ?thesis by simp
  next
    case (refused measured unmeasurable w1 r)
    have "oc_location \<circ> (\<lambda>f. rejected_outcome f r) = found_location"
      by (simp add: fun_eq_iff rejected_outcome_def found_location_def)
    with measure_settled_locations [OF refused(1)] refused(3) show ?thesis by simp
  qed
qed

text \<open>A candidate is let go only when every lock of its completed survey was free and a
  recheck of its ownership, with an empty cache, says that it is settled.\<close>

theorem confirmed_free_and_settled:
  assumes "fst (confirmed mc (owners_after (owning mc w) (owners_clone own) requests) root w)"
  shows "\<exists>sv. owners_survey (owning mc w) (mc_surveying mc (wd_disk w)) own root (tree_at mc w root) = Inr sv \<and>
    list_all (available (ow_locks (owning mc w)) (locked_files w)) (sv_locks sv) \<and>
    (settlement_of (owners_recheck (owning mc w) root (sv_markers sv) own) = settlement.Released \<or>
     settlement_of (owners_recheck (owning mc w) root (sv_markers sv) own) = settlement.Landed)"
proof -
  let ?own = "owners_after (owning mc w) (owners_clone own) requests"
  have coherent: "coherent (owning mc w) ?own" and alike: "alike own ?own"
    using after_coherent [OF coherent_clone] alike_trans [OF alike_clone] by blast+
  have survey: "owners_survey (owning mc w) so ?own root tree = owners_survey (owning mc w) so own root tree"
    for so tree
  proof -
    have "complete_survey (owning mc w) ?own root = complete_survey (owning mc w) own root"
      by (rule ext) (simp add: complete_survey_def alike_searched [OF alike])
    then show ?thesis by (simp add: owners_survey_def)
  qed
  from assms obtain sv where sv:
    "owners_survey (owning mc w) (mc_surveying mc (wd_disk w)) own root (tree_at mc w root) = Inr sv"
    "held (ow_locks (owning mc w)) (locked_files w) (sv_locks sv) = holding.Free"
    "admits_settlement admits.Settled (settlement_of (fst (owners_of (owning mc w) root (sv_markers sv) ?own)))"
    by (auto simp: confirmed_def survey split: sum.splits if_splits prod.splits)
  have "fst (owners_of (owning mc w) root (sv_markers sv) ?own) =
      owners_recheck (owning mc w) root (sv_markers sv) own"
    using owners_of_cached [OF coherent prod.collapse [symmetric]]
    by (simp add: recheck_plain plain_alike [OF alike])
  with sv show ?thesis
    by (intro exI [of _ sv]) (auto simp: held_free_iff elim!: admits_settlement.elims)
qed

end
