(* ===== verification/Applying_Examples.thy ===== *)
theory Applying_Examples
  imports Auto
begin

text \<open>
  A Cargo target of an orphaned worktree, with a lock in it, deleted on a quiet machine: the
  concrete inputs at which the properties of an application hold.
\<close>

section \<open>The machine\<close>

definition job_os :: owner_os where
  "job_os =
     \<lparr>ow_host = unix_host,
      ow_locks = \<lparr>lo_open = (\<lambda>_. None), lo_file = (\<lambda>_. on_disk 3), lo_try = (\<lambda>_. None),
        lo_identity = (\<lambda>_. Inr (on_disk 3))\<rparr>,
      ow_locked = {}, ow_json = (\<lambda>_. None),
      ow_read = (\<lambda>p. if p = [''work'', ''.git''] then Inr ''gitdir: /r/.git/worktrees/w''
        else Inl \<lparr>oe_kind = ENotFound, oe_code = None\<rparr>),
      ow_kind = (\<lambda>p. if p = [''work'', ''.git''] then Inr Is_File
        else Inl \<lparr>oe_kind = ENotFound, oe_code = None\<rparr>),
      ow_canonical = Inr, ow_path = (\<lambda>_ _. [''r'', ''.git'', ''worktrees'', ''w'']),
      ow_release = (\<lambda>_ _. None), ow_linked = (\<lambda>_ l. Primary l)\<rparr>"

definition job_metadata :: node_metadata where
  "job_metadata =
     \<lparr>nm_type = \<lparr>ft_symlink = False, ft_dir = True, ft_file = False\<rparr>, nm_reparse = False, nm_device = Some 1\<rparr>"

definition job_observing :: observe_os where
  "job_observing =
     \<lparr>ob_owner = job_os, ob_metadata = (\<lambda>_. Inr job_metadata), ob_canonical = Inr, ob_absolute = Inr,
      ob_read_dir = (\<lambda>p. Inr (if p = [''work''] then [Inr ''Cargo.toml'', Inr ''target''] else [])),
      ob_file_type = (\<lambda>p. Inr \<lparr>ft_symlink = False, ft_dir = List.last p \<noteq> ''Cargo.toml'',
        ft_file = List.last p = ''Cargo.toml''\<rparr>),
      ob_identity = (\<lambda>_. Inr (on_disk 2))\<rparr>"

definition job_tree :: os_tree where
  "job_tree = sample_directory [Entry ''debug'' (sample_directory [Entry ''.cargo-lock'' (sample_file 0 3 1)])]"

definition job_machine :: "folder machine" where
  "job_machine =
     \<lparr>mc_host = unix_host, mc_meanwhile = (\<lambda>w. (wd_others w, wd_disk w)),
      mc_observing = (\<lambda>_. job_observing), mc_surveying = (\<lambda>_. quiet_survey_os),
      mc_tree = (\<lambda>_ _. job_tree), mc_removing = (\<lambda>_. undisturbed),
      mc_outer = (\<lambda>d _. (on_disk 1, d)), mc_emptied = (\<lambda>_ es _. es),
      mc_sha = (\<lambda>_. []), mc_fold = (\<lambda>b. b)\<rparr>"

definition job_world :: "folder world" where
  "job_world = \<lparr>wd_others = {}, wd_own = {}, wd_disk = sample_home\<rparr>"

definition job_path :: os_path where
  "job_path = [''work'', ''target'']"

definition job_ownership :: ownership where
  "job_ownership = Worktree (Orphaned (ex_names [''work'']))"

definition job_measurement :: measurement where
  "job_measurement = projr (strictly unix_host (\<lambda>_. []) job_path job_tree RustTarget)"

definition job_found :: found where
  "job_found =
     \<lparr>fd_path = job_path,
      fd_candidate = candidate_new (\<lambda>_. []) (\<lambda>b. b)
        \<lparr>ad_location = ex_names job_path,
         ad_identification = \<lparr>id_kind = RustTarget, id_provenance = Inferred\<rparr>\<rparr>
        \<lparr>observed.ob_identity = on_disk 2, ob_measurement = job_measurement, ob_ownership = job_ownership\<rparr>
        Sensitive\<rparr>"

definition job_owners :: owners where
  "job_owners = \<lparr>ow_ceilings = [], ow_worktrees = (\<lambda>_. None), ow_state = None\<rparr>"

definition job_terms :: terms where
  "job_terms =
     \<lparr>tm_mandate = mandate_default, tm_excludes = [ex_names [''q'']], tm_protection = ex_protection,
      tm_owners = job_owners\<rparr>"

section \<open>One step after the other\<close>

lemma job_quiet: "meanwhile job_machine w = w"
  by (simp add: meanwhile_def job_machine_def)

lemma job_still: "still job_machine"
  by (simp add: still_def job_quiet)

lemma job_selectors:
  "mc_host job_machine = unix_host" "mc_sha job_machine = (\<lambda>_. [])" "mc_fold job_machine = (\<lambda>b. b)"
  "mc_surveying job_machine d = quiet_survey_os" "tree_at job_machine w p = job_tree"
  "mc_removing job_machine d = undisturbed" "mc_outer job_machine d p = (on_disk 1, d)"
  "mc_emptied job_machine p es d = es"
  by (simp_all add: job_machine_def tree_at_def)

lemma unix_spell_join: "ns \<noteq> [] \<Longrightarrow> unix_spell ns = CHR ''/'' # join_with (CHR ''/'') ns"
  by (induction ns rule: induct_list012) (auto simp: unix_spell_def)

lemma unix_located:
  assumes "ns \<noteq> []" and "list_all (name_ok path_syntax.Unix) ns"
  shows "locate unix_host ns = Inr (ex_names ns)"
proof -
  have "names_of (join_with (CHR ''/'') (map as_bytes (map Name ns))) path_syntax.Unix = Inr (map Name ns)"
    using assms(2) names_of_join [of "map Name ns" path_syntax.Unix "CHR ''/''"] by (simp add: list_all_iff comp_def)
  then show ?thesis using assms(1)
    by (simp add: locate_def unix_host_def unix_spell_join parse_unix_def strip_prefix_def ex_names_def comp_def)
qed

lemma job_located:
  "locate unix_host job_path = Inr (ex_names job_path)" "locate unix_host [''work''] = Inr (ex_names [''work''])"
  "locate unix_host [''work'', ''target'', ''debug'', ''.cargo-lock''] =
     Inr (ex_names [''work'', ''target'', ''debug'', ''.cargo-lock''])"
  by (simp_all add: unix_located name_ok_def job_path_def)

definition job_observation :: observation where
  "job_observation =
     \<lparr>ob_path = job_path, ob_location = ex_names job_path, ob_shape = shape.Directory, ob_boundary = Same 1,
      ob_listing = \<lparr>parent_files = [''cargo.toml''], parent_dirs = [''target''], child_files = [], child_dirs = [],
        list_tags = \<lparr>tag_cache = cache_tag.Absent, tag_owner = owner_tag.Absent\<rparr>\<rparr>,
      ob_found_identity = on_disk 2\<rparr>"

lemma job_lower: "lower ''Cargo.toml'' = ''cargo.toml''" "lower ''target'' = ''target''"
  by code_simp+

lemma job_observed: "observe (observing job_machine w) job_path = Inr job_observation"
proof -
  have os: "ob_metadata (observing job_machine w) p = Inr job_metadata"
    "ob_canonical (observing job_machine w) p = Inr p"
    "ob_read_dir (observing job_machine w) p =
      Inr (if p = [''work''] then [Inr ''Cargo.toml'', Inr ''target''] else [])"
    "ob_file_type (observing job_machine w) p = Inr \<lparr>ft_symlink = False, ft_dir = List.last p \<noteq> ''Cargo.toml'',
        ft_file = List.last p = ''Cargo.toml''\<rparr>"
    "ob_identity (observing job_machine w) p = Inr (on_disk 2)" for p
    by (simp_all add: observing_def job_machine_def job_observing_def)
  have shape: "platform_shape job_metadata = shape.Directory" by (simp add: platform_shape_def job_metadata_def)
  have boundary: "platform_boundary job_metadata job_metadata = Same 1"
    by (simp add: platform_boundary_def job_metadata_def)
  show ?thesis
    by (simp add: observe_def os os_result_def shape boundary resolved_path_def job_located job_selectors
        parent_boundary_def parent_entries_def own_entries_def parent_of_def entries_of_def entries_empty_def
        tags_of_def cache_tag_of_def owner_tag_of_def has_file_def listing_new_def entries_dir_def
        entries_file_def job_lower job_observation_def)
      (simp add: job_path_def job_lower os entries_dir_def entries_file_def)
qed

definition job_lock :: lock where
  "job_lock =
     \<lparr>lk_path = [''work'', ''target'', ''debug'', ''.cargo-lock''],
      lk_location = ex_names [''work'', ''target'', ''debug'', ''.cargo-lock''], lk_protocol = Cargo\<rparr>"

lemma job_protocol: "protocol_of ''.cargo-lock'' = Some Cargo"
  by (simp add: protocol_of_def cargo_names_def)

lemma job_survey:
  "survey unix_host quiet_survey_os job_path job_tree = Inr \<lparr>sv_locks = [job_lock], sv_markers = []\<rparr>"
  by (simp add: survey_def job_tree_def sample_directory_def sample_file_def job_path_def survey_directory_def
        survey_empty_def swift_workspace_def eq_ignore_ascii_case_def to_ascii_lower_def is_ascii_upper_def
        survey_workspace_def survey_entry_def next_recognition_def cargo_internals_def project_files_def
        Let_def os_result_def marker_name_def job_protocol survey_push_def job_located job_lock_def)

lemma job_os_selectors:
  "ow_read (owning job_machine w) [''work'', ''.git''] = Inr ''gitdir: /r/.git/worktrees/w''"
  "List.last p \<noteq> ''.git'' \<Longrightarrow> ow_read (owning job_machine w) p = Inl \<lparr>oe_kind = ENotFound, oe_code = None\<rparr>"
  "ow_kind (owning job_machine w) [''work'', ''.git''] = Inr Is_File"
  "p \<noteq> [''work'', ''.git''] \<Longrightarrow>
     ow_kind (owning job_machine w) p = Inl \<lparr>oe_kind = ENotFound, oe_code = None\<rparr>"
  "ow_path (owning job_machine w) d t = [''r'', ''.git'', ''worktrees'', ''w'']"
  "lo_open (ow_locks (owning job_machine w)) p = None" "lo_try (ow_locks (owning job_machine w)) p = None"
  "lo_file (ow_locks (owning job_machine w)) p = on_disk 3"
  "lo_identity (ow_locks (owning job_machine w)) p = Inr (on_disk 3)"
  by (auto simp: owning_def job_machine_def job_observing_def job_os_def)

lemma job_searched: "searched job_owners job_path = [[''work'', ''target''], [''work''], []]"
  by (simp add: searched_def ancestors_def ceiling_def job_owners_def job_path_def)

lemma job_declared: "declared (owning job_machine w) d = None"
  by (simp add: declared_def job_os_selectors marker_name_def)

lemma job_surveyed:
  "owners_survey (owning job_machine w) quiet_survey_os job_owners job_path job_tree =
     Inr \<lparr>sv_locks = [job_lock], sv_markers = []\<rparr>"
  by (simp add: owners_survey_def job_selectors job_survey complete_survey_def job_searched job_declared
      survey_order_def)

lemma job_worktree:
  "dot_git (owning job_machine w) [''work'', ''target''] = dot.Absent"
  "dot_git (owning job_machine w) [''work''] = dot.File [''work'', ''.git'']"
  "gitdir (owning job_machine w) [''work'', ''.git''] = Some [''r'', ''.git'', ''worktrees'', ''w'']"
  by (simp_all add: dot_git_def dot_failure_def gitdir_def job_os_selectors sample_link_text)

lemma job_recheck: "owners_recheck (owning job_machine w) job_path [] job_owners = job_ownership"
proof -
  have "marker_at (owning job_machine w) d = None" for d
    by (simp add: marker_at_def job_declared)
  moreover have "ow_state job_owners = None" by (simp add: job_owners_def)
  ultimately show ?thesis
    by (simp add: recheck_plain plain_ownership_def job_searched nearest_worktree_def job_worktree
        fresh_worktree_def job_selectors job_located worktree_fresh_def job_os_selectors
        map_filter_simps resolve_def job_ownership_def)
qed

lemma job_measured: "strictly unix_host (\<lambda>_. []) job_path job_tree RustTarget = Inr job_measurement"
  by (simp add: job_measurement_def strictly_def walk_root_def job_tree_def sample_directory_def
      sample_file_def os_result_def Let_def git_name_def eq_ignore_ascii_case_def to_ascii_lower_def
      is_ascii_upper_def crossing_def)

section \<open>Judgement and removal\<close>

definition job_site :: site where
  "job_site = observation_site job_observation ex_protection [ex_names [''q'']]"

definition job_verify :: verify where
  "job_verify =
     \<lparr>vf_recheck = \<lparr>rc_mandate = mandate_default, rc_recorded = fd_candidate job_found,
        rc_identity = on_disk 2, rc_ownership = job_ownership, rc_liveness = liveness.Free\<rparr>,
      vf_measured = job_measurement\<rparr>"

lemma job_identify: "site_identify job_site = Some \<lparr>id_kind = RustTarget, id_provenance = Inferred\<rparr>"
proof -
  have "from_utf8_lossy ''target'' = ''target''"
    by (intro from_utf8_lossy_valid utf8_valid_ascii) (simp add: is_ascii_def)
  then show ?thesis
    by (simp add: site_identify_def job_site_def observation_site_def job_observation_def job_path_def
        ex_names_def file_name_def identify_def listing_kind_def declares_rust_target_def family_kind_def
        to_ascii_lower_def is_ascii_upper_def)
qed

lemma job_standing: "standing ul job_site"
  by (simp add: standing_def area_admits_def area_of_def job_site_def observation_site_def
      job_observation_def job_path_def ex_protection_def ex_names_def
      contains_view base_view_def names_view_def intersects_def prot_contains_def)

lemma job_deletable: "deletable (\<lambda>_. []) (\<lambda>b. b) job_site job_verify"
  using job_standing job_identify
  by (simp add: deletable_def recheck_holds_def still_the_same_def job_verify_def job_found_def
      candidate_new_def mandate_default_def kind_tier_def job_ownership_def)
    (simp add: job_site_def observation_site_def job_observation_def ex_protection_def)

lemma job_rechecked: "gate_recheck (\<lambda>_. []) (\<lambda>b. b) job_site (vf_recheck job_verify) = Inr ()"
  using job_deletable job_identify by (simp add: gate_recheck_def run_recheck deletable_def result_simps)

definition job_clearance :: clearance where
  "job_clearance =
     \<lparr>cl_location = ex_names job_path, cl_identity = on_disk 2,
      cl_identification = \<lparr>id_kind = RustTarget, id_provenance = Inferred\<rparr>\<rparr>"

lemma job_clear: "clear (\<lambda>_. []) (\<lambda>b. b) job_site job_verify = Inr job_clearance"
  using job_deletable job_identify
  by (simp add: clear_Inr job_clearance_def job_verify_def)
    (simp add: job_site_def observation_site_def job_observation_def)

definition job_authorized :: authorized where
  "job_authorized =
     \<lparr>az_clearance = job_clearance, az_lease = [(on_disk 3, on_disk 3)], az_path = job_path\<rparr>"

lemma job_kind: "cd_kind (fd_candidate job_found) = RustTarget" "fd_path job_found = job_path"
  by (simp_all add: job_found_def candidate_new_def)

lemma job_hold:
  "take_hold job_machine Execute [job_lock] job_world =
     (Inr (Leased [(on_disk 3, on_disk 3)]), job_world\<lparr>wd_own := {on_disk 3}\<rparr>)"
  by (simp add: take_hold_def lease_def attempt_lock_def job_os_selectors locked_files_def job_world_def)

lemma job_checked:
  "check job_machine job_terms Execute job_found job_world =
     (Inr (Authorized (ms_usage job_measurement) job_authorized), job_world\<lparr>wd_own := {on_disk 3}\<rparr>)"
proof -
  have site: "observation_site job_observation (tm_protection job_terms) (tm_excludes job_terms) = job_site"
    by (simp add: job_terms_def job_site_def)
  have rc: "\<lparr>rc_mandate = tm_mandate job_terms, rc_recorded = fd_candidate job_found,
      rc_identity = ob_found_identity job_observation, rc_ownership = job_ownership,
      rc_liveness = hold_liveness (Inr h)\<rparr> = vf_recheck job_verify" for h
    by (simp add: job_terms_def job_verify_def job_observation_def hold_liveness_def)
  have verify: "\<lparr>vf_recheck = vf_recheck job_verify, vf_measured = job_measurement\<rparr> = job_verify"
    by (simp add: job_verify_def)
  have own: "tm_owners job_terms = job_owners" "ob_path job_observation = job_path"
    by (simp_all add: job_terms_def job_observation_def)
  have held: "check_held job_machine job_found job_observation job_site (vf_recheck job_verify)
      (Leased [(on_disk 3, on_disk 3)]) (job_world\<lparr>wd_own := {on_disk 3}\<rparr>) =
      (Inr (Authorized (ms_usage job_measurement) job_authorized), job_world\<lparr>wd_own := {on_disk 3}\<rparr>)"
    by (simp add: check_held_def job_selectors own job_kind job_measured verify job_clear
        authorized_new_def job_located job_authorized_def) (simp add: job_clearance_def)
  show ?thesis
    by (simp add: check_def job_kind job_observed job_quiet Let_def own job_selectors job_surveyed
        check_surveyed_def job_recheck job_hold site rc job_rechecked held)
qed

lemma job_removed:
  "authorized_remove job_machine job_authorized (job_world\<lparr>wd_own := {on_disk 3}\<rparr>) =
     (Inr (), job_world\<lparr>wd_disk := [(''notes'', Leaf (on_disk 10))]\<rparr>)"
  by (simp add: authorized_remove_def job_selectors job_authorized_def job_clearance_def release_lease_def
      lease_keys_def job_world_def job_path_def) (simp add: sample_removal)

definition job_outcome :: apply_outcome where
  "job_outcome =
     \<lparr>oc_id = cd_id (fd_candidate job_found), oc_location = cd_location (fd_candidate job_found),
      oc_usage = Some (ms_usage job_measurement), oc_status = Deleted\<rparr>"

lemma job_settled:
  "settle job_machine job_terms Execute job_found job_world =
     (job_outcome, job_world\<lparr>wd_disk := [(''notes'', Leaf (on_disk 10))]\<rparr>)"
  by (simp add: settle_def settle_status_def job_checked job_quiet job_removed job_outcome_def)

section \<open>The properties there\<close>

lemma job_touched: "touches (oc_status job_outcome)"
  by (simp add: job_outcome_def)

lemma touched_only_when_deletable_witness:
  "\<exists>ob v. observe (observing job_machine job_world) (fd_path job_found) = Inr ob \<and>
     deletable (\<lambda>_. []) (\<lambda>b. b)
       (observation_site ob (tm_protection job_terms) (tm_excludes job_terms)) v \<and>
     rc_recorded (vf_recheck v) = fd_candidate job_found"
  using touched_only_when_deletable [OF job_settled job_touched]
  by (simp only: job_selectors) blast



lemma confirmed_free_and_settled_witness:
  "settlement_of (owners_recheck (owning job_machine job_world) job_path [] job_owners) = settlement.Released \<or>
   settlement_of (owners_recheck (owning job_machine job_world) job_path [] job_owners) = settlement.Landed"
proof -
  have clone: "owners_clone job_owners = job_owners" by (simp add: owners_clone_def job_owners_def)
  have "fst (owners_of (owning job_machine job_world) job_path [] job_owners) = job_ownership"
    using job_recheck [of job_world] by (simp add: owners_recheck_def clone)
  moreover have "held (ow_locks (owning job_machine job_world)) (locked_files job_world) [job_lock] = holding.Free"
    by (simp add: attempt_lock_def job_os_selectors locked_files_def job_world_def)
  ultimately have "fst (confirmed job_machine
      (owners_after (owning job_machine job_world) (owners_clone job_owners) []) job_path job_world)"
    by (simp add: confirmed_def clone job_selectors job_surveyed split: prod.splits)
      (auto simp: job_ownership_def)
  from confirmed_free_and_settled [OF this] show ?thesis
    by (auto simp: job_selectors job_surveyed)
qed

end
