(* ===== verification/Scanning_Examples.thy ===== *)
theory Scanning_Examples
  imports Scanning_Facts Applying_Examples
begin

text \<open>
  A sighting of a project with a Cargo target in it, at which the properties of a scan are
  instantiated.
\<close>

definition demo_os :: scan_os where
  "demo_os =
     \<lparr>sn_observing = observing job_machine job_world, sn_metadata_identity = (\<lambda>_. None),
      sn_volume_space = (\<lambda>_. Inr \<lparr>vs_total = 100, vs_free = 40, vs_available = 30\<rparr>),
      sn_tree = (\<lambda>_. sample_directory
        [Entry ''Cargo.toml'' (sample_file 5 9 1), Entry ''target'' job_tree])\<rparr>"

definition demo_setup :: "descent \<Rightarrow> measure \<Rightarrow> scan_setup" where
  "demo_setup d m =
     \<lparr>su_options = (options_new [[''work'']])\<lparr>op_measure := m\<rparr>, su_descent = d, su_only = None,
      su_protection = ex_protection, su_excludes = [ex_names [''q'']], su_caches = (\<lambda>_. None),
      su_sha = (\<lambda>_. []), su_fold = (\<lambda>b. b)\<rparr>"

abbreviation demo_sight :: scan_setup where
  "demo_sight \<equiv> demo_setup (Sight Everything) Logical"

lemma demo_selectors:
  "sn_host demo_os = unix_host" "sn_observing demo_os = observing job_machine job_world"
  "su_descent (demo_setup d m) = d" "su_measure (demo_setup d m) = m" "su_only (demo_setup d m) = None"
  "su_sha (demo_setup d m) = (\<lambda>_. [])" "su_fold (demo_setup d m) = (\<lambda>b. b)"
  "su_protection (demo_setup d m) = ex_protection" "su_excludes (demo_setup d m) = [ex_names [''q'']]"
  by (simp_all add: demo_os_def demo_setup_def sn_host_def ob_host_def observing_def owning_def
      job_machine_def su_measure_def)

lemma demo_observing:
  "ob_file_type (observing job_machine w) p = Inr \<lparr>ft_symlink = False, ft_dir = List.last p \<noteq> ''Cargo.toml'',
     ft_file = List.last p = ''Cargo.toml''\<rparr>"
  "ob_identity (observing job_machine w) p = Inr (on_disk 2)"
  by (simp_all add: observing_def job_machine_def job_observing_def)

lemma demo_open: "\<not> excluded (demo_setup d m) (ex_names (''work'' # ns))"
  by (simp add: excluded_def demo_selectors prot_contains_def contains_view base_view_def names_view_def
      ex_names_def ex_protection_def)

text \<open>The target is admitted where its parent lists a \<open>Cargo.toml\<close>.\<close>

lemma demo_contents:
  "read_directory demo_os demo_sight [''work''] me (sample_directory
      [Entry ''Cargo.toml'' (sample_file 5 9 1), Entry ''target'' job_tree]) =
   (Some \<lparr>cn_files = [], cn_links = [],
      cn_directories = [([''work'', ''target''], \<lparr>me_shape = shape.Directory, me_len = 0, me_device = Some 1\<rparr>, job_tree)],
      cn_names = \<lparr>ent_files = [''cargo.toml''], ent_dirs = [''target'']\<rparr>, cn_failures = 0\<rparr>, [])"
  if "me_device me = Some 1"
  using that
  by (simp add: read_directory_def sample_directory_def admit_entry_def plain_file_def demo_selectors
      demo_observing contents_empty_def Let_def job_tree_def admit_inspected_def crossing_def
      entries_dir_def entries_file_def entries_empty_def job_lower)

lemma demo_target_contents:
  "read_directory demo_os demo_sight [''work'', ''target''] me job_tree =
   (Some \<lparr>cn_files = [], cn_links = [],
      cn_directories = [([''work'', ''target'', ''debug''], \<lparr>me_shape = shape.Directory, me_len = 0, me_device = Some 1\<rparr>,
        sample_directory [Entry ''.cargo-lock'' (sample_file 0 3 1)])],
      cn_names = \<lparr>ent_files = [], ent_dirs = [''debug'']\<rparr>, cn_failures = 0\<rparr>, [])"
  if "me_device me = Some 1"
proof -
  have "lower ''debug'' = ''debug''" by code_simp
  with that show ?thesis
    by (simp add: read_directory_def sample_directory_def admit_entry_def plain_file_def demo_selectors
        demo_observing contents_empty_def Let_def job_tree_def admit_inspected_def crossing_def
        entries_dir_def entries_empty_def)
qed

definition demo_admission :: admission where
  "demo_admission =
     \<lparr>ad_location = ex_names job_path, ad_identification = \<lparr>id_kind = RustTarget, id_provenance = Inferred\<rparr>\<rparr>"

lemma demo_tags: "tags_of (observing job_machine w) p \<lparr>ent_files = [], ent_dirs = ds\<rparr> = tags_cache cache_tag.Absent"
  by (simp add: tags_of_def cache_tag_of_def owner_tag_of_def has_file_def tags_cache_def)

lemma demo_admitted:
  assumes "cn_names c = \<lparr>ent_files = [], ent_dirs = [''debug'']\<rparr>" and "me_device me = Some 1"
  shows "scan_admission demo_os (demo_setup d m) job_path me (ex_names job_path)
    (region.Open \<lparr>ent_files = [''cargo.toml''], ent_dirs = [''target'']\<rparr>) c = Some demo_admission"
proof -
  let ?site = "\<lparr>st_location = ex_names job_path, st_shape = shape.Directory, st_boundary = Same 1,
    st_listing = listing_new \<lparr>ent_files = [''cargo.toml''], ent_dirs = [''target'']\<rparr>
      \<lparr>ent_files = [], ent_dirs = [''debug'']\<rparr> (tags_cache cache_tag.Absent),
    st_protection = ex_protection, st_excludes = [ex_names [''q'']]\<rparr>"
  have "from_utf8_lossy ''target'' = ''target''"
    by (intro from_utf8_lossy_valid utf8_valid_ascii) (simp add: is_ascii_def)
  then have "site_identify ?site = Some \<lparr>id_kind = RustTarget, id_provenance = Inferred\<rparr>"
    by (simp add: site_identify_def job_path_def ex_names_def file_name_def identify_def listing_kind_def
        declares_rust_target_def family_kind_def to_ascii_lower_def is_ascii_upper_def listing_new_def tags_cache_def)
  moreover have "standing (\<lambda>b. b) ?site"
    by (simp add: standing_def area_admits_def area_of_def job_path_def ex_protection_def ex_names_def
        contains_view base_view_def names_view_def intersects_def prot_contains_def)
  ultimately have "admit (\<lambda>_. []) (\<lambda>b. b) ?site = Inr demo_admission"
    by (simp add: admit_def demo_admission_def result_simps run_discover [THEN iffD2])
  with assms show ?thesis by (simp add: scan_admission_def demo_selectors demo_tags)
qed

definition demo_events :: "scan_event list" where
  "demo_events =
     [Directory_Counted, Walked [''work''], Directory_Counted, Seen job_path demo_admission (on_disk 2) unmeasured []]"

lemma demo_locations:
  "locate unix_host [''work''] = Inr (ex_names [''work''])"
  "locate unix_host [''work'', ''target''] = Inr (ex_names [''work'', ''target''])"
  by (simp_all add: unix_located name_ok_def)

definition demo_directory :: metadata where
  "demo_directory = \<lparr>me_shape = shape.Directory, me_len = 0, me_device = Some 1\<rparr>"

lemma demo_target_walk:
  "scan_walk demo_os demo_sight job_path demo_directory depth
     (region.Open \<lparr>ent_files = [''cargo.toml''], ent_dirs = [''target'']\<rparr>) job_tree =
   (tally_empty Logical, [Directory_Counted, Seen job_path demo_admission (on_disk 2) unmeasured []])"
proof -
  have "me_device demo_directory = Some 1" by (simp add: demo_directory_def)
  note contents = demo_target_contents [OF this, folded job_path_def]
  show ?thesis
    unfolding scan_walk.simps [of demo_os demo_sight job_path] scan_enter_def contents
    by (simp add: demo_selectors demo_locations(2) [folded job_path_def] demo_open [of _ _ "[''target'']", folded job_path_def]
        git_directory_def scan_opened_def demo_admitted sighted_def seen_def demo_observing demo_directory_def)
      (simp add: job_path_def)
qed

lemma demo_walk:
  "snd (scan_walk demo_os demo_sight [''work''] demo_directory 0 Root (sn_tree demo_os [''work''])) = demo_events"
proof -
  have tree: "sn_tree demo_os p = sample_directory
      [Entry ''Cargo.toml'' (sample_file 5 9 1), Entry ''target'' job_tree]" for p
    by (simp add: demo_os_def)
  have "me_device demo_directory = Some 1" by (simp add: demo_directory_def)
  note contents = demo_contents [OF this, folded job_path_def demo_directory_def]
  show ?thesis
    unfolding scan_walk.simps [of demo_os demo_sight "[''work'']"] scan_enter_def tree contents
    by (simp add: demo_selectors demo_locations demo_open [of _ _ "[]"] git_directory_def scan_opened_def
        scan_admission_def children_of_def walked_child_def child_region_def demo_target_walk
        scan_merged_def own_tally_def scan_leave_def cache_events_def Let_def demo_events_def)
qed

theorem sighting_stops_at_candidates_witness:
  "distinct (paths_of demo_events) \<and> \<not> strict_prefix job_path [''work'']"
proof -
  have names: "distinct_names (sn_tree demo_os [''work''])"
    by (simp add: demo_os_def sample_directory_def sample_file_def job_tree_def map_filter_simps)
  have "su_descent demo_sight = Sight Everything" by (simp add: demo_selectors)
  note here = sighting_stops_at_candidates [OF this names demo_walk]
  then show ?thesis by (simp add: demo_events_def)
qed

lemma demo_owner: "ob_owner (sn_observing demo_os) = owning job_machine job_world"
  by (simp add: demo_selectors observing_def)

lemma demo_coherent: "coherent (ob_owner (sn_observing demo_os)) job_owners"
  by (simp add: coherent_def job_owners_def)


theorem scan_measures_what_is_removed_witness:
  "tally_measurement (fst (scan_walk demo_os (demo_setup Measure Allocated) job_path demo_directory 1 Artifact job_tree)) =
     job_measurement"
proof (rule scan_measures_what_is_removed)
  show "strictly (sn_host demo_os) (su_sha (demo_setup Measure Allocated)) job_path job_tree RustTarget = Inr job_measurement"
    by (simp add: demo_selectors job_measured)
  show "na_inspect (node_answers job_tree) = Inr demo_directory"
    by (simp add: job_tree_def sample_directory_def demo_directory_def)
  show "determined (\<lambda>_. (8, 1)) (leaves job_path job_tree)"
    by (simp add: job_tree_def sample_directory_def sample_file_def leaf_of_def determined_def linked_leaf_def)
  have "locate unix_host [''work'', ''target'', ''debug''] = Inr (ex_names [''work'', ''target'', ''debug''])"
    by (simp add: unix_located name_ok_def)
  then show "list_all (open_location demo_os (demo_setup Measure Allocated)) (tree_directories job_path job_tree)"
    by (simp add: job_tree_def sample_directory_def sample_file_def job_path_def open_location_def demo_selectors
        demo_locations demo_open)
qed (simp_all add: demo_selectors)

text \<open>The whole run, from the roots to the report.\<close>

lemma demo_accepted: "accepted demo_os [''work''] = Inr ([''work''], ex_names [''work''])"
proof -
  have os: "ob_metadata (observing job_machine w) p = Inr job_metadata"
    "ob_canonical (observing job_machine w) p = Inr p"
    "ob_read_dir (observing job_machine w) p =
      Inr (if p = [''work''] then [Inr ''Cargo.toml'', Inr ''target''] else [])" for w p
    by (simp_all add: observing_def job_machine_def job_observing_def)
  have shape: "platform_shape job_metadata = shape.Directory" by (simp add: platform_shape_def job_metadata_def)
  have host: "ob_host (observing job_machine job_world) = unix_host"
    using demo_selectors(1) by (simp add: sn_host_def demo_selectors)
  show ?thesis
    by (simp add: accepted_def demo_selectors observe_def os os_result_def shape resolved_path_def host job_selectors demo_locations
        parent_boundary_def parent_entries_def own_entries_def parent_of_def entries_of_def entries_empty_def demo_observing)
qed

lemma demo_roots: "op_roots (su_options (demo_setup d m)) = [[''work'']]"
  by (simp add: demo_setup_def options_new_def)

lemma demo_run: "scan_events demo_os demo_sight = demo_events"
proof -
  have roots: "scan_roots demo_os demo_sight = ([([''work''], ex_names [''work''])], [])"
    by (simp add: scan_roots_def demo_roots demo_accepted admit_root_def Let_def demo_open [of _ _ "[]"])
  have "na_inspect (node_answers (sn_tree demo_os p)) = Inr demo_directory" for p
    by (simp add: demo_os_def sample_directory_def demo_directory_def)
  then have walk: "snd (scan_root demo_os demo_sight [''work'']) = demo_events"
    by (simp add: scan_root_def demo_walk)
  have "volume_sample demo_os p = Inr (1, \<lparr>vs_total = 100, vs_free = 40, vs_available = 30\<rparr>)" for p
    by (simp add: volume_sample_def demo_selectors demo_observing) (simp add: demo_os_def on_disk_def)
  with roots walk show ?thesis
    by (cases "scan_root demo_os demo_sight [''work'']") (simp add: scan_events_def Let_def)
qed

lemma demo_listed:
  "\<exists>f. f \<in> set (sr_candidates (fst (scan_collect demo_os demo_sight job_owners))) \<and> fd_path f = job_path"
proof -
  let ?c = "absorb_all demo_os demo_sight demo_events (collector_new job_owners)"
  obtain f where f: "List.map_filter (found_of demo_os demo_sight job_owners) demo_events = [f]" "fd_path f = job_path"
    by (simp add: demo_events_def map_filter_simps)
  then have "co_candidates ?c = [f]"
    using absorb_all_summarizes [OF demo_coherent, of demo_sight demo_events] by (simp add: summarizes_def)
  with f(2) show ?thesis
    by (auto simp: scan_collect_def scan_collected_def demo_run scan_report_of_def listed_candidates_def Let_def
        split: prod.splits)
qed


end
