(* ===== verification/Prune_Trees.thy ===== *)
theory Prune_Trees
  imports Removal
begin

text \<open>
  Pruning inside a tree (\<open>Tree\<close> in \<open>crates/cli/src/platform/unix.rs\<close>): one file, or one session
  directory with its lock file, found again by the names that lead to it from the opened root and
  removed only if it is the one that was listed. The state is the folder of the root.
\<close>

section \<open>Calls\<close>

datatype pruned = Removed | Moved | Held

datatype prune_call =
    Open_Self | Open_Step | Stat_Step | Stat_Target | Unlink_Target | Open_Lock | Try_Lock
  | Open_Target | Stat_Opened | Restat_Target | Unlink_Lock

text \<open>
  Which call fails on which path below the root; which files are regular, and which are locked by
  another process; \<open>po_eloop\<close> is the number of \<open>ELOOP\<close>, which differs between systems.
\<close>

record prune_os =
  po_rm :: rm_os
  po_fails :: "prune_call \<Rightarrow> os_path \<Rightarrow> os_error option"
  po_regular :: "identity \<Rightarrow> bool"
  po_locked :: "identity \<Rightarrow> bool"
  po_eloop :: int

definition enoent :: os_error where
  "enoent = \<lparr>oe_kind = ENotFound, oe_code = Some 2\<rparr>"

definition enotdir :: os_error where
  "enotdir = \<lparr>oe_kind = ENotADirectory, oe_code = Some 20\<rparr>"

definition vanished :: "prune_os \<Rightarrow> os_error \<Rightarrow> bool" where
  "vanished os e \<longleftrightarrow> oe_code e = Some (po_eloop os) \<or> oe_code e = Some 20 \<or> oe_code e = Some 2"

definition prune_call :: "prune_os \<Rightarrow> prune_call \<Rightarrow> os_path \<Rightarrow> os_error + 'a \<Rightarrow> os_error + 'a" where
  "prune_call os call path answer =
     (case po_fails os call path of Some e \<Rightarrow> Inl e | None \<Rightarrow> answer)"

definition opened_folder :: "fs_tree option \<Rightarrow> os_error + identity \<times> folder" where
  "opened_folder entry =
     (case entry of
        None \<Rightarrow> Inl enoent
      | Some (Leaf i) \<Rightarrow> Inl enotdir
      | Some (Folder i sub) \<Rightarrow> Inr (i, sub))"

text \<open>A name with a NUL byte is no C string.\<close>

definition c_path :: "bytes \<Rightarrow> os_error + bytes" where
  "c_path n =
     (if CHR 0x00 \<in> set n then Inl \<lparr>oe_kind = EInvalidInput, oe_code = None\<rparr> else Inr n)"

section \<open>Finding the directory\<close>

fun plain_names :: "os_path \<Rightarrow> os_error + bytes list option" where
  "plain_names [] = Inr (Some [])"
| "plain_names (n # ns) =
     (if n = ''..'' then Inr None
      else result_bind (c_path n) (\<lambda>c.
        result_bind (plain_names ns) (\<lambda>rest. Inr (map_option ((#) c) rest))))"

text \<open>Down the parents; \<open>at\<close> is where the walk is, \<open>None\<close> that it has moved.\<close>

fun descend :: "prune_os \<Rightarrow> u64 \<Rightarrow> os_path \<Rightarrow> bytes list \<Rightarrow> folder \<Rightarrow> os_error + folder option" where
  "descend os device at [] es = Inr (Some es)"
| "descend os device at (n # ns) es =
     (case prune_call os Open_Step (at @ [n]) (opened_folder (map_of es n)) of
        Inl e \<Rightarrow> if vanished os e then Inr None else Inl e
      | Inr (i, sub) \<Rightarrow>
          (case po_fails os Stat_Step (at @ [n]) of
             Some e \<Rightarrow> Inl e
           | None \<Rightarrow> if volume i \<noteq> device then Inr None else descend os device (at @ [n]) ns sub))"

definition locate_in ::
  "prune_os \<Rightarrow> u64 \<Rightarrow> os_path \<Rightarrow> folder \<Rightarrow> os_error + (bytes list \<times> folder \<times> bytes) option" where
  "locate_in os device rel es =
     result_bind (plain_names rel) (\<lambda>names.
       case names of
         None \<Rightarrow> Inr None
       | Some ns \<Rightarrow>
           if ns = [] then Inr None
           else result_bind (prune_call os Open_Self [] (Inr ())) (\<lambda>_.
             result_bind (descend os device [] (butlast ns) es) (\<lambda>dir.
               Inr (map_option (\<lambda>d. (butlast ns, d, List.last ns)) dir))))"

text \<open>What the root holds when the directory at \<open>ns\<close> has become \<open>new\<close>.\<close>

fun replace_at :: "bytes list \<Rightarrow> folder \<Rightarrow> folder \<Rightarrow> folder" where
  "replace_at [] new es = new"
| "replace_at (n # ns) new es =
     map (\<lambda>(m, t). (m, if m = n then
       (case t of Folder i sub \<Rightarrow> Folder i (replace_at ns new sub) | Leaf i \<Rightarrow> Leaf i) else t)) es"

section \<open>One file\<close>

definition regular_file :: "prune_os \<Rightarrow> fs_tree \<Rightarrow> bool" where
  "regular_file os t = (case t of Leaf i \<Rightarrow> po_regular os i | Folder i sub \<Rightarrow> False)"

definition stat_entry :: "fs_tree option \<Rightarrow> os_error + fs_tree" where
  "stat_entry entry = ok_or enoent entry"

definition prune_file ::
  "prune_os \<Rightarrow> u64 \<Rightarrow> os_path \<Rightarrow> identity \<Rightarrow> folder \<Rightarrow> (os_error + pruned) \<times> folder" where
  "prune_file os device rel expected es =
     (case locate_in os device rel es of
        Inl e \<Rightarrow> (Inl e, es)
      | Inr None \<Rightarrow> (Inr pruned.Moved, es)
      | Inr (Some (parents, dir, name)) \<Rightarrow>
          (case prune_call os Stat_Target rel (stat_entry (map_of dir name)) of
             Inl e \<Rightarrow> (if vanished os e then Inr pruned.Moved else Inl e, es)
           | Inr t \<Rightarrow>
               if \<not> regular_file os t \<or> tree_identity t \<noteq> expected then (Inr pruned.Moved, es)
               else (case po_fails os Unlink_Target rel of
                       Some e \<Rightarrow> (Inl e, es)
                     | None \<Rightarrow> (Inr Removed, replace_at parents (drop_entry name dir) es))))"

section \<open>One session\<close>

datatype session_lock = Taken | Absent | Held

definition lock_session :: "prune_os \<Rightarrow> os_path \<Rightarrow> fs_tree option \<Rightarrow> os_error + session_lock" where
  "lock_session os path entry =
     (case prune_call os Open_Lock path (stat_entry entry) of
        Inl e \<Rightarrow> if oe_code e = Some 2 then Inr Absent else Inl e
      | Inr (Folder i sub) \<Rightarrow> Inl \<lparr>oe_kind = EIsADirectory, oe_code = Some 21\<rparr>
      | Inr (Leaf i) \<Rightarrow>
          prune_call os Try_Lock path
            (Inr (if po_locked os i then session_lock.Held else Taken)))"

text \<open>The directory after the session in it has gone: its lock file goes too when it was taken.\<close>

definition drop_lock ::
  "prune_os \<Rightarrow> os_path \<Rightarrow> os_path \<Rightarrow> session_lock \<Rightarrow> bytes \<Rightarrow> folder \<Rightarrow> (walk_error + pruned) \<times> folder" where
  "drop_lock os shown path held lock dir =
     (if held \<noteq> Taken then (Inr Removed, dir)
      else (case po_fails os Unlink_Lock path of
              None \<Rightarrow> (Inr Removed, drop_entry lock dir)
            | Some e \<Rightarrow>
                (if vanished os e then Inr Removed else Inl (WalkIo shown e), dir)))"

definition remove_session ::
  "prune_os \<Rightarrow> os_path \<Rightarrow> os_path \<Rightarrow> os_path \<Rightarrow> session_lock \<Rightarrow> bytes \<Rightarrow> bytes \<Rightarrow> folder \<Rightarrow> folder
   \<Rightarrow> (walk_error + pruned) \<times> folder" where
  "remove_session os shown rel lock_path held lock name sub dir =
     (case po_fails os Restat_Target rel of
        Some e \<Rightarrow> (if vanished os e then Inr pruned.Moved else Inl (WalkIo shown e), dir)
      | None \<Rightarrow>
          if ro_swapped (po_rm os) shown then (Inr pruned.Moved, dir)
          else (case po_fails os Unlink_Target rel of
                  Some e \<Rightarrow> (Inl (WalkIo shown e), dir)
                | None \<Rightarrow>
                    if sub \<noteq> [] then
                      (Inl (WalkIo shown \<lparr>oe_kind = EDirectoryNotEmpty, oe_code = None\<rparr>), dir)
                    else drop_lock os shown lock_path held lock (drop_entry name dir)))"

definition prune_opened ::
  "prune_os \<Rightarrow> u64 \<Rightarrow> os_path \<Rightarrow> os_path \<Rightarrow> identity \<Rightarrow> os_path \<Rightarrow> session_lock \<Rightarrow> bytes \<Rightarrow> bytes \<Rightarrow> folder
   \<Rightarrow> (walk_error + pruned) \<times> folder" where
  "prune_opened os device shown rel expected lock_path held lock name dir =
     (case prune_call os Open_Target rel (opened_folder (map_of dir name)) of
        Inl e \<Rightarrow> (if vanished os e then Inr pruned.Moved else Inl (WalkIo shown e), dir)
      | Inr (i, sub) \<Rightarrow>
          (case po_fails os Stat_Opened rel of
             Some e \<Rightarrow> (Inl (WalkIo shown e), dir)
           | None \<Rightarrow>
               if i \<noteq> expected \<or> volume i \<noteq> device then (Inr pruned.Moved, dir)
               else (case clear_folder (po_rm os) device {} shown sub of
                       (Inl e, sub') \<Rightarrow> (Inl e, set_entry name (Folder i sub') dir)
                     | (Inr _, sub') \<Rightarrow>
                         remove_session os shown rel lock_path held lock name sub'
                           (set_entry name (Folder i sub') dir))))"

definition prune_session ::
  "prune_os \<Rightarrow> u64 \<Rightarrow> os_path \<Rightarrow> bytes \<Rightarrow> identity \<Rightarrow> os_path \<Rightarrow> folder \<Rightarrow> (walk_error + pruned) \<times> folder" where
  "prune_session os device rel lock expected shown es =
     (case locate_in os device rel es of
        Inl e \<Rightarrow> (Inl (WalkIo shown e), es)
      | Inr None \<Rightarrow> (Inr pruned.Moved, es)
      | Inr (Some (parents, dir, name)) \<Rightarrow>
          (case result_bind (c_path lock) (\<lambda>l. lock_session os (parents @ [l]) (map_of dir l)) of
             Inl e \<Rightarrow> (Inl (WalkIo shown e), es)
           | Inr session_lock.Held \<Rightarrow> (Inr pruned.Held, es)
           | Inr held \<Rightarrow>
               (case prune_opened os device shown rel expected (parents @ [lock]) held lock name dir of
                  (r, dir') \<Rightarrow> (r, replace_at parents dir' es))))"

section \<open>What a prune takes\<close>

text \<open>Every directory lists a name once.\<close>

fun names_once :: "fs_tree \<Rightarrow> bool" and names_once_in :: "folder \<Rightarrow> bool" where
  "names_once (Folder i es) \<longleftrightarrow> distinct (map fst es) \<and> names_once_in es"
| "names_once (Leaf i) \<longleftrightarrow> True"
| "names_once_in [] \<longleftrightarrow> True"
| "names_once_in ((n, t) # es) \<longleftrightarrow> names_once t \<and> names_once_in es"

definition well_named :: "folder \<Rightarrow> bool" where
  "well_named es \<longleftrightarrow> distinct (map fst es) \<and> names_once_in es"

lemma names_once_in_mem: "names_once_in es \<longleftrightarrow> (\<forall>(n, t) \<in> set es. names_once t)"
  by (induction es) auto

lemma all_entries_mem: "all_entries p es = (\<Union>(n, t) \<in> set es. everything (p @ [n]) t)"
  by (induction es) auto

lemma well_named_sub: "well_named es \<Longrightarrow> map_of es n = Some (Folder i sub) \<Longrightarrow> well_named sub"
  by (auto simp: well_named_def names_once_in_mem dest!: map_of_SomeD bspec)

text \<open>The directory that was found is in the tree, on the device and by the parents' names.\<close>

fun folder_at :: "bytes list \<Rightarrow> folder \<Rightarrow> folder option" where
  "folder_at [] es = Some es"
| "folder_at (n # ns) es =
     (case map_of es n of Some (Folder i sub) \<Rightarrow> folder_at ns sub | _ \<Rightarrow> None)"

lemma opened_folder_Inr: "opened_folder entry = Inr (i, sub) \<longleftrightarrow> entry = Some (Folder i sub)"
  by (auto simp: opened_folder_def split: option.splits fs_tree.splits)

lemma prune_call_Inr: "prune_call os call path answer = Inr x \<longleftrightarrow> po_fails os call path = None \<and> answer = Inr x"
  by (auto simp: prune_call_def split: option.splits)

lemma descend_found: "descend os device at ns es = Inr (Some dir) \<Longrightarrow> folder_at ns es = Some dir"
proof (induction os device at ns es rule: descend.induct)
  case (2 os device at n ns es)
  show ?case
  proof (cases "prune_call os Open_Step (at @ [n]) (opened_folder (map_of es n))")
    case (Inl e)
    with 2(2) show ?thesis by (auto split: if_splits)
  next
    case (Inr x)
    then obtain i sub where x: "x = (i, sub)" "map_of es n = Some (Folder i sub)"
      by (cases x) (auto simp: prune_call_Inr opened_folder_Inr)
    with 2(2) Inr have "volume i = device" "po_fails os Stat_Step (at @ [n]) = None"
      "descend os device (at @ [n]) ns sub = Inr (Some dir)"
      by (auto split: option.splits if_splits)
    with 2(1) [OF Inr x(1) [symmetric]] x(2) show ?thesis by simp
  qed
qed simp

lemma plain_names_Some: "plain_names rel = Inr (Some ns) \<Longrightarrow> ns = rel"
  by (induction rel arbitrary: ns) (auto simp: result_simps c_path_def split: if_splits)

lemma locate_in_found:
  assumes "locate_in os device rel es = Inr (Some (parents, dir, name))"
  shows "rel = parents @ [name] \<and> folder_at parents es = Some dir"
proof -
  from assms obtain names where names: "plain_names rel = Inr names" by (auto simp: locate_in_def result_simps)
  with assms obtain ns where "names = Some ns" "ns \<noteq> []"
    by (cases names) (auto simp: locate_in_def split: if_splits)
  with names plain_names_Some have ns: "names = Some rel" "rel \<noteq> []" by auto
  with assms names obtain d where "descend os device [] (butlast rel) es = Inr d"
    "map_option (\<lambda>d. (butlast rel, d, List.last rel)) d = Some (parents, dir, name)"
    by (auto simp: locate_in_def result_simps)
  with ns descend_found show ?thesis by auto
qed

text \<open>Replacing a directory changes what is below it and nothing else.\<close>

lemma replace_at_other: "map_of (replace_at (n # ns) new es) m =
   (if m = n then map_option (\<lambda>t. case t of Folder i sub \<Rightarrow> Folder i (replace_at ns new sub) | Leaf i \<Rightarrow> Leaf i) (map_of es m)
    else map_of es m)"
  by (induction es) auto

lemma everything_below: "(q, i) \<in> everything p t \<Longrightarrow> \<exists>r. q = p @ r"
  "(q, i) \<in> all_entries p es \<Longrightarrow> \<exists>r. q = p @ r"
  by (induction p t and p es rule: everything_all_entries.induct) auto

lemma replaced:
  assumes "distinct (map fst es)" and "names_once_in es" and "folder_at ns es = Some dir"
  shows "all_entries p es - all_entries p (replace_at ns new es) \<subseteq> all_entries (p @ ns) dir - all_entries (p @ ns) new \<and>
    all_entries p (replace_at ns new es) - all_entries p es \<subseteq> all_entries (p @ ns) new - all_entries (p @ ns) dir"
  using assms
proof (induction ns arbitrary: p es)
  case (Cons n ns)
  from Cons.prems(3) obtain i sub where entry: "map_of es n = Some (Folder i sub)" and sub: "folder_at ns sub = Some dir"
    by (auto split: option.splits fs_tree.splits)
  from entry have mem: "(n, Folder i sub) \<in> set es" by (rule map_of_SomeD)
  with Cons.prems have named: "distinct (map fst sub)" "names_once_in sub"
    by (auto simp: names_once_in_mem dest!: bspec)
  have only: "t = Folder i sub" if "(n, t) \<in> set es" for t
    by (rule eq_key_imp_eq_value [OF Cons.prems(1) that mem])
  let ?rest = "filter (\<lambda>(m, t). m \<noteq> n) es"
  have split: "set es = insert (n, Folder i sub) (set ?rest)" using mem by (auto dest: only)
  have same: "map (\<lambda>(m, t). (m, if m = n then
      (case t of Folder i sub \<Rightarrow> Folder i (replace_at ns new sub) | Leaf i \<Rightarrow> Leaf i) else t)) ?rest = ?rest"
    by (rule map_idI) auto
  have "set (replace_at (n # ns) new es) = insert (n, Folder i (replace_at ns new sub)) (set ?rest)"
    unfolding replace_at.simps set_map split image_insert
    unfolding set_map [symmetric] same by simp
  then have now: "all_entries p (replace_at (n # ns) new es) =
      everything (p @ [n]) (Folder i (replace_at ns new sub)) \<union> all_entries p ?rest"
    by (simp add: all_entries_mem)
  have eq: "all_entries p es = everything (p @ [n]) (Folder i sub) \<union> all_entries p ?rest"
    unfolding all_entries_mem [of p es] split by (simp add: all_entries_mem)
  from Cons.IH [OF named sub, of "p @ [n]"] show ?case unfolding eq now by auto
qed simp

text \<open>One file: the entry that was listed goes, and only when it still is that regular file.\<close>

lemma drop_entry_lost:
  assumes "distinct (map fst dir)" and "map_of dir n = Some t"
  shows "all_entries p dir - all_entries p (drop_entry n dir) \<subseteq> everything (p @ [n]) t"
    and "all_entries p (drop_entry n dir) \<subseteq> all_entries p dir"
proof -
  have "u = t" if "(n, u) \<in> set dir" for u
    using eq_key_imp_eq_value [OF assms(1) that map_of_SomeD [OF assms(2)]] .
  then show "all_entries p dir - all_entries p (drop_entry n dir) \<subseteq> everything (p @ [n]) t"
    by (fastforce simp: all_entries_mem drop_entry_def)
  show "all_entries p (drop_entry n dir) \<subseteq> all_entries p dir"
    by (intro all_entries_mono) (auto simp: drop_entry_def)
qed

lemma folder_at_named:
  assumes "folder_at ns es = Some dir" and "distinct (map fst es)" and "names_once_in es"
  shows "distinct (map fst dir) \<and> names_once_in dir"
  using assms
proof (induction ns arbitrary: es)
  case (Cons n ns)
  then obtain i sub where sub: "map_of es n = Some (Folder i sub)" "folder_at ns sub = Some dir"
    by (auto split: option.splits fs_tree.splits)
  from well_named_sub [OF _ sub(1)] Cons.prems have "distinct (map fst sub)" "names_once_in sub"
    by (simp_all add: well_named_def)
  with Cons.IH [OF sub(2)] show ?case by simp
qed simp

lemma prune_file_cases:
  assumes "prune_file os device rel expected es = (r, es')" and "es' \<noteq> es"
  obtains parents dir name where "rel = parents @ [name]" "folder_at parents es = Some dir"
    "map_of dir name = Some (Leaf expected)" "po_regular os expected" "r = Inr Removed"
    "es' = replace_at parents (drop_entry name dir) es"
proof -
  obtain parents dir name t where found: "locate_in os device rel es = Inr (Some (parents, dir, name))"
    and t: "map_of dir name = Some t" "regular_file os t" "tree_identity t = expected"
    and r: "r = Inr Removed" "es' = replace_at parents (drop_entry name dir) es"
    using assms by (auto simp: prune_file_def prune_call_Inr stat_entry_def result_simps
        split: sum.splits option.splits if_splits)
  from t have "t = Leaf expected" "po_regular os expected" by (auto simp: regular_file_def split: fs_tree.splits)
  with that locate_in_found [OF found] t(1) r show thesis by blast
qed

text \<open>Pruning a file removes nothing but the file that was listed: whatever is there under
  its name by then, and whatever call fails, only a regular file of the recorded identity at that
  very path is gone afterwards, and nothing has changed or appeared.\<close>

theorem prune_file_confined:
  assumes "well_named es" and "prune_file os device rel expected es = (r, es')"
  shows "all_entries [] es' \<subseteq> all_entries [] es \<and> all_entries [] es - all_entries [] es' \<subseteq> {(rel, expected)} \<and>
    (es' \<noteq> es \<longrightarrow> r = Inr Removed \<and> po_regular os expected)"
proof (cases "es' = es")
  case False
  from prune_file_cases [OF assms(2) False] obtain parents dir name where
    rel: "rel = parents @ [name]" and dir: "folder_at parents es = Some dir"
    and entry: "map_of dir name = Some (Leaf expected)" "po_regular os expected" "r = Inr Removed"
    and es': "es' = replace_at parents (drop_entry name dir) es" .
  from assms(1) have named: "distinct (map fst es)" "names_once_in es" by (simp_all add: well_named_def)
  note lost = replaced [OF named dir, of "[]" "drop_entry name dir", folded es']
  note inner = drop_entry_lost [OF conjunct1 [OF folder_at_named [OF dir named]] entry(1)]
  from lost inner [of parents] entry(2,3) show ?thesis by (auto simp: rel)
qed simp

text \<open>One session.\<close>

lemma everything_prefix: "everything (p @ q) t = (\<lambda>(r, i). (p @ r, i)) ` everything q t"
  "all_entries (p @ q) es = (\<lambda>(r, i). (p @ r, i)) ` all_entries q es"
  by (induction q t and q es rule: everything_all_entries.induct) (auto simp: image_Un)

lemma all_entries_moved: "all_entries p es' \<subseteq> all_entries p es \<Longrightarrow> all_entries q es' \<subseteq> all_entries q es"
proof -
  have eq: "all_entries p es = (\<lambda>(r, i). (p @ r, i)) ` all_entries [] es" for p es
    using everything_prefix(2) [of p "[]" es] by simp
  have "inj (\<lambda>(r, i). (p @ r, i))" by (auto simp: inj_def)
  then show "all_entries p es' \<subseteq> all_entries p es \<Longrightarrow> all_entries q es' \<subseteq> all_entries q es"
    unfolding eq [of p] eq [of q] by (auto simp: inj_image_subset_iff)
qed

lemma set_entry_lost:
  assumes "distinct (map fst dir)" and "map_of dir n = Some (Folder i sub)"
    and "all_entries (p @ [n]) sub' \<subseteq> all_entries (p @ [n]) sub"
  shows "all_entries p dir - all_entries p (set_entry n (Folder i sub') dir) \<subseteq> everything (p @ [n]) (Folder i sub)"
    and "all_entries p (set_entry n (Folder i sub') dir) \<subseteq> all_entries p dir"
proof -
  have only: "u = Folder i sub" if "(n, u) \<in> set dir" for u
    using eq_key_imp_eq_value [OF assms(1) that map_of_SomeD [OF assms(2)]] .
  show "all_entries p dir - all_entries p (set_entry n (Folder i sub') dir) \<subseteq> everything (p @ [n]) (Folder i sub)"
  proof
    fix x assume x: "x \<in> all_entries p dir - all_entries p (set_entry n (Folder i sub') dir)"
    then obtain m u where u: "(m, u) \<in> set dir" "x \<in> everything (p @ [m]) u" by (auto simp: all_entries_mem)
    show "x \<in> everything (p @ [n]) (Folder i sub)"
    proof (cases "m = n")
      case True
      with u only show ?thesis by blast
    next
      case False
      with u(1) have "(m, u) \<in> set (set_entry n (Folder i sub') dir)" by (force simp: set_entry_def)
      with u(2) x show ?thesis by (auto simp: all_entries_mem)
    qed
  qed
  show "all_entries p (set_entry n (Folder i sub') dir) \<subseteq> all_entries p dir"
    using assms(3) map_of_SomeD [OF assms(2)]
    by (force simp: all_entries_mem [of p] set_entry_def split: if_splits)
qed

lemma remove_session_cases:
  assumes "remove_session os shown rel lock_path held lock name sub dir = (r, dir')"
  shows "dir' = dir \<or> dir' = drop_entry name dir \<or>
    dir' = drop_entry lock (drop_entry name dir) \<and> held = Taken \<and> r = Inr Removed"
  using assms by (auto simp: remove_session_def drop_lock_def split: option.splits if_splits)

lemma prune_opened_cases:
  assumes "prune_opened os device shown rel expected lock_path held lock name dir = (r, dir')"
  shows "dir' = dir \<and> r \<noteq> Inr Removed \<or>
    (\<exists>sub sub'. map_of dir name = Some (Folder expected sub) \<and> volume expected = device \<and>
      all_entries shown sub' \<subseteq> all_entries shown sub \<and>
      (let left = set_entry name (Folder expected sub') dir in
       dir' = left \<or> dir' = drop_entry name left \<or>
       dir' = drop_entry lock (drop_entry name left) \<and> held = Taken \<and> r = Inr Removed))"
proof (cases "prune_call os Open_Target rel (opened_folder (map_of dir name))")
  case (Inl e)
  with assms show ?thesis by (auto simp: prune_opened_def split: if_splits)
next
  case (Inr x)
  obtain i sub where x: "x = (i, sub)" by (cases x)
  with Inr have entry: "map_of dir name = Some (Folder i sub)" by (simp add: prune_call_Inr opened_folder_Inr)
  obtain c sub' where clear: "clear_folder (po_rm os) device {} shown sub = (c, sub')" by fastforce
  note less = clear_only_removes(1) [OF clear]
  show ?thesis
  proof (cases "po_fails os Stat_Opened rel = None \<and> i = expected \<and> volume i = device")
    case False
    with assms Inr x show ?thesis by (auto simp: prune_opened_def simp del: clear_folder.simps split: option.splits if_splits)
  next
    case True
    show ?thesis
    proof (cases c)
      case (Inl e)
      with assms Inr x True clear entry less show ?thesis
        by (intro disjI2 exI [of _ sub] exI [of _ sub']) (auto simp: prune_opened_def simp del: clear_folder.simps)
    next
      case (Inr b)
      with assms \<open>prune_call _ _ _ _ = Inr x\<close> x True clear
      have "remove_session os shown rel lock_path held lock name sub' (set_entry name (Folder expected sub') dir) = (r, dir')"
        by (auto simp: prune_opened_def simp del: clear_folder.simps)
      from remove_session_cases [OF this] True entry less show ?thesis
        by (intro disjI2 exI [of _ sub] exI [of _ sub']) (auto simp: Let_def)
    qed
  qed
qed

definition entry_at :: "os_path \<Rightarrow> folder \<Rightarrow> fs_tree option" where
  "entry_at path es =
     (if path = [] then None
      else Option.bind (folder_at (butlast path) es) (\<lambda>dir. map_of dir (List.last path)))"

lemma map_of_drop_other: "m \<noteq> n \<Longrightarrow> map_of (drop_entry n es) m = map_of es m"
  by (induction es) (auto simp: drop_entry_def)

lemma folder_at_device: "descend os device at ns es = Inr (Some dir) \<Longrightarrow> ns = [] \<or> (\<exists>i. entry_at ns es = Some (Folder i dir) \<and> volume i = device)"
proof (induction os device at ns es rule: descend.induct)
  case (2 os device at n ns es)
  then obtain i sub where sub: "map_of es n = Some (Folder i sub)" "volume i = device"
    "descend os device (at @ [n]) ns sub = Inr (Some dir)"
    "prune_call os Open_Step (at @ [n]) (opened_folder (map_of es n)) = Inr (i, sub)"
    "po_fails os Stat_Step (at @ [n]) = None"
    by (auto simp: prune_call_Inr opened_folder_Inr split: sum.splits option.splits if_splits)
  show ?case
  proof (cases "ns = []")
    case True
    with sub show ?thesis by (simp add: entry_at_def)
  next
    case False
    from 2(1) [OF sub(4) refl sub(5) _ sub(3)] sub False show ?thesis by (auto simp: entry_at_def)
  qed
qed simp

lemma replace_same: "folder_at ns es = Some dir \<Longrightarrow> distinct (map fst es) \<Longrightarrow> names_once_in es \<Longrightarrow> replace_at ns dir es = es"
proof (induction ns arbitrary: es)
  case (Cons n ns)
  then obtain i sub where sub: "map_of es n = Some (Folder i sub)" "folder_at ns sub = Some dir"
    by (auto split: option.splits fs_tree.splits)
  have named: "distinct (map fst sub)" "names_once_in sub"
    using well_named_sub [OF _ sub(1)] Cons.prems by (simp_all add: well_named_def)
  have only: "t = Folder i sub" if "(n, t) \<in> set es" for t
    by (rule eq_key_imp_eq_value [OF Cons.prems(2) that map_of_SomeD [OF sub(1)]])
  show ?case
    using Cons.IH [OF sub(2) named] by (auto intro!: map_idI dest!: only)
qed simp

lemma session_step:
  assumes "well_named es" and "prune_session os device rel lock expected shown es = (r, es')"
  shows "es' = es \<and> r \<noteq> Inr Removed \<or>
    (\<exists>parents name dir dir' held.
      rel = parents @ [name] \<and> folder_at parents es = Some dir \<and> es' = replace_at parents dir' es \<and>
      lock_session os (parents @ [lock]) (map_of dir lock) = Inr held \<and> held \<noteq> session_lock.Held \<and>
      prune_opened os device shown rel expected (parents @ [lock]) held lock name dir = (r, dir'))"
proof (cases "locate_in os device rel es")
  case (Inl e)
  with assms(2) show ?thesis by (auto simp: prune_session_def)
next
  case (Inr found)
  show ?thesis
  proof (cases found)
    case None
    with Inr assms(2) show ?thesis by (auto simp: prune_session_def)
  next
    case (Some f)
    then obtain parents dir name where f: "found = Some (parents, dir, name)" by (cases f) auto
    note at = locate_in_found [OF Inr [unfolded f]]
    show ?thesis
    proof (cases "result_bind (c_path lock) (\<lambda>l. lock_session os (parents @ [l]) (map_of dir l))")
      case (Inl e)
      with Inr f assms(2) show ?thesis by (auto simp: prune_session_def)
    next
      case (Inr held)
      then have held: "lock_session os (parents @ [lock]) (map_of dir lock) = Inr held"
        by (auto simp: result_simps c_path_def split: if_splits)
      obtain r' dir' where opened: "prune_opened os device shown rel expected (parents @ [lock]) held lock name dir = (r', dir')"
        by fastforce
      note here = \<open>locate_in _ _ _ _ = _\<close> f Inr assms(2) opened
      show ?thesis
      proof (cases "held = session_lock.Held")
        case True
        with here show ?thesis by (auto simp: prune_session_def)
      next
        case False
        with here have "r = r' \<and> es' = replace_at parents dir' es"
          by (cases held) (auto simp: prune_session_def)
        with opened at held False show ?thesis by blast
      qed
    qed
  qed
qed

text \<open>Pruning a session removes nothing but the listed session and its lock file: if
  anything is gone, the directory at that path is the listed one, on the device of the root, and what
  is gone lies in it, or is the lock file beside it, which goes last and only when it was locked here.
  Whatever fails, nothing has changed or appeared. A session whose lock a compiler holds is not
  touched, unless the system says that there is no such lock file.\<close>

theorem prune_session_confined:
  assumes "well_named es" and "prune_session os device rel lock expected shown es = (r, es')"
  shows "all_entries [] es' \<subseteq> all_entries [] es \<and>
    (es' \<noteq> es \<or> r = Inr Removed \<longrightarrow>
      (\<exists>sub. entry_at rel es = Some (Folder expected sub) \<and> volume expected = device \<and>
        all_entries [] es - all_entries [] es' \<subseteq>
          everything rel (Folder expected sub) \<union>
          (if r = Inr Removed then {(p, j). p = butlast rel @ [lock]} else {}) \<and>
        (\<forall>j. entry_at (butlast rel @ [lock]) es = Some (Leaf j) \<longrightarrow> \<not> po_locked os j \<or>
          (\<exists>e. po_fails os Open_Lock (butlast rel @ [lock]) = Some e \<and> oe_code e = Some 2))))"
proof -
  from assms(1) have named: "distinct (map fst es)" "names_once_in es" by (simp_all add: well_named_def)
  from session_step [OF assms] show ?thesis
  proof (elim disjE conjE exE)
    fix parents name dir dir' held
    assume rel: "rel = parents @ [name]" and dir: "folder_at parents es = Some dir"
      and es': "es' = replace_at parents dir' es"
      and lock: "lock_session os (parents @ [lock]) (map_of dir lock) = Inr held" "held \<noteq> session_lock.Held"
      and opened: "prune_opened os device shown rel expected (parents @ [lock]) held lock name dir = (r, dir')"
    have dnamed: "distinct (map fst dir)" using folder_at_named [OF dir named] by blast
    from prune_opened_cases [OF opened] show ?thesis
    proof (elim disjE conjE exE)
      assume "dir' = dir" "r \<noteq> Inr Removed"
      with es' replace_same [OF dir named] show ?thesis by simp
    next
      fix sub sub'
      assume entry: "map_of dir name = Some (Folder expected sub)" and dev: "volume expected = device"
        and less: "all_entries shown sub' \<subseteq> all_entries shown sub"
        and how: "let left = set_entry name (Folder expected sub') dir in
          dir' = left \<or> dir' = drop_entry name left \<or> dir' = drop_entry lock (drop_entry name left) \<and> held = Taken \<and> r = Inr Removed"
      let ?left = "set_entry name (Folder expected sub') dir" and ?all = "all_entries parents"
      note left = set_entry_lost [OF dnamed entry all_entries_moved [OF less]]
      have keys: "distinct (map fst ?left)"
        using dnamed by (simp add: set_entry_def comp_def case_prod_unfold if_distrib cong: if_cong)
      have less': "everything rel (Folder expected sub') \<subseteq> everything rel (Folder expected sub)"
        using all_entries_moved [OF less, of rel] by auto
      have "map_of ?left name = Some (Folder expected sub')" using entry by (simp add: map_of_set_entry)
      note dropped = drop_entry_lost [OF keys this, of parents, folded rel]
      have gone: "?all dir - ?all dir' \<subseteq> everything rel (Folder expected sub) \<union>
          (if r = Inr Removed then {(p, j). p = butlast rel @ [lock]} else {}) \<and> ?all dir' \<subseteq> ?all dir"
        using how unfolding Let_def
      proof (elim disjE conjE)
        assume "dir' = ?left"
        with left [of parents, folded rel] show ?thesis by auto
      next
        assume "dir' = drop_entry name ?left"
        with left [of parents, folded rel] dropped less' show ?thesis by auto
      next
        assume last: "dir' = drop_entry lock (drop_entry name ?left)" "held = Taken" "r = Inr Removed"
        then obtain j where j: "map_of dir lock = Some (Leaf j)"
          using lock(1) by (auto simp: lock_session_def stat_entry_def prune_call_Inr result_simps
              split: sum.splits fs_tree.splits if_splits)
        with entry have other: "lock \<noteq> name" by auto
        have "map_of (drop_entry name ?left) lock = Some (Leaf j)"
          using j other by (simp add: map_of_drop_other map_of_set_entry)
        moreover have "distinct (map fst (drop_entry name ?left))"
          using keys by (simp add: drop_entry_def distinct_map_filter)
        ultimately have "?all (drop_entry name ?left) - ?all dir' \<subseteq> everything (parents @ [lock]) (Leaf j)"
          "?all dir' \<subseteq> ?all (drop_entry name ?left)"
          using drop_entry_lost last(1) by blast+
        with left [of parents, folded rel] dropped less' last(3) show ?thesis by (auto simp: rel)
      qed
      have free: "\<not> po_locked os j \<or> (\<exists>e. po_fails os Open_Lock (parents @ [lock]) = Some e \<and> oe_code e = Some 2)"
        if "map_of dir lock = Some (Leaf j)" for j
        using lock that by (auto simp: lock_session_def stat_entry_def prune_call_def
            split: option.splits sum.splits if_splits)
      have here: "entry_at rel es = Some (Folder expected sub)" "entry_at (butlast rel @ [lock]) es = map_of dir lock"
        using dir entry by (simp_all add: entry_at_def rel)
      have lost: "all_entries [] es' \<subseteq> all_entries [] es"
        "all_entries [] es - all_entries [] es' \<subseteq> everything rel (Folder expected sub) \<union>
          (if r = Inr Removed then {(p, j). p = butlast rel @ [lock]} else {})"
        using replaced [OF named dir, of "[]" dir', folded es'] gone by auto
      have "butlast rel = parents" by (simp add: rel)
      with lost dev here free show ?thesis by (intro conjI impI exI [of _ sub]) simp_all
    qed
  qed simp
qed

section \<open>A target directory with a session in it\<close>

definition calm_prune :: prune_os where
  "calm_prune =
     \<lparr>po_rm = undisturbed, po_fails = (\<lambda>_ _. None), po_regular = (\<lambda>_. True), po_locked = (\<lambda>_. False),
      po_eloop = 40\<rparr>"

definition target_folder :: folder where
  "target_folder =
     [(''deps'', Folder (on_disk 20) [(''a.o'', Leaf (on_disk 21)), (''b.o'', Leaf (on_disk 22))]),
      (''unit'', Folder (on_disk 30)
        [(''s-1'', Folder (on_disk 31) [(''dep'', Leaf (on_disk 32))]), (''s-1.lock'', Leaf (on_disk 33)),
         (''s-2'', Folder (on_disk 34) [])])]"

lemmas target_simps = target_folder_def calm_prune_def undisturbed_def prune_call_def opened_folder_def on_disk_def

lemma target_located:
  "locate_in calm_prune 1 [''deps'', ''a.o''] target_folder =
     Inr (Some ([''deps''], [(''a.o'', Leaf (on_disk 21)), (''b.o'', Leaf (on_disk 22))], ''a.o''))"
  "locate_in calm_prune 1 [''unit'', ''s-1''] target_folder =
     Inr (Some ([''unit''], [(''s-1'', Folder (on_disk 31) [(''dep'', Leaf (on_disk 32))]),
       (''s-1.lock'', Leaf (on_disk 33)), (''s-2'', Folder (on_disk 34) [])], ''s-1''))"
  by (simp_all add: locate_in_def c_path_def target_simps)

lemma target_pruned_file:
  "prune_file calm_prune 1 [''deps'', ''a.o''] (on_disk 21) target_folder =
     (Inr Removed, replace_at [''deps''] [(''b.o'', Leaf (on_disk 22))] target_folder)"
  by (simp add: prune_file_def target_located) (simp add: stat_entry_def regular_file_def drop_entry_def target_simps)

lemma target_pruned_session:
  "prune_session calm_prune 1 [''unit'', ''s-1''] ''s-1.lock'' (on_disk 31) [''t'', ''unit'', ''s-1''] target_folder =
     (Inr Removed, replace_at [''unit''] [(''s-2'', Folder (on_disk 34) [])] target_folder)"
  by (simp add: prune_session_def target_located)
    (simp add: c_path_def lock_session_def stat_entry_def prune_opened_def attempt_call_def
      remove_session_def drop_lock_def drop_entry_def set_entry_def target_simps)

lemma target_named: "well_named target_folder"
  by (simp add: well_named_def target_folder_def)

theorem prune_file_confined_witness:
  "all_entries [] target_folder - all_entries [] (replace_at [''deps''] [(''b.o'', Leaf (on_disk 22))] target_folder) \<subseteq>
     {([''deps'', ''a.o''], on_disk 21)}"
  using prune_file_confined [OF target_named target_pruned_file] by blast

theorem prune_session_confined_witness:
  "\<exists>sub. entry_at [''unit'', ''s-1''] target_folder = Some (Folder (on_disk 31) sub) \<and>
     all_entries [] (replace_at [''unit''] [(''s-2'', Folder (on_disk 34) [])] target_folder) \<subseteq> all_entries [] target_folder"
  using prune_session_confined [OF target_named target_pruned_session] by blast

end
