(* ===== verification/Prune_Gathering.thy ===== *)
theory Prune_Gathering
  imports Applying Prune_Trees Pruning Macho
begin

text \<open>
  What a prune finds to remove (\<open>crates/cli/src/prune.rs\<close>): the totals, the scope of a change, the
  doomed incremental sessions, the debug objects that the linked images no longer name, and the
  profiles they are looked for in.
\<close>

section \<open>Totals\<close>

record file_tally =
  tl_files :: u64
  tl_bytes :: byte_size

definition file_tally_zero :: file_tally where
  "file_tally_zero = \<lparr>tl_files = 0, tl_bytes = 0\<rparr>"

definition file_tally_add :: "u64 \<Rightarrow> file_tally \<Rightarrow> file_tally" where
  "file_tally_add len t =
     \<lparr>tl_files = saturating_add (tl_files t) 1, tl_bytes = saturating_add (tl_bytes t) len\<rparr>"

definition file_tally_merge :: "file_tally \<Rightarrow> file_tally \<Rightarrow> file_tally" where
  "file_tally_merge t u =
     \<lparr>tl_files = saturating_add (tl_files t) (tl_files u),
      tl_bytes = saturating_add (tl_bytes t) (tl_bytes u)\<rparr>"

record removed =
  rd_stale_objects :: file_tally
  rd_superseded_sessions :: file_tally
  rd_abandoned_sessions :: file_tally

definition removed_zero :: removed where
  "removed_zero =
     \<lparr>rd_stale_objects = file_tally_zero, rd_superseded_sessions = file_tally_zero,
      rd_abandoned_sessions = file_tally_zero\<rparr>"

fun removed_slot :: "prune_rule \<Rightarrow> removed \<Rightarrow> file_tally" where
  "removed_slot StaleObject r = rd_stale_objects r"
| "removed_slot SupersededSession r = rd_superseded_sessions r"
| "removed_slot AbandonedSession r = rd_abandoned_sessions r"

fun removed_update :: "prune_rule \<Rightarrow> (file_tally \<Rightarrow> file_tally) \<Rightarrow> removed \<Rightarrow> removed" where
  "removed_update StaleObject f r = r\<lparr>rd_stale_objects := f (rd_stale_objects r)\<rparr>"
| "removed_update SupersededSession f r = r\<lparr>rd_superseded_sessions := f (rd_superseded_sessions r)\<rparr>"
| "removed_update AbandonedSession f r = r\<lparr>rd_abandoned_sessions := f (rd_abandoned_sessions r)\<rparr>"

definition removed_add :: "prune_rule \<Rightarrow> u64 \<Rightarrow> removed \<Rightarrow> removed" where
  "removed_add rule len = removed_update rule (file_tally_add len)"

definition all_prune_rules :: "prune_rule list" where
  "all_prune_rules = [StaleObject, SupersededSession, AbandonedSession]"

definition removed_merge :: "removed \<Rightarrow> removed \<Rightarrow> removed" where
  "removed_merge r u =
     foldl (\<lambda>acc rule. removed_update rule (\<lambda>t. file_tally_merge t (removed_slot rule u)) acc) r all_prune_rules"

definition removed_files :: "removed \<Rightarrow> u64" where
  "removed_files r =
     sat_add (sat_add (tl_files (rd_stale_objects r)) (tl_files (rd_superseded_sessions r)))
       (tl_files (rd_abandoned_sessions r))"

definition removed_bytes :: "removed \<Rightarrow> byte_size" where
  "removed_bytes r =
     saturating_add (saturating_add (tl_bytes (rd_stale_objects r)) (tl_bytes (rd_superseded_sessions r)))
       (tl_bytes (rd_abandoned_sessions r))"

section \<open>Scopes\<close>

text \<open>The changed paths are a \<open>BTreeSet\<close>: strictly ascending.\<close>

datatype scope = Everything | Changed "os_path list"

fun scope_touches :: "scope \<Rightarrow> os_path \<Rightarrow> bool" where
  "scope_touches Everything directory \<longleftrightarrow> True"
| "scope_touches (Changed changed) directory \<longleftrightarrow>
     list_ex (\<lambda>a. a \<in> set changed) (ancestors directory) \<or>
     (case List.find (\<lambda>p. directory < p) changed of
        Some p \<Rightarrow> starts_with directory p
      | None \<Rightarrow> False)"

section \<open>What is looked at\<close>

record prune_view =
  pv_observing :: observe_os
  pv_len :: "os_path \<Rightarrow> os_error + u64"
  pv_tree :: "os_path \<Rightarrow> os_tree"
  pv_image :: "os_path \<Rightarrow> os_error + bytes"
  pv_read :: "os_path \<Rightarrow> u64 \<Rightarrow> os_error option"

definition listed :: "prune_view \<Rightarrow> (file_type \<Rightarrow> bool) \<Rightarrow> os_path \<Rightarrow> bytes list" where
  "listed v wanted directory =
     (case ob_read_dir (pv_observing v) directory of
        Inl _ \<Rightarrow> []
      | Inr entries \<Rightarrow>
          sort (List.map_filter (\<lambda>e. case e of
              Inr n \<Rightarrow>
                (case ob_file_type (pv_observing v) (directory @ [n]) of
                   Inr t \<Rightarrow> if wanted t then Some n else None
                 | Inl _ \<Rightarrow> None)
            | Inl _ \<Rightarrow> None) entries))"

text \<open>The bytes below a directory, with a stack of directories still to read.\<close>

definition weigh_entry ::
  "prune_view \<Rightarrow> os_path \<Rightarrow> os_entry \<Rightarrow> (os_path \<times> os_tree) list \<times> u64 \<Rightarrow> (os_path \<times> os_tree) list \<times> u64"
  where
  "weigh_entry v directory e state =
     (case (e, state) of
        (os_entry.Unreadable _, _) \<Rightarrow> state
      | (Entry n tree, (pushed, acc)) \<Rightarrow>
          (case ob_file_type (pv_observing v) (directory @ [n]) of
             Inl _ \<Rightarrow> state
           | Inr t \<Rightarrow>
               if ft_dir t then (pushed @ [(directory @ [n], tree)], acc)
               else if ft_file t then
                 (case na_inspect (node_answers tree) of
                    Inr me \<Rightarrow> (pushed, saturating_add acc (me_len me))
                  | Inl _ \<Rightarrow> state)
               else state))"

definition weigh_directory ::
  "prune_view \<Rightarrow> os_path \<Rightarrow> os_tree \<Rightarrow> u64 \<Rightarrow> (os_path \<times> os_tree) list \<times> u64" where
  "weigh_directory v directory tree acc =
     (case na_read_dir (node_answers tree) of
        Some _ \<Rightarrow> ([], acc)
      | None \<Rightarrow> foldl (\<lambda>state e. weigh_entry v directory e state) ([], acc) (node_entries tree))"

definition stack_nodes :: "(os_path \<times> os_tree) list \<Rightarrow> nat" where
  "stack_nodes stack = (\<Sum>x\<leftarrow>stack. tree_nodes (snd x))"

lemma weigh_entry_nodes:
  "stack_nodes (fst (weigh_entry v directory e (pushed, acc))) \<le> stack_nodes pushed + entry_nodes e"
  by (cases e) (auto simp: weigh_entry_def stack_nodes_def split: sum.splits)

lemma weigh_entries_nodes:
  "stack_nodes (fst (foldl (\<lambda>state e. weigh_entry v directory e state) (pushed, acc) entries)) \<le>
     stack_nodes pushed + (\<Sum>e\<leftarrow>entries. entry_nodes e)"
proof (induction entries arbitrary: pushed acc)
  case (Cons e entries)
  obtain p a where one: "weigh_entry v directory e (pushed, acc) = (p, a)" by fastforce
  with Cons [of p a] weigh_entry_nodes [of v directory e pushed acc] show ?case by simp
qed simp

lemma weigh_directory_nodes: "stack_nodes (fst (weigh_directory v directory tree acc)) < tree_nodes tree"
  using weigh_entries_nodes [of v directory "[]" acc "node_entries tree"]
  by (cases tree) (auto simp: weigh_directory_def stack_nodes_def split: option.splits)

lemma weigh_pushed_nodes:
  "(pushed, acc') = weigh_directory v directory tree acc \<Longrightarrow> stack_nodes (rev pushed) < tree_nodes tree"
  using weigh_directory_nodes [of v directory tree acc]
  by (cases "weigh_directory v directory tree acc") (simp add: stack_nodes_def rev_map [symmetric])

lemma stack_nodes_append: "stack_nodes (xs @ ys) = stack_nodes xs + stack_nodes ys"
  by (simp add: stack_nodes_def)

lemma stack_nodes_Cons: "stack_nodes ((d, t) # stack) = tree_nodes t + stack_nodes stack"
  by (simp add: stack_nodes_def)

function weigh :: "prune_view \<Rightarrow> (os_path \<times> os_tree) list \<Rightarrow> u64 \<Rightarrow> u64" where
  "weigh v [] acc = acc"
| "weigh v ((directory, tree) # stack) acc =
     (case weigh_directory v directory tree acc of
        (pushed, acc') \<Rightarrow> weigh v (rev pushed @ stack) acc')"
  by pat_completeness auto

termination
  by (relation "measure (\<lambda>(v, stack, acc). stack_nodes stack)")
    (auto simp: stack_nodes_append stack_nodes_Cons dest: weigh_pushed_nodes)

definition weight :: "prune_view \<Rightarrow> os_path \<Rightarrow> u64" where
  "weight v path = weigh v [(path, pv_tree v path)] 0"

section \<open>Doomed sessions\<close>

datatype doom = Doom_File | Doom_Session bytes

record doomed_entry =
  dm_relative :: os_path
  dm_identity :: identity
  dm_len :: u64
  dm_rule :: prune_rule
  dm_doom :: doom

definition doomed_session ::
  "prune_view \<Rightarrow> os_path \<Rightarrow> os_path \<Rightarrow> session \<times> prune_rule \<Rightarrow> doomed_entry option" where
  "doomed_session v root directory entry =
     (case entry of (session, rule) \<Rightarrow>
        (let path = directory @ [se_name session] in
         case (ob_identity (pv_observing v) path, strip_prefix root path, lock_name session) of
           (Inr i, Some rel, Inr lock) \<Rightarrow>
             Some \<lparr>dm_relative = rel, dm_identity = i, dm_len = weight v path, dm_rule = rule,
               dm_doom = Doom_Session (name_display lock)\<rparr>
         | _ \<Rightarrow> None))"

definition unit_sessions :: "prune_view \<Rightarrow> os_path \<Rightarrow> session list" where
  "unit_sessions v directory =
     List.map_filter session_parse (List.map_filter from_utf8 (listed v ft_dir directory))"

definition gather_sessions :: "prune_view \<Rightarrow> os_path \<Rightarrow> scope \<Rightarrow> os_path \<Rightarrow> doomed_entry list" where
  "gather_sessions v root scope profile =
     (let incremental = profile @ [''incremental''];
          directories = filter (scope_touches scope)
            (map (\<lambda>unit. incremental @ [unit]) (listed v ft_dir incremental)) in
      concat (map (\<lambda>directory.
        List.map_filter (doomed_session v root directory) (doomed (unit_sessions v directory))) directories))"

section \<open>Linked images\<close>

datatype image_error = Absent | Io | Mach

definition image_io :: "os_error \<Rightarrow> image_error" where
  "image_io e = (if oe_kind e = ENotFound then image_error.Absent else Io)"

definition image_mach :: "mach_error + 'a \<Rightarrow> image_error + 'a" where
  "image_mach r = (case r of Inl _ \<Rightarrow> Inl Mach | Inr x \<Rightarrow> Inr x)"

definition longest_name :: u64 where
  "longest_name = 4096"

text \<open>What the file of an image holds from an offset on; past its end there is nothing.\<close>

definition image_from :: "prune_view \<Rightarrow> os_path \<Rightarrow> bytes \<Rightarrow> u64 \<Rightarrow> image_error + bytes" where
  "image_from v path bs at =
     (case pv_read v path at of Some e \<Rightarrow> Inl (image_io e) | None \<Rightarrow> Inr (drop (unat at) bs))"

definition exactly :: "prune_view \<Rightarrow> os_path \<Rightarrow> bytes \<Rightarrow> u64 \<Rightarrow> u64 \<Rightarrow> image_error + bytes" where
  "exactly v path bs at len =
     result_bind (image_from v path bs at) (\<lambda>rest.
       if length (take (unat len) rest) = unat len then Inr (take (unat len) rest) else Inl Mach)"

text \<open>\<open>read_exact\<close> fails at the end of the file, which is an error of its own kind.\<close>

fun symbol_offsets :: "nat \<Rightarrow> bytes \<Rightarrow> image_error + u32 list" where
  "symbol_offsets 0 bs = Inr []"
| "symbol_offsets (Suc n) bs =
     (if length bs < 16 then Inl Io
      else result_bind (symbol_offsets n (drop 16 bs)) (\<lambda>rest.
        Inr (Macho.debug_objects (take 16 bs) @ rest)))"

definition debug_offsets :: "prune_view \<Rightarrow> os_path \<Rightarrow> bytes \<Rightarrow> symtab_command \<Rightarrow> image_error + u32 list" where
  "debug_offsets v path bs table =
     result_bind (image_from v path bs (sy_symbols table)) (symbol_offsets (unat (sy_count table)))"

definition name_at :: "prune_view \<Rightarrow> os_path \<Rightarrow> bytes \<Rightarrow> symtab_command \<Rightarrow> u32 \<Rightarrow> image_error + bytes" where
  "name_at v path bs table offset32 =
     (let offset = (ucast offset32 :: u64) in
      result_bind (ok_or Mach (checked_sub (sy_strings_len table) offset)) (\<lambda>left.
      result_bind (ok_or Mach (checked_add (sy_strings table) offset)) (\<lambda>start.
      result_bind (exactly v path bs start (min left longest_name)) (\<lambda>text.
      result_bind (ok_or Mach (terminated text)) (\<lambda>recorded. Inr (base_name recorded))))))"

fun names_at ::
  "prune_view \<Rightarrow> os_path \<Rightarrow> bytes \<Rightarrow> symtab_command \<Rightarrow> u32 list \<Rightarrow> bytes set \<Rightarrow> image_error + bytes set" where
  "names_at v path bs table [] acc = Inr acc"
| "names_at v path bs table (offset # offsets) acc =
     result_bind (name_at v path bs table offset) (\<lambda>name.
       names_at v path bs table offsets (insert name acc))"

definition image_objects :: "prune_view \<Rightarrow> os_path \<Rightarrow> image_error + bytes set" where
  "image_objects v path =
     (case pv_image v path of
        Inl e \<Rightarrow> Inl (image_io e)
      | Inr bs \<Rightarrow>
          result_bind (exactly v path bs 0 32) (\<lambda>head.
          result_bind (image_mach (mach_header head)) (\<lambda>commands.
          result_bind (exactly v path bs 32 (ucast (cm_len commands))) (\<lambda>table.
          result_bind (image_mach (symtab table (cm_count commands))) (\<lambda>symtab.
          result_bind (debug_offsets v path bs symtab) (\<lambda>offsets.
            names_at v path bs symtab offsets {}))))))"

text \<open>The names of every image a unit was linked into; \<open>None\<close> when it has none.\<close>

fun referenced_from ::
  "prune_view \<Rightarrow> os_path \<Rightarrow> bytes list \<Rightarrow> bool \<Rightarrow> bytes set \<Rightarrow> (image_error + bytes set) option" where
  "referenced_from v directory [] sighted names = (if sighted then Some (Inr names) else None)"
| "referenced_from v directory (linked # rest) sighted names =
     (case from_utf8 linked of
        None \<Rightarrow> Some (Inl Mach)
      | Some name \<Rightarrow>
          (case image_objects v (directory @ [name]) of
             Inr objects \<Rightarrow> referenced_from v directory rest True (names \<union> objects)
           | Inl e \<Rightarrow>
               if e = image_error.Absent then referenced_from v directory rest sighted names
               else Some (Inl e)))"

definition referenced :: "prune_view \<Rightarrow> os_path \<Rightarrow> bytes \<Rightarrow> (image_error + bytes set) option" where
  "referenced v directory unit = referenced_from v directory (images unit) False {}"

section \<open>Stale objects\<close>

definition object_directories :: "prune_view \<Rightarrow> os_path \<Rightarrow> os_path list" where
  "object_directories v profile =
     map (\<lambda>name. profile @ [name]) [''deps'', ''examples''] @
     map (\<lambda>name. profile @ [''build'', name]) (listed v ft_dir (profile @ [''build'']))"

definition parsed_objects :: "prune_view \<Rightarrow> os_path \<Rightarrow> (object \<times> bytes) list" where
  "parsed_objects v directory =
     List.map_filter (\<lambda>n. map_option (\<lambda>ob. (ob, n)) (object_parse n)) (listed v ft_file directory)"

definition doomed_object :: "prune_view \<Rightarrow> os_path \<Rightarrow> os_path \<Rightarrow> doomed_entry option" where
  "doomed_object v root path =
     (case (pv_len v path, strip_prefix root path, ob_identity (pv_observing v) path) of
        (Inr len, Some rel, Inr i) \<Rightarrow>
          Some \<lparr>dm_relative = rel, dm_identity = i, dm_len = len, dm_rule = StaleObject, dm_doom = Doom_File\<rparr>
      | _ \<Rightarrow> None)"

text \<open>The objects of one unit, with one more image that cannot be read, or none.\<close>

definition unit_objects ::
  "prune_view \<Rightarrow> os_path \<Rightarrow> os_path \<Rightarrow> (object \<times> bytes) list \<Rightarrow> bytes \<Rightarrow> doomed_entry list \<times> u64" where
  "unit_objects v root directory parsed unit =
     (case referenced v directory unit of
        None \<Rightarrow> ([], 0)
      | Some (Inl _) \<Rightarrow> ([], 1)
      | Some (Inr references) \<Rightarrow>
          (List.map_filter (\<lambda>(ob, name). doomed_object v root (directory @ [name]))
             (filter (\<lambda>(ob, name). stale ob unit references) parsed), 0))"

definition directory_objects :: "prune_view \<Rightarrow> os_path \<Rightarrow> os_path \<Rightarrow> (doomed_entry list \<times> u64) list" where
  "directory_objects v root directory =
     (let parsed = parsed_objects v directory in
      map (unit_objects v root directory parsed) (mixed (map fst parsed)))"

definition gather_objects :: "prune_view \<Rightarrow> os_path \<Rightarrow> scope \<Rightarrow> os_path \<Rightarrow> doomed_entry list \<times> u64" where
  "gather_objects v root scope profile =
     (let units = concat (map (directory_objects v root)
          (filter (scope_touches scope) (object_directories v profile))) in
      (concat (map fst units), foldl sat_add 0 (map snd units)))"

section \<open>Profiles\<close>

definition fingerprinted :: "prune_view \<Rightarrow> os_path \<Rightarrow> bool" where
  "fingerprinted v profile =
     (case ob_metadata (pv_observing v) (profile @ [''.fingerprint'']) of
        Inr m \<Rightarrow> ft_dir (nm_type m) | Inl _ \<Rightarrow> False)"

definition survey_profiles :: "prune_view \<Rightarrow> survey \<Rightarrow> os_path list" where
  "survey_profiles v sv =
     remdups_adj (sort (filter (fingerprinted v)
       (List.map_filter (\<lambda>l. parent_of (lk_path l)) (filter (\<lambda>l. lk_protocol l = Cargo) (sv_locks sv)))))"

record gathered =
  ga_profiles :: nat
  ga_doomed :: "doomed_entry list"
  ga_unreadable :: u64

definition gather :: "prune_view \<Rightarrow> os_path \<Rightarrow> survey \<Rightarrow> scope \<Rightarrow> gathered" where
  "gather v root sv scope =
     (let profiles = survey_profiles v sv;
          passes = map (\<lambda>profile. (gather_sessions v root scope profile, gather_objects v root scope profile))
            (filter (scope_touches scope) profiles) in
      \<lparr>ga_profiles = length profiles,
       ga_doomed = concat (map (\<lambda>(sessions, objects, _). sessions @ objects) passes),
       ga_unreadable = foldl sat_add 0 (map (\<lambda>(_, _, unreadable). unreadable) passes)\<rparr>)"

end
