(* ===== verification/Prune_Runs.thy ===== *)
theory Prune_Runs
  imports Prune_Gathering Applying_Facts
begin

text \<open>
  Pruning the targets that were found (\<open>crates/cli/src/prune.rs\<close>, \<open>prune/capability.rs\<close>): each is
  observed, surveyed, leased, cleared, gathered and pruned, with other processes acting between the
  steps. A prune works on the directory it has opened, whatever its path names by then.
\<close>

section \<open>The world\<close>

record 'd pruner =
  pr_machine :: "'d machine"
  pr_view :: "'d \<Rightarrow> prune_view"
  pr_os :: "'d \<Rightarrow> prune_os"
  pr_behind :: "'d \<Rightarrow> identity \<Rightarrow> folder"
  pr_written :: "identity \<Rightarrow> folder \<Rightarrow> 'd \<Rightarrow> 'd"

definition viewing :: "'d pruner \<Rightarrow> 'd world \<Rightarrow> prune_view" where
  "viewing pr w = (pr_view pr (wd_disk w))\<lparr>pv_observing := observing (pr_machine pr) w\<rparr>"

definition pruning :: "'d pruner \<Rightarrow> 'd world \<Rightarrow> prune_os" where
  "pruning pr w = (pr_os pr (wd_disk w))\<lparr>po_locked := (\<lambda>i. i \<in> locked_files w)\<rparr>"

section \<open>Authorizations\<close>

record prunable =
  pb_clearance :: prune_clearance
  pb_lease :: lease
  pb_root :: os_path

definition prunable_new :: "'d pruner \<Rightarrow> prune_clearance \<Rightarrow> lease \<Rightarrow> os_path \<Rightarrow> 'd world \<Rightarrow> rejection + prunable" where
  "prunable_new pr c l path w =
     (let mc = pr_machine pr in
      result_bind (locate (mc_host mc) path) (\<lambda>location.
        if location \<noteq> pl_location c then Inl (Stale (pl_location c) CanonicalPath)
        else (case mc_outer mc (wd_disk w) path of
          (outer, es) \<Rightarrow>
            (case open_root (mc_removing mc (wd_disk w)) outer path (pl_identity c) es of
               Inl e \<Rightarrow> Inl (walk_rejection (mc_host mc) e (pl_location c) fs_op.Open)
             | Inr _ \<Rightarrow> Inr \<lparr>pb_clearance = c, pb_lease = l, pb_root = path\<rparr>))))"

definition prune_one ::
  "'d pruner \<Rightarrow> prunable \<Rightarrow> doomed_entry \<Rightarrow> 'd world \<Rightarrow> (rejection + pruned) \<times> 'd world" where
  "prune_one pr pb dm w =
     (let root = pl_identity (pb_clearance pb);
          host = mc_host (pr_machine pr);
          shown = pb_root pb @ dm_relative dm;
          es = pr_behind pr (wd_disk w) root in
      case dm_doom dm of
        Doom_File \<Rightarrow>
          (case prune_file (pruning pr w) (volume root) (dm_relative dm) (dm_identity dm) es of
             (r, es') \<Rightarrow>
               (os_result host shown fs_op.Remove r, w\<lparr>wd_disk := pr_written pr root es' (wd_disk w)\<rparr>))
      | Doom_Session lock \<Rightarrow>
          (case prune_session (pruning pr w) (volume root) (dm_relative dm) lock (dm_identity dm) shown es of
             (r, es') \<Rightarrow>
               (case r of
                  Inr p \<Rightarrow> Inr p
                | Inl e \<Rightarrow> Inl (walk_rejection host e (pl_location (pb_clearance pb)) fs_op.Remove),
                w\<lparr>wd_disk := pr_written pr root es' (wd_disk w)\<rparr>)))"

section \<open>One target\<close>

datatype prune_admission = Admitted nat | Rejected rejection

record prune_subject =
  ps_id :: candidate_id
  ps_location :: location
  ps_admission :: prune_admission
  ps_removed :: removed
  ps_held :: file_tally
  ps_unreadable_images :: u64

record prune_failure =
  pf_rule :: prune_rule
  pf_rejection :: rejection

record prune_pass =
  pp_subject :: prune_subject
  pp_failures :: "prune_failure list"

record prune_terms =
  pt_excludes :: "location list"
  pt_protection :: protection

definition prune_rejected :: "Applying.found \<Rightarrow> rejection \<Rightarrow> prune_pass" where
  "prune_rejected f r =
     \<lparr>pp_subject = \<lparr>ps_id = cd_id (fd_candidate f), ps_location = cd_location (fd_candidate f),
        ps_admission = Rejected r, ps_removed = removed_zero, ps_held = file_tally_zero,
        ps_unreadable_images = 0\<rparr>,
      pp_failures = []\<rparr>"

record prune_account =
  pa_removed :: removed
  pa_held :: file_tally
  pa_failures :: "prune_failure list"

definition account_zero :: prune_account where
  "account_zero = \<lparr>pa_removed = removed_zero, pa_held = file_tally_zero, pa_failures = []\<rparr>"

definition account_outcome :: "doomed_entry \<Rightarrow> rejection + pruned \<Rightarrow> prune_account \<Rightarrow> prune_account" where
  "account_outcome dm outcome a =
     (case outcome of
        Inr Removed \<Rightarrow> a\<lparr>pa_removed := removed_add (dm_rule dm) (dm_len dm) (pa_removed a)\<rparr>
      | Inr pruned.Held \<Rightarrow> a\<lparr>pa_held := file_tally_add (dm_len dm) (pa_held a)\<rparr>
      | Inr pruned.Moved \<Rightarrow> a
      | Inl r \<Rightarrow> a\<lparr>pa_failures := pa_failures a @ [\<lparr>pf_rule = dm_rule dm, pf_rejection = r\<rparr>]\<rparr>)"

text \<open>Without an authorization, in a dry run, everything that was gathered counts as removed.\<close>

fun prune_each ::
  "'d pruner \<Rightarrow> prunable option \<Rightarrow> doomed_entry list \<Rightarrow> prune_account \<Rightarrow> 'd world \<Rightarrow> prune_account \<times> 'd world"
  where
  "prune_each pr pb [] a w = (a, w)"
| "prune_each pr pb (dm # dms) a w =
     (case (case pb of None \<Rightarrow> (Inr Removed, w) | Some p \<Rightarrow> prune_one pr p dm (meanwhile (pr_machine pr) w)) of
        (outcome, w') \<Rightarrow> prune_each pr pb dms (account_outcome dm outcome a) w')"

definition prune_gathered ::
  "'d pruner \<Rightarrow> Applying.found \<Rightarrow> observation \<Rightarrow> prunable option \<Rightarrow> gathered \<Rightarrow> 'd world \<Rightarrow> prune_pass \<times> 'd world" where
  "prune_gathered pr f ob pb g w =
     (case prune_each pr pb (ga_doomed g) account_zero w of
        (a, w') \<Rightarrow>
          (\<lparr>pp_subject = \<lparr>ps_id = cd_id (fd_candidate f), ps_location = ob_location ob,
              ps_admission = Admitted (ga_profiles g), ps_removed = pa_removed a, ps_held = pa_held a,
              ps_unreadable_images = ga_unreadable g\<rparr>,
            pp_failures = pa_failures a\<rparr>,
           (case pb of None \<Rightarrow> w' | Some p \<Rightarrow> release_lease (pb_lease p) w')))"

text \<open>The authorization; a lease is dropped when it is not given.\<close>

definition prune_authorized ::
  "'d pruner \<Rightarrow> contention + hold \<Rightarrow> prune_clearance \<Rightarrow> os_path \<Rightarrow> 'd world \<Rightarrow> rejection + prunable option" where
  "prune_authorized pr h c path w =
     (case h of
        Inr (Leased l) \<Rightarrow> result_bind (prunable_new pr c l path w) (\<lambda>p. Inr (Some p))
      | _ \<Rightarrow> Inr None)"

definition prune_drop :: "contention + hold \<Rightarrow> 'd world \<Rightarrow> 'd world" where
  "prune_drop h w = (case h of Inr hold \<Rightarrow> drop_hold hold w | Inl _ \<Rightarrow> w)"

definition prune_surveyed ::
  "'d pruner \<Rightarrow> prune_terms \<Rightarrow> mode \<Rightarrow> Applying.found \<Rightarrow> scope \<Rightarrow> observation \<Rightarrow> survey \<Rightarrow> ownership \<Rightarrow> 'd world
   \<Rightarrow> prune_pass \<times> 'd world" where
  "prune_surveyed pr t m f scope ob sv ownership w =
     (let mc = pr_machine pr in
      case take_hold mc m (sv_locks sv) (meanwhile mc w) of
        (h, w1) \<Rightarrow>
          (case result_bind (clear_prune (mc_sha mc) (mc_fold mc)
                 (observation_site ob (pt_protection t) (pt_excludes t))
                 \<lparr>pc_recorded = fd_candidate f, pc_identity = ob_found_identity ob, pc_ownership = ownership,
                  pc_liveness = hold_liveness h\<rparr>)
               (\<lambda>c. prune_authorized pr h c (ob_path ob) (meanwhile mc w1)) of
             Inl r \<Rightarrow> (prune_rejected f r, prune_drop h (meanwhile mc w1))
           | Inr pb \<Rightarrow>
               (let w2 = meanwhile mc (meanwhile mc w1) in
                prune_gathered pr f ob pb (gather (viewing pr w2) (ob_path ob) sv scope) w2)))"

definition prune_survey ::
  "'d pruner \<Rightarrow> owners \<Rightarrow> survey option \<Rightarrow> os_path \<Rightarrow> 'd world \<Rightarrow> rejection + survey" where
  "prune_survey pr own known path w =
     (let mc = pr_machine pr in
      case known of
        Some sv \<Rightarrow> complete_survey (owning mc w) own path sv
      | None \<Rightarrow> owners_survey (owning mc w) (mc_surveying mc (wd_disk w)) own path (tree_at mc w path))"

definition prune_candidate ::
  "'d pruner \<Rightarrow> prune_terms \<Rightarrow> mode \<Rightarrow> survey option \<Rightarrow> scope \<Rightarrow> Applying.found \<Rightarrow> owners \<times> 'd world
   \<Rightarrow> prune_pass \<times> owners \<times> 'd world" where
  "prune_candidate pr t m known scope f state =
     (case state of (own, w) \<Rightarrow>
       (let mc = pr_machine pr; w1 = meanwhile mc w; w2 = meanwhile mc w1 in
        case observe (observing mc w) (fd_path f) of
          Inl r \<Rightarrow> (prune_rejected f r, own, w)
        | Inr ob \<Rightarrow>
            (case prune_survey pr own known (ob_path ob) w1 of
               Inl r \<Rightarrow> (prune_rejected f r, own, w1)
             | Inr sv \<Rightarrow>
                 (case owners_of (owning mc w2) (ob_path ob) (sv_markers sv) own of
                    (ownership, own') \<Rightarrow>
                      (case prune_surveyed pr t m f scope ob sv ownership w2 of
                         (p, w') \<Rightarrow> (p, own', w'))))))"

section \<open>A run\<close>

record prune_run =
  pn_mode :: mode
  pn_subjects :: "prune_subject list"
  pn_totals :: removed
  pn_failures :: "prune_failure list"
  pn_observed_freed :: "byte_size option"

definition prune_reclamation :: "removed \<Rightarrow> prune_failure list \<Rightarrow> reclamation" where
  "prune_reclamation r failures =
     (if 0 < removed_files r \<or> failures \<noteq> [] then Unattributable else Unchanged)"

definition prune_failed :: "prune_run \<Rightarrow> bool" where
  "prune_failed r \<longleftrightarrow> pn_failures r \<noteq> []"

definition summarized_subject :: "prune_subject \<Rightarrow> bool" where
  "summarized_subject s \<longleftrightarrow>
     0 < removed_files (ps_removed s) \<or> 0 < tl_files (ps_held s) \<or>
     (case ps_admission s of Rejected (rejection.Io location ope failure) \<Rightarrow> True | _ \<Rightarrow> False)"

definition prune_summarized :: "prune_run \<Rightarrow> prune_run" where
  "prune_summarized r = r\<lparr>pn_subjects := filter summarized_subject (pn_subjects r)\<rparr>"

fun prune_passes ::
  "'d pruner \<Rightarrow> prune_terms \<Rightarrow> mode \<Rightarrow> Applying.found list \<Rightarrow> owners \<times> 'd world
   \<Rightarrow> prune_pass list \<times> owners \<times> 'd world" where
  "prune_passes pr t m [] state = ([], state)"
| "prune_passes pr t m (f # fs) state =
     (case prune_candidate pr t m None Everything f state of
        (p, own, w) \<Rightarrow>
          (case prune_passes pr t m fs (own, meanwhile (pr_machine pr) w) of
             (ps, state') \<Rightarrow> (p # ps, state')))"

definition prune_totals :: "prune_pass list \<Rightarrow> removed" where
  "prune_totals ps = foldl (\<lambda>acc p. removed_merge acc (ps_removed (pp_subject p))) removed_zero ps"

definition prune_run_of :: "mode \<Rightarrow> prune_pass list \<Rightarrow> prune_run" where
  "prune_run_of m ps =
     (let totals = prune_totals ps; failures = concat (map pp_failures ps) in
      \<lparr>pn_mode = m, pn_subjects = map pp_subject ps, pn_totals = totals, pn_failures = failures,
       pn_observed_freed =
         (case m of DryRun \<Rightarrow> None | Execute \<Rightarrow> observed (prune_reclamation totals failures))\<rparr>)"

definition prune_found ::
  "'d pruner \<Rightarrow> location list \<Rightarrow> protection \<Rightarrow> mode \<Rightarrow> Applying.found list \<Rightarrow> owners \<times> 'd world
   \<Rightarrow> prune_run \<times> owners \<times> 'd world" where
  "prune_found pr excludes protection m fs state =
     (case prune_passes pr \<lparr>pt_excludes = excludes, pt_protection = protection\<rparr> m fs state of
        (ps, state') \<Rightarrow> (prune_run_of m ps, state'))"

definition prune_changed ::
  "'d pruner \<Rightarrow> location list \<Rightarrow> protection \<Rightarrow> Applying.found \<Rightarrow> survey \<Rightarrow> scope \<Rightarrow> owners \<times> 'd world
   \<Rightarrow> prune_run \<times> owners \<times> 'd world" where
  "prune_changed pr excludes protection f sv scope state =
     (case prune_candidate pr \<lparr>pt_excludes = excludes, pt_protection = protection\<rparr> Execute (Some sv) scope f state of
        (p, state') \<Rightarrow> (prune_run_of Execute [p], state'))"

end
