(* ===== verification/Prune_Runs_Facts.thy ===== *)
theory Prune_Runs_Facts
  imports Prune_Runs Pruning_Guarantees Gate_Facts
begin

text \<open>
  What a prune guarantees: the scope of a change is exactly the directories above or below a changed
  path, what is gathered is superseded, abandoned or unnamed, nothing changes without a lease and a
  clearance, every gathered entry is accounted for once, and no lease outlives its target.
\<close>

section \<open>The scope of a change\<close>

lemma ancestors_rev_iff: "a \<in> set (ancestors_rev ns) \<longleftrightarrow> (\<exists>k. a = rev (drop k ns))"
proof (induction ns)
  case (Cons n ns)
  show ?case
  proof
    assume "a \<in> set (ancestors_rev (n # ns))"
    then consider "a = rev (n # ns)" | "a \<in> set (ancestors_rev ns)" by auto
    then show "\<exists>k. a = rev (drop k (n # ns))"
    proof cases
      case 1
      then show ?thesis by (intro exI [of _ 0]) simp
    next
      case 2
      with Cons obtain k where "a = rev (drop k ns)" by blast
      then show ?thesis by (intro exI [of _ "Suc k"]) simp
    qed
  next
    assume "\<exists>k. a = rev (drop k (n # ns))"
    then obtain k where "a = rev (drop k (n # ns))" by blast
    with Cons show "a \<in> set (ancestors_rev (n # ns))" by (cases k) auto
  qed
qed simp

lemma ancestors_iff: "a \<in> set (ancestors path) \<longleftrightarrow> starts_with a path"
proof
  assume "a \<in> set (ancestors path)"
  then obtain k where "a = rev (drop k (rev path))" by (auto simp: ancestors_def ancestors_rev_iff)
  then have "a = take (length path - k) path" by (simp add: rev_drop)
  then show "starts_with a path" by (simp add: starts_with_def)
next
  assume "starts_with a path"
  then obtain ys where "path = a @ ys" by (metis starts_with_def append_take_drop_id)
  then have "a = rev (drop (length ys) (rev path))" by simp
  then show "a \<in> set (ancestors path)" unfolding ancestors_def ancestors_rev_iff by blast
qed

lemma starts_with_append: "starts_with p xs \<longleftrightarrow> (\<exists>ys. xs = p @ ys)"
  by (auto simp: starts_with_def) (metis append_take_drop_id)

lemma below_greater: "ys \<noteq> [] \<Longrightarrow> (d :: 'a :: linorder list) < d @ ys"
  by (induction d) (auto simp: neq_Nil_conv)

text \<open>Between a path and what lies below it there is nothing but what lies below it.\<close>

lemma below_contiguous:
  "(d :: 'a :: linorder list) < q \<Longrightarrow> q \<le> d @ ys \<Longrightarrow> starts_with d q"
proof (induction d arbitrary: q)
  case Nil
  then show ?case by (simp add: starts_with_def)
next
  case (Cons x d)
  then show ?case by (cases q) (auto simp: starts_with_def list_less_def list_le_def)
qed

text \<open>A change touches exactly the directories that lie above or below a changed path,
  whatever else has changed: the search of the sorted set of changes, which looks at the directory's
  ancestors and at the first change after it, decides the relation itself.\<close>

theorem scope_touches_exactly:
  assumes "sorted_wrt (<) changed"
  shows "scope_touches (Changed changed) directory \<longleftrightarrow>
    (\<exists>p \<in> set changed. starts_with p directory \<or> starts_with directory p)"
proof -
  have below: "(case List.find (\<lambda>p. directory < p) changed of Some p \<Rightarrow> starts_with directory p | None \<Rightarrow> False) \<longleftrightarrow>
      (\<exists>p \<in> set changed. starts_with directory p \<and> directory \<noteq> p)" (is "?L \<longleftrightarrow> ?R")
  proof
    assume ?L
    then obtain p where "List.find (\<lambda>p. directory < p) changed = Some p" "starts_with directory p"
      by (auto split: option.splits)
    then show ?R by (auto simp: find_Some_iff)
  next
    assume ?R
    then obtain p ys where p: "p \<in> set changed" "p = directory @ ys" "ys \<noteq> []"
      by (auto simp: starts_with_append)
    then have after: "directory < p" by (simp add: below_greater)
    with p(1) obtain q where q: "List.find (\<lambda>p. directory < p) changed = Some q"
      by (cases "List.find (\<lambda>p. directory < p) changed") (auto simp: find_None_iff)
    then obtain i where i: "i < length changed" "q = changed ! i" "directory < q"
      "\<forall>j < i. \<not> directory < changed ! j" by (auto simp: find_Some_iff)
    obtain j where j: "j < length changed" "p = changed ! j" using p(1) by (auto simp: in_set_conv_nth)
    with i after have "i \<le> j" by (meson not_less)
    with i j assms have "q \<le> p" using sorted_wrt_nth_less [OF assms, of i j] by (cases "i = j") auto
    with i(3) p(2) have "starts_with directory q" by (auto intro: below_contiguous)
    with q show ?L by simp
  qed
  have "list_ex (\<lambda>a. a \<in> set changed) (ancestors directory) \<longleftrightarrow> (\<exists>p \<in> set changed. starts_with p directory)"
    by (auto simp: list_ex_iff ancestors_iff)
  with below show ?thesis unfolding scope_touches.simps by (auto simp: starts_with_def)
qed

theorem scope_touches_exactly_witness:
  "scope_touches (Changed [[''t'', ''debug'', ''deps'', ''a.o''], [''t'', ''doc'']]) [''t'', ''debug'', ''deps''] \<and>
   \<not> scope_touches (Changed [[''t'', ''debug'', ''deps'', ''a.o''], [''t'', ''doc'']]) [''t'', ''debug'', ''incremental'']"
proof -
  have "sorted_wrt (<) [[''t'', ''debug'', ''deps'', ''a.o''], [''t'', ''doc'']]"
    by (simp add: less_char_def)
  note exactly = scope_touches_exactly [OF this]
  show ?thesis unfolding exactly by (simp add: starts_with_def)
qed

section \<open>What is gathered\<close>

definition image_at :: "prune_view \<Rightarrow> os_path \<Rightarrow> bytes \<Rightarrow> image_error + bytes set" where
  "image_at v directory linked =
     (case from_utf8 linked of None \<Rightarrow> Inl Mach | Some n \<Rightarrow> image_objects v (directory @ [n]))"

lemma referenced_from_Inr:
  "referenced_from v directory linked sighted names = Some (Inr all) \<longleftrightarrow>
     (\<forall>l \<in> set linked. \<forall>e. image_at v directory l = Inl e \<longrightarrow> e = image_error.Absent) \<and>
     (sighted \<or> (\<exists>l \<in> set linked. \<exists>objects. image_at v directory l = Inr objects)) \<and>
     all = names \<union> \<Union> {objects. \<exists>l \<in> set linked. image_at v directory l = Inr objects}"
proof (induction linked arbitrary: sighted names)
  case (Cons l linked)
  show ?case
  proof (cases "image_at v directory l")
    case (Inl e)
    then show ?thesis using Cons
      by (cases "from_utf8 l") (auto simp: image_at_def)
  next
    case (Inr objects)
    then have "referenced_from v directory (l # linked) sighted names =
        referenced_from v directory linked True (names \<union> objects)"
      by (auto simp: image_at_def split: option.splits)
    moreover have "\<Union> {os. \<exists>k \<in> set (l # linked). image_at v directory k = Inr os} =
        objects \<union> \<Union> {os. \<exists>k \<in> set linked. image_at v directory k = Inr os}"
      using Inr by auto
    ultimately show ?thesis using Cons [of True "names \<union> objects"] Inr
      by (simp add: Un_assoc)
  qed
qed auto

text \<open>An object goes when its unit holds objects of another compiler run, an image of the unit is
  there, all that are there could be read, and none of them names it.\<close>

definition object_goes :: "prune_view \<Rightarrow> os_path \<Rightarrow> bytes \<Rightarrow> bool" where
  "object_goes v directory name \<longleftrightarrow>
     name \<in> set (listed v ft_file directory) \<and>
     (\<exists>ob. object_parse name = Some ob \<and>
        (\<exists>n \<in> set (listed v ft_file directory). \<exists>ob'. object_parse n = Some ob' \<and>
           ob_unit ob' = ob_unit ob \<and> ob_invocation ob' \<noteq> ob_invocation ob) \<and>
        (\<exists>l \<in> set (images (ob_unit ob)). \<exists>objects. image_at v directory l = Inr objects) \<and>
        (\<forall>l \<in> set (images (ob_unit ob)).
           case image_at v directory l of Inl e \<Rightarrow> e = image_error.Absent | Inr objects \<Rightarrow> name \<notin> objects))"

text \<open>A session goes when its compiler ended before finishing it, or when the same directory holds a
  finished one with a later stamp.\<close>

definition session_goes :: "prune_view \<Rightarrow> os_path \<Rightarrow> session \<Rightarrow> prune_rule \<Rightarrow> bool" where
  "session_goes v directory s rule \<longleftrightarrow>
     s \<in> set (unit_sessions v directory) \<and>
     (rule = AbandonedSession \<and> se_stage s = Working \<or>
      rule = SupersededSession \<and>
        (\<exists>stamp. se_stage s = Finalized stamp \<and>
           (\<exists>t \<in> set (unit_sessions v directory). \<exists>later. se_stage t = Finalized later \<and> stamp < later)))"

definition gathered_here :: "prune_view \<Rightarrow> os_path \<Rightarrow> scope \<Rightarrow> os_path \<Rightarrow> doomed_entry \<Rightarrow> bool" where
  "gathered_here v root scope profile dm \<longleftrightarrow>
     (\<exists>unit \<in> set (listed v ft_dir (profile @ [''incremental''])). \<exists>s rule.
        scope_touches scope (profile @ [''incremental'', unit]) \<and>
        session_goes v (profile @ [''incremental'', unit]) s rule \<and>
        doomed_session v root (profile @ [''incremental'', unit]) (s, rule) = Some dm) \<or>
     (\<exists>directory \<in> set (object_directories v profile). \<exists>name.
        scope_touches scope directory \<and> object_goes v directory name \<and>
        doomed_object v root (directory @ [name]) = Some dm)"

lemma map_filter_mem: "y \<in> set (List.map_filter f xs) \<longleftrightarrow> (\<exists>x \<in> set xs. f x = Some y)"
  by (force simp: map_filter_def)

lemma object_parse_name: "object_parse name = Some ob \<Longrightarrow> ob_name ob = name"
  by (auto simp: object_parse_def split: option.splits list.splits if_splits)

lemma parsed_objects_mem:
  "(ob, name) \<in> set (parsed_objects v directory) \<longleftrightarrow>
     name \<in> set (listed v ft_file directory) \<and> object_parse name = Some ob"
  by (auto simp: parsed_objects_def map_filter_mem)

lemma unit_objects_mem:
  "dm \<in> set (fst (unit_objects v root directory parsed unit)) \<longleftrightarrow>
     (\<exists>references. referenced v directory unit = Some (Inr references) \<and>
       (\<exists>x \<in> set parsed. stale (fst x) unit references \<and>
          doomed_object v root (directory @ [snd x]) = Some dm))"
proof (cases "referenced v directory unit")
  case (Some r)
  then show ?thesis by (cases r) (simp_all add: unit_objects_def map_filter_mem case_prod_unfold Bex_def conj_assoc)
qed (simp add: unit_objects_def)

lemma referenced_Inr:
  "(\<exists>references. referenced v directory unit = Some (Inr references) \<and> name \<notin> references) \<longleftrightarrow>
     (\<exists>l \<in> set (images unit). \<exists>objects. image_at v directory l = Inr objects) \<and>
     (\<forall>l \<in> set (images unit).
        case image_at v directory l of Inl e \<Rightarrow> e = image_error.Absent | Inr objects \<Rightarrow> name \<notin> objects)"
proof -
  have "(\<forall>l \<in> S. case f l of Inl e \<Rightarrow> e = image_error.Absent | Inr objects \<Rightarrow> name \<notin> objects) \<longleftrightarrow>
      (\<forall>l \<in> S. \<forall>e. f l = Inl e \<longrightarrow> e = image_error.Absent) \<and> name \<notin> \<Union> {objects. \<exists>l \<in> S. f l = Inr objects}"
    for S and f :: "bytes \<Rightarrow> image_error + bytes set"
    by (auto split: sum.splits)
  then show ?thesis unfolding referenced_def referenced_from_Inr by auto
qed

lemma mixed_here:
  assumes "(ob, name) \<in> set (parsed_objects v directory)"
  shows "ob_unit ob \<in> set (mixed (map fst (parsed_objects v directory))) \<longleftrightarrow>
     (\<exists>n \<in> set (listed v ft_file directory). \<exists>ob'. object_parse n = Some ob' \<and>
        ob_unit ob' = ob_unit ob \<and> ob_invocation ob' \<noteq> ob_invocation ob)" (is "?L \<longleftrightarrow> ?R")
proof -
  have parsed: "a \<in> set (map fst (parsed_objects v directory)) \<longleftrightarrow>
      (\<exists>n \<in> set (listed v ft_file directory). object_parse n = Some a)" for a
    using parsed_objects_mem [of a _ v directory] by force
  have ob: "ob \<in> set (map fst (parsed_objects v directory))" using assms by force
  show ?thesis
  proof
    assume ?L
    then obtain a b where ab: "a \<in> set (map fst (parsed_objects v directory))"
      "b \<in> set (map fst (parsed_objects v directory))"
      "ob_unit a = ob_unit ob" "ob_unit b = ob_unit ob" "ob_invocation a \<noteq> ob_invocation b"
      unfolding mixed_mem by blast
    show ?R
    proof (cases "ob_invocation a = ob_invocation ob")
      case True
      with ab show ?thesis unfolding parsed by metis
    next
      case False
      with ab show ?thesis unfolding parsed by metis
    qed
  next
    assume ?R
    then obtain a where "a \<in> set (map fst (parsed_objects v directory))"
      "ob_unit a = ob_unit ob" "ob_invocation a \<noteq> ob_invocation ob"
      unfolding parsed by blast
    with ob show ?L unfolding mixed_mem by metis
  qed
qed

lemma object_goes_iff:
  "object_goes v directory name \<longleftrightarrow>
     (\<exists>ob. (ob, name) \<in> set (parsed_objects v directory) \<and>
        ob_unit ob \<in> set (mixed (map fst (parsed_objects v directory))) \<and>
        (\<exists>references. referenced v directory (ob_unit ob) = Some (Inr references) \<and> name \<notin> references))"
proof -
  have "object_goes v directory name \<longleftrightarrow> (\<exists>ob. (ob, name) \<in> set (parsed_objects v directory) \<and>
      (\<exists>n \<in> set (listed v ft_file directory). \<exists>ob'. object_parse n = Some ob' \<and>
         ob_unit ob' = ob_unit ob \<and> ob_invocation ob' \<noteq> ob_invocation ob) \<and>
      (\<exists>references. referenced v directory (ob_unit ob) = Some (Inr references) \<and> name \<notin> references))"
    unfolding object_goes_def referenced_Inr parsed_objects_mem by blast
  also have "\<dots> \<longleftrightarrow> (\<exists>ob. (ob, name) \<in> set (parsed_objects v directory) \<and>
      ob_unit ob \<in> set (mixed (map fst (parsed_objects v directory))) \<and>
      (\<exists>references. referenced v directory (ob_unit ob) = Some (Inr references) \<and> name \<notin> references))"
    using mixed_here [of _ name v directory] by blast
  finally show ?thesis .
qed

lemma directory_objects_mem:
  "(\<exists>u \<in> set (directory_objects v root directory). dm \<in> set (fst u)) \<longleftrightarrow>
     (\<exists>name. object_goes v directory name \<and> doomed_object v root (directory @ [name]) = Some dm)"
    (is "?L \<longleftrightarrow> ?R")
proof
  assume ?L
  then obtain unit references x where "unit \<in> set (mixed (map fst (parsed_objects v directory)))"
    "referenced v directory unit = Some (Inr references)" "x \<in> set (parsed_objects v directory)"
    "stale (fst x) unit references" "doomed_object v root (directory @ [snd x]) = Some dm"
    unfolding directory_objects_def Let_def set_map image_iff bex_simps unit_objects_mem by auto
  moreover obtain ob name where x: "x = (ob, name)" by fastforce
  ultimately have parsed: "(ob, name) \<in> set (parsed_objects v directory)"
    and stale: "stale ob unit references" and dm: "doomed_object v root (directory @ [name]) = Some dm"
    by simp_all
  from stale have ob: "ob_unit ob = unit" "ob_name ob \<notin> references" by (simp_all add: stale_def)
  from parsed have "ob_name ob = name" unfolding parsed_objects_mem by (blast dest: object_parse_name)
  with ob parsed \<open>unit \<in> _\<close> \<open>referenced _ _ _ = _\<close> have "object_goes v directory name"
    unfolding object_goes_iff by auto
  with dm show ?R by blast
next
  assume ?R
  then obtain name ob references where "(ob, name) \<in> set (parsed_objects v directory)"
    "ob_unit ob \<in> set (mixed (map fst (parsed_objects v directory)))"
    "referenced v directory (ob_unit ob) = Some (Inr references)" "name \<notin> references"
    "doomed_object v root (directory @ [name]) = Some dm"
    unfolding object_goes_iff by blast
  moreover from this(1) have "ob_name ob = name" unfolding parsed_objects_mem by (blast dest: object_parse_name)
  ultimately have "dm \<in> set (fst (unit_objects v root directory (parsed_objects v directory) (ob_unit ob)))"
    unfolding unit_objects_mem stale_def by force
  with \<open>ob_unit ob \<in> _\<close> show ?L
    unfolding directory_objects_def Let_def set_map by (rule_tac bexI [OF _ imageI])
qed

lemma doomed_mem: "(s, rule) \<in> set (doomed (unit_sessions v directory)) \<longleftrightarrow> session_goes v directory s rule"
  unfolding doomed_exactly session_goes_def ..

text \<open>Property C16. What a prune gathers is exactly this: below each fingerprinted profile in scope, the
  incremental sessions that a later finished session of the same unit supersedes or whose compiler
  ended before finishing, and the debug objects that no linked image of their unit names, of units
  with objects of several compiler runs whose images were all read; the newest finished session of a
  unit, and every object of a unit with no image or an unreadable one, stay.\<close>

theorem gathered_exactly:
  "dm \<in> set (ga_doomed (gather v root sv scope)) \<longleftrightarrow>
     (\<exists>profile \<in> set (survey_profiles v sv).
        scope_touches scope profile \<and> gathered_here v root scope profile dm)"
proof -
  have sessions: "dm \<in> set (gather_sessions v root scope profile) \<longleftrightarrow>
      (\<exists>unit \<in> set (listed v ft_dir (profile @ [''incremental''])). \<exists>s rule.
        scope_touches scope (profile @ [''incremental'', unit]) \<and>
        session_goes v (profile @ [''incremental'', unit]) s rule \<and>
        doomed_session v root (profile @ [''incremental'', unit]) (s, rule) = Some dm)" for profile
    by (simp add: gather_sessions_def Let_def map_filter_mem Bex_def doomed_mem)
  have objects: "dm \<in> set (fst (gather_objects v root scope profile)) \<longleftrightarrow>
      (\<exists>directory \<in> set (object_directories v profile). \<exists>name.
        scope_touches scope directory \<and> object_goes v directory name \<and>
        doomed_object v root (directory @ [name]) = Some dm)" for profile
    using directory_objects_mem [of v root _ dm] by (simp add: gather_objects_def Let_def) blast
  show ?thesis
    unfolding gathered_here_def sessions [symmetric] objects [symmetric]
    by (force simp: gather_def Let_def case_prod_unfold)
qed

section \<open>Locks and the disk\<close>

text \<open>Steps in which only other processes change the disk; an execution may take and release locks.\<close>

definition idle_step :: "'d machine \<Rightarrow> mode \<Rightarrow> 'd world \<Rightarrow> 'd world \<Rightarrow> bool" where
  "idle_step mc m w w' \<longleftrightarrow> w' = meanwhile mc w \<or> m = Execute \<and> (\<exists>own. w' = w\<lparr>wd_own := own\<rparr>)"

abbreviation idles :: "'d machine \<Rightarrow> mode \<Rightarrow> 'd world \<Rightarrow> 'd world \<Rightarrow> bool" where
  "idles mc m \<equiv> (idle_step mc m)\<^sup>*\<^sup>*"

lemma idles_meanwhile: "idles mc m w w' \<Longrightarrow> idles mc m w (meanwhile mc w')"
  by (rule rtranclp.rtrancl_into_rtrancl) (auto simp: idle_step_def)

lemma idles_own: "idles mc Execute w w' \<Longrightarrow> idles mc Execute w (w'\<lparr>wd_own := own\<rparr>)"
  by (rule rtranclp.rtrancl_into_rtrancl) (auto simp: idle_step_def)

lemma idles_drifts: "idles mc DryRun w w' \<Longrightarrow> drifts mc w w'"
proof (induction rule: rtranclp_induct)
  case (step w1 w2)
  then have "drifts mc w1 w2"
    using drifts_meanwhile [OF drifts_refl, of mc w1] by (simp add: idle_step_def)
  with step.IH show ?case by (rule drifts_trans)
qed (rule drifts_refl)

lemma idles_drop:
  assumes "take_hold mc m locks w0 = (h, w1)" and "idles mc m w w'"
  shows "idles mc m w (prune_drop h w')"
proof (cases h)
  case (Inr hd)
  with take_hold_own [OF assms(1)] assms(2) show ?thesis
    by (cases hd; cases m) (auto simp: prune_drop_def release_lease_def intro: idles_own)
qed (use assms(2) in \<open>simp add: prune_drop_def\<close>)

lemma take_hold_idles:
  assumes "take_hold mc m locks w0 = (h, w1)" and "idles mc m w w0"
  shows "idles mc m w w1"
proof (cases h)
  case (Inr hd)
  with take_hold_own [OF assms(1)] assms(2) show ?thesis
    by (cases hd; cases m) (auto intro: idles_own)
qed (use take_hold_own [OF assms(1)] assms(2) in simp)

lemma prune_one_own: "wd_own (snd (prune_one pr pb dm w)) = wd_own w"
  by (cases "dm_doom dm") (simp_all add: prune_one_def Let_def split: prod.splits)

lemma prune_each_own: "prune_each pr pb dms a w = (a', w') \<Longrightarrow> wd_own w' = wd_own w"
proof (induction pr pb dms a w rule: prune_each.induct)
  case (2 pr pb dm dms a w)
  obtain outcome w1 where one:
    "(case pb of None \<Rightarrow> (Inr Removed, w) | Some p \<Rightarrow> prune_one pr p dm (meanwhile (pr_machine pr) w)) = (outcome, w1)"
    by fastforce
  then have "wd_own w1 = wd_own w"
    using prune_one_own [of pr "the pb" dm "meanwhile (pr_machine pr) w"] by (cases pb) auto
  with 2 one show ?case by simp
qed simp

lemma prune_each_dry: "prune_each pr None dms a w = (a', w') \<Longrightarrow> w' = w"
  by (induction dms arbitrary: a) auto

text \<open>A candidate is either refused, and then nothing is pruned, or observed, surveyed, cleared with
  its locks free and gathered.\<close>

definition prune_cleared ::
  "'d pruner \<Rightarrow> prune_terms \<Rightarrow> mode \<Rightarrow> Applying.found \<Rightarrow> scope \<Rightarrow> 'd world \<Rightarrow> prune_pass \<Rightarrow> 'd world \<Rightarrow> bool" where
  "prune_cleared pr t m f scope w p w' \<longleftrightarrow>
     (\<exists>ob sv c ownership hold pb w0 w1 w2.
        observe (observing (pr_machine pr) w) (fd_path f) = Inr ob \<and>
        idles (pr_machine pr) m w w0 \<and> wd_own w0 = wd_own w \<and>
        take_hold (pr_machine pr) m (sv_locks sv) w0 = (Inr hold, w1) \<and>
        clear_prune (mc_sha (pr_machine pr)) (mc_fold (pr_machine pr))
          (observation_site ob (pt_protection t) (pt_excludes t))
          \<lparr>pc_recorded = fd_candidate f, pc_identity = ob_found_identity ob, pc_ownership = ownership,
           pc_liveness = liveness.Free\<rparr> = Inr c \<and>
        (case hold of Probed \<Rightarrow> pb = None
         | Leased l \<Rightarrow> pb = Some \<lparr>pb_clearance = c, pb_lease = l, pb_root = ob_path ob\<rparr>) \<and>
        idles (pr_machine pr) m w w2 \<and> wd_own w2 = wd_own w1 \<and>
        prune_gathered pr f ob pb (gather (viewing pr w2) (ob_path ob) sv scope) w2 = (p, w'))"

lemma cleared_free:
  "clear_prune sha ul s p = Inr c \<Longrightarrow> pc_liveness p = liveness.Free"
  by (auto simp: clear_prune_def result_simps run_prune prunable_def)

lemma prune_surveyed_cases:
  assumes "prune_surveyed pr t m f scope ob sv ownership w' = (p, w'')"
    and "observe (observing (pr_machine pr) w) (fd_path f) = Inr ob"
    and idle: "idles (pr_machine pr) m w w'" and own: "wd_own w' = wd_own w"
  shows "(\<exists>r. p = prune_rejected f r) \<and> idles (pr_machine pr) m w w'' \<and> wd_own w'' = wd_own w \<or>
    prune_cleared pr t m f scope w p w''"
proof -
  let ?mc = "pr_machine pr"
  obtain h w1 where hold: "take_hold ?mc m (sv_locks sv) (meanwhile ?mc w') = (h, w1)" by fastforce
  have here: "idles ?mc m w (meanwhile ?mc w')" by (rule idles_meanwhile [OF idle])
  from take_hold_idles [OF hold here] have idle1: "idles ?mc m w w1" .
  let ?check = "\<lparr>pc_recorded = fd_candidate f, pc_identity = ob_found_identity ob, pc_ownership = ownership,
    pc_liveness = hold_liveness h\<rparr>"
  let ?cleared = "clear_prune (mc_sha ?mc) (mc_fold ?mc) (observation_site ob (pt_protection t) (pt_excludes t)) ?check"
  have dropped: "wd_own (prune_drop h (meanwhile ?mc w1)) = wd_own w"
    using take_hold_own [OF hold] own by (cases h) (auto simp: prune_drop_def drop_hold_own)
  show ?thesis
  proof (cases "result_bind ?cleared (\<lambda>c. prune_authorized pr h c (ob_path ob) (meanwhile ?mc w1))")
    case (Inl r)
    with assms(1) hold have "p = prune_rejected f r" "w'' = prune_drop h (meanwhile ?mc w1)"
      by (auto simp: prune_surveyed_def Let_def)
    with dropped idles_drop [OF hold idles_meanwhile [OF idle1]] show ?thesis by blast
  next
    case (Inr pb)
    then obtain c where c: "?cleared = Inr c" "prune_authorized pr h c (ob_path ob) (meanwhile ?mc w1) = Inr pb"
      by (auto simp: result_simps)
    from cleared_free [OF c(1)] have free: "hold_liveness h = liveness.Free" by simp
    then obtain hd where h: "h = Inr hd"
      by (cases h) (auto simp: hold_liveness_def contention_liveness_def split: lock_state.splits)
    let ?w2 = "meanwhile ?mc (meanwhile ?mc w1)"
    have pb: "case hd of Probed \<Rightarrow> pb = None
        | Leased l \<Rightarrow> pb = Some \<lparr>pb_clearance = c, pb_lease = l, pb_root = ob_path ob\<rparr>"
      using c(2) h by (cases hd) (auto simp: prune_authorized_def prunable_new_def Let_def result_simps
          split: prod.splits sum.splits if_splits)
    have "prune_gathered pr f ob pb (gather (viewing pr ?w2) (ob_path ob) sv scope) ?w2 = (p, w'')"
      using assms(1) hold Inr by (simp add: prune_surveyed_def Let_def)
    with assms(2) here own hold h c(1) free pb idles_meanwhile [OF idles_meanwhile [OF idle1]]
    have "prune_cleared pr t m f scope w p w''" unfolding prune_cleared_def
      by (intro exI [of _ ob] exI [of _ sv] exI [of _ c] exI [of _ ownership] exI [of _ hd] exI [of _ pb]
          exI [of _ "meanwhile ?mc w'"] exI [of _ w1] exI [of _ ?w2]) simp
    then show ?thesis ..
  qed
qed

lemma prune_candidate_cases:
  assumes "prune_candidate pr t m known scope f (own, w) = (p, own', w')"
  shows "(\<exists>r. p = prune_rejected f r) \<and> idles (pr_machine pr) m w w' \<and> wd_own w' = wd_own w \<or>
    prune_cleared pr t m f scope w p w'"
proof (cases "observe (observing (pr_machine pr) w) (fd_path f)")
  case (Inl r)
  with assms show ?thesis by (auto simp: prune_candidate_def Let_def)
next
  case (Inr ob)
  let ?mc = "pr_machine pr"
  let ?w1 = "meanwhile ?mc w" and ?w2 = "meanwhile ?mc (meanwhile ?mc w)"
  have idle: "idles ?mc m w ?w1" "idles ?mc m w ?w2" by (simp_all add: idles_meanwhile)
  show ?thesis
  proof (cases "prune_survey pr own known (ob_path ob) ?w1")
    case (Inl r)
    with assms \<open>observe _ _ = _\<close> have "p = prune_rejected f r" "w' = ?w1"
      by (auto simp: prune_candidate_def Let_def)
    with idle show ?thesis by auto
  next
    case survey: (Inr sv)
    obtain ownership own1 where owners: "owners_of (owning ?mc ?w2) (ob_path ob) (sv_markers sv) own = (ownership, own1)"
      by fastforce
    from assms Inr survey owners have "prune_surveyed pr t m f scope ob sv ownership ?w2 = (p, w')"
      by (auto simp: prune_candidate_def Let_def split: prod.splits)
    from prune_surveyed_cases [OF this Inr idle(2)] show ?thesis by simp
  qed
qed

lemma prune_gathered_own:
  assumes "prune_gathered pr f ob pb g w = (p, w')"
  shows "wd_own w' = wd_own w - (case pb of None \<Rightarrow> {} | Some x \<Rightarrow> set (map fst (pb_lease x)))"
proof -
  obtain a w1 where each: "prune_each pr pb (ga_doomed g) account_zero w = (a, w1)" by fastforce
  note same = prune_each_own [OF each]
  from assms have "w' = (case pb of None \<Rightarrow> w1 | Some x \<Rightarrow> release_lease (pb_lease x) w1)"
    by (simp add: prune_gathered_def each)
  with same show ?thesis by (cases pb) (simp_all add: release_lease_def)
qed

lemma prune_candidate_own:
  assumes "prune_candidate pr t m known scope f (own, w) = (p, own', w')"
  shows "wd_own w' = wd_own w"
  using prune_candidate_cases [OF assms]
proof (elim disjE conjE)
  assume "prune_cleared pr t m f scope w p w'"
  then obtain ob sv c hold pb w0 w1 w2 where
    "wd_own w0 = wd_own w" and hold: "take_hold (pr_machine pr) m (sv_locks sv) w0 = (Inr hold, w1)" and
    pb: "case hold of Probed \<Rightarrow> pb = None
      | Leased l \<Rightarrow> pb = Some \<lparr>pb_clearance = c, pb_lease = l, pb_root = ob_path ob\<rparr>" and
    "wd_own w2 = wd_own w1" and
    run: "prune_gathered pr f ob pb (gather (viewing pr w2) (ob_path ob) sv scope) w2 = (p, w')"
    unfolding prune_cleared_def by blast
  with take_hold_own [OF hold] prune_gathered_own [OF run] show ?thesis by (cases hold) auto
qed

lemma prune_passes_own: "prune_passes pr t m fs (own, w) = (ps, own', w') \<Longrightarrow> wd_own w' = wd_own w"
proof (induction fs arbitrary: own w ps own' w')
  case (Cons f fs)
  obtain p own1 w1 where one: "prune_candidate pr t m None Everything f (own, w) = (p, own1, w1)" by (cases "prune_candidate pr t m None Everything f (own, w)") auto
  obtain ps1 own2 w2 where rest: "prune_passes pr t m fs (own1, meanwhile (pr_machine pr) w1) = (ps1, own2, w2)"
    by (cases "prune_passes pr t m fs (own1, meanwhile (pr_machine pr) w1)") auto
  from Cons.prems one rest have w': "w' = w2" by simp
  from Cons.IH [OF rest] prune_candidate_own [OF one] show ?case by (simp add: w')
qed simp

text \<open>However a prune ends, it holds exactly the locks that were held before it: no lease
  of a target outlives the work on that target, refused, failed or done.\<close>

theorem prune_leases_never_leak:
  "wd_own (snd (snd (prune_found pr excludes protection m fs (own, w)))) = wd_own w"
proof -
  obtain ps own' w' where
    "prune_passes pr \<lparr>pt_excludes = excludes, pt_protection = protection\<rparr> m fs (own, w) = (ps, own', w')"
    by (cases "prune_passes pr \<lparr>pt_excludes = excludes, pt_protection = protection\<rparr> m fs (own, w)") auto
  with prune_passes_own [OF this] show ?thesis by (simp add: prune_found_def)
qed

lemma prune_candidate_dry:
  assumes "prune_candidate pr t DryRun known scope f (own, w) = (p, own', w')"
  shows "drifts (pr_machine pr) w w'"
  using prune_candidate_cases [OF assms]
proof (elim disjE conjE)
  assume "prune_cleared pr t DryRun f scope w p w'"
  then obtain ob sv c hold pb w0 w1 w2 where
    hold: "take_hold (pr_machine pr) DryRun (sv_locks sv) w0 = (Inr hold, w1)" and
    pb: "case hold of Probed \<Rightarrow> pb = None
      | Leased l \<Rightarrow> pb = Some \<lparr>pb_clearance = c, pb_lease = l, pb_root = ob_path ob\<rparr>" and
    idle: "idles (pr_machine pr) DryRun w w2" and
    run: "prune_gathered pr f ob pb (gather (viewing pr w2) (ob_path ob) sv scope) w2 = (p, w')"
    unfolding prune_cleared_def by blast
  from take_hold_own [OF hold] pb have "pb = None" by auto
  with run have "w' = w2" by (auto simp: prune_gathered_def split: prod.splits dest: prune_each_dry)
  with idles_drifts [OF idle] show ?thesis by simp
qed (blast dest: idles_drifts)

lemma prune_passes_dry:
  "prune_passes pr t DryRun fs (own, w) = (ps, own', w') \<Longrightarrow> drifts (pr_machine pr) w w'"
proof (induction fs arbitrary: own w ps own' w')
  case (Cons f fs)
  obtain p own1 w1 where one: "prune_candidate pr t DryRun None Everything f (own, w) = (p, own1, w1)" by (cases "prune_candidate pr t DryRun None Everything f (own, w)") auto
  obtain ps1 own2 w2 where rest: "prune_passes pr t DryRun fs (own1, meanwhile (pr_machine pr) w1) = (ps1, own2, w2)"
    by (cases "prune_passes pr t DryRun fs (own1, meanwhile (pr_machine pr) w1)") auto
  from Cons.prems one rest have w': "w' = w2" by simp
  from drifts_trans [OF prune_candidate_dry [OF one] drifts_meanwhile [OF Cons.IH [OF rest]]] show ?case
    by (simp add: w')
qed (simp add: drifts_refl)

text \<open>A dry run of a prune leaves the world as other processes made it, whatever it finds.\<close>

theorem dry_prune_changes_nothing:
  "drifts (pr_machine pr) w (snd (snd (prune_found pr excludes protection DryRun fs (own, w))))"
proof -
  obtain ps own' w' where
    "prune_passes pr \<lparr>pt_excludes = excludes, pt_protection = protection\<rparr> DryRun fs (own, w) = (ps, own', w')"
    by (cases "prune_passes pr \<lparr>pt_excludes = excludes, pt_protection = protection\<rparr> DryRun fs (own, w)") auto
  with prune_passes_dry [OF this] show ?thesis by (simp add: prune_found_def)
qed

lemma prune_candidate_clear:
  assumes "prune_candidate pr t m known scope f (own, w) = (p, own', w')"
  shows "idles (pr_machine pr) m w w' \<or>
    m = Execute \<and>
    (\<exists>ob sv ownership l w0 w1 w2 w3 c.
       observe (observing (pr_machine pr) w) (fd_path f) = Inr ob \<and>
       idles (pr_machine pr) m w w0 \<and>
       take_hold (pr_machine pr) Execute (sv_locks sv) w0 = (Inr (Leased l), w1) \<and>
       prunable (mc_fold (pr_machine pr)) (observation_site ob (pt_protection t) (pt_excludes t))
         \<lparr>pc_recorded = fd_candidate f, pc_identity = ob_found_identity ob, pc_ownership = ownership,
          pc_liveness = liveness.Free\<rparr> \<and>
       idles (pr_machine pr) m w w2 \<and> wd_own w2 = wd_own w \<union> set (map fst l) \<and> wd_own w3 = wd_own w2 \<and>
       fst (prune_each pr (Some \<lparr>pb_clearance = c, pb_lease = l, pb_root = ob_path ob\<rparr>)
         (ga_doomed (gather (viewing pr w2) (ob_path ob) sv scope)) account_zero w2) =
         \<lparr>pa_removed = ps_removed (pp_subject p), pa_held = ps_held (pp_subject p), pa_failures = pp_failures p\<rparr> \<and>
       w' = release_lease l w3 \<and> pl_identity c = ob_found_identity ob)"
  using prune_candidate_cases [OF assms]
proof (elim disjE conjE)
  assume "prune_cleared pr t m f scope w p w'"
  then obtain ob sv c ownership hold pb w0 w1 w2 where
    ob: "observe (observing (pr_machine pr) w) (fd_path f) = Inr ob" and
    idle0: "idles (pr_machine pr) m w w0" "wd_own w0 = wd_own w" and
    hold: "take_hold (pr_machine pr) m (sv_locks sv) w0 = (Inr hold, w1)" and
    clear: "clear_prune (mc_sha (pr_machine pr)) (mc_fold (pr_machine pr))
       (observation_site ob (pt_protection t) (pt_excludes t))
       \<lparr>pc_recorded = fd_candidate f, pc_identity = ob_found_identity ob, pc_ownership = ownership,
        pc_liveness = liveness.Free\<rparr> = Inr c" and
    pb: "case hold of Probed \<Rightarrow> pb = None
      | Leased l \<Rightarrow> pb = Some \<lparr>pb_clearance = c, pb_lease = l, pb_root = ob_path ob\<rparr>" and
    idle: "idles (pr_machine pr) m w w2" "wd_own w2 = wd_own w1" and
    run: "prune_gathered pr f ob pb (gather (viewing pr w2) (ob_path ob) sv scope) w2 = (p, w')"
    unfolding prune_cleared_def by blast
  note own = take_hold_own [OF hold]
  show ?thesis
  proof (cases hold)
    case Probed
    with pb have "pb = None" by simp
    with run have "w' = w2" by (auto simp: prune_gathered_def split: prod.splits dest: prune_each_dry)
    with idle show ?thesis by blast
  next
    case (Leased l)
    with own have m: "m = Execute" by (cases m) auto
    from Leased pb have pb: "pb = Some \<lparr>pb_clearance = c, pb_lease = l, pb_root = ob_path ob\<rparr>" by simp
    obtain a w3 where each: "prune_each pr pb (ga_doomed (gather (viewing pr w2) (ob_path ob) sv scope)) account_zero w2 = (a, w3)"
      by fastforce
    from clear have c: "prunable (mc_fold (pr_machine pr)) (observation_site ob (pt_protection t) (pt_excludes t))
       \<lparr>pc_recorded = fd_candidate f, pc_identity = ob_found_identity ob, pc_ownership = ownership,
        pc_liveness = liveness.Free\<rparr>" "pl_identity c = ob_found_identity ob"
      by (auto simp: clear_prune_def result_simps run_prune)
    have ended: "a = \<lparr>pa_removed = ps_removed (pp_subject p), pa_held = ps_held (pp_subject p), pa_failures = pp_failures p\<rparr>"
      "w' = release_lease l w3"
      using run each pb by (auto simp: prune_gathered_def)
    have "wd_own w2 = wd_own w \<union> set (map fst l)" using own Leased idle idle0 by simp
    with m ob idle0 hold Leased c idle prune_each_own [OF each] each pb ended show ?thesis
      by (intro disjI2 conjI exI [of _ ob] exI [of _ sv] exI [of _ ownership] exI [of _ l] exI [of _ w0]
          exI [of _ w1] exI [of _ w2] exI [of _ w3] exI [of _ c]) simp_all
  qed
qed blast


section \<open>Accounts\<close>

text \<open>A tally stands for a list of lengths when it is their number and their sum, both saturated.\<close>

definition tallies :: "file_tally \<Rightarrow> u64 list \<Rightarrow> bool" where
  "tallies t lens \<longleftrightarrow>
     unat (tl_files t) = min (length lens) (2 ^ 64 - 1) \<and>
     unat (tl_bytes t) = min (\<Sum>l\<leftarrow>lens. unat l) (2 ^ 64 - 1)"

lemma tallies_zero [simp]: "tallies file_tally_zero []"
  by (simp add: tallies_def file_tally_zero_def)

lemma min_sum: "min (min a k + b) k = min (a + b) k" "min (a + min b k) k = min (a + b) (k :: nat)"
  by (simp_all add: min_def)

lemma tallies_add: "tallies t lens \<Longrightarrow> tallies (file_tally_add l t) (lens @ [l])"
  unfolding tallies_def file_tally_add_def file_tally.simps unat_saturating_add
  by (simp only: length_append map_append sum_list_append list.size list.map sum_list.Cons sum_list.Nil
      unsigned_1 min_sum add_0_right add_0_left One_nat_def)

lemma tallies_merge: "tallies t lens \<Longrightarrow> tallies u lens' \<Longrightarrow> tallies (file_tally_merge t u) (lens @ lens')"
  unfolding tallies_def file_tally_merge_def file_tally.simps unat_saturating_add
  by (simp only: length_append map_append sum_list_append min_sum)

lemma removed_slot_update: "removed_slot rule (removed_update rule' f r) =
    (if rule = rule' then f (removed_slot rule r) else removed_slot rule r)"
  by (cases rule; cases rule') simp_all

lemma removed_slot_zero [simp]: "removed_slot rule removed_zero = file_tally_zero"
  by (cases rule) (simp_all add: removed_zero_def)

lemma removed_slot_merge:
  "removed_slot rule (removed_merge r u) = file_tally_merge (removed_slot rule r) (removed_slot rule u)"
  by (cases rule) (simp_all add: removed_merge_def all_prune_rules_def)

text \<open>What became of each gathered entry, in order.\<close>

type_synonym dealings = "(doomed_entry \<times> (rejection + pruned)) list"

definition lens_of :: "(doomed_entry \<times> (rejection + pruned) \<Rightarrow> bool) \<Rightarrow> dealings \<Rightarrow> u64 list" where
  "lens_of wanted outs = map (dm_len \<circ> fst) (filter wanted outs)"

definition removed_under :: "prune_rule \<Rightarrow> doomed_entry \<times> (rejection + pruned) \<Rightarrow> bool" where
  "removed_under rule x \<longleftrightarrow> snd x = Inr Removed \<and> dm_rule (fst x) = rule"

definition left_held :: "doomed_entry \<times> (rejection + pruned) \<Rightarrow> bool" where
  "left_held x \<longleftrightarrow> snd x = Inr pruned.Held"

definition failures_in :: "dealings \<Rightarrow> prune_failure list" where
  "failures_in outs =
     concat (map (\<lambda>(dm, r). case r of
       Inl e \<Rightarrow> [\<lparr>pf_rule = dm_rule dm, pf_rejection = e\<rparr>] | Inr _ \<Rightarrow> []) outs)"

definition accounts_for :: "prune_account \<Rightarrow> dealings \<Rightarrow> bool" where
  "accounts_for a outs \<longleftrightarrow>
     (\<forall>rule. tallies (removed_slot rule (pa_removed a)) (lens_of (removed_under rule) outs)) \<and>
     tallies (pa_held a) (lens_of left_held outs) \<and> pa_failures a = failures_in outs"

lemmas account_simps = accounts_for_def lens_of_def removed_under_def left_held_def failures_in_def

lemma accounts_for_zero: "accounts_for account_zero []"
  by (simp add: account_simps account_zero_def)

lemma accounts_for_outcome:
  assumes "accounts_for a outs"
  shows "accounts_for (account_outcome dm r a) (outs @ [(dm, r)])"
proof (cases r)
  case (Inl e)
  with assms show ?thesis by (simp add: account_simps account_outcome_def)
next
  case (Inr p)
  show ?thesis
  proof (cases p)
    case Removed
    with assms Inr show ?thesis
      by (auto simp: account_simps account_outcome_def removed_add_def removed_slot_update intro: tallies_add)
  next
    case Held
    with assms Inr show ?thesis by (auto simp: account_simps account_outcome_def intro: tallies_add)
  next
    case Moved
    with assms Inr show ?thesis by (simp add: account_simps account_outcome_def)
  qed
qed

text \<open>In a dry run every entry counts as removed; in an execution it is what the prune of it gave.\<close>

definition dealt :: "'d pruner \<Rightarrow> prunable option \<Rightarrow> doomed_entry \<times> (rejection + pruned) \<Rightarrow> bool" where
  "dealt pr pb x \<longleftrightarrow>
     (case pb of None \<Rightarrow> snd x = Inr Removed | Some p \<Rightarrow> \<exists>u. snd x = fst (prune_one pr p (fst x) u))"

lemma prune_each_accounts:
  assumes "prune_each pr pb dms a w = (a', w')" and "accounts_for a before"
  shows "\<exists>outs. map fst outs = dms \<and> list_all (dealt pr pb) outs \<and> accounts_for a' (before @ outs)"
  using assms
proof (induction dms arbitrary: a w before)
  case Nil
  then show ?case by (intro exI [of _ "[]"]) simp
next
  case (Cons dm dms)
  obtain r w1 where one:
    "(case pb of None \<Rightarrow> (Inr Removed, w) | Some p \<Rightarrow> prune_one pr p dm (meanwhile (pr_machine pr) w)) = (r, w1)"
    by fastforce
  then have "dealt pr pb (dm, r)" by (cases pb) (auto simp: dealt_def intro: exI [of _ "meanwhile (pr_machine pr) w"])
  moreover from Cons.prems one have "prune_each pr pb dms (account_outcome dm r a) w1 = (a', w')" by simp
  from Cons.IH [OF this accounts_for_outcome [OF Cons.prems(2)]] obtain outs where
    "map fst outs = dms" "list_all (dealt pr pb) outs" "accounts_for a' ((before @ [(dm, r)]) @ outs)" by blast
  ultimately show ?case by (intro exI [of _ "(dm, r) # outs"]) simp
qed

definition pass_accounts :: "prune_pass \<Rightarrow> dealings \<Rightarrow> bool" where
  "pass_accounts p outs \<longleftrightarrow>
     accounts_for \<lparr>pa_removed = ps_removed (pp_subject p), pa_held = ps_held (pp_subject p), pa_failures = pp_failures p\<rparr> outs"

text \<open>Of a refused target nothing was dealt with; of an admitted one, everything gathered in it.\<close>

definition pass_dealings :: "'d pruner \<Rightarrow> mode \<Rightarrow> prune_pass \<Rightarrow> dealings \<Rightarrow> bool" where
  "pass_dealings pr m p outs \<longleftrightarrow>
     (case ps_admission (pp_subject p) of
        Rejected r \<Rightarrow> outs = []
      | Admitted n \<Rightarrow> \<exists>v root sv pb.
          map fst outs = ga_doomed (gather v root sv Everything) \<and> n = ga_profiles (gather v root sv Everything) \<and>
          list_all (dealt pr pb) outs \<and> (pb = None \<longleftrightarrow> m = DryRun))"

lemma prune_candidate_accounts:
  assumes "prune_candidate pr t m known Everything f (own, w) = (p, own', w')"
  shows "\<exists>outs. pass_accounts p outs \<and> pass_dealings pr m p outs"
  using prune_candidate_cases [OF assms]
proof (elim disjE conjE)
  assume "\<exists>r. p = prune_rejected f r"
  then have "pass_accounts p [] \<and> pass_dealings pr m p []"
    using accounts_for_zero by (auto simp: pass_accounts_def pass_dealings_def prune_rejected_def account_zero_def)
  then show ?thesis ..
next
  assume "prune_cleared pr t m f Everything w p w'"
  then obtain ob sv c hold pb w0 w1 w2 where
    hold: "take_hold (pr_machine pr) m (sv_locks sv) w0 = (Inr hold, w1)" and
    pb: "case hold of Probed \<Rightarrow> pb = None
      | Leased l \<Rightarrow> pb = Some \<lparr>pb_clearance = c, pb_lease = l, pb_root = ob_path ob\<rparr>" and
    run: "prune_gathered pr f ob pb (gather (viewing pr w2) (ob_path ob) sv Everything) w2 = (p, w')"
    unfolding prune_cleared_def by blast
  let ?g = "gather (viewing pr w2) (ob_path ob) sv Everything"
  from take_hold_own [OF hold] pb have mode: "pb = None \<longleftrightarrow> m = DryRun" by (cases hold) auto
  obtain a w3 where each: "prune_each pr pb (ga_doomed ?g) account_zero w2 = (a, w3)" by fastforce
  from prune_each_accounts [OF each accounts_for_zero] obtain outs where
    outs: "map fst outs = ga_doomed ?g" "list_all (dealt pr pb) outs" "accounts_for a outs" by auto
  have p: "a = \<lparr>pa_removed = ps_removed (pp_subject p), pa_held = ps_held (pp_subject p), pa_failures = pp_failures p\<rparr>"
    "ps_admission (pp_subject p) = Admitted (ga_profiles ?g)"
    using run each by (auto simp: prune_gathered_def)
  from outs(3) p(1) have "pass_accounts p outs" by (simp add: pass_accounts_def)
  moreover have "pass_dealings pr m p outs"
    using outs mode p(2) by (auto simp: pass_dealings_def)
  ultimately show ?thesis by blast
qed

lemma prune_passes_accounts:
  "prune_passes pr t m fs (own, w) = (ps, own', w') \<Longrightarrow>
     \<exists>outs. list_all2 (\<lambda>p o'. pass_accounts p o' \<and> pass_dealings pr m p o') ps outs"
proof (induction fs arbitrary: own w ps own' w')
  case (Cons f fs)
  obtain p own1 w1 where one: "prune_candidate pr t m None Everything f (own, w) = (p, own1, w1)"
    by (cases "prune_candidate pr t m None Everything f (own, w)") auto
  obtain ps1 own2 w2 where rest: "prune_passes pr t m fs (own1, meanwhile (pr_machine pr) w1) = (ps1, own2, w2)"
    by (cases "prune_passes pr t m fs (own1, meanwhile (pr_machine pr) w1)") auto
  from Cons.prems one rest have ps: "ps = p # ps1" by simp
  from Cons.IH [OF rest] prune_candidate_accounts [OF one] obtain o1 os where
    "pass_accounts p o1 \<and> pass_dealings pr m p o1"
    "list_all2 (\<lambda>p o'. pass_accounts p o' \<and> pass_dealings pr m p o') ps1 os" by blast
  then show ?case unfolding ps by (intro exI [of _ "o1 # os"]) simp
qed (auto intro: exI [of _ "[]"])

lemma totals_tallied:
  "list_all2 (\<lambda>p o'. pass_accounts p o') ps outs \<Longrightarrow> tallies (removed_slot rule r) lens \<Longrightarrow>
     tallies (removed_slot rule (foldl (\<lambda>acc p. removed_merge acc (ps_removed (pp_subject p))) r ps))
       (lens @ lens_of (removed_under rule) (concat outs))"
proof (induction ps outs arbitrary: r lens rule: list_all2_induct)
  case (Cons p ps o1 os)
  from Cons(1) have "tallies (removed_slot rule (ps_removed (pp_subject p))) (lens_of (removed_under rule) o1)"
    by (simp add: pass_accounts_def accounts_for_def)
  from Cons(3) [OF tallies_merge [OF Cons(4) this, folded removed_slot_merge]] show ?case
    by (simp add: lens_of_def)
qed (simp add: lens_of_def)

lemma failures_in_append: "failures_in (xs @ ys) = failures_in xs @ failures_in ys"
  by (simp add: failures_in_def)

lemma failures_collected:
  "list_all2 (\<lambda>p o'. pass_accounts p o') ps outs \<Longrightarrow> concat (map pp_failures ps) = failures_in (concat outs)"
proof (induction ps outs rule: list_all2_induct)
  case (Cons p ps o1 os)
  then show ?case by (simp add: pass_accounts_def accounts_for_def failures_in_append)
qed (simp add: failures_in_def)


end
