(* ===== verification/Prune_Examples.thy ===== *)
theory Prune_Examples
  imports Prune_Runs_Facts Applying_Examples
begin

text \<open>A target that a prune admits on a quiet machine, and sessions that it gathers in it.\<close>

definition job_prune_view :: prune_view where
  "job_prune_view =
     \<lparr>pv_observing = job_observing, pv_len = (\<lambda>_. Inr 7), pv_tree = (\<lambda>_. job_tree),
      pv_image = (\<lambda>_. Inl \<lparr>oe_kind = ENotFound, oe_code = None\<rparr>), pv_read = (\<lambda>_ _. None)\<rparr>"

definition job_pruner :: "folder pruner" where
  "job_pruner =
     \<lparr>pr_machine = job_machine, pr_view = (\<lambda>_. job_prune_view), pr_os = (\<lambda>_. calm_prune),
      pr_behind = (\<lambda>d _. d), pr_written = (\<lambda>_ es _. es)\<rparr>"

definition job_prune_terms :: prune_terms where
  "job_prune_terms = \<lparr>pt_excludes = [ex_names [''q'']], pt_protection = ex_protection\<rparr>"

definition job_prune_check :: prune_check where
  "job_prune_check =
     \<lparr>pc_recorded = fd_candidate job_found, pc_identity = on_disk 2, pc_ownership = job_ownership,
      pc_liveness = liveness.Free\<rparr>"

lemma job_prunable: "Gate_Facts.prunable (\<lambda>b. b) job_site job_prune_check"
  using job_deletable
  by (simp add: Gate_Facts.prunable_def deletable_def recheck_holds_def job_prune_check_def job_verify_def
      job_ownership_def job_kind kind_protocol_def)

lemma job_prune_cleared:
  "clear_prune (\<lambda>_. []) (\<lambda>b. b) job_site job_prune_check =
     Inr \<lparr>pl_location = ex_names job_path, pl_identity = on_disk 2\<rparr>"
proof -
  have "gate_run (\<lambda>_. []) (\<lambda>b. b) job_site (Prune job_prune_check) = Inr \<lparr>id_kind = RustTarget, id_provenance = Inferred\<rparr>"
    using job_prunable job_identify by (simp add: run_prune)
  then show ?thesis
    by (simp add: clear_prune_def job_prune_check_def) (simp add: job_site_def observation_site_def job_observation_def)
qed

lemma job_gathered:
  "gather (viewing job_pruner w) job_path \<lparr>sv_locks = [job_lock], sv_markers = []\<rparr> Everything =
     \<lparr>ga_profiles = 1, ga_doomed = [], ga_unreadable = 0\<rparr>"
proof -
  have view: "ob_metadata (pv_observing (viewing job_pruner w)) p = Inr job_metadata"
    "ob_read_dir (pv_observing (viewing job_pruner w)) p = Inr (if p = [''work''] then [Inr ''Cargo.toml'', Inr ''target''] else [])" for p
    by (simp_all add: viewing_def job_pruner_def observing_def job_machine_def job_observing_def)
  show ?thesis
    by (simp add: gather_def survey_profiles_def map_filter_simps job_lock_def parent_of_def fingerprinted_def view
        job_metadata_def gather_sessions_def gather_objects_def listed_def object_directories_def
        directory_objects_def parsed_objects_def mixed_def group_by_def sat_add_def)
qed

text \<open>The pass of a prune over it: admitted with its profile, nothing left to remove, and the locks
  released.\<close>

lemma job_prune_passed:
  "\<exists>own'. prune_candidate job_pruner job_prune_terms Execute None Everything job_found (job_owners, job_world) =
     (\<lparr>pp_subject = \<lparr>ps_id = cd_id (fd_candidate job_found), ps_location = ex_names job_path,
         ps_admission = Admitted 1, ps_removed = removed_zero, ps_held = file_tally_zero, ps_unreadable_images = 0\<rparr>,
       pp_failures = []\<rparr>, own', job_world)"
proof -
  have pr: "pr_machine job_pruner = job_machine" by (simp add: job_pruner_def)
  obtain ownership own1 where own: "owners_of (owning job_machine job_world) job_path [] job_owners = (ownership, own1)"
    by fastforce
  have ob: "ob_path job_observation = job_path" "ob_found_identity job_observation = on_disk 2"
    "ob_location job_observation = ex_names job_path"
    by (simp_all add: job_observation_def)
  have "owners_clone job_owners = job_owners" by (simp add: owners_clone_def job_owners_def)
  with own job_recheck [of job_world] have ownership: "ownership = job_ownership" by (simp add: owners_recheck_def)
  have site: "observation_site job_observation (pt_protection job_prune_terms) (pt_excludes job_prune_terms) = job_site"
    by (simp add: job_prune_terms_def job_site_def)
  have check: "\<lparr>pc_recorded = fd_candidate job_found, pc_identity = on_disk 2, pc_ownership = job_ownership,
      pc_liveness = hold_liveness (Inr h)\<rparr> = job_prune_check" for h
    by (simp add: job_prune_check_def hold_liveness_def)
  have opened: "\<exists>x. open_root undisturbed (on_disk 1) job_path (on_disk 2) sample_home = Inr x"
    by (simp add: open_root_def undisturbed_def sample_home_def job_path_def on_disk_def)
  then obtain x where opened: "open_root undisturbed (on_disk 1) job_path (on_disk 2) sample_home = Inr x" ..
  have disk: "wd_disk job_world = sample_home" "job_world\<lparr>wd_own := {}\<rparr> = job_world"
    by (simp_all add: job_world_def)
  show ?thesis
    by (simp add: prune_candidate_def pr job_kind job_observed ob job_quiet Let_def prune_survey_def job_selectors
        job_surveyed own ownership prune_surveyed_def job_hold site check job_prune_cleared prune_authorized_def
        prunable_new_def job_located job_gathered prune_gathered_def release_lease_def account_zero_def
        result_simps disk opened [unfolded One_nat_def])
qed

end
