(* ===== verification/Inventories.thy ===== *)
theory Inventories
  imports Prune_Gathering Sharing
begin

text \<open>
  The files of a target that may share their blocks (\<open>inventory\<close>, \<open>shallow\<close>, \<open>present\<close> and
  \<open>still_there\<close> of \<open>crates/cli/src/dedupe.rs\<close>): all of them below a directory, or those that a
  change of one path brings in or leaves.
\<close>

section \<open>What is looked at\<close>

record file_facts =
  ff_identity :: identity
  ff_len :: u64
  ff_links :: u64
  ff_owner :: file_owner
  ff_mode :: file_mode
  ff_sharing :: sharing

record path_meta =
  pm_type :: file_type
  pm_len :: u64
  pm_device :: "u64 option"

text \<open>The answers for a path; the names below it are those of its tree.\<close>

record stock_os =
  so_host :: os_host
  so_kind :: "os_path \<Rightarrow> os_error + file_type"
  so_meta :: "os_path \<Rightarrow> os_error + path_meta"
  so_facts :: "os_path \<Rightarrow> os_error + file_facts"
  so_tree :: "os_path \<Rightarrow> os_tree"

section \<open>A whole directory\<close>

type_synonym listed_file = "os_path \<times> os_path \<times> file_facts"

record inventory =
  iv_files :: "listed_file list"
  iv_unreadable :: u64

definition share_temporary :: "bytes \<Rightarrow> bool" where
  "share_temporary name \<longleftrightarrow> strip_suffix temporary_suffix name \<noteq> None"

definition inventory_file :: "stock_os \<Rightarrow> os_path \<Rightarrow> os_path \<Rightarrow> path_meta \<Rightarrow> inventory \<Rightarrow> inventory" where
  "inventory_file os root path m iv =
     (if pm_len m < minimum then iv
      else (case strip_prefix root path of
              None \<Rightarrow> iv
            | Some rel \<Rightarrow>
                (case so_facts os path of
                   Inr facts \<Rightarrow> iv\<lparr>iv_files := iv_files iv @ [(path, rel, facts)]\<rparr>
                 | Inl _ \<Rightarrow> iv\<lparr>iv_unreadable := sat_add (iv_unreadable iv) 1\<rparr>)))"

type_synonym unread = "(os_path \<times> os_tree) list"

definition inventory_entry ::
  "stock_os \<Rightarrow> os_path \<Rightarrow> u64 option \<Rightarrow> os_path \<Rightarrow> bytes \<times> os_tree \<Rightarrow> unread \<times> inventory
   \<Rightarrow> rejection + unread \<times> inventory" where
  "inventory_entry os root device directory entry state =
     (case (entry, state) of
        ((n, t), (pushed, iv)) \<Rightarrow>
          (let path = directory @ [n] in
           result_bind (os_result (so_host os) path fs_op.FileType (so_kind os path)) (\<lambda>kind.
             if ft_dir kind then
               result_bind (os_result (so_host os) path fs_op.Inspect (so_meta os path)) (\<lambda>m.
                 Inr (if pm_device m = device then pushed @ [(path, t)] else pushed, iv))
             else if ft_file kind \<and> \<not> share_temporary n then
               result_bind (os_result (so_host os) path fs_op.Metadata (so_meta os path)) (\<lambda>m.
                 Inr (pushed, inventory_file os root path m iv))
             else Inr (pushed, iv))))"

fun inventory_entries ::
  "stock_os \<Rightarrow> os_path \<Rightarrow> u64 option \<Rightarrow> os_path \<Rightarrow> (bytes \<times> os_tree) list \<Rightarrow> unread \<times> inventory
   \<Rightarrow> rejection + unread \<times> inventory" where
  "inventory_entries os root device directory [] state = Inr state"
| "inventory_entries os root device directory (e # es) state =
     result_bind (inventory_entry os root device directory e state)
       (inventory_entries os root device directory es)"

definition inventory_directory ::
  "stock_os \<Rightarrow> os_path \<Rightarrow> u64 option \<Rightarrow> os_path \<Rightarrow> os_tree \<Rightarrow> inventory
   \<Rightarrow> rejection + unread \<times> inventory" where
  "inventory_directory os root device directory tree iv =
     (case na_read_dir (node_answers tree) of
        Some e \<Rightarrow> Inl (io_rejection (so_host os) directory ReadDir e)
      | None \<Rightarrow>
          result_bind (os_result (so_host os) directory ReadEntry (read_entries (node_entries tree)))
            (\<lambda>entries. inventory_entries os root device directory entries ([], iv)))"

lemma inventory_entry_nodes:
  "inventory_entry os root device directory e (pushed, iv) = Inr (pushed', iv') \<Longrightarrow>
   stack_nodes pushed' \<le> stack_nodes pushed + tree_nodes (snd e)"
  by (cases e) (auto simp: inventory_entry_def Let_def result_simps stack_nodes_append stack_nodes_Cons
      stack_nodes_def split: if_splits)

lemma inventory_entries_nodes:
  "inventory_entries os root device directory es (pushed, iv) = Inr (pushed', iv') \<Longrightarrow>
   stack_nodes pushed' \<le> stack_nodes pushed + (\<Sum>(n, t)\<leftarrow>es. tree_nodes t)"
proof (induction es arbitrary: pushed iv)
  case (Cons e es)
  then obtain p1 i1 where "inventory_entry os root device directory e (pushed, iv) = Inr (p1, i1)"
    "inventory_entries os root device directory es (p1, i1) = Inr (pushed', iv')"
    by (auto simp: result_simps)
  with Cons.IH [of p1 i1] inventory_entry_nodes show ?case by (cases e) fastforce
qed simp

lemma inventory_directory_nodes:
  assumes "inventory_directory os root device directory tree iv = Inr (pushed, iv')"
  shows "stack_nodes pushed < tree_nodes tree"
proof -
  from assms obtain xs where "read_entries (node_entries tree) = Inr xs"
    "inventory_entries os root device directory xs ([], iv) = Inr (pushed, iv')"
    by (auto simp: inventory_directory_def result_simps split: option.splits)
  with inventory_entries_nodes [of os root device directory xs "[]" iv pushed iv']
    read_entries_nodes [of "node_entries tree" xs]
  show ?thesis by (cases tree) (simp add: stack_nodes_def)
qed

function inventory_loop ::
  "stock_os \<Rightarrow> os_path \<Rightarrow> u64 option \<Rightarrow> unread \<Rightarrow> inventory \<Rightarrow> rejection + inventory" where
  "inventory_loop os root device [] iv = Inr iv"
| "inventory_loop os root device ((directory, tree) # stack) iv =
     (case inventory_directory os root device directory tree iv of
        Inl r \<Rightarrow> Inl r
      | Inr (pushed, iv') \<Rightarrow> inventory_loop os root device (rev pushed @ stack) iv')"
  by pat_completeness auto

termination
proof (relation "measure (\<lambda>(os, root, device, stack, iv). stack_nodes stack)")
  fix os root device directory tree stack iv and x :: "unread \<times> inventory" and pushed iv'
  assume "inventory_directory os root device directory tree iv = Inr x" "(pushed, iv') = x"
  then have "stack_nodes pushed < tree_nodes tree" by (auto dest: inventory_directory_nodes)
  then show "((os, root, device, rev pushed @ stack, iv'), (os, root, device, (directory, tree) # stack, iv))
      \<in> measure (\<lambda>(os, root, device, stack, iv). stack_nodes stack)"
    by (simp add: stack_nodes_def rev_map [symmetric])
qed simp

definition inventory_under :: "stock_os \<Rightarrow> os_path \<Rightarrow> os_path \<Rightarrow> rejection + inventory" where
  "inventory_under os root start =
     result_bind (os_result (so_host os) root fs_op.Inspect (so_meta os root)) (\<lambda>top.
     result_bind (inventory_loop os root (pm_device top) [(start, so_tree os start)]
         \<lparr>iv_files = [], iv_unreadable = 0\<rparr>) (\<lambda>iv.
       Inr (iv\<lparr>iv_files := sort_key fst (iv_files iv)\<rparr>)))"

definition inventory_of :: "stock_os \<Rightarrow> os_path \<Rightarrow> rejection + inventory" where
  "inventory_of os root = inventory_under os root root"

section \<open>What a change brings in\<close>

datatype event = Appeared | Vanished | Written | Unsure

definition still_there :: "stock_os \<Rightarrow> os_path \<Rightarrow> os_path \<Rightarrow> os_path \<Rightarrow> bool" where
  "still_there os path rel recorded =
     (case strip_prefix rel recorded of
        Some (name # rest) \<Rightarrow> (case so_meta os (path @ [name]) of Inr _ \<Rightarrow> True | Inl _ \<Rightarrow> False)
      | _ \<Rightarrow> False)"

text \<open>The files at a path, unless it is a directory whose entries are to be looked at one by one.\<close>

definition present_files :: "stock_os \<Rightarrow> os_path \<Rightarrow> os_path \<Rightarrow> (os_path \<times> file_facts) list" where
  "present_files os root path =
     (case so_meta os path of
        Inl _ \<Rightarrow> []
      | Inr m \<Rightarrow>
          if ft_dir (pm_type m) then
            (case inventory_under os root path of Inr iv \<Rightarrow> map snd (iv_files iv) | Inl _ \<Rightarrow> [])
          else if ft_file (pm_type m) \<and> minimum \<le> pm_len m \<and>
              \<not> (path \<noteq> [] \<and> share_temporary (List.last path)) then
            (case (strip_prefix root path, so_facts os path) of
               (Some rel, Inr facts) \<Rightarrow> [(rel, facts)]
             | _ \<Rightarrow> [])
          else [])"

definition shallow_files :: "stock_os \<Rightarrow> os_path \<Rightarrow> os_path \<Rightarrow> (os_path \<times> file_facts) list" where
  "shallow_files os root directory =
     (case na_read_dir (node_answers (so_tree os directory)) of
        Some _ \<Rightarrow> []
      | None \<Rightarrow>
          concat (map (\<lambda>e. case e of
              os_entry.Unreadable _ \<Rightarrow> []
            | Entry n t \<Rightarrow>
                (case so_kind os (directory @ [n]) of
                   Inr kind \<Rightarrow> if ft_file kind then present_files os root (directory @ [n]) else []
                 | Inl _ \<Rightarrow> []))
            (node_entries (so_tree os directory))))"

definition present :: "stock_os \<Rightarrow> os_path \<Rightarrow> os_path \<Rightarrow> event \<Rightarrow> (os_path \<times> file_facts) list" where
  "present os root path ev =
     (case so_meta os path of
        Inr m \<Rightarrow>
          if ft_dir (pm_type m) \<and> ev = Unsure then shallow_files os root path
          else present_files os root path
      | Inl _ \<Rightarrow> [])"

end
