(* ===== verification/Pools.thy ===== *)
theory Pools
  imports Inventories Tree_Maps Applying_Facts "HOL-Library.AList"
begin

text \<open>
  The pool of files that may share their blocks (\<open>Pool\<close> of \<open>crates/cli/src/dedupe.rs\<close>): the stock of
  every target with its files, the members of every length, and the journal of what a cache of
  the pool has to be told. Maps and sets are sorted association lists.
\<close>

section \<open>State\<close>

datatype share_admission = Admitted share_method nat u64 | Rejected rejection

record share_subject =
  ss_id :: candidate_id
  ss_location :: location
  ss_admission :: share_admission

type_synonym stock_files = "(os_path \<times> file_facts) list"

record stock =
  sk_found :: Applying.found
  sk_subject :: share_subject
  sk_method :: "share_method option"
  sk_files :: stock_files

type_synonym pool_member = "os_path \<times> os_path"

record journal =
  jl_cleared :: "(os_path \<times> unit) list"
  jl_roots :: "(os_path \<times> (identity \<times> u64)) list"
  jl_files :: "(pool_member \<times> file_facts option) list"

record pool =
  pl_stocks :: "(os_path \<times> stock) list"
  pl_lengths :: "(u64 \<times> (pool_member \<times> unit) list) list"
  pl_journal :: journal

definition journal_empty :: journal where
  "journal_empty = \<lparr>jl_cleared = [], jl_roots = [], jl_files = []\<rparr>"

definition pool_empty :: pool where
  "pool_empty = \<lparr>pl_stocks = [], pl_lengths = [], pl_journal = journal_empty\<rparr>"

definition tm_extend :: "('k::linorder \<times> 'v) list \<Rightarrow> ('k \<times> 'v) list \<Rightarrow> ('k \<times> 'v) list" where
  "tm_extend m xs = foldl (\<lambda>m (k, v). tm_insert k v m) m xs"

section \<open>The index by length\<close>

definition index_file :: "os_path \<Rightarrow> os_path \<times> file_facts \<Rightarrow> pool \<Rightarrow> pool" where
  "index_file root entry p =
     p\<lparr>pl_lengths := tm_alter (\<lambda>members. Some (tm_insert (root, fst entry) ()
         (case members of None \<Rightarrow> [] | Some ms \<Rightarrow> ms))) (ff_len (snd entry)) (pl_lengths p)\<rparr>"

definition pool_index :: "os_path \<Rightarrow> stock_files \<Rightarrow> pool \<Rightarrow> pool" where
  "pool_index root files p = foldl (\<lambda>p entry. index_file root entry p) p files"

definition unindex_file :: "os_path \<Rightarrow> os_path \<times> file_facts \<Rightarrow> pool \<Rightarrow> pool" where
  "unindex_file root entry p =
     p\<lparr>pl_lengths := tm_alter (\<lambda>members. case members of
          None \<Rightarrow> None
        | Some ms \<Rightarrow>
            (let left = tm_remove (root, fst entry) ms in if left = [] then None else Some left))
         (ff_len (snd entry)) (pl_lengths p)\<rparr>"

definition pool_unindex :: "os_path \<Rightarrow> stock_files \<Rightarrow> pool \<Rightarrow> pool" where
  "pool_unindex root files p = foldl (\<lambda>p entry. unindex_file root entry p) p files"

section \<open>The journal\<close>

definition replace_cached :: "Applying.found \<Rightarrow> u64 \<Rightarrow> stock_files \<Rightarrow> journal \<Rightarrow> journal" where
  "replace_cached f unreadable files j =
     (let root = fd_path f in
      \<lparr>jl_cleared = tm_insert root () (jl_cleared j),
       jl_roots = tm_insert root (cd_identity (fd_candidate f), unreadable) (jl_roots j),
       jl_files = tm_extend (filter (\<lambda>x. fst (fst x) \<noteq> root) (jl_files j))
         (map (\<lambda>(rel, facts). ((root, rel), Some facts)) files)\<rparr>)"

definition note_cached :: "os_path \<Rightarrow> stock_files \<Rightarrow> stock_files \<Rightarrow> journal \<Rightarrow> journal" where
  "note_cached root removed added j =
     j\<lparr>jl_files := tm_extend (tm_extend (jl_files j) (map (\<lambda>(rel, _). ((root, rel), None)) removed))
        (map (\<lambda>(rel, facts). ((root, rel), Some facts)) added)\<rparr>"

definition forget_cached :: "os_path \<Rightarrow> journal \<Rightarrow> journal" where
  "forget_cached root j =
     \<lparr>jl_cleared = tm_insert root () (jl_cleared j), jl_roots = tm_remove root (jl_roots j),
      jl_files = filter (\<lambda>x. fst (fst x) \<noteq> root) (jl_files j)\<rparr>"

record inventory_root =
  ir_root :: os_path
  ir_identity :: identity
  ir_unreadable :: u64

record inventory_changes =
  ic_cleared :: "os_path list"
  ic_roots :: "inventory_root list"
  ic_files :: "(os_path \<times> os_path \<times> file_facts option) list"

definition pool_changes :: "pool \<Rightarrow> inventory_changes \<times> pool" where
  "pool_changes p =
     (let j = pl_journal p in
      (\<lparr>ic_cleared = map fst (jl_cleared j),
        ic_roots = map (\<lambda>(root, i, unreadable). \<lparr>ir_root = root, ir_identity = i, ir_unreadable = unreadable\<rparr>)
          (jl_roots j),
        ic_files = map (\<lambda>((root, rel), facts). (root, rel, facts)) (jl_files j)\<rparr>,
       p\<lparr>pl_journal := journal_empty\<rparr>))"

section \<open>Stocks\<close>

definition put_stock ::
  "Applying.found \<Rightarrow> share_admission \<Rightarrow> share_method option \<Rightarrow> stock_files \<Rightarrow> pool \<Rightarrow> pool" where
  "put_stock f admission method files p =
     (let p = pool_index (fd_path f) files p in
      p\<lparr>pl_stocks := tm_insert (fd_path f)
          \<lparr>sk_found = f,
           sk_subject = \<lparr>ss_id = cd_id (fd_candidate f), ss_location = cd_location (fd_candidate f),
             ss_admission = admission\<rparr>,
           sk_method = method, sk_files = files\<rparr> (pl_stocks p)\<rparr>)"

record cached_stock =
  ct_root :: os_path
  ct_identity :: identity
  ct_unreadable :: u64
  ct_files :: stock_files

text \<open>With what \<open>admit\<close> answers for the target.\<close>

definition pool_restore ::
  "rejection + share_method \<Rightarrow> Applying.found \<Rightarrow> cached_stock \<Rightarrow> pool \<Rightarrow> bool \<times> pool" where
  "pool_restore admitted f cached p =
     (if ct_root cached \<noteq> fd_path f \<or> ct_identity cached \<noteq> cd_identity (fd_candidate f) then (False, p)
      else (case admitted of
              Inr m \<Rightarrow>
                (True, put_stock f (Admitted m (length (ct_files cached)) (ct_unreadable cached)) (Some m)
                   (ct_files cached) p)
            | Inl r \<Rightarrow>
                (True, put_stock f (Rejected r) None []
                   (p\<lparr>pl_journal := replace_cached f 0 [] (pl_journal p)\<rparr>))))"

type_synonym fresh_files = "(identity \<times> u64) list"

definition fresh_of :: "identity list \<Rightarrow> stock_files \<Rightarrow> fresh_files" where
  "fresh_of known files =
     foldl (\<lambda>m facts. AList.update (ff_identity facts) (ff_len facts) m) []
       (filter (\<lambda>facts. ff_identity facts \<notin> set known) (map snd files))"

definition identities_of :: "stock_files \<Rightarrow> identity list" where
  "identities_of files = map (ff_identity \<circ> snd) files"

text \<open>With what \<open>admit\<close> and then \<open>inventory\<close> answer.\<close>

definition pool_stock ::
  "rejection + share_method \<times> inventory \<Rightarrow> Applying.found \<Rightarrow> pool \<Rightarrow> fresh_files \<times> pool" where
  "pool_stock admitted f p =
     (let root = fd_path f;
          (known, p1) =
            (case map_of (pl_stocks p) root of
               Some old \<Rightarrow>
                 (identities_of (sk_files old),
                  pool_unindex root (sk_files old) (p\<lparr>pl_stocks := tm_remove root (pl_stocks p)\<rparr>))
             | None \<Rightarrow> ([], p));
          (admission, method, files, unreadable) =
            (case admitted of
               Inl r \<Rightarrow> (Rejected r, None, [], 0)
             | Inr (m, iv) \<Rightarrow>
                 (Admitted m (length (iv_files iv)) (iv_unreadable iv), Some m,
                  tm_extend [] (map snd (iv_files iv)), iv_unreadable iv)) in
      (fresh_of known files,
       put_stock f admission method files
         (p1\<lparr>pl_journal := replace_cached f unreadable files (pl_journal p1)\<rparr>)))"

section \<open>Changes\<close>

definition below_from :: "os_path \<Rightarrow> stock_files \<Rightarrow> stock_files" where
  "below_from rel files =
     takeWhile (\<lambda>x. starts_with rel (fst x)) (dropWhile (\<lambda>x. fst x < rel) files)"

definition changed_below :: "stock_os \<Rightarrow> os_path \<Rightarrow> os_path \<Rightarrow> event \<Rightarrow> stock_files \<Rightarrow> os_path list" where
  "changed_below os path rel ev files =
     filter (\<lambda>recorded. case ev of
         Unsure \<Rightarrow> parent_of recorded = Some rel \<or> \<not> still_there os path rel recorded
       | _ \<Rightarrow> True) (map fst (below_from rel files))"

record noting =
  nt_files :: stock_files
  nt_removed :: stock_files
  nt_added :: stock_files

fun note_removed :: "os_path list \<Rightarrow> noting \<Rightarrow> noting" where
  "note_removed [] n = n"
| "note_removed (recorded # rest) n =
     note_removed rest
       (case map_of (nt_files n) recorded of
          None \<Rightarrow> n
        | Some facts \<Rightarrow>
            n\<lparr>nt_files := tm_remove recorded (nt_files n), nt_removed := tm_insert recorded facts (nt_removed n)\<rparr>)"

definition note_change :: "stock_os \<Rightarrow> os_path \<Rightarrow> os_path \<times> event \<Rightarrow> noting \<Rightarrow> noting" where
  "note_change os root change n =
     (case change of (path, ev) \<Rightarrow>
        (case strip_prefix root path of
           None \<Rightarrow> n
         | Some rel \<Rightarrow>
             (let n' = note_removed (changed_below os path rel ev (nt_files n)) n in
              n'\<lparr>nt_added := tm_extend (nt_added n') (present os root path ev)\<rparr>)))"

definition note_changes :: "stock_os \<Rightarrow> os_path \<Rightarrow> (os_path \<times> event) list \<Rightarrow> stock_files \<Rightarrow> noting" where
  "note_changes os root changed files =
     foldl (\<lambda>n change. note_change os root change n)
       \<lparr>nt_files = files, nt_removed = [], nt_added = []\<rparr> changed"

definition pool_note ::
  "stock_os \<Rightarrow> os_path \<Rightarrow> (os_path \<times> event) list \<Rightarrow> pool \<Rightarrow> fresh_files \<times> pool" where
  "pool_note os root changed p =
     (case map_of (pl_stocks p) root of
        None \<Rightarrow> ([], p)
      | Some s \<Rightarrow>
          if sk_method s = None then ([], p)
          else
            (let n = note_changes os root changed (sk_files s);
                 s' = s\<lparr>sk_files := tm_extend (nt_files n) (nt_added n)\<rparr> in
             (fresh_of (identities_of (nt_removed n)) (nt_added n),
              pool_index root (nt_added n) (pool_unindex root (nt_removed n)
                (p\<lparr>pl_stocks := tm_insert root s' (pl_stocks p),
                   pl_journal := note_cached root (nt_removed n) (nt_added n) (pl_journal p)\<rparr>)))))"

definition pool_forget :: "os_path \<Rightarrow> pool \<Rightarrow> pool" where
  "pool_forget root p =
     (let p1 = (case map_of (pl_stocks p) root of
          None \<Rightarrow> p
        | Some s \<Rightarrow> pool_unindex root (sk_files s) (p\<lparr>pl_stocks := tm_remove root (pl_stocks p)\<rparr>)) in
      p1\<lparr>pl_journal := forget_cached root (pl_journal p1)\<rparr>)"

section \<open>What is looked for\<close>

datatype focus = Everything_Shared | Fresh "os_path list" fresh_files

fun focus_subject :: "focus \<Rightarrow> os_path \<Rightarrow> bool" where
  "focus_subject Everything_Shared root \<longleftrightarrow> True"
| "focus_subject (Fresh roots fresh) root \<longleftrightarrow> root \<in> set roots"

fun focus_group :: "focus \<Rightarrow> group \<Rightarrow> bool" where
  "focus_group Everything_Shared g \<longleftrightarrow> True"
| "focus_group (Fresh roots fresh) g \<longleftrightarrow>
     list_ex (\<lambda>m. map_of fresh (fr_identity (snd m)) \<noteq> None) (gr_members g)"

definition repeated :: "pool \<Rightarrow> u64 \<Rightarrow> bool" where
  "repeated p len \<longleftrightarrow> (case map_of (pl_lengths p) len of None \<Rightarrow> False | Some members \<Rightarrow> 1 < length members)"

fun focus_lengths :: "pool \<Rightarrow> focus \<Rightarrow> u64 list" where
  "focus_lengths p Everything_Shared = filter (repeated p) (map fst (pl_lengths p))"
| "focus_lengths p (Fresh roots fresh) = sort (remdups (filter (repeated p) (map snd fresh)))"

record item =
  it_record :: file_record
  it_found :: Applying.found
  it_path :: os_path
  it_relative :: os_path

definition focus_subjects :: "pool \<Rightarrow> focus \<Rightarrow> share_subject list" where
  "focus_subjects p focus = map (sk_subject \<circ> snd) (filter (\<lambda>x. focus_subject focus (fst x)) (pl_stocks p))"

definition member_file :: "pool \<Rightarrow> pool_member \<Rightarrow> (pool_member \<times> stock \<times> share_method \<times> file_facts) option" where
  "member_file p m =
     (case map_of (pl_stocks p) (fst m) of
        None \<Rightarrow> None
      | Some s \<Rightarrow>
          (case (sk_method s, map_of (sk_files s) (snd m)) of
             (Some method, Some facts) \<Rightarrow> Some (m, s, method, facts)
           | _ \<Rightarrow> None))"

fun first_seen :: "('a \<Rightarrow> 'k) \<Rightarrow> 'k list \<Rightarrow> 'a list \<Rightarrow> 'a list" where
  "first_seen key seen [] = []"
| "first_seen key seen (x # xs) =
     (if key x \<in> set seen then first_seen key seen xs else x # first_seen key (key x # seen) xs)"

definition item_of ::
  "os_host \<Rightarrow> pool_member \<times> stock \<times> share_method \<times> file_facts \<Rightarrow> item option" where
  "item_of h entry =
     (case entry of ((root, rel), s, method, facts) \<Rightarrow>
        (let path = root @ rel in
         case locate h path of
           Inl _ \<Rightarrow> None
         | Inr location \<Rightarrow>
             Some \<lparr>it_record =
                 \<lparr>fr_location = location, fr_len = ff_len facts, fr_identity = ff_identity facts,
                  fr_method = method, fr_links = ff_links facts, fr_owner = ff_owner facts,
                  fr_mode = ff_mode facts, fr_extras = extras.Unobserved, fr_sharing = ff_sharing facts\<rparr>,
               it_found = sk_found s, it_path = path, it_relative = rel\<rparr>))"

definition pool_items :: "os_host \<Rightarrow> pool \<Rightarrow> focus \<Rightarrow> item list" where
  "pool_items h p focus =
     (let members = concat (map (\<lambda>len. case map_of (pl_lengths p) len of None \<Rightarrow> [] | Some ms \<Rightarrow> map fst ms)
          (focus_lengths p focus)) in
      List.map_filter (item_of h)
        (first_seen (\<lambda>(_, _, _, facts). ff_identity facts) [] (List.map_filter (member_file p) members)))"

end
