(* ===== verification/Cache_Values.thy ===== *)
theory Cache_Values
  imports Pools
begin

text \<open>
  How the cache of the watcher writes roots, files and paths as bytes (\<open>root_value\<close>, \<open>facts_value\<close>,
  \<open>file_key\<close>, \<open>absolute\<close> and \<open>relative\<close> of \<open>crates/cli/src/store.rs\<close>), and that reading accepts exactly
  what writing writes.
\<close>

section \<open>Values\<close>

definition value_take :: "nat \<Rightarrow> bytes \<Rightarrow> (bytes \<times> bytes) option" where
  "value_take n bs = (if n \<le> length bs then Some (take n bs, drop n bs) else None)"

definition value_u64 :: "bytes \<Rightarrow> (u64 \<times> bytes) option" where
  "value_u64 bs = map_option (\<lambda>(word, rest). (of_nat (of_le_bytes word), rest)) (value_take 8 bs)"

definition value_u128 :: "bytes \<Rightarrow> (u128 \<times> bytes) option" where
  "value_u128 bs = map_option (\<lambda>(word, rest). (of_nat (of_le_bytes word), rest)) (value_take 16 bs)"

definition value_byte :: "bytes \<Rightarrow> (char \<times> bytes) option" where
  "value_byte bs = (case value_take 1 bs of Some ([b], rest) \<Rightarrow> Some (b, rest) | _ \<Rightarrow> None)"

definition root_value :: "identity \<Rightarrow> u64 \<Rightarrow> bytes" where
  "root_value i unreadable = le64 (volume i) @ le128 (file_id i) @ le64 unreadable"

definition parse_root_value :: "bytes \<Rightarrow> (identity \<times> u64) option" where
  "parse_root_value bs =
     Option.bind (value_u64 bs) (\<lambda>(vol, bs).
     Option.bind (value_u128 bs) (\<lambda>(f, bs).
     Option.bind (value_u64 bs) (\<lambda>(unreadable, bs).
       if bs = [] then Some (\<lparr>volume = vol, file_id = f\<rparr>, unreadable) else None)))"

definition owner_byte :: "file_owner \<Rightarrow> char" where
  "owner_byte w = (case w of Caller \<Rightarrow> CHR 0x00 | file_owner.Other \<Rightarrow> CHR 0x01)"

definition mode_byte :: "file_mode \<Rightarrow> char" where
  "mode_byte m = (case m of file_mode.Plain \<Rightarrow> CHR 0x00 | file_mode.Executable \<Rightarrow> CHR 0x01)"

definition sharing_value :: "sharing \<Rightarrow> bytes" where
  "sharing_value s = (case s of sharing.Unknown \<Rightarrow> CHR 0x00 # le64 0 | sharing.Cluster c \<Rightarrow> CHR 0x01 # le64 c)"

definition facts_value :: "file_facts \<Rightarrow> bytes" where
  "facts_value f =
     le64 (volume (ff_identity f)) @ le128 (file_id (ff_identity f)) @ le64 (ff_len f) @ le64 (ff_links f) @
     [owner_byte (ff_owner f), mode_byte (ff_mode f)] @ sharing_value (ff_sharing f)"

definition parse_owner :: "char \<Rightarrow> file_owner option" where
  "parse_owner b = (if b = CHR 0x00 then Some Caller else if b = CHR 0x01 then Some file_owner.Other else None)"

definition parse_mode :: "char \<Rightarrow> file_mode option" where
  "parse_mode b = (if b = CHR 0x00 then Some file_mode.Plain else if b = CHR 0x01 then Some file_mode.Executable else None)"

definition parse_sharing :: "char \<Rightarrow> u64 \<Rightarrow> sharing option" where
  "parse_sharing b c =
     (if b = CHR 0x00 \<and> c = 0 then Some sharing.Unknown
      else if b = CHR 0x01 then Some (sharing.Cluster c) else None)"

definition parse_facts_value :: "bytes \<Rightarrow> file_facts option" where
  "parse_facts_value bs =
     Option.bind (value_u64 bs) (\<lambda>(vol, bs).
     Option.bind (value_u128 bs) (\<lambda>(f, bs).
     Option.bind (value_u64 bs) (\<lambda>(len, bs).
     Option.bind (value_u64 bs) (\<lambda>(links, bs).
     Option.bind (value_byte bs) (\<lambda>(b, bs).
     Option.bind (parse_owner b) (\<lambda>owner.
     Option.bind (value_byte bs) (\<lambda>(b, bs).
     Option.bind (parse_mode b) (\<lambda>mode.
     Option.bind (value_byte bs) (\<lambda>(b, bs).
     Option.bind (value_u64 bs) (\<lambda>(c, bs).
     Option.bind (parse_sharing b c) (\<lambda>sharing.
       if bs \<noteq> [] \<or> len < minimum \<or> links = 0 then None
       else Some \<lparr>ff_identity = \<lparr>volume = vol, file_id = f\<rparr>, ff_len = len, ff_links = links, ff_owner = owner,
                  ff_mode = mode, ff_sharing = sharing\<rparr>)))))))))))"

section \<open>Keys\<close>

definition be32 :: "nat \<Rightarrow> bytes" where
  "be32 n = rev (le_bytes 4 n)"

definition invalid_input :: os_error where
  "invalid_input = \<lparr>oe_kind = EInvalidInput, oe_code = None\<rparr>"

definition raw_relative :: "os_path \<Rightarrow> bytes" where
  "raw_relative rel = join_with (CHR ''/'') rel"

definition file_key :: "os_path \<Rightarrow> os_path \<Rightarrow> os_error + bytes" where
  "file_key root rel =
     (let raw = unix_spell root in
      if length raw < 2 ^ 32 then Inr (be32 (length raw) @ raw @ raw_relative rel) else Inl invalid_input)"

definition split_file_key :: "bytes \<Rightarrow> (bytes \<times> bytes) option" where
  "split_file_key key =
     Option.bind (value_take 4 key) (\<lambda>(len, rest).
     Option.bind (value_take (of_le_bytes (rev len)) rest) (\<lambda>(root, rel).
       if rel = [] then None else Some (root, rel)))"

section \<open>Paths\<close>

text \<open>The names of a path. Empty names and single dots are passed over, except a dot at the start.\<close>

definition path_names :: "bytes \<Rightarrow> bytes list" where
  "path_names bs = filter (\<lambda>n. n \<noteq> [] \<and> n \<noteq> ''.'') (split_on (\<lambda>b. b = CHR ''/'') bs)"

definition cache_absolute :: "bytes \<Rightarrow> os_path option" where
  "cache_absolute bs =
     (case bs of
        [] \<Rightarrow> None
      | b # rest \<Rightarrow> if b = CHR ''/'' \<and> ''..'' \<notin> set (path_names bs) then Some (path_names bs) else None)"

definition cache_relative :: "bytes \<Rightarrow> os_path option" where
  "cache_relative bs =
     (case bs of
        [] \<Rightarrow> None
      | b # rest \<Rightarrow>
          if b = CHR ''/'' \<or> hd (split_on (\<lambda>b. b = CHR ''/'') bs) = ''.'' \<or> ''..'' \<in> set (path_names bs) then None
          else Some (path_names bs))"

section \<open>Reading accepts what writing writes\<close>

lemma value_take_Some: "value_take n bs = Some (a, b) \<longleftrightarrow> bs = a @ b \<and> length a = n"
  by (auto simp: value_take_def)

lemma value_u64_Some: "value_u64 bs = Some (w, rest) \<longleftrightarrow> bs = le64 w @ rest"
proof
  assume "value_u64 bs = Some (w, rest)"
  then obtain word where word: "value_take 8 bs = Some (word, rest)" "w = of_nat (of_le_bytes word)"
    by (auto simp: value_u64_def)
  then have "le64 w = word" by (simp add: value_take_Some le64_of_le_bytes del: le_bytes.simps)
  with word(1) show "bs = le64 w @ rest" by (simp add: value_take_Some del: le_bytes.simps)
next
  assume "bs = le64 w @ rest"
  then have "value_take 8 bs = Some (le64 w, rest)" by (simp add: value_take_Some del: le_bytes.simps)
  then show "value_u64 bs = Some (w, rest)" by (simp add: value_u64_def del: le_bytes.simps)
qed

lemma value_u128_Some: "value_u128 bs = Some (w, rest) \<longleftrightarrow> bs = le128 w @ rest"
proof
  assume "value_u128 bs = Some (w, rest)"
  then obtain word where word: "value_take 16 bs = Some (word, rest)" "w = of_nat (of_le_bytes word)"
    by (auto simp: value_u128_def)
  then have "le128 w = word" by (simp add: value_take_Some le128_of_le_bytes del: le_bytes.simps)
  with word(1) show "bs = le128 w @ rest" by (simp add: value_take_Some del: le_bytes.simps)
next
  assume "bs = le128 w @ rest"
  then have "value_take 16 bs = Some (le128 w, rest)" by (simp add: value_take_Some del: le_bytes.simps)
  then show "value_u128 bs = Some (w, rest)" by (simp add: value_u128_def del: le_bytes.simps)
qed

lemma value_byte_Some: "value_byte bs = Some (b, rest) \<longleftrightarrow> bs = b # rest"
  by (cases bs) (auto simp: value_byte_def value_take_def)

lemmas value_Some = value_u64_Some value_u128_Some value_byte_Some

lemma parse_bytes_Some:
  "parse_owner b = Some w \<longleftrightarrow> b = owner_byte w" "parse_mode b = Some m \<longleftrightarrow> b = mode_byte m"
  "parse_sharing b c = Some s \<longleftrightarrow> b # le64 c = sharing_value s"
proof -
  show "parse_owner b = Some w \<longleftrightarrow> b = owner_byte w" by (cases w) (auto simp: parse_owner_def owner_byte_def)
  show "parse_mode b = Some m \<longleftrightarrow> b = mode_byte m" by (cases m) (auto simp: parse_mode_def mode_byte_def)
  have "le64 c = le64 0 \<longleftrightarrow> c = 0" by (rule le64_inject)
  then show "parse_sharing b c = Some s \<longleftrightarrow> b # le64 c = sharing_value s"
    by (cases s) (auto simp: parse_sharing_def sharing_value_def simp del: le_bytes.simps)
qed

lemma value_reads:
  "value_u64 (le64 w @ rest) = Some (w, rest)" "value_u64 (le64 w) = Some (w, [])" "value_u128 (le128 v @ rest) = Some (v, rest)"
  "value_byte (b # rest) = Some (b, rest)"
proof -
  have "le64 w = le64 w @ []" by (rule append_Nil2 [symmetric])
  then show "value_u64 (le64 w) = Some (w, [])" by (simp only: value_Some)
qed (simp_all only: value_Some)

lemma parse_root_value_Some: "parse_root_value bs = Some (i, unreadable) \<longleftrightarrow> bs = root_value i unreadable"
  by (cases i) (auto simp: parse_root_value_def root_value_def bind_eq_Some_conv value_Some simp del: le_bytes.simps)

lemma parse_facts_value_Some:
  "parse_facts_value bs = Some f \<longleftrightarrow> bs = facts_value f \<and> minimum \<le> ff_len f \<and> ff_links f \<noteq> 0"
proof
  assume "parse_facts_value bs = Some f"
  then show "bs = facts_value f \<and> minimum \<le> ff_len f \<and> ff_links f \<noteq> 0"
    by (auto simp: parse_facts_value_def facts_value_def bind_eq_Some_conv value_Some parse_bytes_Some not_less
        simp del: le_bytes.simps split: if_splits)
next
  assume f: "bs = facts_value f \<and> minimum \<le> ff_len f \<and> ff_links f \<noteq> 0"
  have "\<exists>b c. b # le64 c = sharing_value s" for s
    proof (cases s)
    case Unknown
    then show ?thesis by (intro exI [of _ "CHR 0x00"] exI [of _ 0]) (simp add: sharing_value_def del: le_bytes.simps)
  next
    case (Cluster c)
    then show ?thesis by (intro exI [of _ "CHR 0x01"] exI [of _ c]) (simp add: sharing_value_def del: le_bytes.simps)
  qed
  then obtain b c where s: "b # le64 c = sharing_value (ff_sharing f)" by blast
  with f have "bs = le64 (volume (ff_identity f)) @ le128 (file_id (ff_identity f)) @ le64 (ff_len f) @ le64 (ff_links f) @
     owner_byte (ff_owner f) # mode_byte (ff_mode f) # b # le64 c @ []"
    by (simp add: facts_value_def del: le_bytes.simps)
  then have *: "parse_facts_value bs = Option.bind (parse_sharing b c) (\<lambda>sharing.
       if ff_len f < minimum \<or> ff_links f = 0 then None else Some (f\<lparr>ff_sharing := sharing\<rparr>))"
    by (cases f; cases "ff_identity f")
      (simp add: parse_facts_value_def value_reads parse_bytes_Some [THEN iffD2] del: le_bytes.simps cong: if_cong)
  show "parse_facts_value bs = Some f"
    unfolding * parse_bytes_Some(3) [THEN iffD2, OF s] using f by (simp add: not_less)
qed

lemma of_be32: "n < 2 ^ 32 \<Longrightarrow> of_le_bytes (rev (be32 n)) = n"
  by (simp add: be32_def of_le_bytes_le_bytes del: le_bytes.simps)

lemma be32_of_le_bytes: "length w = 4 \<Longrightarrow> be32 (of_le_bytes (rev w)) = w"
  using le_bytes_of_le_bytes [of "rev w"] by (simp add: be32_def del: le_bytes.simps)

lemma split_file_key_Some:
  "split_file_key key = Some (root, rel) \<longleftrightarrow>
     rel \<noteq> [] \<and> length root < 2 ^ 32 \<and> key = be32 (length root) @ root @ rel"
proof
  assume "split_file_key key = Some (root, rel)"
  then obtain w where w: "key = w @ root @ rel" "length w = 4" "length root = of_le_bytes (rev w)" "rel \<noteq> []"
    by (auto simp: split_file_key_def bind_eq_Some_conv value_take_Some split: if_splits)
  from w(2) of_le_bytes_bound [of "rev w"] have "of_le_bytes (rev w) < 2 ^ 32" by simp
  with w be32_of_le_bytes [OF w(2)] show "rel \<noteq> [] \<and> length root < 2 ^ 32 \<and> key = be32 (length root) @ root @ rel" by simp
next
  assume key: "rel \<noteq> [] \<and> length root < 2 ^ 32 \<and> key = be32 (length root) @ root @ rel"
  then have "value_take 4 key = Some (be32 (length root), root @ rel)"
    by (simp add: value_take_Some be32_def del: le_bytes.simps)
  moreover have "value_take (of_le_bytes (rev (be32 (length root)))) (root @ rel) = Some (root, rel)"
    using key of_be32 by (simp add: value_take_Some)
  ultimately show "split_file_key key = Some (root, rel)" using key by (simp add: split_file_key_def)
qed

text \<open>Names that the components of a path can be.\<close>

definition plain_name :: "bytes \<Rightarrow> bool" where
  "plain_name n \<longleftrightarrow> n \<noteq> [] \<and> CHR ''/'' \<notin> set n \<and> n \<noteq> ''.'' \<and> n \<noteq> ''..''"

abbreviation plain_path :: "os_path \<Rightarrow> bool" where
  "plain_path path \<equiv> list_all plain_name path"

lemma split_plain: "plain_path path \<Longrightarrow> path \<noteq> [] \<Longrightarrow> split_on (\<lambda>b. b = CHR ''/'') (join_with (CHR ''/'') path) = path"
  by (rule split_on_join) (auto simp: list_all_iff plain_name_def)

lemma filter_plain: "plain_path path \<Longrightarrow> filter (\<lambda>n. n \<noteq> [] \<and> n \<noteq> ''.'') path = path"
  by (auto simp: list_all_iff plain_name_def filter_id_conv)

lemma relative_of_raw:
  assumes "plain_path rel" and "rel \<noteq> []"
  shows "cache_relative (raw_relative rel) = Some rel"
proof -
  obtain n rest where rel: "rel = n # rest" using assms(2) by (cases rel) auto
  with assms(1) obtain b bs where n: "n = b # bs" "b \<noteq> CHR ''/''" "n \<noteq> ''.''" by (cases n) (auto simp: plain_name_def)
  obtain ys where raw: "join_with (CHR ''/'') rel = b # ys" unfolding rel n(1) by (cases rest) simp_all
  have "path_names (join_with (CHR ''/'') rel) = rel" unfolding path_names_def split_plain [OF assms] by (rule filter_plain [OF assms(1)])
  moreover have "''..'' \<notin> set rel" using assms(1) by (auto simp: list_all_iff plain_name_def)
  moreover have "hd (split_on (\<lambda>b. b = CHR ''/'') (join_with (CHR ''/'') rel)) = n" unfolding split_plain [OF assms] by (simp add: rel)
  ultimately show ?thesis using n(2,3) unfolding cache_relative_def raw_relative_def raw by simp
qed

lemma raw_relative_nonempty: "plain_path rel \<Longrightarrow> rel \<noteq> [] \<Longrightarrow> raw_relative rel \<noteq> []"
  using relative_of_raw [of rel] by (auto simp: cache_relative_def)

lemma unix_spell_joined: "unix_spell path = CHR ''/'' # join_with (CHR ''/'') path"
  by (induction path rule: induct_list012) (auto simp: unix_spell_def)

lemma absolute_of_raw:
  assumes "plain_path path"
  shows "cache_absolute (unix_spell path) = Some path"
proof -
  have "path_names (unix_spell path) = path"
  proof (cases "path = []")
    case False
    have "split_on (\<lambda>b. b = CHR ''/'') (unix_spell path) = [] # path"
      unfolding unix_spell_joined using split_plain [OF assms False] by simp
    with filter_plain [OF assms] show ?thesis by (simp add: path_names_def)
  qed (simp add: unix_spell_def path_names_def)
  moreover have "''..'' \<notin> set path" using assms by (auto simp: list_all_iff plain_name_def)
  ultimately show ?thesis using unix_spell_joined [of path] by (simp add: cache_absolute_def)
qed

lemma unix_spell_inj: "plain_path p \<Longrightarrow> plain_path q \<Longrightarrow> unix_spell p = unix_spell q \<longleftrightarrow> p = q"
  by (metis absolute_of_raw option.inject)

lemma raw_relative_inj:
  "plain_path p \<Longrightarrow> plain_path q \<Longrightarrow> p \<noteq> [] \<Longrightarrow> q \<noteq> [] \<Longrightarrow> raw_relative p = raw_relative q \<longleftrightarrow> p = q"
  by (metis relative_of_raw option.inject)

text \<open>The cache of the watcher reads back exactly what it wrote: a value is read as a
  root or as a file with its facts if and only if it is the value written for them, with the facts a
  file that may share has; and the key of a file is split into the root and the path below it that it was
  made from, which are read as the same paths.\<close>

theorem cache_values_exact:
  "(parse_root_value bs = Some (i, unreadable) \<longleftrightarrow> bs = root_value i unreadable) \<and>
   (parse_facts_value bs = Some f \<longleftrightarrow> bs = facts_value f \<and> minimum \<le> ff_len f \<and> ff_links f \<noteq> 0) \<and>
   (plain_path root \<longrightarrow> plain_path rel \<longrightarrow> rel \<noteq> [] \<longrightarrow> file_key root rel = Inr key \<longrightarrow>
      (\<exists>r s. split_file_key key = Some (r, s) \<and> cache_absolute r = Some root \<and> cache_relative s = Some rel))"
proof (intro conjI impI)
  assume root: "plain_path root" and rel: "plain_path rel" "rel \<noteq> []" and key: "file_key root rel = Inr key"
  have "split_file_key key = Some (unix_spell root, raw_relative rel)"
    using key raw_relative_nonempty [OF rel] unfolding split_file_key_Some
    by (simp add: file_key_def Let_def split: if_splits)
  with absolute_of_raw [OF root] relative_of_raw [OF rel]
  show "\<exists>r s. split_file_key key = Some (r, s) \<and> cache_absolute r = Some root \<and> cache_relative s = Some rel" by blast
qed (fact parse_root_value_Some parse_facts_value_Some)+

end
