(* ===== verification/Pool_Facts.thy ===== *)
theory Pool_Facts
  imports Pools Prune_Runs_Facts
begin

text \<open>
  The pool's index by length is exact: however a pool came about, a length lists the files of that
  length in the stocks and no others, so that every file that could share is found.
\<close>

section \<open>Sorted maps\<close>

lemmas tm_get = tm_get_alter tm_alter_wf

lemma tm_insert_wf: "tm_wf m \<Longrightarrow> tm_wf (tm_insert k v m)"
  by (simp add: tm_insert_def tm_alter_wf)

lemma tm_remove_wf: "tm_wf m \<Longrightarrow> tm_wf (tm_remove k m)"
  by (simp add: tm_remove_def tm_alter_wf)

lemma tm_get_insert: "tm_wf m \<Longrightarrow> map_of (tm_insert k v m) i = (if i = k then Some v else map_of m i)"
  by (simp add: tm_insert_def tm_get_alter)

lemma tm_get_remove: "tm_wf m \<Longrightarrow> map_of (tm_remove k m) i = (if i = k then None else map_of m i)"
  by (simp add: tm_remove_def tm_get_alter)

lemma tm_filter_wf: "tm_wf m \<Longrightarrow> tm_wf (filter P m)"
  unfolding tm_wf_def by (induction m) auto

lemma tm_get_filter_key:
  "tm_wf m \<Longrightarrow> map_of (filter (\<lambda>x. P (fst x)) m) k = (if P k then map_of m k else None)"
  by (induction m) (auto simp: tm_wf_def map_of_eq_None_iff)

lemma tm_extend_wf: "tm_wf m \<Longrightarrow> tm_wf (tm_extend m xs)"
  unfolding tm_extend_def by (induction xs arbitrary: m) (auto intro: tm_insert_wf)

lemma tm_extend_Cons: "tm_extend m ((k, v) # xs) = tm_extend (tm_insert k v m) xs"
  by (simp add: tm_extend_def)

lemma tm_get_extend:
  "tm_wf m \<Longrightarrow> map_of (tm_extend m xs) k = (case map_of (rev xs) k of Some v \<Rightarrow> Some v | None \<Rightarrow> map_of m k)"
proof (induction xs arbitrary: m)
  case Nil
  then show ?case by (simp add: tm_extend_def)
next
  case (Cons x xs)
  obtain j v where x: "x = (j, v)" by fastforce
  from Cons.IH [OF tm_insert_wf [OF Cons.prems]] Cons.prems show ?case
    unfolding x tm_extend_Cons by (auto simp: tm_get_insert map_add_def split: option.splits)
qed

lemma tm_wf_Nil [simp]: "tm_wf []"
  by (simp add: tm_wf_def)

lemma tm_get_extend_tm:
  "tm_wf m \<Longrightarrow> tm_wf n \<Longrightarrow> map_of (tm_extend m n) k = (case map_of n k of Some v \<Rightarrow> Some v | None \<Rightarrow> map_of m k)"
proof -
  assume "tm_wf m" "tm_wf n"
  then have "distinct (map fst n)" "distinct (map fst (rev n))"
    using tm_distinct [of n] by (simp_all add: rev_map [symmetric])
  then have "map_of (rev n) k = map_of n k" by (metis map_of_eq_None_iff map_of_eq_Some_iff not_None_eq set_map set_rev)
  with \<open>tm_wf m\<close> show ?thesis by (simp add: tm_get_extend)
qed

lemma tm_mem: "tm_wf m \<Longrightarrow> (k, v) \<in> set m \<longleftrightarrow> map_of m k = Some v"
  by (simp add: tm_distinct)

section \<open>The index\<close>

definition lengths_wf :: "pool \<Rightarrow> bool" where
  "lengths_wf p \<longleftrightarrow> tm_wf (pl_lengths p) \<and>
     (\<forall>len ms. map_of (pl_lengths p) len = Some ms \<longrightarrow> tm_wf ms \<and> ms \<noteq> [])"

definition indexed :: "pool \<Rightarrow> os_path \<Rightarrow> os_path \<Rightarrow> u64 \<Rightarrow> bool" where
  "indexed p root rel len \<longleftrightarrow> (\<exists>ms. map_of (pl_lengths p) len = Some ms \<and> map_of ms (root, rel) = Some ())"

lemma tm_nonempty: "tm_wf m \<Longrightarrow> map_of m k \<noteq> None \<Longrightarrow> m \<noteq> []"
  by auto

lemma index_file_wf:
  assumes "lengths_wf p"
  shows "lengths_wf (index_file root x p)"
proof -
  from assms have wf: "tm_wf (pl_lengths p)" by (simp add: lengths_wf_def)
  have "tm_wf (tm_insert k () (case map_of (pl_lengths p) len of None \<Rightarrow> [] | Some ms \<Rightarrow> ms)) \<and>
      tm_insert k () (case map_of (pl_lengths p) len of None \<Rightarrow> [] | Some ms \<Rightarrow> ms) \<noteq> []" for k len
  proof -
    have "tm_wf (case map_of (pl_lengths p) len of None \<Rightarrow> [] | Some ms \<Rightarrow> ms)"
      using assms by (auto simp: lengths_wf_def split: option.splits)
    then show ?thesis using tm_get_insert [of _ k "()" k] by (auto intro: tm_insert_wf) (metis list.distinct(1) map_of.simps(1) option.distinct(1))
  qed
  with assms wf show ?thesis
    by (auto simp: lengths_wf_def index_file_def tm_get_alter tm_alter_wf)
qed

lemma index_file_indexed:
  assumes "lengths_wf p"
  shows "indexed (index_file root x p) r rel len \<longleftrightarrow>
    indexed p r rel len \<or> r = root \<and> rel = fst x \<and> len = ff_len (snd x)"
proof -
  from assms have wf: "tm_wf (pl_lengths p)" by (simp add: lengths_wf_def)
  have inner: "tm_wf ms" if "map_of (pl_lengths p) len = Some ms" for ms
    using assms that by (simp add: lengths_wf_def)
  show ?thesis
    by (cases "map_of (pl_lengths p) len")
      (auto simp: indexed_def index_file_def tm_get_alter [OF wf] tm_get_insert inner split: if_splits)
qed

lemma pool_index_indexed:
  "lengths_wf p \<Longrightarrow> lengths_wf (pool_index root files p) \<and>
   (indexed (pool_index root files p) r rel len \<longleftrightarrow>
     indexed p r rel len \<or> r = root \<and> (\<exists>facts. (rel, facts) \<in> set files \<and> len = ff_len facts))"
proof (induction files arbitrary: p)
  case (Cons x files)
  from Cons.IH [OF index_file_wf [OF Cons.prems, of root x]] show ?case
    by (cases x) (auto simp: pool_index_def index_file_indexed [OF Cons.prems])
qed (simp add: pool_index_def)

lemma unindex_file_wf:
  assumes "lengths_wf p"
  shows "lengths_wf (unindex_file root x p)"
  using assms
  by (auto simp: lengths_wf_def unindex_file_def tm_get_alter tm_alter_wf tm_remove_wf Let_def
      split: option.splits if_splits)

lemma unindex_file_indexed:
  assumes "lengths_wf p"
  shows "indexed (unindex_file root x p) r rel len \<longleftrightarrow>
    indexed p r rel len \<and> \<not> (r = root \<and> rel = fst x \<and> len = ff_len (snd x))"
proof -
  from assms have wf: "tm_wf (pl_lengths p)" by (simp add: lengths_wf_def)
  show ?thesis
  proof (cases "map_of (pl_lengths p) len")
    case None
    then show ?thesis by (auto simp: indexed_def unindex_file_def tm_get_alter [OF wf])
  next
    case (Some ms)
    with assms have ms: "tm_wf ms" by (simp add: lengths_wf_def)
    have "tm_remove (root, fst x) ms = [] \<Longrightarrow> map_of ms (r, rel) = Some () \<Longrightarrow> (r, rel) = (root, fst x)"
      using tm_get_remove [OF ms, of "(root, fst x)" "(r, rel)"] by (auto split: if_splits)
    with Some show ?thesis
      by (auto simp: indexed_def unindex_file_def tm_get_alter [OF wf] tm_get_remove [OF ms] Let_def split: if_splits)
  qed
qed

lemma pool_unindex_indexed:
  "lengths_wf p \<Longrightarrow> lengths_wf (pool_unindex root files p) \<and>
   (indexed (pool_unindex root files p) r rel len \<longleftrightarrow>
     indexed p r rel len \<and> \<not> (r = root \<and> (\<exists>facts. (rel, facts) \<in> set files \<and> len = ff_len facts)))"
proof (induction files arbitrary: p)
  case (Cons x files)
  from Cons.IH [OF unindex_file_wf [OF Cons.prems, of root x]] show ?case
    by (cases x) (auto simp: pool_unindex_def unindex_file_indexed [OF Cons.prems])
qed (simp add: pool_unindex_def)

lemma index_keeps [simp]:
  "pl_stocks (pool_index root files p) = pl_stocks p" "pl_journal (pool_index root files p) = pl_journal p"
  "pl_stocks (pool_unindex root files p) = pl_stocks p" "pl_journal (pool_unindex root files p) = pl_journal p"
proof -
  have "pl_stocks (pool_index root files p) = pl_stocks p \<and> pl_journal (pool_index root files p) = pl_journal p"
    unfolding pool_index_def by (induction files arbitrary: p) (simp_all add: index_file_def)
  moreover have "pl_stocks (pool_unindex root files p) = pl_stocks p \<and> pl_journal (pool_unindex root files p) = pl_journal p"
    unfolding pool_unindex_def by (induction files arbitrary: p) (simp_all add: unindex_file_def)
  ultimately show "pl_stocks (pool_index root files p) = pl_stocks p" "pl_journal (pool_index root files p) = pl_journal p"
    "pl_stocks (pool_unindex root files p) = pl_stocks p" "pl_journal (pool_unindex root files p) = pl_journal p" by simp_all
qed

section \<open>The invariant\<close>

definition stocked :: "pool \<Rightarrow> os_path \<Rightarrow> os_path \<Rightarrow> file_facts option" where
  "stocked p root rel = Option.bind (map_of (pl_stocks p) root) (\<lambda>s. map_of (sk_files s) rel)"

definition stocks_wf :: "pool \<Rightarrow> bool" where
  "stocks_wf p \<longleftrightarrow> tm_wf (pl_stocks p) \<and>
     (\<forall>root s. map_of (pl_stocks p) root = Some s \<longrightarrow> tm_wf (sk_files s) \<and> fd_path (sk_found s) = root)"

definition index_exact :: "pool \<Rightarrow> bool" where
  "index_exact p \<longleftrightarrow> lengths_wf p \<and> stocks_wf p \<and>
     (\<forall>root rel len. indexed p root rel len \<longleftrightarrow> (\<exists>facts. stocked p root rel = Some facts \<and> ff_len facts = len))"

lemma index_exact_empty: "index_exact pool_empty"
  by (simp add: index_exact_def lengths_wf_def stocks_wf_def pool_empty_def indexed_def stocked_def)

lemma indexed_journal [simp]: "indexed (p\<lparr>pl_journal := j\<rparr>) = indexed p" "lengths_wf (p\<lparr>pl_journal := j\<rparr>) = lengths_wf p"
    "indexed (p\<lparr>pl_stocks := ss\<rparr>) = indexed p" "lengths_wf (p\<lparr>pl_stocks := ss\<rparr>) = lengths_wf p"
  by (simp_all add: indexed_def lengths_wf_def fun_eq_iff)

lemma index_exact_journal: "index_exact (p\<lparr>pl_journal := j\<rparr>) \<longleftrightarrow> index_exact p"
  by (simp add: index_exact_def stocks_wf_def stocked_def)

lemma put_stock_exact:
  assumes exact: "index_exact p" and absent: "map_of (pl_stocks p) (fd_path f) = None" and files: "tm_wf files"
  shows "index_exact (put_stock f admission how files p)"
proof -
  let ?p = "pool_index (fd_path f) files p"
  from exact have wf: "lengths_wf p" "tm_wf (pl_stocks p)"
    and stocks: "\<And>root s. map_of (pl_stocks p) root = Some s \<Longrightarrow> tm_wf (sk_files s) \<and> fd_path (sk_found s) = root"
    by (auto simp: index_exact_def stocks_wf_def)
  note index = pool_index_indexed [OF wf(1), of "fd_path f" files]
  have "stocks_wf (put_stock f admission how files p)"
    using files wf(2) stocks by (auto simp: stocks_wf_def put_stock_def Let_def tm_get_insert tm_insert_wf)
  moreover have "indexed (put_stock f admission how files p) root rel len \<longleftrightarrow>
      (\<exists>facts. stocked (put_stock f admission how files p) root rel = Some facts \<and> ff_len facts = len)" for root rel len
  proof -
    have "stocked (put_stock f admission how files p) root rel =
        (if root = fd_path f then map_of files rel else stocked p root rel)"
      by (simp add: stocked_def put_stock_def Let_def tm_get_insert wf(2))
    moreover have "stocked p (fd_path f) rel = None" using absent by (simp add: stocked_def)
    moreover have "indexed (put_stock f admission how files p) root rel len \<longleftrightarrow>
        indexed p root rel len \<or> root = fd_path f \<and> (\<exists>facts. map_of files rel = Some facts \<and> len = ff_len facts)"
      using index [of root rel len] by (simp add: put_stock_def Let_def tm_mem [OF files])
    moreover have "indexed p root rel len \<longleftrightarrow> (\<exists>facts. stocked p root rel = Some facts \<and> ff_len facts = len)"
      using exact by (simp add: index_exact_def)
    ultimately show ?thesis by auto
  qed
  ultimately show ?thesis using index by (simp add: index_exact_def put_stock_def Let_def)
qed

lemma drop_stock_exact:
  assumes exact: "index_exact p" and held: "map_of (pl_stocks p) root = Some s"
  shows "index_exact (pool_unindex root (sk_files s) (p\<lparr>pl_stocks := tm_remove root (pl_stocks p)\<rparr>)) \<and>
    map_of (pl_stocks (pool_unindex root (sk_files s) (p\<lparr>pl_stocks := tm_remove root (pl_stocks p)\<rparr>))) root = None"
proof -
  let ?p = "p\<lparr>pl_stocks := tm_remove root (pl_stocks p)\<rparr>"
  from exact have wf: "lengths_wf ?p" "tm_wf (pl_stocks p)"
    and stocks: "\<And>root s. map_of (pl_stocks p) root = Some s \<Longrightarrow> tm_wf (sk_files s) \<and> fd_path (sk_found s) = root"
    by (auto simp: index_exact_def stocks_wf_def)
  note index = pool_unindex_indexed [OF wf(1), of root "sk_files s"]
  have "stocks_wf (pool_unindex root (sk_files s) ?p)"
    using wf(2) stocks by (auto simp: stocks_wf_def tm_get_remove tm_remove_wf split: if_splits)
  moreover have "indexed (pool_unindex root (sk_files s) ?p) r rel len \<longleftrightarrow>
      (\<exists>facts. stocked (pool_unindex root (sk_files s) ?p) r rel = Some facts \<and> ff_len facts = len)" for r rel len
  proof -
    have files: "tm_wf (sk_files s)" using stocks [OF held] by simp
    have "stocked (pool_unindex root (sk_files s) ?p) r rel = (if r = root then None else stocked p r rel)"
      by (simp add: stocked_def tm_get_remove wf(2))
    moreover have "stocked p root rel = map_of (sk_files s) rel" using held by (simp add: stocked_def)
    moreover have "indexed (pool_unindex root (sk_files s) ?p) r rel len \<longleftrightarrow>
        indexed p r rel len \<and> \<not> (r = root \<and> (\<exists>facts. map_of (sk_files s) rel = Some facts \<and> len = ff_len facts))"
      using index [of r rel len] by (simp add: tm_mem [OF files])
    moreover have "indexed p r rel len \<longleftrightarrow> (\<exists>facts. stocked p r rel = Some facts \<and> ff_len facts = len)"
      using exact by (simp add: index_exact_def)
    ultimately show ?thesis by auto
  qed
  ultimately show ?thesis using index wf(2) by (simp add: index_exact_def tm_get_remove)
qed

lemma pool_stock_exact:
  assumes "index_exact p"
  shows "index_exact (snd (pool_stock admitted f p))"
proof -
  have put: "index_exact (put_stock f admission how files (p1\<lparr>pl_journal := j\<rparr>))"
    if "index_exact p1" "map_of (pl_stocks p1) (fd_path f) = None" "tm_wf files" for p1 j admission how files
    using that by (intro put_stock_exact) (simp_all add: index_exact_journal)
  show ?thesis
  proof (cases "map_of (pl_stocks p) (fd_path f)")
    case None
    with assms show ?thesis
      by (cases admitted) (auto simp: pool_stock_def Let_def intro!: put tm_extend_wf)
  next
    case (Some old)
    note dropped = drop_stock_exact [OF assms Some]
    with Some show ?thesis
      by (cases admitted) (auto simp: pool_stock_def Let_def intro!: put tm_extend_wf)
  qed
qed

lemma pool_forget_exact: "index_exact p \<Longrightarrow> index_exact (pool_forget root p)"
  using drop_stock_exact [of p root]
  by (cases "map_of (pl_stocks p) root") (simp_all add: pool_forget_def Let_def index_exact_journal)

lemma pool_restore_exact:
  assumes "index_exact p" and "map_of (pl_stocks p) (fd_path f) = None" and "tm_wf (ct_files cached)"
  shows "index_exact (snd (pool_restore admitted f cached p))"
  using assms by (auto simp: pool_restore_def index_exact_journal intro!: put_stock_exact split: sum.splits)

section \<open>What a change brings in lies below it\<close>

definition listed_below :: "os_path \<Rightarrow> os_path \<Rightarrow> unread \<times> inventory \<Rightarrow> bool" where
  "listed_below root start state \<longleftrightarrow>
     (\<forall>x \<in> set (fst state). starts_with start (fst x)) \<and>
     (\<forall>x \<in> set (iv_files (snd state)). fst x = root @ fst (snd x) \<and> starts_with start (fst x))"

lemma starts_with_snoc: "starts_with start d \<Longrightarrow> starts_with start (d @ [n])"
  by (auto simp: starts_with_append)

lemma inventory_entry_below:
  assumes "inventory_entry os root device directory e state = Inr state'"
    and "starts_with start directory" and "listed_below root start state"
  shows "listed_below root start state'"
proof -
  obtain n t pushed iv where e: "e = (n, t)" "state = (pushed, iv)" by (cases e; cases state)
  have "starts_with start (directory @ [n])" using assms(2) by (rule starts_with_snoc)
  with assms show ?thesis unfolding e
    by (auto simp: inventory_entry_def Let_def result_simps listed_below_def inventory_file_def strip_prefix_Some
        split: if_splits option.splits sum.splits)
qed

lemma inventory_entries_below:
  "inventory_entries os root device directory es state = Inr state' \<Longrightarrow> starts_with start directory \<Longrightarrow>
     listed_below root start state \<Longrightarrow> listed_below root start state'"
proof (induction es arbitrary: state)
  case (Cons e es)
  then obtain mid where mid: "inventory_entry os root device directory e state = Inr mid"
    "inventory_entries os root device directory es mid = Inr state'" by (auto simp: result_simps)
  from Cons.IH [OF mid(2) Cons.prems(2) inventory_entry_below [OF mid(1) Cons.prems(2,3)]] show ?case .
qed simp

lemma inventory_loop_below:
  "inventory_loop os root device stack iv = Inr iv' \<Longrightarrow> listed_below root start (stack, iv) \<Longrightarrow>
     listed_below root start ([], iv')"
proof (induction os root device stack iv rule: inventory_loop.induct)
  case (2 os root device directory tree stack iv)
  then obtain pushed iv1 where step: "inventory_directory os root device directory tree iv = Inr (pushed, iv1)"
    and rest: "inventory_loop os root device (rev pushed @ stack) iv1 = Inr iv'"
    by (auto split: sum.splits)
  have here: "starts_with start directory" "listed_below root start ([], iv)"
    "\<forall>x \<in> set stack. starts_with start (fst x)"
    using "2.prems"(2) by (auto simp: listed_below_def)
  from step obtain xs where "inventory_entries os root device directory xs ([], iv) = Inr (pushed, iv1)"
    by (auto simp: inventory_directory_def result_simps split: option.splits)
  from inventory_entries_below [OF this here(1,2)] here(3) have "listed_below root start (rev pushed @ stack, iv1)"
    by (auto simp: listed_below_def)
  from "2.IH" [OF step refl rest this] show ?case .
qed simp

lemma inventory_under_below:
  assumes "inventory_under os root start = Inr iv" and "x \<in> set (iv_files iv)"
  shows "fst x = root @ fst (snd x) \<and> starts_with start (fst x)"
proof -
  from assms(1) obtain m :: path_meta and iv1 :: inventory where loop: "inventory_loop os root (pm_device m) [(start, so_tree os start)]
      \<lparr>iv_files = [], iv_unreadable = 0\<rparr> = Inr iv1" and iv: "iv1\<lparr>iv_files := sort_key fst (iv_files iv1)\<rparr> = iv"
    unfolding inventory_under_def result_bind_Inr os_result_Inr sum.inject by blast
  have "listed_below root start ([(start, so_tree os start)], \<lparr>iv_files = [], iv_unreadable = 0\<rparr>)"
    by (simp add: listed_below_def starts_with_def)
  from inventory_loop_below [OF loop this] assms(2) iv show ?thesis by (auto simp: listed_below_def)
qed

lemma starts_with_under: "starts_with (root @ rel) (root @ k) \<longleftrightarrow> starts_with rel k"
  by (simp add: starts_with_def)

lemma present_files_below:
  assumes "(k, facts) \<in> set (present_files os root (root @ rel))"
  shows "starts_with rel k \<and> (k = rel \<or> (\<exists>m. so_meta os (root @ rel) = Inr m \<and> ft_dir (pm_type m)))"
proof -
  from assms obtain m where m: "so_meta os (root @ rel) = Inr m"
    by (cases "so_meta os (root @ rel)") (auto simp: present_files_def)
  show ?thesis
  proof (cases "ft_dir (pm_type m)")
    case True
    from assms m True have "(k, facts) \<in> set (case inventory_under os root (root @ rel) of
        Inr iv \<Rightarrow> map snd (iv_files iv) | Inl _ \<Rightarrow> [])" by (simp add: present_files_def)
    then obtain iv where iv: "inventory_under os root (root @ rel) = Inr iv" "(k, facts) \<in> set (map snd (iv_files iv))"
      by (cases "inventory_under os root (root @ rel)") auto
    then obtain path where "(path, k, facts) \<in> set (iv_files iv)" by auto
    from inventory_under_below [OF iv(1) this] True m show ?thesis by (auto simp: starts_with_under)
  next
    case False
    have stripped: "strip_prefix root (root @ rel) = Some rel" by (simp add: strip_prefix_Some)
    have "present_files os root (root @ rel) = [] \<or>
        present_files os root (root @ rel) = (case so_facts os (root @ rel) of Inr answered \<Rightarrow> [(rel, answered)] | Inl _ \<Rightarrow> [])"
      unfolding present_files_def m sum.case if_not_P [OF False] stripped
      by (cases "so_facts os (root @ rel)") simp_all
    with assms have "k = rel" by (cases "so_facts os (root @ rel)") auto
    then show ?thesis by (simp add: starts_with_def)
  qed
qed

text \<open>The kinds a directory lists are those of its entries.\<close>

definition settled_kinds :: "stock_os \<Rightarrow> bool" where
  "settled_kinds os \<longleftrightarrow>
     (\<forall>path kind m. so_kind os path = Inr kind \<longrightarrow> so_meta os path = Inr m \<longrightarrow> ft_file kind \<longrightarrow> \<not> ft_dir (pm_type m))"

lemma present_below:
  assumes "(k, facts) \<in> set (present os root (root @ rel) ev)"
  shows "starts_with rel k \<and> (ev = Unsure \<longrightarrow> settled_kinds os \<longrightarrow> k = rel \<or> (\<exists>n. k = rel @ [n]))"
proof -
  from assms obtain m where m: "so_meta os (root @ rel) = Inr m" by (cases "so_meta os (root @ rel)") (auto simp: present_def)
  show ?thesis
  proof (cases "ft_dir (pm_type m) \<and> ev = Unsure")
    case True
    with assms m obtain e where e: "e \<in> set (node_entries (so_tree os (root @ rel)))"
      "(k, facts) \<in> set (case e of os_entry.Unreadable _ \<Rightarrow> []
        | Entry n t \<Rightarrow> (case so_kind os ((root @ rel) @ [n]) of
            Inr kind \<Rightarrow> if ft_file kind then present_files os root ((root @ rel) @ [n]) else [] | Inl _ \<Rightarrow> []))"
      by (auto simp: present_def shallow_files_def split: option.splits)
    then obtain n where n: "(k, facts) \<in> set (case so_kind os ((root @ rel) @ [n]) of
        Inr kind \<Rightarrow> if ft_file kind then present_files os root ((root @ rel) @ [n]) else [] | Inl _ \<Rightarrow> [])"
      by (cases e) auto
    then obtain kind where "so_kind os ((root @ rel) @ [n]) = Inr kind" "ft_file kind"
      "(k, facts) \<in> set (present_files os root (root @ (rel @ [n])))"
      by (cases "so_kind os ((root @ rel) @ [n])") (auto split: if_splits)
    with present_files_below [of k facts os root "rel @ [n]"] show ?thesis
      by (fastforce simp: settled_kinds_def starts_with_append)
  next
    case False
    with assms m have "(k, facts) \<in> set (present_files os root (root @ rel))" by (simp add: present_def)
    from present_files_below [OF this] m False show ?thesis by auto
  qed
qed

section \<open>Noting changes\<close>

lemma below_from_mem:
  assumes "tm_wf files"
  shows "x \<in> set (below_from rel files) \<longleftrightarrow> x \<in> set files \<and> starts_with rel (fst x)"
proof -
  have sorted: "sorted_wrt (\<lambda>x y. fst x < fst y) files" using assms by (simp add: tm_wf_def sorted_wrt_map)
  have from_on: "sorted_wrt (\<lambda>x y. fst x < fst y) (dropWhile (\<lambda>x. fst x < rel) files)"
    "set (dropWhile (\<lambda>x. fst x < rel) files) = {x \<in> set files. rel \<le> fst x}"
    using sorted by (induction files) auto
  have prefix_le: "rel \<le> q" if "starts_with rel q" for q
  proof -
    from that obtain ys where "q = rel @ ys" by (auto simp: starts_with_append)
    then show ?thesis using below_greater [of ys rel] by (cases "ys = []") (simp_all add: less_imp_le)
  qed
  have "set (takeWhile (\<lambda>x. starts_with rel (fst x)) xs) = {x \<in> set xs. starts_with rel (fst x)}"
    if "sorted_wrt (\<lambda>x y. fst x < fst y) xs" "\<forall>x \<in> set xs. rel \<le> fst x" for xs :: "(bytes list \<times> file_facts) list"
    using that
  proof (induction xs)
    case (Cons x xs)
    show ?case
    proof (cases "starts_with rel (fst x)")
      case False
      have "\<not> starts_with rel (fst y)" if "y \<in> set xs" for y
      proof
        assume "starts_with rel (fst y)"
        then obtain ys where "fst y = rel @ ys" by (auto simp: starts_with_append)
        moreover have "fst x < fst y" "rel \<le> fst x" using Cons.prems that by simp_all
        moreover have "rel \<noteq> fst x" using False by (auto simp: starts_with_def)
        ultimately have "starts_with rel (fst x)" using below_contiguous [of rel "fst x" ys] by simp
        with False show False ..
      qed
      with False show ?thesis by auto
    qed (use Cons in auto)
  qed simp
  from this [of "dropWhile (\<lambda>x. fst x < rel) files"] from_on prefix_le show ?thesis by (auto simp: below_from_def)
qed

lemma changed_below_mem:
  assumes "tm_wf files"
  shows "k \<in> set (changed_below os path rel ev files) \<longleftrightarrow>
    map_of files k \<noteq> None \<and> starts_with rel k \<and>
    (ev = Unsure \<longrightarrow> parent_of k = Some rel \<or> \<not> still_there os path rel k)"
proof -
  have "k \<in> set (map fst (below_from rel files)) \<longleftrightarrow> map_of files k \<noteq> None \<and> starts_with rel k"
  proof -
    have "k \<in> set (map fst (below_from rel files)) \<longleftrightarrow> (\<exists>v. (k, v) \<in> set (below_from rel files))" by force
    then show ?thesis unfolding below_from_mem [OF assms] fst_conv tm_mem [OF assms] by auto
  qed
  then show ?thesis by (cases ev) (auto simp: changed_below_def)
qed

text \<open>While changes are noted, the old files are those kept and those removed, and nothing that was
  added is still kept.\<close>

definition noting_of :: "stock_files \<Rightarrow> noting \<Rightarrow> bool" where
  "noting_of files n \<longleftrightarrow> tm_wf (nt_files n) \<and> tm_wf (nt_removed n) \<and> tm_wf (nt_added n) \<and>
     (\<forall>k. map_of files k = (case map_of (nt_removed n) k of Some f \<Rightarrow> Some f | None \<Rightarrow> map_of (nt_files n) k) \<and>
       (map_of (nt_removed n) k \<noteq> None \<longrightarrow> map_of (nt_files n) k = None))"

lemma noting_added: "noting_of files n \<Longrightarrow> tm_wf a \<Longrightarrow> noting_of files (n\<lparr>nt_added := a\<rparr>)"
  by (cases n) (simp add: noting_of_def cong: option.case_cong)

lemma note_removed_facts:
  "noting_of files n \<Longrightarrow> noting_of files (note_removed ks n) \<and> nt_added (note_removed ks n) = nt_added n \<and>
     (\<forall>k. map_of (nt_files (note_removed ks n)) k = (if k \<in> set ks then None else map_of (nt_files n) k))"
proof (induction ks arbitrary: n)
  case (Cons r ks)
  show ?case
  proof (cases "map_of (nt_files n) r")
    case None
    with Cons.IH [OF Cons.prems] show ?thesis by simp
  next
    case (Some facts)
    let ?n = "n\<lparr>nt_files := tm_remove r (nt_files n), nt_removed := tm_insert r facts (nt_removed n)\<rparr>"
    have "noting_of files ?n"
      using Cons.prems Some by (auto simp: noting_of_def tm_get_remove tm_get_insert tm_remove_wf tm_insert_wf split: option.splits)
    from Cons.IH [OF this] Some Cons.prems show ?thesis by (auto simp: noting_of_def tm_get_remove)
  qed
qed simp

definition disjoint_keys :: "('k \<times> 'v) list \<Rightarrow> ('k \<times> 'w) list \<Rightarrow> bool" where
  "disjoint_keys xs ys \<longleftrightarrow> (\<forall>k. map_of ys k \<noteq> None \<longrightarrow> map_of xs k = None)"

lemma note_change_facts:
  assumes "noting_of files n" and "settled_kinds os" and "disjoint_keys (nt_files n) (nt_added n)"
  shows "noting_of files (note_change os root change n) \<and>
    disjoint_keys (nt_files (note_change os root change n)) (nt_added (note_change os root change n))"
proof -
  obtain path ev where change: "change = (path, ev)" by fastforce
  show ?thesis
  proof (cases "strip_prefix root path")
    case None
    with assms show ?thesis by (simp add: note_change_def change)
  next
    case (Some rel)
    then have path: "path = root @ rel" by (simp add: strip_prefix_Some)
    let ?ks = "changed_below os path rel ev (nt_files n)"
    let ?n = "note_removed ?ks n"
    note removed = note_removed_facts [OF assms(1), of ?ks]
    have wf: "tm_wf (nt_files n)" "tm_wf (nt_added n)" using assms(1) by (simp_all add: noting_of_def)
    have gone: "map_of (nt_files ?n) k = None" if k: "(k, facts) \<in> set (present os root path ev)" for k facts
    proof (cases "map_of (nt_files n) k")
      case (Some f)
      from present_below [OF k [unfolded path]] assms(2) have below: "starts_with rel k"
        and near: "ev = Unsure \<Longrightarrow> k = rel \<or> (\<exists>m. k = rel @ [m])" by blast+
      have "ev = Unsure \<Longrightarrow> parent_of k = Some rel \<or> \<not> still_there os path rel k"
        using near by (auto simp: parent_of_def still_there_def strip_prefix_def)
      with Some below have "k \<in> set ?ks" by (simp add: changed_below_mem [OF wf(1)])
      with removed show ?thesis by simp
    qed (use removed in simp)
    let ?added = "tm_extend (nt_added n) (present os root path ev)"
    have "map_of (nt_files ?n) k = None" if "map_of ?added k \<noteq> None" for k
    proof (cases "map_of (rev (present os root path ev)) k")
      case None
      with that have "map_of (nt_added n) k \<noteq> None" by (simp add: tm_get_extend wf(2))
      with assms(3) have "map_of (nt_files n) k = None" by (simp add: disjoint_keys_def)
      with removed show ?thesis by simp
    next
      case (Some f)
      then have "(k, f) \<in> set (present os root path ev)" by (auto dest: map_of_SomeD)
      then show ?thesis by (rule gone)
    qed
    then have "disjoint_keys (nt_files ?n) ?added" by (simp add: disjoint_keys_def)
    moreover have "noting_of files (?n\<lparr>nt_added := ?added\<rparr>)"
      by (rule noting_added [OF conjunct1 [OF removed] tm_extend_wf [OF wf(2)]])
    moreover have "note_change os root change n = ?n\<lparr>nt_added := ?added\<rparr>"
      using removed Some by (simp add: note_change_def change Let_def)
    ultimately show ?thesis by simp
  qed
qed

lemma note_changes_facts:
  assumes "tm_wf files" and "settled_kinds os"
  shows "noting_of files (note_changes os root changed files) \<and>
    disjoint_keys (nt_files (note_changes os root changed files)) (nt_added (note_changes os root changed files))"
proof -
  have fold: "noting_of files n \<Longrightarrow> disjoint_keys (nt_files n) (nt_added n) \<Longrightarrow>
      noting_of files (foldl (\<lambda>n change. note_change os root change n) n changed) \<and>
      disjoint_keys (nt_files (foldl (\<lambda>n change. note_change os root change n) n changed))
        (nt_added (foldl (\<lambda>n change. note_change os root change n) n changed))" for n
  proof (induction changed arbitrary: n)
    case (Cons c cs)
    from note_change_facts [OF Cons.prems(1) assms(2) Cons.prems(2), of root c] Cons.IH show ?case by simp
  qed simp
  show ?thesis unfolding note_changes_def
    by (rule fold) (use assms(1) in \<open>simp_all add: noting_of_def disjoint_keys_def\<close>)
qed

lemma pool_note_exact:
  assumes exact: "index_exact p" and settled: "settled_kinds os"
  shows "index_exact (snd (pool_note os root changed p))"
proof (cases "map_of (pl_stocks p) root")
  case None
  with exact show ?thesis by (simp add: pool_note_def)
next
  case (Some s)
  show ?thesis
  proof (cases "sk_method s = None")
    case True
    with Some exact show ?thesis by (simp add: pool_note_def)
  next
    case False
    from exact have wf: "lengths_wf p" "tm_wf (pl_stocks p)"
      and stocks: "\<And>r t. map_of (pl_stocks p) r = Some t \<Longrightarrow> tm_wf (sk_files t) \<and> fd_path (sk_found t) = r"
      by (auto simp: index_exact_def stocks_wf_def)
    let ?n = "note_changes os root changed (sk_files s)"
    let ?s = "s\<lparr>sk_files := tm_extend (nt_files ?n) (nt_added ?n)\<rparr>"
    let ?p = "p\<lparr>pl_stocks := tm_insert root ?s (pl_stocks p),
      pl_journal := note_cached root (nt_removed ?n) (nt_added ?n) (pl_journal p)\<rparr>"
    let ?u = "pool_unindex root (nt_removed ?n) ?p"
    let ?q = "pool_index root (nt_added ?n) ?u"
    note facts = note_changes_facts [OF conjunct1 [OF stocks [OF Some]] settled, of root changed]
    then have nwf: "tm_wf (nt_files ?n)" "tm_wf (nt_removed ?n)" "tm_wf (nt_added ?n)"
      and old: "map_of (sk_files s) k = (case map_of (nt_removed ?n) k of Some f \<Rightarrow> Some f | None \<Rightarrow> map_of (nt_files ?n) k)"
      and apart: "map_of (nt_removed ?n) k \<noteq> None \<longrightarrow> map_of (nt_files ?n) k = None"
        "map_of (nt_added ?n) k \<noteq> None \<longrightarrow> map_of (nt_files ?n) k = None" for k
      by (auto simp: noting_of_def disjoint_keys_def)
    have pwf: "lengths_wf ?p" using wf(1) by (simp add: lengths_wf_def)
    note unindex = pool_unindex_indexed [OF pwf, of root "nt_removed ?n"]
    note index = pool_index_indexed [OF conjunct1 [OF unindex], of root "nt_added ?n"]
    have "stocks_wf ?q" using wf(2) stocks [OF Some] stocks
      by (auto simp: stocks_wf_def tm_insert_wf tm_get_insert tm_extend_wf nwf(1))
    moreover have "indexed ?q r rel len \<longleftrightarrow> (\<exists>f. stocked ?q r rel = Some f \<and> ff_len f = len)" for r rel len
    proof -
      have "indexed ?q r rel len \<longleftrightarrow>
          indexed p r rel len \<and> \<not> (r = root \<and> (\<exists>f. map_of (nt_removed ?n) rel = Some f \<and> len = ff_len f)) \<or>
          r = root \<and> (\<exists>f. map_of (nt_added ?n) rel = Some f \<and> len = ff_len f)"
        using index [of r rel len] unindex [of r rel len]
        by (simp add: tm_mem [OF nwf(2)] tm_mem [OF nwf(3)] indexed_def)
      moreover have "indexed p r rel len \<longleftrightarrow> (\<exists>f. stocked p r rel = Some f \<and> ff_len f = len)"
        using exact by (simp add: index_exact_def)
      moreover have "stocked p root rel = map_of (sk_files s) rel" using Some by (simp add: stocked_def)
      moreover have "stocked ?q r rel = (if r = root
          then (case map_of (nt_added ?n) rel of Some f \<Rightarrow> Some f | None \<Rightarrow> map_of (nt_files ?n) rel)
          else stocked p r rel)"
        by (simp add: stocked_def tm_get_insert wf(2) tm_get_extend_tm nwf)
      ultimately show ?thesis
        using old [of rel] apart [of rel] by (cases "r = root") (auto split: option.splits)
    qed
    ultimately have "index_exact ?q" using index by (simp add: index_exact_def)
    with Some False show ?thesis by (auto simp: pool_note_def Let_def)
  qed
qed

section \<open>However the pool came about\<close>

inductive pool_built :: "pool \<Rightarrow> bool" where
  built_empty: "pool_built pool_empty"
| built_stock: "pool_built p \<Longrightarrow> pool_built (snd (pool_stock admitted f p))"
| built_note: "pool_built p \<Longrightarrow> settled_kinds os \<Longrightarrow> pool_built (snd (pool_note os root changed p))"
| built_forget: "pool_built p \<Longrightarrow> pool_built (pool_forget root p)"
| built_restore: "pool_built p \<Longrightarrow> map_of (pl_stocks p) (fd_path f) = None \<Longrightarrow> tm_wf (ct_files cached) \<Longrightarrow>
    pool_built (snd (pool_restore admission f cached p))"
| built_changes: "pool_built p \<Longrightarrow> pool_built (snd (pool_changes p))"

lemma built_exact: "pool_built p \<Longrightarrow> index_exact p"
proof (induction rule: pool_built.induct)
  case (built_changes p)
  then show ?case by (simp add: pool_changes_def Let_def index_exact_journal)
qed (simp_all add: index_exact_empty pool_stock_exact pool_note_exact pool_forget_exact pool_restore_exact)

lemma members_indexed:
  "(root, rel) \<in> set (case map_of (pl_lengths p) len of None \<Rightarrow> [] | Some ms \<Rightarrow> map fst ms) \<longleftrightarrow> indexed p root rel len"
proof -
  have "(root, rel) \<in> set (map fst ms) \<longleftrightarrow> map_of ms (root, rel) = Some ()" for ms :: "(pool_member \<times> unit) list"
    by (induction ms) auto
  then show ?thesis by (cases "map_of (pl_lengths p) len") (simp_all add: indexed_def)
qed

text \<open>However a pool came about, by stocking targets, noting changes, forgetting and
  restoring, its index by length is exact: a length lists a file of a target if and only if the stock
  of that target holds it with that length, and no length is listed without a file.\<close>

theorem pool_index_exact:
  assumes "pool_built p"
  shows "((root, rel) \<in> set (case map_of (pl_lengths p) len of None \<Rightarrow> [] | Some ms \<Rightarrow> map fst ms) \<longleftrightarrow>
      (\<exists>s facts. map_of (pl_stocks p) root = Some s \<and> map_of (sk_files s) rel = Some facts \<and> ff_len facts = len)) \<and>
    (\<forall>ms. map_of (pl_lengths p) len = Some ms \<longrightarrow> ms \<noteq> [])"
proof -
  from built_exact [OF assms] have lwf: "lengths_wf p"
    and "indexed p root rel len \<longleftrightarrow> (\<exists>facts. stocked p root rel = Some facts \<and> ff_len facts = len)"
    by (simp_all add: index_exact_def)
  with lwf show ?thesis unfolding members_indexed by (auto simp: stocked_def lengths_wf_def bind_eq_Some_conv)
qed

section \<open>What is looked for is found\<close>

lemma first_seen_mem: "set (first_seen key seen xs) \<subseteq> set xs"
  by (induction key seen xs rule: first_seen.induct) auto

lemma first_seen_keys: "key ` set (first_seen key seen xs) = key ` set xs - set seen"
  by (induction key seen xs rule: first_seen.induct) auto

lemma first_seen_inj: "distinct (map key (first_seen key seen xs))"
proof (induction key seen xs rule: first_seen.induct)
  case (2 key seen x xs)
  have "key x \<notin> key ` set (first_seen key (key x # seen) xs)" by (auto simp: first_seen_keys)
  with 2 show ?case by auto
qed simp

lemma member_file_Some:
  "member_file p m = Some (m', s, how, facts) \<longleftrightarrow>
     m' = m \<and> map_of (pl_stocks p) (fst m) = Some s \<and> sk_method s = Some how \<and> map_of (sk_files s) (snd m) = Some facts"
  by (auto simp: member_file_def split: option.splits)

definition looks_at :: "focus \<Rightarrow> u64 \<Rightarrow> bool" where
  "looks_at focus len \<longleftrightarrow> (case focus of Everything_Shared \<Rightarrow> True | Fresh roots fresh \<Rightarrow> len \<in> set (map snd fresh))"

lemma focus_lengths_mem: "len \<in> set (focus_lengths p focus) \<longleftrightarrow> looks_at focus len \<and> repeated p len"
proof (cases focus)
  case Everything_Shared
  have "repeated p len \<Longrightarrow> len \<in> set (map fst (pl_lengths p))"
    by (auto simp: repeated_def split: option.splits dest: map_of_SomeD intro: rev_image_eqI)
  with Everything_Shared show ?thesis by (auto simp: looks_at_def)
qed (simp add: looks_at_def)

lemma two_members_repeated:
  assumes "pool_built p" and "stocked p root rel = Some facts" and "stocked p root' rel' = Some facts'"
    and "(root, rel) \<noteq> (root', rel')" and "ff_len facts' = ff_len facts"
  shows "repeated p (ff_len facts)"
proof -
  from built_exact [OF assms(1)] assms have here: "indexed p root rel (ff_len facts)" "indexed p root' rel' (ff_len facts)"
    by (auto simp: index_exact_def)
  then obtain ms where ms: "map_of (pl_lengths p) (ff_len facts) = Some ms"
    "map_of ms (root, rel) = Some ()" "map_of ms (root', rel') = Some ()"
    by (auto simp: indexed_def)
  from map_of_SomeD [OF ms(2)] map_of_SomeD [OF ms(3)] assms(4) have "1 < length ms" by (cases ms; cases "tl ms") auto
  with ms show ?thesis by (simp add: repeated_def)
qed

text \<open>The files of the members a run looks at, and the one that is kept of every identity.\<close>

definition focus_files :: "pool \<Rightarrow> focus \<Rightarrow> (pool_member \<times> stock \<times> share_method \<times> file_facts) list" where
  "focus_files p focus = List.map_filter (member_file p)
     (concat (map (\<lambda>len. case map_of (pl_lengths p) len of None \<Rightarrow> [] | Some ms \<Rightarrow> map fst ms) (focus_lengths p focus)))"

abbreviation file_identity :: "pool_member \<times> stock \<times> share_method \<times> file_facts \<Rightarrow> identity" where
  "file_identity x \<equiv> ff_identity (snd (snd (snd x)))"

definition focus_firsts :: "pool \<Rightarrow> focus \<Rightarrow> (pool_member \<times> stock \<times> share_method \<times> file_facts) list" where
  "focus_firsts p focus = first_seen file_identity [] (focus_files p focus)"

lemma pool_items_firsts: "pool_items h p focus = List.map_filter (item_of h) (focus_firsts p focus)"
proof -
  have "(\<lambda>(_, _, _, facts). ff_identity facts) = file_identity" by (simp add: fun_eq_iff)
  then show ?thesis by (simp add: pool_items_def focus_firsts_def focus_files_def Let_def)
qed

lemma focus_firsts_files: "x \<in> set (focus_firsts p focus) \<Longrightarrow> x \<in> set (focus_files p focus)"
  unfolding focus_firsts_def by (rule subsetD [OF first_seen_mem])

lemma focus_files_recorded:
  assumes "(m, s, how, facts) \<in> set (focus_files p focus)"
  shows "map_of (pl_stocks p) (fst m) = Some s" "sk_method s = Some how" "map_of (sk_files s) (snd m) = Some facts"
  using assms by (auto simp: focus_files_def map_filter_mem member_file_Some)

lemma focus_files_complete:
  assumes "pool_built p" and s: "map_of (pl_stocks p) root = Some s" "sk_method s = Some how" "map_of (sk_files s) rel = Some facts"
    and other: "stocked p root' rel' = Some facts'" "(root, rel) \<noteq> (root', rel')" "ff_len facts' = ff_len facts"
    and looks: "looks_at focus (ff_len facts)"
  shows "((root, rel), s, how, facts) \<in> set (focus_files p focus)"
proof -
  have here: "stocked p root rel = Some facts" using s by (simp add: stocked_def)
  have len: "ff_len facts \<in> set (focus_lengths p focus)"
    using looks two_members_repeated [OF assms(1) here other] by (simp add: focus_lengths_mem)
  from built_exact [OF assms(1)] here have "indexed p root rel (ff_len facts)" by (auto simp: index_exact_def)
  then have "(root, rel) \<in> set (case map_of (pl_lengths p) (ff_len facts) of None \<Rightarrow> [] | Some ms \<Rightarrow> map fst ms)"
    by (simp only: members_indexed)
  with len have "(root, rel) \<in> set (concat (map (\<lambda>len. case map_of (pl_lengths p) len of None \<Rightarrow> [] | Some ms \<Rightarrow> map fst ms)
      (focus_lengths p focus)))" by (auto simp: set_concat)
  moreover have "member_file p (root, rel) = Some ((root, rel), s, how, facts)" using s by (simp add: member_file_Some)
  ultimately show ?thesis unfolding focus_files_def map_filter_mem by blast
qed

lemma focus_firsts_complete:
  "x \<in> set (focus_files p focus) \<Longrightarrow> \<exists>y \<in> set (focus_firsts p focus). file_identity y = file_identity x"
proof -
  assume "x \<in> set (focus_files p focus)"
  then have "file_identity x \<in> file_identity ` set (focus_firsts p focus)" by (simp add: focus_firsts_def first_seen_keys)
  then show ?thesis unfolding image_iff by metis
qed

lemma item_of_identity: "item_of h x = Some y \<Longrightarrow> fr_identity (it_record y) = file_identity x"
  by (cases x) (auto simp: item_of_def Let_def split: sum.splits)

lemma item_of_recorded:
  assumes "(m, s, how, facts) \<in> set (focus_files p focus)" and "item_of h (m, s, how, facts) = Some x"
  shows "\<exists>root s. map_of (pl_stocks p) root = Some s \<and> it_found x = sk_found s \<and> it_path x = root @ it_relative x \<and>
    sk_method s = Some (fr_method (it_record x)) \<and> locate h (it_path x) = Inr (fr_location (it_record x)) \<and>
    map_of (sk_files s) (it_relative x) =
      Some \<lparr>ff_identity = fr_identity (it_record x), ff_len = fr_len (it_record x), ff_links = fr_links (it_record x),
        ff_owner = fr_owner (it_record x), ff_mode = fr_mode (it_record x), ff_sharing = fr_sharing (it_record x)\<rparr>"
  using focus_files_recorded [OF assms(1)] assms(2)
  by (intro exI [of _ "fst m"] exI [of _ s]) (cases m, auto simp: item_of_def Let_def split: sum.splits)

lemma map_filter_keys:
  assumes "\<And>x. x \<in> set xs \<Longrightarrow> \<exists>y. f x = Some y \<and> g y = key x"
  shows "map g (List.map_filter f xs) = map key xs"
  using assms
proof (induction xs)
  case (Cons x xs)
  from Cons.prems [of x] obtain y where "f x = Some y" "g y = key x" by auto
  with Cons show ?case by (simp add: map_filter_simps)
qed (simp add: map_filter_simps)

text \<open>Property C23. A file that may share its blocks is never overlooked: if a stock of an admitted
  target holds it, another file of its length is held somewhere and the run looks at that length, then
  there is an item for it, under one of its names, and an item for each file only once; and every item
  is a file of an admitted stock with its recorded facts.\<close>

theorem items_exactly:
  assumes "pool_built p"
    and nameable: "\<And>root rel facts. stocked p root rel = Some facts \<Longrightarrow> \<exists>l. locate h (root @ rel) = Inr l"
  shows "(\<forall>root s how rel facts root' rel' facts'.
      map_of (pl_stocks p) root = Some s \<longrightarrow> sk_method s = Some how \<longrightarrow> map_of (sk_files s) rel = Some facts \<longrightarrow>
      stocked p root' rel' = Some facts' \<longrightarrow> (root, rel) \<noteq> (root', rel') \<longrightarrow> ff_len facts' = ff_len facts \<longrightarrow>
      looks_at focus (ff_len facts) \<longrightarrow>
      (\<exists>x \<in> set (pool_items h p focus). fr_identity (it_record x) = ff_identity facts)) \<and>
    distinct (map (fr_identity \<circ> it_record) (pool_items h p focus)) \<and>
    (\<forall>x \<in> set (pool_items h p focus). \<exists>root s.
      map_of (pl_stocks p) root = Some s \<and> it_found x = sk_found s \<and> it_path x = root @ it_relative x \<and>
      sk_method s = Some (fr_method (it_record x)) \<and> locate h (it_path x) = Inr (fr_location (it_record x)) \<and>
      map_of (sk_files s) (it_relative x) =
        Some \<lparr>ff_identity = fr_identity (it_record x), ff_len = fr_len (it_record x), ff_links = fr_links (it_record x),
          ff_owner = fr_owner (it_record x), ff_mode = fr_mode (it_record x), ff_sharing = fr_sharing (it_record x)\<rparr>)"
    (is "?complete \<and> ?distinct \<and> ?sound")
proof (intro conjI)
  have named: "\<exists>y. item_of h x = Some y \<and> fr_identity (it_record y) = file_identity x" if "x \<in> set (focus_firsts p focus)" for x
  proof -
    obtain m s how facts where x: "x = (m, s, how, facts)" by (cases x) auto
    with focus_files_recorded [of m s how facts p focus] focus_firsts_files [OF that]
    have "stocked p (fst m) (snd m) = Some facts" by (simp add: stocked_def)
    from nameable [OF this] have "\<exists>y. item_of h x = Some y" unfolding x by (cases m) (auto simp: item_of_def Let_def)
    with item_of_identity [of h x] show ?thesis by blast
  qed
  show ?complete
  proof (intro allI impI)
    fix root s how rel facts root' rel' facts'
    assume "map_of (pl_stocks p) root = Some s" "sk_method s = Some how" "map_of (sk_files s) rel = Some facts"
      "stocked p root' rel' = Some facts'" "(root, rel) \<noteq> (root', rel')" "ff_len facts' = ff_len facts" "looks_at focus (ff_len facts)"
    from focus_firsts_complete [OF focus_files_complete [OF assms(1) this]]
    obtain x where "x \<in> set (focus_firsts p focus)" "file_identity x = ff_identity facts" by auto
    with named [of x] show "\<exists>x \<in> set (pool_items h p focus). fr_identity (it_record x) = ff_identity facts"
      unfolding pool_items_firsts map_filter_mem Bex_def by metis
  qed
  show ?distinct
    using map_filter_keys [of "focus_firsts p focus" "item_of h" "fr_identity \<circ> it_record" file_identity] named
    by (simp add: pool_items_firsts focus_firsts_def first_seen_inj)
  show ?sound
  proof
    fix x assume "x \<in> set (pool_items h p focus)"
    then obtain y where "y \<in> set (focus_firsts p focus)" "item_of h y = Some x"
      unfolding pool_items_firsts map_filter_mem by blast
    with focus_firsts_files [of y p focus] item_of_recorded [of "fst y" "fst (snd y)" "fst (snd (snd y))" "snd (snd (snd y))" p focus h x]
    show "\<exists>root s.
      map_of (pl_stocks p) root = Some s \<and> it_found x = sk_found s \<and> it_path x = root @ it_relative x \<and>
      sk_method s = Some (fr_method (it_record x)) \<and> locate h (it_path x) = Inr (fr_location (it_record x)) \<and>
      map_of (sk_files s) (it_relative x) =
        Some \<lparr>ff_identity = fr_identity (it_record x), ff_len = fr_len (it_record x), ff_links = fr_links (it_record x),
          ff_owner = fr_owner (it_record x), ff_mode = fr_mode (it_record x), ff_sharing = fr_sharing (it_record x)\<rparr>"
      by simp
  qed
qed

end
