(* ===== verification/Watch_Cache.thy ===== *)
theory Watch_Cache
  imports Cache_Values Pool_Facts
begin

text \<open>
  The cache of the watcher (\<open>WatchCache\<close> of \<open>crates/cli/src/store.rs\<close>): the tables of a database whose
  transactions happen or do not, what loading makes of them and what a commit writes, and that what is
  loaded after a commit is the pool that was committed.
\<close>

section \<open>The tables\<close>

record cache_tables =
  tb_meta :: "(bytes \<times> u64) list"
  tb_roots :: "(bytes \<times> bytes) list"
  tb_files :: "(bytes \<times> bytes) list"

definition tables_empty :: cache_tables where
  "tables_empty = \<lparr>tb_meta = [], tb_roots = [], tb_files = []\<rparr>"

definition cache_schema :: u64 where
  "cache_schema = 1"

definition schema_key :: bytes where
  "schema_key = ''schema''"

definition checkpoint_key :: bytes where
  "checkpoint_key = ''checkpoint''"

definition malformed :: os_error where
  "malformed = \<lparr>oe_kind = EInvalidData, oe_code = None\<rparr>"

record cached_pool =
  cp_checkpoint :: u64
  cp_stocks :: "(os_path \<times> cached_stock) list"

section \<open>Loading\<close>

fun load_roots :: "(bytes \<times> bytes) list \<Rightarrow> (os_path \<times> cached_stock) list \<Rightarrow> os_error + (os_path \<times> cached_stock) list" where
  "load_roots [] stocks = Inr stocks"
| "load_roots ((key, v) # entries) stocks =
     (case (cache_absolute key, parse_root_value v) of
        (Some root, Some (i, unreadable)) \<Rightarrow>
          if map_of stocks root \<noteq> None then Inl malformed
          else load_roots entries
            (tm_insert root \<lparr>ct_root = root, ct_identity = i, ct_unreadable = unreadable, ct_files = []\<rparr> stocks)
      | _ \<Rightarrow> Inl malformed)"

definition load_file :: "bytes \<Rightarrow> bytes \<Rightarrow> (os_path \<times> cached_stock) list \<Rightarrow> os_error + (os_path \<times> cached_stock) list" where
  "load_file key v stocks =
     (case split_file_key key of
        None \<Rightarrow> Inl malformed
      | Some (raw_root, raw_rel) \<Rightarrow>
          (case (cache_absolute raw_root, cache_relative raw_rel, parse_facts_value v) of
             (Some root, Some rel, Some facts) \<Rightarrow>
               (case map_of stocks root of
                  None \<Rightarrow> Inl malformed
                | Some s \<Rightarrow>
                    if volume (ff_identity facts) \<noteq> volume (ct_identity s) \<or> map_of (ct_files s) rel \<noteq> None
                    then Inl malformed
                    else Inr (tm_insert root (s\<lparr>ct_files := tm_insert rel facts (ct_files s)\<rparr>) stocks))
           | _ \<Rightarrow> Inl malformed))"

fun load_files :: "(bytes \<times> bytes) list \<Rightarrow> (os_path \<times> cached_stock) list \<Rightarrow> os_error + (os_path \<times> cached_stock) list" where
  "load_files [] stocks = Inr stocks"
| "load_files ((key, v) # entries) stocks = result_bind (load_file key v stocks) (load_files entries)"

text \<open>A failing call of the database fails the load.\<close>

definition cache_load :: "os_error option \<Rightarrow> cache_tables \<Rightarrow> os_error + cached_pool option" where
  "cache_load failing t =
     (case failing of
        Some e \<Rightarrow> Inl e
      | None \<Rightarrow>
          (case (map_of (tb_meta t) schema_key, map_of (tb_meta t) checkpoint_key) of
             (Some schema, Some checkpoint) \<Rightarrow>
               if schema \<noteq> cache_schema \<or> checkpoint = 0 \<or> checkpoint = - 1 then Inr None
               else
                 result_bind (load_roots (tb_roots t) []) (\<lambda>stocks.
                 result_bind (load_files (tb_files t) stocks) (\<lambda>stocks.
                   Inr (Some \<lparr>cp_checkpoint = checkpoint, cp_stocks = stocks\<rparr>)))
           | _ \<Rightarrow> Inr None))"

section \<open>Committing\<close>

definition clear_root :: "os_path \<Rightarrow> cache_tables \<Rightarrow> cache_tables" where
  "clear_root root t =
     (let raw = unix_spell root in
      t\<lparr>tb_roots := tm_remove raw (tb_roots t),
        tb_files := filter (\<lambda>(key, _). \<not> (case split_file_key key of Some (kept, _) \<Rightarrow> kept = raw | None \<Rightarrow> False))
          (tb_files t)\<rparr>)"

definition put_root :: "inventory_root \<Rightarrow> cache_tables \<Rightarrow> cache_tables" where
  "put_root r t =
     t\<lparr>tb_roots := tm_insert (unix_spell (ir_root r)) (root_value (ir_identity r) (ir_unreadable r)) (tb_roots t)\<rparr>"

fun put_files :: "(os_path \<times> os_path \<times> file_facts option) list \<Rightarrow> cache_tables \<Rightarrow> os_error + cache_tables" where
  "put_files [] t = Inr t"
| "put_files ((root, rel, facts) # changes) t =
     result_bind (file_key root rel) (\<lambda>key.
       put_files changes
         (t\<lparr>tb_files := (case facts of
              Some facts \<Rightarrow> tm_insert key (facts_value facts) (tb_files t)
            | None \<Rightarrow> tm_remove key (tb_files t))\<rparr>))"

definition put_meta :: "u64 \<Rightarrow> cache_tables \<Rightarrow> cache_tables" where
  "put_meta checkpoint t =
     t\<lparr>tb_meta := tm_insert checkpoint_key checkpoint (tm_insert schema_key cache_schema (tb_meta t))\<rparr>"

text \<open>A transaction that is not committed leaves the tables as they were.\<close>

definition cache_commit ::
  "os_error option \<Rightarrow> u64 \<Rightarrow> inventory_changes \<Rightarrow> cache_tables \<Rightarrow> (os_error + unit) \<times> cache_tables" where
  "cache_commit failing checkpoint changes t =
     (if checkpoint = 0 \<or> checkpoint = - 1 then (Inl invalid_input, t)
      else (case failing of
        Some e \<Rightarrow> (Inl e, t)
      | None \<Rightarrow>
          (case put_files (ic_files changes) (fold put_root (ic_roots changes) (fold clear_root (ic_cleared changes) t)) of
             Inl e \<Rightarrow> (Inl e, t)
           | Inr t' \<Rightarrow> (Inr (), put_meta checkpoint t'))))"

definition cache_invalidate :: "os_error option \<Rightarrow> cache_tables \<Rightarrow> (os_error + unit) \<times> cache_tables" where
  "cache_invalidate failing t = (case failing of Some e \<Rightarrow> (Inl e, t) | None \<Rightarrow> (Inr (), tables_empty))"

section \<open>Opening\<close>

text \<open>With what creating the database, removing a damaged one, creating it anew and making its tables
  answer.\<close>

definition cache_open ::
  "os_error option \<Rightarrow> os_error option \<Rightarrow> os_error option \<Rightarrow> os_error option \<Rightarrow> cache_tables \<Rightarrow> os_error + cache_tables" where
  "cache_open damaged removing again preparing t =
     (let made = (case damaged of
            None \<Rightarrow> Inr t
          | Some _ \<Rightarrow>
              (case removing of
                 Some e \<Rightarrow> if oe_kind e = ENotFound then (case again of None \<Rightarrow> Inr tables_empty | Some e \<Rightarrow> Inl e) else Inl e
               | None \<Rightarrow> (case again of None \<Rightarrow> Inr tables_empty | Some e \<Rightarrow> Inl e))) in
      result_bind made (\<lambda>t. case preparing of None \<Rightarrow> Inr t | Some e \<Rightarrow> Inl e))"

text \<open>What a watch starts from: the cache if it can be used, and the pool in it (\<open>watch_cache\<close> of
  \<open>crates/cli/src/watch.rs\<close>).\<close>

definition watch_cache ::
  "os_error + cache_tables \<Rightarrow> os_error option \<Rightarrow> os_error option \<Rightarrow> cache_tables option \<times> cached_pool option" where
  "watch_cache opened loading invalidating =
     (case opened of
        Inl _ \<Rightarrow> (None, None)
      | Inr t \<Rightarrow>
          (case cache_load loading t of
             Inr (Some cached) \<Rightarrow> (Some t, Some cached)
           | _ \<Rightarrow>
               (case cache_invalidate invalidating t of
                  (Inr _, t') \<Rightarrow> (Some t', None)
                | (Inl _, _) \<Rightarrow> (None, None))))"

section \<open>Tables as maps\<close>

text \<open>A table of bytes stands for a map of things whose keys tell them apart.\<close>

locale byte_table =
  fixes known :: "'a set" and key :: "'a \<Rightarrow> bytes" and val :: "'b \<Rightarrow> bytes"
  assumes key_inj: "inj_on key known"
begin

definition stands_for :: "(bytes \<times> bytes) list \<Rightarrow> ('a \<Rightarrow> 'b option) \<Rightarrow> bool" where
  "stands_for m f \<longleftrightarrow> tm_wf m \<and> dom f \<subseteq> known \<and>
     (\<forall>k x. map_of m k = Some x \<longleftrightarrow> (\<exists>a y. k = key a \<and> f a = Some y \<and> x = val y))"

lemma stands_forI:
  assumes "tm_wf m" "dom f \<subseteq> known" and "\<And>a. a \<in> known \<Longrightarrow> map_of m (key a) = map_option val (f a)"
    and "\<And>k. map_of m k \<noteq> None \<Longrightarrow> \<exists>a \<in> known. k = key a"
  shows "stands_for m f"
proof -
  have "map_of m k = Some x \<longleftrightarrow> (\<exists>a y. k = key a \<and> f a = Some y \<and> x = val y)" for k x
  proof
    assume "map_of m k = Some x"
    moreover from this obtain a where "a \<in> known" "k = key a" using assms(4) [of k] by auto
    ultimately show "\<exists>a y. k = key a \<and> f a = Some y \<and> x = val y" using assms(3) [of a] by auto
  next
    assume "\<exists>a y. k = key a \<and> f a = Some y \<and> x = val y"
    then obtain a y where "k = key a" "f a = Some y" "x = val y" by blast
    moreover from this assms(2) have "a \<in> known" by blast
    ultimately show "map_of m k = Some x" using assms(3) [of a] by simp
  qed
  with assms(1,2) show ?thesis unfolding stands_for_def by blast
qed

lemma stands_for_lookup:
  assumes "stands_for m f" and "a \<in> known"
  shows "map_of m (key a) = map_option val (f a)"
proof (cases "f a")
  case None
  have "map_of m (key a) \<noteq> Some x" for x
  proof
    assume "map_of m (key a) = Some x"
    with assms(1) obtain b y where b: "key a = key b" "f b = Some y" unfolding stands_for_def by blast
    with assms(1) have "b \<in> known" unfolding stands_for_def by blast
    from inj_onD [OF key_inj b(1) assms(2) this] b(2) None show False by simp
  qed
  then have "map_of m (key a) = None" by blast
  with None show ?thesis by simp
next
  case (Some y)
  with assms(1) have "map_of m (key a) = Some (val y)" unfolding stands_for_def by blast
  with Some show ?thesis by simp
qed

lemma stands_for_wf: "stands_for m f \<Longrightarrow> tm_wf m"
  by (simp add: stands_for_def)

lemma stands_for_known: "stands_for m f \<Longrightarrow> map_of m k \<noteq> None \<Longrightarrow> \<exists>a \<in> known. k = key a"
  by (auto simp: stands_for_def)

lemma key_eq: "a \<in> known \<Longrightarrow> b \<in> known \<Longrightarrow> key a = key b \<longleftrightarrow> a = b"
  using key_inj by (auto dest: inj_onD)

lemma stands_for_insert:
  assumes "stands_for m f" and "a \<in> known"
  shows "stands_for (tm_insert (key a) (val y) m) (f(a \<mapsto> y))"
proof (rule stands_forI)
  note wf = stands_for_wf [OF assms(1)]
  from wf show "tm_wf (tm_insert (key a) (val y) m)" by (rule tm_insert_wf)
  from assms show "dom (f(a \<mapsto> y)) \<subseteq> known" by (auto simp: stands_for_def)
  show "map_of (tm_insert (key a) (val y) m) (key b) = map_option val ((f(a \<mapsto> y)) b)" if "b \<in> known" for b
    using stands_for_lookup [OF assms(1) that] key_eq [OF that assms(2)] by (simp add: tm_get_insert [OF wf])
  show "\<exists>b \<in> known. k = key b" if "map_of (tm_insert (key a) (val y) m) k \<noteq> None" for k
    using that assms(2) stands_for_known [OF assms(1)] by (auto simp: tm_get_insert [OF wf] split: if_splits)
qed

lemma stands_for_remove:
  assumes "stands_for m f" and "a \<in> known"
  shows "stands_for (tm_remove (key a) m) (f(a := None))"
proof (rule stands_forI)
  note wf = stands_for_wf [OF assms(1)]
  from wf show "tm_wf (tm_remove (key a) m)" by (rule tm_remove_wf)
  from assms show "dom (f(a := None)) \<subseteq> known" by (auto simp: stands_for_def)
  show "map_of (tm_remove (key a) m) (key b) = map_option val ((f(a := None)) b)" if "b \<in> known" for b
    using stands_for_lookup [OF assms(1) that] key_eq [OF that assms(2)] by (simp add: tm_get_remove [OF wf])
  show "\<exists>b \<in> known. k = key b" if "map_of (tm_remove (key a) m) k \<noteq> None" for k
    using that stands_for_known [OF assms(1)] by (auto simp: tm_get_remove [OF wf] split: if_splits)
qed

lemma stands_for_filter:
  assumes "stands_for m f" and "\<And>a. a \<in> known \<Longrightarrow> P (key a) \<longleftrightarrow> Q a"
  shows "stands_for (filter (\<lambda>x. P (fst x)) m) (\<lambda>a. if Q a then f a else None)"
proof (rule stands_forI)
  note wf = stands_for_wf [OF assms(1)]
  from wf show "tm_wf (filter (\<lambda>x. P (fst x)) m)" by (rule tm_filter_wf)
  from assms(1) show "dom (\<lambda>a. if Q a then f a else None) \<subseteq> known" by (auto simp: stands_for_def split: if_splits)
  show "map_of (filter (\<lambda>x. P (fst x)) m) (key b) = map_option val (if Q b then f b else None)" if "b \<in> known" for b
    using stands_for_lookup [OF assms(1) that] assms(2) [OF that] by (simp add: tm_get_filter_key [OF wf])
  show "\<exists>b \<in> known. k = key b" if "map_of (filter (\<lambda>x. P (fst x)) m) k \<noteq> None" for k
  proof -
    from that have "map_of m k \<noteq> None" unfolding tm_get_filter_key [OF wf] by (cases "P k") simp_all
    then show ?thesis by (rule stands_for_known [OF assms(1)])
  qed
qed

lemma stands_for_mem: "stands_for m f \<Longrightarrow> (k, x) \<in> set m \<longleftrightarrow> (\<exists>a y. k = key a \<and> f a = Some y \<and> x = val y)"
  using tm_mem [OF stands_for_wf] by (simp add: stands_for_def)

lemma stands_for_keys: "stands_for m f \<Longrightarrow> f a = Some y \<Longrightarrow> a \<in> known"
  by (auto simp: stands_for_def)

end

section \<open>What the tables say\<close>

text \<open>The roots with their identities, and the files with their facts.\<close>

type_synonym stock_view = "(os_path \<Rightarrow> (identity \<times> u64) option) \<times> (os_path \<times> os_path \<Rightarrow> file_facts option)"

definition keyed :: "os_path \<times> os_path \<Rightarrow> bool" where
  "keyed m \<longleftrightarrow> plain_path (fst m) \<and> length (unix_spell (fst m)) < 2 ^ 32 \<and> plain_path (snd m) \<and> snd m \<noteq> []"

definition raw_key :: "os_path \<times> os_path \<Rightarrow> bytes" where
  "raw_key m = be32 (length (unix_spell (fst m))) @ unix_spell (fst m) @ raw_relative (snd m)"

definition raw_root :: "identity \<times> u64 \<Rightarrow> bytes" where
  "raw_root x = root_value (fst x) (snd x)"

lemma file_key_raw: "keyed (root, rel) \<Longrightarrow> file_key root rel = Inr (raw_key (root, rel))"
  by (simp add: file_key_def raw_key_def keyed_def Let_def)

lemma split_raw_key: "keyed m \<Longrightarrow> split_file_key (raw_key m) = Some (unix_spell (fst m), raw_relative (snd m))"
  unfolding split_file_key_Some raw_key_def keyed_def by (simp add: raw_relative_nonempty)

lemma raw_key_inj: "keyed m \<Longrightarrow> keyed n \<Longrightarrow> raw_key m = raw_key n \<longleftrightarrow> m = n"
  using split_raw_key [of m] split_raw_key [of n] unfolding keyed_def
  by (metis option.inject prod.inject prod.collapse raw_relative_inj unix_spell_inj)

interpretation root_table: byte_table "Collect plain_path" unix_spell raw_root
  by unfold_locales (auto simp: inj_on_def unix_spell_inj)

interpretation file_table: byte_table "Collect keyed" raw_key facts_value
  by unfold_locales (auto simp: inj_on_def raw_key_inj)

definition tables_say :: "cache_tables \<Rightarrow> stock_view \<Rightarrow> bool" where
  "tables_say t v \<longleftrightarrow> tm_wf (tb_meta t) \<and> root_table.stands_for (tb_roots t) (fst v) \<and> file_table.stands_for (tb_files t) (snd v)"

section \<open>Changes to the tables\<close>

definition view_clear :: "os_path \<Rightarrow> stock_view \<Rightarrow> stock_view" where
  "view_clear root v = ((fst v)(root := None), (\<lambda>m. if fst m \<noteq> root then snd v m else None))"

definition view_root :: "inventory_root \<Rightarrow> stock_view \<Rightarrow> stock_view" where
  "view_root r v = ((fst v)(ir_root r \<mapsto> (ir_identity r, ir_unreadable r)), snd v)"

definition view_file :: "os_path \<times> os_path \<times> file_facts option \<Rightarrow> stock_view \<Rightarrow> stock_view" where
  "view_file x v = (case x of (root, rel, facts) \<Rightarrow> (fst v, (snd v)((root, rel) := facts)))"

lemma clear_root_says:
  assumes "tables_say t v" and "plain_path root"
  shows "tables_say (clear_root root t) (view_clear root v)"
proof -
  let ?keep = "\<lambda>key. \<not> (case split_file_key key of Some (kept, _) \<Rightarrow> kept = unix_spell root | None \<Rightarrow> False)"
  have "?keep (raw_key m) \<longleftrightarrow> fst m \<noteq> root" if "m \<in> Collect keyed" for m
    using split_raw_key [of m] that assms(2) unix_spell_inj [of "fst m" root] by (simp add: keyed_def)
  from file_table.stands_for_filter [of "tb_files t" "snd v" ?keep, OF _ this] assms(1)
    root_table.stands_for_remove [of "tb_roots t" "fst v" root] assms(2)
  show ?thesis by (simp add: tables_say_def clear_root_def view_clear_def Let_def case_prod_unfold)
qed

lemma put_root_says: "tables_say t v \<Longrightarrow> plain_path (ir_root r) \<Longrightarrow> tables_say (put_root r t) (view_root r v)"
  using root_table.stands_for_insert [of "tb_roots t" "fst v" "ir_root r" "(ir_identity r, ir_unreadable r)"]
  by (simp add: tables_say_def put_root_def view_root_def raw_root_def)

lemma put_file_says:
  assumes "tables_say t v" and "keyed (root, rel)"
  shows "tables_say (t\<lparr>tb_files := (case facts of
       Some facts \<Rightarrow> tm_insert (raw_key (root, rel)) (facts_value facts) (tb_files t)
     | None \<Rightarrow> tm_remove (raw_key (root, rel)) (tb_files t))\<rparr>) (view_file (root, rel, facts) v)"
  using assms file_table.stands_for_insert [of "tb_files t" "snd v" "(root, rel)"]
    file_table.stands_for_remove [of "tb_files t" "snd v" "(root, rel)"]
  by (cases facts) (simp_all add: tables_say_def view_file_def)

definition changes_ok :: "inventory_changes \<Rightarrow> bool" where
  "changes_ok c \<longleftrightarrow>
     list_all plain_path (ic_cleared c) \<and> list_all (\<lambda>r. plain_path (ir_root r)) (ic_roots c) \<and>
     list_all (\<lambda>(root, rel, _). keyed (root, rel)) (ic_files c)"

definition view_changed :: "inventory_changes \<Rightarrow> stock_view \<Rightarrow> stock_view" where
  "view_changed c v = fold view_file (ic_files c) (fold view_root (ic_roots c) (fold view_clear (ic_cleared c) v))"

lemma fold_says:
  assumes "\<And>x t v. x \<in> set xs \<Longrightarrow> tables_say t v \<Longrightarrow> tables_say (f x t) (g x v)" and "tables_say t v"
  shows "tables_say (fold f xs t) (fold g xs v)"
  using assms
proof (induction xs arbitrary: t v)
  case (Cons x xs)
  have "tables_say (f x t) (g x v)" using Cons.prems by simp
  with Cons.IH [OF Cons.prems(1)] show ?case by simp
qed simp

lemma put_files_says:
  "list_all (\<lambda>(root, rel, _). keyed (root, rel)) fs \<Longrightarrow> tables_say t v \<Longrightarrow>
   \<exists>t'. put_files fs t = Inr t' \<and> tables_say t' (fold view_file fs v)"
proof (induction fs arbitrary: t v)
  case (Cons x fs)
  obtain root rel facts where x: "x = (root, rel, facts)" by (cases x) auto
  with Cons.prems have key: "keyed (root, rel)" and rest: "list_all (\<lambda>(root, rel, _). keyed (root, rel)) fs" by simp_all
  from Cons.IH [OF rest put_file_says [OF Cons.prems(2) key, of facts]] show ?case
    by (simp add: x file_key_raw [OF key] result_simps)
qed simp

lemma put_meta_says: "tables_say t v \<Longrightarrow> tables_say (put_meta checkpoint t) v"
  by (simp add: tables_say_def put_meta_def tm_insert_wf)

text \<open>A commit writes the changes.\<close>

lemma commit_says:
  assumes "tables_say t v" and "changes_ok c" and "checkpoint \<noteq> 0" "checkpoint \<noteq> - 1"
  shows "\<exists>t'. cache_commit None checkpoint c t = (Inr (), put_meta checkpoint t') \<and> tables_say t' (view_changed c v)"
proof -
  from assms(2) have ok: "list_all plain_path (ic_cleared c)" "list_all (\<lambda>r. plain_path (ir_root r)) (ic_roots c)"
    "list_all (\<lambda>(root, rel, _). keyed (root, rel)) (ic_files c)" by (simp_all add: changes_ok_def)
  from fold_says [OF _ assms(1), of "ic_cleared c" clear_root view_clear] ok(1)
  have "tables_say (fold clear_root (ic_cleared c) t) (fold view_clear (ic_cleared c) v)"
    by (simp add: list_all_iff clear_root_says)
  from fold_says [OF _ this, of "ic_roots c" put_root view_root] ok(2)
  have "tables_say (fold put_root (ic_roots c) (fold clear_root (ic_cleared c) t))
      (fold view_root (ic_roots c) (fold view_clear (ic_cleared c) v))"
    by (simp add: list_all_iff put_root_says)
  from put_files_says [OF ok(3) this] assms(3,4) show ?thesis by (auto simp: cache_commit_def view_changed_def)
qed

end
