(* ===== verification/Cache_Facts.thy ===== *)
theory Cache_Facts
  imports Watch_Cache
begin

text \<open>
  The cache of the watcher follows the pool: what the journal adds to the tables is what the pool
  holds, whatever happened to the pool, and what is loaded after a commit is the pool of that time.
\<close>

section \<open>What is loaded\<close>

definition cached_view :: "(os_path \<times> cached_stock) list \<Rightarrow> stock_view" where
  "cached_view stocks =
     (\<lambda>root. map_option (\<lambda>s. (ct_identity s, ct_unreadable s)) (map_of stocks root),
      \<lambda>m. Option.bind (map_of stocks (fst m)) (\<lambda>s. map_of (ct_files s) (snd m)))"

definition cached_ok :: "(os_path \<times> cached_stock) list \<Rightarrow> bool" where
  "cached_ok stocks \<longleftrightarrow> tm_wf stocks \<and> (\<forall>root s. map_of stocks root = Some s \<longrightarrow> ct_root s = root \<and> tm_wf (ct_files s))"

text \<open>Files that a load accepts: those of a root on its volume, with facts of a file that may share.\<close>

definition cacheable :: "stock_view \<Rightarrow> bool" where
  "cacheable v \<longleftrightarrow>
     (\<forall>m f. snd v m = Some f \<longrightarrow> minimum \<le> ff_len f \<and> ff_links f \<noteq> 0 \<and>
        (\<exists>i unreadable. fst v (fst m) = Some (i, unreadable) \<and> volume (ff_identity f) = volume i))"

lemma raw_root_inj: "raw_root y = raw_root z \<longleftrightarrow> y = z"
proof -
  have "parse_root_value (raw_root y) = Some y" for y
    by (cases y) (simp add: raw_root_def parse_root_value_Some)
  then show ?thesis by (metis option.inject)
qed

lemma parse_raw_root: "parse_root_value (raw_root y) = Some y"
  by (cases y) (simp add: raw_root_def parse_root_value_Some)

text \<open>A loaded root has no files yet.\<close>

definition fresh_stock :: "os_path \<Rightarrow> identity \<times> u64 \<Rightarrow> cached_stock" where
  "fresh_stock root y = \<lparr>ct_root = root, ct_identity = fst y, ct_unreadable = snd y, ct_files = []\<rparr>"

lemma cached_ok_insert:
  "cached_ok stocks \<Longrightarrow> ct_root s = root \<Longrightarrow> tm_wf (ct_files s) \<Longrightarrow> cached_ok (tm_insert root s stocks)"
  by (auto simp: cached_ok_def tm_insert_wf tm_get_insert)

lemma load_roots_says:
  assumes "distinct (map fst es)" and "cached_ok stocks"
    and "\<And>k x. (k, x) \<in> set es \<Longrightarrow> \<exists>root y. plain_path root \<and> k = unix_spell root \<and> x = raw_root y \<and> map_of stocks root = None"
  shows "\<exists>stocks'. load_roots es stocks = Inr stocks' \<and> cached_ok stocks' \<and>
    (\<forall>root s. map_of stocks' root = Some s \<longleftrightarrow>
       map_of stocks root = Some s \<or> (\<exists>y. plain_path root \<and> (unix_spell root, raw_root y) \<in> set es \<and> s = fresh_stock root y))"
  using assms
proof (induction es arbitrary: stocks)
  case (Cons e es)
  obtain k x where e: "e = (k, x)" by fastforce
  with Cons.prems(3) [of k x] obtain root y where root: "plain_path root" "k = unix_spell root" "x = raw_root y" "map_of stocks root = None"
    by auto
  let ?stocks = "tm_insert root (fresh_stock root y) stocks"
  from Cons.prems(2) have wf: "tm_wf stocks" by (simp add: cached_ok_def)
  have ok: "cached_ok ?stocks" using Cons.prems(2) by (intro cached_ok_insert) (simp_all add: fresh_stock_def)
  have other: "\<exists>r z. plain_path r \<and> k' = unix_spell r \<and> x' = raw_root z \<and> map_of ?stocks r = None" if "(k', x') \<in> set es" for k' x'
  proof -
    from that Cons.prems(1) e have "k' \<noteq> k" by force
    moreover from that Cons.prems(3) obtain r z where "plain_path r" "k' = unix_spell r" "x' = raw_root z" "map_of stocks r = None"
      by (meson list.set_intros(2))
    ultimately show ?thesis using root(2) by (intro exI [of _ r] exI [of _ z]) (auto simp: tm_get_insert [OF wf])
  qed
  have distinct: "distinct (map fst es)" using Cons.prems(1) by simp
  have load: "load_roots (e # es) stocks = load_roots es ?stocks"
    using root by (cases y) (simp add: e absolute_of_raw parse_raw_root fresh_stock_def)
  from Cons.IH [OF distinct ok other] obtain stocks' where st: "load_roots es ?stocks = Inr stocks'" "cached_ok stocks'"
    "\<And>r s. map_of stocks' r = Some s \<longleftrightarrow> map_of ?stocks r = Some s \<or>
       (\<exists>z. plain_path r \<and> (unix_spell r, raw_root z) \<in> set es \<and> s = fresh_stock r z)" by blast
  have "map_of stocks' r = Some s \<longleftrightarrow> map_of stocks r = Some s \<or>
      (\<exists>z. plain_path r \<and> (unix_spell r, raw_root z) \<in> set (e # es) \<and> s = fresh_stock r z)" for r s
  proof (cases "r = root")
    case True
    have none: "(unix_spell root, raw_root z) \<notin> set es" for z using Cons.prems(1) e root(2) by force
    have "map_of stocks' root = Some s \<longleftrightarrow> s = fresh_stock root y"
      unfolding st(3) using none by (auto simp: tm_get_insert [OF wf])
    with True root none show ?thesis by (auto simp: e raw_root_inj)
  next
    case False
    then have "(unix_spell r, raw_root z) \<noteq> e" if "plain_path r" for z using that root unix_spell_inj [of r root] by (simp add: e)
    with False show ?thesis unfolding st(3) by (auto simp: tm_get_insert [OF wf])
  qed
  with st(2) show ?case unfolding load st(1) by blast
qed simp

lemma load_files_says:
  assumes "distinct (map fst es)" and "cached_ok stocks"
    and "\<And>k x. (k, x) \<in> set es \<Longrightarrow> \<exists>m f s. keyed m \<and> k = raw_key m \<and> x = facts_value f \<and> minimum \<le> ff_len f \<and> ff_links f \<noteq> 0 \<and>
      map_of stocks (fst m) = Some s \<and> volume (ff_identity f) = volume (ct_identity s) \<and> map_of (ct_files s) (snd m) = None"
  shows "\<exists>stocks'. load_files es stocks = Inr stocks' \<and> cached_ok stocks' \<and>
    fst (cached_view stocks') = fst (cached_view stocks) \<and>
    (\<forall>m f. snd (cached_view stocks') m = Some f \<longleftrightarrow>
       snd (cached_view stocks) m = Some f \<or> keyed m \<and> (raw_key m, facts_value f) \<in> set es \<and> minimum \<le> ff_len f \<and> ff_links f \<noteq> 0)"
  using assms
proof (induction es arbitrary: stocks)
  case (Cons e es)
  obtain k x where e: "e = (k, x)" by fastforce
  with Cons.prems(3) [of k x] obtain m f s where m: "keyed m" "k = raw_key m" "x = facts_value f"
    "minimum \<le> ff_len f" "ff_links f \<noteq> 0" "map_of stocks (fst m) = Some s"
    "volume (ff_identity f) = volume (ct_identity s)" "map_of (ct_files s) (snd m) = None" by auto
  let ?s = "s\<lparr>ct_files := tm_insert (snd m) f (ct_files s)\<rparr>"
  let ?stocks = "tm_insert (fst m) ?s stocks"
  from Cons.prems(2) m(6) have wf: "tm_wf stocks" "tm_wf (ct_files s)" "ct_root s = fst m" by (auto simp: cached_ok_def)
  have ok: "cached_ok ?stocks" using Cons.prems(2) wf by (intro cached_ok_insert) (simp_all add: tm_insert_wf)
  have parse: "parse_facts_value (facts_value f) = Some f" using m(4,5) by (simp add: parse_facts_value_Some)
  have step: "load_file k x stocks = Inr ?stocks"
    using m split_raw_key [OF m(1)] parse by (simp add: load_file_def keyed_def absolute_of_raw relative_of_raw)
  have get: "map_of ?stocks r = (if r = fst m then Some ?s else map_of stocks r)" for r by (simp add: tm_get_insert [OF wf(1)])
  have other: "\<exists>n g t. keyed n \<and> k' = raw_key n \<and> x' = facts_value g \<and> minimum \<le> ff_len g \<and> ff_links g \<noteq> 0 \<and>
      map_of ?stocks (fst n) = Some t \<and> volume (ff_identity g) = volume (ct_identity t) \<and> map_of (ct_files t) (snd n) = None"
    if "(k', x') \<in> set es" for k' x'
  proof -
    from that Cons.prems(1) e have "k' \<noteq> k" by force
    moreover from that Cons.prems(3) obtain n g t where n: "keyed n" "k' = raw_key n" "x' = facts_value g"
      "minimum \<le> ff_len g" "ff_links g \<noteq> 0" "map_of stocks (fst n) = Some t"
      "volume (ff_identity g) = volume (ct_identity t)" "map_of (ct_files t) (snd n) = None" by (meson list.set_intros(2))
    ultimately have "n \<noteq> m" using m(2) by auto
    show ?thesis
    proof (cases "fst n = fst m")
      case True
      with \<open>n \<noteq> m\<close> have "snd n \<noteq> snd m" by (auto simp: prod_eq_iff)
      from n(6) m(6) True have "t = s" by simp
      with n \<open>snd n \<noteq> snd m\<close> have "map_of (ct_files ?s) (snd n) = None" "volume (ff_identity g) = volume (ct_identity ?s)"
        by (simp_all add: tm_get_insert [OF wf(2)])
      with n(1-5) True get [of "fst n"] show ?thesis by (intro exI [of _ n] exI [of _ g] exI [of _ ?s]) simp
    next
      case False
      with n show ?thesis by (intro exI [of _ n] exI [of _ g] exI [of _ t]) (simp add: get)
    qed
  qed
  have distinct: "distinct (map fst es)" using Cons.prems(1) by simp
  from Cons.IH [OF distinct ok other] obtain stocks' where st: "load_files es ?stocks = Inr stocks'" "cached_ok stocks'"
    "fst (cached_view stocks') = fst (cached_view ?stocks)"
    "\<And>n g. snd (cached_view stocks') n = Some g \<longleftrightarrow> snd (cached_view ?stocks) n = Some g \<or>
       keyed n \<and> (raw_key n, facts_value g) \<in> set es \<and> minimum \<le> ff_len g \<and> ff_links g \<noteq> 0" by blast
  have roots: "fst (cached_view ?stocks) = fst (cached_view stocks)"
    by (rule ext) (auto simp: cached_view_def get m(6))
  have here: "snd (cached_view ?stocks) n = (if n = m then Some f else snd (cached_view stocks) n)" for n
    by (cases "fst n = fst m") (auto simp: cached_view_def get m(6) tm_get_insert [OF wf(2)] prod_eq_iff)
  have new: "snd (cached_view stocks) m = None" by (simp add: cached_view_def m(6,8))
  have "snd (cached_view stocks') n = Some g \<longleftrightarrow> snd (cached_view stocks) n = Some g \<or>
      keyed n \<and> (raw_key n, facts_value g) \<in> set (e # es) \<and> minimum \<le> ff_len g \<and> ff_links g \<noteq> 0" for n g
  proof (cases "n = m")
    case True
    have none: "(raw_key m, y) \<notin> set es" for y using Cons.prems(1) e m(2) by force
    have "facts_value g = facts_value f \<and> minimum \<le> ff_len g \<and> ff_links g \<noteq> 0 \<longleftrightarrow> g = f"
      using parse m(4,5) parse_facts_value_Some [of "facts_value f" g] by auto
    with True m none new show ?thesis unfolding st(4) here by (auto simp: e)
  next
    case False
    then have "keyed n \<Longrightarrow> raw_key n \<noteq> k" using raw_key_inj m(1,2) by blast
    with False show ?thesis unfolding st(4) here by (auto simp: e)
  qed
  with step st(1,2,3) roots show ?case by (simp add: e result_simps)
qed simp

text \<open>Tables that stand for roots and cacheable files are loaded as those.\<close>

lemma load_says:
  assumes "tables_say t v" and "cacheable v" and "checkpoint \<noteq> 0" "checkpoint \<noteq> - 1"
  shows "\<exists>stocks. cache_load None (put_meta checkpoint t) = Inr (Some \<lparr>cp_checkpoint = checkpoint, cp_stocks = stocks\<rparr>) \<and>
    cached_ok stocks \<and> cached_view stocks = v"
proof -
  from assms(1) have meta: "tm_wf (tb_meta t)" and roots: "root_table.stands_for (tb_roots t) (fst v)"
    and files: "file_table.stands_for (tb_files t) (snd v)" by (simp_all add: tables_say_def)
  have "\<exists>stocks. load_roots (tb_roots t) [] = Inr stocks \<and> cached_ok stocks \<and>
      (\<forall>root s. map_of stocks root = Some s \<longleftrightarrow>
         map_of [] root = Some s \<or> (\<exists>y. plain_path root \<and> (unix_spell root, raw_root y) \<in> set (tb_roots t) \<and> s = fresh_stock root y))"
  proof (rule load_roots_says)
    show "distinct (map fst (tb_roots t))" using roots by (intro tm_distinct root_table.stands_for_wf)
    show "cached_ok []" by (simp add: cached_ok_def)
    fix k x assume "(k, x) \<in> set (tb_roots t)"
    then obtain root y where "k = unix_spell root" "fst v root = Some y" "x = raw_root y"
      unfolding root_table.stands_for_mem [OF roots] by blast
    moreover from root_table.stands_for_keys [OF roots this(2)] have "plain_path root" by simp
    ultimately show "\<exists>root y. plain_path root \<and> k = unix_spell root \<and> x = raw_root y \<and> map_of [] root = None"
      by (intro exI [of _ root] exI [of _ y]) simp
  qed
  then obtain stocks where stocks: "load_roots (tb_roots t) [] = Inr stocks" "cached_ok stocks"
    "\<And>root s. map_of stocks root = Some s \<longleftrightarrow> (\<exists>y. plain_path root \<and> (unix_spell root, raw_root y) \<in> set (tb_roots t) \<and> s = fresh_stock root y)"
    by auto
  have held: "map_of stocks root = map_option (fresh_stock root) (fst v root)" for root
  proof -
    have "plain_path root \<and> (unix_spell root, raw_root y) \<in> set (tb_roots t) \<longleftrightarrow> fst v root = Some y" for y
    proof
      assume here: "plain_path root \<and> (unix_spell root, raw_root y) \<in> set (tb_roots t)"
      then obtain r z where r: "unix_spell root = unix_spell r" "fst v r = Some z" "raw_root y = raw_root z"
        unfolding root_table.stands_for_mem [OF roots] by blast
      with root_table.stands_for_keys [OF roots r(2)] here show "fst v root = Some y"
        using unix_spell_inj raw_root_inj by auto
    next
      assume here: "fst v root = Some y"
      with root_table.stands_for_keys [OF roots here] show "plain_path root \<and> (unix_spell root, raw_root y) \<in> set (tb_roots t)"
        unfolding root_table.stands_for_mem [OF roots] by blast
    qed
    with stocks(3) [of root] have here: "map_of stocks root = Some s \<longleftrightarrow> (\<exists>y. fst v root = Some y \<and> s = fresh_stock root y)" for s
      by blast
    show ?thesis
    proof (cases "fst v root")
      case None
      with here have "map_of stocks root \<noteq> Some s" for s by simp
      then have "map_of stocks root = None" by blast
      with None show ?thesis by simp
    qed (simp add: here)
  qed
  have "\<exists>stocks'. load_files (tb_files t) stocks = Inr stocks' \<and> cached_ok stocks' \<and>
      fst (cached_view stocks') = fst (cached_view stocks) \<and>
      (\<forall>m f. snd (cached_view stocks') m = Some f \<longleftrightarrow>
         snd (cached_view stocks) m = Some f \<or>
         keyed m \<and> (raw_key m, facts_value f) \<in> set (tb_files t) \<and> minimum \<le> ff_len f \<and> ff_links f \<noteq> 0)"
  proof (rule load_files_says [OF _ stocks(2)])
    show "distinct (map fst (tb_files t))" using files by (intro tm_distinct file_table.stands_for_wf)
    fix k x assume "(k, x) \<in> set (tb_files t)"
    then obtain m f where m: "k = raw_key m" "snd v m = Some f" "x = facts_value f"
      unfolding file_table.stands_for_mem [OF files] by blast
    with assms(2) obtain i u where "minimum \<le> ff_len f" "ff_links f \<noteq> 0" "fst v (fst m) = Some (i, u)" "volume (ff_identity f) = volume i"
      unfolding cacheable_def by blast
    with m file_table.stands_for_keys [OF files m(2)] show "\<exists>m f s. keyed m \<and> k = raw_key m \<and> x = facts_value f \<and>
        minimum \<le> ff_len f \<and> ff_links f \<noteq> 0 \<and> map_of stocks (fst m) = Some s \<and> volume (ff_identity f) = volume (ct_identity s) \<and>
        map_of (ct_files s) (snd m) = None"
      by (intro exI [of _ m] exI [of _ f]) (simp add: held fresh_stock_def)
  qed
  then obtain stocks' where loaded: "load_files (tb_files t) stocks = Inr stocks'" "cached_ok stocks'"
    "fst (cached_view stocks') = fst (cached_view stocks)"
    "\<And>m f. snd (cached_view stocks') m = Some f \<longleftrightarrow> snd (cached_view stocks) m = Some f \<or>
         keyed m \<and> (raw_key m, facts_value f) \<in> set (tb_files t) \<and> minimum \<le> ff_len f \<and> ff_links f \<noteq> 0" by blast
  have "fst (cached_view stocks') root = fst v root" for root
    unfolding loaded(3) by (cases "fst v root") (simp_all add: cached_view_def held fresh_stock_def)
  moreover have "snd (cached_view stocks') m = snd v m" for m
  proof -
    have none: "snd (cached_view stocks) m = None"
      by (cases "fst v (fst m)") (simp_all add: cached_view_def held fresh_stock_def)
    have "snd (cached_view stocks') m = Some f \<longleftrightarrow> snd v m = Some f" for f
    proof
      assume "snd (cached_view stocks') m = Some f"
      with none loaded(4) have here: "keyed m" "(raw_key m, facts_value f) \<in> set (tb_files t)" "minimum \<le> ff_len f" "ff_links f \<noteq> 0"
        by simp_all
      then obtain n g where n: "raw_key m = raw_key n" "snd v n = Some g" "facts_value f = facts_value g"
        unfolding file_table.stands_for_mem [OF files] by blast
      with file_table.stands_for_keys [OF files n(2)] raw_key_inj here(1) have "n = m" by auto
      moreover from assms(2) n(2) have "minimum \<le> ff_len g" "ff_links g \<noteq> 0" unfolding cacheable_def by blast+
      with n(3) here(3,4) parse_facts_value_Some have "f = g" by (metis option.inject)
      ultimately show "snd v m = Some f" using n(2) by simp
    next
      assume here: "snd v m = Some f"
      moreover from this assms(2) have "minimum \<le> ff_len f" "ff_links f \<noteq> 0" unfolding cacheable_def by blast+
      ultimately show "snd (cached_view stocks') m = Some f"
        unfolding loaded(4) file_table.stands_for_mem [OF files] using file_table.stands_for_keys [OF files here] by blast
    qed
    then show ?thesis by (cases "snd v m"; cases "snd (cached_view stocks') m") auto
  qed
  ultimately have "cached_view stocks' = v" by (simp add: prod_eq_iff fun_eq_iff)
  moreover have "map_of (tb_meta (put_meta checkpoint t)) schema_key = Some cache_schema"
    "map_of (tb_meta (put_meta checkpoint t)) checkpoint_key = Some checkpoint"
    by (simp_all add: put_meta_def tm_get_insert tm_insert_wf meta schema_key_def checkpoint_key_def)
  moreover have "tb_roots (put_meta checkpoint t) = tb_roots t" "tb_files (put_meta checkpoint t) = tb_files t"
    by (simp_all add: put_meta_def)
  ultimately show ?thesis using stocks(1) loaded(1,2) assms(3,4) by (simp add: cache_load_def result_simps)
qed

section \<open>What the pool holds\<close>

fun unreadable_of :: "share_admission \<Rightarrow> u64" where
  "unreadable_of (share_admission.Admitted how n unreadable) = unreadable"
| "unreadable_of (share_admission.Rejected r) = 0"

definition stock_root :: "stock \<Rightarrow> identity \<times> u64" where
  "stock_root s = (cd_identity (fd_candidate (sk_found s)), unreadable_of (ss_admission (sk_subject s)))"

definition pool_view :: "pool \<Rightarrow> stock_view" where
  "pool_view p = (\<lambda>root. map_option stock_root (map_of (pl_stocks p) root), \<lambda>m. stocked p (fst m) (snd m))"

text \<open>What is in the tables once the journal has been written into them.\<close>

definition journaled :: "journal \<Rightarrow> stock_view \<Rightarrow> stock_view" where
  "journaled j v =
     (\<lambda>root. case map_of (jl_roots j) root of
          Some y \<Rightarrow> Some y
        | None \<Rightarrow> if map_of (jl_cleared j) root = None then fst v root else None,
      \<lambda>m. case map_of (jl_files j) m of
          Some f \<Rightarrow> f
        | None \<Rightarrow> if map_of (jl_cleared j) (fst m) = None then snd v m else None)"

definition journal_wf :: "journal \<Rightarrow> bool" where
  "journal_wf j \<longleftrightarrow> tm_wf (jl_cleared j) \<and> tm_wf (jl_roots j) \<and> tm_wf (jl_files j)"

lemma tm_rev: "tm_wf m \<Longrightarrow> map_of (rev m) k = map_of m k"
  using tm_get_extend [OF tm_wf_Nil, of m k] tm_get_extend_tm [OF tm_wf_Nil, of m k] by (simp split: option.splits)

lemma map_of_tagged: "map_of (map (\<lambda>(rel, x). ((root, rel), g x)) xs) m =
    (if fst m = root then map_option g (map_of xs (snd m)) else None)"
  by (induction xs) (auto simp: prod_eq_iff)

lemma tm_get_extend_tagged:
  assumes "tm_wf m" and "tm_wf xs"
  shows "map_of (tm_extend m (map (\<lambda>(rel, x). ((root, rel), g x)) xs)) k =
    (case if fst k = root then map_option g (map_of xs (snd k)) else None of Some y \<Rightarrow> Some y | None \<Rightarrow> map_of m k)"
  unfolding tm_get_extend [OF assms(1)] rev_map map_of_tagged tm_rev [OF assms(2)] ..

lemma fold_clear_view:
  "fold view_clear cs v = (\<lambda>root. if root \<in> set cs then None else fst v root, \<lambda>m. if fst m \<in> set cs then None else snd v m)"
  by (induction cs arbitrary: v) (auto simp: view_clear_def fun_eq_iff)

lemma fold_root_view:
  "fold view_root rs v = (\<lambda>root. case map_of (rev (map (\<lambda>r. (ir_root r, (ir_identity r, ir_unreadable r))) rs)) root of
     Some y \<Rightarrow> Some y | None \<Rightarrow> fst v root, snd v)"
proof (induction rs arbitrary: v)
  case (Cons r rs)
  show ?case unfolding fold.simps comp_apply Cons
    by (rule prod_eqI) (auto simp: view_root_def fun_eq_iff map_add_def split: option.splits)
qed simp

lemma fold_file_view:
  "fold view_file fs v = (fst v, \<lambda>m. case map_of (rev (map (\<lambda>(root, rel, f). ((root, rel), f)) fs)) m of
     Some f \<Rightarrow> f | None \<Rightarrow> snd v m)"
proof (induction fs arbitrary: v)
  case (Cons x fs)
  show ?case unfolding fold.simps comp_apply Cons
    by (rule prod_eqI; cases x) (auto simp: view_file_def fun_eq_iff map_add_def split: option.splits)
qed simp

text \<open>A commit of the changes of a pool writes its journal.\<close>

lemma view_changed_journaled:
  assumes "journal_wf (pl_journal p)"
  shows "view_changed (fst (pool_changes p)) v = journaled (pl_journal p) v"
proof -
  let ?j = "pl_journal p"
  from assms have wf: "tm_wf (jl_roots ?j)" "tm_wf (jl_files ?j)" by (simp_all add: journal_wf_def)
  have roots: "map (\<lambda>r. (ir_root r, (ir_identity r, ir_unreadable r)))
      (map (\<lambda>(root, i, unreadable). \<lparr>ir_root = root, ir_identity = i, ir_unreadable = unreadable\<rparr>) (jl_roots ?j)) = jl_roots ?j"
    by (induction "jl_roots ?j") (auto simp: case_prod_unfold map_idI)
  have files: "map (\<lambda>(root, rel, f). ((root, rel), f)) (map (\<lambda>((root, rel), f). (root, rel, f)) (jl_files ?j)) = jl_files ?j"
    by (simp add: case_prod_unfold map_idI)
  have "map_of (jl_cleared ?j) root = None \<longleftrightarrow> root \<notin> set (map fst (jl_cleared ?j))" for root
    by (simp add: map_of_eq_None_iff)
  then show ?thesis
    unfolding view_changed_def pool_changes_def Let_def fst_conv inventory_changes.simps fold_file_view fold_root_view
      fold_clear_view roots files tm_rev [OF wf(1)] tm_rev [OF wf(2)] journaled_def
    by (auto simp: fun_eq_iff split: option.splits)
qed

section \<open>The journal follows the pool\<close>

text \<open>The roots the tables had at the start and nobody has asked for yet are pending.\<close>

definition follows :: "stock_view \<Rightarrow> os_path set \<Rightarrow> pool \<Rightarrow> bool" where
  "follows v pending p \<longleftrightarrow> index_exact p \<and> journal_wf (pl_journal p) \<and>
     (\<forall>root. if root \<in> pending
        then map_of (pl_stocks p) root = None \<and> map_of (jl_cleared (pl_journal p)) root = None \<and>
          map_of (jl_roots (pl_journal p)) root = None \<and> (\<forall>rel. map_of (jl_files (pl_journal p)) (root, rel) = None)
        else fst (journaled (pl_journal p) v) root = fst (pool_view p) root \<and>
          (\<forall>rel. snd (journaled (pl_journal p) v) (root, rel) = stocked p root rel))"

lemma followsD:
  "follows v pending p \<Longrightarrow> root \<in> pending \<Longrightarrow>
     map_of (pl_stocks p) root = None \<and> map_of (jl_cleared (pl_journal p)) root = None \<and>
     map_of (jl_roots (pl_journal p)) root = None \<and> (\<forall>rel. map_of (jl_files (pl_journal p)) (root, rel) = None)"
  unfolding follows_def by presburger

lemma follows_start: "cacheable v \<Longrightarrow> follows v (dom (fst v)) pool_empty"
proof -
  assume "cacheable v"
  then have "snd v (root, rel) = None" if "fst v root = None" for root rel
    using that unfolding cacheable_def by (metis fst_conv not_Some_eq option.distinct(1))
  moreover have "pl_journal pool_empty = journal_empty" "pl_stocks pool_empty = []" by (simp_all add: pool_empty_def)
  moreover have "root \<in> dom (fst v) \<longleftrightarrow> fst v root \<noteq> None" for root by (simp only: domIff)
  ultimately show ?thesis using index_exact_empty
    by (simp add: follows_def journal_wf_def journaled_def pool_view_def stocked_def journal_empty_def del: not_None_eq)
qed

lemma follows_all: "follows v {} p \<Longrightarrow> journaled (pl_journal p) v = pool_view p"
  by (rule prod_eqI; rule ext) (auto simp: follows_def pool_view_def)


text \<open>One root at a time: what it takes that an operation on one root keeps the cache following.\<close>

lemma followsI:
  assumes old: "follows v pending p" and "index_exact p'" "journal_wf (pl_journal p')"
    and "\<And>r. r \<noteq> root \<Longrightarrow> map_of (pl_stocks p') r = map_of (pl_stocks p) r"
    and "\<And>r. r \<noteq> root \<Longrightarrow> map_of (jl_cleared (pl_journal p')) r = map_of (jl_cleared (pl_journal p)) r"
    and "\<And>r. r \<noteq> root \<Longrightarrow> map_of (jl_roots (pl_journal p')) r = map_of (jl_roots (pl_journal p)) r"
    and "\<And>r rel. r \<noteq> root \<Longrightarrow> map_of (jl_files (pl_journal p')) (r, rel) = map_of (jl_files (pl_journal p)) (r, rel)"
    and "fst (journaled (pl_journal p') v) root = map_option stock_root (map_of (pl_stocks p') root)"
    and "\<And>rel. snd (journaled (pl_journal p') v) (root, rel) = stocked p' root rel"
  shows "follows v (pending - {root}) p'"
proof -
  have "if r \<in> pending - {root}
        then map_of (pl_stocks p') r = None \<and> map_of (jl_cleared (pl_journal p')) r = None \<and>
          map_of (jl_roots (pl_journal p')) r = None \<and> (\<forall>rel. map_of (jl_files (pl_journal p')) (r, rel) = None)
        else fst (journaled (pl_journal p') v) r = fst (pool_view p') r \<and>
          (\<forall>rel. snd (journaled (pl_journal p') v) (r, rel) = stocked p' r rel)" for r
  proof (cases "r = root")
    case True
    with assms(8,9) show ?thesis by (simp add: pool_view_def)
  next
    case False
    have "stocked p' r rel = stocked p r rel" for rel using assms(4) [OF False] by (simp add: stocked_def)
    moreover have "fst (pool_view p') r = fst (pool_view p) r" using assms(4) [OF False] by (simp add: pool_view_def)
    moreover have "fst (journaled (pl_journal p') v) r = fst (journaled (pl_journal p) v) r"
      "snd (journaled (pl_journal p') v) (r, rel) = snd (journaled (pl_journal p) v) (r, rel)" for rel
      by (simp_all add: journaled_def assms(5-7) [OF False])
    ultimately show ?thesis using old False assms(4-7) [OF False] unfolding follows_def by (cases "r \<in> pending") auto
  qed
  with assms(2,3) show ?thesis unfolding follows_def by blast
qed

lemma replace_cached_gets:
  assumes "journal_wf j" and "tm_wf files"
  shows "journal_wf (replace_cached f unreadable files j)"
    "map_of (jl_cleared (replace_cached f unreadable files j)) r = (if r = fd_path f then Some () else map_of (jl_cleared j) r)"
    "map_of (jl_roots (replace_cached f unreadable files j)) r =
       (if r = fd_path f then Some (cd_identity (fd_candidate f), unreadable) else map_of (jl_roots j) r)"
    "map_of (jl_files (replace_cached f unreadable files j)) (r, rel) =
       (if r = fd_path f then map_option Some (map_of files rel) else map_of (jl_files j) (r, rel))"
proof -
  from assms(1) have wf: "tm_wf (jl_cleared j)" "tm_wf (jl_roots j)" "tm_wf (jl_files j)" by (simp_all add: journal_wf_def)
  have kept: "tm_wf (filter (\<lambda>x. fst (fst x) \<noteq> fd_path f) (jl_files j))" by (rule tm_filter_wf [OF wf(3)])
  have get: "map_of (filter (\<lambda>x. fst (fst x) \<noteq> fd_path f) (jl_files j)) k = (if fst k \<noteq> fd_path f then map_of (jl_files j) k else None)" for k
    by (rule tm_get_filter_key [OF wf(3)])
  show "journal_wf (replace_cached f unreadable files j)"
    by (simp add: journal_wf_def replace_cached_def Let_def tm_insert_wf tm_extend_wf wf kept)
  show "map_of (jl_files (replace_cached f unreadable files j)) (r, rel) =
       (if r = fd_path f then map_option Some (map_of files rel) else map_of (jl_files j) (r, rel))"
    by (simp add: replace_cached_def Let_def tm_get_extend_tagged [OF kept assms(2)] get split: option.split)
qed (use assms(1) in \<open>simp_all add: replace_cached_def Let_def tm_get_insert journal_wf_def\<close>)

lemma put_stock_gets:
  assumes "tm_wf (pl_stocks p)"
  shows "map_of (pl_stocks (put_stock f admission how files p)) r =
     (if r = fd_path f then Some \<lparr>sk_found = f, sk_subject = \<lparr>ss_id = cd_id (fd_candidate f),
        ss_location = cd_location (fd_candidate f), ss_admission = admission\<rparr>, sk_method = how, sk_files = files\<rparr>
      else map_of (pl_stocks p) r)"
    "pl_journal (put_stock f admission how files p) = pl_journal p"
  using assms by (simp_all add: put_stock_def Let_def tm_get_insert)

text \<open>What a stock puts: a target with its admission and files, journaled as a whole.\<close>

lemma restocked_follows:
  assumes old: "follows v pending p" and exact: "index_exact p'" and files: "tm_wf files"
    and stocks: "\<And>r. map_of (pl_stocks p') r = (if r = fd_path f then Some s else map_of (pl_stocks p) r)"
    and s: "sk_found s = f" "unreadable_of (ss_admission (sk_subject s)) = unreadable" "sk_files s = files"
    and journal: "pl_journal p' = replace_cached f unreadable files (pl_journal p)"
  shows "follows v (pending - {fd_path f}) p'"
proof (rule followsI [OF old exact])
  from old have wf: "journal_wf (pl_journal p)" by (simp add: follows_def)
  note gets = replace_cached_gets [OF wf files, of f unreadable]
  show "journal_wf (pl_journal p')" unfolding journal by (rule gets(1))
  show "fst (journaled (pl_journal p') v) (fd_path f) = map_option stock_root (map_of (pl_stocks p') (fd_path f))"
    unfolding journal stocks by (simp add: journaled_def gets stock_root_def s)
  show "snd (journaled (pl_journal p') v) (fd_path f, rel) = stocked p' (fd_path f) rel" for rel
    unfolding journal by (simp add: journaled_def gets stocked_def stocks s split: option.split)
qed (simp_all add: stocks journal replace_cached_gets [OF conjunct1 [OF conjunct2 [OF old [unfolded follows_def]]] files])

lemma pool_stock_follows:
  assumes "follows v pending p"
  shows "follows v (pending - {fd_path f}) (snd (pool_stock admitted f p))"
proof -
  let ?p1 = "case map_of (pl_stocks p) (fd_path f) of
      Some old \<Rightarrow> pool_unindex (fd_path f) (sk_files old) (p\<lparr>pl_stocks := tm_remove (fd_path f) (pl_stocks p)\<rparr>) | None \<Rightarrow> p"
  from assms have exact: "index_exact p" by (simp add: follows_def)
  then have wf: "tm_wf (pl_stocks p)" by (simp add: index_exact_def stocks_wf_def)
  have p1: "tm_wf (pl_stocks ?p1)" "pl_journal ?p1 = pl_journal p"
    "r \<noteq> fd_path f \<Longrightarrow> map_of (pl_stocks ?p1) r = map_of (pl_stocks p) r" for r
    using wf by (auto simp: tm_remove_wf tm_get_remove split: option.splits)
  have put: "follows v (pending - {fd_path f}) p'"
    if "p' = snd (pool_stock admitted f p)" "tm_wf files" "unreadable_of admission = unreadable"
      "p' = put_stock f admission how files (?p1\<lparr>pl_journal := replace_cached f unreadable files (pl_journal ?p1)\<rparr>)"
    for p' admission how files unreadable
  proof (rule restocked_follows [OF assms _ that(2)])
    show "index_exact p'" unfolding that(1) by (rule pool_stock_exact [OF exact])
    show "pl_journal p' = replace_cached f unreadable files (pl_journal p)" unfolding that(4) by (simp add: put_stock_gets p1)
    show "map_of (pl_stocks p') r = (if r = fd_path f
        then Some \<lparr>sk_found = f, sk_subject = \<lparr>ss_id = cd_id (fd_candidate f), ss_location = cd_location (fd_candidate f),
          ss_admission = admission\<rparr>, sk_method = how, sk_files = files\<rparr>
        else map_of (pl_stocks p) r)" for r
      unfolding that(4) using p1 by (simp add: put_stock_gets)
  qed (simp_all add: that(3))
  show ?thesis
  proof (cases admitted)
    case (Inl r)
    show ?thesis by (rule put [of _ "[]" "share_admission.Rejected r" 0 None])
      (simp_all add: pool_stock_def Let_def Inl split: option.split)
  next
    case (Inr a)
    obtain how iv where a: "a = (how, iv)" by fastforce
    show ?thesis
      by (rule put [of _ "tm_extend [] (map snd (iv_files iv))" "share_admission.Admitted how (length (iv_files iv)) (iv_unreadable iv)"
          "iv_unreadable iv" "Some how"])
        (simp_all add: pool_stock_def Let_def Inr a tm_extend_wf split: option.split)
  qed
qed

lemma pool_restore_follows:
  assumes old: "follows v pending p" and root: "fd_path f \<in> pending" and wf: "tm_wf (ct_files cached)"
    and cached: "fst v (ct_root cached) = Some (ct_identity cached, ct_unreadable cached)"
      "\<And>rel. snd v (ct_root cached, rel) = map_of (ct_files cached) rel"
    and restored: "pool_restore admitted f cached p = (True, p')"
  shows "follows v (pending - {fd_path f}) p'"
proof -
  from restored have same: "ct_root cached = fd_path f" "ct_identity cached = cd_identity (fd_candidate f)"
    by (auto simp: pool_restore_def split: if_splits)
  from old have exact: "index_exact p" and jwf: "journal_wf (pl_journal p)" by (simp_all add: follows_def)
  then have pwf: "tm_wf (pl_stocks p)" by (simp add: index_exact_def stocks_wf_def)
  have untouched_root: "map_of (pl_stocks p) (fd_path f) = None" "map_of (jl_cleared (pl_journal p)) (fd_path f) = None"
    "map_of (jl_roots (pl_journal p)) (fd_path f) = None" "map_of (jl_files (pl_journal p)) (fd_path f, rel) = None" for rel
    using followsD [OF old root] by simp_all
  from pool_restore_exact [OF exact untouched_root(1) wf] restored have exact': "index_exact p'" by (metis snd_conv)
  show ?thesis
  proof (cases admitted)
    case (Inl r)
    then have p': "p' = put_stock f (share_admission.Rejected r) None [] (p\<lparr>pl_journal := replace_cached f 0 [] (pl_journal p)\<rparr>)"
      using restored same by (simp add: pool_restore_def)
    show ?thesis
      by (rule restocked_follows [OF old exact' tm_wf_Nil, of f "\<lparr>sk_found = f, sk_subject = \<lparr>ss_id = cd_id (fd_candidate f),
          ss_location = cd_location (fd_candidate f), ss_admission = share_admission.Rejected r\<rparr>, sk_method = None, sk_files = []\<rparr>" 0])
        (simp_all add: p' put_stock_gets pwf)
  next
    case (Inr how)
    then have p': "p' = put_stock f (share_admission.Admitted how (length (ct_files cached)) (ct_unreadable cached)) (Some how)
        (ct_files cached) p"
      using restored same by (simp add: pool_restore_def)
    have journal: "pl_journal p' = pl_journal p" unfolding p' by (simp add: put_stock_gets pwf)
    show ?thesis
    proof (rule followsI [OF old exact'])
      show "fst (journaled (pl_journal p') v) (fd_path f) = map_option stock_root (map_of (pl_stocks p') (fd_path f))"
        using cached(1) untouched_root unfolding journal p' by (simp add: journaled_def put_stock_gets pwf same stock_root_def)
      show "snd (journaled (pl_journal p') v) (fd_path f, rel) = stocked p' (fd_path f) rel" for rel
        using cached(2) untouched_root unfolding journal p' by (simp add: journaled_def stocked_def put_stock_gets pwf same)
    qed (use jwf in \<open>simp_all add: journal\<close>, simp add: p' put_stock_gets pwf)
  qed
qed

lemma pool_forget_follows:
  assumes "follows v pending p"
  shows "follows v (pending - {root}) (pool_forget root p)"
proof -
  from assms have exact: "index_exact p" and jwf: "tm_wf (jl_cleared (pl_journal p))" "tm_wf (jl_roots (pl_journal p))" "tm_wf (jl_files (pl_journal p))"
    by (simp_all add: follows_def journal_wf_def)
  then have pwf: "tm_wf (pl_stocks p)" by (simp add: index_exact_def stocks_wf_def)
  let ?p = "pool_forget root p"
  have stocks: "map_of (pl_stocks ?p) r = (if r = root then None else map_of (pl_stocks p) r)" for r
    by (auto simp: pool_forget_def Let_def tm_get_remove [OF pwf] split: option.split)
  have journal: "pl_journal ?p = forget_cached root (pl_journal p)"
    by (simp add: pool_forget_def Let_def split: option.split)
  have filtered: "map_of (filter (\<lambda>x. fst (fst x) \<noteq> root) (jl_files (pl_journal p))) k =
      (if fst k \<noteq> root then map_of (jl_files (pl_journal p)) k else None)" for k
    by (rule tm_get_filter_key [OF jwf(3)])
  show ?thesis
  proof (rule followsI [OF assms pool_forget_exact [OF exact]])
    show "journal_wf (pl_journal ?p)"
      by (simp add: journal journal_wf_def forget_cached_def jwf tm_insert_wf tm_remove_wf tm_filter_wf)
    show "fst (journaled (pl_journal ?p) v) root = map_option stock_root (map_of (pl_stocks ?p) root)"
      by (simp add: journaled_def journal forget_cached_def tm_get_remove tm_get_insert jwf stocks)
    show "snd (journaled (pl_journal ?p) v) (root, rel) = stocked ?p root rel" for rel
      by (simp add: journaled_def journal forget_cached_def filtered tm_get_insert jwf stocks stocked_def)
  qed (simp_all add: stocks journal forget_cached_def tm_get_insert tm_get_remove jwf filtered)
qed

lemma follows_settled: "follows v pending p \<Longrightarrow> root \<notin> pending \<Longrightarrow>
    fst (journaled (pl_journal p) v) root = map_option stock_root (map_of (pl_stocks p) root) \<and>
    snd (journaled (pl_journal p) v) (root, rel) = stocked p root rel"
  unfolding follows_def pool_view_def fst_conv by meson

lemma pool_note_follows:
  assumes old: "follows v pending p" and settled: "settled_kinds os"
  shows "follows v pending (snd (pool_note os root changed p))"
proof (cases "\<exists>s how. map_of (pl_stocks p) root = Some s \<and> sk_method s = Some how")
  case False
  then have "snd (pool_note os root changed p) = p" by (auto simp: pool_note_def split: option.splits)
  with old show ?thesis by simp
next
  case True
  then obtain s where s: "map_of (pl_stocks p) root = Some s" "sk_method s \<noteq> None" by auto
  let ?n = "note_changes os root changed (sk_files s)" and ?p = "snd (pool_note os root changed p)"
  from old have exact: "index_exact p" and jwf: "journal_wf (pl_journal p)" by (simp_all add: follows_def)
  then have pwf: "tm_wf (pl_stocks p)" and files: "tm_wf (sk_files s)"
    using s(1) by (auto simp: index_exact_def stocks_wf_def)
  from note_changes_facts [OF files settled, of root changed]
  have nwf: "tm_wf (nt_files ?n)" "tm_wf (nt_removed ?n)" "tm_wf (nt_added ?n)"
    and was: "\<And>k. map_of (sk_files s) k = (case map_of (nt_removed ?n) k of Some f \<Rightarrow> Some f | None \<Rightarrow> map_of (nt_files ?n) k)"
    and apart: "\<And>k. map_of (nt_removed ?n) k \<noteq> None \<Longrightarrow> map_of (nt_files ?n) k = None"
    by (auto simp: noting_of_def)
  have journal: "pl_journal ?p = note_cached root (nt_removed ?n) (nt_added ?n) (pl_journal p)"
    using s by (auto simp: pool_note_def Let_def)
  have stocks: "map_of (pl_stocks ?p) r = (if r = root then Some (s\<lparr>sk_files := tm_extend (nt_files ?n) (nt_added ?n)\<rparr>)
      else map_of (pl_stocks p) r)" for r
    using s by (auto simp: pool_note_def Let_def tm_get_insert [OF pwf])
  from jwf have jfwf: "tm_wf (jl_files (pl_journal p))" by (simp add: journal_wf_def)
  have noted: "map_of (jl_files (pl_journal ?p)) (r, rel) =
      (if r = root then (case map_of (nt_added ?n) rel of Some f \<Rightarrow> Some (Some f)
         | None \<Rightarrow> (case map_of (nt_removed ?n) rel of Some f \<Rightarrow> Some None | None \<Rightarrow> map_of (jl_files (pl_journal p)) (root, rel)))
       else map_of (jl_files (pl_journal p)) (r, rel))" for r rel
    by (simp add: journal note_cached_def tm_get_extend_tagged tm_extend_wf jfwf nwf split: option.split)
  have root: "root \<notin> pending" using old s(1) unfolding follows_def by (metis option.distinct(1))
  note before = follows_settled [OF old root]
  have "follows v (pending - {root}) ?p"
  proof (rule followsI [OF old pool_note_exact [OF exact settled]])
    show "journal_wf (pl_journal ?p)"
      using jwf by (simp add: journal journal_wf_def note_cached_def tm_extend_wf)
    show "fst (journaled (pl_journal ?p) v) root = map_option stock_root (map_of (pl_stocks ?p) root)"
    proof -
      have "fst (journaled (pl_journal ?p) v) root = fst (journaled (pl_journal p) v) root"
        by (simp add: journaled_def journal note_cached_def)
      with before s(1) show ?thesis by (simp add: stocks stock_root_def)
    qed
    show "snd (journaled (pl_journal ?p) v) (root, rel) = stocked ?p root rel" for rel
    proof -
      have now: "stocked ?p root rel = (case map_of (nt_added ?n) rel of Some f \<Rightarrow> Some f | None \<Rightarrow> map_of (nt_files ?n) rel)"
        by (simp add: stocked_def stocks tm_get_extend_tm nwf)
      have then': "stocked p root rel = map_of (sk_files s) rel" by (simp add: stocked_def s(1))
      have cleared: "jl_cleared (pl_journal ?p) = jl_cleared (pl_journal p)" by (simp add: journal note_cached_def)
      show ?thesis
      proof (cases "map_of (nt_added ?n) rel")
        case (Some f)
        then show ?thesis unfolding now by (simp add: journaled_def noted)
      next
        case None
        show ?thesis
        proof (cases "map_of (nt_removed ?n) rel")
          case (Some f)
          with None apart [of rel] show ?thesis unfolding now by (simp add: journaled_def noted)
        next
          case clean: None
          have "snd (journaled (pl_journal ?p) v) (root, rel) = snd (journaled (pl_journal p) v) (root, rel)"
            using None clean by (simp add: journaled_def noted cleared)
          with before [of rel] then' was [of rel] None clean show ?thesis unfolding now by simp
        qed
      qed
    qed
  qed (simp_all add: stocks noted, simp_all add: journal note_cached_def)
  with root show ?thesis by simp
qed

section \<open>Sessions\<close>

text \<open>What a watch does to its pool: it starts with what was cached, restores, stocks, notes and forgets
  targets, and goes on after a commit, when the tables are those of the pool.\<close>

inductive pool_session :: "stock_view \<Rightarrow> os_path set \<Rightarrow> pool \<Rightarrow> bool" where
  session_start: "cacheable v \<Longrightarrow> pool_session v (dom (fst v)) pool_empty"
| session_restore: "pool_session v pending p \<Longrightarrow> fd_path f \<in> pending \<Longrightarrow> tm_wf (ct_files cached) \<Longrightarrow>
    fst v (ct_root cached) = Some (ct_identity cached, ct_unreadable cached) \<Longrightarrow>
    (\<And>rel. snd v (ct_root cached, rel) = map_of (ct_files cached) rel) \<Longrightarrow>
    pool_restore admitted f cached p = (True, p') \<Longrightarrow> pool_session v (pending - {fd_path f}) p'"
| session_stock: "pool_session v pending p \<Longrightarrow>
    pool_session v (pending - {fd_path g}) (snd (pool_stock found_files g p))"
| session_note: "pool_session v pending p \<Longrightarrow> settled_kinds os \<Longrightarrow>
    pool_session v pending (snd (pool_note os root changed p))"
| session_forget: "pool_session v pending p \<Longrightarrow> pool_session v (pending - {root}) (pool_forget root p)"
| session_commit: "pool_session v {} p \<Longrightarrow> pool_session (pool_view p) {} (snd (pool_changes p))"

lemma follows_commit:
  assumes "follows v {} p"
  shows "follows (pool_view p) {} (snd (pool_changes p))"
proof -
  let ?p = "snd (pool_changes p)"
  have p: "?p = p\<lparr>pl_journal := journal_empty\<rparr>" by (simp add: pool_changes_def Let_def)
  have "stocked ?p = stocked p" "fst (pool_view ?p) = fst (pool_view p)"
    by (simp_all add: p stocked_def pool_view_def fun_eq_iff)
  moreover have "journaled journal_empty w = w" for w by (simp add: journaled_def journal_empty_def)
  moreover have "journal_wf journal_empty" by (simp add: journal_wf_def journal_empty_def)
  moreover have "index_exact ?p" using assms by (simp add: p index_exact_journal follows_def)
  ultimately show ?thesis by (simp add: follows_def p pool_view_def)
qed

lemma session_follows: "pool_session v pending p \<Longrightarrow> follows v pending p"
proof (induction rule: pool_session.induct)
  case (session_restore v pending p f cached admitted p')
  from pool_restore_follows [OF session_restore.IH session_restore.hyps(2-6)] show ?case .
qed (simp_all add: follows_start pool_stock_follows pool_note_follows pool_forget_follows follows_commit)

text \<open>Property C24. The cache keeps the pool: when all roots of the cache have been restored, stocked or
  forgotten, whatever was noted since, a commit that succeeds makes the tables such that the next load
  finds exactly the pool of that time, every target with its identity and every file with its facts, and a
  commit that fails leaves the tables as they were.\<close>

theorem committed_pool_is_loaded:
  assumes "pool_session v {} p" and "tables_say t v"
    and "cacheable (pool_view p)" and "changes_ok (fst (pool_changes p))" and "checkpoint \<noteq> 0" "checkpoint \<noteq> - 1"
  shows "(\<exists>t' stocks. cache_commit None checkpoint (fst (pool_changes p)) t = (Inr (), t') \<and>
      cache_load None t' = Inr (Some \<lparr>cp_checkpoint = checkpoint, cp_stocks = stocks\<rparr>) \<and>
      cached_ok stocks \<and> cached_view stocks = pool_view p \<and> tables_say t' (pool_view p)) \<and>
    cache_commit (Some e) checkpoint (fst (pool_changes p)) t = (Inl e, t)"
proof -
  from session_follows [OF assms(1)] have follows: "follows v {} p" .
  then have "journal_wf (pl_journal p)" by (simp add: follows_def)
  from view_changed_journaled [OF this] follows_all [OF follows]
  have view: "view_changed (fst (pool_changes p)) v = pool_view p" by simp
  from commit_says [OF assms(2,4-6)] obtain t' where
    commit: "cache_commit None checkpoint (fst (pool_changes p)) t = (Inr (), put_meta checkpoint t')"
    and says: "tables_say t' (pool_view p)" unfolding view by blast
  from load_says [OF says assms(3,5,6)] commit put_meta_says [OF says] assms(5,6)
  show ?thesis by (auto simp: cache_commit_def)
qed

end
