(* ===== verification/Share_Prints.thy ===== *)
theory Share_Prints
  imports Sharing_Guarantees Inventories
begin

text \<open>
  Fingerprints of files (\<open>opened\<close>, \<open>copied\<close>, \<open>sample\<close>, \<open>full\<close> and \<open>refine\<close> of
  \<open>crates/cli/src/dedupe.rs\<close>): a sample reads the first and the last block of a file, the full
  print reads all of it, and each splits the groups of files that may be identical.
\<close>

section \<open>Reading\<close>

definition sample_len :: u64 where
  "sample_len = 4096"

text \<open>An opened file: its identity, its bytes, which reads of it fail and where a seek ends.\<close>

record print_file =
  pf_identity :: "os_error + identity"
  pf_bytes :: bytes
  pf_fails :: "nat \<Rightarrow> nat \<Rightarrow> bool"
  pf_seek :: "u64 \<Rightarrow> os_error + u64"

type_synonym print_os = "os_path \<Rightarrow> os_error + print_file"

definition opened :: "print_os \<Rightarrow> os_path \<Rightarrow> identity \<Rightarrow> print_file option" where
  "opened os path i =
     (case os path of
        Inl _ \<Rightarrow> None
      | Inr f \<Rightarrow> (case pf_identity f of Inr j \<Rightarrow> if j = i then Some f else None | Inl _ \<Rightarrow> None))"

definition read_at :: "print_file \<Rightarrow> nat \<Rightarrow> nat \<Rightarrow> bytes option" where
  "read_at f at n = (if pf_fails f at n then None else Some (take n (drop at (pf_bytes f))))"

definition copied :: "print_file \<Rightarrow> nat \<Rightarrow> nat \<Rightarrow> bytes option" where
  "copied f at n =
     (case read_at f at n of None \<Rightarrow> None | Some bs \<Rightarrow> if length bs = n then Some bs else None)"

definition sample_tail :: "print_file \<Rightarrow> u64 \<Rightarrow> bytes option" where
  "sample_tail f len =
     (if sample_len < len then
        (let tail = len - sample_len in
         case pf_seek f tail of
           Inr at \<Rightarrow> if at = tail then copied f (unat at) (unat sample_len) else None
         | Inl _ \<Rightarrow> None)
      else Some [])"

definition sample_print ::
  "(bytes \<Rightarrow> bytes) \<Rightarrow> print_os \<Rightarrow> os_path \<Rightarrow> identity \<Rightarrow> u64 \<Rightarrow> fingerprint option" where
  "sample_print sha os path i len =
     (case opened os path i of
        None \<Rightarrow> None
      | Some f \<Rightarrow>
          (case copied f 0 (unat (min len sample_len)) of
             None \<Rightarrow> None
           | Some head \<Rightarrow>
               (case sample_tail f len of None \<Rightarrow> None | Some tail \<Rightarrow> Some (sha (le64 len @ head @ tail)))))"

definition full_print ::
  "(bytes \<Rightarrow> bytes) \<Rightarrow> print_os \<Rightarrow> os_path \<Rightarrow> identity \<Rightarrow> u64 \<Rightarrow> fingerprint option" where
  "full_print sha os path i len =
     (case opened os path i of
        None \<Rightarrow> None
      | Some f \<Rightarrow>
          (case copied f 0 (unat len) of
             None \<Rightarrow> None
           | Some whole \<Rightarrow> if read_at f (unat len) 1 = Some [] then Some (sha (le64 len @ whole)) else None))"

definition refine :: "(member \<Rightarrow> fingerprint option) \<Rightarrow> group list \<Rightarrow> group list" where
  "refine print gs = concat (map (\<lambda>g. split_group g (map print (gr_members g))) gs)"

section \<open>What a print tells\<close>

text \<open>The file was the one expected, and reading it gave exactly its bytes.\<close>

definition reads_as :: "print_os \<Rightarrow> os_path \<Rightarrow> identity \<Rightarrow> u64 \<Rightarrow> bytes \<Rightarrow> bool" where
  "reads_as os path i len bs \<longleftrightarrow>
     (\<exists>f. os path = Inr f \<and> pf_identity f = Inr i \<and> pf_bytes f = bs \<and> length bs = unat len \<and>
        \<not> pf_fails f 0 (unat len) \<and> \<not> pf_fails f (unat len) 1)"

lemma opened_Some: "opened os path i = Some f \<longleftrightarrow> os path = Inr f \<and> pf_identity f = Inr i"
  by (auto simp: opened_def split: sum.splits)

lemma copied_Some: "copied f at n = Some bs \<longleftrightarrow>
    \<not> pf_fails f at n \<and> bs = take n (drop at (pf_bytes f)) \<and> length bs = n"
  by (auto simp: copied_def read_at_def)

lemma whole_file:
  "length (take n bs) = n \<and> take 1 (drop n bs) = [] \<longleftrightarrow> length bs = n"
  by auto

lemma full_print_opened:
  assumes "opened os path i = Some f"
  shows "full_print sha os path i len = Some p \<longleftrightarrow>
     \<not> pf_fails f 0 (unat len) \<and> \<not> pf_fails f (unat len) 1 \<and> length (pf_bytes f) = unat len \<and>
     p = sha (le64 len @ pf_bytes f)"
proof -
  have "full_print sha os path i len = Some p \<longleftrightarrow>
      \<not> pf_fails f 0 (unat len) \<and> \<not> pf_fails f (unat len) 1 \<and>
      (length (take (unat len) (pf_bytes f)) = unat len \<and> take 1 (drop (unat len) (pf_bytes f)) = []) \<and>
      p = sha (le64 len @ take (unat len) (pf_bytes f))"
    using assms by (auto simp: full_print_def copied_def read_at_def split: if_splits)
  then show ?thesis unfolding whole_file by auto
qed

lemma full_print_Some:
  "full_print sha os path i len = Some p \<longleftrightarrow> (\<exists>bs. reads_as os path i len bs \<and> p = sha (le64 len @ bs))"
proof (cases "opened os path i")
  case None
  then show ?thesis by (auto simp: full_print_def reads_as_def opened_def)
next
  case (Some f)
  then have "os path = Inr f" "pf_identity f = Inr i" by (simp_all add: opened_Some)
  then show ?thesis unfolding full_print_opened [OF Some] reads_as_def by auto
qed

lemma reads_as_unique: "reads_as os path i len bs \<Longrightarrow> reads_as os path i len bs' \<Longrightarrow> bs = bs'"
  by (auto simp: reads_as_def)

lemma refine_mem: "h \<in> set (refine print gs) \<longleftrightarrow>
    (\<exists>g \<in> set gs. gr_len h = gr_len g \<and> 1 < families (gr_members h) \<and>
       (\<exists>p. gr_members h = filter (\<lambda>m. print m = Some p) (gr_members g)))"
proof -
  have "map fst (filter (\<lambda>(_, q). q = Some p) (zip ms (map print ms))) = filter (\<lambda>m. print m = Some p) ms" for p ms
    by (induction ms) simp_all
  then show ?thesis by (auto simp: refine_def split_exactly)
qed

end
