(* ===== verification/Share_Runs.thy ===== *)
theory Share_Runs
  imports Share_Prints Pools Prune_Runs
begin

text \<open>
  Sharing the files of the targets that were found (\<open>crates/cli/src/dedupe.rs\<close> and
  \<open>dedupe/capability.rs\<close>): targets are admitted into a pool, the files of equal content are paired,
  and every pair is settled under the lease of its target. Other processes act between the steps.
\<close>

section \<open>The world\<close>

record share_request =
  rq_keeper :: os_path
  rq_keeper_identity :: identity
  rq_duplicate :: os_path
  rq_duplicate_identity :: identity
  rq_len :: u64

text \<open>The members of a group are read in parallel, each with its own answers. A share works in the
  opened directory of the given identity, with a path below it.\<close>

datatype reading = Sampling | Confirming

record 'd sharer =
  sh_machine :: "'d machine"
  sh_stock :: "'d \<Rightarrow> stock_os"
  sh_filesystem :: "'d \<Rightarrow> os_path \<Rightarrow> os_error + filesystem"
  sh_open :: "reading \<Rightarrow> nat \<Rightarrow> 'd \<Rightarrow> print_os"
  sh_extras :: "nat \<Rightarrow> 'd \<Rightarrow> os_path \<Rightarrow> identity \<Rightarrow> extras"
  sh_share :: "identity \<Rightarrow> share_method \<Rightarrow> share_request \<Rightarrow> 'd \<Rightarrow> (share_failure + unit) \<times> 'd"

record share_terms =
  sm_excludes :: "location list"
  sm_protection :: protection
  sm_owners :: owners

section \<open>Admission\<close>

definition share_capability :: "'d sharer \<Rightarrow> 'd world \<Rightarrow> os_path \<Rightarrow> rejection + capability" where
  "share_capability sh w path =
     result_bind (os_result (mc_host (sh_machine sh)) path FilesystemType (sh_filesystem sh (wd_disk w) path))
       (\<lambda>fs. Inr (capability_of fs))"

definition share_survey :: "'d sharer \<Rightarrow> share_terms \<Rightarrow> os_path \<Rightarrow> 'd world \<Rightarrow> rejection + survey" where
  "share_survey sh t path w =
     (let mc = sh_machine sh in
      owners_survey (owning mc w) (mc_surveying mc (wd_disk w)) (sm_owners t) path (tree_at mc w path))"

definition share_judged ::
  "'d sharer \<Rightarrow> share_terms \<Rightarrow> Applying.found \<Rightarrow> observation \<Rightarrow> contention + hold \<Rightarrow> 'd world
   \<Rightarrow> rejection + share_clearance" where
  "share_judged sh t f ob h w =
     result_bind (share_capability sh w (ob_path ob)) (\<lambda>cap.
       clear_share (mc_sha (sh_machine sh)) (mc_fold (sh_machine sh))
         (observation_site ob (sm_protection t) (sm_excludes t))
         \<lparr>sc_recorded = fd_candidate f, sc_identity = ob_found_identity ob, sc_liveness = hold_liveness h,
          sc_capability = cap\<rparr>)"

definition admit ::
  "'d sharer \<Rightarrow> share_terms \<Rightarrow> Applying.found \<Rightarrow> 'd world \<Rightarrow> (rejection + share_method) \<times> 'd world" where
  "admit sh t f w =
     (let mc = sh_machine sh; w1 = meanwhile mc w in
      case observe (observing mc w) (fd_path f) of
        Inl r \<Rightarrow> (Inl r, w1)
      | Inr ob \<Rightarrow>
          (case share_survey sh t (ob_path ob) w1 of
             Inl r \<Rightarrow> (Inl r, w1)
           | Inr sv \<Rightarrow>
               (case take_hold mc DryRun (sv_locks sv) (meanwhile mc w1) of
                  (h, w2) \<Rightarrow>
                    (let w3 = meanwhile mc w2 in
                     (result_bind (share_judged sh t f ob h w3) (\<lambda>c. Inr (sl_method c)), w3)))))"

section \<open>Authorizations\<close>

record shareable =
  se_clearance :: share_clearance
  se_lease :: lease

definition shareable_new ::
  "'d sharer \<Rightarrow> share_clearance \<Rightarrow> lease \<Rightarrow> os_path \<Rightarrow> 'd world \<Rightarrow> rejection + shareable" where
  "shareable_new sh c l path w =
     (let mc = sh_machine sh in
      result_bind (locate (mc_host mc) path) (\<lambda>location.
        if location \<noteq> sl_location c then Inl (Stale (sl_location c) CanonicalPath)
        else (case mc_outer mc (wd_disk w) path of
          (outer, es) \<Rightarrow>
            (case open_root (mc_removing mc (wd_disk w)) outer path (sl_identity c) es of
               Inl e \<Rightarrow> Inl (walk_rejection (mc_host mc) e (sl_location c) fs_op.Open)
             | Inr _ \<Rightarrow> Inr \<lparr>se_clearance = c, se_lease = l\<rparr>))))"

definition shareable_share ::
  "'d sharer \<Rightarrow> shareable \<Rightarrow> share_request \<Rightarrow> 'd world \<Rightarrow> (share_failure + unit) \<times> 'd world" where
  "shareable_share sh s rq w =
     (case sh_share sh (sl_identity (se_clearance s)) (sl_method (se_clearance s)) rq (wd_disk w) of
        (r, d) \<Rightarrow> (r, w\<lparr>wd_disk := d\<rparr>))"

text \<open>The lease is taken before the judgement, and dropped when the target is refused.\<close>

definition authorize_held ::
  "'d sharer \<Rightarrow> share_terms \<Rightarrow> Applying.found \<Rightarrow> observation \<Rightarrow> contention + hold \<Rightarrow> 'd world
   \<Rightarrow> rejection + shareable" where
  "authorize_held sh t f ob h w =
     result_bind (share_judged sh t f ob h w) (\<lambda>c.
       case h of
         Inl contended \<Rightarrow> Inl (contention_rejection contended (ob_location ob))
       | Inr (Leased l) \<Rightarrow> shareable_new sh c l (ob_path ob) (meanwhile (sh_machine sh) w)
       | Inr Probed \<Rightarrow> shareable_new sh c [] (ob_path ob) (meanwhile (sh_machine sh) w))"

definition hold_target ::
  "'d sharer \<Rightarrow> share_terms \<Rightarrow> Applying.found \<Rightarrow> 'd world \<Rightarrow> (rejection + shareable) \<times> 'd world" where
  "hold_target sh t f w =
     (let mc = sh_machine sh; w1 = meanwhile mc w in
      case observe (observing mc w) (fd_path f) of
        Inl r \<Rightarrow> (Inl r, w1)
      | Inr ob \<Rightarrow>
          (case share_survey sh t (ob_path ob) w1 of
             Inl r \<Rightarrow> (Inl r, w1)
           | Inr sv \<Rightarrow>
               (case take_hold mc Execute (sv_locks sv) (meanwhile mc w1) of
                  (h, w2) \<Rightarrow>
                    (let w3 = meanwhile mc w2; w4 = meanwhile mc w3 in
                     case authorize_held sh t f ob h w3 of
                       Inl r \<Rightarrow> (Inl r, prune_drop h w4)
                     | Inr s \<Rightarrow> (Inr s, w4)))))"

section \<open>Settling a pair\<close>

datatype pair_status =
    WouldShare | Shared | AlreadyShared | Refused refusal | Withheld rejection
  | Overtaken share_failure | Failed share_failure

definition shared_status :: "share_failure + unit \<Rightarrow> pair_status" where
  "shared_status r =
     (case r of Inr _ \<Rightarrow> Shared | Inl e \<Rightarrow> if overtaken e then Overtaken e else Failed e)"

definition pair_request :: "item list \<Rightarrow> pair_plan \<Rightarrow> share_request" where
  "pair_request items p =
     \<lparr>rq_keeper = it_path (items ! fst (pp_keeper p)),
      rq_keeper_identity = fr_identity (snd (pp_keeper p)),
      rq_duplicate = it_relative (items ! fst (pp_duplicate p)),
      rq_duplicate_identity = fr_identity (snd (pp_duplicate p)),
      rq_len = pp_len p\<rparr>"

text \<open>The target that is held, if any, by its path: the pool has one record for each path, so the
  same record is the same path.\<close>

type_synonym held_target = "(os_path \<times> (rejection + shareable)) option"

fun drop_target :: "held_target \<Rightarrow> 'd world \<Rightarrow> 'd world" where
  "drop_target (Some (path, Inr s)) w = release_lease (se_lease s) w"
| "drop_target kept w = w"

definition held_for ::
  "'d sharer \<Rightarrow> share_terms \<Rightarrow> Applying.found \<Rightarrow> held_target \<Rightarrow> 'd world
   \<Rightarrow> (rejection + shareable) \<times> 'd world" where
  "held_for sh t f kept w =
     (case kept of
        Some (path, s) \<Rightarrow> if path = fd_path f then (s, w) else hold_target sh t f (drop_target kept w)
      | None \<Rightarrow> hold_target sh t f w)"

definition settle_share ::
  "'d sharer \<Rightarrow> share_terms \<Rightarrow> mode \<Rightarrow> item list \<Rightarrow> pair_plan \<Rightarrow> held_target \<times> 'd world
   \<Rightarrow> pair_status \<times> held_target \<times> 'd world" where
  "settle_share sh t m items p state =
     (case state of (kept, w) \<Rightarrow>
       (case (pp_pairing p, m) of
          (pairing.AlreadyShared, _) \<Rightarrow> (AlreadyShared, kept, w)
        | (pairing.Refused r, _) \<Rightarrow> (Refused r, kept, w)
        | (pairing.Share, DryRun) \<Rightarrow> (WouldShare, kept, w)
        | (pairing.Share, Execute) \<Rightarrow>
            (let f = it_found (items ! fst (pp_duplicate p)) in
             case held_for sh t f kept w of
               (Inl r, w1) \<Rightarrow> (Withheld r, Some (fd_path f, Inl r), w1)
             | (Inr s, w1) \<Rightarrow>
                 (case shareable_share sh s (pair_request items p) (meanwhile (sh_machine sh) w1) of
                    (r, w2) \<Rightarrow> (shared_status r, Some (fd_path f, Inr s), w2)))))"

section \<open>A run\<close>

record share_totals =
  sl_shared :: file_tally
  sl_already_shared :: file_tally
  sl_refused :: file_tally
  sl_withheld :: file_tally
  sl_overtaken :: file_tally
  sl_failed :: file_tally

definition share_totals_zero :: share_totals where
  "share_totals_zero =
     \<lparr>sl_shared = file_tally_zero, sl_already_shared = file_tally_zero, sl_refused = file_tally_zero,
      sl_withheld = file_tally_zero, sl_overtaken = file_tally_zero, sl_failed = file_tally_zero\<rparr>"

fun share_totals_add :: "pair_status \<Rightarrow> u64 \<Rightarrow> share_totals \<Rightarrow> share_totals" where
  "share_totals_add WouldShare len x = x\<lparr>sl_shared := file_tally_add len (sl_shared x)\<rparr>"
| "share_totals_add Shared len x = x\<lparr>sl_shared := file_tally_add len (sl_shared x)\<rparr>"
| "share_totals_add AlreadyShared len x = x\<lparr>sl_already_shared := file_tally_add len (sl_already_shared x)\<rparr>"
| "share_totals_add (Refused r) len x = x\<lparr>sl_refused := file_tally_add len (sl_refused x)\<rparr>"
| "share_totals_add (Withheld r) len x = x\<lparr>sl_withheld := file_tally_add len (sl_withheld x)\<rparr>"
| "share_totals_add (Overtaken e) len x = x\<lparr>sl_overtaken := file_tally_add len (sl_overtaken x)\<rparr>"
| "share_totals_add (Failed e) len x = x\<lparr>sl_failed := file_tally_add len (sl_failed x)\<rparr>"

record pair_outcome =
  po_keeper :: location
  po_duplicate :: location
  po_len :: u64
  po_status :: pair_status

record dedupe_run =
  dr_mode :: mode
  dr_subjects :: "share_subject list"
  dr_totals :: share_totals
  dr_observed_freed :: "byte_size option"
  dr_pairs :: "pair_outcome list"

definition dedupe_failed :: "dedupe_run \<Rightarrow> bool" where
  "dedupe_failed r \<longleftrightarrow> 0 < tl_files (sl_failed (dr_totals r))"

definition dedupe_shared :: "dedupe_run \<Rightarrow> byte_size" where
  "dedupe_shared r = tl_bytes (sl_shared (dr_totals r))"

definition failed_pair :: "pair_outcome \<Rightarrow> bool" where
  "failed_pair o' \<longleftrightarrow> (case po_status o' of Failed e \<Rightarrow> True | _ \<Rightarrow> False)"

definition dedupe_summarized :: "dedupe_run \<Rightarrow> dedupe_run" where
  "dedupe_summarized r = r\<lparr>dr_pairs := filter failed_pair (dr_pairs r)\<rparr>"

definition pair_outcome_of :: "pair_plan \<Rightarrow> pair_status \<Rightarrow> pair_outcome" where
  "pair_outcome_of p s =
     \<lparr>po_keeper = fr_location (snd (pp_keeper p)), po_duplicate = fr_location (snd (pp_duplicate p)),
      po_len = pp_len p, po_status = s\<rparr>"

fun settle_pairs ::
  "'d sharer \<Rightarrow> share_terms \<Rightarrow> mode \<Rightarrow> item list \<Rightarrow> pair_plan list
   \<Rightarrow> pair_outcome list \<times> share_totals \<times> held_target \<times> 'd world
   \<Rightarrow> pair_outcome list \<times> share_totals \<times> held_target \<times> 'd world" where
  "settle_pairs sh t m items [] state = state"
| "settle_pairs sh t m items (p # ps) (outcomes, totals, state) =
     (case settle_share sh t m items p state of
        (s, state') \<Rightarrow>
          settle_pairs sh t m items ps
            (outcomes @ [pair_outcome_of p s], share_totals_add s (pp_len p) totals, state'))"

definition share_reclamation :: "share_totals \<Rightarrow> reclamation" where
  "share_reclamation x =
     (if 0 < tl_files (sl_shared x) \<or> 0 < tl_files (sl_failed x) then Unattributable else Unchanged)"

section \<open>The pairs of a pool\<close>

definition printed ::
  "((bytes \<Rightarrow> bytes) \<Rightarrow> print_os \<Rightarrow> os_path \<Rightarrow> identity \<Rightarrow> u64 \<Rightarrow> fingerprint option)
   \<Rightarrow> 'd sharer \<Rightarrow> reading \<Rightarrow> item list \<Rightarrow> 'd world \<Rightarrow> member \<Rightarrow> fingerprint option" where
  "printed print sh stage items w m =
     print (mc_sha (sh_machine sh)) (sh_open sh stage (fst m) (wd_disk w)) (it_path (items ! fst m))
       (fr_identity (snd m)) (fr_len (snd m))"

definition observed_member :: "'d sharer \<Rightarrow> item list \<Rightarrow> 'd world \<Rightarrow> member \<Rightarrow> member" where
  "observed_member sh items w m =
     (fst m, (snd m)\<lparr>fr_extras :=
        (case fr_method (snd m) of
           CloneAndSwap \<Rightarrow> sh_extras sh (fst m) (wd_disk w) (it_path (items ! fst m)) (fr_identity (snd m))
         | DedupeRange \<Rightarrow> extras.Unobserved)\<rparr>)"

definition observed_group :: "'d sharer \<Rightarrow> item list \<Rightarrow> 'd world \<Rightarrow> group \<Rightarrow> group" where
  "observed_group sh items w g = g\<lparr>gr_members := map (observed_member sh items w) (gr_members g)\<rparr>"

definition target_location :: "item list \<Rightarrow> pair_plan \<Rightarrow> location" where
  "target_location items p = cd_location (fd_candidate (it_found (items ! fst (pp_duplicate p))))"

definition confirmed_groups :: "'d sharer \<Rightarrow> focus \<Rightarrow> item list \<Rightarrow> 'd world \<Rightarrow> group list" where
  "confirmed_groups sh focus items w =
     refine (printed full_print sh Confirming items (meanwhile (sh_machine sh) w))
       (refine (printed sample_print sh Sampling items w)
          (filter (focus_group focus) (groups (map it_record items))))"

definition planned_pairs :: "'d sharer \<Rightarrow> focus \<Rightarrow> item list \<Rightarrow> 'd world \<Rightarrow> pair_plan list" where
  "planned_pairs sh focus items w =
     (let mc = sh_machine sh in
      sort_key (target_location items)
        (plan (map (observed_group sh items (meanwhile mc (meanwhile mc w))) (confirmed_groups sh focus items w))))"

definition pool_share ::
  "'d sharer \<Rightarrow> share_terms \<Rightarrow> focus \<Rightarrow> mode \<Rightarrow> pool \<Rightarrow> 'd world \<Rightarrow> dedupe_run \<times> 'd world" where
  "pool_share sh t focus m p w =
     (let mc = sh_machine sh;
          items = pool_items (mc_host mc) p focus;
          w1 = meanwhile mc (meanwhile mc (meanwhile mc w)) in
      case settle_pairs sh t m items (planned_pairs sh focus items w) ([], share_totals_zero, None, w1) of
        (outcomes, totals, kept, w2) \<Rightarrow>
          (\<lparr>dr_mode = m, dr_subjects = focus_subjects p focus, dr_totals = totals,
            dr_observed_freed =
              (case m of DryRun \<Rightarrow> None | Execute \<Rightarrow> observed (share_reclamation totals)),
            dr_pairs = outcomes\<rparr>,
           drop_target kept w2))"

fun stock_targets ::
  "'d sharer \<Rightarrow> share_terms \<Rightarrow> Applying.found list \<Rightarrow> pool \<times> 'd world \<Rightarrow> pool \<times> 'd world" where
  "stock_targets sh t [] state = state"
| "stock_targets sh t (f # fs) (p, w) =
     (case admit sh t f w of
        (admitted, w1) \<Rightarrow>
          (let w2 = meanwhile (sh_machine sh) w1 in
           stock_targets sh t fs
             (snd (pool_stock
                (result_bind admitted (\<lambda>method.
                   result_bind (inventory_of (sh_stock sh (wd_disk w2)) (fd_path f)) (\<lambda>iv. Inr (method, iv))))
                f p), meanwhile (sh_machine sh) w2)))"

definition dedupe_found ::
  "'d sharer \<Rightarrow> share_terms \<Rightarrow> mode \<Rightarrow> Applying.found list \<Rightarrow> 'd world \<Rightarrow> dedupe_run \<times> 'd world" where
  "dedupe_found sh t m fs w =
     (case stock_targets sh t fs (pool_empty, w) of
        (p, w') \<Rightarrow> pool_share sh t Everything_Shared m p w')"

end
