(* ===== verification/Share_Runs_Facts.thy ===== *)
theory Share_Runs_Facts
  imports Share_Runs Prune_Runs_Facts
begin

text \<open>
  Facts on sharing runs: which pairs are planned, under which authorization the disk is touched, and
  what is held when.
\<close>

section \<open>Pairs that are planned\<close>

lemma observed_member_simps [simp]:
  "fst (observed_member sh items w m) = fst m"
  "fr_identity (snd (observed_member sh items w m)) = fr_identity (snd m)"
  "fr_len (snd (observed_member sh items w m)) = fr_len (snd m)"
  "fr_location (snd (observed_member sh items w m)) = fr_location (snd m)"
  "fr_method (snd (observed_member sh items w m)) = fr_method (snd m)"
  by (simp_all add: observed_member_def)

lemma groups_members:
  assumes "g \<in> set (groups items)" and "m \<in> set (gr_members g)"
  shows "fst m < length items" "snd m = items ! fst m" "fr_len (snd m) = gr_len g" "minimum \<le> gr_len g"
  using assms by (auto simp: groups_mem size_key_def in_set_enumerate_eq)

text \<open>A member of a confirmed group, with what reading all of it gave.\<close>

definition read_whole :: "'d sharer \<Rightarrow> item list \<Rightarrow> 'd world \<Rightarrow> nat \<Rightarrow> bytes \<Rightarrow> bool" where
  "read_whole sh items w i bs \<longleftrightarrow>
     reads_as (sh_open sh Confirming i (wd_disk w)) (it_path (items ! i)) (fr_identity (it_record (items ! i)))
       (fr_len (it_record (items ! i))) bs"

lemma confirmed_members:
  assumes "g \<in> set (confirmed_groups sh focus items w)"
  shows "minimum \<le> gr_len g \<and> (\<exists>p. \<forall>m \<in> set (gr_members g).
       fst m < length items \<and> snd m = it_record (items ! fst m) \<and> fr_len (snd m) = gr_len g \<and>
       (\<exists>bs. read_whole sh items (meanwhile (sh_machine sh) w) (fst m) bs \<and>
         mc_sha (sh_machine sh) (le64 (gr_len g) @ bs) = p))"
proof -
  let ?w = "meanwhile (sh_machine sh) w"
  from assms obtain s p where s: "s \<in> set (refine (printed sample_print sh Sampling items w)
      (filter (focus_group focus) (groups (map it_record items))))"
    "gr_len g = gr_len s"
    "gr_members g = filter (\<lambda>m. printed full_print sh Confirming items ?w m = Some p) (gr_members s)"
    unfolding confirmed_groups_def refine_mem [of g] by auto
  from s(1) obtain t q where t: "t \<in> set (groups (map it_record items))" "gr_len s = gr_len t"
    "gr_members s = filter (\<lambda>m. printed sample_print sh Sampling items w m = Some q) (gr_members t)"
    unfolding refine_mem by auto
  have member: "fst m < length items \<and> snd m = it_record (items ! fst m) \<and> fr_len (snd m) = gr_len g \<and>
       (\<exists>bs. read_whole sh items ?w (fst m) bs \<and> mc_sha (sh_machine sh) (le64 (gr_len g) @ bs) = p)"
    if "m \<in> set (gr_members g)" for m
  proof -
    from that s(3) t(3) have m: "m \<in> set (gr_members t)" "printed full_print sh Confirming items ?w m = Some p" by auto
    note t_m = groups_members [OF t(1) m(1)]
    then have here: "snd m = it_record (items ! fst m)" by simp
    from m(2) obtain bs where "reads_as (sh_open sh Confirming (fst m) (wd_disk ?w)) (it_path (items ! fst m))
        (fr_identity (snd m)) (fr_len (snd m)) bs" "p = mc_sha (sh_machine sh) (le64 (fr_len (snd m)) @ bs)"
      by (auto simp: printed_def full_print_Some)
    with t_m here s(2) t(2) show ?thesis unfolding read_whole_def by auto
  qed
  have "minimum \<le> gr_len g"
    using t s(2) by (auto simp: groups_mem)
  with member show ?thesis by blast
qed

text \<open>What a planned pair is about.\<close>

definition pair_of_items :: "'d sharer \<Rightarrow> item list \<Rightarrow> 'd world \<Rightarrow> pair_plan \<Rightarrow> bool" where
  "pair_of_items sh items w p \<longleftrightarrow>
     (\<exists>k d bs bs'. k < length items \<and> d < length items \<and> k \<noteq> d \<and> fst (pp_keeper p) = k \<and> fst (pp_duplicate p) = d \<and>
        fr_identity (snd (pp_keeper p)) = fr_identity (it_record (items ! k)) \<and>
        fr_identity (snd (pp_duplicate p)) = fr_identity (it_record (items ! d)) \<and>
        fr_method (snd (pp_duplicate p)) = fr_method (it_record (items ! d)) \<and>
        fr_len (it_record (items ! k)) = pp_len p \<and> fr_len (it_record (items ! d)) = pp_len p \<and> minimum \<le> pp_len p \<and>
        read_whole sh items w k bs \<and> read_whole sh items w d bs' \<and>
        mc_sha (sh_machine sh) (le64 (pp_len p) @ bs) = mc_sha (sh_machine sh) (le64 (pp_len p) @ bs'))"

lemma planned_pair:
  assumes "p \<in> set (planned_pairs sh focus items w)"
  shows "pair_of_items sh items (meanwhile (sh_machine sh) w) p \<and>
    pp_pairing p = pair (snd (pp_keeper p)) (snd (pp_duplicate p))"
proof -
  let ?mc = "sh_machine sh"
  let ?see = "observed_group sh items (meanwhile ?mc (meanwhile ?mc w))"
  let ?seen = "observed_member sh items (meanwhile ?mc (meanwhile ?mc w))"
  from assms have "p \<in> set (plan (map ?see (confirmed_groups sh focus items w)))"
    by (simp add: planned_pairs_def Let_def)
  then obtain g where g: "g \<in> set (confirmed_groups sh focus items w)"
    "keeper (?see g) = Some (pp_keeper p)" "pp_duplicate p \<in> set (gr_members (?see g))"
    "fst (pp_duplicate p) \<noteq> fst (pp_keeper p)" "pp_len p = gr_len g"
    "pp_pairing p = pair (snd (pp_keeper p)) (snd (pp_duplicate p))"
    unfolding plan_mem by (auto simp: observed_group_def)
  from keeper_mem [OF g(2)] obtain k where k: "k \<in> set (gr_members g)" "pp_keeper p = ?seen k"
    by (auto simp: observed_group_def)
  from g(3) obtain d where d: "d \<in> set (gr_members g)" "pp_duplicate p = ?seen d"
    by (auto simp: observed_group_def)
  obtain q where "minimum \<le> gr_len g" and members: "\<And>m. m \<in> set (gr_members g) \<Longrightarrow>
       fst m < length items \<and> snd m = it_record (items ! fst m) \<and> fr_len (snd m) = gr_len g \<and>
       (\<exists>bs. read_whole sh items (meanwhile ?mc w) (fst m) bs \<and> mc_sha ?mc (le64 (gr_len g) @ bs) = q)"
    using confirmed_members [OF g(1)] by blast
  from members [OF k(1)] obtain bs where kb: "fst k < length items" "snd k = it_record (items ! fst k)" "fr_len (snd k) = gr_len g"
    "read_whole sh items (meanwhile ?mc w) (fst k) bs" "mc_sha ?mc (le64 (gr_len g) @ bs) = q" by blast
  from members [OF d(1)] obtain bs' where db: "fst d < length items" "snd d = it_record (items ! fst d)" "fr_len (snd d) = gr_len g"
    "read_whole sh items (meanwhile ?mc w) (fst d) bs'" "mc_sha ?mc (le64 (gr_len g) @ bs') = q" by blast
  from g(4) k d kb db \<open>minimum \<le> gr_len g\<close> g(5) have "pair_of_items sh items (meanwhile ?mc w) p"
    unfolding pair_of_items_def
    by (intro exI [of _ "fst k"] exI [of _ "fst d"] exI [of _ bs] exI [of _ bs']) auto
  with g(6) show ?thesis by blast
qed

section \<open>How a target comes to be held\<close>

definition lease_files :: "shareable \<Rightarrow> identity set" where
  "lease_files s = set (map fst (se_lease s))"

text \<open>Seen from the world it started in: the target was observed and surveyed, its locks taken, the
  filesystem asked, and everything a share needs holds of what was found.\<close>

definition share_authorized :: "'d sharer \<Rightarrow> share_terms \<Rightarrow> Applying.found \<Rightarrow> shareable \<Rightarrow> 'd world \<Rightarrow> bool" where
  "share_authorized sh t f s w \<longleftrightarrow>
     (\<exists>ob sv w3 cap fs.
        observe (observing (sh_machine sh) w) (fd_path f) = Inr ob \<and>
        share_survey sh t (ob_path ob) (meanwhile (sh_machine sh) w) = Inr sv \<and>
        take_hold (sh_machine sh) Execute (sv_locks sv) (meanwhile (sh_machine sh) (meanwhile (sh_machine sh) w)) =
          (Inr (Leased (se_lease s)), w3) \<and>
        share_capability sh (meanwhile (sh_machine sh) w3) (ob_path ob) = Inr cap \<and>
        cap = capability.Shares fs (sl_method (se_clearance s)) \<and>
        sharable (mc_fold (sh_machine sh)) (observation_site ob (sm_protection t) (sm_excludes t))
          \<lparr>sc_recorded = fd_candidate f, sc_identity = ob_found_identity ob, sc_liveness = liveness.Free,
           sc_capability = cap\<rparr> \<and>
        sl_identity (se_clearance s) = ob_found_identity ob)"

text \<open>Only other processes change the disk while a target is held; what they keep stays true.\<close>

definition kept_meanwhile :: "'d machine \<Rightarrow> ('d \<Rightarrow> bool) \<Rightarrow> bool" where
  "kept_meanwhile mc P \<longleftrightarrow> (\<forall>w. P (wd_disk w) \<longrightarrow> P (wd_disk (meanwhile mc w)))"

lemma kept_meanwhile_step: "kept_meanwhile mc P \<Longrightarrow> P (wd_disk w) \<Longrightarrow> P (wd_disk (meanwhile mc w))"
  by (simp add: kept_meanwhile_def)

lemma take_hold_disk: "take_hold mc m locks w = (h, w') \<Longrightarrow> wd_disk w' = wd_disk w"
  using take_hold_own [of mc m locks w h w'] by (cases h) auto

lemma release_lease_disk [simp]: "wd_disk (release_lease l w) = wd_disk w"
  by (simp add: release_lease_def)

lemma drop_hold_disk [simp]: "wd_disk (drop_hold h w) = wd_disk w"
  by (cases h) simp_all

lemma prune_drop_disk [simp]: "wd_disk (prune_drop h w) = wd_disk w"
  by (cases h) (simp_all add: prune_drop_def)

lemma drop_target_disk [simp]: "wd_disk (drop_target kept w) = wd_disk w"
  by (cases "(kept, w)" rule: drop_target.cases) simp_all

lemma hold_liveness_Free: "hold_liveness h = liveness.Free \<Longrightarrow> \<exists>hd. h = Inr hd"
  by (cases h) (auto simp: hold_liveness_def contention_liveness_def split: lock_state.splits)

lemma share_judged_Inr:
  assumes "share_judged sh t f ob h w = Inr c"
  shows "\<exists>hd cap fs. h = Inr hd \<and> share_capability sh w (ob_path ob) = Inr cap \<and> cap = capability.Shares fs (sl_method c) \<and>
    sharable (mc_fold (sh_machine sh)) (observation_site ob (sm_protection t) (sm_excludes t))
      \<lparr>sc_recorded = fd_candidate f, sc_identity = ob_found_identity ob, sc_liveness = liveness.Free, sc_capability = cap\<rparr> \<and>
    sl_identity c = ob_found_identity ob"
proof -
  let ?site = "observation_site ob (sm_protection t) (sm_excludes t)"
  obtain cap where cap: "share_capability sh w (ob_path ob) = Inr cap"
    using assms by (auto simp: share_judged_def result_simps)
  let ?check = "\<lparr>sc_recorded = fd_candidate f, sc_identity = ob_found_identity ob, sc_liveness = hold_liveness h,
        sc_capability = cap\<rparr>"
  from assms cap have clear: "clear_share (mc_sha (sh_machine sh)) (mc_fold (sh_machine sh)) ?site ?check = Inr c"
    by (simp add: share_judged_def result_simps)
  then obtain i where run: "gate_run (mc_sha (sh_machine sh)) (mc_fold (sh_machine sh)) ?site (ask.Share ?check) = Inr i"
    by (auto simp: clear_share_def result_simps)
  with clear have c: "(case cap of
        capability.Shares fs m \<Rightarrow> Inr \<lparr>sl_location = st_location ?site, sl_identity = ob_found_identity ob, sl_method = m\<rparr>
      | capability.Unsupported fs \<Rightarrow> Inl (CannotShare (st_location ?site) fs)) = Inr c"
    by (cases cap) (simp_all add: clear_share_def result_simps)
  from run have sharable: "sharable (mc_fold (sh_machine sh)) (observation_site ob (sm_protection t) (sm_excludes t))
      \<lparr>sc_recorded = fd_candidate f, sc_identity = ob_found_identity ob, sc_liveness = hold_liveness h, sc_capability = cap\<rparr>"
    by (simp add: run_share)
  then have free: "hold_liveness h = liveness.Free" by (simp add: sharable_def)
  with hold_liveness_Free cap sharable c show ?thesis by (cases cap) auto
qed

lemma shareable_new_Inr:
  "shareable_new sh c l path w = Inr s \<Longrightarrow> s = \<lparr>se_clearance = c, se_lease = l\<rparr>"
  by (auto simp: shareable_new_def Let_def result_simps split: prod.splits sum.splits if_splits)

lemma hold_target_Inr:
  assumes "hold_target sh t f w = (Inr s, w')"
  shows "share_authorized sh t f s w \<and> wd_own w' = wd_own w \<union> lease_files s \<and> lease_files s \<inter> wd_own w = {}"
proof -
  let ?mc = "sh_machine sh"
  let ?w1 = "meanwhile ?mc w"
  obtain ob where ob: "observe (observing ?mc w) (fd_path f) = Inr ob"
    using assms by (auto simp: hold_target_def Let_def split: sum.splits)
  obtain sv where sv: "share_survey sh t (ob_path ob) ?w1 = Inr sv"
    using assms ob by (auto simp: hold_target_def Let_def split: sum.splits)
  obtain h w3 where hold: "take_hold ?mc Execute (sv_locks sv) (meanwhile ?mc ?w1) = (h, w3)" by fastforce
  have auth: "authorize_held sh t f ob h (meanwhile ?mc w3) = Inr s" and w': "w' = meanwhile ?mc (meanwhile ?mc w3)"
    using assms ob sv hold by (auto simp: hold_target_def Let_def split: sum.splits)
  from auth obtain c where judged: "share_judged sh t f ob h (meanwhile ?mc w3) = Inr c"
    by (auto simp: authorize_held_def result_simps)
  from share_judged_Inr [OF this] obtain hd cap fs where h: "h = Inr hd" and
    cap: "share_capability sh (meanwhile ?mc w3) (ob_path ob) = Inr cap" "cap = capability.Shares fs (sl_method c)" and
    sharable: "sharable (mc_fold ?mc) (observation_site ob (sm_protection t) (sm_excludes t))
      \<lparr>sc_recorded = fd_candidate f, sc_identity = ob_found_identity ob, sc_liveness = liveness.Free, sc_capability = cap\<rparr>" and
    c: "sl_identity c = ob_found_identity ob" by blast
  note own = take_hold_own [OF hold]
  with h obtain l where l: "hd = Leased l" by (cases hd) auto
  from auth judged h l have "shareable_new sh c l (ob_path ob) (meanwhile ?mc (meanwhile ?mc w3)) = Inr s"
    by (simp add: authorize_held_def result_simps)
  then have s: "s = \<lparr>se_clearance = c, se_lease = l\<rparr>" by (rule shareable_new_Inr)
  have "share_authorized sh t f s w"
    unfolding share_authorized_def using ob sv hold h l cap sharable c s
    by (intro exI [of _ ob] exI [of _ sv] exI [of _ w3] exI [of _ cap] exI [of _ fs]) simp
  with own h l s w' show ?thesis by (simp add: lease_files_def)
qed

lemma hold_target_Inl:
  assumes "hold_target sh t f w = (Inl r, w')"
  shows "wd_own w' = wd_own w"
proof (cases "observe (observing (sh_machine sh) w) (fd_path f)")
  case (Inl e)
  with assms show ?thesis by (auto simp: hold_target_def Let_def)
next
  case ob: (Inr ob)
  let ?mc = "sh_machine sh"
  let ?w1 = "meanwhile ?mc w"
  show ?thesis
  proof (cases "share_survey sh t (ob_path ob) ?w1")
    case (Inl e)
    with assms ob show ?thesis by (auto simp: hold_target_def Let_def)
  next
    case (Inr sv)
    obtain h w3 where hold: "take_hold ?mc Execute (sv_locks sv) (meanwhile ?mc ?w1) = (h, w3)" by fastforce
    have "w' = prune_drop h (meanwhile ?mc (meanwhile ?mc w3))"
      using assms ob Inr hold by (auto simp: hold_target_def Let_def split: sum.splits)
    with take_hold_own [OF hold] show ?thesis by (cases h) (auto simp: prune_drop_def drop_hold_own)
  qed
qed

lemma hold_target_disk:
  assumes "hold_target sh t f w = (r, w')" and "kept_meanwhile (sh_machine sh) P" and "P (wd_disk w)"
  shows "P (wd_disk w')"
proof (cases "observe (observing (sh_machine sh) w) (fd_path f)")
  case (Inl e)
  with assms show ?thesis by (auto simp: hold_target_def Let_def kept_meanwhile_step)
next
  case ob: (Inr ob)
  let ?mc = "sh_machine sh"
  let ?w1 = "meanwhile ?mc w"
  note step = kept_meanwhile_step [OF assms(2)]
  show ?thesis
  proof (cases "share_survey sh t (ob_path ob) ?w1")
    case (Inl e)
    with assms ob show ?thesis by (auto simp: hold_target_def Let_def step)
  next
    case (Inr sv)
    obtain h w3 where hold: "take_hold ?mc Execute (sv_locks sv) (meanwhile ?mc ?w1) = (h, w3)" by fastforce
    from take_hold_disk [OF hold] assms(3) have "P (wd_disk w3)" by (simp add: step)
    moreover have "wd_disk w' = wd_disk (meanwhile ?mc (meanwhile ?mc w3))"
      using assms ob Inr hold by (auto simp: hold_target_def Let_def split: sum.splits)
    ultimately show ?thesis by (simp add: step)
  qed
qed

section \<open>What is held while pairs are settled\<close>

fun held_files :: "held_target \<Rightarrow> identity set" where
  "held_files (Some (path, Inr s)) = lease_files s"
| "held_files x = {}"

text \<open>Beside the locks held before, the run holds those of one authorized target at most.\<close>

definition held_ok :: "'d sharer \<Rightarrow> share_terms \<Rightarrow> identity set \<Rightarrow> held_target \<Rightarrow> 'd world \<Rightarrow> bool" where
  "held_ok sh t base kept w \<longleftrightarrow>
     wd_own w = base \<union> held_files kept \<and> held_files kept \<inter> base = {} \<and>
     (\<forall>path s. kept = Some (path, Inr s) \<longrightarrow> (\<exists>f w0. fd_path f = path \<and> share_authorized sh t f s w0))"

lemma held_ok_None: "held_ok sh t (wd_own w) None w"
  by (simp add: held_ok_def)

lemma held_ok_drop: "held_ok sh t base kept w \<Longrightarrow> wd_own (drop_target kept w) = base"
  by (cases "(kept, w)" rule: drop_target.cases) (auto simp: held_ok_def release_lease_def lease_files_def)

lemma held_ok_meanwhile: "held_ok sh t base kept w \<Longrightarrow> held_ok sh t base kept (meanwhile mc w)"
  by (simp add: held_ok_def)

lemma held_ok_disk: "held_ok sh t base kept w \<Longrightarrow> held_ok sh t base kept (w\<lparr>wd_disk := d\<rparr>)"
  by (simp add: held_ok_def)

lemma hold_target_ok:
  assumes "hold_target sh t f w = (r, w')"
  shows "held_ok sh t (wd_own w) (Some (fd_path f, r)) w'"
proof (cases r)
  case (Inl e)
  with assms have "hold_target sh t f w = (Inl e, w')" by simp
  from hold_target_Inl [OF this] Inl show ?thesis by (simp add: held_ok_def)
next
  case (Inr s)
  with assms have "hold_target sh t f w = (Inr s, w')" by simp
  from hold_target_Inr [OF this] Inr show ?thesis by (auto simp: held_ok_def)
qed

lemma held_for_cases:
  assumes "held_for sh t f kept w = (r, w')"
  obtains "kept = Some (fd_path f, r)" and "w' = w"
  | "hold_target sh t f (drop_target kept w) = (r, w')"
  using assms by (auto simp: held_for_def split: option.splits if_splits)

lemma held_for_ok:
  assumes "held_for sh t f kept w = (r, w')" and ok: "held_ok sh t base kept w"
  shows "held_ok sh t base (Some (fd_path f, r)) w'"
  using assms(1)
proof (cases rule: held_for_cases)
  case 1
  with ok show ?thesis by simp
next
  case 2
  from hold_target_ok [OF this] held_ok_drop [OF ok] show ?thesis by simp
qed

lemma held_for_disk:
  assumes "held_for sh t f kept w = (r, w')" and "kept_meanwhile (sh_machine sh) P" and "P (wd_disk w)"
  shows "P (wd_disk w')"
  using assms(1)
proof (cases rule: held_for_cases)
  case 2
  from hold_target_disk [OF this assms(2)] assms(3) show ?thesis by simp
qed (use assms(3) in simp)

text \<open>What an authorized share of a planned pair must keep.\<close>

definition shares_keep ::
  "'d sharer \<Rightarrow> share_terms \<Rightarrow> item list \<Rightarrow> pair_plan list \<Rightarrow> ('d \<Rightarrow> bool) \<Rightarrow> bool" where
  "shares_keep sh t items ps P \<longleftrightarrow>
     (\<forall>p f s w0 v. p \<in> set ps \<longrightarrow> pp_pairing p = pairing.Share \<longrightarrow>
        fd_path f = fd_path (it_found (items ! fst (pp_duplicate p))) \<longrightarrow> share_authorized sh t f s w0 \<longrightarrow>
        lease_files s \<subseteq> wd_own v \<longrightarrow> P (wd_disk v) \<longrightarrow>
        P (wd_disk (snd (shareable_share sh s (pair_request items p) v))))"

lemma shareable_share_own: "wd_own (snd (shareable_share sh s rq w)) = wd_own w"
  by (simp add: shareable_share_def split: prod.splits)

lemma settle_share_steps:
  assumes "settle_share sh t m items p (kept, w) = (st, kept', w')" and ok: "held_ok sh t base kept w"
  shows "held_ok sh t base kept' w'"
    "kept_meanwhile (sh_machine sh) P \<Longrightarrow> P (wd_disk w) \<Longrightarrow> (m = Execute \<Longrightarrow> shares_keep sh t items [p] P) \<Longrightarrow> P (wd_disk w')"
proof -
  let ?f = "it_found (items ! fst (pp_duplicate p))"
  let ?claim = "held_ok sh t base kept' w' \<and>
    (kept_meanwhile (sh_machine sh) P \<longrightarrow> P (wd_disk w) \<longrightarrow> (m = Execute \<longrightarrow> shares_keep sh t items [p] P) \<longrightarrow> P (wd_disk w'))"
  have ?claim
  proof (cases "pp_pairing p = pairing.Share \<and> m = Execute")
    case False
    with assms show ?thesis by (cases "pp_pairing p"; cases m) (auto simp: settle_share_def)
  next
    case True
    obtain r w1 where target: "held_for sh t ?f kept w = (r, w1)" by fastforce
    note ok1 = held_for_ok [OF target ok]
    show ?thesis
    proof (cases r)
      case (Inl e)
      with assms(1) True target have "kept' = Some (fd_path ?f, r)" "w' = w1" by (auto simp: settle_share_def Let_def)
      with ok1 held_for_disk [OF target] show ?thesis by auto
    next
      case (Inr s)
      let ?v = "meanwhile (sh_machine sh) w1"
      obtain o' w2 where share: "shareable_share sh s (pair_request items p) ?v = (o', w2)" by fastforce
      with assms(1) True target Inr have end': "kept' = Some (fd_path ?f, Inr s)" "w' = w2"
        by (auto simp: settle_share_def Let_def)
      from ok1 Inr obtain f w0 where auth: "fd_path f = fd_path ?f" "share_authorized sh t f s w0"
        and own: "lease_files s \<subseteq> wd_own ?v" by (auto simp: held_ok_def)
      have "held_ok sh t base kept' w'"
        using ok1 Inr end' share by (auto simp: shareable_share_def held_ok_def split: prod.splits)
      moreover have "P (wd_disk w')" if keep: "kept_meanwhile (sh_machine sh) P" and here: "P (wd_disk w)"
        and shares: "shares_keep sh t items [p] P"
      proof -
        from held_for_disk [OF target keep here] keep have "P (wd_disk ?v)" by (simp add: kept_meanwhile_step)
        with shares True auth own have "P (wd_disk (snd (shareable_share sh s (pair_request items p) ?v)))"
          unfolding shares_keep_def by (metis list.set_intros(1))
        with share end' show ?thesis by simp
      qed
      ultimately show ?thesis using True by blast
    qed
  qed
  then show "held_ok sh t base kept' w'"
    "kept_meanwhile (sh_machine sh) P \<Longrightarrow> P (wd_disk w) \<Longrightarrow> (m = Execute \<Longrightarrow> shares_keep sh t items [p] P) \<Longrightarrow> P (wd_disk w')"
    by blast+
qed

lemma settle_pairs_steps:
  assumes "settle_pairs sh t m items ps (os, totals, kept, w) = (os', totals', kept', w')"
    and "held_ok sh t base kept w" and "kept_meanwhile (sh_machine sh) P" and "P (wd_disk w)"
    and "m = Execute \<Longrightarrow> shares_keep sh t items ps P"
  shows "held_ok sh t base kept' w' \<and> P (wd_disk w')"
  using assms
proof (induction ps arbitrary: os totals kept w)
  case (Cons p ps)
  obtain st kept1 w1 where one: "settle_share sh t m items p (kept, w) = (st, kept1, w1)"
    by (cases "settle_share sh t m items p (kept, w)") auto
  from Cons.prems(5) have first: "m = Execute \<Longrightarrow> shares_keep sh t items [p] P"
    and rest: "m = Execute \<Longrightarrow> shares_keep sh t items ps P"
    unfolding shares_keep_def by (metis list.set_intros(1) empty_iff set_ConsD list.set(1), metis list.set_intros(2))
  from settle_share_steps [OF one Cons.prems(2)] Cons.prems(3,4) first
  have "held_ok sh t base kept1 w1" "P (wd_disk w1)" by blast+
  with Cons.IH [of _ _ kept1 w1] Cons.prems(1,3) rest one show ?case by simp
qed simp

lemma pool_share_steps:
  assumes "kept_meanwhile (sh_machine sh) P" and "P (wd_disk w)"
    and "m = Execute \<Longrightarrow> shares_keep sh t (pool_items (mc_host (sh_machine sh)) pl focus)
      (planned_pairs sh focus (pool_items (mc_host (sh_machine sh)) pl focus) w) P"
  shows "\<exists>kept w2. snd (pool_share sh t focus m pl w) = drop_target kept w2 \<and> held_ok sh t (wd_own w) kept w2 \<and> P (wd_disk w2)"
proof -
  let ?mc = "sh_machine sh"
  let ?items = "pool_items (mc_host ?mc) pl focus"
  let ?w1 = "meanwhile ?mc (meanwhile ?mc (meanwhile ?mc w))"
  obtain os totals kept w2 where
    settled: "settle_pairs sh t m ?items (planned_pairs sh focus ?items w) ([], share_totals_zero, None, ?w1) = (os, totals, kept, w2)"
    by (cases "settle_pairs sh t m ?items (planned_pairs sh focus ?items w) ([], share_totals_zero, None, ?w1)") auto
  have "held_ok sh t (wd_own w) None ?w1" by (simp add: held_ok_def)
  moreover have "P (wd_disk ?w1)" using assms(1,2) by (simp add: kept_meanwhile_step)
  ultimately have "held_ok sh t (wd_own w) kept w2 \<and> P (wd_disk w2)"
    by (rule settle_pairs_steps [OF settled _ assms(1) _ assms(3)])
  moreover have "snd (pool_share sh t focus m pl w) = drop_target kept w2"
    by (simp add: pool_share_def Let_def settled)
  ultimately show ?thesis by blast
qed

text \<open>Property C20. Sharing touches the disk in one way only. Whatever holds of the disk, is kept by other
  processes and by every share of a planned pair that may share, under a lease of the duplicate's target
  that is held at that moment and was granted after all its gates held, still holds when the run ends;
  a dry run needs no share to keep it. And the run ends with exactly the locks it began with.\<close>

theorem disk_changes_only_by_authorized_shares:
  assumes "kept_meanwhile (sh_machine sh) P" and "P (wd_disk w)"
    and "m = Execute \<Longrightarrow> shares_keep sh t (pool_items (mc_host (sh_machine sh)) pl focus)
      (planned_pairs sh focus (pool_items (mc_host (sh_machine sh)) pl focus) w) P"
  shows "P (wd_disk (snd (pool_share sh t focus m pl w))) \<and> wd_own (snd (pool_share sh t focus m pl w)) = wd_own w"
proof -
  from pool_share_steps [OF assms] obtain kept w2 where
    "snd (pool_share sh t focus m pl w) = drop_target kept w2" "held_ok sh t (wd_own w) kept w2" "P (wd_disk w2)" by blast
  with held_ok_drop [of sh t "wd_own w" kept w2] show ?thesis by simp
qed

section \<open>Stocking\<close>

lemma admit_steps:
  assumes "admit sh t f w = (r, w')"
  shows "wd_own w' = wd_own w" "kept_meanwhile (sh_machine sh) P \<Longrightarrow> P (wd_disk w) \<Longrightarrow> P (wd_disk w')"
proof -
  let ?mc = "sh_machine sh"
  let ?w1 = "meanwhile ?mc w"
  have "wd_own w' = wd_own w \<and> (kept_meanwhile ?mc P \<longrightarrow> P (wd_disk w) \<longrightarrow> P (wd_disk w'))"
  proof (cases "observe (observing ?mc w) (fd_path f)")
    case (Inl e)
    with assms show ?thesis by (auto simp: admit_def Let_def kept_meanwhile_step)
  next
    case ob: (Inr ob)
    show ?thesis
    proof (cases "share_survey sh t (ob_path ob) ?w1")
      case (Inl e)
      with ob assms show ?thesis by (auto simp: admit_def Let_def kept_meanwhile_step)
    next
      case (Inr sv)
      obtain h w2 where hold: "take_hold ?mc DryRun (sv_locks sv) (meanwhile ?mc ?w1) = (h, w2)" by fastforce
      have "wd_own w2 = wd_own w" using take_hold_own [OF hold] by (cases h) auto
      moreover have "w' = meanwhile ?mc w2"
        using assms ob Inr hold by (simp add: admit_def Let_def)
      ultimately show ?thesis using take_hold_disk [OF hold] by (simp add: kept_meanwhile_step)
    qed
  qed
  then show "wd_own w' = wd_own w" "kept_meanwhile ?mc P \<Longrightarrow> P (wd_disk w) \<Longrightarrow> P (wd_disk w')" by blast+
qed

lemma stock_targets_steps:
  assumes "stock_targets sh t fs (p, w) = (p', w')" and "kept_meanwhile (sh_machine sh) P" and "P (wd_disk w)"
  shows "wd_own w' = wd_own w \<and> P (wd_disk w')"
  using assms
proof (induction fs arbitrary: p w)
  case (Cons f fs)
  obtain r w1 where one: "admit sh t f w = (r, w1)" by fastforce
  from admit_steps [OF one] Cons.prems(2,3) have "wd_own w1 = wd_own w" "P (wd_disk w1)" by blast+
  with Cons.IH [of _ "meanwhile (sh_machine sh) (meanwhile (sh_machine sh) w1)"] Cons.prems(1,2) one
  show ?case by (simp add: Let_def kept_meanwhile_step)
qed simp

end
