(* ===== verification/Share_Pairs.thy ===== *)
theory Share_Pairs
  imports Share_Runs_Facts
begin

text \<open>
  Which files a run pairs, and its accounts: the groups of a run are the files of equal content, a
  pair is two different files of one volume that read the same, and the totals tell every pair once.
\<close>

section \<open>Files that stand in one group\<close>

abbreviation printed_sample :: "'d sharer \<Rightarrow> item list \<Rightarrow> 'd world \<Rightarrow> member \<Rightarrow> fingerprint option" where
  "printed_sample sh items w \<equiv> printed sample_print sh Sampling items w"

abbreviation printed_full :: "'d sharer \<Rightarrow> item list \<Rightarrow> 'd world \<Rightarrow> member \<Rightarrow> fingerprint option" where
  "printed_full sh items w \<equiv> printed full_print sh Confirming items (meanwhile (sh_machine sh) w)"

lemma refine_together:
  assumes "record_family (snd m) \<noteq> record_family (snd n)"
  shows "(\<exists>h \<in> set (refine print gs). m \<in> set (gr_members h) \<and> n \<in> set (gr_members h)) \<longleftrightarrow>
    (\<exists>g \<in> set gs. m \<in> set (gr_members g) \<and> n \<in> set (gr_members g)) \<and> (\<exists>p. print m = Some p \<and> print n = Some p)"
    (is "?L \<longleftrightarrow> ?R")
proof
  assume ?L
  then obtain h where "h \<in> set (refine print gs)" "m \<in> set (gr_members h)" "n \<in> set (gr_members h)" by blast
  then show ?R unfolding refine_mem [of h] by auto
next
  assume ?R
  then obtain g p where g: "g \<in> set gs" "m \<in> set (gr_members g)" "n \<in> set (gr_members g)" "print m = Some p" "print n = Some p"
    by blast
  let ?h = "\<lparr>gr_len = gr_len g, gr_members = filter (\<lambda>m. print m = Some p) (gr_members g)\<rparr>"
  have "m \<in> set (gr_members ?h)" "n \<in> set (gr_members ?h)" using g by auto
  moreover from this assms have "1 < families (gr_members ?h)" unfolding families_gt_one by blast
  with g(1) have "?h \<in> set (refine print gs)" unfolding refine_mem by (intro bexI [of _ g]) auto
  ultimately show ?L by blast
qed

lemma groups_together:
  assumes "i < length items" "j < length items" and "record_family (items ! i) \<noteq> record_family (items ! j)"
  shows "(\<exists>g \<in> set (groups items). (i, items ! i) \<in> set (gr_members g) \<and> (j, items ! j) \<in> set (gr_members g)) \<longleftrightarrow>
    size_key (i, items ! i) = size_key (j, items ! j) \<and> minimum \<le> fr_len (items ! i)"
    (is "?L \<longleftrightarrow> ?R")
proof
  assume ?L
  then show ?R by (auto simp: groups_mem size_key_def)
next
  assume r: ?R
  let ?g = "\<lparr>gr_len = fr_len (items ! i),
    gr_members = filter (\<lambda>m. size_key m = size_key (i, items ! i)) (enumerate 0 items)\<rparr>"
  have mem: "(i, items ! i) \<in> set (gr_members ?g)" "(j, items ! j) \<in> set (gr_members ?g)"
    using assms r by (auto simp: in_set_enumerate_eq)
  with assms(3) have "1 < families (gr_members ?g)" unfolding families_gt_one by force
  with r have "?g \<in> set (groups items)" unfolding groups_mem by (auto simp: size_key_def)
  with mem show ?L by blast
qed

lemma confirmed_together:
  assumes "i < length items" "j < length items"
    and "record_family (it_record (items ! i)) \<noteq> record_family (it_record (items ! j))"
  shows "(\<exists>g \<in> set (confirmed_groups sh Everything_Shared items w).
      (i, it_record (items ! i)) \<in> set (gr_members g) \<and> (j, it_record (items ! j)) \<in> set (gr_members g)) \<longleftrightarrow>
    size_key (i, it_record (items ! i)) = size_key (j, it_record (items ! j)) \<and> minimum \<le> fr_len (it_record (items ! i)) \<and>
    (\<exists>p. printed_sample sh items w (i, it_record (items ! i)) = Some p \<and>
       printed_sample sh items w (j, it_record (items ! j)) = Some p) \<and>
    (\<exists>p. printed_full sh items w (i, it_record (items ! i)) = Some p \<and>
       printed_full sh items w (j, it_record (items ! j)) = Some p)"
proof -
  have "filter (focus_group Everything_Shared) gs = gs" for gs by simp
  with assms groups_together [of i "map it_record items" j] show ?thesis
    by (simp add: confirmed_groups_def refine_together)
qed

text \<open>A file that is there to be read, with its bytes, at both readings.\<close>

definition steady :: "'d sharer \<Rightarrow> item list \<Rightarrow> 'd world \<Rightarrow> nat \<Rightarrow> bytes \<Rightarrow> bool" where
  "steady sh items w i bs \<longleftrightarrow>
     unat (fr_len (it_record (items ! i))) = length bs \<and>
     (\<forall>(stage, d) \<in> {(Sampling, wd_disk w), (Confirming, wd_disk (meanwhile (sh_machine sh) w))}.
        \<exists>f. sh_open sh stage i d (it_path (items ! i)) = Inr f \<and>
            pf_identity f = Inr (fr_identity (it_record (items ! i))) \<and> pf_bytes f = bs \<and>
            (\<forall>at n. \<not> pf_fails f at n) \<and> (\<forall>at. pf_seek f at = Inr at))"

definition sample_bytes :: "u64 \<Rightarrow> bytes \<Rightarrow> bytes" where
  "sample_bytes len bs =
     le64 len @ take (unat (min len sample_len)) bs @
     (if sample_len < len then take (unat sample_len) (drop (unat (len - sample_len)) bs) else [])"

lemma steady_full:
  assumes "steady sh items w i bs"
  shows "printed_full sh items w (i, it_record (items ! i)) = Some (mc_sha (sh_machine sh) (le64 (fr_len (it_record (items ! i))) @ bs))"
  using assms by (auto simp: steady_def printed_def full_print_Some reads_as_def)

lemma copied_steady:
  "(\<And>at n. \<not> pf_fails f at n) \<Longrightarrow> at + n \<le> length (pf_bytes f) \<Longrightarrow> copied f at n = Some (take n (drop at (pf_bytes f)))"
  by (auto simp: copied_def read_at_def)

lemma steady_sample:
  assumes "steady sh items w i bs"
  shows "printed_sample sh items w (i, it_record (items ! i)) =
    Some (mc_sha (sh_machine sh) (sample_bytes (fr_len (it_record (items ! i))) bs))"
proof -
  let ?r = "it_record (items ! i)"
  let ?len = "fr_len ?r"
  from assms obtain f where f: "sh_open sh Sampling i (wd_disk w) (it_path (items ! i)) = Inr f"
    "pf_identity f = Inr (fr_identity ?r)" "pf_bytes f = bs" "\<And>at n. \<not> pf_fails f at n" "\<And>at. pf_seek f at = Inr at"
    and len: "unat ?len = length bs" by (auto simp: steady_def)
  have open': "opened (sh_open sh Sampling i (wd_disk w)) (it_path (items ! i)) (fr_identity ?r) = Some f"
    using f by (simp add: opened_def)
  have "unat (min ?len sample_len) \<le> length bs"
    using len by (auto simp: min_def word_le_nat_alt)
  then have head: "copied f 0 (unat (min ?len sample_len)) = Some (take (unat (min ?len sample_len)) bs)"
    using f by (simp add: copied_steady)
  have tail: "sample_tail f ?len =
      Some (if sample_len < ?len then take (unat sample_len) (drop (unat (?len - sample_len)) bs) else [])"
  proof (cases "sample_len < ?len")
    case True
    then have "unat (?len - sample_len) + unat sample_len \<le> length bs"
      using len by (simp add: unat_sub word_less_nat_alt word_le_nat_alt)
    with True f show ?thesis by (simp add: sample_tail_def copied_steady)
  qed (simp add: sample_tail_def)
  show ?thesis using open' head tail by (simp add: printed_def sample_print_def sample_bytes_def)
qed


section \<open>Pairs\<close>

lemma planned_share_pair:
  assumes "p \<in> set (planned_pairs sh focus items w)" and "pp_pairing p = pairing.Share"
  shows "fr_identity (snd (pp_keeper p)) \<noteq> fr_identity (snd (pp_duplicate p)) \<and>
    volume (fr_identity (snd (pp_keeper p))) = volume (fr_identity (snd (pp_duplicate p))) \<and>
    fr_owner (snd (pp_duplicate p)) = Caller"
proof -
  have "pair (snd (pp_keeper p)) (snd (pp_duplicate p)) = pairing.Share"
    using planned_pair [OF assms(1)] assms(2) by simp
  then show ?thesis by (simp add: pair_share_iff)
qed

text \<open>Property C22. Only duplicates are paired to share: the two members of such a pair are two
  different files of one volume and of the pair's length, not below the minimum, the duplicate is the
  caller's own; both were read whole, by these identities, and if the digest tells what was read
  apart, their contents were equal byte by byte.\<close>

theorem only_duplicates_are_paired:
  assumes "p \<in> set (planned_pairs sh focus items w)" and "pp_pairing p = pairing.Share"
  shows "\<exists>k d bs bs'. rq_keeper (pair_request items p) = it_path (items ! k) \<and>
     rq_duplicate (pair_request items p) = it_relative (items ! d) \<and>
     rq_keeper_identity (pair_request items p) = fr_identity (it_record (items ! k)) \<and>
     rq_duplicate_identity (pair_request items p) = fr_identity (it_record (items ! d)) \<and>
     k < length items \<and> d < length items \<and>
     fr_identity (it_record (items ! k)) \<noteq> fr_identity (it_record (items ! d)) \<and>
     volume (fr_identity (it_record (items ! k))) = volume (fr_identity (it_record (items ! d))) \<and>
     fr_len (it_record (items ! k)) = pp_len p \<and> fr_len (it_record (items ! d)) = pp_len p \<and> minimum \<le> pp_len p \<and>
     read_whole sh items (meanwhile (sh_machine sh) w) k bs \<and> read_whole sh items (meanwhile (sh_machine sh) w) d bs' \<and>
     (inj_on (mc_sha (sh_machine sh)) {le64 (pp_len p) @ bs, le64 (pp_len p) @ bs'} \<longrightarrow> bs = bs')"
proof -
  from planned_pair [OF assms(1)] obtain k d bs bs' where kd: "k < length items" "d < length items"
    "fst (pp_keeper p) = k" "fst (pp_duplicate p) = d"
    "fr_identity (snd (pp_keeper p)) = fr_identity (it_record (items ! k))"
    "fr_identity (snd (pp_duplicate p)) = fr_identity (it_record (items ! d))"
    "fr_len (it_record (items ! k)) = pp_len p" "fr_len (it_record (items ! d)) = pp_len p" "minimum \<le> pp_len p"
    "read_whole sh items (meanwhile (sh_machine sh) w) k bs" "read_whole sh items (meanwhile (sh_machine sh) w) d bs'"
    "mc_sha (sh_machine sh) (le64 (pp_len p) @ bs) = mc_sha (sh_machine sh) (le64 (pp_len p) @ bs')"
    unfolding pair_of_items_def by blast
  have "inj_on (mc_sha (sh_machine sh)) {le64 (pp_len p) @ bs, le64 (pp_len p) @ bs'} \<Longrightarrow> bs = bs'"
    using kd(12) unfolding inj_on_def by blast
  moreover have "rq_keeper (pair_request items p) = it_path (items ! k)"
    "rq_duplicate (pair_request items p) = it_relative (items ! d)"
    "rq_keeper_identity (pair_request items p) = fr_identity (it_record (items ! k))"
    "rq_duplicate_identity (pair_request items p) = fr_identity (it_record (items ! d))"
    using kd(3-6) by (simp_all add: pair_request_def)
  moreover have "fr_identity (it_record (items ! k)) \<noteq> fr_identity (it_record (items ! d))"
    "volume (fr_identity (it_record (items ! k))) = volume (fr_identity (it_record (items ! d)))"
    using planned_share_pair [OF assms] by (simp_all add: kd(5,6))
  ultimately show ?thesis using kd(1,2,7-11) by blast
qed

section \<open>Accounts\<close>

definition lens_with :: "(pair_status \<Rightarrow> bool) \<Rightarrow> pair_outcome list \<Rightarrow> u64 list" where
  "lens_with wanted os = map po_len (filter (\<lambda>x. wanted (po_status x)) os)"

fun counts_shared :: "pair_status \<Rightarrow> bool" where
  "counts_shared WouldShare = True" | "counts_shared pair_status.Shared = True" | "counts_shared _ = False"

fun counts_failed :: "pair_status \<Rightarrow> bool" where
  "counts_failed (Failed e) = True" | "counts_failed _ = False"

fun counts_overtaken :: "pair_status \<Rightarrow> bool" where
  "counts_overtaken (Overtaken e) = True" | "counts_overtaken _ = False"

fun counts_withheld :: "pair_status \<Rightarrow> bool" where
  "counts_withheld (Withheld e) = True" | "counts_withheld _ = False"

fun counts_refused :: "pair_status \<Rightarrow> bool" where
  "counts_refused (pair_status.Refused e) = True" | "counts_refused _ = False"

fun counts_already :: "pair_status \<Rightarrow> bool" where
  "counts_already pair_status.AlreadyShared = True" | "counts_already _ = False"

definition totals_for :: "share_totals \<Rightarrow> pair_outcome list \<Rightarrow> bool" where
  "totals_for x os \<longleftrightarrow>
     tallies (sl_shared x) (lens_with counts_shared os) \<and> tallies (sl_already_shared x) (lens_with counts_already os) \<and>
     tallies (sl_refused x) (lens_with counts_refused os) \<and> tallies (sl_withheld x) (lens_with counts_withheld os) \<and>
     tallies (sl_overtaken x) (lens_with counts_overtaken os) \<and> tallies (sl_failed x) (lens_with counts_failed os)"

lemma totals_for_zero: "totals_for share_totals_zero []"
  by (simp add: totals_for_def share_totals_zero_def lens_with_def)

lemma totals_for_add: "totals_for x os \<Longrightarrow> totals_for (share_totals_add st (pp_len p) x) (os @ [pair_outcome_of p st])"
  by (cases st) (simp_all add: totals_for_def lens_with_def pair_outcome_of_def tallies_add)

lemma settle_pairs_outcomes:
  assumes "settle_pairs sh t m items ps (os, totals, state) = (os', totals', state')" and "totals_for totals os"
  shows "totals_for totals' os' \<and> (\<exists>sts. length sts = length ps \<and> os' = os @ map2 pair_outcome_of ps sts)"
  using assms
proof (induction ps arbitrary: os totals state)
  case (Cons p ps)
  obtain st kept1 w1 where one: "settle_share sh t m items p state = (st, kept1, w1)"
    by (cases "settle_share sh t m items p state") auto
  have "settle_pairs sh t m items ps
      (os @ [pair_outcome_of p st], share_totals_add st (pp_len p) totals, kept1, w1) = (os', totals', state')"
    using Cons.prems(1) one by simp
  from Cons.IH [OF this totals_for_add [OF Cons.prems(2)]]
  obtain sts where "totals_for totals' os'" "length sts = length ps"
    "os' = (os @ [pair_outcome_of p st]) @ map2 pair_outcome_of ps sts" by auto
  then show ?case by (intro conjI exI [of _ "st # sts"]) simp_all
qed simp

lemma tallies_positive: "tallies t lens \<Longrightarrow> 0 < tl_files t \<longleftrightarrow> lens \<noteq> []"
  by (cases lens) (simp_all add: tallies_def word_less_nat_alt del: length_Cons)

text \<open>A sharing run accounts for every planned pair, in order, once: its report has one
  outcome for each, with the two locations and the length, and its totals are the number and the bytes
  of the outcomes of their kind, saturated at 64 bits, so the run failed exactly when a pair did.\<close>

theorem shares_account_exactly:
  "case pool_share sh t focus m pl w of (r, w') \<Rightarrow>
     totals_for (dr_totals r) (dr_pairs r) \<and>
     map (\<lambda>x. (po_keeper x, po_duplicate x, po_len x)) (dr_pairs r) =
       map (\<lambda>p. (fr_location (snd (pp_keeper p)), fr_location (snd (pp_duplicate p)), pp_len p))
         (planned_pairs sh focus (pool_items (mc_host (sh_machine sh)) pl focus) w) \<and>
     (dedupe_failed r \<longleftrightarrow> dr_pairs (dedupe_summarized r) \<noteq> [])"
proof -
  let ?mc = "sh_machine sh"
  let ?items = "pool_items (mc_host ?mc) pl focus"
  let ?ps = "planned_pairs sh focus ?items w"
  obtain os totals kept w2 where
    settled: "settle_pairs sh t m ?items ?ps ([], share_totals_zero, None, meanwhile ?mc (meanwhile ?mc (meanwhile ?mc w))) = (os, totals, kept, w2)"
    by (cases "settle_pairs sh t m ?items ?ps ([], share_totals_zero, None, meanwhile ?mc (meanwhile ?mc (meanwhile ?mc w)))") auto
  from settle_pairs_outcomes [OF settled totals_for_zero] obtain sts where
    totals: "totals_for totals os" and os: "length sts = length ?ps" "os = map2 pair_outcome_of ?ps sts" by auto
  obtain r w' where run: "pool_share sh t focus m pl w = (r, w')" by fastforce
  then have r: "dr_totals r = totals" "dr_pairs r = os" by (auto simp: pool_share_def Let_def settled)
  have "map (\<lambda>x. (po_keeper x, po_duplicate x, po_len x)) os =
      map (\<lambda>p. (fr_location (snd (pp_keeper p)), fr_location (snd (pp_duplicate p)), pp_len p)) ?ps"
    using os by (auto intro!: nth_equalityI simp: pair_outcome_of_def)
  moreover have "filter failed_pair os = filter (\<lambda>x. counts_failed (po_status x)) os"
    by (rule filter_cong) (auto simp: failed_pair_def split: pair_status.splits)
  then have "dr_pairs (dedupe_summarized r) \<noteq> [] \<longleftrightarrow> lens_with counts_failed os \<noteq> []"
    using r by (simp add: dedupe_summarized_def lens_with_def)
  then have "dedupe_failed r \<longleftrightarrow> dr_pairs (dedupe_summarized r) \<noteq> []"
    using tallies_positive [of "sl_failed totals"] totals r by (simp add: dedupe_failed_def totals_for_def)
  ultimately show ?thesis using totals r run by simp
qed

end
