(* ===== verification/Calls.thy ===== *)
theory Calls
  imports Prelude
begin

text \<open>
  Sequences of system calls. A call works on a state, and a script says, call by call, what other
  processes do to the state before it and whether it fails; when the script is used up nothing more
  interferes or fails. Proofs about code that makes calls are in the style of a small program logic.
\<close>

section \<open>Calls\<close>

type_synonym ('e, 's) script = "(('s \<Rightarrow> 's) \<times> 'e option) list"
type_synonym ('e, 's, 'f, 'a) act = "'s \<times> ('e, 's) script \<Rightarrow> ('f + 'a) \<times> 's \<times> ('e, 's) script"

definition call :: "('s \<Rightarrow> ('e + 'a) \<times> 's) \<Rightarrow> ('e, 's, 'e, 'a) act" where
  "call f w =
     (case w of
        (s, []) \<Rightarrow> (case f s of (r, s') \<Rightarrow> (r, s', []))
      | (s, (others, failing) # rest) \<Rightarrow>
          (case failing of
             Some e \<Rightarrow> (Inl e, others s, rest)
           | None \<Rightarrow> (case f (others s) of (r, s') \<Rightarrow> (r, s', rest))))"

definition act_return :: "'a \<Rightarrow> ('e, 's, 'f, 'a) act" where
  "act_return a w = (Inr a, w)"

definition act_fail :: "'f \<Rightarrow> ('e, 's, 'f, 'a) act" where
  "act_fail f w = (Inl f, w)"

definition act_bind :: "('e, 's, 'f, 'a) act \<Rightarrow> ('a \<Rightarrow> ('e, 's, 'f, 'b) act) \<Rightarrow> ('e, 's, 'f, 'b) act" where
  "act_bind m k w = (case m w of (Inl f, w') \<Rightarrow> (Inl f, w') | (Inr a, w') \<Rightarrow> k a w')"

definition act_either :: "('e, 's, 'f, 'a) act \<Rightarrow> ('e, 's, 'g, 'f + 'a) act" where
  "act_either m w = (case m w of (r, w') \<Rightarrow> (Inr r, w'))"

definition act_map_err :: "('f \<Rightarrow> 'g) \<Rightarrow> ('e, 's, 'f, 'a) act \<Rightarrow> ('e, 's, 'g, 'a) act" where
  "act_map_err h m w = (case m w of (Inl f, w') \<Rightarrow> (Inl (h f), w') | (Inr a, w') \<Rightarrow> (Inr a, w'))"

lemma call_others: "call f (s, (g, failing) # rest) = call f (g s, (id, failing) # rest)"
  unfolding call_def by (simp only: prod.case list.case id_apply)

section \<open>Calls that nothing interferes with\<close>

definition quiet :: "('e, 's) script \<Rightarrow> bool" where
  "quiet script \<longleftrightarrow> (\<forall>x \<in> set script. fst x = id)"

lemma quiet_simps [simp]: "quiet []" "quiet (x # xs) \<longleftrightarrow> fst x = id \<and> quiet xs"
  by (auto simp: quiet_def)

text \<open>Started in a state with \<open>P\<close>, a result \<open>a\<close> leaves a state with \<open>Q a\<close> and a failure \<open>f\<close> one with
  \<open>E f\<close>, whatever calls fail.\<close>

definition triple ::
  "('s \<Rightarrow> bool) \<Rightarrow> ('e, 's, 'f, 'a) act \<Rightarrow> ('a \<Rightarrow> 's \<Rightarrow> bool) \<Rightarrow> ('f \<Rightarrow> 's \<Rightarrow> bool) \<Rightarrow> bool" where
  "triple P m Q E \<longleftrightarrow>
     (\<forall>s script. P s \<longrightarrow> quiet script \<longrightarrow>
        (case m (s, script) of
           (r, s', script') \<Rightarrow> quiet script' \<and> (case r of Inl f \<Rightarrow> E f s' | Inr a \<Rightarrow> Q a s')))"

lemma tripleD:
  "triple P m Q E \<Longrightarrow> P s \<Longrightarrow> quiet script \<Longrightarrow> m (s, script) = (r, s', script') \<Longrightarrow>
   quiet script' \<and> (case r of Inl f \<Rightarrow> E f s' | Inr a \<Rightarrow> Q a s')"
  unfolding triple_def by (metis (mono_tags, lifting) case_prod_conv)

lemma tripleI:
  "(\<And>s script r s' script'. P s \<Longrightarrow> quiet script \<Longrightarrow> m (s, script) = (r, s', script') \<Longrightarrow>
     quiet script' \<and> (case r of Inl f \<Rightarrow> E f s' | Inr a \<Rightarrow> Q a s')) \<Longrightarrow> triple P m Q E"
  unfolding triple_def by fastforce

lemma triple_weaken:
  assumes "triple P m Q E" and "\<And>s. P' s \<Longrightarrow> P s" and "\<And>a s. Q a s \<Longrightarrow> Q' a s" and "\<And>f s. E f s \<Longrightarrow> E' f s"
  shows "triple P' m Q' E'"
proof (rule tripleI)
  fix s script r s' script'
  assume "P' s" "quiet script" "m (s, script) = (r, s', script')"
  with tripleD [OF assms(1)] assms(2) have "quiet script' \<and> (case r of Inl f \<Rightarrow> E f s' | Inr a \<Rightarrow> Q a s')" by blast
  with assms(3,4) show "quiet script' \<and> (case r of Inl f \<Rightarrow> E' f s' | Inr a \<Rightarrow> Q' a s')" by (cases r) auto
qed

lemma triple_pre: "triple P m Q E \<Longrightarrow> (\<And>s. P' s \<Longrightarrow> P s) \<Longrightarrow> triple P' m Q E"
  by (erule triple_weaken)

lemma triple_call:
  assumes "\<And>s r s'. P s \<Longrightarrow> f s = (r, s') \<Longrightarrow> (case r of Inl e \<Rightarrow> E e s' | Inr a \<Rightarrow> Q a s')"
    and "\<And>e s. P s \<Longrightarrow> E e s"
  shows "triple P (call f) Q E"
proof (rule tripleI)
  fix s script r s' script'
  assume P: "P s" and script: "quiet script" and run: "call f (s, script) = (r, s', script')"
  show "quiet script' \<and> (case r of Inl f \<Rightarrow> E f s' | Inr a \<Rightarrow> Q a s')"
  proof (cases script)
    case Nil
    with run have "f s = (r, s')" "script' = []" by (auto simp: call_def split: prod.splits)
    with assms(1) [OF P] show ?thesis by simp
  next
    case (Cons x rest)
    obtain others failing where x: "x = (others, failing)" by (cases x)
    show ?thesis
    proof (cases failing)
      case None
      with run script Cons x have "f s = (r, s')" "quiet script'" by (auto simp: call_def split: prod.splits)
      with assms(1) [OF P] show ?thesis by simp
    next
      case (Some e)
      with run script Cons x have "r = Inl e" "s' = s" "quiet script'" by (auto simp: call_def)
      with assms(2) [OF P] show ?thesis by simp
    qed
  qed
qed

lemma triple_bind:
  assumes "triple P m R E" and "\<And>a. triple (R a) (k a) Q E"
  shows "triple P (act_bind m k) Q E"
proof (rule tripleI)
  fix s script r s' script'
  assume P: "P s" "quiet script" and run: "act_bind m k (s, script) = (r, s', script')"
  obtain r1 s1 script1 where one: "m (s, script) = (r1, s1, script1)" by (cases "m (s, script)") auto
  from tripleD [OF assms(1) P one] have here: "quiet script1" "case r1 of Inl f \<Rightarrow> E f s1 | Inr a \<Rightarrow> R a s1" by auto
  show "quiet script' \<and> (case r of Inl f \<Rightarrow> E f s' | Inr a \<Rightarrow> Q a s')"
  proof (cases r1)
    case (Inl f)
    with run one here show ?thesis by (auto simp: act_bind_def)
  next
    case (Inr a)
    with run one have "k a (s1, script1) = (r, s', script')" by (simp add: act_bind_def)
    from tripleD [OF assms(2) _ here(1) this] Inr here(2) show ?thesis by simp
  qed
qed

lemma triple_seq:
  assumes "triple P m R E'" and "\<And>f s. E' f s \<Longrightarrow> E f s" and "\<And>a. triple (R a) (k a) Q E"
  shows "triple P (act_bind m k) Q E"
  by (rule triple_bind [OF triple_weaken [OF assms(1)] assms(3)]) (simp_all add: assms(2))

lemma triple_return: "(\<And>s. P s \<Longrightarrow> Q a s) \<Longrightarrow> triple P (act_return a) Q E"
  by (simp add: triple_def act_return_def)

lemma triple_fail: "(\<And>s. P s \<Longrightarrow> E f s) \<Longrightarrow> triple P (act_fail f) Q E"
  by (simp add: triple_def act_fail_def)

lemma triple_map_err:
  assumes "triple P m Q (\<lambda>f. E (h f))"
  shows "triple P (act_map_err h m) Q E"
proof (rule tripleI)
  fix s script r s' script'
  assume P: "P s" "quiet script" and run: "act_map_err h m (s, script) = (r, s', script')"
  obtain r1 s1 script1 where one: "m (s, script) = (r1, s1, script1)" by (cases "m (s, script)") auto
  from run one tripleD [OF assms P one] show "quiet script' \<and> (case r of Inl f \<Rightarrow> E f s' | Inr a \<Rightarrow> Q a s')"
    by (cases r1) (auto simp: act_map_err_def act_either_def)
qed

lemma triple_map_all: "triple P m Q (\<lambda>e. E) \<Longrightarrow> triple P (act_map_err h m) Q (\<lambda>e. E)"
  by (rule triple_map_err)

text \<open>A call that only looks: when it fails, nothing has changed.\<close>

lemma triple_look:
  assumes "triple P m R (\<lambda>e. P)" and "\<And>f s. P s \<Longrightarrow> E f s" and "\<And>a. triple (R a) (k a) Q E"
  shows "triple P (act_bind (act_map_err h m) k) Q E"
  by (rule triple_seq [OF triple_map_all [OF assms(1)] assms(2,3)])

lemma triple_either:
  fixes E :: "'g \<Rightarrow> 's \<Rightarrow> bool" and m :: "('e, 's, 'f, 'a) act"
  assumes "triple P m (\<lambda>a. Q (Inr a)) (\<lambda>f. Q (Inl f))"
  shows "triple P (act_either m) Q E"
proof (rule tripleI)
  fix s script and r :: "'g + 'f + 'a" and s' script'
  assume P: "P s" "quiet script" and run: "act_either m (s, script) = (r, s', script')"
  obtain r1 s1 script1 where one: "m (s, script) = (r1, s1, script1)" by (cases "m (s, script)") auto
  from run one tripleD [OF assms P one] show "quiet script' \<and> (case r of Inl f \<Rightarrow> E f s' | Inr a \<Rightarrow> Q a s')"
    by (cases r1) (auto simp: act_map_err_def act_either_def)
qed

lemma triple_if:
  "(b \<Longrightarrow> triple P m Q E) \<Longrightarrow> (\<not> b \<Longrightarrow> triple P n Q E) \<Longrightarrow> triple P (if b then m else n) Q E"
  by simp

lemma triple_assume: "(\<And>s. P s \<Longrightarrow> b) \<Longrightarrow> (b \<Longrightarrow> triple P m Q E) \<Longrightarrow> triple P m Q E"
  by (cases b) (auto simp: triple_def)

lemma triple_ex:
  assumes "\<And>x. triple (P x) m Q E"
  shows "triple (\<lambda>s. \<exists>x. P x s) m Q E"
proof (rule tripleI)
  fix s script r s' script'
  assume ex: "\<exists>x. P x s" and rest: "quiet script" "m (s, script) = (r, s', script')"
  from ex obtain x where "P x s" by blast
  from tripleD [OF assms this rest] show "quiet script' \<and> (case r of Inl f \<Rightarrow> E f s' | Inr a \<Rightarrow> Q a s')" .
qed

lemma triple_each: "(\<And>s. P s \<Longrightarrow> triple (\<lambda>s'. s' = s) m Q E) \<Longrightarrow> triple P m Q E"
  by (simp add: triple_def)

lemma triple_false: "(\<And>s. \<not> P s) \<Longrightarrow> triple P m Q E"
  by (simp add: triple_def)

lemma triple_conj:
  assumes "triple P m Q E" and "triple P m Q' E'"
  shows "triple P m (\<lambda>a s. Q a s \<and> Q' a s) (\<lambda>f s. E f s \<and> E' f s)"
proof (rule tripleI)
  fix s script r s' script'
  assume "P s" "quiet script" "m (s, script) = (r, s', script')"
  from tripleD [OF assms(1) this] tripleD [OF assms(2) this]
  show "quiet script' \<and> (case r of Inl f \<Rightarrow> E f s' \<and> E' f s' | Inr a \<Rightarrow> Q a s' \<and> Q' a s')"
    by (cases r) auto
qed

end
