(* ===== verification/Share_Files.thy ===== *)
theory Share_Files
  imports Calls Share_Runs
begin

text \<open>
  Sharing one pair of files on APFS (\<open>crates/cli/src/platform/share_macos.rs\<close>): the source is cloned
  beside the duplicate, the clone takes over the duplicate's metadata and is swapped with it, both are
  looked at again, and the original goes, or everything is put back. An open file is its identity.
\<close>

unbundle bit_operations_syntax

section \<open>The disk\<close>

record inode =
  in_bytes :: bytes
  in_mode :: "16 word"
  in_uid :: u32
  in_gid :: u32
  in_flags :: u32
  in_links :: "16 word"
  in_atime :: "int \<times> int"
  in_mtime :: "int \<times> int"
  in_acl :: bool
  in_clone :: "u64 option"
  in_attrs :: "(bytes \<times> bytes) list"

text \<open>The files, the names of the directory the duplicate is in, the name the path of the duplicate
  leads to there unless it has moved, what the path of the keeper names, and the file a clone will be,
  if there is room for one.\<close>

record mac_disk =
  md_files :: "identity \<Rightarrow> inode option"
  md_names :: "bytes \<Rightarrow> identity option"
  md_located :: "bytes option"
  md_keeper :: "identity option"
  md_new :: "identity option"

record mac_os =
  mo_caller :: u32
  mo_cloned :: "inode \<Rightarrow> inode"
  mo_attrlist :: "inode \<Rightarrow> bytes"
  mo_sha :: "bytes \<Rightarrow> bytes"

type_synonym ('f, 'a) mac_act = "(os_error, mac_disk, 'f, 'a) act"

definition not_there :: os_error where
  "not_there = \<lparr>oe_kind = ENotFound, oe_code = Some 2\<rparr>"

definition already_there :: os_error where
  "already_there = \<lparr>oe_kind = EAlreadyExists, oe_code = Some 17\<rparr>"

definition no_space :: os_error where
  "no_space = \<lparr>oe_kind = EStorageFull, oe_code = Some 28\<rparr>"

definition io_error :: "error_kind \<Rightarrow> os_error" where
  "io_error k = \<lparr>oe_kind = k, oe_code = None\<rparr>"

text \<open>A call on an open file.\<close>

definition on_file :: "identity \<Rightarrow> (inode \<Rightarrow> os_error + 'a) \<Rightarrow> (os_error, 'a) mac_act" where
  "on_file i f = call (\<lambda>d. ((case md_files d i of None \<Rightarrow> Inl not_there | Some n \<Rightarrow> f n), d))"

definition change_file :: "identity \<Rightarrow> (inode \<Rightarrow> inode) \<Rightarrow> (os_error, unit) mac_act" where
  "change_file i f = call (\<lambda>d. case md_files d i of
      None \<Rightarrow> (Inl not_there, d)
    | Some n \<Rightarrow> (Inr (), d\<lparr>md_files := (md_files d)(i \<mapsto> f n)\<rparr>))"

record file_stat =
  fs_identity :: identity
  fs_size :: nat
  fs_mode :: "16 word"
  fs_uid :: u32
  fs_gid :: u32
  fs_flags :: u32
  fs_links :: "16 word"
  fs_atime :: "int \<times> int"
  fs_mtime :: "int \<times> int"

definition stat_of :: "identity \<Rightarrow> inode \<Rightarrow> file_stat" where
  "stat_of i n =
     \<lparr>fs_identity = i, fs_size = length (in_bytes n), fs_mode = in_mode n, fs_uid = in_uid n, fs_gid = in_gid n,
      fs_flags = in_flags n, fs_links = in_links n, fs_atime = in_atime n, fs_mtime = in_mtime n\<rparr>"

definition stat_fd :: "identity \<Rightarrow> (os_error, file_stat) mac_act" where
  "stat_fd i = on_file i (\<lambda>n. Inr (stat_of i n))"

definition stat_at :: "bytes \<Rightarrow> (os_error, file_stat) mac_act" where
  "stat_at name = call (\<lambda>d. ((case md_names d name of
      None \<Rightarrow> Inl not_there
    | Some i \<Rightarrow> (case md_files d i of None \<Rightarrow> Inl not_there | Some n \<Rightarrow> Inr (stat_of i n))), d))"

definition unlink_at :: "bytes \<Rightarrow> (os_error, unit) mac_act" where
  "unlink_at name = call (\<lambda>d. case md_names d name of
      None \<Rightarrow> (Inl not_there, d)
    | Some i \<Rightarrow> (Inr (), d\<lparr>md_names := (md_names d)(name := None)\<rparr>))"

definition open_call :: "(mac_disk \<Rightarrow> identity option) \<Rightarrow> (os_error, identity) mac_act" where
  "open_call which = call (\<lambda>d. ((case which d of None \<Rightarrow> Inl not_there | Some i \<Rightarrow> Inr i), d))"

definition regular_mode :: "16 word \<Rightarrow> bool" where
  "regular_mode mode \<longleftrightarrow> mode AND 0xF000 = 0x8000"

definition regular :: "identity \<Rightarrow> (os_error, identity) mac_act" where
  "regular i = act_bind (stat_fd i) (\<lambda>st.
     if regular_mode (fs_mode st) then act_return i else act_fail (io_error EInvalidInput))"

definition open_regular :: "(mac_disk \<Rightarrow> identity option) \<Rightarrow> (os_error, identity) mac_act" where
  "open_regular which = act_bind (open_call which) regular"

section \<open>Contents\<close>

definition chunk_len :: u64 where
  "chunk_len = 0x100000"

definition read_exact_at :: "identity \<Rightarrow> u64 \<Rightarrow> u64 \<Rightarrow> (os_error, bytes) mac_act" where
  "read_exact_at i wanted at = on_file i (\<lambda>n.
     (let bs = take (unat wanted) (drop (unat at) (in_bytes n)) in
      if length bs = unat wanted then Inr bs else Inl (io_error EUnexpectedEof)))"

function same_bytes_from :: "identity \<Rightarrow> identity \<Rightarrow> u64 \<Rightarrow> u64 \<Rightarrow> (os_error, bool) mac_act" where
  "same_bytes_from left right len offset w =
     (if offset < len then
        (let wanted = min (len - offset) chunk_len in
         case read_exact_at left wanted offset w of
           (Inl e, w1) \<Rightarrow> (Inl e, w1)
         | (Inr l, w1) \<Rightarrow>
             (case read_exact_at right wanted offset w1 of
                (Inl e, w2) \<Rightarrow> (Inl e, w2)
              | (Inr r, w2) \<Rightarrow>
                  if l = r then same_bytes_from left right len (sat_add offset wanted) w2 else (Inr False, w2)))
      else (Inr True, w))"
  by pat_completeness auto

termination
proof (relation "measure (\<lambda>(left, right, len, offset, w). unat len - unat offset)")
  fix left right :: identity and len offset :: u64 and w w1 w2 :: "mac_disk \<times> (os_error, mac_disk) script"
    and wanted and x and l and y and r
  assume less: "offset < len" and wanted: "wanted = min (len - offset) chunk_len"
  have "0 < unat wanted" using less by (auto simp: wanted min_def chunk_len_def unat_gt_0)
  moreover have "unat len < 2 ^ 64" using unsigned_less [of len] by simp
  then have "unat offset < 2 ^ 64 - 1" using less unfolding word_less_nat_alt by linarith
  ultimately have "unat offset < unat (sat_add offset wanted)" by (simp add: unat_sat_add min_def)
  with less show "((left, right, len, sat_add offset wanted, w2), (left, right, len, offset, w))
      \<in> measure (\<lambda>(left, right, len, offset, w). unat len - unat offset)"
    by (simp add: word_less_nat_alt)
qed simp

definition same_bytes :: "identity \<Rightarrow> identity \<Rightarrow> u64 \<Rightarrow> (os_error, bool) mac_act" where
  "same_bytes left right len = same_bytes_from left right len 0"

section \<open>Extras\<close>

text \<open>What \<open>fgetattrlist\<close> wrote, read by a cursor; integers are little-endian on these machines.\<close>

definition cursor_take :: "nat \<Rightarrow> bytes \<Rightarrow> (bytes \<times> bytes) option" where
  "cursor_take n bs = (if n \<le> length bs then Some (take n bs, drop n bs) else None)"

definition cursor_u32 :: "bytes \<Rightarrow> (u32 \<times> bytes) option" where
  "cursor_u32 bs = map_option (\<lambda>(taken, rest). (of_nat (of_le_bytes taken), rest)) (cursor_take 4 bs)"

definition cursor_u64 :: "bytes \<Rightarrow> (u64 \<times> bytes) option" where
  "cursor_u64 bs = map_option (\<lambda>(taken, rest). (of_nat (of_le_bytes taken), rest)) (cursor_take 8 bs)"

record common_attrs =
  ca_acl :: bool
  ca_clone :: "u64 option"

definition parse_common :: "bytes \<Rightarrow> common_attrs option" where
  "parse_common bs =
     Option.bind (cursor_u32 bs) (\<lambda>(_, bs).
     Option.bind (cursor_u32 bs) (\<lambda>(common, bs).
     Option.bind (cursor_u32 bs) (\<lambda>(_, bs).
     Option.bind (cursor_u32 bs) (\<lambda>(_, bs).
     Option.bind (cursor_u32 bs) (\<lambda>(_, bs).
     Option.bind (cursor_u32 bs) (\<lambda>(fork, bs).
       (let acl = common AND 0x400000 \<noteq> 0 in
        Option.bind (if acl then map_option snd (cursor_u64 bs) else Some bs) (\<lambda>bs.
          if fork AND 0x100 = 0 then Some \<lparr>ca_acl = acl, ca_clone = None\<rparr>
          else map_option (\<lambda>(c, _). \<lparr>ca_acl = acl, ca_clone = Some c\<rparr>) (cursor_u64 bs)))))))))"

definition common_of :: "mac_os \<Rightarrow> identity \<Rightarrow> (os_error, common_attrs) mac_act" where
  "common_of os i = on_file i (\<lambda>n. case parse_common (mo_attrlist os n) of
     None \<Rightarrow> Inl (io_error EInvalidData) | Some c \<Rightarrow> Inr c)"

definition listed_attrs :: "identity \<Rightarrow> (os_error, bytes) mac_act" where
  "listed_attrs i = on_file i (\<lambda>n. Inr (concat (map (\<lambda>(name, _). name @ [CHR 0x00]) (in_attrs n))))"

definition attr_value :: "identity \<Rightarrow> bytes \<Rightarrow> (os_error, bytes) mac_act" where
  "attr_value i name = on_file i (\<lambda>n. case map_of (in_attrs n) name of
     None \<Rightarrow> Inl \<lparr>oe_kind = EOther, oe_code = Some 93\<rparr> | Some v \<Rightarrow> Inr v)"

fun attr_values :: "identity \<Rightarrow> bytes list \<Rightarrow> (os_error, (bytes \<times> bytes) list) mac_act" where
  "attr_values i [] = act_return []"
| "attr_values i (name # names) =
     act_bind (attr_value i name) (\<lambda>v.
     act_bind (attr_values i names) (\<lambda>rest. act_return ((name, v) # rest)))"

definition attr_digest :: "(bytes \<Rightarrow> bytes) \<Rightarrow> (bytes \<times> bytes) list \<Rightarrow> bytes" where
  "attr_digest sha entries =
     take 16 (sha (concat (map (\<lambda>(k, v). le64 (of_nat (length k)) @ k @ le64 (of_nat (length v)) @ v) (sort entries))))"

definition attributes :: "mac_os \<Rightarrow> identity \<Rightarrow> (os_error, bytes) mac_act" where
  "attributes os i =
     act_bind (listed_attrs i) (\<lambda>names.
     act_bind (attr_values i (filter (\<lambda>name. name \<noteq> []) (split_on (\<lambda>b. b = CHR 0x00) names))) (\<lambda>entries.
       act_return (attr_digest (mo_sha os) entries)))"

definition classify :: "mac_os \<Rightarrow> identity \<Rightarrow> file_stat \<Rightarrow> bool option \<Rightarrow> ('f, extras) mac_act" where
  "classify os i st acl =
     (case acl of
        None \<Rightarrow> act_return extras.Unobserved
      | Some True \<Rightarrow> act_return extras.Special
      | Some False \<Rightarrow>
          if fs_flags st \<noteq> 0 then act_return extras.Special
          else act_bind (act_either (attributes os i)) (\<lambda>r.
            act_return (case r of Inr digest \<Rightarrow> extras.Plain digest | Inl _ \<Rightarrow> extras.Unobserved)))"

definition extras_of :: "mac_os \<Rightarrow> identity \<Rightarrow> file_stat \<Rightarrow> ('f, extras) mac_act" where
  "extras_of os i st =
     act_bind (act_either (common_of os i)) (\<lambda>r.
       case r of Inr seen \<Rightarrow> classify os i st (Some (ca_acl seen)) | Inl _ \<Rightarrow> act_return extras.Unobserved)"

definition mac_extras :: "mac_os \<Rightarrow> (mac_disk \<Rightarrow> identity option) \<Rightarrow> identity \<Rightarrow> ('f, extras) mac_act" where
  "mac_extras os which expected =
     act_bind (act_either (open_regular which)) (\<lambda>r.
       case r of
         Inl _ \<Rightarrow> act_return extras.Unobserved
       | Inr i \<Rightarrow>
           act_bind (act_either (stat_fd i)) (\<lambda>st.
             case st of
               Inr st \<Rightarrow> if fs_identity st = expected then extras_of os i st else act_return extras.Unobserved
             | Inl _ \<Rightarrow> act_return extras.Unobserved))"

section \<open>Facts of a file\<close>

definition executable_mode :: "16 word \<Rightarrow> file_mode" where
  "executable_mode mode = (if mode AND 0x49 = 0 then file_mode.Plain else file_mode.Executable)"

definition mac_facts :: "mac_os \<Rightarrow> identity \<Rightarrow> file_stat \<Rightarrow> (os_error, file_facts) mac_act" where
  "mac_facts os i st =
     act_bind (act_either (common_of os i)) (\<lambda>r. act_return
       \<lparr>ff_identity = fs_identity st, ff_len = of_nat (fs_size st), ff_links = ucast (fs_links st),
        ff_owner = (if fs_uid st = mo_caller os then Caller else file_owner.Other),
        ff_mode = executable_mode (fs_mode st),
        ff_sharing = (case r of
            Inr c \<Rightarrow> (case ca_clone c of Some k \<Rightarrow> sharing.Cluster k | None \<Rightarrow> sharing.Unknown)
          | Inl _ \<Rightarrow> sharing.Unknown)\<rparr>)"

definition mac_filesystem :: "bytes \<Rightarrow> filesystem" where
  "mac_filesystem raw =
     (case split_once (CHR 0x00) raw of
        Some (name, _) \<Rightarrow> if name = ''apfs'' then Apfs else filesystem.Other
      | None \<Rightarrow> filesystem.Other)"

section \<open>Carrying metadata over\<close>

definition permissions :: "16 word" where
  "permissions = 0xFFF"

definition carry :: "identity \<Rightarrow> file_stat \<Rightarrow> (os_error, unit) mac_act" where
  "carry clone original =
     act_bind (change_file clone (\<lambda>n.
       n\<lparr>in_mode := (in_mode n AND NOT permissions) OR (fs_mode original AND permissions)\<rparr>)) (\<lambda>_.
     act_bind (stat_fd clone) (\<lambda>now.
     act_bind (if fs_gid now \<noteq> fs_gid original then change_file clone (\<lambda>n. n\<lparr>in_gid := fs_gid original\<rparr>)
               else act_return ()) (\<lambda>_.
       change_file clone (\<lambda>n. n\<lparr>in_atime := fs_atime original, in_mtime := fs_mtime original\<rparr>))))"

definition same_metadata :: "file_stat \<Rightarrow> file_stat \<Rightarrow> bool" where
  "same_metadata l r \<longleftrightarrow>
     fs_mode l = fs_mode r \<and> fs_uid l = fs_uid r \<and> fs_gid l = fs_gid r \<and> fs_flags l = fs_flags r \<and>
     fs_size l = fs_size r \<and> fs_mtime l = fs_mtime r"

section \<open>Opening\<close>

record opened_file =
  op_file :: identity
  op_stat :: file_stat

definition share_failed :: "share_step \<Rightarrow> os_error \<Rightarrow> share_failure" where
  "share_failed step e = share_failure.Io step (describe e)"

abbreviation named :: "bytes \<Rightarrow> mac_disk \<Rightarrow> identity option" where
  "named name d \<equiv> md_names d name"

definition open_file :: "bytes \<Rightarrow> (os_error, opened_file) mac_act" where
  "open_file name =
     act_bind (open_regular (named name)) (\<lambda>i.
     act_bind (stat_fd i) (\<lambda>st. act_return \<lparr>op_file = i, op_stat = st\<rparr>))"

definition replaceable :: "mac_os \<Rightarrow> file_stat \<Rightarrow> bool" where
  "replaceable os st \<longleftrightarrow>
     fs_links st = 1 \<and> fs_uid st = mo_caller os \<and> fs_flags st = 0 \<and> executable_mode (fs_mode st) = file_mode.Plain"

definition stat_size :: "file_stat \<Rightarrow> u64" where
  "stat_size st = of_nat (fs_size st)"

definition open_keeper :: "share_request \<Rightarrow> (share_failure, opened_file) mac_act" where
  "open_keeper rq =
     act_bind (act_map_err (\<lambda>_. KeeperChanged) (open_regular md_keeper)) (\<lambda>i.
     act_bind (act_map_err (share_failed share_step.Inspect) (stat_fd i)) (\<lambda>st.
       if fs_identity st \<noteq> rq_keeper_identity rq \<or> stat_size st \<noteq> rq_len rq then act_fail KeeperChanged
       else act_return \<lparr>op_file = i, op_stat = st\<rparr>))"

definition open_duplicate :: "mac_os \<Rightarrow> bytes \<Rightarrow> share_request \<Rightarrow> (share_failure, opened_file) mac_act" where
  "open_duplicate os name rq =
     act_bind (act_map_err (\<lambda>_. DuplicateChanged) (open_file name)) (\<lambda>f.
       if fs_identity (op_stat f) \<noteq> rq_duplicate_identity rq \<or> stat_size (op_stat f) \<noteq> rq_len rq \<or>
          \<not> replaceable os (op_stat f)
       then act_fail DuplicateChanged else act_return f)"

section \<open>The steps of a share\<close>

definition temporary_name :: "bytes \<Rightarrow> share_failure + bytes" where
  "temporary_name name =
     (let bs = CHR ''.'' # name @ temporary_suffix in
      if CHR 0x00 \<in> set bs then Inl DuplicateChanged else Inr bs)"

text \<open>The clone has the keeper's content and what else the filesystem clones with it.\<close>

definition clone_to :: "mac_os \<Rightarrow> identity \<Rightarrow> bytes \<Rightarrow> (os_error, unit) mac_act" where
  "clone_to os source name = call (\<lambda>d.
     case (md_names d name, md_files d source, md_new d) of
       (Some _, _, _) \<Rightarrow> (Inl already_there, d)
     | (None, None, _) \<Rightarrow> (Inl not_there, d)
     | (None, Some n, None) \<Rightarrow> (Inl no_space, d)
     | (None, Some n, Some i) \<Rightarrow>
         (Inr (), d\<lparr>md_files := (md_files d)(i \<mapsto> mo_cloned os n), md_names := (md_names d)(name \<mapsto> i)\<rparr>))"

definition swap_names :: "bytes \<Rightarrow> bytes \<Rightarrow> (os_error, unit) mac_act" where
  "swap_names a b = call (\<lambda>d.
     case (md_names d a, md_names d b) of
       (Some i, Some j) \<Rightarrow> (Inr (), d\<lparr>md_names := (md_names d)(a \<mapsto> j, b \<mapsto> i)\<rparr>)
     | _ \<Rightarrow> (Inl not_there, d))"

text \<open>Failures to discard are abandoned.\<close>

definition discard :: "bytes \<Rightarrow> identity \<Rightarrow> ('f, unit) mac_act" where
  "discard name expected =
     act_bind (act_either (stat_at name)) (\<lambda>st.
       case st of
         Inl _ \<Rightarrow> act_return ()
       | Inr st \<Rightarrow>
           if fs_identity st = expected then act_bind (act_either (unlink_at name)) (\<lambda>_. act_return ())
           else act_return ())"

definition reclaim :: "bytes \<Rightarrow> opened_file \<Rightarrow> u64 \<Rightarrow> (share_failure, unit) mac_act" where
  "reclaim name duplicate len =
     act_bind (act_map_err (\<lambda>_. Leftover) (open_file name)) (\<lambda>leftover.
     act_bind (if fs_size (op_stat leftover) \<noteq> fs_size (op_stat duplicate) then act_return False
               else act_map_err (share_failed Read) (same_bytes (op_file leftover) (op_file duplicate) len)) (\<lambda>same.
       if \<not> same then act_fail Leftover
       else act_bind (act_map_err (share_failed share_step.Inspect) (stat_at name)) (\<lambda>seen.
         if fs_identity seen \<noteq> fs_identity (op_stat leftover) then act_fail Leftover
         else act_map_err (share_failed Unlink) (unlink_at name))))"

definition prepare :: "mac_os \<Rightarrow> opened_file \<Rightarrow> opened_file \<Rightarrow> extras \<Rightarrow> u64 \<Rightarrow> (share_failure, unit) mac_act" where
  "prepare os clone duplicate wanted len =
     act_bind (if fs_size (op_stat clone) \<noteq> fs_size (op_stat duplicate) then act_return False
               else act_map_err (share_failed Read) (same_bytes (op_file clone) (op_file duplicate) len)) (\<lambda>same.
       if \<not> same then act_fail ContentDiffers
       else
         act_bind (act_map_err (share_failed Carry) (carry (op_file clone) (op_stat duplicate))) (\<lambda>_.
         act_bind (act_map_err (share_failed share_step.Inspect) (stat_fd (op_file clone))) (\<lambda>carried.
         act_bind (if \<not> same_metadata carried (op_stat duplicate) then act_return False
                   else act_bind (extras_of os (op_file clone) carried) (\<lambda>seen. act_return (seen = wanted))) (\<lambda>kept.
           if kept then act_return () else act_fail MetadataNotCarried))))"

definition settled_swap :: "bytes \<Rightarrow> bytes \<Rightarrow> opened_file \<Rightarrow> opened_file \<Rightarrow> u64 \<Rightarrow> (share_failure, unit) mac_act" where
  "settled_swap name temporary clone duplicate len =
     act_bind (act_map_err (share_failed share_step.Inspect) (stat_at name)) (\<lambda>at_name.
     act_bind (act_map_err (share_failed share_step.Inspect) (stat_at temporary)) (\<lambda>at_temporary.
     act_bind (act_map_err (share_failed share_step.Inspect) (stat_fd (op_file duplicate))) (\<lambda>now.
       if fs_identity at_name \<noteq> fs_identity (op_stat clone) \<or>
          fs_identity at_temporary \<noteq> fs_identity (op_stat duplicate) \<or> \<not> same_metadata now (op_stat duplicate)
       then act_fail DuplicateChanged
       else
         act_bind (act_map_err (share_failed Read) (same_bytes (op_file clone) (op_file duplicate) len)) (\<lambda>same.
           if same then act_return () else act_fail ContentDiffers))))"

definition restore :: "bytes \<Rightarrow> bytes \<Rightarrow> opened_file \<Rightarrow> opened_file \<Rightarrow> (share_failure, unit) mac_act" where
  "restore name temporary clone duplicate =
     act_bind (act_map_err (\<lambda>_. Stranded) (swap_names temporary name)) (\<lambda>_.
     act_bind (act_map_err (\<lambda>_. Stranded) (stat_at name)) (\<lambda>back.
       if fs_identity back \<noteq> fs_identity (op_stat duplicate) then act_fail Stranded
       else discard temporary (fs_identity (op_stat clone))))"

section \<open>The share\<close>

definition make_clone :: "mac_os \<Rightarrow> opened_file \<Rightarrow> opened_file \<Rightarrow> bytes \<Rightarrow> u64 \<Rightarrow> (share_failure, opened_file) mac_act" where
  "make_clone os source duplicate temporary len =
     act_bind (act_either (clone_to os (op_file source) temporary)) (\<lambda>made.
     act_bind (case made of
         Inr _ \<Rightarrow> act_return ()
       | Inl e \<Rightarrow>
           if oe_kind e = EAlreadyExists then
             act_bind (reclaim temporary duplicate len) (\<lambda>_.
               act_map_err (share_failed Clone) (clone_to os (op_file source) temporary))
           else act_fail (share_failed Clone e)) (\<lambda>_.
       act_map_err (share_failed share_step.Open) (open_file temporary)))"

text \<open>Everything up to the swap: the names, the clone and the duplicate.\<close>

record prepared =
  pd_name :: bytes
  pd_temporary :: bytes
  pd_clone :: opened_file
  pd_duplicate :: opened_file

definition extras_agree :: "extras \<Rightarrow> extras \<Rightarrow> bool" where
  "extras_agree kept wanted \<longleftrightarrow>
     (case (kept, wanted) of (extras.Plain k, extras.Plain f) \<Rightarrow> k = f | _ \<Rightarrow> False)"

definition prepare_clone ::
  "mac_os \<Rightarrow> share_request \<Rightarrow> opened_file \<Rightarrow> opened_file \<Rightarrow> bytes \<Rightarrow> bytes \<Rightarrow> extras \<Rightarrow> (share_failure, prepared) mac_act" where
  "prepare_clone os rq source duplicate name temporary wanted =
     act_bind (make_clone os source duplicate temporary (rq_len rq)) (\<lambda>clone.
     act_bind (act_either (prepare os clone duplicate wanted (rq_len rq))) (\<lambda>r.
       case r of
         Inr _ \<Rightarrow> act_return \<lparr>pd_name = name, pd_temporary = temporary, pd_clone = clone, pd_duplicate = duplicate\<rparr>
       | Inl failure \<Rightarrow>
           act_bind (discard temporary (fs_identity (op_stat clone))) (\<lambda>_. act_fail failure)))"

definition share_prepared :: "mac_os \<Rightarrow> share_request \<Rightarrow> (share_failure, prepared) mac_act" where
  "share_prepared os rq =
     act_bind (open_keeper rq) (\<lambda>source.
     act_bind (act_map_err (share_failed share_step.Open) (call (\<lambda>d. (Inr (md_located d), d)))) (\<lambda>located.
       case located of
         None \<Rightarrow> act_fail DuplicateChanged
       | Some name \<Rightarrow>
           act_bind (open_duplicate os name rq) (\<lambda>duplicate.
           act_bind (extras_of os (op_file duplicate) (op_stat duplicate)) (\<lambda>wanted.
           act_bind (extras_of os (op_file source) (op_stat source)) (\<lambda>kept.
             if \<not> extras_agree kept wanted then act_fail DuplicateChanged
             else (case temporary_name name of
                     Inl failure \<Rightarrow> act_fail failure
                   | Inr temporary \<Rightarrow> prepare_clone os rq source duplicate name temporary wanted))))))"

definition remove_original :: "prepared \<Rightarrow> (share_failure, unit) mac_act" where
  "remove_original p =
     act_bind (act_map_err (share_failed share_step.Inspect) (stat_at (pd_temporary p))) (\<lambda>original.
       if fs_identity original \<noteq> fs_identity (op_stat (pd_duplicate p)) then act_fail Stranded
       else act_map_err (share_failed Unlink) (unlink_at (pd_temporary p)))"

definition settle_swap :: "prepared \<Rightarrow> u64 \<Rightarrow> (share_failure, unit) mac_act" where
  "settle_swap p len =
     act_bind (act_either (settled_swap (pd_name p) (pd_temporary p) (pd_clone p) (pd_duplicate p) len)) (\<lambda>r.
       case r of
         Inl failure \<Rightarrow>
           act_bind (restore (pd_name p) (pd_temporary p) (pd_clone p) (pd_duplicate p)) (\<lambda>_. act_fail failure)
       | Inr _ \<Rightarrow> remove_original p)"

definition share_swapped :: "prepared \<Rightarrow> u64 \<Rightarrow> (share_failure, unit) mac_act" where
  "share_swapped p len =
     act_bind (act_either (swap_names (pd_temporary p) (pd_name p))) (\<lambda>r.
       case r of
         Inl e \<Rightarrow>
           act_bind (discard (pd_temporary p) (fs_identity (op_stat (pd_clone p))))
             (\<lambda>_. act_fail (share_failed Swap e))
       | Inr _ \<Rightarrow> settle_swap p len)"

definition mac_share :: "mac_os \<Rightarrow> share_method \<Rightarrow> share_request \<Rightarrow> (share_failure, unit) mac_act" where
  "mac_share os method rq =
     (case method of
        DedupeRange \<Rightarrow> act_fail (share_failed Dedupe (io_error EUnsupported))
      | CloneAndSwap \<Rightarrow> act_bind (share_prepared os rq) (\<lambda>p. share_swapped p (rq_len rq)))"

end
