(* ===== verification/Share_Files_Facts.thy ===== *)
theory Share_Files_Facts
  imports Share_Files
begin

text \<open>
  Facts on sharing one pair of files: whatever call fails at whatever point, no file but the temporary
  one loses its content, and a change another process makes before the swap is not lost.
\<close>

section \<open>Calls that only look\<close>

lemma triple_on_file:
  "triple P (on_file i f) (\<lambda>a d. P d \<and> (\<exists>n. md_files d i = Some n \<and> f n = Inr a)) (\<lambda>e. P)"
  unfolding on_file_def by (rule triple_call) (auto split: option.splits sum.splits)

lemma triple_stat_fd:
  "triple P (stat_fd i) (\<lambda>st d. P d \<and> (\<exists>n. md_files d i = Some n \<and> st = stat_of i n)) (\<lambda>e. P)"
  unfolding stat_fd_def by (rule triple_weaken [OF triple_on_file [of P]]) auto

lemma triple_stat_at:
  "triple P (stat_at name)
     (\<lambda>st d. P d \<and> (\<exists>i n. md_names d name = Some i \<and> md_files d i = Some n \<and> st = stat_of i n)) (\<lambda>e. P)"
  unfolding stat_at_def by (rule triple_call) (auto split: option.splits sum.splits)

lemma triple_open_call:
  "triple P (open_call which) (\<lambda>i d. P d \<and> which d = Some i) (\<lambda>e. P)"
  unfolding open_call_def by (rule triple_call) (auto split: option.splits sum.splits)

lemma triple_regular:
  "triple P (regular i) (\<lambda>j d. P d \<and> j = i \<and> (\<exists>n. md_files d i = Some n)) (\<lambda>e. P)"
  unfolding regular_def
  by (rule triple_seq [OF triple_stat_fd [of P]]) (auto intro!: triple_return triple_fail)

lemma triple_open_regular:
  "triple P (open_regular which) (\<lambda>i d. P d \<and> which d = Some i \<and> (\<exists>n. md_files d i = Some n)) (\<lambda>e. P)"
  unfolding open_regular_def
proof (rule triple_seq [OF triple_open_call [of P]])
  fix i
  show "triple (\<lambda>d. P d \<and> which d = Some i) (regular i)
      (\<lambda>i d. P d \<and> which d = Some i \<and> (\<exists>n. md_files d i = Some n)) (\<lambda>e. P)"
    by (rule triple_weaken [OF triple_regular [of "\<lambda>d. P d \<and> which d = Some i"]]) auto
qed

definition opened_as :: "opened_file \<Rightarrow> mac_disk \<Rightarrow> bool" where
  "opened_as f d \<longleftrightarrow> (\<exists>n. md_files d (op_file f) = Some n \<and> op_stat f = stat_of (op_file f) n)"

lemma triple_open_file:
  "triple P (open_file name) (\<lambda>f d. P d \<and> md_names d name = Some (op_file f) \<and> opened_as f d) (\<lambda>e. P)"
  unfolding open_file_def
proof (rule triple_seq [OF triple_open_regular [of P]])
  fix i
  show "triple (\<lambda>d. P d \<and> named name d = Some i \<and> (\<exists>n. md_files d i = Some n))
      (act_bind (stat_fd i) (\<lambda>st. act_return \<lparr>op_file = i, op_stat = st\<rparr>))
      (\<lambda>f d. P d \<and> md_names d name = Some (op_file f) \<and> opened_as f d) (\<lambda>e. P)"
    by (rule triple_pre [OF triple_seq [OF triple_stat_fd [of "\<lambda>d. P d \<and> md_names d name = Some i"]]])
      (auto intro!: triple_return simp: opened_as_def)
qed simp

section \<open>Comparing contents\<close>

lemma call_reads:
  assumes "on_file i f (d, script) = (r, d', script')" and "quiet script"
  shows "d' = d \<and> quiet script' \<and> (\<forall>a. r = Inr a \<longrightarrow> (\<exists>n. md_files d i = Some n \<and> f n = Inr a))"
  using tripleD [OF triple_on_file [of "\<lambda>x. x = d" i f] refl assms(2,1)] by (cases r) auto

lemma same_bytes_from_reads:
  assumes "same_bytes_from l r len at (d, script) = (res, d', script')" and "quiet script"
    and "md_files d l = Some m" "md_files d r = Some n" and "take (unat at) (in_bytes m) = take (unat at) (in_bytes n)"
  shows "d' = d \<and> quiet script' \<and> (res = Inr True \<longrightarrow> take (unat len) (in_bytes m) = take (unat len) (in_bytes n))"
  using assms
proof (induction "unat len - unat at" arbitrary: at script rule: less_induct)
  case less
  show ?case
  proof (cases "at < len")
    case False
    then have "unat len \<le> unat at" by (simp add: word_less_nat_alt)
    then have "take (unat len) (in_bytes m) = take (unat len) (in_bytes n)"
      using less.prems(5) by (metis min.absorb1 take_take)
    with False less.prems show ?thesis by (subst (asm) same_bytes_from.simps) auto
  next
    case True
    define wanted where "wanted = min (len - at) chunk_len"
    have len: "unat len < 2 ^ 64" using unsigned_less [of len] by simp
    have wanted: "0 < unat wanted" "unat wanted \<le> unat len - unat at"
      using True by (auto simp: wanted_def min_def chunk_len_def unat_gt_0 word_le_nat_alt unat_sub word_less_nat_alt)
    then have step: "unat (sat_add at wanted) = unat at + unat wanted"
      using len by (simp add: unat_sat_add)
    obtain x d1 script1 where one: "read_exact_at l wanted at (d, script) = (x, d1, script1)"
      by (cases "read_exact_at l wanted at (d, script)") auto
    from call_reads [OF one [unfolded read_exact_at_def] less.prems(2)] have d1: "d1 = d" "quiet script1"
      and x: "\<And>a. x = Inr a \<Longrightarrow> a = take (unat wanted) (drop (unat at) (in_bytes m))"
      using less.prems(3) by (auto simp: Let_def split: if_splits)
    show ?thesis
    proof (cases x)
      case (Inl e)
      with less.prems(1) True one d1 show ?thesis
        by (subst (asm) same_bytes_from.simps) (auto simp: wanted_def Let_def)
    next
      case xs: (Inr a)
      obtain y d2 script2 where two: "read_exact_at r wanted at (d, script1) = (y, d2, script2)"
        by (cases "read_exact_at r wanted at (d, script1)") auto
      from call_reads [OF two [unfolded read_exact_at_def] d1(2)] have d2: "d2 = d" "quiet script2"
        and y: "\<And>a. y = Inr a \<Longrightarrow> a = take (unat wanted) (drop (unat at) (in_bytes n))"
        using less.prems(4) by (auto simp: Let_def split: if_splits)
      show ?thesis
      proof (cases "y = Inr a")
        case False
        with less.prems(1) True one xs d1 two d2 show ?thesis
          by (subst (asm) same_bytes_from.simps) (cases y; auto simp: wanted_def Let_def split: if_splits)
      next
        case same: True
        with x [OF xs] y have "take (unat wanted) (drop (unat at) (in_bytes m)) = take (unat wanted) (drop (unat at) (in_bytes n))"
          by simp
        with less.prems(5) step have "take (unat (sat_add at wanted)) (in_bytes m) = take (unat (sat_add at wanted)) (in_bytes n)"
          by (simp add: take_add)
        moreover have "same_bytes_from l r len (sat_add at wanted) (d, script2) = (res, d', script')"
          using less.prems(1) True one xs d1 two d2 same
          by (subst (asm) same_bytes_from.simps) (simp add: wanted_def Let_def)
        moreover have "unat len - unat (sat_add at wanted) < unat len - unat at"
          using wanted step by linarith
        ultimately show ?thesis using less.hyps d2(2) less.prems(3,4) by blast
      qed
    qed
  qed
qed

lemma triple_same_bytes:
  assumes "\<And>d. P d \<Longrightarrow> \<exists>m. md_files d l = Some m" and "\<And>d. P d \<Longrightarrow> \<exists>n. md_files d r = Some n"
  shows "triple P (same_bytes l r len)
    (\<lambda>equal d. P d \<and> (equal \<longrightarrow> (\<forall>m n. md_files d l = Some m \<longrightarrow> md_files d r = Some n \<longrightarrow>
       take (unat len) (in_bytes m) = take (unat len) (in_bytes n)))) (\<lambda>e. P)"
proof (rule tripleI)
  fix d script res d' script'
  assume P: "P d" and script: "quiet script" and run: "same_bytes l r len (d, script) = (res, d', script')"
  from assms P obtain m n where files: "md_files d l = Some m" "md_files d r = Some n" by blast
  from same_bytes_from_reads [OF run [unfolded same_bytes_def] script files]
  show "quiet script' \<and> (case res of Inl e \<Rightarrow> P d' | Inr equal \<Rightarrow> P d' \<and> (equal \<longrightarrow>
      (\<forall>m n. md_files d' l = Some m \<longrightarrow> md_files d' r = Some n \<longrightarrow>
        take (unat len) (in_bytes m) = take (unat len) (in_bytes n))))"
    using P files by (cases res) auto
qed

section \<open>Extras only look\<close>

lemma triple_attr_values: "triple P (attr_values i names) (\<lambda>a. P) (\<lambda>e. P)"
proof (induction names)
  case Nil
  show ?case by (auto intro: triple_return)
next
  case (Cons name names)
  show ?case unfolding attr_values.simps attr_value_def
    by (rule triple_seq [OF triple_on_file [of P]])
      (auto intro!: triple_seq [OF Cons] triple_return intro: triple_pre [OF triple_seq [OF Cons]])
qed

lemma triple_attributes: "triple P (attributes os i) (\<lambda>a. P) (\<lambda>e. P)"
  unfolding attributes_def listed_attrs_def
  by (rule triple_seq [OF triple_weaken [OF triple_on_file [of P]] _ triple_seq [OF triple_attr_values]])
    (auto intro: triple_return)

lemma triple_classify: "triple P (classify os i st acl) (\<lambda>a. P) E"
  unfolding classify_def
  by (auto intro!: triple_return triple_bind [OF triple_either [OF triple_attributes [of P]]] split: option.splits bool.splits)

lemma triple_extras_of: "triple P (extras_of os i st) (\<lambda>a. P) E"
  unfolding extras_of_def common_of_def
proof (rule triple_bind [OF triple_either])
  show "triple P (on_file i (\<lambda>n. case parse_common (mo_attrlist os n) of None \<Rightarrow> Inl (io_error EInvalidData) | Some c \<Rightarrow> Inr c))
      (\<lambda>a. P) (\<lambda>e. P)"
    by (rule triple_weaken [OF triple_on_file [of P]]) auto
qed (auto intro: triple_classify triple_return split: sum.splits)

section \<open>Calls that change the disk\<close>

lemma triple_change_file:
  assumes "\<And>d n. P d \<Longrightarrow> md_files d i = Some n \<Longrightarrow> Q () (d\<lparr>md_files := (md_files d)(i \<mapsto> f n)\<rparr>)"
    and "\<And>e d. P d \<Longrightarrow> E e d"
  shows "triple P (change_file i f) Q E"
  unfolding change_file_def using assms by (intro triple_call) (auto split: option.splits)

lemma triple_unlink_at:
  assumes "\<And>d. P d \<Longrightarrow> Q () (d\<lparr>md_names := (md_names d)(name := None)\<rparr>)" and "\<And>e d. P d \<Longrightarrow> E e d"
  shows "triple P (unlink_at name) Q E"
  unfolding unlink_at_def using assms by (intro triple_call) (auto split: option.splits)

lemma triple_clone_to:
  assumes "\<And>d n i. P d \<Longrightarrow> md_names d name = None \<Longrightarrow> md_files d k = Some n \<Longrightarrow> md_new d = Some i \<Longrightarrow>
      Q () (d\<lparr>md_files := (md_files d)(i \<mapsto> mo_cloned os n), md_names := (md_names d)(name \<mapsto> i)\<rparr>)"
    and "\<And>e d. P d \<Longrightarrow> E e d"
  shows "triple P (clone_to os k name) Q E"
  unfolding clone_to_def using assms by (intro triple_call) (auto split: option.splits)

lemma triple_swap_names:
  assumes "\<And>d i j. P d \<Longrightarrow> md_names d a = Some i \<Longrightarrow> md_names d b = Some j \<Longrightarrow>
      Q () (d\<lparr>md_names := (md_names d)(a \<mapsto> j, b \<mapsto> i)\<rparr>)"
    and "\<And>e d. P d \<Longrightarrow> E e d"
  shows "triple P (swap_names a b) Q E"
  unfolding swap_names_def using assms by (intro triple_call) (auto split: option.splits)

text \<open>Discarding takes a name away at most, and only from the expected file.\<close>

lemma triple_discard:
  assumes "\<And>d. P d \<Longrightarrow> Q () d"
    and "\<And>d. P d \<Longrightarrow> md_names d name = Some i \<Longrightarrow> Q () (d\<lparr>md_names := (md_names d)(name := None)\<rparr>)"
  shows "triple P (discard name i) Q E"
  unfolding discard_def
proof (rule triple_bind [OF triple_either [where Q = "\<lambda>r d. case r of Inl e \<Rightarrow> P d
      | Inr st \<Rightarrow> P d \<and> md_names d name = Some (fs_identity st)"]])
  show "triple P (stat_at name) (\<lambda>st d. case Inr st of Inl e \<Rightarrow> P d | Inr st \<Rightarrow> P d \<and> md_names d name = Some (fs_identity st))
      (\<lambda>e d. case Inl e of Inl e \<Rightarrow> P d | Inr st \<Rightarrow> P d \<and> md_names d name = Some (fs_identity st))"
    by (rule triple_weaken [OF triple_stat_at [of P]]) (auto simp: stat_of_def)
next
  fix r :: "os_error + file_stat"
  show "triple (\<lambda>d. case r of Inl e \<Rightarrow> P d | Inr st \<Rightarrow> P d \<and> md_names d name = Some (fs_identity st))
      (case r of Inl _ \<Rightarrow> act_return ()
       | Inr st \<Rightarrow> if fs_identity st = i then act_bind (act_either (unlink_at name)) (\<lambda>_. act_return ()) else act_return ())
      Q E"
  proof (cases r)
    case (Inr st)
    have "triple (\<lambda>d. P d \<and> md_names d name = Some i) (act_bind (act_either (unlink_at name)) (\<lambda>_. act_return ())) Q E"
      by (rule triple_bind [OF triple_either [OF triple_unlink_at [where Q = "\<lambda>_. Q ()" and E = "\<lambda>_. Q ()"]]])
        (auto intro: assms triple_return)
    with Inr assms(1) show ?thesis by (auto intro!: triple_return intro: triple_pre)
  qed (auto intro: triple_return assms(1))
qed

section \<open>Up to the swap\<close>

definition content :: "mac_disk \<Rightarrow> bytes \<Rightarrow> bytes option" where
  "content d name = Option.bind (md_names d name) (\<lambda>i. map_option in_bytes (md_files d i))"

text \<open>The duplicate has been opened by its name, and the new file of a clone is not there yet.\<close>

definition sharing_at :: "mac_disk \<Rightarrow> bytes \<Rightarrow> bytes \<Rightarrow> opened_file \<Rightarrow> u64 \<Rightarrow> bool" where
  "sharing_at d0 name tmp duplicate len \<longleftrightarrow>
     tmp \<noteq> name \<and> (\<forall>i. md_new d0 = Some i \<longrightarrow> md_files d0 i = None \<and> md_names d0 tmp \<noteq> Some i) \<and>
     md_names d0 name = Some (op_file duplicate) \<and> opened_as duplicate d0 \<and> unat len = fs_size (op_stat duplicate)"

text \<open>Only the temporary name and the new file differ, and what the temporary name had before is gone
  only if its content is the duplicate's.\<close>

definition only_temporary :: "mac_disk \<Rightarrow> bytes \<Rightarrow> bytes \<Rightarrow> mac_disk \<Rightarrow> bool" where
  "only_temporary d0 name tmp d \<longleftrightarrow>
     (\<forall>n. n \<noteq> tmp \<longrightarrow> md_names d n = md_names d0 n) \<and> (\<forall>i. md_new d0 \<noteq> Some i \<longrightarrow> md_files d i = md_files d0 i) \<and>
     md_new d = md_new d0 \<and>
     (md_names d tmp = md_names d0 tmp \<or> md_names d0 tmp = None \<or> content d0 tmp = content d0 name)"

lemma only_temporary_refl: "only_temporary d name tmp d"
  by (simp add: only_temporary_def)

lemma opened_there: "opened_as f d \<Longrightarrow> \<exists>n. md_files d (op_file f) = Some n"
  by (auto simp: opened_as_def)

lemma opened_size: "opened_as f d \<Longrightarrow> md_files d (op_file f) = Some n \<Longrightarrow> fs_size (op_stat f) = length (in_bytes n)"
  by (auto simp: opened_as_def stat_of_def)

lemma opened_identity: "opened_as f d \<Longrightarrow> fs_identity (op_stat f) = op_file f"
  by (auto simp: opened_as_def stat_of_def)

lemma triple_compare:
  assumes "\<And>d. P d \<Longrightarrow> opened_as f d" and "\<And>d. P d \<Longrightarrow> opened_as g d" and "unat len = fs_size (op_stat g)"
  shows "triple P
    (if fs_size (op_stat f) \<noteq> fs_size (op_stat g) then act_return False
     else act_map_err h (same_bytes (op_file f) (op_file g) len))
    (\<lambda>equal d. P d \<and> (equal \<longrightarrow> (\<forall>m n. md_files d (op_file f) = Some m \<longrightarrow> md_files d (op_file g) = Some n \<longrightarrow>
       in_bytes m = in_bytes n))) (\<lambda>e. P)"
proof (rule triple_if)
  assume size: "\<not> fs_size (op_stat f) \<noteq> fs_size (op_stat g)"
  show "triple P (act_map_err h (same_bytes (op_file f) (op_file g) len))
    (\<lambda>equal d. P d \<and> (equal \<longrightarrow> (\<forall>m n. md_files d (op_file f) = Some m \<longrightarrow> md_files d (op_file g) = Some n \<longrightarrow>
       in_bytes m = in_bytes n))) (\<lambda>e. P)"
  proof (rule triple_map_err, rule triple_weaken [OF triple_same_bytes [of P "op_file f" "op_file g" len]])
    fix equal d
    assume *: "P d \<and> (equal \<longrightarrow> (\<forall>m n. md_files d (op_file f) = Some m \<longrightarrow> md_files d (op_file g) = Some n \<longrightarrow>
       take (unat len) (in_bytes m) = take (unat len) (in_bytes n)))"
    then have "P d" ..
    note left = opened_size [OF assms(1) [OF this]] and right = opened_size [OF assms(2) [OF this]]
    show "P d \<and> (equal \<longrightarrow> (\<forall>m n. md_files d (op_file f) = Some m \<longrightarrow> md_files d (op_file g) = Some n \<longrightarrow>
       in_bytes m = in_bytes n))"
    proof (intro conjI impI allI \<open>P d\<close>)
      fix m n
      assume "equal" and files: "md_files d (op_file f) = Some m" "md_files d (op_file g) = Some n"
      with * have "take (unat len) (in_bytes m) = take (unat len) (in_bytes n)" by blast
      with left [OF files(1)] right [OF files(2)] size assms(3) show "in_bytes m = in_bytes n" by simp
    qed
  qed (use assms in \<open>auto simp: opened_as_def\<close>)
qed (auto intro: triple_return)

lemma triple_reclaim:
  assumes "sharing_at d0 name tmp duplicate len"
  shows "triple (\<lambda>d. d = d0) (reclaim tmp duplicate len)
    (\<lambda>_ d. only_temporary d0 name tmp d \<and> md_names d tmp = None) (\<lambda>e. only_temporary d0 name tmp)"
  unfolding reclaim_def
proof (rule triple_look [OF triple_open_file [of "\<lambda>d. d = d0"]])
  fix left
  let ?P = "\<lambda>d. d = d0 \<and> md_names d0 tmp = Some (op_file left) \<and> opened_as left d0"
  let ?R = "\<lambda>d. ?P d \<and> content d0 tmp = content d0 name"
  have equal: "content d0 tmp = content d0 name" if "md_names d0 tmp = Some (op_file left)" "opened_as left d0"
    "\<forall>m n. md_files d0 (op_file left) = Some m \<longrightarrow> md_files d0 (op_file duplicate) = Some n \<longrightarrow> in_bytes m = in_bytes n"
    using that assms by (auto simp: content_def sharing_at_def opened_as_def)
  let ?post = "\<lambda>_ d. only_temporary d0 name tmp d \<and> md_names d tmp = None" and ?err = "\<lambda>e. only_temporary d0 name tmp"
  have gone: "triple ?R (act_bind (act_map_err (share_failed share_step.Inspect) (stat_at tmp)) (\<lambda>seen.
         if fs_identity seen \<noteq> fs_identity (op_stat left) then act_fail Leftover
         else act_map_err (share_failed Unlink) (unlink_at tmp))) ?post ?err"
    by (rule triple_look [OF triple_stat_at [of ?R]])
      (auto intro!: triple_fail triple_map_all triple_unlink_at simp: only_temporary_def)
  show "triple (\<lambda>d. d = d0 \<and> md_names d tmp = Some (op_file left) \<and> opened_as left d)
      (act_bind (if fs_size (op_stat left) \<noteq> fs_size (op_stat duplicate) then act_return False
               else act_map_err (share_failed Read) (same_bytes (op_file left) (op_file duplicate) len)) (\<lambda>same.
       if \<not> same then act_fail Leftover
       else act_bind (act_map_err (share_failed share_step.Inspect) (stat_at tmp)) (\<lambda>seen.
         if fs_identity seen \<noteq> fs_identity (op_stat left) then act_fail Leftover
         else act_map_err (share_failed Unlink) (unlink_at tmp)))) ?post ?err"
    by (rule triple_pre [OF triple_seq [OF triple_compare [of ?P]]])
      (use assms in \<open>auto intro!: triple_fail triple_pre [OF gone] equal simp: sharing_at_def only_temporary_refl\<close>)
qed (simp add: only_temporary_refl)

text \<open>The clone has been made and opened.\<close>

definition cloned_at :: "mac_disk \<Rightarrow> bytes \<Rightarrow> bytes \<Rightarrow> opened_file \<Rightarrow> mac_disk \<Rightarrow> bool" where
  "cloned_at d0 name tmp clone d \<longleftrightarrow>
     only_temporary d0 name tmp d \<and> md_names d tmp = Some (op_file clone) \<and> md_new d0 = Some (op_file clone) \<and>
     fs_identity (op_stat clone) = op_file clone \<and> (\<exists>n. md_files d (op_file clone) = Some n)"

lemma triple_clone:
  assumes "\<And>d. P d \<Longrightarrow> only_temporary d0 name tmp d"
  shows "triple P (clone_to os k tmp) (\<lambda>_ d. only_temporary d0 name tmp d \<and> md_names d tmp = md_new d0 \<and> md_new d0 \<noteq> None) (\<lambda>e. P)"
proof (rule triple_clone_to)
  fix d n i
  assume "P d" "md_names d tmp = None" "md_new d = Some i"
  moreover from this assms have "md_new d0 = Some i" by (simp add: only_temporary_def)
  ultimately show "only_temporary d0 name tmp
      (d\<lparr>md_files := (md_files d)(i \<mapsto> mo_cloned os n), md_names := (md_names d)(tmp \<mapsto> i)\<rparr>) \<and>
      md_names (d\<lparr>md_files := (md_files d)(i \<mapsto> mo_cloned os n), md_names := (md_names d)(tmp \<mapsto> i)\<rparr>) tmp = md_new d0 \<and>
      md_new d0 \<noteq> None"
    using assms [of d] by (auto simp: only_temporary_def)
qed

lemma triple_make_clone:
  assumes at: "sharing_at d0 name tmp duplicate len"
  shows "triple (\<lambda>d. d = d0) (make_clone os k duplicate tmp len)
    (\<lambda>c d. cloned_at d0 name tmp c d \<and> opened_as c d) (\<lambda>e. only_temporary d0 name tmp)"
proof -
  let ?cloned = "\<lambda>d. only_temporary d0 name tmp d \<and> md_names d tmp = md_new d0 \<and> md_new d0 \<noteq> None"
  have "triple (\<lambda>d. d = d0) (act_either (clone_to os (op_file k) tmp))
      (\<lambda>r d. case r of Inl e \<Rightarrow> d = d0 | Inr u \<Rightarrow> ?cloned d) (\<lambda>e. only_temporary d0 name tmp)"
    by (rule triple_either, rule triple_weaken [OF triple_clone [of "\<lambda>d. d = d0" d0 name tmp]])
      (auto simp: only_temporary_refl)
  moreover have "triple (\<lambda>d. case r of Inl e \<Rightarrow> d = d0 | Inr u \<Rightarrow> ?cloned d)
      (case r of
         Inr _ \<Rightarrow> act_return ()
       | Inl e \<Rightarrow>
           if oe_kind e = EAlreadyExists then
             act_bind (reclaim tmp duplicate len) (\<lambda>_. act_map_err (share_failed Clone) (clone_to os (op_file k) tmp))
           else act_fail (share_failed Clone e)) (\<lambda>_. ?cloned) (\<lambda>e. only_temporary d0 name tmp)" for r :: "os_error + unit"
  proof (cases r)
    case (Inl e)
    have "triple (\<lambda>d. only_temporary d0 name tmp d \<and> md_names d tmp = None)
        (act_map_err (share_failed Clone) (clone_to os (op_file k) tmp)) (\<lambda>_. ?cloned) (\<lambda>e. only_temporary d0 name tmp)"
      by (rule triple_map_all, rule triple_weaken [OF triple_clone
          [of "\<lambda>d. only_temporary d0 name tmp d \<and> md_names d tmp = None" d0 name tmp]]) auto
    then have "triple (\<lambda>d. d = d0)
        (act_bind (reclaim tmp duplicate len) (\<lambda>_. act_map_err (share_failed Clone) (clone_to os (op_file k) tmp)))
        (\<lambda>_. ?cloned) (\<lambda>e. only_temporary d0 name tmp)"
      by (rule triple_bind [OF triple_reclaim [OF at]])
    with Inl show ?thesis by (auto intro: triple_fail simp: only_temporary_refl)
  qed (auto intro: triple_return)
  moreover have "triple ?cloned (act_map_err (share_failed share_step.Open) (open_file tmp))
      (\<lambda>c d. cloned_at d0 name tmp c d \<and> opened_as c d) (\<lambda>e. only_temporary d0 name tmp)"
    by (rule triple_map_all, rule triple_weaken [OF triple_open_file [of ?cloned]])
      (auto simp: cloned_at_def opened_as_def stat_of_def)
  ultimately show ?thesis unfolding make_clone_def by (intro triple_bind)
qed

text \<open>Metadata is carried over without touching the content.\<close>

lemma triple_carry:
  assumes "\<And>d. P d \<Longrightarrow> cloned_at d0 name tmp clone d \<and> (\<exists>n. md_files d (op_file clone) = Some n \<and> in_bytes n = bs)"
  shows "triple P (carry (op_file clone) st)
    (\<lambda>_ d. cloned_at d0 name tmp clone d \<and> (\<exists>n. md_files d (op_file clone) = Some n \<and> in_bytes n = bs))
    (\<lambda>e d. cloned_at d0 name tmp clone d \<and> (\<exists>n. md_files d (op_file clone) = Some n \<and> in_bytes n = bs))"
proof -
  let ?I = "\<lambda>d. cloned_at d0 name tmp clone d \<and> (\<exists>n. md_files d (op_file clone) = Some n \<and> in_bytes n = bs)"
  have change: "triple ?I (change_file (op_file clone) f) (\<lambda>_. ?I) (\<lambda>_. ?I)" if "\<And>n. in_bytes (f n) = in_bytes n" for f
    using that by (intro triple_change_file) (auto simp: cloned_at_def only_temporary_def)
  have look: "triple ?I (stat_fd (op_file clone)) (\<lambda>_. ?I) (\<lambda>_. ?I)"
    by (rule triple_weaken [OF triple_stat_fd [of ?I]]) auto
  have "triple ?I (carry (op_file clone) st) (\<lambda>_. ?I) (\<lambda>_. ?I)"
    unfolding carry_def
  proof (rule triple_bind [OF change], simp, rule triple_bind [OF look], rule triple_bind [where R = "\<lambda>_. ?I"])
    fix now
    show "triple ?I (if fs_gid now \<noteq> fs_gid st then change_file (op_file clone) (\<lambda>n. n\<lparr>in_gid := fs_gid st\<rparr>)
        else act_return ()) (\<lambda>_. ?I) (\<lambda>_. ?I)"
      by (intro triple_if change triple_return) simp_all
  qed (simp add: change)
  then show ?thesis by (rule triple_pre) (rule assms)
qed

text \<open>Prepared: the clone holds the duplicate's content and metadata.\<close>

definition ready_at :: "mac_disk \<Rightarrow> bytes \<Rightarrow> bytes \<Rightarrow> opened_file \<Rightarrow> opened_file \<Rightarrow> mac_disk \<Rightarrow> bool" where
  "ready_at d0 name tmp clone duplicate d \<longleftrightarrow>
     cloned_at d0 name tmp clone d \<and>
     (\<exists>n m. md_files d (op_file clone) = Some n \<and> md_files d0 (op_file duplicate) = Some m \<and> in_bytes n = in_bytes m \<and>
        same_metadata (stat_of (op_file clone) n) (op_stat duplicate))"

lemma duplicate_kept:
  assumes "sharing_at d0 name tmp duplicate len" and "only_temporary d0 name tmp d"
  shows "md_files d (op_file duplicate) = md_files d0 (op_file duplicate)" "opened_as duplicate d"
    "md_names d name = Some (op_file duplicate)" "md_new d0 \<noteq> Some (op_file duplicate)"
proof -
  from assms(1) obtain m where "md_files d0 (op_file duplicate) = Some m" "\<forall>i. md_new d0 = Some i \<longrightarrow> md_files d0 i = None"
    and at: "opened_as duplicate d0" "tmp \<noteq> name" "md_names d0 name = Some (op_file duplicate)"
    by (auto simp: sharing_at_def opened_as_def)
  then show ne: "md_new d0 \<noteq> Some (op_file duplicate)" by auto
  with assms(2) show files: "md_files d (op_file duplicate) = md_files d0 (op_file duplicate)"
    by (simp add: only_temporary_def)
  show "opened_as duplicate d" using at(1) unfolding opened_as_def files .
  show "md_names d name = Some (op_file duplicate)" using assms(2) at by (simp add: only_temporary_def)
qed

lemma triple_prepare:
  assumes at: "sharing_at d0 name tmp duplicate len"
  shows "triple (\<lambda>d. cloned_at d0 name tmp clone d \<and> opened_as clone d) (prepare os clone duplicate wanted len)
    (\<lambda>_. ready_at d0 name tmp clone duplicate) (\<lambda>e. cloned_at d0 name tmp clone)"
proof -
  let ?C = "cloned_at d0 name tmp clone"
  from at obtain m where m: "md_files d0 (op_file duplicate) = Some m" by (auto simp: sharing_at_def opened_as_def)
  let ?I = "\<lambda>d. ?C d \<and> (\<exists>n. md_files d (op_file clone) = Some n \<and> in_bytes n = in_bytes m)"
  have kept: "?C d \<Longrightarrow> md_files d (op_file duplicate) = Some m \<and> opened_as duplicate d" for d
    using duplicate_kept [OF at] m by (auto simp: cloned_at_def)
  have meta: "triple (\<lambda>d. ?I d \<and> (\<exists>n. md_files d (op_file clone) = Some n \<and> st = stat_of (op_file clone) n))
      (act_bind (if \<not> same_metadata st (op_stat duplicate) then act_return False
          else act_bind (extras_of os (op_file clone) st) (\<lambda>seen. act_return (seen = wanted)))
        (\<lambda>kept. if kept then act_return () else act_fail MetadataNotCarried))
      (\<lambda>_. ready_at d0 name tmp clone duplicate) (\<lambda>e. ?C)" for st
  proof (rule triple_bind [where R = "\<lambda>ok d. ?I d \<and> (\<exists>n. md_files d (op_file clone) = Some n \<and> st = stat_of (op_file clone) n) \<and>
      (ok \<longrightarrow> same_metadata st (op_stat duplicate))"], rule triple_if)
    show "triple (\<lambda>d. ?I d \<and> (\<exists>n. md_files d (op_file clone) = Some n \<and> st = stat_of (op_file clone) n)) (act_return False)
      (\<lambda>ok d. ?I d \<and> (\<exists>n. md_files d (op_file clone) = Some n \<and> st = stat_of (op_file clone) n) \<and>
        (ok \<longrightarrow> same_metadata st (op_stat duplicate))) (\<lambda>e. ?C)"
      by (rule triple_return) simp
  next
    assume "\<not> \<not> same_metadata st (op_stat duplicate)"
    then show "triple (\<lambda>d. ?I d \<and> (\<exists>n. md_files d (op_file clone) = Some n \<and> st = stat_of (op_file clone) n))
      (act_bind (extras_of os (op_file clone) st) (\<lambda>seen. act_return (seen = wanted)))
      (\<lambda>ok d. ?I d \<and> (\<exists>n. md_files d (op_file clone) = Some n \<and> st = stat_of (op_file clone) n) \<and>
        (ok \<longrightarrow> same_metadata st (op_stat duplicate))) (\<lambda>e. ?C)"
      by (intro triple_bind [OF triple_extras_of] triple_return) simp
  next
    fix ok
    show "triple (\<lambda>d. ?I d \<and> (\<exists>n. md_files d (op_file clone) = Some n \<and> st = stat_of (op_file clone) n) \<and>
        (ok \<longrightarrow> same_metadata st (op_stat duplicate)))
      (if ok then act_return () else act_fail MetadataNotCarried)
      (\<lambda>_. ready_at d0 name tmp clone duplicate) (\<lambda>e. ?C)"
      using m by (intro triple_if triple_return triple_fail) (auto simp: ready_at_def)
  qed
  have carried: "triple ?I (act_bind (act_map_err (share_failed Carry) (carry (op_file clone) (op_stat duplicate))) (\<lambda>_.
      act_bind (act_map_err (share_failed share_step.Inspect) (stat_fd (op_file clone))) (\<lambda>carried.
      act_bind (if \<not> same_metadata carried (op_stat duplicate) then act_return False
          else act_bind (extras_of os (op_file clone) carried) (\<lambda>seen. act_return (seen = wanted)))
        (\<lambda>kept. if kept then act_return () else act_fail MetadataNotCarried))))
      (\<lambda>_. ready_at d0 name tmp clone duplicate) (\<lambda>e. ?C)"
    by (rule triple_look [OF triple_carry [of ?I d0 name tmp clone "in_bytes m"]])
      (auto intro: triple_look [OF triple_stat_fd [of ?I] _ meta])
  show ?thesis unfolding prepare_def
  proof (rule triple_seq [OF triple_compare [of "\<lambda>d. ?C d \<and> opened_as clone d"]])
    show "unat len = fs_size (op_stat duplicate)" using at by (simp add: sharing_at_def)
  qed (use kept in \<open>auto intro!: triple_fail triple_pre [OF carried] dest: opened_there\<close>)
qed

section \<open>The swap\<close>

text \<open>What a swap starts from, however the disk came to be like that: the temporary name is the clone's,
  and clone and duplicate are as long as the request says.\<close>

definition swappable :: "prepared \<Rightarrow> u64 \<Rightarrow> mac_disk \<Rightarrow> bool" where
  "swappable p len d \<longleftrightarrow>
     pd_temporary p \<noteq> pd_name p \<and> md_names d (pd_temporary p) = Some (op_file (pd_clone p)) \<and>
     fs_identity (op_stat (pd_clone p)) = op_file (pd_clone p) \<and>
     fs_identity (op_stat (pd_duplicate p)) = op_file (pd_duplicate p) \<and>
     (\<exists>n. md_files d (op_file (pd_clone p)) = Some n \<and> length (in_bytes n) = unat len) \<and>
     (\<exists>m. md_files d (op_file (pd_duplicate p)) = Some m) \<and> fs_size (op_stat (pd_duplicate p)) = unat len"

definition swapped_disk :: "prepared \<Rightarrow> identity \<Rightarrow> mac_disk \<Rightarrow> mac_disk" where
  "swapped_disk p x d =
     d\<lparr>md_names := (md_names d)(pd_temporary p \<mapsto> x, pd_name p \<mapsto> op_file (pd_clone p))\<rparr>"

definition replaced :: "prepared \<Rightarrow> mac_disk \<Rightarrow> mac_disk \<Rightarrow> bool" where
  "replaced p d d' \<longleftrightarrow>
     d' = d\<lparr>md_names := (md_names d)(pd_temporary p := None, pd_name p \<mapsto> op_file (pd_clone p))\<rparr> \<and>
     md_names d (pd_name p) = Some (op_file (pd_duplicate p)) \<and> content d' (pd_name p) = content d (pd_name p)"

definition unswapped :: "prepared \<Rightarrow> mac_disk \<Rightarrow> share_failure \<Rightarrow> mac_disk \<Rightarrow> bool" where
  "unswapped p d e d' \<longleftrightarrow>
     md_files d' = md_files d \<and> md_new d' = md_new d \<and>
     (\<forall>n. n \<noteq> pd_temporary p \<longrightarrow> n \<noteq> pd_name p \<longrightarrow> md_names d' n = md_names d n) \<and>
     (content d' (pd_name p) = content d (pd_name p) \<or>
      e = Stranded \<and> md_names d' (pd_name p) = Some (op_file (pd_clone p)) \<and>
      md_names d' (pd_temporary p) = md_names d (pd_name p))"

lemma unswapped_refl: "unswapped p d e d"
  by (simp add: unswapped_def)

lemma unswapped_discarded:
  "pd_temporary p \<noteq> pd_name p \<Longrightarrow> unswapped p d e (d\<lparr>md_names := (md_names d)(pd_temporary p := None)\<rparr>)"
  by (auto simp: unswapped_def content_def)

lemma triple_settled_swap:
  assumes swap: "swappable p len d" and x: "md_names d (pd_name p) = Some x"
  shows "triple (\<lambda>d'. d' = swapped_disk p x d) (settled_swap (pd_name p) (pd_temporary p) (pd_clone p) (pd_duplicate p) len)
    (\<lambda>_ d'. d' = swapped_disk p x d \<and> x = op_file (pd_duplicate p) \<and>
       content (swapped_disk p x d) (pd_name p) = content d (pd_name p)) (\<lambda>e d'. d' = swapped_disk p x d)"
proof -
  let ?d = "swapped_disk p x d"
  from swap obtain n m where n: "md_files d (op_file (pd_clone p)) = Some n" "length (in_bytes n) = unat len"
    and m: "md_files d (op_file (pd_duplicate p)) = Some m" and tmp: "pd_temporary p \<noteq> pd_name p"
    and size: "fs_size (op_stat (pd_duplicate p)) = unat len"
    and ids: "fs_identity (op_stat (pd_duplicate p)) = op_file (pd_duplicate p)" by (auto simp: swappable_def)
  have files: "md_files ?d = md_files d" by (simp add: swapped_disk_def)
  have names: "md_names ?d (pd_temporary p) = Some x" "md_names ?d (pd_name p) = Some (op_file (pd_clone p))"
    using tmp by (simp_all add: swapped_disk_def)
  have there: "\<exists>n. md_files ?d (op_file (pd_clone p)) = Some n" "\<exists>n. md_files ?d (op_file (pd_duplicate p)) = Some n"
    using n m files by simp_all
  have same: "content ?d (pd_name p) = content d (pd_name p)"
    if "x = op_file (pd_duplicate p)" "same_metadata (stat_of x m) (op_stat (pd_duplicate p))"
      "take (unat len) (in_bytes n) = take (unat len) (in_bytes m)"
  proof -
    have "length (in_bytes m) = unat len" using that(2) size by (simp add: same_metadata_def stat_of_def)
    with that(3) n(2) have "in_bytes n = in_bytes m" by simp
    with that(1) n m names files x show ?thesis by (simp add: content_def)
  qed
  let ?Q = "\<lambda>(u :: unit) d'. d' = ?d \<and> x = op_file (pd_duplicate p) \<and> content ?d (pd_name p) = content d (pd_name p)"
  have compare: "triple (\<lambda>d'. d' = ?d \<and> x = op_file (pd_duplicate p) \<and> same_metadata (stat_of x m) (op_stat (pd_duplicate p)))
      (act_bind (act_map_err (share_failed Read) (same_bytes (op_file (pd_clone p)) (op_file (pd_duplicate p)) len)) (\<lambda>same.
         if same then act_return () else act_fail ContentDiffers)) ?Q (\<lambda>e d'. d' = ?d)"
    by (rule triple_look [OF triple_same_bytes])
      (use there n m files same in \<open>auto intro!: triple_return triple_fail\<close>)
  show ?thesis unfolding settled_swap_def
    apply (rule triple_look [OF triple_stat_at [of "\<lambda>d'. d' = ?d"]], simp)
    apply (rule triple_look [OF triple_stat_at], simp)
    apply (rule triple_look [OF triple_stat_fd], simp)
    using names ids m files
    apply (auto intro!: triple_fail triple_pre [OF compare] simp: stat_of_def)
    done
qed

lemma swapped_back:
  assumes "swappable p len d" and "md_names d (pd_name p) = Some x"
  shows "(swapped_disk p x d)\<lparr>md_names := (md_names (swapped_disk p x d))
      (pd_temporary p \<mapsto> op_file (pd_clone p), pd_name p \<mapsto> x)\<rparr> = d"
proof -
  have "(md_names d)(pd_temporary p \<mapsto> op_file (pd_clone p), pd_name p \<mapsto> x) = md_names d"
    using assms by (auto simp: swappable_def)
  then show ?thesis using assms by (simp add: swapped_disk_def swappable_def fun_upd_twist)
qed

lemma triple_restore:
  assumes swap: "swappable p len d" and x: "md_names d (pd_name p) = Some x"
  shows "triple (\<lambda>d'. d' = swapped_disk p x d) (restore (pd_name p) (pd_temporary p) (pd_clone p) (pd_duplicate p))
    (\<lambda>_ d'. \<forall>e. unswapped p d e d') (\<lambda>e. unswapped p d e)"
proof -
  have tmp: "pd_temporary p \<noteq> pd_name p" using swap by (simp add: swappable_def)
  have again: "triple (\<lambda>d'. d' = swapped_disk p x d)
      (act_map_err (\<lambda>_. Stranded) (swap_names (pd_temporary p) (pd_name p))) (\<lambda>_ d'. d' = d) (\<lambda>e. unswapped p d e)"
  proof (rule triple_map_err, rule triple_swap_names)
    fix d' i j
    assume d': "d' = swapped_disk p x d" "md_names d' (pd_temporary p) = Some i" "md_names d' (pd_name p) = Some j"
    with tmp have "i = x" "j = op_file (pd_clone p)" by (simp_all add: swapped_disk_def)
    with d'(1) swapped_back [OF swap x]
    show "d'\<lparr>md_names := (md_names d')(pd_temporary p \<mapsto> j, pd_name p \<mapsto> i)\<rparr> = d" by simp
  next
    fix e d'
    assume "d' = swapped_disk p x d"
    with tmp x show "unswapped p d Stranded d'" by (simp add: unswapped_def swapped_disk_def)
  qed
  have look: "triple (\<lambda>d'. d' = d) (act_bind (act_map_err (\<lambda>_. Stranded) (stat_at (pd_name p))) (\<lambda>back.
       if fs_identity back \<noteq> fs_identity (op_stat (pd_duplicate p)) then act_fail Stranded
       else discard (pd_temporary p) (fs_identity (op_stat (pd_clone p)))))
      (\<lambda>_ d'. \<forall>e. unswapped p d e d') (\<lambda>e. unswapped p d e)"
    by (rule triple_look [OF triple_stat_at [of "\<lambda>d'. d' = d"]])
      (use tmp in \<open>auto intro!: triple_fail triple_discard simp: unswapped_refl unswapped_discarded\<close>)
  show ?thesis unfolding restore_def by (rule triple_bind [OF again look])
qed

lemma triple_remove_original:
  assumes swap: "swappable p len d" and x: "md_names d (pd_name p) = Some (op_file (pd_duplicate p))"
    and same: "content (swapped_disk p (op_file (pd_duplicate p)) d) (pd_name p) = content d (pd_name p)"
  shows "triple (\<lambda>d'. d' = swapped_disk p (op_file (pd_duplicate p)) d) (remove_original p)
    (\<lambda>_. replaced p d) (\<lambda>e. unswapped p d e)"
proof -
  let ?d = "swapped_disk p (op_file (pd_duplicate p)) d"
  have tmp: "pd_temporary p \<noteq> pd_name p" using swap by (simp add: swappable_def)
  have here: "unswapped p d e ?d" for e using same by (simp add: unswapped_def) (simp add: swapped_disk_def)
  have gone: "?d\<lparr>md_names := (md_names ?d)(pd_temporary p := None)\<rparr> =
      d\<lparr>md_names := (md_names d)(pd_temporary p := None, pd_name p \<mapsto> op_file (pd_clone p))\<rparr>"
    using tmp by (simp add: swapped_disk_def fun_upd_twist)
  have "content (?d\<lparr>md_names := (md_names ?d)(pd_temporary p := None)\<rparr>) (pd_name p) = content ?d (pd_name p)"
    using tmp by (simp add: content_def)
  with same x gone have "replaced p d (?d\<lparr>md_names := (md_names ?d)(pd_temporary p := None)\<rparr>)"
    by (simp add: replaced_def)
  then show ?thesis unfolding remove_original_def
    by (intro triple_look [OF triple_stat_at [of "\<lambda>d'. d' = ?d"]])
      (auto intro!: triple_fail triple_map_err triple_unlink_at simp: here)
qed

lemma triple_settle_swap:
  assumes swap: "swappable p len d" and x: "md_names d (pd_name p) = Some x"
  shows "triple (\<lambda>d'. d' = swapped_disk p x d) (settle_swap p len) (\<lambda>_. replaced p d) (\<lambda>e. unswapped p d e)"
  unfolding settle_swap_def
proof (rule triple_bind [OF triple_either [where Q = "\<lambda>r d'. d' = swapped_disk p x d \<and> (\<forall>u. r = Inr u \<longrightarrow>
    x = op_file (pd_duplicate p) \<and> content (swapped_disk p x d) (pd_name p) = content d (pd_name p))"]])
  show "triple (\<lambda>d'. d' = swapped_disk p x d) (settled_swap (pd_name p) (pd_temporary p) (pd_clone p) (pd_duplicate p) len)
      (\<lambda>a d'. d' = swapped_disk p x d \<and> (\<forall>u. Inr a = Inr u \<longrightarrow>
        x = op_file (pd_duplicate p) \<and> content (swapped_disk p x d) (pd_name p) = content d (pd_name p)))
      (\<lambda>f d'. d' = swapped_disk p x d \<and> (\<forall>u. Inl f = Inr u \<longrightarrow>
        x = op_file (pd_duplicate p) \<and> content (swapped_disk p x d) (pd_name p) = content d (pd_name p)))"
    by (rule triple_weaken [OF triple_settled_swap [OF swap x]]) auto
next
  fix r :: "share_failure + unit"
  show "triple (\<lambda>d'. d' = swapped_disk p x d \<and> (\<forall>u. r = Inr u \<longrightarrow>
        x = op_file (pd_duplicate p) \<and> content (swapped_disk p x d) (pd_name p) = content d (pd_name p)))
      (case r of
         Inl failure \<Rightarrow>
           act_bind (restore (pd_name p) (pd_temporary p) (pd_clone p) (pd_duplicate p)) (\<lambda>_. act_fail failure)
       | Inr _ \<Rightarrow> remove_original p) (\<lambda>_. replaced p d) (\<lambda>e. unswapped p d e)"
  proof (cases r)
    case (Inl e)
    then show ?thesis
      by (auto intro!: triple_pre [OF triple_bind [OF triple_restore [OF swap x]]] triple_fail)
  next
    case (Inr u)
    show ?thesis
    proof (cases "x = op_file (pd_duplicate p) \<and> content (swapped_disk p x d) (pd_name p) = content d (pd_name p)")
      case True
      then have "triple (\<lambda>d'. d' = swapped_disk p x d) (remove_original p) (\<lambda>_. replaced p d) (\<lambda>e. unswapped p d e)"
        using x by (auto intro: triple_remove_original [OF swap])
      with Inr show ?thesis by (auto intro: triple_pre)
    next
      case False
      with Inr show ?thesis by (intro triple_false) auto
    qed
  qed
qed

lemma triple_share_swapped:
  assumes swap: "swappable p len d"
  shows "triple (\<lambda>d'. d' = d) (share_swapped p len) (\<lambda>_. replaced p d) (\<lambda>e. unswapped p d e)"
proof -
  have tmp: "pd_temporary p \<noteq> pd_name p" using swap by (simp add: swappable_def)
  let ?S = "\<lambda>(r :: os_error + unit) d'. case r of Inl e \<Rightarrow> d' = d
    | Inr u \<Rightarrow> \<exists>x. md_names d (pd_name p) = Some x \<and> d' = swapped_disk p x d"
  have "triple (\<lambda>d'. d' = d) (act_either (swap_names (pd_temporary p) (pd_name p))) ?S (\<lambda>e. unswapped p d e)"
    by (rule triple_either, rule triple_swap_names) (use swap in \<open>auto simp: swappable_def swapped_disk_def\<close>)
  moreover have "triple (?S r) (case r of
         Inl e \<Rightarrow>
           act_bind (discard (pd_temporary p) (fs_identity (op_stat (pd_clone p)))) (\<lambda>_. act_fail (share_failed Swap e))
       | Inr _ \<Rightarrow> settle_swap p len) (\<lambda>_. replaced p d) (\<lambda>e. unswapped p d e)" for r
  proof (cases r)
    case (Inl e)
    have "triple (\<lambda>d'. d' = d) (discard (pd_temporary p) (fs_identity (op_stat (pd_clone p))))
        (\<lambda>_ d'. \<forall>e. unswapped p d e d') (\<lambda>e. unswapped p d e)"
      using tmp by (intro triple_discard) (auto simp: unswapped_refl unswapped_discarded)
    with Inl show ?thesis by (auto intro!: triple_bind triple_fail)
  next
    case (Inr u)
    have "triple (\<lambda>d'. \<exists>x. md_names d (pd_name p) = Some x \<and> d' = swapped_disk p x d) (settle_swap p len)
        (\<lambda>_. replaced p d) (\<lambda>e. unswapped p d e)"
    proof (rule triple_ex, rule triple_assume)
      fix x
      assume "md_names d (pd_name p) = Some x"
      from triple_settle_swap [OF swap this]
      show "triple (\<lambda>d'. md_names d (pd_name p) = Some x \<and> d' = swapped_disk p x d) (settle_swap p len)
          (\<lambda>_. replaced p d) (\<lambda>e. unswapped p d e)" by (rule triple_pre) simp
    qed simp
    with Inr show ?thesis by simp
  qed
  ultimately show ?thesis unfolding share_swapped_def by (rule triple_bind)
qed

section \<open>The whole share\<close>

definition disk_wf :: "mac_disk \<Rightarrow> bool" where
  "disk_wf d \<longleftrightarrow>
     (\<forall>i. md_new d = Some i \<longrightarrow> md_files d i = None \<and> (\<forall>n. md_names d n \<noteq> Some i)) \<and>
     (\<forall>i n. md_files d i = Some n \<longrightarrow> length (in_bytes n) < 2 ^ 64)"

abbreviation temporary_of :: "bytes \<Rightarrow> bytes" where
  "temporary_of name \<equiv> CHR ''.'' # name @ temporary_suffix"

lemma temporary_name_Inr: "temporary_name name = Inr tmp \<Longrightarrow> tmp = temporary_of name"
  by (auto simp: temporary_name_def Let_def split: if_splits)

lemma temporary_differs: "temporary_of name \<noteq> name"
proof
  assume "temporary_of name = name"
  then have "length (temporary_of name) = length name" by simp
  then show False by simp
qed

text \<open>What a failure before the swap leaves.\<close>

definition untouched :: "mac_disk \<Rightarrow> mac_disk \<Rightarrow> bool" where
  "untouched d0 d \<longleftrightarrow> d = d0 \<or> (\<exists>name. md_located d0 = Some name \<and> only_temporary d0 name (temporary_of name) d)"

definition prepared_at :: "mac_disk \<Rightarrow> share_request \<Rightarrow> prepared \<Rightarrow> mac_disk \<Rightarrow> bool" where
  "prepared_at d0 rq p d \<longleftrightarrow>
     md_located d0 = Some (pd_name p) \<and> pd_temporary p = temporary_of (pd_name p) \<and>
     sharing_at d0 (pd_name p) (pd_temporary p) (pd_duplicate p) (rq_len rq) \<and>
     op_file (pd_duplicate p) = rq_duplicate_identity rq \<and>
     ready_at d0 (pd_name p) (pd_temporary p) (pd_clone p) (pd_duplicate p) d"

lemma triple_prepare_clone:
  assumes at: "sharing_at d0 name tmp duplicate (rq_len rq)" and name: "md_located d0 = Some name" "tmp = temporary_of name"
    and dup: "op_file duplicate = rq_duplicate_identity rq"
  shows "triple (\<lambda>d. d = d0) (prepare_clone os rq k duplicate name tmp wanted) (prepared_at d0 rq) (\<lambda>e. untouched d0)"
  unfolding prepare_clone_def
proof (rule triple_seq [OF triple_make_clone [OF at]])
  fix clone
  let ?C = "\<lambda>d. cloned_at d0 name tmp clone d"
  have tidy: "triple ?C (discard tmp (fs_identity (op_stat clone))) (\<lambda>_. untouched d0) (\<lambda>e. untouched d0)"
  proof (rule triple_discard)
    fix d
    assume *: "?C d"
    then show "untouched d0 d" using name by (auto simp: cloned_at_def untouched_def)
    assume "md_names d tmp = Some (fs_identity (op_stat clone))"
    from * have "only_temporary d0 name tmp d" "md_names d tmp = md_new d0" "md_new d0 \<noteq> None" by (simp_all add: cloned_at_def)
    then have "only_temporary d0 name tmp (d\<lparr>md_names := (md_names d)(tmp := None)\<rparr>)"
      using at by (cases "md_names d0 tmp") (auto simp: only_temporary_def sharing_at_def)
    then show "untouched d0 (d\<lparr>md_names := (md_names d)(tmp := None)\<rparr>)" using name by (auto simp: untouched_def)
  qed
  let ?S = "\<lambda>(r :: share_failure + unit) d. case r of Inl e \<Rightarrow> ?C d | Inr u \<Rightarrow> ready_at d0 name tmp clone duplicate d"
  have "triple (\<lambda>d. ?C d \<and> opened_as clone d) (act_either (prepare os clone duplicate wanted (rq_len rq))) ?S (\<lambda>e. untouched d0)"
    by (rule triple_either) (use triple_prepare [OF at] in simp)
  moreover have "triple (?S r) (case r of
         Inr _ \<Rightarrow> act_return \<lparr>pd_name = name, pd_temporary = tmp, pd_clone = clone, pd_duplicate = duplicate\<rparr>
       | Inl failure \<Rightarrow> act_bind (discard tmp (fs_identity (op_stat clone))) (\<lambda>_. act_fail failure))
      (prepared_at d0 rq) (\<lambda>e. untouched d0)" for r
  proof (cases r)
    case (Inl e)
    with tidy show ?thesis by (auto intro!: triple_bind triple_fail)
  next
    case (Inr u)
    with at name dup show ?thesis by (auto intro: triple_return simp: prepared_at_def)
  qed
  ultimately show "triple (\<lambda>d. ?C d \<and> opened_as clone d)
      (act_bind (act_either (prepare os clone duplicate wanted (rq_len rq))) (\<lambda>r. case r of
         Inr _ \<Rightarrow> act_return \<lparr>pd_name = name, pd_temporary = tmp, pd_clone = clone, pd_duplicate = duplicate\<rparr>
       | Inl failure \<Rightarrow> act_bind (discard tmp (fs_identity (op_stat clone))) (\<lambda>_. act_fail failure)))
      (prepared_at d0 rq) (\<lambda>e. untouched d0)" by (rule triple_bind)
qed (use name in \<open>auto simp: untouched_def\<close>)

lemma triple_open_keeper: "triple P (open_keeper rq) (\<lambda>k. P) (\<lambda>e. P)"
  unfolding open_keeper_def
proof (rule triple_look [OF triple_open_regular [of P]])
  fix i
  show "triple (\<lambda>d. P d \<and> md_keeper d = Some i \<and> (\<exists>n. md_files d i = Some n))
      (act_bind (act_map_err (share_failed share_step.Inspect) (stat_fd i)) (\<lambda>st.
         if fs_identity st \<noteq> rq_keeper_identity rq \<or> stat_size st \<noteq> rq_len rq then act_fail KeeperChanged
         else act_return \<lparr>op_file = i, op_stat = st\<rparr>)) (\<lambda>k. P) (\<lambda>e. P)"
    by (rule triple_pre [OF triple_look [OF triple_stat_fd [of P]]]) (auto intro!: triple_fail triple_return)
qed simp

lemma triple_open_duplicate:
  assumes "disk_wf d0"
  shows "triple (\<lambda>d. d = d0) (open_duplicate os name rq)
    (\<lambda>f d. d = d0 \<and> sharing_at d0 name (temporary_of name) f (rq_len rq) \<and> op_file f = rq_duplicate_identity rq)
    (\<lambda>e d. d = d0)"
  unfolding open_duplicate_def
proof (rule triple_look [OF triple_open_file [of "\<lambda>d. d = d0"]])
  fix f
  have size: "opened_as f d0 \<Longrightarrow> stat_size (op_stat f) = rq_len rq \<Longrightarrow> unat (rq_len rq) = fs_size (op_stat f)"
  proof -
    assume opened: "opened_as f d0" and len: "stat_size (op_stat f) = rq_len rq"
    from opened obtain n where n: "md_files d0 (op_file f) = Some n" "op_stat f = stat_of (op_file f) n"
      by (auto simp: opened_as_def)
    with assms have "length (in_bytes n) < 2 ^ 64" unfolding disk_wf_def by blast
    with n len [symmetric] show "unat (rq_len rq) = fs_size (op_stat f)"
      by (simp add: stat_size_def stat_of_def unat_of_nat take_bit_nat_eq_self)
  qed
  show "triple (\<lambda>d. d = d0 \<and> md_names d name = Some (op_file f) \<and> opened_as f d)
      (if fs_identity (op_stat f) \<noteq> rq_duplicate_identity rq \<or> stat_size (op_stat f) \<noteq> rq_len rq \<or>
          \<not> replaceable os (op_stat f) then act_fail DuplicateChanged else act_return f)
      (\<lambda>f d. d = d0 \<and> sharing_at d0 name (temporary_of name) f (rq_len rq) \<and> op_file f = rq_duplicate_identity rq)
      (\<lambda>e d. d = d0)"
    using assms size temporary_differs
    by (intro triple_if triple_fail triple_return) (auto simp: sharing_at_def disk_wf_def opened_identity)
qed simp

lemma triple_share_prepared:
  assumes "disk_wf d0"
  shows "triple (\<lambda>d. d = d0) (share_prepared os rq) (prepared_at d0 rq) (\<lambda>e. untouched d0)"
  unfolding share_prepared_def
proof (rule triple_seq [OF triple_open_keeper [of "\<lambda>d. d = d0"]])
  fix k
  let ?P = "\<lambda>d. d = d0"
  have located: "triple ?P (call (\<lambda>d. (Inr (md_located d), d))) (\<lambda>l d. d = d0 \<and> l = md_located d0) (\<lambda>e. ?P)"
    by (rule triple_call) auto
  have rest: "triple (\<lambda>d. d = d0 \<and> Some name = md_located d0)
      (act_bind (open_duplicate os name rq) (\<lambda>duplicate.
       act_bind (extras_of os (op_file duplicate) (op_stat duplicate)) (\<lambda>wanted.
       act_bind (extras_of os (op_file k) (op_stat k)) (\<lambda>kept.
         if \<not> extras_agree kept wanted then act_fail DuplicateChanged
         else (case temporary_name name of
                 Inl failure \<Rightarrow> act_fail failure
               | Inr temporary \<Rightarrow> prepare_clone os rq k duplicate name temporary wanted)))))
      (prepared_at d0 rq) (\<lambda>e. untouched d0)" for name
  proof (rule triple_assume)
    assume name: "md_located d0 = Some name"
    show ?thesis
    proof (rule triple_pre [OF triple_seq [OF triple_open_duplicate [OF assms]]])
      fix f
      let ?Q = "\<lambda>d. d = d0 \<and> sharing_at d0 name (temporary_of name) f (rq_len rq) \<and> op_file f = rq_duplicate_identity rq"
      have made: "triple ?Q (case temporary_name name of
             Inl failure \<Rightarrow> act_fail failure
           | Inr temporary \<Rightarrow> prepare_clone os rq k f name temporary wanted) (prepared_at d0 rq) (\<lambda>e. untouched d0)" for wanted
      proof (cases "temporary_name name")
        case (Inl e)
        then show ?thesis by (auto intro: triple_fail simp: untouched_def)
      next
        case (Inr tmp)
        note tmp = temporary_name_Inr [OF Inr]
        have "triple ?Q (prepare_clone os rq k f name tmp wanted) (prepared_at d0 rq) (\<lambda>e. untouched d0)"
        proof (rule triple_assume)
          assume "sharing_at d0 name (temporary_of name) f (rq_len rq) \<and> op_file f = rq_duplicate_identity rq"
          with triple_prepare_clone [of d0 name tmp f rq, OF _ name] tmp
          show ?thesis by (auto intro: triple_pre)
        qed simp
        with Inr show ?thesis by simp
      qed
      show "triple ?Q (act_bind (extras_of os (op_file f) (op_stat f)) (\<lambda>wanted.
         act_bind (extras_of os (op_file k) (op_stat k)) (\<lambda>kept.
         if \<not> extras_agree kept wanted then act_fail DuplicateChanged
         else (case temporary_name name of
                 Inl failure \<Rightarrow> act_fail failure
               | Inr temporary \<Rightarrow> prepare_clone os rq k f name temporary wanted))))
        (prepared_at d0 rq) (\<lambda>e. untouched d0)"
        by (rule triple_bind [OF triple_extras_of], rule triple_bind [OF triple_extras_of], rule triple_if)
          (auto intro!: triple_fail made simp: untouched_def)
    qed (simp_all add: untouched_def)
  qed simp
  show "triple ?P (act_bind (act_map_err (share_failed share_step.Open) (call (\<lambda>d. (Inr (md_located d), d)))) (\<lambda>located.
       case located of
         None \<Rightarrow> act_fail DuplicateChanged
       | Some name \<Rightarrow>
           act_bind (open_duplicate os name rq) (\<lambda>duplicate.
           act_bind (extras_of os (op_file duplicate) (op_stat duplicate)) (\<lambda>wanted.
           act_bind (extras_of os (op_file k) (op_stat k)) (\<lambda>kept.
             if \<not> extras_agree kept wanted then act_fail DuplicateChanged
             else (case temporary_name name of
                     Inl failure \<Rightarrow> act_fail failure
                   | Inr temporary \<Rightarrow> prepare_clone os rq k duplicate name temporary wanted))))))
      (prepared_at d0 rq) (\<lambda>e. untouched d0)"
    by (rule triple_look [OF located]) (auto intro: triple_fail rest simp: untouched_def split: option.splits)
qed (simp add: untouched_def)

lemma ready_swappable:
  assumes "prepared_at d0 rq p d"
  shows "swappable p (rq_len rq) d"
proof -
  from assms obtain n m where at: "sharing_at d0 (pd_name p) (pd_temporary p) (pd_duplicate p) (rq_len rq)"
    and cloned: "cloned_at d0 (pd_name p) (pd_temporary p) (pd_clone p) d"
    and n: "md_files d (op_file (pd_clone p)) = Some n" "md_files d0 (op_file (pd_duplicate p)) = Some m" "in_bytes n = in_bytes m"
    by (auto simp: prepared_at_def ready_at_def)
  from cloned have only: "only_temporary d0 (pd_name p) (pd_temporary p) d" by (simp add: cloned_at_def)
  note kept = duplicate_kept [OF at only]
  from at have "opened_as (pd_duplicate p) d0" "unat (rq_len rq) = fs_size (op_stat (pd_duplicate p))" by (simp_all add: sharing_at_def)
  with opened_size [OF this(1) n(2)] opened_identity [OF this(1)] at cloned n kept show ?thesis
    by (simp add: swappable_def sharing_at_def cloned_at_def)
qed

lemma triple_mac_share:
  assumes "disk_wf d0"
  shows "triple (\<lambda>d. d = d0) (mac_share os how rq)
    (\<lambda>_ d'. \<exists>p d. prepared_at d0 rq p d \<and> replaced p d d')
    (\<lambda>e d'. untouched d0 d' \<or> (\<exists>p d. prepared_at d0 rq p d \<and> unswapped p d e d'))"
proof (cases how)
  case CloneAndSwap
  have "triple (prepared_at d0 rq p) (share_swapped p (rq_len rq)) (\<lambda>_ d'. \<exists>p d. prepared_at d0 rq p d \<and> replaced p d d')
      (\<lambda>e d'. untouched d0 d' \<or> (\<exists>p d. prepared_at d0 rq p d \<and> unswapped p d e d'))" for p
  proof (rule triple_each)
    fix d
    assume "prepared_at d0 rq p d"
    with triple_share_swapped [OF ready_swappable [OF this]]
    show "triple (\<lambda>d'. d' = d) (share_swapped p (rq_len rq)) (\<lambda>_ d'. \<exists>p d. prepared_at d0 rq p d \<and> replaced p d d')
      (\<lambda>e d'. untouched d0 d' \<or> (\<exists>p d. prepared_at d0 rq p d \<and> unswapped p d e d'))"
      by - (erule triple_weaken, blast+)
  qed
  then show ?thesis using CloneAndSwap
    by (simp add: mac_share_def) (rule triple_seq [OF triple_share_prepared [OF assms]], auto)
qed (auto simp: mac_share_def untouched_def intro: triple_fail)

lemma only_temporary_content:
  assumes "disk_wf d0" and "only_temporary d0 name tmp d" and "n \<noteq> tmp"
  shows "content d n = content d0 n"
proof (cases "md_names d0 n")
  case (Some i)
  then have "md_new d0 \<noteq> Some i" using assms(1) unfolding disk_wf_def by force
  with Some assms(2,3) have "md_names d n = Some i" "md_files d i = md_files d0 i" by (simp_all add: only_temporary_def)
  with Some show ?thesis by (simp add: content_def)
qed (use assms in \<open>simp add: content_def only_temporary_def\<close>)

lemma prepared_only:
  "prepared_at d0 rq p d \<Longrightarrow> only_temporary d0 (pd_name p) (temporary_of (pd_name p)) d"
  by (auto simp: prepared_at_def ready_at_def cloned_at_def)

lemma prepared_clone_content:
  assumes "prepared_at d0 rq p d" and "md_files d' = md_files d" and "md_names d' n = Some (op_file (pd_clone p))"
  shows "content d' n = content d0 (pd_name p)"
  using assms by (auto simp: content_def prepared_at_def ready_at_def sharing_at_def)

lemma unswapped_content:
  assumes "disk_wf d0" and "prepared_at d0 rq p d" and "unswapped p d e d'" and "n \<noteq> temporary_of (pd_name p)"
  shows "content d' n = content d0 n"
proof -
  have tmp: "pd_temporary p = temporary_of (pd_name p)" using assms(2) by (simp add: prepared_at_def)
  note before = only_temporary_content [OF assms(1) prepared_only [OF assms(2)]]
  show ?thesis
  proof (cases "n = pd_name p")
    case True
    from assms(3) consider "content d' (pd_name p) = content d (pd_name p)"
      | "md_names d' (pd_name p) = Some (op_file (pd_clone p))" "md_files d' = md_files d" by (auto simp: unswapped_def)
    then show ?thesis
    proof cases
      case 1
      with before [of "pd_name p"] temporary_differs [of "pd_name p"] True show ?thesis by simp
    next
      case 2
      from prepared_clone_content [OF assms(2) 2(2,1)] True show ?thesis by simp
    qed
  next
    case False
    with assms(3,4) tmp have "content d' n = content d n" by (simp add: unswapped_def content_def)
    with before assms(4) show ?thesis by simp
  qed
qed

lemma replaced_content:
  assumes "disk_wf d0" and "prepared_at d0 rq p d" and "replaced p d d'" and "n \<noteq> temporary_of (pd_name p)"
  shows "content d' n = content d0 n"
proof -
  have "unswapped p d Stranded d'"
    using assms(3) by (auto simp: unswapped_def replaced_def)
  from unswapped_content [OF assms(1,2) this assms(4)] show ?thesis .
qed

lemma prepared_leftover:
  assumes "prepared_at d0 rq p d"
  shows "md_names d0 (temporary_of (pd_name p)) = None \<or>
    content d0 (temporary_of (pd_name p)) = content d0 (pd_name p)"
  using assms by (auto simp: prepared_at_def ready_at_def cloned_at_def only_temporary_def sharing_at_def)

lemma prepared_success:
  assumes p: "prepared_at d0 rq p d" and done': "replaced p d d'"
  shows "\<exists>i n m. md_new d0 = Some i \<and> md_names d0 (pd_name p) = Some (rq_duplicate_identity rq) \<and>
     md_names d' (pd_name p) = Some i \<and> md_files d0 (rq_duplicate_identity rq) = Some m \<and>
     md_files d' i = Some n \<and> in_bytes n = in_bytes m \<and>
     same_metadata (stat_of i n) (stat_of (rq_duplicate_identity rq) m) \<and>
     md_names d' (temporary_of (pd_name p)) = None"
proof -
  from p obtain n m where
    at: "sharing_at d0 (pd_name p) (pd_temporary p) (pd_duplicate p) (rq_len rq)" and
    cloned: "cloned_at d0 (pd_name p) (pd_temporary p) (pd_clone p) d" and
    n: "md_files d (op_file (pd_clone p)) = Some n" and m: "md_files d0 (op_file (pd_duplicate p)) = Some m" and
    same: "in_bytes n = in_bytes m" "same_metadata (stat_of (op_file (pd_clone p)) n) (op_stat (pd_duplicate p))"
    by (auto simp: prepared_at_def ready_at_def)
  have ids: "op_file (pd_duplicate p) = rq_duplicate_identity rq" "pd_temporary p = temporary_of (pd_name p)"
    using p by (simp_all add: prepared_at_def)
  have stat: "op_stat (pd_duplicate p) = stat_of (op_file (pd_duplicate p)) m"
    using at m by (auto simp: sharing_at_def opened_as_def)
  have new: "md_new d0 = Some (op_file (pd_clone p))" using cloned by (simp add: cloned_at_def)
  from done' have d': "md_names d' = (md_names d)(pd_temporary p := None, pd_name p \<mapsto> op_file (pd_clone p))"
    "md_files d' = md_files d" by (simp_all add: replaced_def)
  from at have "md_names d0 (pd_name p) = Some (op_file (pd_duplicate p))" "pd_temporary p \<noteq> pd_name p"
    by (simp_all add: sharing_at_def)
  with d' n m same ids stat new show ?thesis by (intro exI [of _ "op_file (pd_clone p)"] exI [of _ n] exI [of _ m]) simp
qed

definition share_effect :: "mac_disk \<Rightarrow> share_request \<Rightarrow> share_failure + unit \<Rightarrow> mac_disk \<Rightarrow> bool" where
  "share_effect d rq r d' \<longleftrightarrow>
    (\<forall>n. (\<forall>name. md_located d = Some name \<longrightarrow> n \<noteq> temporary_of name) \<longrightarrow> content d' n = content d n) \<and>
    (\<forall>i. md_new d \<noteq> Some i \<longrightarrow> md_files d' i = md_files d i) \<and>
    (\<forall>name. md_located d = Some name \<longrightarrow>
       md_names d (temporary_of name) = md_names d' (temporary_of name) \<or> md_names d (temporary_of name) = None \<or>
       content d (temporary_of name) = content d name) \<and>
    (r = Inr () \<longrightarrow> (\<exists>name i n m. md_located d = Some name \<and> md_new d = Some i \<and> md_names d name = Some (rq_duplicate_identity rq) \<and>
       md_names d' name = Some i \<and> md_files d (rq_duplicate_identity rq) = Some m \<and>
       md_files d' i = Some n \<and> in_bytes n = in_bytes m \<and>
       same_metadata (stat_of i n) (stat_of (rq_duplicate_identity rq) m) \<and>
       md_names d' (temporary_of name) = None))"

lemma mac_share_effect:
  assumes "disk_wf d" and "quiet script" and run: "mac_share os how rq (d, script) = (r, d', script')"
  shows "share_effect d rq r d'"
proof -
  let ?contents = "(\<forall>n. (\<forall>name. md_located d = Some name \<longrightarrow> n \<noteq> temporary_of name) \<longrightarrow> content d' n = content d n)"
  let ?files = "(\<forall>i. md_new d \<noteq> Some i \<longrightarrow> md_files d' i = md_files d i)"
  let ?leftover = "(\<forall>name. md_located d = Some name \<longrightarrow>
       md_names d (temporary_of name) = md_names d' (temporary_of name) \<or> md_names d (temporary_of name) = None \<or>
       content d (temporary_of name) = content d name)"
  let ?success = "(r = Inr () \<longrightarrow> (\<exists>name i n m. md_located d = Some name \<and> md_new d = Some i \<and> md_names d name = Some (rq_duplicate_identity rq) \<and>
       md_names d' name = Some i \<and> md_files d (rq_duplicate_identity rq) = Some m \<and>
       md_files d' i = Some n \<and> in_bytes n = in_bytes m \<and>
       same_metadata (stat_of i n) (stat_of (rq_duplicate_identity rq) m) \<and>
       md_names d' (temporary_of name) = None))"
  let ?claim = "?contents \<and> ?files \<and> ?leftover \<and> ?success"
  from tripleD [OF triple_mac_share [OF assms(1)] refl assms(2) run] have result:
    "case r of Inl e \<Rightarrow> untouched d d' \<or> (\<exists>p d1. prepared_at d rq p d1 \<and> unswapped p d1 e d')
     | Inr u \<Rightarrow> \<exists>p d1. prepared_at d rq p d1 \<and> replaced p d1 d'" by blast
  then consider "r \<noteq> Inr ()" "d' = d" | name where "r \<noteq> Inr ()" "md_located d = Some name" "only_temporary d name (temporary_of name) d'"
    | p d1 e where "r \<noteq> Inr ()" "prepared_at d rq p d1" "unswapped p d1 e d'"
    | p d1 where "prepared_at d rq p d1" "replaced p d1 d'"
    by (cases r) (auto simp: untouched_def)
  then have ?claim
  proof cases
    case 1
    then show ?claim by simp
  next
    case (2 name)
    have "?files" using 2(3) by (simp add: only_temporary_def)
    with 2 only_temporary_content [OF assms(1) 2(3)] show ?claim by (auto simp: only_temporary_def)
  next
    case (3 p d1 e)
    note only = prepared_only [OF 3(2)]
    from 3(3) have files: "md_files d' = md_files d1" by (simp add: unswapped_def)
    then have "?files" using only by (simp add: only_temporary_def)
    moreover have located: "md_located d = Some (pd_name p)" using 3(2) by (simp add: prepared_at_def)
    moreover have "?leftover" using prepared_leftover [OF 3(2)] located by auto
    ultimately show ?claim using unswapped_content [OF assms(1) 3(2,3)] 3(1) by auto
  next
    case (4 p d1)
    note only = prepared_only [OF 4(1)]
    from 4(2) have files: "md_files d' = md_files d1" by (simp add: replaced_def)
    then have "?files" using only by (simp add: only_temporary_def)
    moreover have located: "md_located d = Some (pd_name p)" using 4(1) by (simp add: prepared_at_def)
    moreover have "?leftover" using prepared_leftover [OF 4(1)] located by auto
    moreover have "?contents" using replaced_content [OF assms(1) 4] located by auto
    moreover have ?success using prepared_success [OF 4] located by blast
    ultimately show ?claim by blast
  qed
  then show ?thesis unfolding share_effect_def .
qed

text \<open>Property C18. Sharing a pair never costs a file its content. Whatever calls fail, at whatever points,
  and however the share ends, every name of the duplicate's directory but the temporary one still leads
  to exactly the bytes it led to before, and no file but the new one is changed; a file that had the
  temporary name is given up only if it holds the duplicate's bytes. When the share succeeds, the
  duplicate's name leads to the clone, with the duplicate's mode, owner, group, flags and modification
  time, and the temporary name is free.\<close>

theorem share_keeps_contents:
  assumes "disk_wf d" and "quiet script" and "mac_share os how rq (d, script) = (r, d', script')"
  shows "(\<forall>n. (\<forall>name. md_located d = Some name \<longrightarrow> n \<noteq> temporary_of name) \<longrightarrow> content d' n = content d n) \<and>
    (\<forall>i. md_new d \<noteq> Some i \<longrightarrow> md_files d' i = md_files d i) \<and>
    (\<forall>name. md_located d = Some name \<longrightarrow>
       md_names d (temporary_of name) = md_names d' (temporary_of name) \<or> md_names d (temporary_of name) = None \<or>
       content d (temporary_of name) = content d name) \<and>
    (r = Inr () \<longrightarrow> (\<exists>name i n m. md_located d = Some name \<and> md_new d = Some i \<and> md_names d name = Some (rq_duplicate_identity rq) \<and>
       md_names d' name = Some i \<and> md_files d (rq_duplicate_identity rq) = Some m \<and>
       md_files d' i = Some n \<and> in_bytes n = in_bytes m \<and>
       same_metadata (stat_of i n) (stat_of (rq_duplicate_identity rq) m) \<and>
       md_names d' (temporary_of name) = None))"
  using mac_share_effect [OF assms] unfolding share_effect_def .

section \<open>Changes by others\<close>

lemma share_swapped_others:
  "share_swapped p len (d, (change, failing) # script) = share_swapped p len (change d, (id, failing) # script)"
proof -
  have "swap_names a b (d, (change, failing) # script) = swap_names a b (change d, (id, failing) # script)" for a b
    unfolding swap_names_def by (rule call_others)
  then show ?thesis by (simp only: share_swapped_def act_bind_def act_either_def)
qed

text \<open>Property C19. A change of the duplicate is never lost to the swap. Let other processes have written to
  the duplicate, or put another file under its name, up to the moment the clone and the duplicate are
  swapped. Then, whatever fails from there on, the duplicate's name leads to the bytes they left there;
  or the share reports that it could not put things back, and those bytes are under the temporary name.\<close>

theorem change_before_swap_survives:
  assumes "swappable p len (change d)" and "quiet script"
    and "share_swapped p len (d, (change, failing) # script) = (r, d', script')"
  shows "(content d' (pd_name p) = content (change d) (pd_name p) \<or>
      r = Inl Stranded \<and> content d' (pd_temporary p) = content (change d) (pd_name p)) \<and>
    (r = Inr () \<longrightarrow> md_names (change d) (pd_name p) = Some (op_file (pd_duplicate p))) \<and>
    md_files d' = md_files (change d) \<and>
    (\<forall>n. n \<noteq> pd_temporary p \<longrightarrow> n \<noteq> pd_name p \<longrightarrow> md_names d' n = md_names (change d) n)"
proof -
  have run: "share_swapped p len (change d, (id, failing) # script) = (r, d', script')"
    using assms(3) unfolding share_swapped_others [of p len d] .
  have calm: "quiet ((id, failing) # script)" using assms(2) by simp
  from tripleD [OF triple_share_swapped [OF assms(1)] refl calm run]
  have result: "case r of Inl e \<Rightarrow> unswapped p (change d) e d' | Inr u \<Rightarrow> replaced p (change d) d'" by (rule conjunct2)
  show ?thesis
  proof (cases r)
    case (Inl e)
    with result have "unswapped p (change d) e d'" by simp
    then show ?thesis unfolding unswapped_def Inl by (auto simp: content_def)
  next
    case (Inr u)
    with result have "replaced p (change d) d'" by simp
    then have d': "d' = (change d)\<lparr>md_names := (md_names (change d))(pd_temporary p := None, pd_name p \<mapsto> op_file (pd_clone p))\<rparr>"
      and kept: "content d' (pd_name p) = content (change d) (pd_name p)"
        "md_names (change d) (pd_name p) = Some (op_file (pd_duplicate p))"
      unfolding replaced_def by blast+
    have "md_files d' = md_files (change d)" "\<And>n. n \<noteq> pd_temporary p \<Longrightarrow> n \<noteq> pd_name p \<Longrightarrow> md_names d' n = md_names (change d) n"
      by (simp_all add: d')
    with kept show ?thesis by blast
  qed
qed

end
