(* ===== verification/Share_System.thy ===== *)
theory Share_System
  imports Share_Pairs Share_Files_Facts
begin

text \<open>
  A sharing run on an APFS volume: the run of \<open>crates/cli/src/dedupe.rs\<close> with the share of
  \<open>crates/cli/src/platform/share_macos.rs\<close> in it, on one disk of directories and files.
\<close>

section \<open>The volume\<close>

text \<open>The files, the names in each directory, the path an opened target directory has, the file the
  next clone becomes if there is room for one, and which calls fail in each share to come.\<close>

record apfs =
  ap_files :: "identity \<Rightarrow> inode option"
  ap_names :: "os_path \<Rightarrow> bytes \<Rightarrow> identity option"
  ap_root :: "identity \<Rightarrow> os_path"
  ap_new :: "identity option"
  ap_failing :: "os_error option list list"

definition ap_file :: "apfs \<Rightarrow> os_path \<Rightarrow> identity option" where
  "ap_file d path = (if path = [] then None else ap_names d (butlast path) (List.last path))"

definition ap_content :: "apfs \<Rightarrow> os_path \<Rightarrow> bytes option" where
  "ap_content d path = Option.bind (ap_file d path) (\<lambda>i. map_option in_bytes (ap_files d i))"

definition share_view :: "identity \<Rightarrow> share_request \<Rightarrow> apfs \<Rightarrow> mac_disk" where
  "share_view root rq d =
     \<lparr>md_files = ap_files d, md_names = ap_names d (butlast (ap_root d root @ rq_duplicate rq)),
      md_located = (if rq_duplicate rq = [] then None else Some (List.last (rq_duplicate rq))),
      md_keeper = ap_file d (rq_keeper rq), md_new = ap_new d\<rparr>"

type_synonym new_file = "(identity \<Rightarrow> inode option) \<Rightarrow> (os_path \<Rightarrow> bytes \<Rightarrow> identity option) \<Rightarrow> identity option"

definition share_written :: "new_file \<Rightarrow> identity \<Rightarrow> share_request \<Rightarrow> mac_disk \<Rightarrow> apfs \<Rightarrow> apfs" where
  "share_written new root rq m d =
     (let names = (ap_names d)(butlast (ap_root d root @ rq_duplicate rq) := md_names m) in
      d\<lparr>ap_files := md_files m, ap_names := names, ap_new := new (md_files m) names, ap_failing := tl (ap_failing d)\<rparr>)"

definition apfs_share ::
  "mac_os \<Rightarrow> new_file \<Rightarrow> identity \<Rightarrow> share_method \<Rightarrow> share_request \<Rightarrow> apfs \<Rightarrow> (share_failure + unit) \<times> apfs" where
  "apfs_share os new root how rq d =
     (case mac_share os how rq (share_view root rq d,
          map (\<lambda>e. (id, e)) (case ap_failing d of [] \<Rightarrow> [] | f # _ \<Rightarrow> f)) of
        (r, m, _) \<Rightarrow> (r, share_written new root rq m d))"

section \<open>Files stay representable\<close>

definition modest :: "mac_disk \<Rightarrow> bool" where
  "modest d \<longleftrightarrow> (\<forall>i n. md_files d i = Some n \<longrightarrow> length (in_bytes n) < 2 ^ 64)"

abbreviation stays_modest :: "('f, 'a) mac_act \<Rightarrow> bool" where
  "stays_modest m \<equiv> triple modest m (\<lambda>_. modest) (\<lambda>_. modest)"

lemma modest_looks:
  "stays_modest (stat_fd i)" "stays_modest (stat_at name)" "stays_modest (open_regular which)" "stays_modest (open_file name)"
  by (rule triple_weaken [OF triple_stat_fd [of modest]], auto)
    (rule triple_weaken [OF triple_stat_at [of modest]], auto,
     rule triple_weaken [OF triple_open_regular [of modest]], auto,
     rule triple_weaken [OF triple_open_file [of modest]], auto)

lemma modest_changes:
  "stays_modest (unlink_at name)" "stays_modest (swap_names a b)"
  "(\<And>n. in_bytes (f n) = in_bytes n) \<Longrightarrow> stays_modest (change_file i f)"
  "(\<And>n. in_bytes (mo_cloned os n) = in_bytes n) \<Longrightarrow> stays_modest (clone_to os k name)"
  by (intro triple_unlink_at triple_swap_names triple_change_file triple_clone_to; auto simp: modest_def split: if_splits)+

lemma modest_map: "stays_modest m \<Longrightarrow> stays_modest (act_map_err h m)"
  by (rule triple_map_all)

lemma modest_either: "stays_modest m \<Longrightarrow> stays_modest (act_either m)"
  by (rule triple_either) simp

lemma modest_bind: "stays_modest m \<Longrightarrow> (\<And>a. stays_modest (k a)) \<Longrightarrow> stays_modest (act_bind m k)"
  by (rule triple_bind)

lemma modest_return: "stays_modest (act_return a)" "stays_modest (act_fail e)"
  by (auto intro: triple_return triple_fail)

lemma same_bytes_from_looks:
  assumes "same_bytes_from l r len at (d, script) = (res, d', script')" and "quiet script"
  shows "d' = d \<and> quiet script'"
  using assms
proof (induction "unat len - unat at" arbitrary: at script rule: less_induct)
  case less
  define wanted where "wanted = min (len - at) chunk_len"
  obtain x d1 script1 where one: "read_exact_at l wanted at (d, script) = (x, d1, script1)"
    by (cases "read_exact_at l wanted at (d, script)") auto
  from call_reads [OF one [unfolded read_exact_at_def] less.prems(2)] have d1: "d1 = d" "quiet script1" by blast+
  obtain y d2 script2 where two: "read_exact_at r wanted at (d, script1) = (y, d2, script2)"
    by (cases "read_exact_at r wanted at (d, script1)") auto
  from call_reads [OF two [unfolded read_exact_at_def] d1(2)] have d2: "d2 = d" "quiet script2" by blast+
  show ?case
  proof (cases "at < len \<and> (\<exists>a. x = Inr a \<and> y = Inr a)")
    case True
    then have "same_bytes_from l r len (sat_add at wanted) (d, script2) = (res, d', script')"
      using less.prems(1) one d1 two d2 by (subst (asm) same_bytes_from.simps) (auto simp: wanted_def Let_def)
    moreover have "unat len - unat (sat_add at wanted) < unat len - unat at"
    proof -
      have "0 < unat wanted" using True by (auto simp: wanted_def min_def chunk_len_def unat_gt_0)
      moreover have "unat len < 2 ^ 64" using unsigned_less [of len] by simp
      ultimately show ?thesis using True unfolding word_less_nat_alt unat_sat_add by (simp add: min_def) linarith
    qed
    ultimately show ?thesis using less.hyps d2(2) by blast
  next
    case False
    with less.prems one d1 two d2 show ?thesis
      by (subst (asm) same_bytes_from.simps) (cases x; cases y; auto simp: wanted_def Let_def split: if_splits)
  qed
qed

lemma modest_same_bytes: "stays_modest (same_bytes l r len)"
proof (rule tripleI)
  fix d script res d' script'
  assume "modest d" "quiet script" "same_bytes l r len (d, script) = (res, d', script')"
  with same_bytes_from_looks [of l r len 0 d script res d' script']
  show "quiet script' \<and> (case res of Inl e \<Rightarrow> modest d' | Inr b \<Rightarrow> modest d')"
    by (cases res) (simp_all add: same_bytes_def)
qed

lemmas modest_rules = modest_looks modest_changes modest_map modest_either modest_bind modest_return modest_same_bytes
  triple_extras_of [of modest] triple_open_keeper [of modest]

lemma modest_discard: "stays_modest (discard name i)"
  unfolding discard_def by (intro modest_rules) (auto split: sum.splits intro!: modest_rules)

lemma modest_reclaim: "stays_modest (reclaim name f len)"
  unfolding reclaim_def by (intro modest_rules; (rule triple_if)?; intro modest_rules triple_if)

lemma modest_carry: "stays_modest (carry i st)"
  unfolding carry_def by (intro modest_rules triple_if) simp_all

lemma modest_prepare: "stays_modest (prepare os c f wanted len)"
  unfolding prepare_def by (intro modest_rules modest_carry triple_if)

lemma modest_mac_share:
  assumes "\<And>n. in_bytes (mo_cloned os n) = in_bytes n"
  shows "stays_modest (mac_share os how rq)"
proof -
  note rules = modest_rules modest_discard modest_reclaim modest_prepare
  have made: "stays_modest (make_clone os k f tmp len)" for k f tmp len
    unfolding make_clone_def
    by (rule modest_bind, intro rules, rule assms, rule modest_bind)
      (auto intro!: rules assms split: sum.splits)
  have prepared: "stays_modest (prepare_clone os rq k f name tmp wanted)" for k f name tmp wanted
    unfolding prepare_clone_def
    by (rule modest_bind, rule made, rule modest_bind, intro rules) (auto intro!: rules split: sum.splits)
  have duplicate: "stays_modest (open_duplicate os name rq)" for name
    unfolding open_duplicate_def by (intro rules triple_if)
  have located: "stays_modest (call (\<lambda>d. (Inr (md_located d), d)) :: (os_error, bytes option) mac_act)"
    by (rule triple_call) auto
  have before: "stays_modest (share_prepared os rq)"
    unfolding share_prepared_def
    by (rule modest_bind, intro rules, rule modest_bind, rule modest_map, rule located)
      (auto intro!: rules duplicate prepared triple_if split: option.splits sum.splits)
  have settled: "stays_modest (settled_swap name tmp c f len)" for name tmp c f len
    unfolding settled_swap_def by (intro rules triple_if)
  have restored: "stays_modest (restore name tmp c f)" for name tmp c f
    unfolding restore_def by (intro rules triple_if)
  have removed: "stays_modest (remove_original p)" for p
    unfolding remove_original_def by (intro rules triple_if)
  have settle: "stays_modest (settle_swap p len)" for p len
    unfolding settle_swap_def
    by (rule modest_bind, rule modest_either, rule settled) (auto intro!: rules restored removed split: sum.splits)
  have after: "stays_modest (share_swapped p len)" for p len
    unfolding share_swapped_def
    by (rule modest_bind, intro rules) (auto intro!: rules settle split: sum.splits)
  show ?thesis
    by (cases how) (auto simp: mac_share_def intro!: modest_bind before after modest_return)
qed

section \<open>A run keeps what files contain\<close>

definition apfs_wf :: "apfs \<Rightarrow> bool" where
  "apfs_wf d \<longleftrightarrow>
     (\<forall>i n. ap_files d i = Some n \<longrightarrow> length (in_bytes n) < 2 ^ 64) \<and>
     (\<forall>i. ap_new d = Some i \<longrightarrow> ap_files d i = None \<and> (\<forall>dir n. ap_names d dir n \<noteq> Some i))"

text \<open>A new file is one that was not there; a clone has the content of what it was cloned from.\<close>

definition new_is_new :: "new_file \<Rightarrow> bool" where
  "new_is_new new \<longleftrightarrow> (\<forall>files names i. new files names = Some i \<longrightarrow> files i = None \<and> (\<forall>dir n. names dir n \<noteq> Some i))"

definition clones_content :: "mac_os \<Rightarrow> bool" where
  "clones_content os \<longleftrightarrow> (\<forall>n. in_bytes (mo_cloned os n) = in_bytes n)"

definition holds_at :: "os_path \<Rightarrow> bytes option \<Rightarrow> apfs \<Rightarrow> bool" where
  "holds_at path bs d \<longleftrightarrow> apfs_wf d \<and> ap_content d path = bs"

lemma quiet_failing: "quiet (map (\<lambda>e. (id, e)) es)"
  by (auto simp: quiet_def)

lemma share_view_wf: "apfs_wf d \<Longrightarrow> disk_wf (share_view root rq d)"
  by (auto simp: apfs_wf_def disk_wf_def share_view_def)

lemma temporary_of_temporary: "share_temporary (temporary_of name)"
  by (simp add: share_temporary_def strip_suffix_def)

lemma apfs_share_holds:
  assumes "new_is_new new" and "clones_content os" and path: "path \<noteq> []" "\<not> share_temporary (List.last path)"
    and holds: "holds_at path bs d"
  shows "holds_at path bs (snd (apfs_share os new root how rq d))"
proof -
  let ?view = "share_view root rq d" and ?script = "map (\<lambda>e. (id, e)) (case ap_failing d of [] \<Rightarrow> [] | f # _ \<Rightarrow> f)"
  obtain r m script where run: "mac_share os how rq (?view, ?script) = (r, m, script)"
    by (cases "mac_share os how rq (?view, ?script)") auto
  let ?d = "share_written new root rq m d" and ?dir = "butlast (ap_root d root @ rq_duplicate rq)"
  from holds have wf: "apfs_wf d" and bs: "ap_content d path = bs" by (simp_all add: holds_at_def)
  note kept = mac_share_effect [OF share_view_wf [OF wf] quiet_failing run, unfolded share_effect_def]
  have "modest ?view" using wf by (simp add: modest_def apfs_wf_def share_view_def)
  from tripleD [OF modest_mac_share this quiet_failing run] assms(2) have "modest m"
    by (cases r) (auto simp: clones_content_def)
  moreover have "ap_files ?d i = None \<and> (\<forall>dir n. ap_names ?d dir n \<noteq> Some i)" if "ap_new ?d = Some i" for i
    using assms(1) that unfolding new_is_new_def share_written_def Let_def by (simp del: fun_upd_apply)
  ultimately have wf': "apfs_wf ?d" by (simp add: apfs_wf_def modest_def) (simp add: share_written_def Let_def)
  have "ap_content ?d path = ap_content d path"
  proof (cases "butlast path = ?dir")
    case True
    have "List.last path \<noteq> temporary_of name" for name
      using path(2) temporary_of_temporary [of name] by metis
    with kept have "content m (List.last path) = content ?view (List.last path)" by blast
    with True path show ?thesis
      by (simp add: ap_content_def ap_file_def content_def share_view_def share_written_def Let_def)
  next
    case False
    have "md_files m i = ap_files d i" if "ap_names d (butlast path) n = Some i" for i n
    proof -
      have "ap_new d \<noteq> Some i" using that wf by (auto simp: apfs_wf_def)
      with kept show ?thesis by (simp add: share_view_def)
    qed
    with False path show ?thesis
      by (cases "ap_names d (butlast path) (List.last path)")
        (simp_all add: ap_content_def ap_file_def share_written_def Let_def)
  qed
  with wf' bs run show ?thesis by (simp add: apfs_share_def holds_at_def)
qed

text \<open>Property C17. A sharing run never changes what a file contains. From stocking the targets to the last
  pair, in a dry run or an execution, with any calls failing in any share: if other processes leave the
  bytes under a path alone and the path is not a temporary name of a share, the bytes under it are the
  same when the run ends, and the run holds the locks it held before.\<close>

theorem run_keeps_contents:
  assumes share: "sh_share sh = apfs_share os new" and "new_is_new new" and "clones_content os"
    and path: "path \<noteq> []" "\<not> share_temporary (List.last path)"
    and before: "apfs_wf (wd_disk w)" and others: "kept_meanwhile (sh_machine sh) (holds_at path (ap_content (wd_disk w) path))"
  shows "ap_content (wd_disk (snd (dedupe_found sh t m fs w))) path = ap_content (wd_disk w) path \<and>
    wd_own (snd (dedupe_found sh t m fs w)) = wd_own w"
proof -
  let ?P = "holds_at path (ap_content (wd_disk w) path)"
  obtain p w1 where stocked: "stock_targets sh t fs (pool_empty, w) = (p, w1)" by fastforce
  have "?P (wd_disk w)" using before by (simp add: holds_at_def)
  from stock_targets_steps [OF stocked others this] have w1: "wd_own w1 = wd_own w" "?P (wd_disk w1)" by simp_all
  have "shares_keep sh t items ps ?P" for items ps
    using apfs_share_holds [OF assms(2,3) path]
    by (auto simp: shares_keep_def shareable_share_def share split: prod.splits) (metis snd_conv)
  from pool_share_steps [OF others w1(2) this] obtain kept w2 where
    "snd (pool_share sh t Everything_Shared m p w1) = drop_target kept w2" "held_ok sh t (wd_own w1) kept w2" "?P (wd_disk w2)"
    by blast
  with held_ok_drop [of sh t "wd_own w1" kept w2] w1(1) show ?thesis
    by (simp add: dedupe_found_def stocked holds_at_def)
qed

end
