(* ===== verification/Share_Ranges.thy ===== *)
theory Share_Ranges
  imports Share_Files_Facts
begin

text \<open>
  Sharing one pair of files on Btrfs and XFS (\<open>crates/cli/src/platform/share_linux.rs\<close>): the kernel is
  asked, range by range, to let the duplicate use the keeper's extents where the bytes are the same.
\<close>

section \<open>Filesystems\<close>

definition linux_filesystem :: "int \<Rightarrow> filesystem" where
  "linux_filesystem kind =
     (case List.find (\<lambda>(magic, _). magic = kind) [(0x9123683E, Btrfs), (0x58465342, Xfs)] of
        Some (_, fs) \<Rightarrow> fs
      | None \<Rightarrow> filesystem.Other)"

definition linux_facts :: "u32 \<Rightarrow> identity \<Rightarrow> u64 \<Rightarrow> u64 \<Rightarrow> u32 \<Rightarrow> u32 \<Rightarrow> file_facts" where
  "linux_facts caller i len links uid mode =
     \<lparr>ff_identity = i, ff_len = len, ff_links = links,
      ff_owner = (if uid = caller then Caller else file_owner.Other),
      ff_mode = (if mode AND 0x49 = 0 then file_mode.Plain else file_mode.Executable),
      ff_sharing = sharing.Unknown\<rparr>"

section \<open>One range\<close>

text \<open>What the call writes back: a status and how many bytes are shared now.\<close>

record dedupe_info =
  di_status :: int
  di_deduped :: u64

definition saturating_neg :: "int \<Rightarrow> int" where
  "saturating_neg n = (if n = - (2 ^ 31) then 2 ^ 31 - 1 else - n)"

definition dedupe_answer :: "(int \<Rightarrow> os_error) \<Rightarrow> os_error + dedupe_info \<Rightarrow> share_failure + u64" where
  "dedupe_answer raw answer =
     (case answer of
        Inl e \<Rightarrow> Inl (share_failed Dedupe e)
      | Inr info \<Rightarrow>
          if di_status info = 0 then Inr (di_deduped info)
          else if di_status info = 1 then Inl ContentDiffers
          else Inl (share_failed Dedupe (raw (saturating_neg (di_status info)))))"

section \<open>All ranges\<close>

definition range_len :: u64 where
  "range_len = 16 * 1024 * 1024"

lemma sat_add_advances: "offset < (len :: u64) \<Longrightarrow> shared \<noteq> 0 \<Longrightarrow> offset < sat_add offset shared"
proof -
  assume "offset < len" "shared \<noteq> 0"
  moreover have "unat len < 2 ^ 64" using unsigned_less [of len] by simp
  ultimately show ?thesis unfolding word_less_nat_alt unat_sat_add by (simp add: min_def unat_gt_0)
qed

text \<open>The kernel's answer to the range at an offset of a length. Each range that is shared advances the
  offset, so the loop ends.\<close>

function dedupe_ranges ::
  "(int \<Rightarrow> os_error) \<Rightarrow> (u64 \<Rightarrow> u64 \<Rightarrow> os_error + dedupe_info) \<Rightarrow> u64 \<Rightarrow> u64 \<Rightarrow> share_failure + unit" where
  "dedupe_ranges raw answers len offset =
     (if offset < len then
        (case dedupe_answer raw (answers offset (min (len - offset) range_len)) of
           Inl e \<Rightarrow> Inl e
         | Inr shared \<Rightarrow>
             if shared = 0 then Inl (share_failed Dedupe (io_error EInvalidInput))
             else dedupe_ranges raw answers len (sat_add offset shared))
      else Inr ())"
  by pat_completeness auto


termination
proof (relation "measure (\<lambda>(raw, answers, len, offset). unat len - unat offset)")
  fix raw answers and len offset shared :: u64
  assume "offset < len" "shared \<noteq> 0"
  then show "((raw, answers, len, sat_add offset shared), (raw, answers, len, offset))
      \<in> measure (\<lambda>(raw, answers, len, offset). unat len - unat offset)"
    using sat_add_advances [of offset len shared] by (simp add: word_less_nat_alt)
qed simp

text \<open>What the calls of a share answer.\<close>

record range_os =
  rg_caller :: u32
  rg_raw :: "int \<Rightarrow> os_error"
  rg_keeper :: "os_error + unit"
  rg_keeper_stat :: "os_error + file_stat"
  rg_located :: "os_error + bytes option"
  rg_duplicate :: "bytes \<Rightarrow> os_error + unit"
  rg_duplicate_stat :: "os_error + file_stat"
  rg_kernel :: "u64 \<Rightarrow> u64 \<Rightarrow> os_error + dedupe_info"

definition share_result :: "(os_error \<Rightarrow> share_failure) \<Rightarrow> os_error + 'a \<Rightarrow> share_failure + 'a" where
  "share_result h answer = (case answer of Inl e \<Rightarrow> Inl (h e) | Inr a \<Rightarrow> Inr a)"

definition linux_share :: "range_os \<Rightarrow> share_method \<Rightarrow> share_request \<Rightarrow> share_failure + unit" where
  "linux_share os method rq =
     (case method of
        CloneAndSwap \<Rightarrow> Inl (share_failed Clone (io_error EUnsupported))
      | DedupeRange \<Rightarrow>
          result_bind (share_result (\<lambda>_. KeeperChanged) (rg_keeper os)) (\<lambda>_.
          result_bind (share_result (share_failed share_step.Inspect) (rg_keeper_stat os)) (\<lambda>kept.
            if fs_identity kept \<noteq> rq_keeper_identity rq \<or> stat_size kept \<noteq> rq_len rq then Inl KeeperChanged
            else
              result_bind (share_result (share_failed share_step.Open) (rg_located os)) (\<lambda>located.
                case located of
                  None \<Rightarrow> Inl DuplicateChanged
                | Some name \<Rightarrow>
                    result_bind (share_result (\<lambda>_. DuplicateChanged) (rg_duplicate os name)) (\<lambda>_.
                    result_bind (share_result (share_failed share_step.Inspect) (rg_duplicate_stat os)) (\<lambda>st.
                      if fs_identity st \<noteq> rq_duplicate_identity rq \<or> stat_size st \<noteq> rq_len rq \<or>
                         fs_uid st \<noteq> rg_caller os
                      then Inl DuplicateChanged
                      else dedupe_ranges (rg_raw os) (rg_kernel os) (rq_len rq) 0))))))"

section \<open>What is shared\<close>

text \<open>The bytes before an offset have been shared, range after range, each asked for within the file.\<close>

inductive shared_up_to :: "(u64 \<Rightarrow> u64 \<Rightarrow> os_error + dedupe_info) \<Rightarrow> u64 \<Rightarrow> u64 \<Rightarrow> bool" for answers len where
  shared_none: "shared_up_to answers len 0"
| shared_range: "shared_up_to answers len offset \<Longrightarrow> offset < len \<Longrightarrow>
    answers offset (min (len - offset) range_len) = Inr \<lparr>di_status = 0, di_deduped = n\<rparr> \<Longrightarrow> n \<noteq> 0 \<Longrightarrow>
    shared_up_to answers len (sat_add offset n)"

inductive_cases shared_up_to_elim: "shared_up_to answers len offset"

definition range_failure ::
  "(int \<Rightarrow> os_error) \<Rightarrow> (u64 \<Rightarrow> u64 \<Rightarrow> os_error + dedupe_info) \<Rightarrow> u64 \<Rightarrow> u64 \<Rightarrow> share_failure \<Rightarrow> bool" where
  "range_failure raw answers len offset e \<longleftrightarrow>
     dedupe_answer raw (answers offset (min (len - offset) range_len)) = Inl e \<or>
     dedupe_answer raw (answers offset (min (len - offset) range_len)) = Inr 0 \<and>
       e = share_failed Dedupe (io_error EInvalidInput)"

lemma dedupe_answer_Inr: "dedupe_answer raw a = Inr n \<longleftrightarrow> a = Inr \<lparr>di_status = 0, di_deduped = n\<rparr>"
  by (auto simp: dedupe_answer_def split: sum.splits if_splits)

lemma dedupe_ranges_from:
  assumes "shared_up_to answers len offset"
  shows "case dedupe_ranges raw answers len offset of
      Inr u \<Rightarrow> \<exists>to. shared_up_to answers len to \<and> len \<le> to
    | Inl e \<Rightarrow> \<exists>to. shared_up_to answers len to \<and> to < len \<and> range_failure raw answers len to e"
  using assms
proof (induction raw answers len offset rule: dedupe_ranges.induct)
  case (1 raw answers len offset)
  show ?case
  proof (cases "offset < len")
    case False
    with 1(2) show ?thesis by (subst dedupe_ranges.simps) (auto simp: not_less)
  next
    case True
    show ?thesis
    proof (cases "dedupe_answer raw (answers offset (min (len - offset) range_len))")
      case (Inl e)
      with True 1(2) show ?thesis
        by (subst dedupe_ranges.simps) (auto simp: range_failure_def intro: exI [of _ offset])
    next
      case (Inr n)
      show ?thesis
      proof (cases "n = 0")
        case True
        with \<open>offset < len\<close> Inr 1(2) show ?thesis
          by (subst dedupe_ranges.simps) (auto simp: range_failure_def intro: exI [of _ offset])
      next
        case False
        have "shared_up_to answers len (sat_add offset n)"
          using shared_range [OF 1(2) True _ False] Inr by (simp add: dedupe_answer_Inr)
        from 1(1) [OF True Inr False this] True Inr False show ?thesis
          by (subst dedupe_ranges.simps) simp
      qed
    qed
  qed
qed

text \<open>Property C25. On Linux the ranges of a file are shared from its start without a gap until its end,
  or up to the first range the kernel did not share: the loop ends whatever the kernel answers, it
  succeeds only if every byte of the length was shared in consecutive ranges, and otherwise it
  reports the failure of a range that follows the bytes shared so far.\<close>

theorem ranges_cover_the_file:
  "case dedupe_ranges raw answers len 0 of
     Inr u \<Rightarrow> \<exists>to. shared_up_to answers len to \<and> len \<le> to
   | Inl e \<Rightarrow> \<exists>to. shared_up_to answers len to \<and> to < len \<and> range_failure raw answers len to e"
  by (rule dedupe_ranges_from [OF shared_none])

end
