(* ===== verification/Share_Examples.thy ===== *)
theory Share_Examples
  imports Share_System Share_Ranges Pool_Facts Applying_Examples
begin

text \<open>
  Two files of one content in a target, on a quiet machine: concrete inputs at which the properties of
  sharing hold.
\<close>

section \<open>A volume with two files of one content\<close>

definition twin_bytes :: bytes where
  "twin_bytes = replicate 65536 (CHR ''x'')"

lemma twin_length: "length twin_bytes = 65536"
  by (simp add: twin_bytes_def)

definition twin_inode :: inode where
  "twin_inode =
     \<lparr>in_bytes = twin_bytes, in_mode = 0x81A4, in_uid = 501, in_gid = 20, in_flags = 0, in_links = 1,
      in_atime = (0, 0), in_mtime = (0, 0), in_acl = False, in_clone = None, in_attrs = []\<rparr>"

definition twin_names :: "bytes \<Rightarrow> identity option" where
  "twin_names = (\<lambda>_. None)(''a'' \<mapsto> on_disk 10, ''b'' \<mapsto> on_disk 11)"

definition twin_disk :: apfs where
  "twin_disk =
     \<lparr>ap_files = (\<lambda>_. None)(on_disk 10 \<mapsto> twin_inode, on_disk 11 \<mapsto> twin_inode),
      ap_names = (\<lambda>_ _. None)(job_path := twin_names), ap_root = (\<lambda>_. job_path), ap_new = Some (on_disk 12),
      ap_failing = []\<rparr>"

definition twin_os :: mac_os where
  "twin_os = \<lparr>mo_caller = 501, mo_cloned = (\<lambda>n. n), mo_attrlist = (\<lambda>_. replicate 24 (CHR 0x00)), mo_sha = (\<lambda>b. b)\<rparr>"

definition twin_machine :: "apfs machine" where
  "twin_machine =
     \<lparr>mc_host = unix_host, mc_meanwhile = (\<lambda>w. (wd_others w, wd_disk w)),
      mc_observing = (\<lambda>_. job_observing), mc_surveying = (\<lambda>_. quiet_survey_os),
      mc_tree = (\<lambda>_ _. job_tree), mc_removing = (\<lambda>_. undisturbed),
      mc_outer = (\<lambda>_ _. (on_disk 1, sample_home)), mc_emptied = (\<lambda>_ _ d. d),
      mc_sha = (\<lambda>b. b), mc_fold = (\<lambda>b. b)\<rparr>"

definition twin_print :: "apfs \<Rightarrow> print_os" where
  "twin_print d path =
     (case ap_file d path of
        None \<Rightarrow> Inl not_there
      | Some i \<Rightarrow>
          (case ap_files d i of
             None \<Rightarrow> Inl not_there
           | Some n \<Rightarrow> Inr \<lparr>pf_identity = Inr i, pf_bytes = in_bytes n, pf_fails = (\<lambda>_ _. False), pf_seek = Inr\<rparr>))"

definition twin_facts :: "nat \<Rightarrow> file_facts" where
  "twin_facts i =
     \<lparr>ff_identity = on_disk i, ff_len = 65536, ff_links = 1, ff_owner = Caller, ff_mode = file_mode.Plain,
      ff_sharing = sharing.Unknown\<rparr>"

definition twin_inventory :: inventory where
  "twin_inventory =
     \<lparr>iv_files = [(job_path @ [''a''], [''a''], twin_facts 10), (job_path @ [''b''], [''b''], twin_facts 11)],
      iv_unreadable = 0\<rparr>"

definition twin_pool :: pool where
  "twin_pool = snd (pool_stock (Inr (CloneAndSwap, twin_inventory)) job_found pool_empty)"

definition twin_sharer :: "new_file \<Rightarrow> apfs sharer" where
  "twin_sharer new =
     \<lparr>sh_machine = twin_machine,
      sh_stock = (\<lambda>_. \<lparr>so_host = unix_host, so_kind = (\<lambda>_. Inl not_there), so_meta = (\<lambda>_. Inl not_there),
        so_facts = (\<lambda>_. Inl not_there), so_tree = (\<lambda>_. job_tree)\<rparr>),
      sh_filesystem = (\<lambda>_ _. Inr Apfs), sh_open = (\<lambda>_ _. twin_print), sh_extras = (\<lambda>_ _ _ _. extras.Plain []),
      sh_share = apfs_share twin_os new\<rparr>"

definition twin_terms :: share_terms where
  "twin_terms =
     \<lparr>sm_excludes = [ex_names [''q'']], sm_protection = ex_protection, sm_owners = job_owners\<rparr>"

definition twin_world :: "apfs world" where
  "twin_world = \<lparr>wd_others = {}, wd_own = {}, wd_disk = twin_disk\<rparr>"

lemma twin_quiet: "meanwhile (sh_machine (twin_sharer new)) w = w" "meanwhile twin_machine w = w"
  by (simp_all add: meanwhile_def twin_sharer_def twin_machine_def)

lemma twin_kept: "kept_meanwhile (sh_machine (twin_sharer new)) P"
  by (simp add: kept_meanwhile_def twin_quiet)

section \<open>The pool\<close>

lemma job_found_path: "fd_path job_found = job_path"
  by (simp add: job_found_def)

lemma twin_built: "pool_built twin_pool"
  unfolding twin_pool_def by (rule built_stock [OF built_empty])

lemma twin_stocked:
  "stocked twin_pool root rel = Some facts \<Longrightarrow> root = job_path \<and> (rel = [''a''] \<or> rel = [''b''])"
  by (auto simp: stocked_def twin_pool_def pool_stock_def put_stock_def pool_index_def index_file_def pool_empty_def
      Let_def job_found_path bind_eq_Some_conv twin_inventory_def tm_extend_def tm_insert_def split: if_splits dest!: map_of_SomeD)

text \<open>Each of the two files has one item.\<close>

theorem items_exactly_witness:
  "distinct (map (fr_identity \<circ> it_record) (pool_items unix_host twin_pool Everything_Shared))"
proof (rule items_exactly [THEN conjunct2, THEN conjunct1])
  show "pool_built twin_pool" by (rule twin_built)
next
  fix root rel facts
  assume "stocked twin_pool root rel = Some facts"
  from twin_stocked [OF this] show "\<exists>l. locate unix_host (root @ rel) = Inr l"
    by (auto simp: unix_located name_ok_def job_path_def)
qed

theorem pool_index_exact_witness:
  "\<forall>ms. map_of (pl_lengths twin_pool) 65536 = Some ms \<longrightarrow> ms \<noteq> []"
  using pool_index_exact [OF twin_built, of job_path "[''a'']" 65536] by blast

section \<open>The pair\<close>

definition twin_item :: "bytes \<Rightarrow> nat \<Rightarrow> item" where
  "twin_item name i =
     \<lparr>it_record =
        \<lparr>fr_location = ex_names (job_path @ [name]), fr_len = 65536, fr_identity = on_disk i,
         fr_method = CloneAndSwap, fr_links = 1, fr_owner = Caller, fr_mode = file_mode.Plain,
         fr_extras = extras.Unobserved, fr_sharing = sharing.Unknown\<rparr>,
      it_found = job_found, it_path = job_path @ [name], it_relative = [name]\<rparr>"

definition twin_items :: "item list" where
  "twin_items = [twin_item ''a'' 10, twin_item ''b'' 11]"

lemma on_disk_eq [simp]: "on_disk 10 \<noteq> on_disk 11" "on_disk 11 \<noteq> on_disk 10" "on_disk 12 \<noteq> on_disk 10" "on_disk 12 \<noteq> on_disk 11"
  by (simp_all add: on_disk_def)

lemma twin_reads:
  "twin_print twin_disk (job_path @ [''a'']) = Inr \<lparr>pf_identity = Inr (on_disk 10), pf_bytes = twin_bytes, pf_fails = (\<lambda>_ _. False), pf_seek = Inr\<rparr>"
  "twin_print twin_disk (job_path @ [''b'']) = Inr \<lparr>pf_identity = Inr (on_disk 11), pf_bytes = twin_bytes, pf_fails = (\<lambda>_ _. False), pf_seek = Inr\<rparr>"
  by (simp_all add: twin_print_def ap_file_def twin_disk_def twin_names_def twin_inode_def butlast_append)

lemma twin_steady: "i < 2 \<Longrightarrow> steady (twin_sharer new) twin_items twin_world i twin_bytes"
  by (cases "i = 0") (auto simp: steady_def twin_items_def twin_item_def twin_length twin_quiet twin_world_def twin_sharer_def twin_reads
      less_2_cases_iff)

lemma twin_families: "record_family (it_record (twin_items ! 0)) \<noteq> record_family (it_record (twin_items ! 1))"
  by (simp add: twin_items_def twin_item_def record_family_def on_disk_def)

lemma twin_sha: "inj (mc_sha (sh_machine (twin_sharer new)))"
  by (simp add: twin_sharer_def twin_machine_def)


section \<open>A share\<close>

text \<open>Two short files, as the share sees them.\<close>

definition pair_inode :: inode where
  "pair_inode = twin_inode\<lparr>in_bytes := ''xy''\<rparr>"

definition pair_disk :: mac_disk where
  "pair_disk =
     \<lparr>md_files = (\<lambda>_. None)(on_disk 10 \<mapsto> pair_inode, on_disk 11 \<mapsto> pair_inode),
      md_names = (\<lambda>_. None)(''a'' \<mapsto> on_disk 10, ''b'' \<mapsto> on_disk 11), md_located = Some ''b'',
      md_keeper = Some (on_disk 10), md_new = Some (on_disk 12)\<rparr>"

definition duplicate_request :: share_request where
  "duplicate_request =
     \<lparr>rq_keeper = job_path @ [''a''], rq_keeper_identity = on_disk 10, rq_duplicate = [''b''],
      rq_duplicate_identity = on_disk 11, rq_len = 2\<rparr>"

lemmas share_calls = call_def act_bind_def act_return_def act_fail_def act_either_def act_map_err_def

lemmas disk_calls = on_file_def change_file_def stat_of_def stat_fd_def stat_at_def unlink_at_def open_call_def
  regular_def open_regular_def open_file_def read_exact_at_def clone_to_def swap_names_def

lemmas small_disk = duplicate_request_def pair_disk_def pair_inode_def twin_inode_def twin_os_def on_disk_def

lemma pair_keeper: "open_keeper duplicate_request (pair_disk, []) =
   (Inr \<lparr>op_file = on_disk 10, op_stat = stat_of (on_disk 10) pair_inode\<rparr>, pair_disk, [])"
  by (simp add: open_keeper_def share_calls disk_calls small_disk regular_mode_def stat_size_def)

lemma no_attributes: "parse_common (replicate 24 (CHR 0x00)) = Some \<lparr>ca_acl = False, ca_clone = None\<rparr>"
proof -
  have "of_le_bytes (replicate 4 (CHR 0x00)) = 0" by (simp add: eval_nat_numeral)
  then show ?thesis
    by (simp add: parse_common_def cursor_u32_def cursor_u64_def cursor_take_def)
qed

lemma pair_extras:
  "md_files d i = Some pair_inode \<Longrightarrow> fs_flags st = 0 \<Longrightarrow> extras_of twin_os i st (d, []) = (Inr (extras.Plain []), d, [])"
  by (simp add: extras_of_def classify_def attributes_def common_of_def no_attributes twin_os_def pair_inode_def twin_inode_def
    listed_attrs_def share_calls disk_calls attr_digest_def)

abbreviation pair_file :: "nat \<Rightarrow> opened_file" where
  "pair_file i \<equiv> \<lparr>op_file = on_disk i, op_stat = stat_of (on_disk i) pair_inode\<rparr>"

lemma pair_duplicate: "open_duplicate twin_os ''b'' duplicate_request (pair_disk, []) = (Inr (pair_file 11), pair_disk, [])"
  by (simp add: open_duplicate_def share_calls disk_calls small_disk regular_mode_def stat_size_def replaceable_def executable_mode_def)

definition pair_temporary :: bytes where
  "pair_temporary = temporary_of ''b''"

lemma pair_temporary: "temporary_name ''b'' = Inr pair_temporary" "pair_temporary \<noteq> ''a''" "pair_temporary \<noteq> ''b''"
  by (simp_all add: temporary_name_def temporary_suffix_def pair_temporary_def)

definition cloned_disk :: mac_disk where
  "cloned_disk = pair_disk\<lparr>md_files := (md_files pair_disk)(on_disk 12 \<mapsto> pair_inode),
     md_names := (md_names pair_disk)(pair_temporary \<mapsto> on_disk 12)\<rparr>"

lemma pair_clone: "make_clone twin_os (pair_file 10) (pair_file 11) (pair_temporary) 2 (pair_disk, []) = (Inr (pair_file 12), cloned_disk, [])"
  by (simp add: make_clone_def cloned_disk_def share_calls disk_calls small_disk regular_mode_def pair_temporary)

lemma pair_same: "md_files d i = Some pair_inode \<Longrightarrow> md_files d j = Some pair_inode \<Longrightarrow> same_bytes i j 2 (d, []) = (Inr True, d, [])"
  by (simp add: same_bytes_def disk_calls share_calls pair_inode_def chunk_len_def same_bytes_from.simps sat_add_def)

lemma pair_carry: "carry (on_disk 12) (stat_of (on_disk 11) pair_inode) (cloned_disk, []) = (Inr (), cloned_disk, [])"
  by (simp add: carry_def share_calls disk_calls permissions_def cloned_disk_def small_disk)

lemma cloned_files: "md_files cloned_disk (on_disk 11) = Some pair_inode" "md_files cloned_disk (on_disk 12) = Some pair_inode"
  by (simp_all add: cloned_disk_def pair_disk_def)

lemma stat_of_fields: "fs_identity (stat_of i n) = i" "fs_size (stat_of i n) = length (in_bytes n)"
  "fs_flags (stat_of i n) = in_flags n" "same_metadata (stat_of i n) (stat_of j n)"
  by (simp_all add: stat_of_def same_metadata_def)

lemma stat_there: "md_files d i = Some n \<Longrightarrow> stat_fd i (d, []) = (Inr (stat_of i n), d, [])"
  "md_names d name = Some i \<Longrightarrow> md_files d i = Some n \<Longrightarrow> stat_at name (d, []) = (Inr (stat_of i n), d, [])"
  by (simp_all add: stat_fd_def stat_at_def on_file_def call_def)

lemma pair_flags: "in_flags pair_inode = 0"
  by (simp add: pair_inode_def twin_inode_def)

lemma pair_prepare: "prepare twin_os (pair_file 12) (pair_file 11) (extras.Plain []) 2 (cloned_disk, []) = (Inr (), cloned_disk, [])"
  by (simp add: prepare_def share_calls pair_same cloned_files pair_carry stat_of_fields stat_there pair_extras pair_flags)

definition pair_prepared :: prepared where
  "pair_prepared = \<lparr>pd_name = ''b'', pd_temporary = pair_temporary, pd_clone = pair_file 12, pd_duplicate = pair_file 11\<rparr>"

lemma pair_ready: "share_prepared twin_os duplicate_request (pair_disk, []) = (Inr pair_prepared, cloned_disk, [])"
proof -
  have "md_located pair_disk = Some ''b''" "rq_len duplicate_request = 2"
    "md_files pair_disk (on_disk 10) = Some pair_inode" "md_files pair_disk (on_disk 11) = Some pair_inode"
    by (simp_all add: pair_disk_def duplicate_request_def)
  then show ?thesis
    by (simp add: share_prepared_def share_calls pair_keeper pair_duplicate pair_temporary pair_extras pair_flags stat_of_fields extras_agree_def
      prepare_clone_def pair_clone pair_prepare pair_prepared_def)
qed

lemma pair_swapped: "fst (share_swapped pair_prepared 2 (cloned_disk, [])) = Inr ()"
proof -
  let ?d = "cloned_disk\<lparr>md_names := (md_names cloned_disk)(pair_temporary \<mapsto> on_disk 11, ''b'' \<mapsto> on_disk 12)\<rparr>"
  have swap: "swap_names (pair_temporary) ''b'' (cloned_disk, []) = (Inr (), ?d, [])"
    by (simp add: swap_names_def call_def cloned_disk_def pair_disk_def pair_temporary)
  have same: "same_bytes (on_disk 12) (on_disk 11) 2 (?d, []) = (Inr True, ?d, [])"
    by (rule pair_same) (simp_all add: cloned_files)
  have "settled_swap ''b'' (pair_temporary) (pair_file 12) (pair_file 11) 2 (?d, []) = (Inr (), ?d, [])"
    using same by (simp add: settled_swap_def share_calls stat_there cloned_files stat_of_fields pair_temporary)
  with swap show ?thesis
    by (simp add: share_swapped_def settle_swap_def remove_original_def share_calls pair_prepared_def stat_there unlink_at_def
       cloned_files stat_of_fields pair_temporary)
qed

lemma pair_shared: "fst (mac_share twin_os CloneAndSwap duplicate_request (pair_disk, [])) = Inr ()"
proof -
  have "rq_len duplicate_request = 2" by (simp add: duplicate_request_def)
  then show ?thesis by (simp add: mac_share_def act_bind_def pair_ready pair_swapped)
qed


lemma small_disk_wf: "disk_wf pair_disk"
  by (auto simp: disk_wf_def pair_disk_def pair_inode_def on_disk_def split: if_splits)

text \<open>The share goes through, and both names keep their content.\<close>

theorem share_keeps_contents_witness:
  "\<exists>d' script'. mac_share twin_os CloneAndSwap duplicate_request (pair_disk, []) = (Inr (), d', script') \<and>
     content d' ''a'' = Some ''xy'' \<and> content d' ''b'' = Some ''xy'' \<and> md_names d' ''b'' = Some (on_disk 12) \<and>
     md_names d' pair_temporary = None"
proof -
  obtain d' script' where run: "mac_share twin_os CloneAndSwap duplicate_request (pair_disk, []) = (Inr (), d', script')"
    using pair_shared by (metis prod.collapse)
  have "content pair_disk ''a'' = Some ''xy''" "content pair_disk ''b'' = Some ''xy''" "md_located pair_disk = Some ''b''" "md_new pair_disk = Some (on_disk 12)"
    by (simp_all add: content_def pair_disk_def pair_inode_def)
  with run share_keeps_contents [OF small_disk_wf quiet_simps(1) run] pair_temporary show ?thesis
    by (auto simp: pair_temporary_def)
qed

text \<open>Another process writes to the duplicate just before the swap.\<close>

definition pair_write :: "mac_disk \<Rightarrow> mac_disk" where
  "pair_write d = d\<lparr>md_files := (md_files d)(on_disk 11 \<mapsto> pair_inode\<lparr>in_bytes := ''zz''\<rparr>)\<rparr>"

theorem change_before_swap_survives_witness:
  "\<exists>r d' script'. share_swapped pair_prepared 2 (cloned_disk, [(pair_write, None)]) = (r, d', script') \<and>
     (content d' ''b'' = Some ''zz'' \<or> r = Inl Stranded \<and> content d' pair_temporary = Some ''zz'')"
proof -
  obtain r d' script' where run: "share_swapped pair_prepared 2 (cloned_disk, [(pair_write, None)]) = (r, d', script')"
    by (metis prod.collapse)
  have "swappable pair_prepared 2 (pair_write cloned_disk)"
    using pair_temporary by (simp add: swappable_def pair_prepared_def pair_write_def cloned_disk_def pair_disk_def stat_of_fields pair_inode_def)
  from change_before_swap_survives [OF this _ run] have "content d' ''b'' = content (pair_write cloned_disk) ''b'' \<or>
      r = Inl Stranded \<and> content d' pair_temporary = content (pair_write cloned_disk) ''b''"
    by (simp add: pair_prepared_def)
  moreover have "content (pair_write cloned_disk) ''b'' = Some ''zz''"
    using pair_temporary by (simp add: content_def pair_write_def cloned_disk_def pair_disk_def)
  ultimately show ?thesis using run by auto
qed

section \<open>Runs on the volume\<close>

lemma twin_wf: "apfs_wf twin_disk"
  by (auto simp: apfs_wf_def twin_disk_def twin_inode_def twin_length twin_names_def on_disk_def split: if_splits)

lemma no_new: "new_is_new (\<lambda>_ _. None)"
  by (simp add: new_is_new_def)

lemma twin_clones: "clones_content twin_os"
  by (simp add: clones_content_def twin_os_def)

lemma twin_content: "ap_content twin_disk (job_path @ [''a'']) = Some twin_bytes" "ap_content twin_disk (job_path @ [''b'']) = Some twin_bytes"
  by (simp_all add: ap_content_def ap_file_def twin_disk_def twin_names_def twin_inode_def butlast_append)

theorem run_keeps_contents_witness:
  "ap_content (wd_disk (snd (dedupe_found (twin_sharer (\<lambda>_ _. None)) twin_terms Execute [job_found] twin_world)))
     (job_path @ [''b'']) = Some twin_bytes"
proof -
  have share: "sh_share (twin_sharer (\<lambda>_ _. None)) = apfs_share twin_os (\<lambda>_ _. None)" by (simp add: twin_sharer_def)
  have path: "job_path @ [''b''] \<noteq> []" "\<not> share_temporary (List.last (job_path @ [''b'']))"
    by (simp_all add: share_temporary_def temporary_suffix_def strip_suffix_def)
  have disk: "wd_disk twin_world = twin_disk" by (simp add: twin_world_def)
  show ?thesis
    using run_keeps_contents [OF share no_new twin_clones path _ twin_kept, of twin_world twin_terms Execute "[job_found]"]
    by (simp add: disk twin_wf twin_content)
qed

theorem disk_changes_only_by_authorized_shares_witness:
  "ap_content (wd_disk (snd (pool_share (twin_sharer (\<lambda>_ _. None)) twin_terms Everything_Shared Execute twin_pool twin_world)))
     (job_path @ [''a'']) = Some twin_bytes"
proof -
  let ?P = "holds_at (job_path @ [''a'']) (Some twin_bytes)"
  have path: "job_path @ [''a''] \<noteq> []" "\<not> share_temporary (List.last (job_path @ [''a'']))"
    by (simp_all add: share_temporary_def temporary_suffix_def strip_suffix_def)
  have here: "?P (wd_disk twin_world)" by (simp add: holds_at_def twin_world_def twin_wf twin_content)
  have "shares_keep (twin_sharer (\<lambda>_ _. None)) twin_terms items ps ?P" for items ps
    using apfs_share_holds [OF no_new twin_clones path]
    by (auto simp: shares_keep_def shareable_share_def twin_sharer_def split: prod.splits) (metis snd_conv)
  from disk_changes_only_by_authorized_shares [OF twin_kept here this] show ?thesis
    by (simp add: holds_at_def)
qed

section \<open>The planned pair\<close>

lemma twin_confirmed:
  "\<exists>g \<in> set (confirmed_groups (twin_sharer new) Everything_Shared twin_items twin_world).
     (0, it_record (twin_items ! 0)) \<in> set (gr_members g) \<and> (1, it_record (twin_items ! 1)) \<in> set (gr_members g)"
proof -
  have at: "0 < length twin_items" "1 < length twin_items" by (simp_all add: twin_items_def)
  have "fr_len (it_record (twin_items ! 0)) = fr_len (it_record (twin_items ! 1))"
    "minimum \<le> fr_len (it_record (twin_items ! 0))"
    "volume (fr_identity (it_record (twin_items ! 0))) = volume (fr_identity (it_record (twin_items ! 1)))"
    by (simp_all add: twin_items_def twin_item_def minimum_def on_disk_def)
  moreover have "steady (twin_sharer new) twin_items twin_world 0 twin_bytes" "steady (twin_sharer new) twin_items twin_world 1 twin_bytes"
    by (simp_all add: twin_steady)
  ultimately show ?thesis
    unfolding confirmed_together [OF at twin_families] by (auto simp: steady_sample steady_full size_key_def)
qed

lemma twin_pair:
  assumes "m \<in> {0, 1}" "n \<in> {0, 1}" "m \<noteq> n"
  shows "pair (snd (observed_member (twin_sharer new) twin_items w (m, it_record (twin_items ! m))))
    (snd (observed_member (twin_sharer new) twin_items w (n, it_record (twin_items ! n)))) = pairing.Share"
  using assms
  by (auto simp: pair_share_iff observed_member_def twin_items_def twin_item_def twin_sharer_def on_disk_def)

lemma twin_planned:
  "\<exists>p \<in> set (planned_pairs (twin_sharer new) Everything_Shared twin_items twin_world). pp_pairing p = pairing.Share"
proof -
  let ?sh = "twin_sharer new"
  let ?seen = "observed_member ?sh twin_items twin_world"
  obtain g where g: "g \<in> set (confirmed_groups ?sh Everything_Shared twin_items twin_world)"
    and both: "(0, it_record (twin_items ! 0)) \<in> set (gr_members g)" "(1, it_record (twin_items ! 1)) \<in> set (gr_members g)"
    using twin_confirmed by blast
  have two: "length twin_items = 2" by (simp add: twin_items_def)
  have members: "fst m < 2 \<and> snd m = it_record (twin_items ! fst m)" if "m \<in> set (gr_members g)" for m
    using confirmed_members [OF g] that unfolding two by blast
  from both(1) have "gr_members (observed_group ?sh twin_items twin_world g) \<noteq> []" by (auto simp: observed_group_def)
  from keeper_ex [OF this] obtain k where k: "keeper (observed_group ?sh twin_items twin_world g) = Some k" by blast
  from keeper_mem [OF k] obtain m where m: "m \<in> set (gr_members g)" "k = ?seen m" by (auto simp: observed_group_def)
  let ?n = "1 - fst m"
  let ?p = "\<lparr>pp_keeper = k, pp_duplicate = ?seen (?n, it_record (twin_items ! ?n)), pp_len = gr_len g, pp_pairing = pairing.Share\<rparr>"
  from members [OF m(1)] have m': "fst m \<in> {0, 1}" "m = (fst m, it_record (twin_items ! fst m))" by (auto simp: prod_eq_iff)
  have n: "?n \<in> {0, 1}" "?n \<noteq> fst m" "(?n, it_record (twin_items ! ?n)) \<in> set (gr_members g)" using m'(1) both by auto
  have "pair (snd k) (snd (?seen (?n, it_record (twin_items ! ?n)))) = pairing.Share"
    using twin_pair [OF m'(1) n(1) n(2) [symmetric]] m(2) m'(2) by metis
  with k m(2) n have "?p \<in> set (plan (map (observed_group ?sh twin_items twin_world) (confirmed_groups ?sh Everything_Shared twin_items twin_world)))"
    unfolding plan_mem using g by (auto simp: observed_group_def intro!: bexI [of _ g])
  then show ?thesis by (intro bexI [of _ ?p]) (simp_all add: planned_pairs_def Let_def twin_quiet)
qed

text \<open>The run pairs the two files.\<close>

theorem only_duplicates_are_paired_witness:
  "\<exists>p \<in> set (planned_pairs (twin_sharer (\<lambda>_ _. None)) Everything_Shared twin_items twin_world).
     rq_keeper_identity (pair_request twin_items p) \<noteq> rq_duplicate_identity (pair_request twin_items p)"
proof -
  obtain p where p: "p \<in> set (planned_pairs (twin_sharer (\<lambda>_ _. None)) Everything_Shared twin_items twin_world)"
    "pp_pairing p = pairing.Share" using twin_planned by blast
  from only_duplicates_are_paired [OF this] p(1) show ?thesis by (intro bexI [of _ p]) auto
qed

end
