(* ===== verification/Cache_Examples.thy ===== *)
theory Cache_Examples
  imports Cache_Facts Share_Examples
begin

text \<open>A pool of one target with two files, committed to an empty cache and loaded again.\<close>

definition no_view :: stock_view where
  "no_view = (\<lambda>_. None, \<lambda>_. None)"

lemma tables_empty_say: "tables_say tables_empty no_view"
  by (simp add: tables_say_def tables_empty_def no_view_def root_table.stands_for_def file_table.stands_for_def)

lemma twin_session: "pool_session no_view {} twin_pool"
proof -
  have "pool_session no_view (dom (fst no_view)) pool_empty"
    by (rule session_start) (simp add: cacheable_def no_view_def)
  from session_stock [OF this, of job_found "Inr (CloneAndSwap, twin_inventory)"] show ?thesis
    by (simp add: twin_pool_def no_view_def)
qed

lemma twin_stocks: "map_of (pl_stocks twin_pool) root = (if root = job_path
    then Some \<lparr>sk_found = job_found, sk_subject = \<lparr>ss_id = cd_id (fd_candidate job_found),
      ss_location = cd_location (fd_candidate job_found), ss_admission = share_admission.Admitted CloneAndSwap 2 0\<rparr>,
      sk_method = Some CloneAndSwap, sk_files = [([''a''], twin_facts 10), ([''b''], twin_facts 11)]\<rparr> else None)"
  by (simp add: twin_pool_def pool_stock_def put_stock_gets job_found_path pool_empty_def twin_inventory_def
      tm_extend_def tm_insert_def Let_def)

lemma twin_changes: "fst (pool_changes twin_pool) =
    \<lparr>ic_cleared = [job_path], ic_roots = [\<lparr>ir_root = job_path, ir_identity = cd_identity (fd_candidate job_found), ir_unreadable = 0\<rparr>],
     ic_files = [(job_path, [''a''], Some (twin_facts 10)), (job_path, [''b''], Some (twin_facts 11))]\<rparr>"
  by (simp add: twin_pool_def pool_stock_def put_stock_gets pool_changes_def replace_cached_def job_found_path pool_empty_def
      journal_empty_def twin_inventory_def tm_extend_def tm_insert_def Let_def)

lemma job_plain: "plain_path job_path" "length (unix_spell job_path) < 2 ^ 32"
  by (simp_all add: plain_name_def job_path_def unix_spell_def)

lemma twin_cacheable: "cacheable (pool_view twin_pool)"
  by (auto simp: cacheable_def pool_view_def stocked_def twin_stocks stock_root_def twin_facts_def minimum_def on_disk_def
      job_found_def candidate_new_def split: if_splits)

theorem committed_pool_is_loaded_witness:
  "\<exists>t' stocks. cache_commit None 7 (fst (pool_changes twin_pool)) tables_empty = (Inr (), t') \<and>
     cache_load None t' = Inr (Some \<lparr>cp_checkpoint = 7, cp_stocks = stocks\<rparr>) \<and>
     snd (cached_view stocks) (job_path, [''b'']) = Some (twin_facts 11)"
proof -
  have ok: "changes_ok (fst (pool_changes twin_pool))"
    using job_plain by (simp add: changes_ok_def twin_changes keyed_def plain_name_def)
  have "snd (pool_view twin_pool) (job_path, [''b'']) = Some (twin_facts 11)"
    by (simp add: pool_view_def stocked_def twin_stocks)
  moreover obtain t' stocks where "cache_commit None 7 (fst (pool_changes twin_pool)) tables_empty = (Inr (), t')"
    "cache_load None t' = Inr (Some \<lparr>cp_checkpoint = 7, cp_stocks = stocks\<rparr>)" "cached_view stocks = pool_view twin_pool"
    using committed_pool_is_loaded [OF twin_session tables_empty_say twin_cacheable ok, of 7, THEN conjunct1] by auto
  ultimately show ?thesis by auto
qed

end
