(* ===== verification/Spec2Isabelle.thy ===== *)
theory Spec2Isabelle
  imports Cleanup_Guarantees Cleanup_Protocol Sharing_Guarantees Pruning_Guarantees Core_Guarantees
    Managed Git_Output Events Macho Coalescing_System Scanning_Examples Prune_Examples Cache_Examples
begin

text \<open>
  Storage Scout finds build artifacts, decides whether each may be deleted, pruned or have its
  identical files shared, and does so. The repository is a Rust workspace: \<open>crates/core\<close> holds the
  decisions as pure functions, \<open>crates/cli\<close> the observations and the actions, and
  \<open>specs/cleanup.qnt\<close> a protocol specification of the deletion. This library models the core
  completely and, of the command line crate, everything from a scan to the removal, the pruning
  or the sharing of what it found.

  \<^bold>\<open>Foundations.\<close> \<open>Prelude\<close> has the result type (\<open>error + 'a\<close>, the error on the left), the
  collection \<open>result_simps\<close> and the list functions of the Rust library the code uses;
  \<open>Text_Bytes\<close> strings as byte lists with UTF-8 validation and decoding; \<open>Ordered_Maps\<close> and
  \<open>Tree_Maps\<close> the two ordered-map interfaces (locales, each interpreted on the model's own
  association lists); \<open>Checked_Words\<close> checked and saturating arithmetic on machine words.
  Words are at their Rust width everywhere; \<open>usize\<close> is 64 bits.

  \<^bold>\<open>The core.\<close> One theory per file of \<open>crates/core/src\<close>:
    \<^item> \<open>Locations\<close> and \<open>Location_Facts\<close>: \<open>location.rs\<close>, \<open>platform.rs\<close> (parsing, printing,
      containment, keys);
    \<^item> \<open>Areas\<close>: \<open>area.rs\<close>, \<open>table.rs\<close> (protected areas, the rule tables of three platforms);
    \<^item> \<open>Artifacts\<close>: \<open>artifact.rs\<close>, \<open>lock.rs\<close> (kinds, tiers, lock protocols, identification);
    \<^item> \<open>Ownership\<close>: \<open>ownership.rs\<close> (markers, worktrees, settlements, release records);
    \<^item> \<open>Sizes\<close>, \<open>Rejections\<close>, \<open>Candidates\<close>: \<open>size.rs\<close>, \<open>reject.rs\<close>, \<open>candidate.rs\<close>, \<open>select.rs\<close>;
    \<^item> \<open>Gates\<close> and \<open>Gate_Facts\<close>: \<open>gate.rs\<close>, the twelve gates, the pipeline and its entry points;
    \<^item> \<open>Sharing\<close>, \<open>Pruning\<close>, \<open>Managed\<close>, \<open>Git_Output\<close>, \<open>Events\<close>, \<open>Macho\<close>: \<open>share.rs\<close>, \<open>prune.rs\<close>,
      \<open>managed.rs\<close>, \<open>git.rs\<close>, \<open>event.rs\<close>, \<open>macho.rs\<close>;
    \<^item> \<open>Cleanup_Protocol\<close>: \<open>specs/cleanup.qnt\<close> as a step relation, and the simulation that
      \<open>gate::clear\<close> implements its \<open>apply\<close>.
  \<open>Cleanup_Guarantees\<close>, \<open>Sharing_Guarantees\<close>, \<open>Pruning_Guarantees\<close> and \<open>Core_Guarantees\<close> hold the
  properties: when exactly a clearance is given, what it can never let be deleted, what a plan
  of shared files covers, which sessions a prune dooms, round trips of printing and encoding.

  \<^bold>\<open>The command line crate\<close> (\<open>crates/cli/src\<close>).
    \<^item> \<open>File_Trees\<close>: \<open>failure.rs\<close>, paths and what the system answers about them. A directory is a
      tree of answers, each of which may be an error;
    \<^item> \<open>Measuring\<close>, \<open>Measuring_Facts\<close>: \<open>measure.rs\<close>, the strict walk that sizes and digests a
      tree; its result is characterised by the leaves of the tree alone;
    \<^item> \<open>Busy\<close>, \<open>Busy_Facts\<close>: \<open>busy.rs\<close>, locks and surveys. The lock table of the system is the set
      of files that are locked;
    \<^item> \<open>Owners\<close>, \<open>Owners_Facts\<close>: \<open>owners.rs\<close> and \<open>owner\<close> of \<open>ingress.rs\<close>; the cache of worktrees is
      part of the state, and proved never to show;
    \<^item> \<open>Observing\<close>: \<open>observe.rs\<close>, \<open>shape\<close> and \<open>boundary\<close> of \<open>platform.rs\<close>;
    \<^item> \<open>Removal\<close>: \<open>remove_tree\<close> of \<open>platform/unix.rs\<close> on the listing of the parent directory, where
      any system call may fail;
    \<^item> \<open>Applying\<close>, \<open>Applying_Facts\<close>: \<open>apply.rs\<close>, \<open>apply/capability.rs\<close>. The steps of a check read the
      world they find, and \<open>meanwhile\<close> stands between any two of them for whatever other
      processes do to the disk and to their own locks;
    \<^item> \<open>Auto\<close>: selection, confirmation and reaping of \<open>auto.rs\<close>;
    \<^item> \<open>Stations\<close>, \<open>Coalescing\<close>, \<open>Coalescing_System\<close>: the request station of \<open>store.rs\<close>, the driving
      loop of \<open>coalesce.rs\<close> and any number of hooks that interleave step by step;
    \<^item> \<open>Applying_Examples\<close>: one deletion from observation to removal, at which the properties of
      an application are instantiated;
    \<^item> \<open>Scanning\<close>, \<open>Scanning_Facts\<close>, \<open>Scanning_Examples\<close>: \<open>scan.rs\<close>, the walk of a scan and of a
      sighting, whose threads report events in any order to the collector, the roots and the report;
    \<^item> \<open>Prune_Trees\<close>: \<open>prune_file\<close> and \<open>prune_session\<close> of \<open>platform/unix.rs\<close> on the folder of an opened
      root; \<open>Prune_Gathering\<close>: what \<open>prune.rs\<close> finds to remove; \<open>Prune_Runs\<close>, \<open>Prune_Runs_Facts\<close>,
      \<open>Prune_Examples\<close>: its authorizations and runs (\<open>prune.rs\<close>, \<open>prune/capability.rs\<close>);
    \<^item> \<open>Inventories\<close>, \<open>Pools\<close>, \<open>Pool_Facts\<close>: the files of the targets that may share blocks, their index
      by length and the journal of their cache (\<open>dedupe.rs\<close>). The invariant is that the index holds
      exactly the files of the stocks;
    \<^item> \<open>Share_Prints\<close>, \<open>Share_Runs\<close>, \<open>Share_Runs_Facts\<close>, \<open>Share_Pairs\<close>: samples and digests, admission,
      the groups and pairs of a run, and settling each pair under the lease of its target
      (\<open>dedupe.rs\<close>, \<open>dedupe/capability.rs\<close>);
    \<^item> \<open>Calls\<close>: sequences of system calls with a script of failures and interference, and their proof
      rules; \<open>Share_Files\<close>, \<open>Share_Files_Facts\<close>: a share by cloning and swapping
      (\<open>platform/share_macos.rs\<close>, \<open>stat\<close> and \<open>unlink\<close> of \<open>platform/unix.rs\<close>); \<open>Share_Ranges\<close>: a share by
      ranges (\<open>platform/share_linux.rs\<close>);
    \<^item> \<open>Share_System\<close>, \<open>Share_Examples\<close>: a whole run on an APFS volume whose names all keep their
      content, and the concrete volume at which the properties of sharing are instantiated;
    \<^item> \<open>Cache_Values\<close>, \<open>Watch_Cache\<close>: the watcher's cache of the pool (\<open>WatchCache\<close> of \<open>store.rs\<close>),
      its bytes and its tables; \<open>Cache_Facts\<close>, \<open>Cache_Examples\<close>: the journal follows the pool, so that
      a load after a commit finds the pool of that time.

  \<^bold>\<open>How they interact.\<close> A plan chooses candidates (\<open>Candidates\<close>); a check observes each
  (\<open>Observing\<close>), surveys its locks and markers (\<open>Busy\<close>, \<open>Owners\<close>), takes them, asks the gates
  (\<open>Gates\<close>), measures (\<open>Measuring\<close>), asks again, and only then removes (\<open>Removal\<close>). The
  properties of the parts compose in \<open>Applying_Facts\<close>: what goes is the recorded tree, under the
  locks of its owners, with what was measured being what was recorded; a dry run predicts all
  of it. A scan finds the candidates (\<open>Scanning\<close>), and what it measures is what the check before a
  removal measures. A prune takes the same road to a lease and removes single files and sessions
  inside the target (\<open>Prune_Runs\<close>). A sharing run takes it once for every target and
  replaces duplicates inside (\<open>Share_Runs\<close>, \<open>Share_System\<close>). Hooks run such passes one at a time (\<open>Coalescing_System\<close>): no request is lost, no two
  runs overlap, and every schedule ends.

  \<^bold>\<open>Bounds.\<close> No definition uses fuel. Loops are structural recursion, or recursion with a
  termination proof (the survey, the walk of a scan, an inventory and the weight of a
  session by the nodes still pending; the comparison of two files and the ranges of a share by
  the bytes that are left); \<open>drive\<close>, which another process can keep
  running, is a \<open>partial_function\<close>, is shown equal to a step machine, and ends in every schedule
  within \<open>steps_left\<close> steps of finitely many hooks.

  \<^bold>\<open>Parameters.\<close> SHA-256, Unicode lowercasing, the JSON reader, git, and the answers of the
  operating system are arguments of the definitions. Where a property needs something of them it
  is a hypothesis of it: that two measured files do not collide, or that the surveyed locks are
  files that identify themselves. Other processes are functions on the disk that the model calls
  between steps; a property that needs them to leave something alone says so.

  \<^bold>\<open>Not modelled.\<close> The watch session (\<open>watch.rs\<close>), managed tools and releases (\<open>managed.rs\<close>, \<open>release.rs\<close>), and \<open>run\<close> of \<open>auto.rs\<close> that joins
  them; argument parsing, printing and tracing (\<open>main.rs\<close>, \<open>report.rs\<close>, \<open>doctor.rs\<close>, \<open>explain.rs\<close>,
  \<open>trace.rs\<close>); the raw system calls and the Windows half of the platform layer; the Kani harnesses,
  the test kit and \<open>xtask\<close>.
\<close>

end
